(* ===== verification/Native_Prelude.thy ===== *)
theory Native_Prelude
  imports Main "HOL-Library.Word"
begin

text \<open>
  Shared vocabulary of the development: the machine integers of the C ABI, its fixed
  status categories (\<open>shiroha_external_native.h\<close>), wide strings, and the result
  monad that renders the source's \<open>if (status == OK) status = step();\<close> chains with
  their two exception handlers.  Two collections carry the proofs: \<open>wp_simps\<close>
  executes a chain symbolically, \<open>pres_intros\<close> shows that a chain keeps a predicate
  of its state.
\<close>

unbundle bit_operations_syntax

section \<open>Machine integers and strings\<close>

type_synonym u8 = "8 word"
type_synonym u16 = "16 word"
type_synonym u32 = "32 word"
type_synonym u64 = "64 word"

text \<open>A Windows \<open>WCHAR\<close> is a 16-bit code unit; a \<open>std::wstring\<close> is a list of them.\<close>

type_synonym wchar = u16
type_synonym wstring = "wchar list"

definition wide :: "string \<Rightarrow> wstring" where
  "wide s = map of_char s"

definition narrow :: "string \<Rightarrow> u8 list" where
  "narrow s = map of_char s"

definition hex_digits :: "string" where
  "hex_digits = ''0123456789abcdef''"

text \<open>The two lower-case hexadecimal digits of a byte, most significant first.\<close>

definition hex_pair :: "u8 \<Rightarrow> string" where
  "hex_pair b = [hex_digits ! unat (drop_bit 4 b), hex_digits ! unat (b AND 15)]"

definition hex_text :: "u8 list \<Rightarrow> string" where
  "hex_text bs = concat (map hex_pair bs)"

text \<open>\<open>std::to_wstring\<close> of an unsigned integer.\<close>

fun decimal :: "nat \<Rightarrow> string" where
  "decimal n = (if n < 10 then [hex_digits ! n] else decimal (n div 10) @ [hex_digits ! (n mod 10)])"

declare decimal.simps [simp del]

definition INT64_MAX :: u64 where
  "INT64_MAX = 0x7FFFFFFFFFFFFFFF"

section \<open>Status categories of the C ABI\<close>

text \<open>
  \<open>enum ShirohaNativeStatus\<close>.  The injected operations return an \<open>int32_t\<close>; a value
  outside the enumeration is \<open>OTHER_STATUS\<close>.
\<close>

datatype status =
    OK
  | INVALID_INPUT
  | ABI_MISMATCH
  | RESOURCE_LIMIT
  | UNAVAILABLE
  | DATA_CORRUPT
  | MISSING
  | COMMIT_UNKNOWN
  | VERIFICATION_REJECTED
  | OTHER_STATUS int

fun status_code :: "status \<Rightarrow> int" where
  "status_code OK = 0"
| "status_code INVALID_INPUT = 1"
| "status_code ABI_MISMATCH = 2"
| "status_code RESOURCE_LIMIT = 3"
| "status_code UNAVAILABLE = 4"
| "status_code DATA_CORRUPT = 5"
| "status_code MISSING = 6"
| "status_code COMMIT_UNKNOWN = 7"
| "status_code VERIFICATION_REJECTED = 8"
| "status_code (OTHER_STATUS n) = n"

definition ABI_VERSION :: u32 where
  "ABI_VERSION = 3"

definition MAX_BYTES :: u64 where
  "MAX_BYTES = 65536"

text \<open>Owner calls accept ABI 2 and 3; the memory-only calls also ABI 1.\<close>

definition owner_version :: "u32 \<Rightarrow> bool" where
  "owner_version v \<longleftrightarrow> v = 2 \<or> v = ABI_VERSION"

definition ROLE_APP :: u32 where "ROLE_APP = 1"
definition ROLE_BRIDGE :: u32 where "ROLE_BRIDGE = 2"

lemma roles_distinct [simp]: "ROLE_APP \<noteq> ROLE_BRIDGE" "ROLE_BRIDGE \<noteq> ROLE_APP"
  by (simp_all add: ROLE_APP_def ROLE_BRIDGE_def)

section \<open>Status chains with exceptions\<close>

text \<open>
  A step either continues with a value (its status was \<open>OK\<close>), or stops the rest of
  the chain: with the failing status it assigned, or by an exception, which the source
  distinguishes into \<open>std::bad_alloc\<close> and everything else.
\<close>

datatype fault = Status status | BadAlloc | OtherExn

datatype 'a res = Val 'a | Err fault

type_synonym ('s, 'a) prog = "'s \<Rightarrow> 'a res \<times> 's"

definition ret :: "'a \<Rightarrow> ('s, 'a) prog" where
  "ret x s = (Val x, s)"

definition err :: "fault \<Rightarrow> ('s, 'a) prog" where
  "err e s = (Err e, s)"

definition seq :: "('s, 'a) prog \<Rightarrow> ('a \<Rightarrow> ('s, 'b) prog) \<Rightarrow> ('s, 'b) prog" where
  "seq m f s = (case m s of (Val x, t) \<Rightarrow> f x t | (Err e, t) \<Rightarrow> (Err e, t))"

text \<open>A handler sees the fault and the state the failing step left behind.\<close>

definition handle :: "('s, 'a) prog \<Rightarrow> (fault \<Rightarrow> ('s, 'a) prog) \<Rightarrow> ('s, 'a) prog" where
  "handle m h s = (case m s of (Val x, t) \<Rightarrow> (Val x, t) | (Err e, t) \<Rightarrow> h e t)"

definition require :: "bool \<Rightarrow> status \<Rightarrow> ('s, unit) prog" where
  "require b st = (if b then ret () else err (Status st))"

definition gets :: "('s \<Rightarrow> 'a) \<Rightarrow> ('s, 'a) prog" where
  "gets f s = (Val (f s), s)"

definition modify :: "('s \<Rightarrow> 's) \<Rightarrow> ('s, unit) prog" where
  "modify f s = (Val (), f s)"

text \<open>The status a caught chain ends with: \<open>bad_alloc\<close> is a resource limit, any other
  exception is unavailability.\<close>

fun settle :: "'a res \<Rightarrow> status" where
  "settle (Val x) = OK"
| "settle (Err (Status s)) = s"
| "settle (Err BadAlloc) = RESOURCE_LIMIT"
| "settle (Err OtherExn) = UNAVAILABLE"

subsection \<open>Symbolic execution\<close>

text \<open>\<open>wp m Q s\<close>: running \<open>m\<close> from \<open>s\<close> ends in a result and a state satisfying \<open>Q\<close>.\<close>

definition wp :: "('s, 'a) prog \<Rightarrow> ('a res \<Rightarrow> 's \<Rightarrow> bool) \<Rightarrow> 's \<Rightarrow> bool" where
  "wp m Q s = (case m s of (r, t) \<Rightarrow> Q r t)"

named_theorems wp_simps \<open>symbolic execution of status chains\<close>
named_theorems pres_intros \<open>status chains that keep a predicate of the state\<close>

lemma wp_ret [wp_simps]: "wp (ret x) Q s = Q (Val x) s"
  by (simp add: wp_def ret_def)

lemma wp_err [wp_simps]: "wp (err e) Q s = Q (Err e) s"
  by (simp add: wp_def err_def)

lemma wp_seq [wp_simps]:
  "wp (seq m f) Q s = wp m (\<lambda>r t. case r of Val x \<Rightarrow> wp (f x) Q t | Err e \<Rightarrow> Q (Err e) t) s"
  by (simp add: wp_def seq_def split: prod.splits res.splits)

lemma wp_handle [wp_simps]:
  "wp (handle m h) Q s = wp m (\<lambda>r t. case r of Val x \<Rightarrow> Q (Val x) t | Err e \<Rightarrow> wp (h e) Q t) s"
  by (simp add: wp_def handle_def split: prod.splits res.splits)

lemma wp_require [wp_simps]:
  "wp (require b st) Q s = (if b then Q (Val ()) s else Q (Err (Status st)) s)"
  by (simp add: require_def wp_simps)

lemma wp_gets [wp_simps]: "wp (gets f) Q s = Q (Val (f s)) s"
  by (simp add: wp_def gets_def)

lemma wp_modify [wp_simps]: "wp (modify f) Q s = Q (Val ()) (f s)"
  by (simp add: wp_def modify_def)

lemma wp_if [wp_simps]: "wp (if b then m else n) Q s = (if b then wp m Q s else wp n Q s)"
  by simp

lemma wp_mono:
  assumes "wp m Q s" and "\<And>r t. Q r t \<Longrightarrow> R r t"
  shows "wp m R s"
  using assms by (auto simp: wp_def)

lemma wp_bind_res:
  assumes "wp m (\<lambda>r t. J t) s" and "\<And>x t. J t \<Longrightarrow> wp (f x) Q t" and "\<And>e t. J t \<Longrightarrow> Q (Err e) t"
  shows "wp (seq m f) Q s"
  unfolding wp_seq by (rule wp_mono [OF assms(1)]) (auto split: res.splits intro: assms(2,3))

lemma wp_val_err:
  assumes "wp m (\<lambda>r t. case r of Val x \<Rightarrow> J x t | Err e \<Rightarrow> K t) s"
    and "\<And>x t. J x t \<Longrightarrow> wp (f x) Q t" and "\<And>e t. K t \<Longrightarrow> Q (Err e) t"
  shows "wp (seq m f) Q s"
  unfolding wp_seq by (rule wp_mono [OF assms(1)]) (auto split: res.splits intro: assms(2,3))

lemma wp_later: "(\<And>x t. wp (f x) Q t) \<Longrightarrow> (\<And>e t. Q (Err e) t) \<Longrightarrow> wp (seq m f) Q s"
  unfolding wp_seq by (simp add: wp_def split: prod.splits res.splits)

lemma wp_conj: "wp m (\<lambda>r t. Q r t \<and> R r t) s \<longleftrightarrow> wp m Q s \<and> wp m R s"
  by (auto simp: wp_def split: prod.splits)

lemma wp_run: "wp m Q s \<Longrightarrow> m s = (r, t) \<Longrightarrow> Q r t"
  by (simp add: wp_def)

subsection \<open>Preserved predicates\<close>

definition pres :: "('s \<Rightarrow> bool) \<Rightarrow> ('s, 'a) prog \<Rightarrow> bool" where
  "pres I m \<longleftrightarrow> (\<forall>s. I s \<longrightarrow> I (snd (m s)))"

lemma presI: "(\<And>s. I s \<Longrightarrow> I (snd (m s))) \<Longrightarrow> pres I m"
  by (simp add: pres_def)

lemma presD: "pres I m \<Longrightarrow> I s \<Longrightarrow> m s = (r, t) \<Longrightarrow> I t"
  by (metis pres_def snd_conv)

lemma pres_ret [pres_intros]: "pres I (ret x)"
  by (simp add: pres_def ret_def)

lemma pres_err [pres_intros]: "pres I (err e)"
  by (simp add: pres_def err_def)

lemma pres_gets [pres_intros]: "pres I (gets f)"
  by (simp add: pres_def gets_def)

lemma pres_require [pres_intros]: "pres I (require b st)"
  by (simp add: require_def pres_intros)

lemma pres_seq [pres_intros]: "pres I m \<Longrightarrow> (\<And>x. pres I (f x)) \<Longrightarrow> pres I (seq m f)"
  unfolding pres_def seq_def
  by (simp split: prod.splits res.splits) (metis snd_conv)

lemma pres_handle [pres_intros]: "pres I m \<Longrightarrow> (\<And>e. pres I (h e)) \<Longrightarrow> pres I (handle m h)"
  unfolding pres_def handle_def
  by (simp split: prod.splits res.splits) (metis snd_conv)

lemma pres_if [pres_intros]: "pres I m \<Longrightarrow> pres I n \<Longrightarrow> pres I (if b then m else n)"
  by simp

lemma pres_modify: "(\<And>s. I s \<Longrightarrow> I (f s)) \<Longrightarrow> pres I (modify f)"
  by (simp add: pres_def modify_def)

lemma wp_pres: "pres I m \<Longrightarrow> I s \<Longrightarrow> wp m (\<lambda>r t. I t) s"
  by (simp add: pres_def wp_def split: prod.splits) (metis snd_conv)

lemma pres_wp: "(\<And>s. I s \<Longrightarrow> wp m (\<lambda>r t. I t) s) \<Longrightarrow> pres I m"
  by (auto simp: pres_def wp_def split_beta)

lemma wp_seq_pres:
  assumes "pres I m" and "I s" and "\<And>e t. I t \<Longrightarrow> Q (Err e) t" and "\<And>x t. I t \<Longrightarrow> wp (f x) Q t"
  shows "wp (seq m f) Q s"
  unfolding wp_seq
  by (rule wp_mono [OF wp_pres [OF assms(1,2)]]) (auto split: res.splits intro: assms(3,4))

text \<open>Predicates composed of preserved ones are preserved.\<close>

lemma pres_const: "pres (\<lambda>s. c) m"
  by (simp add: pres_def)

lemma pres_conj: "pres I m \<Longrightarrow> pres J m \<Longrightarrow> pres (\<lambda>s. I s \<and> J s) m"
  by (simp add: pres_def)

lemma pres_disj: "pres I m \<Longrightarrow> pres J m \<Longrightarrow> pres (\<lambda>s. I s \<or> J s) m"
  by (auto simp: pres_def)

lemma pres_ex: "(\<And>x. pres (I x) m) \<Longrightarrow> pres (\<lambda>s. \<exists>x. I x s) m"
  unfolding pres_def by blast

lemma pres_all: "(\<And>x. pres (I x) m) \<Longrightarrow> pres (\<lambda>s. \<forall>x. I x s) m"
  unfolding pres_def by blast

lemma pres_imp: "pres I m \<Longrightarrow> pres (\<lambda>s. c \<longrightarrow> I s) m"
  by (auto simp: pres_def)

lemmas pres_composed = pres_const pres_conj pres_disj pres_ex pres_all pres_imp

subsection \<open>Failures carry a failing status\<close>

text \<open>A chain stops only on a status other than \<open>OK\<close>, so \<open>settle\<close> answers \<open>OK\<close> for values alone.\<close>

named_theorems proper_intros \<open>chains that never stop with the status \<open>OK\<close>\<close>

definition proper :: "('s, 'a) prog \<Rightarrow> bool" where
  "proper m \<longleftrightarrow> (\<forall>s. fst (m s) \<noteq> Err (Status OK))"

lemma proper_ret [proper_intros]: "proper (ret x)"
  by (simp add: proper_def ret_def)

lemma proper_err: "e \<noteq> Status OK \<Longrightarrow> proper (err e)"
  by (simp add: proper_def err_def)

lemma proper_gets [proper_intros]: "proper (gets f)"
  by (simp add: proper_def gets_def)

lemma proper_modify [proper_intros]: "proper (modify f)"
  by (simp add: proper_def modify_def)

lemma proper_require [proper_intros]: "st \<noteq> OK \<Longrightarrow> proper (require b st)"
  by (simp add: require_def proper_ret proper_err)

lemma proper_seq [proper_intros]: "proper m \<Longrightarrow> (\<And>x. proper (f x)) \<Longrightarrow> proper (seq m f)"
  unfolding proper_def seq_def by (simp split: prod.splits res.splits) (metis fst_conv)

lemma proper_if [proper_intros]: "proper m \<Longrightarrow> proper n \<Longrightarrow> proper (if b then m else n)"
  by simp

lemma settle_proper: "proper m \<Longrightarrow> m s = (r, t) \<Longrightarrow> settle r = OK \<longleftrightarrow> (\<exists>x. r = Val x)"
  unfolding proper_def by (cases r rule: settle.cases) (auto, metis fst_conv)

end
