(* ===== verification/Native_Memory.thy ===== *)
theory Native_Memory
  imports Native_Prelude
begin

text \<open>
  Byte-addressed memory of the C ABI and the pointer checks that guard every export:
  \<open>span\<close>, \<open>overlaps\<close> and the count checks of \<open>native_core.cpp\<close>, \<open>native_crypto.cpp\<close>,
  \<open>association_files.cpp\<close>, \<open>exchange_files.cpp\<close> and \<open>discovery_files.cpp\<close>.  Addresses
  are 64-bit words whose additions wrap; the lemmas show that the checks rule the
  wrap-around out, so that the word comparison of \<open>overlaps\<close> decides whether two
  regions of memory share a byte.
\<close>

type_synonym ptr = u64
type_synonym mem = "u64 \<Rightarrow> u8"

section \<open>Pointer checks\<close>

definition bounded :: "u64 \<Rightarrow> bool" where
  "bounded len \<longleftrightarrow> 0 < len \<and> len \<le> MAX_BYTES"

definition span :: "ptr \<Rightarrow> u64 \<Rightarrow> bool" where
  "span p len \<longleftrightarrow> p \<noteq> 0 \<and> bounded len \<and> p \<le> -1 - len"

definition overlaps :: "ptr \<Rightarrow> u64 \<Rightarrow> ptr \<Rightarrow> u64 \<Rightarrow> bool" where
  "overlaps x a_size y b_size \<longleftrightarrow> x < y + b_size \<and> y < x + a_size"

definition aligned8 :: "ptr \<Rightarrow> bool" where
  "aligned8 p \<longleftrightarrow> p mod 8 = 0"

definition valid_count :: "ptr \<Rightarrow> bool" where
  "valid_count p \<longleftrightarrow> span p 8 \<and> aligned8 p"

section \<open>Regions and memory updates\<close>

definition in_region :: "ptr \<Rightarrow> u64 \<Rightarrow> u64 \<Rightarrow> bool" where
  "in_region p len a \<longleftrightarrow> unat p \<le> unat a \<and> unat a < unat p + unat len"

definition zero_mem :: "ptr \<Rightarrow> u64 \<Rightarrow> mem \<Rightarrow> mem" where
  "zero_mem p len m = (\<lambda>a. if in_region p len a then 0 else m a)"

definition write_bytes :: "ptr \<Rightarrow> u8 list \<Rightarrow> mem \<Rightarrow> mem" where
  "write_bytes p bs m =
     (\<lambda>a. if unat p \<le> unat a \<and> unat a < unat p + length bs then bs ! (unat a - unat p) else m a)"

definition read_bytes :: "ptr \<Rightarrow> u64 \<Rightarrow> mem \<Rightarrow> u8 list" where
  "read_bytes p len m = map (\<lambda>i. m (p + of_nat i)) [0 ..< unat len]"

text \<open>A \<open>uint64_t\<close> is stored in eight little-endian bytes.\<close>

definition le_bytes :: "u64 \<Rightarrow> u8 list" where
  "le_bytes v = map (\<lambda>i. ucast (drop_bit (8 * i) v)) [0 ..< 8]"

definition of_le_bytes :: "u8 list \<Rightarrow> u64" where
  "of_le_bytes bs = foldr (\<lambda>b acc. ucast b OR push_bit 8 acc) bs 0"

definition store64 :: "ptr \<Rightarrow> u64 \<Rightarrow> mem \<Rightarrow> mem" where
  "store64 p v m = write_bytes p (le_bytes v) m"

definition load64 :: "ptr \<Rightarrow> mem \<Rightarrow> u64" where
  "load64 p m = of_le_bytes (read_bytes p 8 m)"

section \<open>The checks exclude wrap-around\<close>

lemma span_not_null [dest]: "span p len \<Longrightarrow> p \<noteq> 0"
  by (simp add: span_def)

lemma bounded_unat: "bounded len \<Longrightarrow> 0 < unat len \<and> unat len \<le> 65536"
  by (auto simp: bounded_def MAX_BYTES_def word_less_nat_alt word_le_nat_alt)

lemma span_unat:
  assumes "span p len"
  shows "unat p + unat len < 2 ^ 64"
proof -
  have "unat p \<le> unat (- 1 - len)"
    using assms by (simp add: span_def word_le_nat_alt)
  also have "unat (- 1 - len) = unat (- 1 :: u64) - unat len"
    by (rule unat_sub) simp
  also have "unat (- 1 :: u64) = 2 ^ 64 - 1"
    using unat_minus_one [of "0 :: u64"] unsigned_minus_1_eq_mask [where 'a = nat and 'b = 64] by (simp add: mask_eq_exp_minus_1)
  finally have "unat p \<le> 2 ^ 64 - 1 - unat len" .
  moreover have "unat len \<le> 65536"
    using assms bounded_unat by (auto simp: span_def)
  ultimately show ?thesis by simp
qed

lemma span_unat_plus: "span p len \<Longrightarrow> unat (p + len) = unat p + unat len"
  by (drule span_unat) (simp add: unat_word_ariths)

lemma span_add_nat: "span p len \<Longrightarrow> i < unat len \<Longrightarrow> unat (p + of_nat i) = unat p + i"
  by (drule span_unat) (simp add: unat_word_ariths unat_of_nat)

lemma in_region_nth:
  assumes "span p len"
  shows "in_region p len a \<longleftrightarrow> (\<exists>i < unat len. a = p + of_nat i)"
proof
  assume "in_region p len a"
  then have "unat a - unat p < unat len" and "unat p + (unat a - unat p) = unat a"
    by (auto simp: in_region_def)
  moreover from this have "unat (p + of_nat (unat a - unat p)) = unat a"
    using span_add_nat [OF assms] by simp
  ultimately show "\<exists>i < unat len. a = p + of_nat i"
    by (metis unsigned_word_eqI)
next
  assume "\<exists>i < unat len. a = p + of_nat i"
  then show "in_region p len a"
    using span_add_nat [OF assms] by (auto simp: in_region_def)
qed

lemma overlaps_nat:
  assumes "span x n" and "span y k"
  shows "overlaps x n y k \<longleftrightarrow> unat x < unat y + unat k \<and> unat y < unat x + unat n"
  using assms by (simp add: overlaps_def word_less_nat_alt span_unat_plus)

lemma overlaps_sym: "overlaps x n y k \<longleftrightarrow> overlaps y k x n"
  by (auto simp: overlaps_def)

lemma region_start: "span x n \<Longrightarrow> in_region x n x"
  using bounded_unat by (auto simp: span_def in_region_def)

lemma overlaps_iff_shared:
  assumes "span x n" and "span y k"
  shows "overlaps x n y k \<longleftrightarrow> (\<exists>a. in_region x n a \<and> in_region y k a)"
proof
  assume "overlaps x n y k"
  then have lt: "unat x < unat y + unat k" "unat y < unat x + unat n"
    using overlaps_nat [OF assms] by auto
  show "\<exists>a. in_region x n a \<and> in_region y k a"
  proof (cases "unat x \<le> unat y")
    case True
    with lt region_start [OF assms(2)] show ?thesis
      by (intro exI [of _ y]) (auto simp: in_region_def)
  next
    case False
    with lt region_start [OF assms(1)] show ?thesis
      by (intro exI [of _ x]) (auto simp: in_region_def)
  qed
next
  assume "\<exists>a. in_region x n a \<and> in_region y k a"
  then show "overlaps x n y k"
    using overlaps_nat [OF assms] by (auto simp: in_region_def)
qed

lemma disjoint_regions:
  "span x n \<Longrightarrow> span y k \<Longrightarrow> \<not> overlaps x n y k \<Longrightarrow> in_region x n a \<Longrightarrow> \<not> in_region y k a"
  using overlaps_iff_shared by blast

section \<open>Reading back what was written\<close>

lemma zero_mem_in [simp]: "in_region p n a \<Longrightarrow> zero_mem p n m a = 0"
  by (simp add: zero_mem_def)

lemma zero_mem_out [simp]: "\<not> in_region p n a \<Longrightarrow> zero_mem p n m a = m a"
  by (simp add: zero_mem_def)

lemma write_bytes_out:
  "span p n \<Longrightarrow> length bs \<le> unat n \<Longrightarrow> \<not> in_region p n a \<Longrightarrow> write_bytes p bs m a = m a"
  by (auto simp: write_bytes_def in_region_def)

lemma write_bytes_nth:
  "span p n \<Longrightarrow> length bs \<le> unat n \<Longrightarrow> i < length bs \<Longrightarrow> write_bytes p bs m (p + of_nat i) = bs ! i"
  using span_add_nat [of p n i] by (simp add: write_bytes_def)

lemma length_le_bytes [simp]: "length (le_bytes v) = 8"
  by (simp add: le_bytes_def)

lemma length_read_bytes [simp]: "length (read_bytes p n m) = unat n"
  by (simp add: read_bytes_def)

lemma read_write_bytes:
  assumes "span p n" and "length bs = unat n"
  shows "read_bytes p n (write_bytes p bs m) = bs"
  using write_bytes_nth [OF assms(1)] assms(2)
  by (auto simp: read_bytes_def intro!: nth_equalityI)

lemma read_zero_mem:
  assumes "span p n"
  shows "read_bytes p n (zero_mem p n m) = replicate (unat n) 0"
proof -
  have "zero_mem p n m (p + of_nat i) = 0" if "i < unat n" for i
    using that in_region_nth [OF assms] by (blast intro: zero_mem_in)
  then show ?thesis
    by (auto simp: read_bytes_def intro!: nth_equalityI)
qed

lemma read_bytes_cong:
  assumes "span p n" and "\<And>a. in_region p n a \<Longrightarrow> m a = m' a"
  shows "read_bytes p n m = read_bytes p n m'"
  using assms(2) in_region_nth [OF assms(1)] by (fastforce simp: read_bytes_def)

lemma le_byte_step:
  "(ucast (ucast (drop_bit k v :: u64) :: u8) :: u64) OR push_bit 8 (drop_bit (k + 8) v) = drop_bit k v"
proof (rule bit_word_eqI)
  fix n assume n: "n < LENGTH(64)"
  show "bit ((ucast (ucast (drop_bit k v :: u64) :: u8) :: u64) OR push_bit 8 (drop_bit (k + 8) v)) n
      = bit (drop_bit k v) n"
  proof (cases "n < 8")
    case False
    then have "k + 8 + (n - 8) = k + n" by simp
    then show ?thesis using False n by (auto simp: bit_simps)
  qed (auto simp: bit_simps)
qed

lemma of_le_suffix:
  "j \<le> 8 \<Longrightarrow> of_le_bytes (map (\<lambda>i. ucast (drop_bit (8 * i) v)) [j ..< 8]) = drop_bit (8 * j) v"
proof (induction j rule: inc_induct)
  case base
  show ?case
    by (rule bit_word_eqI) (simp add: of_le_bytes_def bit_simps)
next
  case (step n)
  then show ?case
    using le_byte_step [of "8 * n" v] by (simp add: of_le_bytes_def upt_conv_Cons add.commute)
qed

lemma of_le_le_bytes: "of_le_bytes (le_bytes v) = v"
  using of_le_suffix [of 0 v] by (simp add: le_bytes_def)

lemma unat_8 [simp]: "unat (8 :: u64) = 8"
  by simp

lemma load_store64: "span p 8 \<Longrightarrow> load64 p (store64 p v m) = v"
  by (simp add: load64_def store64_def read_write_bytes of_le_le_bytes)

lemma store64_out: "span p 8 \<Longrightarrow> \<not> in_region p 8 a \<Longrightarrow> store64 p v m a = m a"
  unfolding store64_def by (rule write_bytes_out) auto

lemma load64_other:
  assumes "span p 8" and "\<And>a. in_region p 8 a \<Longrightarrow> m a = m' a"
  shows "load64 p m = load64 p m'"
  using read_bytes_cong [OF assms] by (simp add: load64_def)

section \<open>Reading one region after writing another\<close>

named_theorems mem_simps \<open>reads of a region after writes to disjoint regions\<close>

lemma read_other:
  assumes "span p n" "span q k" "\<not> overlaps p n q k"
    and "\<And>a. \<not> in_region q k a \<Longrightarrow> m' a = m a"
  shows "read_bytes p n m' = read_bytes p n m"
  using assms(4) disjoint_regions [OF assms(1-3)] by (intro read_bytes_cong [OF assms(1)]) auto

lemma read_zero_other [mem_simps]:
  "span p n \<Longrightarrow> span q k \<Longrightarrow> \<not> overlaps p n q k \<Longrightarrow> read_bytes p n (zero_mem q k m) = read_bytes p n m"
  by (rule read_other) auto

lemma read_write_other [mem_simps]:
  "span p n \<Longrightarrow> span q k \<Longrightarrow> \<not> overlaps p n q k \<Longrightarrow>
   read_bytes p n (write_bytes q (take (unat k) bs) m) = read_bytes p n m"
  by (rule read_other [where q = q and k = k]) (auto intro: write_bytes_out)

lemma read_store_other [mem_simps]:
  "span p n \<Longrightarrow> span q 8 \<Longrightarrow> \<not> overlaps p n q 8 \<Longrightarrow> read_bytes p n (store64 q v m) = read_bytes p n m"
  by (rule read_other [where q = q and k = 8]) (auto intro: store64_out)

lemma read_zero_self [mem_simps]:
  "span p n \<Longrightarrow> read_bytes p n (zero_mem p n m) = replicate (unat n) 0"
  by (rule read_zero_mem)

lemma load_store_self [mem_simps]: "span p 8 \<Longrightarrow> of_le_bytes (read_bytes p 8 (store64 p v m)) = v"
  using load_store64 by (simp add: load64_def)

lemma read_write_self [mem_simps]:
  "span p n \<Longrightarrow> length bs = unat n \<Longrightarrow> read_bytes p n (write_bytes p bs m) = bs"
  by (rule read_write_bytes)

text \<open>A checked span covers its shorter prefixes.\<close>

lemma span_shorter:
  assumes "span p n" and "0 < unat m" and "unat m \<le> unat n"
  shows "span p m"
proof -
  have "- 1 - n \<le> - 1 - m"
    unfolding word_le_nat_alt using assms(3)
    by (simp only: unat_sub [OF word_order.extremum] diff_le_mono2)
  then show ?thesis
    using assms by (auto simp: span_def bounded_def word_less_nat_alt word_le_nat_alt)
qed

lemma overlaps_shorter:
  assumes "span p n" "span q k" "\<not> overlaps p n q k" and "0 < unat m" "unat m \<le> unat n"
  shows "\<not> overlaps p m q k"
  using assms(3,5) unfolding overlaps_nat [OF assms(1,2)] overlaps_nat [OF span_shorter [OF assms(1,4,5)] assms(2)]
  by linarith

end
