(* ===== verification/Native_Core.thy ===== *)
theory Native_Core
  imports Native_Memory
begin

text \<open>
  \<open>native_core.cpp\<close>: the memory-only exports of the helper DLL.  \<open>prepare\<close>,
  \<open>transform\<close> (DPAPI protect and unprotect), \<open>local_app_data\<close> and the buffer
  allocator.  The Windows services are the \<open>Operations\<close> table of \<open>native_core.h\<close>,
  here the record \<open>core_ops\<close>: each field answers what the service returned, and the
  state records which services were called and what was wiped and freed.
\<close>

section \<open>State and injected operations\<close>

text \<open>\<open>DATA_BLOB\<close> output of a call: the address may be null; \<open>cbData\<close> is its length.\<close>

type_synonym blob = "u8 list option"

record core_ops =
  protect_op :: "u8 list \<Rightarrow> bool \<times> blob"
  unprotect_op :: "u8 list \<Rightarrow> bool \<times> blob"
  known_folder_op :: "int \<times> (nat \<Rightarrow> wchar) option"

datatype core_event =
    Protect "u8 list"
  | Unprotect "u8 list"
  | KnownFolder
  | WipeLocal nat
  | FreeLocal
  | FreeTask

record core_state =
  cmem :: mem
  cevents :: "core_event list"

definition set_mem :: "(mem \<Rightarrow> mem) \<Rightarrow> core_state \<Rightarrow> core_state" where
  "set_mem f s = s\<lparr>cmem := f (cmem s)\<rparr>"

definition log_events :: "core_event list \<Rightarrow> core_state \<Rightarrow> core_state" where
  "log_events es s = s\<lparr>cevents := cevents s @ es\<rparr>"

lemma set_mem_sel [simp]:
  "cmem (set_mem f s) = f (cmem s)" "cevents (set_mem f s) = cevents s"
  by (simp_all add: set_mem_def)

lemma log_events_sel [simp]:
  "cmem (log_events es s) = cmem s" "cevents (log_events es s) = cevents s @ es"
  by (simp_all add: log_events_def)

section \<open>Output preparation\<close>

definition prepare :: "u32 \<Rightarrow> ptr \<Rightarrow> u64 \<Rightarrow> ptr \<Rightarrow> core_state \<Rightarrow> status \<times> core_state" where
  "prepare version output capacity written s =
     (if \<not> span written 8 \<or> \<not> aligned8 written then (INVALID_INPUT, s)
      else if span output capacity \<and> overlaps output capacity written 8 then (INVALID_INPUT, s)
      else let s1 = set_mem (store64 written 0) s in
        if \<not> span output capacity then (INVALID_INPUT, s1)
        else let s2 = set_mem (zero_mem output capacity) s1 in
          if version \<noteq> 1 \<and> version \<noteq> 2 \<and> version \<noteq> ABI_VERSION then (ABI_MISMATCH, s2)
          else (OK, s2))"

section \<open>DPAPI protect and unprotect\<close>

text \<open>The destructor of \<open>LocalResult\<close>: wipe the helper-owned result, then \<open>LocalFree\<close>.\<close>

definition free_local_result :: "blob \<Rightarrow> core_event list" where
  "free_local_result b = (case b of None \<Rightarrow> [] | Some bs \<Rightarrow> [WipeLocal (length bs), FreeLocal])"

text \<open>What \<open>transform\<close> still clears when its input or an alias is invalid.\<close>

definition clear_rejected :: "ptr \<Rightarrow> u64 \<Rightarrow> ptr \<Rightarrow> u64 \<Rightarrow> ptr \<Rightarrow> core_state \<Rightarrow> core_state" where
  "clear_rejected input len output capacity written s =
     (let count_ok = span written 8 \<and> aligned8 written;
          output_count_alias = span output capacity \<and> count_ok \<and>
            overlaps output capacity written 8;
          input_count_alias = span input len \<and> count_ok \<and> overlaps input len written 8;
          s1 = (if count_ok \<and> \<not> input_count_alias \<and> \<not> output_count_alias
                then set_mem (store64 written 0) s else s)
      in if span output capacity \<and> \<not> output_count_alias \<and>
            (\<not> span input len \<or> \<not> overlaps input len output capacity)
         then set_mem (zero_mem output capacity) s1 else s1)"

text \<open>The service call \<open>transform\<close> makes, and its answer.\<close>

definition service_event :: "bool \<Rightarrow> u8 list \<Rightarrow> core_event" where
  "service_event decrypt source = (if decrypt then Unprotect source else Protect source)"

definition service_answer :: "bool \<Rightarrow> core_ops \<Rightarrow> u8 list \<Rightarrow> bool \<times> blob" where
  "service_answer decrypt ops source =
     (if decrypt then unprotect_op ops source else protect_op ops source)"

definition transform ::
  "u32 \<Rightarrow> ptr \<Rightarrow> u64 \<Rightarrow> ptr \<Rightarrow> u64 \<Rightarrow> ptr \<Rightarrow> bool \<Rightarrow> core_ops \<Rightarrow> core_state \<Rightarrow>
     status \<times> core_state" where
  "transform version input len output capacity written decrypt ops s =
     (if \<not> span input len \<or>
         (span output capacity \<and> overlaps input len output capacity) \<or>
         (span written 8 \<and> overlaps input len written 8)
      then (INVALID_INPUT, clear_rejected input len output capacity written s)
      else case prepare version output capacity written s of (ready, s1) \<Rightarrow>
        if ready \<noteq> OK then (ready, s1)
        else
          let source = read_bytes input len (cmem s1);
              (success, result) = service_answer decrypt ops source;
              s2 = log_events [service_event decrypt source] s1;
              done = log_events (free_local_result result)
          in if \<not> success then (if decrypt then DATA_CORRUPT else UNAVAILABLE, done s2)
             else case result of
                 None \<Rightarrow> (DATA_CORRUPT, done s2)
               | Some bytes \<Rightarrow>
                   if bytes = [] then (DATA_CORRUPT, done s2)
                   else if length bytes > unat capacity then (RESOURCE_LIMIT, done s2)
                   else (OK, done (set_mem (store64 written (of_nat (length bytes)))
                                    (set_mem (write_bytes output bytes) s2))))"

section \<open>The local application data folder\<close>

text \<open>The loop over the null-terminated path, bounded by 32768 code units.\<close>

definition max_units :: nat where
  "max_units = 65536 div 2"

function path_units :: "nat \<Rightarrow> (nat \<Rightarrow> wchar) \<Rightarrow> nat" where
  "path_units units path =
     (if units < max_units \<and> path units \<noteq> 0 then path_units (Suc units) path else units)"
  by pat_completeness auto
termination
  by (relation "measure (\<lambda>(units, path). max_units - units)") auto

declare path_units.simps [simp del]

definition utf16_bytes :: "wchar list \<Rightarrow> u8 list" where
  "utf16_bytes us = concat (map (\<lambda>u. [ucast u, ucast (drop_bit 8 u)]) us)"

definition local_app_data ::
  "u32 \<Rightarrow> ptr \<Rightarrow> u64 \<Rightarrow> ptr \<Rightarrow> core_ops \<Rightarrow> core_state \<Rightarrow> status \<times> core_state" where
  "local_app_data version output capacity written ops s =
     (case prepare version output capacity written s of (ready, s1) \<Rightarrow>
        if ready \<noteq> OK then (ready, s1)
        else
          let (hr, path) = known_folder_op ops;
              s2 = log_events [KnownFolder] s1;
              done = log_events (if path = None then [] else [FreeTask])
          in if hr < 0 then (UNAVAILABLE, done s2)
             else case path of
                 None \<Rightarrow> (DATA_CORRUPT, done s2)
               | Some p \<Rightarrow>
                   let units = path_units 0 p in
                   if units = 0 \<or> units = max_units then (DATA_CORRUPT, done s2)
                   else if units * 2 > unat capacity then (RESOURCE_LIMIT, done s2)
                   else (OK, done (set_mem (store64 written (of_nat (units * 2)))
                           (set_mem (write_bytes output (utf16_bytes (map p [0 ..< units]))) s2))))"

section \<open>The buffer allocator\<close>

text \<open>
  An \<open>Allocation\<close> header of eight bytes holding the capacity precedes the buffer.
  \<open>calloc_result\<close> is the address \<open>calloc\<close> answered, \<open>0\<close> when it failed; its block is
  zeroed.  \<open>free_block\<close> is the address handed to \<open>free\<close>.
\<close>

definition buffer_alloc :: "u64 \<Rightarrow> ptr \<Rightarrow> mem \<Rightarrow> ptr \<times> mem" where
  "buffer_alloc capacity calloc_result m =
     (if \<not> bounded capacity \<or> capacity > -1 - 8 then (0, m)
      else if calloc_result = 0 then (0, m)
      else (calloc_result + 8,
            store64 calloc_result capacity (zero_mem calloc_result (8 + capacity) m)))"

definition buffer_free :: "ptr \<Rightarrow> mem \<Rightarrow> ptr option \<times> mem" where
  "buffer_free buffer m =
     (if buffer = 0 then (None, m)
      else let block = buffer - 8;
               capacity = load64 block m
           in (Some block, zero_mem block 8 (zero_mem buffer capacity m)))"

section \<open>What the exports may write\<close>

definition may_write :: "ptr \<Rightarrow> u64 \<Rightarrow> ptr \<Rightarrow> u64 \<Rightarrow> bool" where
  "may_write output capacity written a \<longleftrightarrow>
     span output capacity \<and> in_region output capacity a \<or> span written 8 \<and> in_region written 8 a"

lemma prepare_frame:
  "\<not> may_write output capacity written a \<Longrightarrow>
   cmem (snd (prepare version output capacity written s)) a = cmem s a"
  by (auto simp: prepare_def may_write_def Let_def store64_out)

lemma clear_rejected_frame:
  "\<not> may_write output capacity written a \<Longrightarrow>
   cmem (clear_rejected input len output capacity written s) a = cmem s a"
  by (auto simp: clear_rejected_def may_write_def Let_def store64_out)

lemma clear_rejected_input:
  assumes "span input len" and "in_region input len a"
  shows "cmem (clear_rejected input len output capacity written s) a = cmem s a"
proof -
  have "span written 8 \<Longrightarrow> \<not> overlaps input len written 8 \<Longrightarrow> \<not> in_region written 8 a"
    using assms disjoint_regions by blast
  moreover have "span output capacity \<Longrightarrow> \<not> overlaps input len output capacity \<Longrightarrow>
      \<not> in_region output capacity a"
    using assms disjoint_regions by blast
  ultimately show ?thesis
    using assms(1) by (auto simp: clear_rejected_def Let_def store64_out)
qed

lemma prepare_OK:
  assumes "prepare version output capacity written s = (OK, s1)"
  shows "valid_count written" and "span output capacity"
    and "\<not> overlaps output capacity written 8"
    and "s1 = set_mem (zero_mem output capacity) (set_mem (store64 written 0) s)"
  using assms by (auto simp: prepare_def valid_count_def Let_def split: if_splits)

lemma prepare_events [simp]: "cevents (snd (prepare version output capacity written s)) = cevents s"
  by (auto simp: prepare_def Let_def)

text \<open>The result of a completed conversion, as it stands in memory.\<close>

definition delivered :: "ptr \<Rightarrow> u64 \<Rightarrow> ptr \<Rightarrow> u8 list \<Rightarrow> mem \<Rightarrow> bool" where
  "delivered output capacity written bytes m \<longleftrightarrow>
     length bytes \<le> unat capacity \<and> load64 written m = of_nat (length bytes) \<and>
     read_bytes output capacity m = bytes @ replicate (unat capacity - length bytes) 0"

lemma read_written_prefix:
  assumes "span p n" and "length bs \<le> unat n"
  shows "read_bytes p n (write_bytes p bs (zero_mem p n m)) = bs @ replicate (unat n - length bs) 0"
proof (rule nth_equalityI)
  fix i assume "i < length (read_bytes p n (write_bytes p bs (zero_mem p n m)))"
  then have i: "i < unat n" by simp
  then have at: "unat (p + of_nat i) = unat p + i"
    by (rule span_add_nat [OF assms(1)])
  have "in_region p n (p + of_nat i)"
    using i in_region_nth [OF assms(1)] by blast
  with i at show "read_bytes p n (write_bytes p bs (zero_mem p n m)) ! i
      = (bs @ replicate (unat n - length bs) 0) ! i"
    by (simp add: read_bytes_def write_bytes_def nth_append)
qed (use assms in simp)

lemma delivered_write:
  assumes out: "span output capacity" and cnt: "span written 8"
    and apart: "\<not> overlaps output capacity written 8" and len: "length bytes \<le> unat capacity"
  shows "delivered output capacity written bytes
     (store64 written (of_nat (length bytes)) (write_bytes output bytes (zero_mem output capacity m)))"
proof -
  have "\<not> in_region written 8 a" if "in_region output capacity a" for a
    using disjoint_regions [OF out cnt apart that] .
  then have "read_bytes output capacity (store64 written v m') = read_bytes output capacity m'" for v m'
    by (intro read_bytes_cong [OF out]) (simp add: store64_out [OF cnt])
  then show ?thesis
    using read_written_prefix [OF out len] load_store64 [OF cnt] len by (simp add: delivered_def)
qed

lemma delivered_empty:
  assumes out: "span output capacity" and cnt: "span written 8"
    and apart: "\<not> overlaps output capacity written 8"
  shows "delivered output capacity written [] (zero_mem output capacity (store64 written 0 m))"
proof -
  have "\<not> in_region output capacity a" if "in_region written 8 a" for a
    using disjoint_regions [OF cnt out] apart overlaps_sym that by blast
  then have "load64 written (zero_mem output capacity (store64 written 0 m)) = 0"
    using load64_other [OF cnt, of "zero_mem output capacity (store64 written 0 m)" "store64 written 0 m"]
      load_store64 [OF cnt] by simp
  then show ?thesis
    by (simp add: delivered_def read_zero_mem [OF out])
qed

section \<open>Functional behaviour of transform\<close>

definition storage_ok :: "ptr \<Rightarrow> u64 \<Rightarrow> ptr \<Rightarrow> u64 \<Rightarrow> ptr \<Rightarrow> bool" where
  "storage_ok input len output capacity written \<longleftrightarrow>
     span input len \<and> span output capacity \<and> valid_count written \<and>
     \<not> overlaps input len output capacity \<and> \<not> overlaps input len written 8 \<and>
     \<not> overlaps output capacity written 8"

definition memory_version :: "u32 \<Rightarrow> bool" where
  "memory_version version \<longleftrightarrow> version = 1 \<or> version = 2 \<or> version = ABI_VERSION"

lemma storage_okD:
  assumes "storage_ok input len output capacity written"
  shows "span input len" "span output capacity" "span written 8" "aligned8 written"
    "\<not> overlaps input len output capacity" "\<not> overlaps input len written 8"
    "\<not> overlaps output capacity written 8"
  using assms by (auto simp: storage_ok_def valid_count_def)

lemma prepare_accepted:
  assumes "span output capacity" "valid_count written" "\<not> overlaps output capacity written 8"
  shows "prepare version output capacity written s =
    (if memory_version version then OK else ABI_MISMATCH,
     set_mem (zero_mem output capacity) (set_mem (store64 written 0) s))"
  using assms by (auto simp: prepare_def valid_count_def memory_version_def Let_def)

lemma cleared_input:
  assumes "storage_ok input len output capacity written"
  shows "read_bytes input len (zero_mem output capacity (store64 written 0 m)) = read_bytes input len m"
proof (rule read_bytes_cong)
  note ok = storage_okD [OF assms]
  show "span input len" by (rule ok)
  fix a assume a: "in_region input len a"
  have "\<not> in_region output capacity a"
    by (rule disjoint_regions [OF ok(1) ok(2) ok(5) a])
  moreover have "\<not> in_region written 8 a"
    by (rule disjoint_regions [OF ok(1) ok(3) ok(6) a])
  ultimately show "zero_mem output capacity (store64 written 0 m) a = m a"
    by (simp add: store64_out [OF ok(3)])
qed

text \<open>What a usable answer is, and how an unusable one is reported.\<close>

fun service_status :: "bool \<Rightarrow> u64 \<Rightarrow> bool \<times> blob \<Rightarrow> status" where
  "service_status decrypt capacity (False, _) = (if decrypt then DATA_CORRUPT else UNAVAILABLE)"
| "service_status decrypt capacity (True, None) = DATA_CORRUPT"
| "service_status decrypt capacity (True, Some bytes) =
     (if bytes = [] then DATA_CORRUPT
      else if length bytes > unat capacity then RESOURCE_LIMIT else OK)"

fun service_bytes :: "bool \<Rightarrow> u64 \<Rightarrow> bool \<times> blob \<Rightarrow> u8 list" where
  "service_bytes decrypt capacity (b, r) =
     (if service_status decrypt capacity (b, r) = OK then the r else [])"

lemma transform_accepted:
  fixes s :: core_state and ops :: core_ops and decrypt :: bool
  assumes ok: "storage_ok input len output capacity written" and v: "memory_version version"
  defines "source \<equiv> read_bytes input len (cmem s)"
  defines "answer \<equiv> service_answer decrypt ops source"
  defines "m \<equiv> zero_mem output capacity (store64 written 0 (cmem s))"
  shows "fst (transform version input len output capacity written decrypt ops s) =
      service_status decrypt capacity answer"
    and "cmem (snd (transform version input len output capacity written decrypt ops s)) =
      (if service_status decrypt capacity answer = OK
       then store64 written (of_nat (length (the (snd answer)))) (write_bytes output (the (snd answer)) m)
       else m)"
    and "cevents (snd (transform version input len output capacity written decrypt ops s)) =
      cevents s @ service_event decrypt source # free_local_result (snd answer)"
proof -
  note d = storage_okD [OF ok]
  obtain b r where r: "answer = (b, r)" by fastforce
  have prep: "prepare version output capacity written s =
      (OK, set_mem (zero_mem output capacity) (set_mem (store64 written 0) s))"
    using prepare_accepted d v by (simp add: valid_count_def)
  have src: "read_bytes input len m = source"
    unfolding m_def source_def by (rule cleared_input [OF ok])
  have ans: "service_answer decrypt ops source = (b, r)"
    using r by (simp add: answer_def)
  note unfolded = transform_def prep Let_def src [unfolded m_def] ans d r
  show "fst (transform version input len output capacity written decrypt ops s) =
      service_status decrypt capacity answer"
    by (cases b; cases r) (simp_all add: unfolded)
  show "cmem (snd (transform version input len output capacity written decrypt ops s)) =
      (if service_status decrypt capacity answer = OK
       then store64 written (of_nat (length (the (snd answer)))) (write_bytes output (the (snd answer)) m)
       else m)"
    by (cases b; cases r) (simp_all add: unfolded m_def)
  show "cevents (snd (transform version input len output capacity written decrypt ops s)) =
      cevents s @ service_event decrypt source # free_local_result (snd answer)"
    by (cases b; cases r) (simp_all add: unfolded)
qed

lemma service_status_OK:
  "service_status decrypt capacity a = OK \<longleftrightarrow>
     (\<exists>bytes. a = (True, Some bytes) \<and> bytes \<noteq> [] \<and> length bytes \<le> unat capacity)"
  by (cases "(decrypt, capacity, a)" rule: service_status.cases) auto

lemma transform_rejected_version:
  assumes "storage_ok input len output capacity written" and "\<not> memory_version version"
  shows "transform version input len output capacity written decrypt ops s =
     (ABI_MISMATCH, set_mem (zero_mem output capacity) (set_mem (store64 written 0) s))"
  using storage_okD [OF assms(1)] assms(2) prepare_accepted
  by (simp add: transform_def valid_count_def)

lemma transform_rejected_storage:
  assumes "\<not> storage_ok input len output capacity written"
  shows "fst (transform version input len output capacity written decrypt ops s) = INVALID_INPUT"
    and "cevents (snd (transform version input len output capacity written decrypt ops s)) = cevents s"
  using assms
  by (auto simp: transform_def prepare_def storage_ok_def valid_count_def clear_rejected_def Let_def)

section \<open>Frame of transform\<close>


lemma transform_frame:
  assumes "\<not> may_write output capacity written a"
  shows "cmem (snd (transform version input len output capacity written decrypt ops s)) a = cmem s a"
proof (cases "storage_ok input len output capacity written")
  case ok: True
  note d = storage_okD [OF ok]
  have out: "\<not> in_region output capacity a" and cnt: "\<not> in_region written 8 a"
    using assms d by (auto simp: may_write_def)
  let ?m = "zero_mem output capacity (store64 written 0 (cmem s))"
  have base: "?m a = cmem s a"
    using out cnt by (simp add: store64_out [OF d(3)])
  show ?thesis
  proof (cases "memory_version version")
    case True
    show ?thesis
      unfolding transform_accepted(2) [OF ok True]
      using base out cnt
      by (auto simp: store64_out [OF d(3)] service_status_OK write_bytes_out [OF d(2)])
  qed (simp add: transform_rejected_version [OF ok] base)
next
  case False
  have "fst (prepare version output capacity written s) \<noteq> OK \<or>
      \<not> (span input len \<and> \<not> (span output capacity \<and> overlaps input len output capacity) \<and>
         \<not> (span written 8 \<and> overlaps input len written 8))"
    using False by (auto simp: storage_ok_def prepare_def valid_count_def Let_def)
  moreover have "cmem t a = cmem s a" if "prepare version output capacity written s = (r, t)" for r t
    using prepare_frame [OF assms, of version s] that by simp
  ultimately show ?thesis
    using clear_rejected_frame [OF assms]
    by (auto simp: transform_def split: prod.splits)
qed

lemma transform_input_kept:
  assumes sp: "span input len" and a: "in_region input len a"
  shows "cmem (snd (transform version input len output capacity written decrypt ops s)) a = cmem s a"
proof (cases "(span output capacity \<and> overlaps input len output capacity) \<or>
    (span written 8 \<and> overlaps input len written 8)")
  case True
  then show ?thesis
    using sp by (simp add: transform_def clear_rejected_input [OF sp a])
next
  case False
  then have "\<not> may_write output capacity written a"
    using disjoint_regions [OF sp _ _ a] by (auto simp: may_write_def)
  then show ?thesis by (rule transform_frame)
qed

section \<open>The known folder\<close>

lemma path_units_bound: "n \<le> max_units \<Longrightarrow> n \<le> path_units n p \<and> path_units n p \<le> max_units"
proof (induction n p rule: path_units.induct)
  case (1 units path)
  show ?case
    using 1 by (subst (1 2) path_units.simps) auto
qed

lemma path_units_nonzero: "n \<le> i \<Longrightarrow> i < path_units n p \<Longrightarrow> p i \<noteq> 0"
proof (induction n p rule: path_units.induct)
  case (1 units path)
  show ?case
  proof (cases "units < max_units \<and> path units \<noteq> 0")
    case True
    then have "i < path_units (Suc units) path"
      using "1.prems"(2) by (simp add: path_units.simps [of units path])
    then show ?thesis
      using 1 True by (cases "i = units") auto
  next
    case False
    then show ?thesis
      using "1.prems" by (auto simp: path_units.simps [of units path] split: if_splits)
  qed
qed

lemma path_units_stop: "n \<le> max_units \<Longrightarrow> path_units n p < max_units \<Longrightarrow> p (path_units n p) = 0"
proof (induction n p rule: path_units.induct)
  case (1 units path)
  show ?case
  proof (cases "units < max_units \<and> path units \<noteq> 0")
    case True
    with 1 show ?thesis
      by (subst path_units.simps) (auto simp: path_units.simps [of units path])
  next
    case False
    with 1 show ?thesis
      by (auto simp: path_units.simps [of units path])
  qed
qed

lemma length_utf16_bytes [simp]: "length (utf16_bytes us) = 2 * length us"
  by (induction us) (auto simp: utf16_bytes_def)

lemma utf16_bytes_Nil [simp]: "utf16_bytes [] = []"
  by (simp add: utf16_bytes_def)

lemma local_app_data_accepted:
  assumes "span output capacity" "valid_count written" "\<not> overlaps output capacity written 8"
    and "memory_version version" and "known_folder_op ops = (hr, path)"
    and "local_app_data version output capacity written ops s = (st, t)"
  shows "cevents t = cevents s @ KnownFolder # (if path = None then [] else [FreeTask])"
    and "st = OK \<Longrightarrow> \<exists>p n. path = Some p \<and> p n = 0 \<and> (\<forall>i<n. p i \<noteq> 0) \<and> 0 < n \<and> n < max_units \<and>
      delivered output capacity written (utf16_bytes (map p [0 ..< n])) (cmem t)"
    and "st \<noteq> OK \<Longrightarrow> delivered output capacity written [] (cmem t)"
proof -
  note prep = prepare_accepted [OF assms(1-3)]
  have cnt: "span written 8" using assms(2) by (simp add: valid_count_def)
  note unfolded = local_app_data_def prep assms(4,5) Let_def
  show "cevents t = cevents s @ KnownFolder # (if path = None then [] else [FreeTask])"
    using assms(6) by (auto simp: unfolded split: option.splits if_splits)
  show "delivered output capacity written [] (cmem t)" if "st \<noteq> OK"
    using assms(6) that delivered_empty [OF assms(1) cnt assms(3)]
    by (auto simp: unfolded split: option.splits if_splits)
  show "\<exists>p n. path = Some p \<and> p n = 0 \<and> (\<forall>i<n. p i \<noteq> 0) \<and> 0 < n \<and> n < max_units \<and>
      delivered output capacity written (utf16_bytes (map p [0 ..< n])) (cmem t)" if "st = OK"
  proof -
    from assms(6) that obtain p where p: "path = Some p" "path_units 0 p \<noteq> 0"
        "path_units 0 p \<noteq> max_units" "path_units 0 p * 2 \<le> unat capacity"
      and t: "t = log_events [FreeTask] (set_mem (store64 written (of_nat (path_units 0 p * 2)))
          (set_mem (write_bytes output (utf16_bytes (map p [0 ..< path_units 0 p])))
          (log_events [KnownFolder] (set_mem (zero_mem output capacity) (set_mem (store64 written 0) s)))))"
      by (auto simp: unfolded split: option.splits if_splits)
    have "path_units 0 p < max_units"
      using path_units_bound [of 0 p] p(3) by simp
    moreover from this have "p (path_units 0 p) = 0"
      using path_units_stop [of 0 p] by simp
    moreover have "\<forall>i < path_units 0 p. p i \<noteq> 0"
      using path_units_nonzero [of 0 _ p] by blast
    moreover have "delivered output capacity written (utf16_bytes (map p [0 ..< path_units 0 p])) (cmem t)"
      using delivered_write [OF assms(1) cnt assms(3), of "utf16_bytes (map p [0 ..< path_units 0 p])"]
        p(4) by (simp add: t mult.commute)
    ultimately show ?thesis
      using p by (intro exI [of _ p] exI [of _ "path_units 0 p"]) auto
  qed
qed

section \<open>The allocator\<close>

lemma alloc_block:
  assumes "buffer_alloc capacity block m = (p, m1)" and "p \<noteq> 0"
  shows "p = block + 8" and "bounded capacity" and "block \<noteq> 0"
    and "m1 = store64 block capacity (zero_mem block (8 + capacity) m)"
  using assms by (auto simp: buffer_alloc_def split: if_splits)

text \<open>
  The block \<open>calloc\<close> answered is live storage for header and buffer: it does not wrap.
\<close>

definition live_block :: "ptr \<Rightarrow> u64 \<Rightarrow> bool" where
  "live_block block capacity \<longleftrightarrow> unat block + 8 + unat capacity < 2 ^ 64"

lemma alloc_regions:
  assumes "bounded capacity" and "live_block block capacity" and "block \<noteq> 0"
  shows "span block 8" and "unat (block + 8) = unat block + 8" and "unat (8 + capacity) = 8 + unat capacity"
proof -
  have cap: "unat capacity \<le> 65536"
    using assms(1) bounded_unat by blast
  have le: "unat block \<le> 2 ^ 64 - 1 - 8"
    using assms(2) by (simp add: live_block_def)
  have "unat (- 1 - 8 :: u64) = 2 ^ 64 - 1 - 8"
    by simp
  with le have "block \<le> - 1 - 8"
    by (simp only: word_le_nat_alt)
  then show "span block 8"
    using assms(3) by (simp add: span_def bounded_def MAX_BYTES_def)
  show "unat (block + 8) = unat block + 8"
    using assms(2) by (simp add: unat_word_ariths live_block_def)
  show "unat (8 + capacity) = 8 + unat capacity"
    using cap by (simp add: unat_word_ariths)
qed

lemma free_wipes:
  assumes alloc: "buffer_alloc capacity block m = (p, m1)" and p: "p \<noteq> 0"
    and live: "live_block block capacity"
    and writes: "\<And>a. \<not> in_region p capacity a \<Longrightarrow> m2 a = m1 a"
  shows "fst (buffer_free p m2) = Some block"
    and "in_region block (8 + capacity) a \<Longrightarrow> snd (buffer_free p m2) a = 0"
    and "\<not> in_region block (8 + capacity) a \<Longrightarrow> snd (buffer_free p m2) a = m a"
proof -
  note b = alloc_block [OF alloc p]
  note r = alloc_regions [OF b(2) live b(3)]
  have apart: "\<not> in_region p capacity a" if "in_region block 8 a" for a
    using that r(2) by (auto simp: in_region_def b(1))
  have whole: "in_region block (8 + capacity) a \<longleftrightarrow> in_region block 8 a \<or> in_region p capacity a" for a
    using r(2,3) by (auto simp: in_region_def b(1))
  have "load64 block m2 = load64 block m1"
    by (rule load64_other [OF r(1)]) (simp add: writes apart)
  then have cap: "load64 block m2 = capacity"
    by (simp add: b(4) load_store64 [OF r(1)])
  have block: "p - 8 = block"
    by (simp add: b(1))
  show "fst (buffer_free p m2) = Some block"
    using p by (simp add: buffer_free_def block Let_def)
  show "in_region block (8 + capacity) a \<Longrightarrow> snd (buffer_free p m2) a = 0"
    using p by (auto simp: buffer_free_def block cap whole zero_mem_def Let_def)
  show "\<not> in_region block (8 + capacity) a \<Longrightarrow> snd (buffer_free p m2) a = m a"
    using p by (auto simp: buffer_free_def block cap whole zero_mem_def Let_def writes b(4)
        store64_out [OF r(1)])
qed

section \<open>Properties\<close>

text \<open>
  Claim C3. Where both spans pass the pointer check, the wrapping word comparison of
  \<open>overlaps\<close> holds exactly when the two regions share a byte of memory.
\<close>

theorem overlap_check_exact:
  assumes "span x n" and "span y k"
  shows "overlaps x n y k \<longleftrightarrow> (\<exists>a. in_region x n a \<and> in_region y k a)"
  using assms by (rule overlaps_iff_shared)

theorem overlap_check_exact_witness:
  "span 0x1000 16 \<and> span 0x1008 4 \<and> (\<exists>a. in_region 0x1000 16 a \<and> in_region 0x1008 4 a)"
proof -
  have "span 0x1000 16" and "span 0x1008 4"
    by (simp_all add: span_def bounded_def MAX_BYTES_def)
  moreover have "overlaps 0x1000 16 0x1008 4"
    by (simp add: overlaps_def)
  ultimately show ?thesis
    using overlap_check_exact [of "0x1000" 16 "0x1008" 4] by blast
qed

text \<open>
  Claim C2. \<open>transform\<close> changes no byte outside the checked output and count storage,
  and never a byte of a valid input, whatever pointers it is given (aliases included)
  and whatever the service answers.
\<close>

theorem transform_writes_only_outputs:
  assumes "\<not> may_write output capacity written a \<or> span input len \<and> in_region input len a"
  shows "cmem (snd (transform version input len output capacity written decrypt ops s)) a = cmem s a"
  using assms transform_frame transform_input_kept by blast

theorem transform_writes_only_outputs_witness:
  "cmem (snd (transform 3 0x1000 4 0x1002 8 0x2000 True
      \<lparr>protect_op = (\<lambda>_. (True, None)), unprotect_op = (\<lambda>_. (True, None)), known_folder_op = (0, None)\<rparr>
      \<lparr>cmem = (\<lambda>_. 7), cevents = []\<rparr>)) 0x1001 = 7"
proof -
  have "span 0x1000 4 \<and> in_region 0x1000 4 0x1001"
    by (simp add: span_def bounded_def MAX_BYTES_def in_region_def)
  then show ?thesis
    by (subst transform_writes_only_outputs) auto
qed

text \<open>
  Claim C1. With live disjoint storage \<open>transform\<close> is all or nothing: on \<open>OK\<close> the output
  holds exactly the service's bytes followed by zeros and the count says how many; on
  every failure, a version mismatch included, the whole output is zero and the count is
  \<open>0\<close>. It is \<open>OK\<close> exactly for a known version and a successful, nonempty answer that fits.
\<close>

theorem transform_all_or_nothing:
  assumes "storage_ok input len output capacity written"
    and "transform version input len output capacity written decrypt ops s = (st, t)"
  shows "\<exists>bytes. delivered output capacity written bytes (cmem t) \<and>
      (st = OK \<longleftrightarrow> bytes \<noteq> []) \<and>
      (bytes \<noteq> [] \<longrightarrow> service_answer decrypt ops (read_bytes input len (cmem s)) = (True, Some bytes)) \<and>
      (st = OK \<longleftrightarrow> memory_version version \<and>
         (\<exists>b. service_answer decrypt ops (read_bytes input len (cmem s)) = (True, Some b) \<and>
              b \<noteq> [] \<and> length b \<le> unat capacity))"
proof (cases "memory_version version")
  case True
  note d = storage_okD [OF assms(1)]
  let ?answer = "service_answer decrypt ops (read_bytes input len (cmem s))"
  have st: "st = service_status decrypt capacity ?answer"
    using transform_accepted(1) [OF assms(1) True, of decrypt ops s] assms(2) by simp
  have mem: "cmem t = (if st = OK
      then store64 written (of_nat (length (the (snd ?answer)))) (write_bytes output (the (snd ?answer))
        (zero_mem output capacity (store64 written 0 (cmem s))))
      else zero_mem output capacity (store64 written 0 (cmem s)))"
    using transform_accepted(2) [OF assms(1) True, of decrypt ops s] assms(2) st by simp
  show ?thesis
  proof (cases "st = OK")
    case fine: True
    then obtain b where b: "?answer = (True, Some b)" "b \<noteq> []" "length b \<le> unat capacity"
      using st service_status_OK by metis
    have "delivered output capacity written b (cmem t)"
      using mem fine b delivered_write [OF d(2,3,7) b(3)] by simp
    with b fine True show ?thesis by blast
  next
    case failed: False
    have "delivered output capacity written [] (cmem t)"
      using mem failed delivered_empty [OF d(2,3,7)] by simp
    moreover have "\<not> (\<exists>b. ?answer = (True, Some b) \<and> b \<noteq> [] \<and> length b \<le> unat capacity)"
      using failed st service_status_OK by metis
    ultimately show ?thesis using failed by blast
  qed
next
  case False
  note d = storage_okD [OF assms(1)]
  show ?thesis
    using transform_rejected_version [OF assms(1) False, of decrypt ops s] assms(2) False
      delivered_empty [OF d(2,3,7)] by (intro exI [of _ "[]"]) auto
qed

definition reversing_ops :: core_ops where
  "reversing_ops = \<lparr>protect_op = (\<lambda>bs. (True, Some (rev bs))), unprotect_op = (\<lambda>bs. (True, Some (rev bs))),
     known_folder_op = (0, Some (\<lambda>i. if i < 3 then 0x41 else 0))\<rparr>"

theorem transform_all_or_nothing_witness:
  "\<exists>st t. transform 3 0x1000 4 0x2000 8 0x3000 False reversing_ops \<lparr>cmem = (\<lambda>_. 7), cevents = []\<rparr> = (st, t) \<and>
     st = OK \<and> delivered 0x2000 8 0x3000 [7, 7, 7, 7] (cmem t)"
proof -
  let ?s = "\<lparr>cmem = (\<lambda>_. 7), cevents = []\<rparr>"
  have ok: "storage_ok 0x1000 4 0x2000 8 0x3000"
    by (simp add: storage_ok_def valid_count_def aligned8_def span_def bounded_def MAX_BYTES_def overlaps_def)
  have ans: "service_answer False reversing_ops (read_bytes 0x1000 4 (cmem ?s)) = (True, Some [7, 7, 7, 7])"
    by (simp add: service_answer_def reversing_ops_def read_bytes_def upt_rec)
  obtain st t where run: "transform 3 0x1000 4 0x2000 8 0x3000 False reversing_ops ?s = (st, t)"
    by fastforce
  show ?thesis
    using transform_all_or_nothing [OF ok run] run ans
    by (auto simp: memory_version_def ABI_VERSION_def)
qed

text \<open>
  \<open>transform\<close> calls the service exactly once, and only when storage and version
  are valid; a result the helper owns is wiped over its whole extent and then freed,
  once, on success and on every failure.
\<close>

theorem transform_call_and_release:
  "cevents (snd (transform version input len output capacity written decrypt ops s)) = cevents s @
     (if storage_ok input len output capacity written \<and> memory_version version
      then service_event decrypt (read_bytes input len (cmem s)) #
           free_local_result (snd (service_answer decrypt ops (read_bytes input len (cmem s))))
      else [])"
  using transform_accepted(3) transform_rejected_storage(2) transform_rejected_version
  by (cases "storage_ok input len output capacity written") auto

text \<open>
  Claim C4. \<open>local_app_data\<close> delivers the folder path up to its first null unit, as UTF-16
  little-endian bytes without a terminator, or clears the output; the path of the shell
  is freed exactly when there is one.
\<close>

theorem local_app_data_exact:
  assumes "span output capacity" "valid_count written" "\<not> overlaps output capacity written 8"
    and "memory_version version" and "known_folder_op ops = (hr, path)"
    and "local_app_data version output capacity written ops s = (st, t)"
  shows "cevents t = cevents s @ KnownFolder # (if path = None then [] else [FreeTask]) \<and>
     (if st = OK
      then \<exists>p n. path = Some p \<and> p n = 0 \<and> (\<forall>i<n. p i \<noteq> 0) \<and> 0 < n \<and> n < max_units \<and>
           delivered output capacity written (utf16_bytes (map p [0 ..< n])) (cmem t)
      else delivered output capacity written [] (cmem t))"
  using local_app_data_accepted [OF assms] by auto

theorem local_app_data_exact_witness:
  "\<exists>st t. local_app_data 3 0x2000 8 0x3000 reversing_ops \<lparr>cmem = (\<lambda>_. 7), cevents = []\<rparr> = (st, t) \<and>
     cevents t = [KnownFolder, FreeTask]"
proof -
  have "span 0x2000 8" "valid_count 0x3000" "\<not> overlaps 0x2000 8 0x3000 8" "memory_version 3"
    by (simp_all add: valid_count_def aligned8_def span_def bounded_def MAX_BYTES_def overlaps_def
        memory_version_def ABI_VERSION_def)
  moreover obtain st t where
    run: "local_app_data 3 0x2000 8 0x3000 reversing_ops \<lparr>cmem = (\<lambda>_. 7), cevents = []\<rparr> = (st, t)"
    by fastforce
  ultimately show ?thesis
    using local_app_data_exact [of "0x2000" 8 "0x3000" 3 reversing_ops 0 "Some (\<lambda>i. if i < 3 then 0x41 else 0)"]
    by (auto simp: reversing_ops_def)
qed

text \<open>
  Freeing a helper buffer wipes the header and the whole allocation, whatever the
  caller wrote into the buffer, hands the original block to \<open>free\<close> and touches nothing
  else.
\<close>

theorem buffer_free_wipes_allocation:
  assumes "buffer_alloc capacity block m = (p, m1)" and "p \<noteq> 0" and "live_block block capacity"
    and "\<And>a. \<not> in_region p capacity a \<Longrightarrow> m2 a = m1 a"
  shows "fst (buffer_free p m2) = Some block \<and>
    snd (buffer_free p m2) a = (if in_region block (8 + capacity) a then 0 else m a)"
  using free_wipes [OF assms] by auto

theorem buffer_free_wipes_allocation_witness:
  "\<exists>p m1. buffer_alloc 16 0x1000 (\<lambda>_. 9) = (p, m1) \<and> fst (buffer_free p (m1(p := 5))) = Some 0x1000"
proof -
  obtain p m1 where run: "buffer_alloc 16 0x1000 (\<lambda>_. 9) = (p, m1)" by fastforce
  have p: "p = 0x1008"
    using run by (auto simp: buffer_alloc_def bounded_def MAX_BYTES_def)
  then have "p \<noteq> 0" by simp
  have "live_block 0x1000 16" by (simp add: live_block_def)
  moreover have "(m1(p := 5)) a = m1 a" if "\<not> in_region p 16 a" for a
    using that p by (auto simp: in_region_def)
  ultimately have "fst (buffer_free p (m1(p := 5))) = Some 0x1000"
    using buffer_free_wipes_allocation [OF run \<open>p \<noteq> 0\<close>] by blast
  with run show ?thesis by blast
qed

end
