(* ===== verification/P256_Codec.thy ===== *)
theory P256_Codec
  imports Native_Prelude "HOL-Library.Monad_Syntax"
begin

text \<open>
  \<open>p256_key_codec.cpp\<close>: the RFC 5208 / RFC 5915 conversion of P-256 private keys.  A
  \<open>Reader\<close> (pointer and remaining count) is the list of its remaining bytes; an
  operation that advances it returns the rest.  The lemmas identify the accepted inputs
  exactly: the decoder takes the four DER documents its encoder family produces, and
  nothing else.
\<close>

section \<open>Constants and reader\<close>

definition algorithm_der :: "u8 list" where
  "algorithm_der = [0x30,0x13,0x06,0x07,0x2a,0x86,0x48,0xce,0x3d,0x02,0x01,
     0x06,0x08,0x2a,0x86,0x48,0xce,0x3d,0x03,0x01,0x07]"

definition curve_der :: "u8 list" where
  "curve_der = [0x06,0x08,0x2a,0x86,0x48,0xce,0x3d,0x03,0x01,0x07]"

definition order_be :: "u8 list" where
  "order_be = [0xff,0xff,0xff,0xff,0x00,0x00,0x00,0x00,0xff,0xff,0xff,0xff,0xff,0xff,0xff,0xff,
     0xbc,0xe6,0xfa,0xad,0xa7,0x17,0x9e,0x84,0xf3,0xb9,0xca,0xc2,0xfc,0x63,0x25,0x51]"

definition read_literal :: "u8 list \<Rightarrow> u8 list \<Rightarrow> u8 list option" where
  "read_literal bytes r =
     (if length r < length bytes \<or> take (length bytes) r \<noteq> bytes then None
      else Some (drop (length bytes) r))"

text \<open>\<open>Reader::field\<close>: the child's bytes and the advanced reader.\<close>

definition read_field :: "u8 \<Rightarrow> u8 list \<Rightarrow> (u8 list \<times> u8 list) option" where
  "read_field tag r =
     (if length r < 2 \<or> r ! 0 \<noteq> tag then None
      else if r ! 1 AND 0x80 \<noteq> 0
      then (if r ! 1 \<noteq> 0x81 \<or> length r < 3 \<or> r ! 2 < 128 then None
            else let header = 3; len = unat (r ! 2) in
              if len > length r - header then None
              else Some (take len (drop header r), drop len (drop header r)))
      else (let header = 2; len = unat (r ! 1) in
              if len > length r - header then None
              else Some (take len (drop header r), drop len (drop header r))))"

text \<open>\<open>memcmp(a, b, n) < 0\<close> on equally long byte strings.\<close>

fun bytes_less :: "u8 list \<Rightarrow> u8 list \<Rightarrow> bool" where
  "bytes_less (a # as) (b # bs) = (a < b \<or> a = b \<and> bytes_less as bs)"
| "bytes_less _ _ = False"

definition p256_scalar_valid :: "u8 list \<Rightarrow> bool" where
  "p256_scalar_valid scalar \<longleftrightarrow>
     (\<exists>b \<in> set (take 32 scalar). b \<noteq> 0) \<and> bytes_less (take 32 scalar) order_be"

section \<open>Encoding and decoding\<close>

definition outer_der :: "u8 list" where "outer_der = [0x30,0x81,0x87,0x02,0x01,0x00]"
definition inner_der :: "u8 list" where "inner_der = [0x04,0x6d,0x30,0x6b,0x02,0x01,0x01,0x04,0x20]"
definition public_der :: "u8 list" where "public_der = [0xa1,0x44,0x03,0x42,0x00]"

text \<open>\<open>None\<close> is the result \<open>false\<close> with \<open>*written = 0\<close>.\<close>

definition encode_p256_pkcs8 :: "u8 list \<Rightarrow> u8 list \<Rightarrow> nat \<Rightarrow> u8 list option" where
  "encode_p256_pkcs8 scalar point capacity =
     (if capacity < 138 \<or> point ! 0 \<noteq> 4 \<or> \<not> p256_scalar_valid scalar then None
      else Some (outer_der @ algorithm_der @ inner_der @ take 32 scalar @ public_der @ take 65 point))"

definition check :: "bool \<Rightarrow> unit option" where
  "check b = (if b then Some () else None)"

definition read_parameters :: "u8 list \<Rightarrow> u8 list option" where
  "read_parameters key =
     (if key \<noteq> [] \<and> key ! 0 = 0xa0 then do {
        (parameters, key) \<leftarrow> read_field 0xa0 key;
        parameters \<leftarrow> read_literal curve_der parameters;
        check (parameters = []);
        Some key
      } else Some key)"

definition read_public :: "u8 list \<Rightarrow> u8 list \<Rightarrow> u8 list option" where
  "read_public point key =
     (if key \<noteq> [] \<and> key ! 0 = 0xa1 then do {
        (public_field, key) \<leftarrow> read_field 0xa1 key;
        (bits, public_field) \<leftarrow> read_field 0x03 public_field;
        check (public_field = [] \<and> length bits = 66 \<and> bits ! 0 = 0 \<and> drop 1 bits = point);
        Some key
      } else Some key)"

definition decode_p256_pkcs8 :: "u8 list option \<Rightarrow> u8 list \<Rightarrow> u8 list option" where
  "decode_p256_pkcs8 input point =
     (case input of None \<Rightarrow> None | Some bytes \<Rightarrow>
      if length bytes > 256 \<or> point ! 0 \<noteq> 4 then None else do {
        (outer, top) \<leftarrow> read_field 0x30 bytes;
        check (top = []);
        outer \<leftarrow> read_literal [0x02,0x01,0x00] outer;
        outer \<leftarrow> read_literal algorithm_der outer;
        (key_octets, outer) \<leftarrow> read_field 0x04 outer;
        check (outer = []);
        (key, key_octets) \<leftarrow> read_field 0x30 key_octets;
        check (key_octets = []);
        key \<leftarrow> read_literal [0x02,0x01,0x01] key;
        (value, key) \<leftarrow> read_field 0x04 key;
        check (length value = 32 \<and> p256_scalar_valid value);
        key \<leftarrow> read_parameters key;
        key \<leftarrow> read_public point key;
        check (key = []);
        Some value
      })"

section \<open>The reader accepts exactly canonical DER\<close>

definition der :: "u8 \<Rightarrow> u8 list \<Rightarrow> u8 list" where
  "der tag content = tag #
     (if length content < 128 then [of_nat (length content)] else [0x81, of_nat (length content)]) @ content"

lemma read_literal_Some: "read_literal bytes r = Some r' \<longleftrightarrow> r = bytes @ r'"
  by (auto simp: read_literal_def split: if_splits) (metis append_take_drop_id)

lemma check_Some [simp]: "check b = Some u \<longleftrightarrow> b"
  by (simp add: check_def)

lemma high_bit_byte: "(b :: u8) AND 0x80 \<noteq> 0 \<longleftrightarrow> 128 \<le> unat b"
proof -
  have "(0x80 :: u8) = 2 ^ 7" by simp
  then have "b AND 0x80 \<noteq> 0 \<longleftrightarrow> bit b 7"
    by (metis and_exp_eq_0_iff_not_bit)
  also have "\<dots> \<longleftrightarrow> odd (unat b div 128)"
    using bit_unsigned_iff [of b 7, where 'a = nat] by (simp add: bit_iff_odd)
  also have "unat b < 256"
    using unsigned_less [of b, where 'a = nat] by simp
  then have "unat b div 128 = (if 128 \<le> unat b then 1 else 0)"
    by (auto intro: div_nat_eqI)
  then have "odd (unat b div 128) \<longleftrightarrow> 128 \<le> unat b"
    by simp
  finally show ?thesis .
qed

lemma unat_byte [simp]: "n < 256 \<Longrightarrow> unat (of_nat n :: u8) = n"
  by (simp add: unat_of_nat)

lemma byte_of_unat [simp]: "(of_nat (unat b) :: u8) = b"
  by simp

lemma unat_byte_less: "unat (b :: u8) < 256"
  using unsigned_less [of b, where 'a = nat] by simp

lemma high_bit_length:
  "n < 256 \<Longrightarrow> (of_nat n :: u8) AND 0x80 \<noteq> 0 \<longleftrightarrow> 128 \<le> n"
  by (simp only: high_bit_byte unat_byte)

lemma byte_less_128: "(b :: u8) < 128 \<longleftrightarrow> unat b < 128"
  by (simp add: word_less_nat_alt)

lemma read_field_der:
  assumes "length c < 256"
  shows "read_field tag (der tag c @ rest) = Some (c, rest)"
proof (cases "length c < 128")
  case True
  then have "(of_nat (length c) :: u8) AND 0x80 = 0"
    using high_bit_length [OF assms] by auto
  then show ?thesis
    using True assms by (simp add: read_field_def der_def Let_def)
next
  case False
  then show ?thesis
    using assms by (simp add: read_field_def der_def byte_less_128 Let_def)
qed

lemma read_field_Some_der:
  assumes "read_field tag r = Some (c, rest)"
  shows "length c < 256 \<and> r = der tag c @ rest"
proof -
  from assms obtain l r' where r: "r = tag # l # r'"
    by (cases r; cases "tl r") (auto simp: read_field_def split: if_splits)
  show ?thesis
  proof (cases "l AND 0x80 = 0")
    case True
    then have l: "unat l < 128"
      using high_bit_byte [of l] by auto
    with assms True r have c: "c = take (unat l) r'" "rest = drop (unat l) r'" "unat l \<le> length r'"
      by (auto simp: read_field_def Let_def split: if_splits)
    then have "length c = unat l" by simp
    with l c show ?thesis
      by (simp add: r der_def)
  next
    case False
    with assms r obtain n r'' where n: "l = 0x81" "r' = n # r''" "128 \<le> unat n"
      by (cases r') (auto simp: read_field_def byte_less_128 split: if_splits)
    with assms False r have c: "c = take (unat n) r''" "rest = drop (unat n) r''" "unat n \<le> length r''"
      by (auto simp: read_field_def Let_def split: if_splits)
    then have "length c = unat n" by simp
    with n c unat_byte_less [of n] show ?thesis
      by (simp add: r der_def)
  qed
qed

lemma read_field_Some: "read_field tag r = Some (c, rest) \<longleftrightarrow> length c < 256 \<and> r = der tag c @ rest"
  using read_field_der read_field_Some_der by blast

section \<open>The accepted documents\<close>

definition parameters_der :: "bool \<Rightarrow> u8 list" where
  "parameters_der b = (if b then der 0xa0 curve_der else [])"

definition public_key_der :: "bool \<Rightarrow> u8 list \<Rightarrow> u8 list" where
  "public_key_der b point = (if b then der 0xa1 (der 0x03 (0 # point)) else [])"

definition key_der :: "bool \<Rightarrow> bool \<Rightarrow> u8 list \<Rightarrow> u8 list \<Rightarrow> u8 list" where
  "key_der params pub scalar point =
     [0x02,0x01,0x01] @ der 0x04 scalar @ parameters_der params @ public_key_der pub point"

definition pkcs8_der :: "bool \<Rightarrow> bool \<Rightarrow> u8 list \<Rightarrow> u8 list \<Rightarrow> u8 list" where
  "pkcs8_der params pub scalar point =
     der 0x30 ([0x02,0x01,0x00] @ algorithm_der @ der 0x04 (der 0x30 (key_der params pub scalar point)))"

lemma read_parameters_Some:
  assumes "read_parameters key = Some key'"
  shows "\<exists>b. key = parameters_der b @ key'"
proof (cases "key \<noteq> [] \<and> key ! 0 = 0xa0")
  case True
  with assms obtain ps ps' where "read_field 0xa0 key = Some (ps, key')"
      "read_literal curve_der ps = Some ps'" "ps' = []"
    by (auto simp: read_parameters_def bind_eq_Some_conv)
  then have "key = parameters_der True @ key'"
    by (simp add: read_field_Some read_literal_Some parameters_der_def)
  then show ?thesis ..
next
  case False
  with assms have "key = parameters_der False @ key'"
    by (auto simp: read_parameters_def parameters_der_def)
  then show ?thesis ..
qed

lemma read_public_Some:
  assumes "read_public point key = Some key'"
  shows "\<exists>b. key = public_key_der b point @ key'"
proof (cases "key \<noteq> [] \<and> key ! 0 = 0xa1")
  case True
  with assms obtain pf pf' bits where f: "read_field 0xa1 key = Some (pf, key')"
      "read_field 0x03 pf = Some (bits, pf')" "pf' = []" "length bits = 66" "bits ! 0 = 0" "drop 1 bits = point"
    by (auto simp: read_public_def bind_eq_Some_conv)
  then have "bits = 0 # point" by (cases bits) auto
  with f have "key = public_key_der True point @ key'"
    by (simp add: read_field_Some public_key_der_def)
  then show ?thesis ..
next
  case False
  with assms have "key = public_key_der False point @ key'"
    by (auto simp: read_public_def public_key_der_def)
  then show ?thesis ..
qed

lemma der_hd [simp]: "der tag c \<noteq> []" "der tag c ! 0 = tag" "(der tag c @ r) ! 0 = tag"
  by (simp_all add: der_def)

lemma length_curve [simp]: "length curve_der = 10"
  by (simp add: curve_der_def)

lemma length_algorithm [simp]: "length algorithm_der = 21"
  by (simp add: algorithm_der_def)

lemma length_der: "length (der tag c) = length c + (if length c < 128 then 2 else 3)"
  by (simp add: der_def)

lemma read_parameters_der:
  "key = [] \<or> key ! 0 = 0xa1 \<Longrightarrow> read_parameters (parameters_der b @ key) = Some key"
  by (cases b) (auto simp: read_parameters_def parameters_der_def read_field_der read_literal_def check_def)

lemma read_public_der:
  "length point = 65 \<Longrightarrow> read_public point (public_key_der b point) = Some []"
  using read_field_der [of "der 3 (0 # point)" "0xa1" "[]"] read_field_der [of "0 # point" 3 "[]"]
  by (cases b) (auto simp: read_public_def public_key_der_def check_def length_der)

lemma decode_accepts:
  assumes "length scalar = 32" "p256_scalar_valid scalar" "length point = 65" "point ! 0 = 4"
  shows "decode_p256_pkcs8 (Some (pkcs8_der params pub scalar point)) point = Some scalar"
proof -
  let ?key = "key_der params pub scalar point"
  have pub: "public_key_der pub point = [] \<or> public_key_der pub point ! 0 = 0xa1"
    by (cases pub) (simp_all add: public_key_der_def)
  have key: "length ?key \<le> 119"
    using assms by (simp add: key_der_def parameters_der_def public_key_der_def length_der)
  have octets: "length (der 0x30 ?key) \<le> 121"
    using key unfolding length_der by (simp split: if_split)
  have doc: "length ([0x02,0x01,0x00] @ algorithm_der @ der 0x04 (der 0x30 ?key)) \<le> 147"
    using octets unfolding length_append length_der [of _ "der 0x30 ?key"] by (simp split: if_split)
  then have total: "length (pkcs8_der params pub scalar point) \<le> 256"
    unfolding pkcs8_der_def length_der by (simp split: if_split)
  have f1: "read_field 0x30 (pkcs8_der params pub scalar point) =
      Some ([0x02,0x01,0x00] @ algorithm_der @ der 0x04 (der 0x30 ?key), [])"
    using doc read_field_der [of _ "0x30" "[]"] by (simp add: pkcs8_der_def)
  have f2: "read_field 0x04 (der 0x04 (der 0x30 ?key)) = Some (der 0x30 ?key, [])"
    using octets read_field_der [of "der 0x30 ?key" 4 "[]"] by simp
  have f3: "read_field 0x30 (der 0x30 ?key) = Some (?key, [])"
    using key read_field_der [of ?key "0x30" "[]"] by simp
  have f4: "read_field 0x04 (der 0x04 scalar @ r) = Some (scalar, r)" for r
    using assms read_field_der [of scalar 4 r] by simp
  have lit: "read_literal a (a @ b) = Some b" for a b :: "u8 list"
    by (simp add: read_literal_Some)
  have keylit: "read_literal [0x02,0x01,0x01] ?key =
      Some (der 0x04 scalar @ parameters_der params @ public_key_der pub point)"
    by (simp add: key_der_def read_literal_Some)
  have doclit: "read_literal [0x02,0x01,0x00] ([0x02,0x01,0x00] @ b) = Some b" for b :: "u8 list"
    by (rule lit)
  show ?thesis
    using total assms
    by (simp add: decode_p256_pkcs8_def f1 doclit lit f2 f3 keylit f4 read_parameters_der [OF pub]
        read_public_der check_def del: append_Cons)
qed

lemma decode_only:
  assumes "decode_p256_pkcs8 (Some bytes) point = Some scalar"
  shows "length scalar = 32 \<and> p256_scalar_valid scalar \<and> point ! 0 = 4 \<and>
    (\<exists>params pub. bytes = pkcs8_der params pub scalar point)"
proof -
  from assms obtain outer outer1 outer2 octets key key1 key2 key3 where
    s: "read_field 0x30 bytes = Some (outer, [])" "read_literal [0x02,0x01,0x00] outer = Some outer1"
      "read_literal algorithm_der outer1 = Some outer2" "read_field 0x04 outer2 = Some (octets, [])"
      "read_field 0x30 octets = Some (key, [])" "read_literal [0x02,0x01,0x01] key = Some key1"
      "read_field 0x04 key1 = Some (scalar, key2)" "read_parameters key2 = Some key3"
      "read_public point key3 = Some []"
    and v: "length scalar = 32" "p256_scalar_valid scalar" "point ! 0 = 4"
    by (auto simp: decode_p256_pkcs8_def bind_eq_Some_conv split: if_splits)
  obtain params where params: "key2 = parameters_der params @ key3"
    using read_parameters_Some [OF s(8)] by blast
  obtain pub where pub: "key3 = public_key_der pub point"
    using read_public_Some [OF s(9)] by auto
  have "key = key_der params pub scalar point"
    using s(6,7) params pub by (simp add: read_literal_Some read_field_Some key_der_def)
  then have "bytes = pkcs8_der params pub scalar point"
    using s(1-5) by (simp add: read_literal_Some read_field_Some pkcs8_der_def)
  with v show ?thesis by blast
qed

lemma encode_is_pkcs8:
  assumes "encode_p256_pkcs8 scalar point capacity = Some out" "length scalar = 32" "length point = 65"
  shows "out = pkcs8_der False True scalar point" and "length out = 138"
    and "p256_scalar_valid scalar" and "point ! 0 = 4"
proof -
  show v: "p256_scalar_valid scalar" and p: "point ! 0 = 4"
    using assms by (auto simp: encode_p256_pkcs8_def split: if_splits)
  have out: "out = outer_der @ algorithm_der @ inner_der @ scalar @ public_der @ point"
    using assms by (auto simp: encode_p256_pkcs8_def split: if_splits)
  then show "length out = 138"
    using assms by (simp add: outer_der_def inner_der_def public_der_def)
  show "out = pkcs8_der False True scalar point"
    using assms(2,3)
    by (simp add: out pkcs8_der_def key_der_def parameters_der_def public_key_der_def der_def
        outer_der_def inner_der_def public_der_def)
qed

section \<open>The scalar range\<close>

text \<open>Big-endian value of a byte string.\<close>

fun be_value :: "u8 list \<Rightarrow> nat" where
  "be_value [] = 0"
| "be_value (b # bs) = unat b * 256 ^ length bs + be_value bs"

lemma be_value_bound: "be_value bs < 256 ^ length bs"
proof (induction bs)
  case (Cons b bs)
  have "unat b * 256 ^ length bs + be_value bs < (unat b + 1) * 256 ^ length bs"
    using Cons by simp
  also have "\<dots> \<le> 256 * 256 ^ length bs"
    using unat_byte_less [of b] by (intro mult_le_mono1) simp
  finally show ?case by simp
qed simp

lemma be_value_zero: "be_value bs = 0 \<longleftrightarrow> (\<forall>b \<in> set bs. b = 0)"
  by (induction bs) (auto simp: unat_eq_0)

lemma bytes_less_value: "length as = length bs \<Longrightarrow> bytes_less as bs \<longleftrightarrow> be_value as < be_value bs"
proof (induction as bs rule: bytes_less.induct)
  case (1 a as b bs)
  let ?n = "256 ^ length bs :: nat"
  have lens: "length as = length bs" using 1 by simp
  have bounds: "be_value as < ?n" "be_value bs < ?n"
    using be_value_bound [of as] be_value_bound [of bs] lens by simp_all
  consider "unat a < unat b" | "unat a = unat b" | "unat b < unat a" by linarith
  then show ?case
  proof cases
    case 1
    then have "(unat a + 1) * ?n \<le> unat b * ?n" by (intro mult_le_mono1) simp
    then have "be_value (a # as) < be_value (b # bs)"
      using bounds lens by (simp add: algebra_simps)
    with 1 show ?thesis by (simp add: word_less_nat_alt)
  next
    case 2
    then have "a = b" by (simp add: word_unat_eq_iff)
    with "1.IH" lens show ?thesis by simp
  next
    case 3
    then have "(unat b + 1) * ?n \<le> unat a * ?n" by (intro mult_le_mono1) simp
    then have "be_value (b # bs) < be_value (a # as)"
      using bounds lens by (simp add: algebra_simps)
    with 3 show ?thesis by (auto simp: word_less_nat_alt)
  qed
qed auto

definition p256_order :: nat where
  "p256_order = 0xffffffff00000000ffffffffffffffffbce6faada7179e84f3b9cac2fc632551"

lemma order_value: "be_value order_be = p256_order"
  by (simp add: order_be_def p256_order_def)

lemma scalar_valid_range:
  assumes "length scalar = 32"
  shows "p256_scalar_valid scalar \<longleftrightarrow> 0 < be_value scalar \<and> be_value scalar < p256_order"
proof -
  have "length order_be = 32" by (simp add: order_be_def)
  then have "bytes_less scalar order_be \<longleftrightarrow> be_value scalar < p256_order"
    using bytes_less_value [of scalar order_be] assms by (simp add: order_value)
  then show ?thesis
    using assms be_value_zero [of scalar] by (auto simp: p256_scalar_valid_def)
qed

section \<open>Properties\<close>

text \<open>
  Claim C5. The decoder accepts exactly the canonical DER documents of a private scalar
  in the range \<open>[1, n-1]\<close> of the curve order, with or without curve parameters and with or
  without the public key, and a public key in the document must be the caller's point:
  no other encoding of a length, no trailing bytes, no other order of the fields.
\<close>

theorem decode_accepts_exactly_pkcs8:
  assumes "length point = 65"
  shows "decode_p256_pkcs8 (Some bytes) point = Some scalar \<longleftrightarrow>
    length scalar = 32 \<and> 0 < be_value scalar \<and> be_value scalar < p256_order \<and> point ! 0 = 4 \<and>
    (\<exists>params pub. bytes = pkcs8_der params pub scalar point)"
  using decode_only decode_accepts assms scalar_valid_range by metis

definition sample_scalar :: "u8 list" where "sample_scalar = replicate 31 0 @ [1]"
definition sample_point :: "u8 list" where "sample_point = 4 # replicate 64 9"

lemma be_value_leading_zeros [simp]: "be_value (replicate n 0 @ bs) = be_value bs"
  by (induction n) auto

lemma sample_value: "be_value sample_scalar = 1" "1 < p256_order"
  by (simp_all add: sample_scalar_def p256_order_def)

lemma sample_lengths: "length sample_scalar = 32" "length sample_point = 65" "sample_point ! 0 = 4"
  by (simp_all add: sample_scalar_def sample_point_def)

theorem decode_accepts_exactly_pkcs8_witness:
  "decode_p256_pkcs8 (Some (pkcs8_der True False sample_scalar sample_point)) sample_point = Some sample_scalar"
  by (rule iffD2 [OF decode_accepts_exactly_pkcs8 [OF sample_lengths(2)]])
    (use sample_lengths sample_value in auto)

text \<open>
  Claim C6. What the encoder writes is 138 bytes that the decoder turns back into the same
  scalar with the same point, and refuses with any other point.
\<close>

theorem encode_decode_roundtrip:
  assumes "encode_p256_pkcs8 scalar point capacity = Some out"
    and "length scalar = 32" and "length point = 65" and "length point' = 65"
  shows "length out = 138 \<and>
    decode_p256_pkcs8 (Some out) point' = (if point' = point then Some scalar else None)"
proof -
  note e = encode_is_pkcs8 [OF assms(1-3)]
  have "decode_p256_pkcs8 (Some out) point' = None" if other: "point' \<noteq> point"
  proof (rule ccontr)
    assume "decode_p256_pkcs8 (Some out) point' \<noteq> None"
    then obtain scalar' params pub where d: "length scalar' = 32" "out = pkcs8_der params pub scalar' point'"
      using decode_only by blast
    have "params = False \<and> pub = True"
      using e(2) d assms(4) by (cases params; cases pub)
        (simp_all add: pkcs8_der_def key_der_def parameters_der_def public_key_der_def length_der)
    with d e(1) assms(2-4) have "point' = point"
      by (simp add: pkcs8_der_def key_der_def parameters_der_def public_key_der_def der_def)
    with other show False by contradiction
  qed
  then show ?thesis
    using e decode_accepts [OF assms(2) e(3) assms(3) e(4)] by auto
qed

theorem encode_decode_roundtrip_witness:
  "\<exists>out. encode_p256_pkcs8 sample_scalar sample_point 256 = Some out \<and>
     decode_p256_pkcs8 (Some out) sample_point = Some sample_scalar"
proof -
  have "p256_scalar_valid sample_scalar"
    using scalar_valid_range [OF sample_lengths(1)] sample_value by simp
  then obtain out where out: "encode_p256_pkcs8 sample_scalar sample_point 256 = Some out"
    using sample_lengths by (auto simp: encode_p256_pkcs8_def)
  with encode_decode_roundtrip [OF out sample_lengths(1,2,2)] show ?thesis by auto
qed

end
