(* ===== verification/Native_Crypto.thy ===== *)
theory Native_Crypto
  imports Native_Memory P256_Codec
begin

text \<open>
  \<open>native_crypto.cpp\<close> (the ECDSA exports and their storage discipline) and
  \<open>crypto_windows.cpp\<close> (the CNG implementation of its \<open>CryptoOperations\<close>).  CNG itself is
  the record \<open>cng\<close>: what each \<open>BCrypt\<close> call answered.  An operation's effect on the
  caller's buffers is the byte strings it returns.
\<close>

definition kMaxPkcs8 :: u64 where "kMaxPkcs8 = 256"
definition kPointBytes :: u64 where "kPointBytes = 65"
definition kDigestBytes :: u64 where "kDigestBytes = 32"
definition kRawBytes :: u64 where "kRawBytes = 64"

section \<open>Injected operations\<close>

text \<open>
  \<open>generate_op\<close> answers status, key length and the contents it left in the two buffers;
  \<open>sign_op\<close> status and the signature buffer.  The capacities bound what reaches memory.
\<close>

record crypto_ops =
  generate_op :: "u64 \<Rightarrow> u64 \<Rightarrow> status \<times> u64 \<times> u8 list \<times> u8 list"
  sign_op :: "u8 list \<Rightarrow> u8 list \<Rightarrow> u8 list \<Rightarrow> status \<times> u8 list"
  verify_op :: "u8 list \<Rightarrow> u8 list \<Rightarrow> u8 list \<Rightarrow> status"

definition both_overlap :: "ptr \<Rightarrow> u64 \<Rightarrow> ptr \<Rightarrow> u64 \<Rightarrow> bool" where
  "both_overlap a n b m \<longleftrightarrow> span a n \<and> span b m \<and> overlaps a n b m"

definition when_do :: "bool \<Rightarrow> (mem \<Rightarrow> mem) \<Rightarrow> mem \<Rightarrow> mem" where
  "when_do b f m = (if b then f m else m)"

section \<open>Key generation\<close>

definition generate_key ::
  "u32 \<Rightarrow> ptr \<Rightarrow> u64 \<Rightarrow> ptr \<Rightarrow> ptr \<Rightarrow> u64 \<Rightarrow> ptr \<Rightarrow> crypto_ops \<Rightarrow> mem \<Rightarrow> status \<times> mem" where
  "generate_key version pkcs8 pkcs8_capacity pkcs8_written point point_capacity point_written ops m =
     (let key_valid = span pkcs8 pkcs8_capacity \<and> pkcs8_capacity \<le> kMaxPkcs8;
          point_valid = span point point_capacity \<and> point_capacity = kPointBytes;
          key_count = valid_count pkcs8_written;
          point_count = valid_count point_written;
          key_count_alias = key_count \<and>
            (span pkcs8 pkcs8_capacity \<and> overlaps pkcs8_written 8 pkcs8 pkcs8_capacity \<or>
             span point point_capacity \<and> overlaps pkcs8_written 8 point point_capacity \<or>
             point_count \<and> overlaps pkcs8_written 8 point_written 8);
          point_count_alias = point_count \<and>
            (span pkcs8 pkcs8_capacity \<and> overlaps point_written 8 pkcs8 pkcs8_capacity \<or>
             span point point_capacity \<and> overlaps point_written 8 point point_capacity \<or>
             key_count \<and> overlaps point_written 8 pkcs8_written 8);
          outputs_alias = key_valid \<and> point_valid \<and> overlaps pkcs8 pkcs8_capacity point point_capacity;
          m1 = when_do (key_count \<and> \<not> key_count_alias) (store64 pkcs8_written 0) m;
          m2 = when_do (point_count \<and> \<not> point_count_alias) (store64 point_written 0) m1;
          m3 = when_do (key_valid \<and> \<not> outputs_alias \<and> \<not> key_count_alias \<and> \<not> point_count_alias)
                 (zero_mem pkcs8 pkcs8_capacity) m2;
          m4 = when_do (point_valid \<and> \<not> outputs_alias \<and> \<not> key_count_alias \<and> \<not> point_count_alias)
                 (zero_mem point point_capacity) m3
      in if \<not> key_valid \<or> \<not> point_valid \<or> \<not> key_count \<or> \<not> point_count \<or>
            key_count_alias \<or> point_count_alias \<or> outputs_alias
         then (INVALID_INPUT, m4)
         else if version \<noteq> ABI_VERSION then (ABI_MISMATCH, m4)
         else
           let m5 = zero_mem point point_capacity (zero_mem pkcs8 pkcs8_capacity m4);
               (status, len, key_bytes, point_bytes) = generate_op ops pkcs8_capacity point_capacity;
               m6 = write_bytes point (take (unat point_capacity) point_bytes)
                      (write_bytes pkcs8 (take (unat pkcs8_capacity) key_bytes) m5)
           in if status \<noteq> OK \<or> len = 0 \<or> len > pkcs8_capacity
              then (if status = OK then DATA_CORRUPT else status,
                    zero_mem point point_capacity (zero_mem pkcs8 pkcs8_capacity m6))
              else (OK, store64 point_written kPointBytes (store64 pkcs8_written len m6)))"

section \<open>Signing\<close>

definition sign_digest ::
  "u32 \<Rightarrow> ptr \<Rightarrow> u64 \<Rightarrow> ptr \<Rightarrow> u64 \<Rightarrow> ptr \<Rightarrow> u64 \<Rightarrow> ptr \<Rightarrow> u64 \<Rightarrow> ptr \<Rightarrow> crypto_ops \<Rightarrow> mem \<Rightarrow>
     status \<times> mem" where
  "sign_digest version pkcs8 pkcs8_length point point_length digest digest_length
      signature signature_capacity signature_written ops m =
     (let key_valid = span pkcs8 pkcs8_length \<and> pkcs8_length \<le> kMaxPkcs8;
          digest_valid = span digest digest_length \<and> digest_length = kDigestBytes;
          output_valid = span signature signature_capacity \<and> signature_capacity = kRawBytes;
          count_ok = valid_count signature_written;
          point_valid = span point point_length \<and> point_length = kPointBytes;
          count_alias = count_ok \<and>
            (both_overlap signature_written 8 pkcs8 pkcs8_length \<or>
             both_overlap signature_written 8 point point_length \<or>
             both_overlap signature_written 8 digest digest_length \<or>
             both_overlap signature_written 8 signature signature_capacity);
          output_alias = both_overlap signature signature_capacity pkcs8 pkcs8_length \<or>
            both_overlap signature signature_capacity point point_length \<or>
            both_overlap signature signature_capacity digest digest_length \<or> count_alias;
          m1 = when_do (count_ok \<and> \<not> count_alias) (store64 signature_written 0) m;
          m2 = when_do (output_valid \<and> \<not> output_alias) (zero_mem signature signature_capacity) m1
      in if \<not> key_valid \<or> \<not> point_valid \<or> \<not> digest_valid \<or> \<not> output_valid \<or> \<not> count_ok \<or>
            count_alias \<or> output_alias \<or> both_overlap pkcs8 pkcs8_length point point_length \<or>
            both_overlap pkcs8 pkcs8_length digest digest_length \<or>
            both_overlap point point_length digest digest_length
         then (INVALID_INPUT, m2)
         else if version \<noteq> ABI_VERSION then (ABI_MISMATCH, m2)
         else
           let (status, raw) = sign_op ops (read_bytes pkcs8 pkcs8_length m2)
                 (read_bytes point point_length m2) (read_bytes digest digest_length m2);
               m3 = write_bytes signature (take (unat signature_capacity) raw) m2
           in if status \<noteq> OK then (status, zero_mem signature signature_capacity m3)
              else (OK, store64 signature_written kRawBytes m3))"

section \<open>Verification\<close>

definition verify_digest ::
  "u32 \<Rightarrow> ptr \<Rightarrow> u64 \<Rightarrow> ptr \<Rightarrow> u64 \<Rightarrow> ptr \<Rightarrow> u64 \<Rightarrow> crypto_ops \<Rightarrow> mem \<Rightarrow> status" where
  "verify_digest version point point_length digest digest_length signature signature_length ops m =
     (if version \<noteq> ABI_VERSION then ABI_MISMATCH
      else if \<not> span point point_length \<or> point_length \<noteq> kPointBytes \<or>
              \<not> span digest digest_length \<or> digest_length \<noteq> kDigestBytes \<or>
              \<not> span signature signature_length \<or> signature_length \<noteq> kRawBytes
      then INVALID_INPUT
      else if overlaps point point_length digest digest_length \<or>
              overlaps point point_length signature signature_length \<or>
              overlaps digest digest_length signature signature_length
      then INVALID_INPUT
      else case verify_op ops (read_bytes point point_length m) (read_bytes digest digest_length m)
                  (read_bytes signature signature_length m) of
          OK \<Rightarrow> OK
        | VERIFICATION_REJECTED \<Rightarrow> VERIFICATION_REJECTED
        | DATA_CORRUPT \<Rightarrow> DATA_CORRUPT
        | UNAVAILABLE \<Rightarrow> UNAVAILABLE
        | _ \<Rightarrow> DATA_CORRUPT)"

section \<open>The CNG implementation\<close>

text \<open>\<open>BCRYPT_ECCKEY_BLOB\<close> with 64 coordinate bytes and, for a private key, 32 scalar bytes.\<close>

record ecc_blob =
  magic :: u32
  cb_key :: u32
  coordinates :: "u8 list"
  scalar_bytes :: "u8 list"

definition PRIVATE_P256_MAGIC :: u32 where "PRIVATE_P256_MAGIC = 0x32534345"
definition PUBLIC_P256_MAGIC :: u32 where "PUBLIC_P256_MAGIC = 0x31534345"
definition private_blob_bytes :: u32 where "private_blob_bytes = 104"

text \<open>\<open>STATUS_INVALID_SIGNATURE\<close>, 0xC000A000 as a signed \<open>NTSTATUS\<close>.\<close>

definition kStatusInvalidSignature :: int where "kStatusInvalidSignature = 0xC000A000 - 2 ^ 32"

record cng =
  open_provider :: "int \<times> u64"
  generate_pair :: "u64 \<Rightarrow> int \<times> u64"
  finalize_pair :: "u64 \<Rightarrow> int"
  export_private :: "u64 \<Rightarrow> int \<times> ecc_blob \<times> u32"
  import_pair :: "u64 \<Rightarrow> ecc_blob \<Rightarrow> int \<times> u64"
  sign_hash :: "u64 \<Rightarrow> u8 list \<Rightarrow> int \<times> u8 list \<times> u32"
  verify_signature :: "u64 \<Rightarrow> u8 list \<Rightarrow> u8 list \<Rightarrow> int"

datatype cng_object = Provider u64 | Key u64

datatype cng_event = Acquire cng_object | Release cng_object | WipeBlob

text \<open>
  The provider's constructor keeps a handle only when the open succeeded; the destructors
  release what is non-null, in the reverse order of the declarations.
\<close>

definition provider_handle :: "cng \<Rightarrow> u64" where
  "provider_handle c = (case open_provider c of (status, h) \<Rightarrow> if status < 0 then 0 else h)"

definition acquired :: "(u64 \<Rightarrow> cng_object) \<Rightarrow> u64 \<Rightarrow> cng_event list" where
  "acquired k h = (if h \<noteq> 0 then [Acquire (k h)] else [])"

definition released :: "(u64 \<Rightarrow> cng_object) \<Rightarrow> u64 \<Rightarrow> cng_event list" where
  "released k h = (if h \<noteq> 0 then [Release (k h)] else [])"

definition cng_generate ::
  "cng \<Rightarrow> u64 \<Rightarrow> u64 \<Rightarrow> (status \<times> u64 \<times> u8 list \<times> u8 list) \<times> cng_event list" where
  "cng_generate c pkcs8_capacity point_capacity =
     (if pkcs8_capacity < 1 \<or> pkcs8_capacity > kMaxPkcs8 \<or> point_capacity < kPointBytes
      then ((RESOURCE_LIMIT, 0, [], []), [])
      else let provider = provider_handle c in
        if provider = 0 then ((UNAVAILABLE, 0, [], []), [])
        else let (generated, key) = generate_pair c provider;
                 held = acquired Provider provider @ acquired Key key;
                 release = released Key key @ released Provider provider
          in if generated < 0 then ((UNAVAILABLE, 0, [], []), held @ release)
          else if finalize_pair c key < 0 then ((UNAVAILABLE, 0, [], []), held @ release)
          else let (exported, blob, blob_size) = export_private c key
            in if exported < 0 \<or> blob_size \<noteq> private_blob_bytes \<or>
                  magic blob \<noteq> PRIVATE_P256_MAGIC \<or> cb_key blob \<noteq> 32
               then ((DATA_CORRUPT, 0, [], []), held @ WipeBlob # release)
               else let point = 4 # take 64 (coordinates blob) in
                 case encode_p256_pkcs8 (scalar_bytes blob) point (unat pkcs8_capacity) of
                   None \<Rightarrow> ((RESOURCE_LIMIT, 0, [], point), held @ WipeBlob # release)
                 | Some out \<Rightarrow> ((OK, of_nat (length out), out, point), held @ WipeBlob # release))"

definition cng_sign :: "cng \<Rightarrow> u8 list \<Rightarrow> u8 list \<Rightarrow> u8 list \<Rightarrow> (status \<times> u8 list) \<times> cng_event list" where
  "cng_sign c pkcs8 point digest =
     (let provider = provider_handle c in
        if provider = 0 then ((UNAVAILABLE, []), [])
        else case decode_p256_pkcs8 (Some pkcs8) point of
            None \<Rightarrow> ((DATA_CORRUPT, []), acquired Provider provider @ WipeBlob # released Provider provider)
          | Some scalar \<Rightarrow>
              let blob = \<lparr>magic = PRIVATE_P256_MAGIC, cb_key = 32,
                    coordinates = take 64 (drop 1 point), scalar_bytes = scalar\<rparr>;
                  (imported, key) = import_pair c provider blob;
                  events = acquired Provider provider @ acquired Key key @
                    released Key key @ WipeBlob # released Provider provider
              in if imported < 0 then ((DATA_CORRUPT, []), events)
                 else let (signed, raw, written) = sign_hash c key digest in
                   if signed < 0 then ((DATA_CORRUPT, raw), events)
                   else ((if written = 64 then OK else DATA_CORRUPT, raw), events))"

definition cng_verify :: "cng \<Rightarrow> u8 list \<Rightarrow> u8 list \<Rightarrow> u8 list \<Rightarrow> status \<times> cng_event list" where
  "cng_verify c point digest raw =
     (if length point \<noteq> 65 \<or> point ! 0 \<noteq> 4 then (DATA_CORRUPT, [])
      else let provider = provider_handle c in
        if provider = 0 then (UNAVAILABLE, [])
        else
          let blob = \<lparr>magic = PUBLIC_P256_MAGIC, cb_key = 32,
                coordinates = take 64 (drop 1 point), scalar_bytes = []\<rparr>;
              (imported, key) = import_pair c provider blob;
              events = acquired Provider provider @ acquired Key key @
                released Key key @ released Provider provider
          in if imported < 0 then (DATA_CORRUPT, events)
             else let status = verify_signature c key digest raw in
               if status \<ge> 0 then (OK, events)
               else (if status = kStatusInvalidSignature then VERIFICATION_REJECTED else DATA_CORRUPT,
                     events))"

definition windows_crypto_operations :: "cng \<Rightarrow> crypto_ops" where
  "windows_crypto_operations c =
     \<lparr>generate_op = (\<lambda>cap pcap. fst (cng_generate c cap pcap)),
      sign_op = (\<lambda>key point digest. fst (cng_sign c key point digest)),
      verify_op = (\<lambda>point digest raw. fst (cng_verify c point digest raw))\<rparr>"

section \<open>Storage of the exports\<close>

definition key_storage_ok :: "ptr \<Rightarrow> u64 \<Rightarrow> ptr \<Rightarrow> ptr \<Rightarrow> u64 \<Rightarrow> ptr \<Rightarrow> bool" where
  "key_storage_ok key key_cap key_count point point_cap point_count \<longleftrightarrow>
     span key key_cap \<and> key_cap \<le> kMaxPkcs8 \<and> span point point_cap \<and> point_cap = kPointBytes \<and>
     valid_count key_count \<and> valid_count point_count \<and>
     \<not> overlaps key_count 8 key key_cap \<and> \<not> overlaps key_count 8 point point_cap \<and>
     \<not> overlaps key_count 8 point_count 8 \<and> \<not> overlaps point_count 8 key key_cap \<and>
     \<not> overlaps point_count 8 point point_cap \<and> \<not> overlaps key key_cap point point_cap"

lemma key_storage_rejected:
  "\<not> key_storage_ok key key_cap key_count point point_cap point_count \<Longrightarrow>
   fst (generate_key version key key_cap key_count point point_cap point_count ops m) = INVALID_INPUT"
  unfolding generate_key_def key_storage_ok_def Let_def
  using overlaps_sym [of point_count 8 key_count 8] by auto

definition cleared_key_storage :: "ptr \<Rightarrow> u64 \<Rightarrow> ptr \<Rightarrow> ptr \<Rightarrow> u64 \<Rightarrow> ptr \<Rightarrow> mem \<Rightarrow> mem" where
  "cleared_key_storage key key_cap key_count point point_cap point_count m =
     zero_mem point point_cap (zero_mem key key_cap (store64 point_count 0 (store64 key_count 0 m)))"

lemma key_storageD:
  assumes "key_storage_ok key key_cap key_count point point_cap point_count"
  shows "span key key_cap" "span point point_cap" "span key_count 8" "span point_count 8"
    "\<not> overlaps key_count 8 key key_cap" "\<not> overlaps key_count 8 point point_cap"
    "\<not> overlaps key_count 8 point_count 8" "\<not> overlaps point_count 8 key key_cap"
    "\<not> overlaps point_count 8 point point_cap" "\<not> overlaps key key_cap point point_cap"
    "\<not> overlaps key key_cap key_count 8" "\<not> overlaps point point_cap key_count 8"
    "\<not> overlaps point_count 8 key_count 8" "\<not> overlaps key key_cap point_count 8"
    "\<not> overlaps point point_cap point_count 8" "\<not> overlaps point point_cap key key_cap"
  using assms by (auto simp: key_storage_ok_def valid_count_def overlaps_def)

lemma key_storage_accepted:
  assumes "key_storage_ok key key_cap key_count point point_cap point_count"
  shows "generate_key version key key_cap key_count point point_cap point_count ops m =
    (let base = cleared_key_storage key key_cap key_count point point_cap point_count m in
     if version \<noteq> ABI_VERSION then (ABI_MISMATCH, base)
     else
       let base = zero_mem point point_cap (zero_mem key key_cap base);
           (status, len, key_bytes, point_bytes) = generate_op ops key_cap point_cap;
           written = write_bytes point (take (unat point_cap) point_bytes)
              (write_bytes key (take (unat key_cap) key_bytes) base)
       in if status \<noteq> OK \<or> len = 0 \<or> len > key_cap
          then (if status = OK then DATA_CORRUPT else status,
                zero_mem point point_cap (zero_mem key key_cap written))
          else (OK, store64 point_count kPointBytes (store64 key_count len written)))"
proof -
  have "key_cap \<le> kMaxPkcs8" "point_cap = kPointBytes" "valid_count key_count" "valid_count point_count"
    using assms by (simp_all add: key_storage_ok_def)
  then show ?thesis
    using key_storageD [OF assms]
    by (cases "generate_op ops key_cap kPointBytes")
      (simp add: generate_key_def cleared_key_storage_def Let_def when_do_def)
qed

text \<open>What a caller finds in the four pieces of storage.\<close>

definition key_storage :: "ptr \<Rightarrow> u64 \<Rightarrow> ptr \<Rightarrow> ptr \<Rightarrow> u64 \<Rightarrow> ptr \<Rightarrow> mem \<Rightarrow> u8 list \<times> u64 \<times> u8 list \<times> u64" where
  "key_storage key key_cap key_count point point_cap point_count m =
     (read_bytes key key_cap m, load64 key_count m, read_bytes point point_cap m, load64 point_count m)"

definition no_key :: "u64 \<Rightarrow> u64 \<Rightarrow> u8 list \<times> u64 \<times> u8 list \<times> u64" where
  "no_key key_cap point_cap = (replicate (unat key_cap) 0, 0, replicate (unat point_cap) 0, 0)"

lemma generate_failure_clears:
  assumes ok: "key_storage_ok key key_cap key_count point point_cap point_count"
    and run: "generate_key version key key_cap key_count point point_cap point_count ops m = (st, t)"
    and fail: "st \<noteq> OK"
  shows "key_storage key key_cap key_count point point_cap point_count t = no_key key_cap point_cap"
  using run fail key_storageD [OF ok]
  by (auto simp: key_storage_accepted [OF ok] cleared_key_storage_def key_storage_def no_key_def
      load64_def Let_def mem_simps split: if_splits prod.splits)

lemma generate_success:
  assumes ok: "key_storage_ok key key_cap key_count point point_cap point_count"
    and run: "generate_key version key key_cap key_count point point_cap point_count ops m = (OK, t)"
  obtains len key_bytes point_bytes
  where "version = ABI_VERSION" "generate_op ops key_cap point_cap = (OK, len, key_bytes, point_bytes)"
    "0 < len" "len \<le> key_cap" "load64 key_count t = len" "load64 point_count t = kPointBytes"
    "read_bytes key key_cap t = read_bytes key key_cap (write_bytes key (take (unat key_cap) key_bytes)
       (zero_mem key key_cap (cleared_key_storage key key_cap key_count point point_cap point_count m)))"
proof -
  obtain st len kb pb where op: "generate_op ops key_cap point_cap = (st, len, kb, pb)"
    by (cases "generate_op ops key_cap point_cap") auto
  have go: "version = ABI_VERSION" "st = OK" "len \<noteq> 0" "len \<le> key_cap"
    and t: "t = store64 point_count kPointBytes (store64 key_count len
        (write_bytes point (take (unat point_cap) pb) (write_bytes key (take (unat key_cap) kb)
        (zero_mem point point_cap (zero_mem key key_cap
          (cleared_key_storage key key_cap key_count point point_cap point_count m))))))"
    using run by (auto simp: key_storage_accepted [OF ok] op Let_def split: if_splits)
  note d = key_storageD [OF ok]
  have apart: "\<not> in_region point point_cap a" if "in_region key key_cap a" for a
    by (rule disjoint_regions [OF d(1) d(2) d(10) that])
  have "read_bytes key key_cap t = read_bytes key key_cap (write_bytes key (take (unat key_cap) kb)
       (zero_mem point point_cap (zero_mem key key_cap
          (cleared_key_storage key key_cap key_count point point_cap point_count m))))"
    using d by (simp add: t mem_simps)
  also have "\<dots> = read_bytes key key_cap (write_bytes key (take (unat key_cap) kb)
       (zero_mem key key_cap (cleared_key_storage key key_cap key_count point point_cap point_count m)))"
    by (rule read_bytes_cong [OF d(1)]) (simp add: write_bytes_def zero_mem_def apart)
  finally have key: "read_bytes key key_cap t = \<dots>" .
  have "load64 key_count t = len" "load64 point_count t = kPointBytes"
    using d by (simp_all add: t load64_def mem_simps)
  moreover have "0 < len" using go(3) by (simp add: word_gt_0)
  ultimately show ?thesis using go key that [of len kb pb] op by simp
qed

section \<open>Storage of sign_digest\<close>

lemma both_overlap_apart:
  "\<not> both_overlap x n y k \<Longrightarrow> span x n \<Longrightarrow> span y k \<Longrightarrow> in_region y k a \<Longrightarrow> \<not> in_region x n a"
  using disjoint_regions overlaps_sym by (auto simp: both_overlap_def)

lemma write_prefix_out:
  "span p n \<Longrightarrow> \<not> in_region p n a \<Longrightarrow> write_bytes p (take (unat n) bs) m a = m a"
  by (rule write_bytes_out) auto

definition sign_storage_ok ::
  "ptr \<Rightarrow> u64 \<Rightarrow> ptr \<Rightarrow> u64 \<Rightarrow> ptr \<Rightarrow> u64 \<Rightarrow> ptr \<Rightarrow> u64 \<Rightarrow> ptr \<Rightarrow> bool" where
  "sign_storage_ok key key_len point point_len digest digest_len sig sig_cap count_p \<longleftrightarrow>
     span key key_len \<and> key_len \<le> kMaxPkcs8 \<and> span point point_len \<and> point_len = kPointBytes \<and>
     span digest digest_len \<and> digest_len = kDigestBytes \<and> span sig sig_cap \<and> sig_cap = kRawBytes \<and>
     valid_count count_p \<and>
     \<not> overlaps count_p 8 key key_len \<and> \<not> overlaps count_p 8 point point_len \<and>
     \<not> overlaps count_p 8 digest digest_len \<and> \<not> overlaps count_p 8 sig sig_cap \<and>
     \<not> overlaps sig sig_cap key key_len \<and> \<not> overlaps sig sig_cap point point_len \<and>
     \<not> overlaps sig sig_cap digest digest_len \<and> \<not> overlaps key key_len point point_len \<and>
     \<not> overlaps key key_len digest digest_len \<and> \<not> overlaps point point_len digest digest_len"

lemma sign_rejected:
  assumes "\<not> sign_storage_ok key key_len point point_len digest digest_len sig sig_cap count_p"
  shows "\<exists>b1 b2. sign_digest version key key_len point point_len digest digest_len sig sig_cap count_p ops m =
      (INVALID_INPUT, when_do b2 (zero_mem sig sig_cap) (when_do b1 (store64 count_p 0) m)) \<and>
    (b1 \<longrightarrow> valid_count count_p \<and> \<not> both_overlap count_p 8 key key_len \<and>
      \<not> both_overlap count_p 8 point point_len \<and> \<not> both_overlap count_p 8 digest digest_len) \<and>
    (b2 \<longrightarrow> span sig sig_cap \<and> \<not> both_overlap sig sig_cap key key_len \<and>
      \<not> both_overlap sig sig_cap point point_len \<and> \<not> both_overlap sig sig_cap digest digest_len)"
  using assms unfolding sign_digest_def sign_storage_ok_def Let_def both_overlap_def valid_count_def
  by (intro exI conjI) (rule if_P, blast+)

lemma sign_accepted:
  assumes "sign_storage_ok key key_len point point_len digest digest_len sig sig_cap count_p"
  defines "base \<equiv> \<lambda>m. zero_mem sig sig_cap (store64 count_p 0 m)"
  shows "sign_digest version key key_len point point_len digest digest_len sig sig_cap count_p ops m =
    (if version \<noteq> ABI_VERSION then (ABI_MISMATCH, base m)
     else case sign_op ops (read_bytes key key_len m) (read_bytes point point_len m)
            (read_bytes digest digest_len m) of (status, raw) \<Rightarrow>
       if status \<noteq> OK
       then (status, zero_mem sig sig_cap (write_bytes sig (take (unat sig_cap) raw) (base m)))
       else (OK, store64 count_p kRawBytes (write_bytes sig (take (unat sig_cap) raw) (base m))))"
proof -
  have d: "span key key_len" "span point point_len" "span digest digest_len" "span sig sig_cap" "span count_p 8"
    "\<not> overlaps key key_len count_p 8" "\<not> overlaps point point_len count_p 8"
    "\<not> overlaps digest digest_len count_p 8" "\<not> overlaps sig sig_cap count_p 8"
    "\<not> overlaps key key_len sig sig_cap" "\<not> overlaps point point_len sig sig_cap"
    "\<not> overlaps digest digest_len sig sig_cap"
    using assms(1) by (auto simp: sign_storage_ok_def valid_count_def overlaps_def)
  have reads: "read_bytes key key_len (base m) = read_bytes key key_len m"
    "read_bytes point point_len (base m) = read_bytes point point_len m"
    "read_bytes digest digest_len (base m) = read_bytes digest digest_len m"
    using d by (simp_all add: base_def mem_simps)
  have bo: "\<not> both_overlap count_p 8 key key_len" "\<not> both_overlap count_p 8 point point_len"
    "\<not> both_overlap count_p 8 digest digest_len" "\<not> both_overlap count_p 8 sig sig_cap"
    "\<not> both_overlap sig sig_cap key key_len" "\<not> both_overlap sig sig_cap point point_len"
    "\<not> both_overlap sig sig_cap digest digest_len" "\<not> both_overlap key key_len point point_len"
    "\<not> both_overlap key key_len digest digest_len" "\<not> both_overlap point point_len digest digest_len"
    using assms(1) by (auto simp: sign_storage_ok_def both_overlap_def)
  have v: "valid_count count_p" "key_len \<le> kMaxPkcs8" "(point_len = kPointBytes) = True"
    "(digest_len = kDigestBytes) = True" "(sig_cap = kRawBytes) = True"
    using assms(1) by (simp_all add: sign_storage_ok_def)
  show ?thesis
    unfolding base_def
    by (simp add: sign_digest_def Let_def when_do_def bo v d reads [unfolded base_def])
qed

text \<open>Every update of \<open>sign_digest\<close> is to a checked, unaliased output.\<close>

lemma sign_inputs_kept:
  assumes "span key key_len \<and> in_region key key_len a \<or> span point point_len \<and> in_region point point_len a \<or>
      span digest digest_len \<and> in_region digest digest_len a"
  shows "snd (sign_digest version key key_len point point_len digest digest_len sig sig_cap count_p ops m) a = m a"
proof -
  have counts: "\<not> in_region count_p 8 a" if "valid_count count_p" "\<not> both_overlap count_p 8 key key_len"
    "\<not> both_overlap count_p 8 point point_len" "\<not> both_overlap count_p 8 digest digest_len"
    using that assms both_overlap_apart by (auto simp: valid_count_def)
  have outs: "\<not> in_region sig sig_cap a" if "span sig sig_cap" "\<not> both_overlap sig sig_cap key key_len"
    "\<not> both_overlap sig sig_cap point point_len" "\<not> both_overlap sig sig_cap digest digest_len"
    using that assms both_overlap_apart by auto
  show ?thesis
  proof (cases "sign_storage_ok key key_len point point_len digest digest_len sig sig_cap count_p")
    case True
    then have "valid_count count_p" "span sig sig_cap" "\<not> in_region count_p 8 a" "\<not> in_region sig sig_cap a"
      using counts outs by (auto simp: sign_storage_ok_def both_overlap_def)
    then show ?thesis
      by (auto simp: sign_accepted [OF True] store64_out write_prefix_out valid_count_def split: prod.splits)
  next
    case False
    from sign_rejected [OF this, of version ops m] counts outs show ?thesis
      by (auto simp: when_do_def store64_out valid_count_def)
  qed
qed

section \<open>The CNG operations\<close>

text \<open>
  CNG exports an ECDSA private blob as 64 coordinate bytes and a 32-byte scalar in the
  range of the curve.
\<close>

definition exported_pair :: "cng \<Rightarrow> ecc_blob \<Rightarrow> bool" where
  "exported_pair c blob \<longleftrightarrow>
     provider_handle c \<noteq> 0 \<and>
     (\<exists>key. generate_pair c (provider_handle c) = (0, key) \<and> finalize_pair c key = 0 \<and>
        export_private c key = (0, blob, private_blob_bytes)) \<and>
     magic blob = PRIVATE_P256_MAGIC \<and> cb_key blob = 32 \<and>
     length (coordinates blob) = 64 \<and> length (scalar_bytes blob) = 32 \<and>
     p256_scalar_valid (scalar_bytes blob)"

lemma cng_generate_exported:
  assumes "exported_pair c blob" and "138 \<le> capacity" and "capacity \<le> kMaxPkcs8"
  shows "fst (cng_generate c capacity kPointBytes) =
    (OK, 138, pkcs8_der False True (scalar_bytes blob) (4 # coordinates blob), 4 # coordinates blob)"
proof -
  have cap: "\<not> capacity < 1" "\<not> kMaxPkcs8 < capacity" "138 \<le> unat capacity"
    using assms(2,3) by (auto simp: word_le_nat_alt word_less_nat_alt)
  have len: "length (scalar_bytes blob) = 32" "length (4 # coordinates blob) = 65"
    using assms(1) by (auto simp: exported_pair_def)
  obtain out where enc: "encode_p256_pkcs8 (scalar_bytes blob) (4 # coordinates blob) (unat capacity) = Some out"
    using assms(1) cap(3) by (auto simp: encode_p256_pkcs8_def exported_pair_def)
  note e = encode_is_pkcs8(1,2) [OF enc len]
  show ?thesis
    using assms(1) cap enc e(2) by (auto simp: cng_generate_def exported_pair_def Let_def e(1) [symmetric])
qed

lemma cng_sign_imports:
  assumes "exported_pair c blob"
  shows "cng_sign c (pkcs8_der False True (scalar_bytes blob) (4 # coordinates blob)) (4 # coordinates blob) digest =
    (let (imported, key) = import_pair c (provider_handle c) blob;
         events = acquired Provider (provider_handle c) @ acquired Key key @
           released Key key @ WipeBlob # released Provider (provider_handle c)
     in if imported < 0 then ((DATA_CORRUPT, []), events)
        else let (signed, raw, written) = sign_hash c key digest in
          if signed < 0 then ((DATA_CORRUPT, raw), events)
          else ((if written = 64 then OK else DATA_CORRUPT, raw), events))"
proof -
  have dec: "decode_p256_pkcs8 (Some (pkcs8_der False True (scalar_bytes blob) (4 # coordinates blob)))
      (4 # coordinates blob) = Some (scalar_bytes blob)"
    using assms by (intro decode_accepts) (auto simp: exported_pair_def)
  obtain co sc where b: "blob = \<lparr>magic = PRIVATE_P256_MAGIC, cb_key = 32, coordinates = co,
      scalar_bytes = sc\<rparr>"
    using assms by (cases blob) (auto simp: exported_pair_def)
  show ?thesis
    using dec assms unfolding b by (simp add: cng_sign_def exported_pair_def Let_def)
qed



section \<open>Properties\<close>

text \<open>
  Claim C7. Key generation never leaves partial key material: with live disjoint storage a
  failing call ends with both buffers zero and both counts \<open>0\<close>, and a successful one had
  the right version and an operation that reported a length within the capacity, which
  is the count the caller reads.
\<close>

theorem generate_key_all_or_nothing:
  assumes "key_storage_ok key key_cap key_count point point_cap point_count"
    and "generate_key version key key_cap key_count point point_cap point_count ops m = (st, t)"
  shows "if st = OK
    then version = ABI_VERSION \<and>
      (\<exists>len kb pb. generate_op ops key_cap point_cap = (OK, len, kb, pb) \<and> 0 < len \<and> len \<le> key_cap \<and>
         load64 key_count t = len \<and> load64 point_count t = kPointBytes)
    else key_storage key key_cap key_count point point_cap point_count t = no_key key_cap point_cap"
proof (cases "st = OK")
  case True
  with assms(2) have "generate_key version key key_cap key_count point point_cap point_count ops m = (OK, t)"
    by simp
  from generate_success [OF assms(1) this] show ?thesis
    using True by (metis (no_types))
next
  case False
  then show ?thesis using generate_failure_clears [OF assms False] by simp
qed

definition stuck_crypto :: crypto_ops where
  "stuck_crypto = \<lparr>generate_op = (\<lambda>c p. (OK, 0, [1, 2, 3], [4])), sign_op = (\<lambda>k p d. (UNAVAILABLE, [1])),
     verify_op = (\<lambda>p d r. OTHER_STATUS 99)\<rparr>"

theorem generate_key_all_or_nothing_witness:
  "\<exists>t. generate_key 3 0x1000 256 0x2000 0x3000 65 0x4000 stuck_crypto (\<lambda>_. 7) = (DATA_CORRUPT, t) \<and>
     key_storage 0x1000 256 0x2000 0x3000 65 0x4000 t = no_key 256 65"
proof -
  have ok: "key_storage_ok 0x1000 256 0x2000 0x3000 65 0x4000"
    by (simp add: key_storage_ok_def valid_count_def aligned8_def span_def bounded_def MAX_BYTES_def
        overlaps_def kMaxPkcs8_def kPointBytes_def)
  obtain st t where run: "generate_key 3 0x1000 256 0x2000 0x3000 65 0x4000 stuck_crypto (\<lambda>_. 7) = (st, t)"
    by fastforce
  then have "st = DATA_CORRUPT"
    by (simp add: key_storage_accepted [OF ok] stuck_crypto_def ABI_VERSION_def Let_def)
  then show ?thesis
    using generate_key_all_or_nothing [OF ok run] run by simp
qed

text \<open>
  Claim C8. \<open>sign_digest\<close> changes no byte of a valid private key, point or digest, for any
  pointers at all: an output that overlaps an input is never written.
\<close>

theorem sign_digest_keeps_inputs:
  assumes "span key key_len \<and> in_region key key_len a \<or> span point point_len \<and> in_region point point_len a \<or>
      span digest digest_len \<and> in_region digest digest_len a"
  shows "snd (sign_digest version key key_len point point_len digest digest_len sig sig_cap count_p ops m) a = m a"
  using assms by (rule sign_inputs_kept)

theorem sign_digest_keeps_inputs_witness:
  "snd (sign_digest 3 0x1000 138 0x2000 65 0x3000 32 0x3010 64 0x4000 stuck_crypto (\<lambda>_. 7)) 0x3011 = 7"
proof -
  have "span 0x3000 32 \<and> in_region 0x3000 32 0x3011"
    by (simp add: span_def bounded_def MAX_BYTES_def in_region_def)
  then show ?thesis
    using sign_digest_keeps_inputs [where digest = "0x3000" and digest_len = 32 and a = "0x3011"] by blast
qed

text \<open>
  Signing uses the key pair that generation exported: with a key document written
  by the CNG generation, CNG signing imports exactly the exported blob, and the document
  is the 138-byte canonical one.
\<close>

theorem sign_uses_generated_pair:
  assumes "exported_pair c blob" and "138 \<le> capacity" and "capacity \<le> kMaxPkcs8"
    and "fst (cng_generate c capacity kPointBytes) = (st, len, doc, point)"
    and "import_pair c (provider_handle c) blob = (0, key)" and "sign_hash c key digest = (0, raw, 64)"
  shows "st = OK \<and> len = 138 \<and> length doc = 138 \<and>
    cng_sign c doc point digest =
      ((OK, raw), acquired Provider (provider_handle c) @ acquired Key key @
        released Key key @ WipeBlob # released Provider (provider_handle c))"
proof -
  have gen: "st = OK" "len = 138" "doc = pkcs8_der False True (scalar_bytes blob) (4 # coordinates blob)"
      "point = 4 # coordinates blob"
    using cng_generate_exported [OF assms(1-3)] assms(4) by auto
  have "length doc = 138"
    using assms(1) by (simp add: gen pkcs8_der_def key_der_def parameters_der_def public_key_der_def
        length_der exported_pair_def)
  then show ?thesis
    using cng_sign_imports [OF assms(1)] assms(5,6) gen by simp
qed

definition sample_blob :: ecc_blob where
  "sample_blob = \<lparr>magic = PRIVATE_P256_MAGIC, cb_key = 32, coordinates = replicate 64 9,
     scalar_bytes = sample_scalar\<rparr>"

definition sample_cng :: cng where
  "sample_cng = \<lparr>open_provider = (0, 5), generate_pair = (\<lambda>_. (0, 6)), finalize_pair = (\<lambda>_. 0),
     export_private = (\<lambda>_. (0, sample_blob, private_blob_bytes)), import_pair = (\<lambda>_ _. (0, 8)),
     sign_hash = (\<lambda>_ _. (0, replicate 64 1, 64)), verify_signature = (\<lambda>_ _ _. kStatusInvalidSignature)\<rparr>"

theorem sign_uses_generated_pair_witness:
  "\<exists>doc point. fst (cng_generate sample_cng 256 kPointBytes) = (OK, 138, doc, point) \<and>
     fst (cng_sign sample_cng doc point (replicate 32 7)) = (OK, replicate 64 1)"
proof -
  have pair: "exported_pair sample_cng sample_blob"
    using scalar_valid_range [OF sample_lengths(1)] sample_value sample_lengths(1)
    by (auto simp: exported_pair_def sample_cng_def sample_blob_def provider_handle_def)
  obtain st len doc point where gen: "fst (cng_generate sample_cng 256 kPointBytes) = (st, len, doc, point)"
    by (cases "fst (cng_generate sample_cng 256 kPointBytes)") auto
  have "import_pair sample_cng (provider_handle sample_cng) sample_blob = (0, 8)"
    and "sign_hash sample_cng 8 (replicate 32 7) = (0, replicate 64 1, 64)"
    by (simp_all add: sample_cng_def)
  from sign_uses_generated_pair [OF pair _ _ gen this] gen show ?thesis
    by (auto simp: kMaxPkcs8_def)
qed


end
