(* ===== verification/Object_Policy.thy ===== *)
theory Object_Policy
  imports Native_Prelude
begin

text \<open>
  The pure policy of \<open>protected_objects.cpp\<close> (path and component syntax, \<open>object_valid\<close>),
  the fixed object names and sizes of \<open>exchange_files.cpp\<close>, \<open>discovery_files.cpp\<close>,
  \<open>credential_rename.h\<close>, \<open>discovery_rename.h\<close> and \<open>association_rename.h\<close>, the rename
  requests those headers build, and the access masks of \<open>exchange_open_policy.h\<close>.
\<close>

section \<open>Observed objects\<close>

type_synonym sid = "u8 list"
type_synonym handle = u64

record ace =
  ace_type :: u8
  ace_flags :: u8
  ace_mask :: u32
  ace_sid :: sid

record object_info =
  volume :: u64
  file_index :: u64
  attributes :: u32
  drive_type :: u32
  links :: u32
  filesystem :: wstring
  owner_sid :: sid
  dacl_present :: bool
  dacl_protected :: bool
  aces :: "ace list"

text \<open>A default-constructed \<open>ObjectInfo\<close>.\<close>

definition empty_info :: object_info where
  "empty_info = \<lparr>volume = 0, file_index = 0, attributes = 0, drive_type = 0, links = 0, filesystem = [],
     owner_sid = [], dacl_present = False, dacl_protected = False, aces = []\<rparr>"

definition DRIVE_FIXED :: u32 where "DRIVE_FIXED = 3"
definition ATTRIBUTE_DIRECTORY :: u32 where "ATTRIBUTE_DIRECTORY = 0x10"
definition ATTRIBUTE_REPARSE_POINT :: u32 where "ATTRIBUTE_REPARSE_POINT = 0x400"
definition INHERIT_FLAGS :: u8 where "INHERIT_FLAGS = 3"
definition ACCESS_ALLOWED :: u8 where "ACCESS_ALLOWED = 0"
definition FILE_ALL_ACCESS :: u32 where "FILE_ALL_ACCESS = 0x1F01FF"

definition is_directory :: "object_info \<Rightarrow> bool" where
  "is_directory i \<longleftrightarrow> attributes i AND ATTRIBUTE_DIRECTORY \<noteq> 0"

definition object_valid :: "object_info \<Rightarrow> sid \<Rightarrow> bool \<Rightarrow> bool \<Rightarrow> bool \<Rightarrow> bool" where
  "object_valid i sid directory check_owner check_dacl =
     (if sid = [] \<or> filesystem i \<noteq> wide ''NTFS'' \<or> drive_type i \<noteq> DRIVE_FIXED \<or> file_index i = 0 \<or>
         attributes i AND ATTRIBUTE_REPARSE_POINT \<noteq> 0 \<or> is_directory i \<noteq> directory \<or>
         \<not> directory \<and> links i \<noteq> 1 \<or> check_owner \<and> owner_sid i \<noteq> sid then False
      else if \<not> check_dacl then True
      else if \<not> dacl_present i \<or> \<not> dacl_protected i \<or> length (aces i) \<noteq> 1 then False
      else let a = aces i ! 0; flags = (if directory then INHERIT_FLAGS else 0) in
        ace_type a = ACCESS_ALLOWED \<and> ace_flags a = flags \<and> ace_mask a = FILE_ALL_ACCESS \<and>
        ace_sid a = sid)"

text \<open>\<open>same\<close> of the exchange and discovery files: one file of one volume.\<close>

definition same_object :: "object_info \<Rightarrow> object_info \<Rightarrow> bool" where
  "same_object a b \<longleftrightarrow> volume a = volume b \<and> file_index a = file_index b"

text \<open>A handle is unusable when it is null or \<open>INVALID_HANDLE_VALUE\<close>.\<close>

definition usable :: "handle \<Rightarrow> bool" where
  "usable h \<longleftrightarrow> h \<noteq> 0 \<and> h \<noteq> -1"

section \<open>Names\<close>

definition backslash :: wchar where "backslash = 0x5C"
definition colon :: wchar where "colon = 0x3A"
definition slash :: wchar where "slash = 0x2F"

text \<open>The characters no component of a path may contain, the separator apart.\<close>

definition forbidden_char :: "wchar \<Rightarrow> bool" where
  "forbidden_char c \<longleftrightarrow> c < 32 \<or> c = colon \<or> c = slash \<or>
     c \<in> set (wide ''*?<>|'') \<or> c = 0x22"

definition drive_letter :: "wchar \<Rightarrow> bool" where
  "drive_letter c \<longleftrightarrow> 0x41 \<le> c \<and> c \<le> 0x5A \<or> 0x61 \<le> c \<and> c \<le> 0x7A"

definition high_surrogate :: "wchar \<Rightarrow> bool" where
  "high_surrogate c \<longleftrightarrow> 0xD800 \<le> c \<and> c \<le> 0xDBFF"

definition low_surrogate :: "wchar \<Rightarrow> bool" where
  "low_surrogate c \<longleftrightarrow> 0xDC00 \<le> c \<and> c \<le> 0xDFFF"

text \<open>The scan over the code units: no forbidden character, surrogates in pairs.\<close>

fun units_ok :: "wstring \<Rightarrow> bool" where
  "units_ok [] = True"
| "units_ok [c] = (\<not> forbidden_char c \<and> \<not> high_surrogate c \<and> \<not> low_surrogate c)"
| "units_ok (c # d # cs) =
     (if forbidden_char c then False
      else if high_surrogate c then low_surrogate d \<and> units_ok cs
      else if low_surrogate c then False
      else units_ok (d # cs))"

definition dot_name :: "wstring \<Rightarrow> bool" where
  "dot_name c \<longleftrightarrow> c = wide ''.'' \<or> c = wide ''..''"

text \<open>The component loop, on the part of the path from \<open>start\<close> on.\<close>

function components_ok :: "wstring \<Rightarrow> bool" where
  "components_ok rest =
     (if rest = [] then True
      else let component = takeWhile (\<lambda>c. c \<noteq> backslash) rest;
               after = dropWhile (\<lambda>c. c \<noteq> backslash) rest
           in if component = [] \<or> dot_name component then False
              else if after = [] then True
              else components_ok (tl after))"
  by pat_completeness auto
termination
proof (relation "measure length")
  fix rest component after :: wstring
  assume "rest \<noteq> []" "after = dropWhile (\<lambda>c. c \<noteq> backslash) rest" "after \<noteq> []"
  then have "length (tl after) < length after" and "length after \<le> length rest"
    by (auto simp: length_dropWhile_le)
  then show "(tl after, rest) \<in> measure length" by simp
qed auto

declare components_ok.simps [simp del]

definition local_nt_name :: "wstring \<Rightarrow> wstring option" where
  "local_nt_name path =
     (if length path < 3 \<or> length path > 32762 \<or> \<not> drive_letter (path ! 0) \<or>
         path ! 1 \<noteq> colon \<or> path ! 2 \<noteq> backslash then None
      else if \<not> units_ok (drop 2 path) then None
      else if \<not> components_ok (drop 3 path) then None
      else Some ([backslash, 0x3F, 0x3F, backslash] @ path))"

definition safe_component :: "wstring \<Rightarrow> bool" where
  "safe_component name =
     (if name = [] \<or> length name > 64 \<or> dot_name name then False
      else if \<exists>c \<in> set name. forbidden_char c \<or> c = backslash then False
      else last name \<noteq> of_char (CHR ''.'') \<and> last name \<noteq> of_char (CHR '' ''))"

definition lower_hex :: "wchar \<Rightarrow> bool" where
  "lower_hex c \<longleftrightarrow> 0x30 \<le> c \<and> c \<le> 0x39 \<or> 0x61 \<le> c \<and> c \<le> 0x66"

text \<open>\<open>hex(s, n)\<close> of the store files.\<close>

definition hex_name :: "wstring \<Rightarrow> nat \<Rightarrow> bool" where
  "hex_name s n \<longleftrightarrow> length s = n \<and> (\<forall>c \<in> set s. lower_hex c)"

section \<open>Fixed objects\<close>

text \<open>Exchange objects: size caps, file names and the fixed header.\<close>

definition exchange_cap :: "u32 \<Rightarrow> nat" where
  "exchange_cap kind = (if kind = 1 then 1024 else if kind = 2 then 4096 else if kind = 3 then 256 else 0)"

definition exchange_filename :: "u32 \<Rightarrow> u8 list \<Rightarrow> wstring" where
  "exchange_filename kind oid =
     wide (if kind = 1 then ''submission-'' else if kind = 2 then ''pairing-'' else ''proof-'') @
     wide (hex_text (take 16 oid)) @
     wide (if kind = 1 then ''.pub'' else if kind = 2 then ''.chal'' else ''.bin'')"

definition exchange_header :: "u32 \<Rightarrow> u8 list \<Rightarrow> u8 list \<Rightarrow> bool" where
  "exchange_header kind oid bytes \<longleftrightarrow>
     25 \<le> length bytes \<and> length bytes \<le> exchange_cap kind \<and>
     take 8 bytes = narrow (if kind = 1 then ''SHREXSUB'' else if kind = 2 then ''SHREXCHA'' else ''SHREXPRF'') \<and>
     bytes ! 8 = 1 \<and> take 16 (drop 9 bytes) = take 16 oid"

text \<open>Discovery and credential objects.\<close>

definition discovery_cap :: "u32 \<Rightarrow> nat" where
  "discovery_cap k = (if k = 1 then 185 else if k = 2 then 1024 else if k = 3 then 36 else 0)"

definition discovery_name :: "u32 \<Rightarrow> wstring option" where
  "discovery_name kind =
     (if kind = 1 then Some (wide ''endpoint.bin'') else if kind = 2 then Some (wide ''anchor.der'')
      else if kind = 3 then Some (wide ''installation.id'') else None)"

definition credential_name :: "u32 \<Rightarrow> wstring option" where
  "credential_name kind =
     (if kind = 1 then Some (wide ''issuer.bin'') else if kind = 2 then Some (wide ''server.bin'')
      else if kind = 4 then Some (wide ''client.bin'') else None)"

definition temporary_name :: "wstring \<Rightarrow> wstring \<Rightarrow> wstring" where
  "temporary_name runtime random = wide ''~tmp-'' @ runtime @ wide ''-'' @ random"

text \<open>\<open>exchange_open_policy.h\<close>: modes 0 create, 1 read, 2 pin, 3 cleanup, 4 consume.\<close>

definition READ_CONTROL :: u32 where "READ_CONTROL = 0x20000"
definition FILE_READ_ATTRIBUTES :: u32 where "FILE_READ_ATTRIBUTES = 0x80"
definition SYNCHRONIZE :: u32 where "SYNCHRONIZE = 0x100000"
definition FILE_READ_DATA :: u32 where "FILE_READ_DATA = 1"
definition FILE_WRITE_DATA :: u32 where "FILE_WRITE_DATA = 2"
definition DELETE_ACCESS :: u32 where "DELETE_ACCESS = 0x10000"
definition SHARE_READ :: u32 where "SHARE_READ = 1"
definition SHARE_WRITE :: u32 where "SHARE_WRITE = 2"
definition SHARE_DELETE :: u32 where "SHARE_DELETE = 4"

definition exchange_access :: "u32 \<Rightarrow> u32" where
  "exchange_access mode = READ_CONTROL OR FILE_READ_ATTRIBUTES OR SYNCHRONIZE OR
     (if mode \<noteq> 3 then FILE_READ_DATA else 0) OR (if mode = 0 then FILE_WRITE_DATA else 0) OR
     (if mode = 3 \<or> mode = 4 then DELETE_ACCESS else 0)"

definition exchange_share :: "u32 \<Rightarrow> u32" where
  "exchange_share mode = (if mode = 2 then SHARE_READ OR SHARE_WRITE OR SHARE_DELETE else SHARE_READ)"

section \<open>Rename requests\<close>

text \<open>
  The \<open>FILE_RENAME_INFORMATION\<close> buffers: the fixed prefix of 20 bytes, the name with its
  terminator, and the structure's size.  \<open>name_units\<close> is the declared array length.
\<close>

record rename_info =
  replace_existing :: bool
  root_directory :: handle
  name_length :: nat
  file_name :: wstring
  name_units :: nat
  info_size :: nat

text \<open>\<open>NtSetInformationFile\<close> answers its return value and the status block.\<close>

type_synonym rename_call = "(handle \<Rightarrow> rename_info \<Rightarrow> int \<times> int) option"

definition publish :: "rename_call \<Rightarrow> handle \<Rightarrow> rename_info \<Rightarrow> status" where
  "publish call temporary info =
     (case call of None \<Rightarrow> COMMIT_UNKNOWN
      | Some f \<Rightarrow> (case f temporary info of (status, io_status) \<Rightarrow>
          if status = 0 \<and> io_status = 0 then OK else COMMIT_UNKNOWN))"

definition association_request :: "handle \<Rightarrow> bool \<Rightarrow> rename_info" where
  "association_request directory existing =
     (let name = wide ''associations.bin'' @ [0] in
      \<lparr>replace_existing = existing, root_directory = directory, name_length = 2 * length name - 2,
       file_name = name, name_units = 17, info_size = 56\<rparr>)"

definition rename_association :: "rename_call \<Rightarrow> handle \<Rightarrow> handle \<Rightarrow> bool \<Rightarrow> status" where
  "rename_association call temporary directory existing =
     (if call = None \<or> \<not> usable temporary \<or> \<not> usable directory then COMMIT_UNKNOWN
      else publish call temporary (association_request directory existing))"

definition credential_request :: "wstring \<Rightarrow> handle \<Rightarrow> bool \<Rightarrow> rename_info" where
  "credential_request name directory existing =
     \<lparr>replace_existing = existing, root_directory = directory, name_length = 20,
      file_name = take 11 (name @ [0]), name_units = 11, info_size = 48\<rparr>"

definition rename_credential :: "rename_call \<Rightarrow> handle \<Rightarrow> handle \<Rightarrow> u32 \<Rightarrow> bool \<Rightarrow> status" where
  "rename_credential call temporary directory kind existing =
     (case credential_name kind of None \<Rightarrow> INVALID_INPUT
      | Some name \<Rightarrow>
          if call = None \<or> \<not> usable temporary \<or> \<not> usable directory then COMMIT_UNKNOWN
          else publish call temporary (credential_request name directory existing))"

definition discovery_request :: "wstring \<Rightarrow> handle \<Rightarrow> bool \<Rightarrow> rename_info" where
  "discovery_request name parent replace =
     \<lparr>replace_existing = replace, root_directory = parent, name_length = 2 * length name,
      file_name = name @ replicate (16 - length name) 0, name_units = 16, info_size = 56\<rparr>"

definition rename_discovery :: "rename_call \<Rightarrow> handle \<Rightarrow> handle \<Rightarrow> u32 \<Rightarrow> bool \<Rightarrow> status" where
  "rename_discovery call temp parent kind replace =
     (case discovery_name kind of None \<Rightarrow> INVALID_INPUT
      | Some name \<Rightarrow>
          if kind \<noteq> 1 \<and> replace then INVALID_INPUT
          else if call = None \<or> \<not> usable temp \<or> \<not> usable parent then COMMIT_UNKNOWN
          else publish call temp (discovery_request name parent replace))"

section \<open>Paths without traversal\<close>

text \<open>
  \<open>at_component path c post\<close>: somewhere in \<open>path\<close> a separator is followed by the maximal
  component \<open>c\<close>, after which \<open>post\<close> is left.
\<close>

definition at_component :: "wstring \<Rightarrow> wstring \<Rightarrow> wstring \<Rightarrow> bool" where
  "at_component path c post \<longleftrightarrow>
     (\<exists>pre. path = pre @ backslash # c @ post) \<and> backslash \<notin> set c \<and> (post = [] \<or> hd post = backslash)"

lemma takeWhile_component:
  assumes "backslash \<notin> set c" and "post = [] \<or> hd post = backslash"
  shows "takeWhile (\<lambda>x. x \<noteq> backslash) (c @ post) = c" "dropWhile (\<lambda>x. x \<noteq> backslash) (c @ post) = post"
proof -
  have "\<forall>x \<in> set c. x \<noteq> backslash" using assms(1) by auto
  then show "takeWhile (\<lambda>x. x \<noteq> backslash) (c @ post) = c" "dropWhile (\<lambda>x. x \<noteq> backslash) (c @ post) = post"
    using assms(2) by (cases post; simp)+
qed

lemma at_component_split:
  assumes "rest \<noteq> []"
  defines "component \<equiv> takeWhile (\<lambda>c. c \<noteq> backslash) rest"
  defines "after \<equiv> dropWhile (\<lambda>c. c \<noteq> backslash) rest"
  shows "at_component (backslash # rest) c post \<longleftrightarrow>
    (c = component \<and> post = after) \<or> at_component after c post"
proof
  assume a: "at_component (backslash # rest) c post"
  then obtain pre where pre: "backslash # rest = pre @ backslash # c @ post"
    and c: "backslash \<notin> set c" "post = [] \<or> hd post = backslash"
    by (auto simp: at_component_def)
  show "(c = component \<and> post = after) \<or> at_component after c post"
  proof (cases pre)
    case Nil
    with pre takeWhile_component [OF c] show ?thesis by (simp add: component_def after_def)
  next
    case (Cons x pre')
    with pre have rest: "rest = pre' @ backslash # c @ post" by simp
    have "\<exists>q. after = q @ backslash # c @ post"
    proof (cases "backslash \<in> set pre'")
      case True
      then have "after = dropWhile (\<lambda>c. c \<noteq> backslash) pre' @ backslash # c @ post"
        unfolding after_def rest by (subst dropWhile_append1) auto
      then show ?thesis by blast
    next
      case False
      then have "after = [] @ backslash # c @ post"
        unfolding after_def rest by (subst dropWhile_append2) auto
      then show ?thesis by blast
    qed
    with c show ?thesis by (simp add: at_component_def)
  qed
next
  have rest: "rest = component @ after" by (simp add: component_def after_def)
  have hd: "after = [] \<or> hd after = backslash"
    using hd_dropWhile [of "\<lambda>c. c \<noteq> backslash" rest] by (auto simp: after_def)
  have free: "backslash \<notin> set component"
    by (auto simp: component_def dest: set_takeWhileD)
  assume "(c = component \<and> post = after) \<or> at_component after c post"
  then show "at_component (backslash # rest) c post"
  proof
    assume "c = component \<and> post = after"
    then have "backslash # rest = [] @ backslash # c @ post" using rest by simp
    then show ?thesis
      using free hd \<open>c = component \<and> post = after\<close> unfolding at_component_def by blast
  next
    assume "at_component after c post"
    then obtain pre where pre: "after = pre @ backslash # c @ post"
      and c: "backslash \<notin> set c" "post = [] \<or> hd post = backslash"
      by (auto simp: at_component_def)
    then have "backslash # rest = (backslash # component @ pre) @ backslash # c @ post"
      using rest by simp
    with c show ?thesis unfolding at_component_def by blast
  qed
qed

lemma components_ok_iff:
  "components_ok rest \<longleftrightarrow>
     (\<forall>c post. at_component (backslash # rest) c post \<longrightarrow> \<not> dot_name c \<and> (c = [] \<longrightarrow> post = []))"
proof (induction rest rule: components_ok.induct)
  case (1 rest)
  let ?component = "takeWhile (\<lambda>c. c \<noteq> backslash) rest"
  let ?after = "dropWhile (\<lambda>c. c \<noteq> backslash) rest"
  show ?case
  proof (cases "rest = []")
    case True
    have "at_component [backslash] c post \<Longrightarrow> c = [] \<and> post = []" for c post
      by (auto simp: at_component_def Cons_eq_append_conv)
    with True show ?thesis
      by (auto simp: components_ok.simps [of "[]"] dot_name_def wide_def)
  next
    case False
    note parts = at_component_split [OF False]
    have bad: "?component = [] \<Longrightarrow> ?after \<noteq> []"
      using False takeWhile_dropWhile_id [of "\<lambda>c. c \<noteq> backslash" rest] by auto
    have none: "\<not> at_component [] c post" for c post
      by (simp add: at_component_def)
    show ?thesis
    proof (cases "?component = [] \<or> dot_name ?component \<or> ?after = []")
      case True
      show ?thesis
      proof (cases "?component = [] \<or> dot_name ?component")
        case stop: True
        then have "\<not> components_ok rest"
          using False by (subst components_ok.simps) (simp add: Let_def)
        with stop parts bad show ?thesis by blast
      next
        case last: False
        with True have end_: "?after = []" by blast
        have "at_component (backslash # rest) c post \<longleftrightarrow> c = ?component \<and> post = []" for c post
          using parts [of c post] none unfolding end_ by blast
        moreover have "components_ok rest"
          using False last end_ by (subst components_ok.simps) (simp add: Let_def)
        ultimately show ?thesis using last by simp
      qed
    next
      case go: False
      then have "backslash # tl ?after = ?after"
        using hd_dropWhile [of "\<lambda>c. c \<noteq> backslash" rest] by (cases ?after) auto
      moreover have "components_ok (tl ?after) \<longleftrightarrow>
          (\<forall>c post. at_component (backslash # tl ?after) c post \<longrightarrow> \<not> dot_name c \<and> (c = [] \<longrightarrow> post = []))"
        using "1.IH" [OF False refl refl] go by blast
      ultimately have "components_ok (tl ?after) \<longleftrightarrow>
          (\<forall>c post. at_component ?after c post \<longrightarrow> \<not> dot_name c \<and> (c = [] \<longrightarrow> post = []))"
        by (simp only:)
      moreover have "components_ok rest = components_ok (tl ?after)"
      proof -
        have "\<not> (?component = [] \<or> dot_name ?component)" "?after \<noteq> []"
          using go by blast+
        with False show ?thesis
          by (subst components_ok.simps) (simp only: Let_def if_False)
      qed
      ultimately have tail: "components_ok rest \<longleftrightarrow>
          (\<forall>c post. at_component ?after c post \<longrightarrow> \<not> dot_name c \<and> (c = [] \<longrightarrow> post = []))"
        by (simp only:)
      have head: "\<not> dot_name ?component \<and> (?component = [] \<longrightarrow> ?after = [])"
        using go by simp
      show ?thesis
        unfolding tail parts by (rule iffI) (use head in \<open>metis+\<close>)
    qed
  qed
qed

section \<open>The fixed names\<close>

lemma hex_digit_inj: "i < 16 \<Longrightarrow> j < 16 \<Longrightarrow> hex_digits ! i = hex_digits ! j \<Longrightarrow> i = j"
proof -
  have "distinct hex_digits" and "length hex_digits = 16"
    by (simp_all add: hex_digits_def)
  then show "i < 16 \<Longrightarrow> j < 16 \<Longrightarrow> hex_digits ! i = hex_digits ! j \<Longrightarrow> i = j"
    by (simp add: nth_eq_iff_index_eq)
qed

lemma low_nibble: "b AND 15 = take_bit 4 b" for b :: u8
proof -
  have "(15 :: u8) = mask 4" by (simp add: mask_eq_exp_minus_1)
  then show ?thesis by (simp only: take_bit_eq_mask)
qed

lemma unat_nibbles: "unat (drop_bit 4 b) = unat b div 16" "unat (b AND 15) = unat b mod 16" for b :: u8
  using unsigned_less [of b, where 'a = nat]
  by (simp_all only: low_nibble unsigned_drop_bit_eq unsigned_take_bit_eq)
    (simp_all add: drop_bit_eq_div take_bit_eq_mod)

lemma nibbles: "unat (drop_bit 4 b) < 16" "unat (b AND 15) < 16" for b :: u8
  using unsigned_less [of b, where 'a = nat] by (simp_all only: unat_nibbles) auto

lemma byte_of_nibbles: "unat b = 16 * unat (drop_bit 4 b) + unat (b AND 15)" for b :: u8
  by (simp only: unat_nibbles) simp

lemma hex_pair_inj: "hex_pair a = hex_pair b \<Longrightarrow> a = b"
  using hex_digit_inj nibbles byte_of_nibbles [of a] byte_of_nibbles [of b]
  by (simp add: hex_pair_def) (metis unsigned_word_eqI)

lemma length_hex_text [simp]: "length (hex_text bs) = 2 * length bs"
  by (induction bs) (auto simp: hex_text_def hex_pair_def)

lemma hex_text_inj: "length as = length bs \<Longrightarrow> hex_text as = hex_text bs \<Longrightarrow> as = bs"
proof (induction as bs rule: list_induct2)
  case (Cons a as b bs)
  then have "hex_pair a @ hex_text as = hex_pair b @ hex_text bs"
    by (simp add: hex_text_def)
  then have "hex_pair a = hex_pair b" and "hex_text as = hex_text bs"
    by (auto simp: hex_pair_def)
  with Cons.IH show ?case by (simp add: hex_pair_inj)
qed simp

lemma hex_digits_set: "i < 16 \<Longrightarrow> hex_digits ! i \<in> set hex_digits"
  by (rule nth_mem) (simp add: hex_digits_def)

lemma hex_text_chars: "set (hex_text bs) \<subseteq> set hex_digits"
  using nibbles hex_digits_set by (auto simp: hex_text_def hex_pair_def)

lemma unat_of_char: "unat (of_char c :: wchar) = of_char c"
proof -
  have "(of_char c :: nat) < 2 ^ 16"
    by (rule order_less_trans [OF nat_of_char_less_256]) simp
  then have "unat (of_nat (of_char c) :: wchar) = of_char c"
    by (simp add: unat_of_nat)
  then show ?thesis by (simp add: of_nat_of_char)
qed

lemma of_char_inj: "(of_char a :: wchar) = of_char b \<Longrightarrow> a = b"
  by (metis unat_of_char of_char_eq_iff)


text \<open>Well-formed UTF-16 text without forbidden characters.\<close>

inductive clean_text :: "wstring \<Rightarrow> bool" where
  nil: "clean_text []"
| unit: "\<not> forbidden_char c \<Longrightarrow> \<not> high_surrogate c \<Longrightarrow> \<not> low_surrogate c \<Longrightarrow> clean_text cs \<Longrightarrow>
    clean_text (c # cs)"
| pair: "high_surrogate h \<Longrightarrow> low_surrogate l \<Longrightarrow> clean_text cs \<Longrightarrow> clean_text (h # l # cs)"

inductive_simps clean_text_simps: "clean_text []" "clean_text (c # cs)"

lemma surrogate_kinds:
  "high_surrogate c \<Longrightarrow> \<not> forbidden_char c" "low_surrogate c \<Longrightarrow> \<not> high_surrogate c"
  by (auto simp: high_surrogate_def low_surrogate_def forbidden_char_def word_le_nat_alt word_less_nat_alt
      wide_def colon_def slash_def)

lemma units_ok_iff: "units_ok cs \<longleftrightarrow> clean_text cs"
proof (induction cs rule: units_ok.induct)
  case 1
  show ?case by (simp add: clean_text_simps)
next
  case (2 c)
  show ?case by (auto simp: clean_text_simps)
next
  case (3 c d cs)
  show ?case
    using 3 surrogate_kinds by (subst clean_text_simps) auto
qed

text \<open>The path syntax \<open>local_nt_name\<close> accepts, without its scans.\<close>

definition local_path :: "wstring \<Rightarrow> bool" where
  "local_path path \<longleftrightarrow>
     (\<exists>letter rest. path = letter # colon # backslash # rest \<and> drive_letter letter \<and>
        length path \<le> 32762 \<and> clean_text (backslash # rest) \<and>
        (\<forall>c post. at_component (backslash # rest) c post \<longrightarrow> \<not> dot_name c \<and> (c = [] \<longrightarrow> post = [])))"

lemma guards_iff:
  "(if a then None else if \<not> u then None else if \<not> v then None else Some r) = Some x \<longleftrightarrow>
     \<not> a \<and> u \<and> v \<and> x = r"
  by auto

text \<open>
  Claim C10.  \<open>local_nt_name\<close> accepts exactly the drive-letter paths of clean UTF-16 text in
  which no component is \<open>.\<close> or \<open>..\<close> and none but a trailing one is empty, and answers the
  same path under the \<open>\??\\<close> prefix, so that no accepted path can leave its directory.
\<close>
theorem local_nt_name_no_traversal:
  "local_nt_name path = Some nt \<longleftrightarrow>
     local_path path \<and> nt = [backslash, 0x3F, 0x3F, backslash] @ path"
proof (cases "\<exists>a b c rest. path = a # b # c # rest")
  case True
  then obtain a b c rest where path: "path = a # b # c # rest" by blast
  have lp: "local_path path \<longleftrightarrow> drive_letter a \<and> b = colon \<and> c = backslash \<and> length path \<le> 32762 \<and>
      units_ok (c # rest) \<and> components_ok rest"
    unfolding local_path_def units_ok_iff components_ok_iff path list.inject by blast
  have facts: "(length path < 3) = False" "path ! 0 = a" "path ! 1 = b" "path ! 2 = c"
    "drop 2 path = c # rest" "drop 3 path = rest"
    by (simp_all add: path)
  show ?thesis
    unfolding local_nt_name_def facts guards_iff lp
    by (simp only: simp_thms de_Morgan_disj not_less conj_ac)
next
  case False
  then have "length path < 3"
    by (rule_tac ccontr) (auto simp: not_less numeral_3_eq_3 Suc_le_length_iff)
  with False show ?thesis
    by (auto simp: local_nt_name_def local_path_def)
qed

section \<open>Exchange names\<close>

definition exchange_kind :: "u32 \<Rightarrow> bool" where
  "exchange_kind k \<longleftrightarrow> k = 1 \<or> k = 2 \<or> k = 3"

lemma exchange_kind_cap: "exchange_kind k \<longleftrightarrow> exchange_cap k \<noteq> 0"
  by (auto simp: exchange_kind_def exchange_cap_def)

lemma wide_inj: "wide a = wide b \<Longrightarrow> a = b"
  unfolding wide_def by (rule map_injective) (auto intro: injI of_char_inj)

lemma length_wide [simp]: "length (wide s) = length s"
  by (simp add: wide_def)

lemma wide_append: "wide a @ wide b = wide (a @ b)"
  by (simp add: wide_def)

lemma set_wide: "c \<in> set (wide s) \<longleftrightarrow> (\<exists>x \<in> set s. c = of_char x)"
  by (auto simp: wide_def)

definition exchange_prefix :: "u32 \<Rightarrow> string" where
  "exchange_prefix k = (if k = 1 then ''submission-'' else if k = 2 then ''pairing-'' else ''proof-'')"

definition exchange_suffix :: "u32 \<Rightarrow> string" where
  "exchange_suffix k = (if k = 1 then ''.pub'' else if k = 2 then ''.chal'' else ''.bin'')"

definition name_chars :: "string" where
  "name_chars = ''submisonparg-f.puchlb'' @ hex_digits"

lemma exchange_filename_wide:
  "exchange_filename k oid = wide (exchange_prefix k @ hex_text (take 16 oid) @ exchange_suffix k)"
  by (simp add: exchange_filename_def exchange_prefix_def exchange_suffix_def wide_append [symmetric])

lemma name_chars_clean:
  "\<forall>x \<in> set name_chars. \<not> forbidden_char (of_char x) \<and> (of_char x :: wchar) \<noteq> backslash"
  by (simp add: name_chars_def hex_digits_def forbidden_char_def wide_def colon_def slash_def backslash_def)

lemma exchange_parts:
  "set (exchange_prefix k) \<subseteq> set name_chars" "set (exchange_suffix k) \<subseteq> set name_chars"
  "length (exchange_prefix k) \<le> 11" "4 \<le> length (exchange_suffix k)" "length (exchange_suffix k) \<le> 5"
  "(of_char (last (exchange_suffix k)) :: wchar) \<noteq> of_char (CHR ''.'')"
  "(of_char (last (exchange_suffix k)) :: wchar) \<noteq> of_char (CHR '' '')"
  by (simp_all add: exchange_prefix_def exchange_suffix_def name_chars_def)

lemma exchange_prefix_code:
  "exchange_kind k \<Longrightarrow> take 2 (exchange_prefix k @ s) = (if k = 1 then ''su'' else if k = 2 then ''pa'' else ''pr'')"
  by (auto simp: exchange_kind_def exchange_prefix_def)

lemma exchange_filename_safe: "safe_component (exchange_filename k oid)"
proof -
  let ?s = "exchange_prefix k @ hex_text (take 16 oid) @ exchange_suffix k"
  have "set ?s \<subseteq> set name_chars"
    using hex_text_chars [of "take 16 oid"] exchange_parts [of k] by (auto simp: name_chars_def)
  then have clean: "\<not> (\<exists>c \<in> set (exchange_filename k oid). forbidden_char c \<or> c = backslash)"
    using name_chars_clean unfolding exchange_filename_wide wide_def set_map by blast
  have len: "length (exchange_filename k oid) \<le> 64" "4 \<le> length (exchange_filename k oid)"
    using exchange_parts [of k] by (simp_all add: exchange_filename_wide)
  then have "exchange_filename k oid \<noteq> []" "\<not> dot_name (exchange_filename k oid)"
    by (auto simp: dot_name_def)
  moreover have "last (exchange_filename k oid) = of_char (last (exchange_suffix k))"
  proof -
    have "exchange_suffix k \<noteq> []" using exchange_parts(4) [of k] by auto
    then show ?thesis by (simp add: exchange_filename_wide wide_def last_map)
  qed
  ultimately show ?thesis
    using clean len exchange_parts(6,7) [of k] by (simp add: safe_component_def)
qed

text \<open>
  The file names of exchange objects are safe components that determine their
  object: two of them agree only for the same kind and the same 16-byte identifier.
\<close>
theorem exchange_filename_identifies:
  assumes "exchange_cap k \<noteq> 0" "exchange_cap k' \<noteq> 0" "16 \<le> length a" "16 \<le> length b"
  shows "safe_component (exchange_filename k a) \<and>
    (exchange_filename k a = exchange_filename k' b \<longleftrightarrow> k = k' \<and> take 16 a = take 16 b)"
proof (intro conjI iffI)
  have kinds: "exchange_kind k" "exchange_kind k'"
    using assms by (simp_all add: exchange_kind_cap)
  assume "exchange_filename k a = exchange_filename k' b"
  then have eq: "exchange_prefix k @ hex_text (take 16 a) @ exchange_suffix k =
      exchange_prefix k' @ hex_text (take 16 b) @ exchange_suffix k'"
    unfolding exchange_filename_wide by (rule wide_inj)
  from arg_cong [OF this, of "take 2"]
  have "(if k = 1 then ''su'' else if k = 2 then ''pa'' else ''pr'') =
      (if k' = 1 then ''su'' else if k' = 2 then ''pa'' else ''pr'')"
    by (simp only: exchange_prefix_code [OF kinds(1)] exchange_prefix_code [OF kinds(2)])
  then show k: "k = k'"
    using kinds by (auto simp: exchange_kind_def split: if_splits)
  with eq assms show "take 16 a = take 16 b"
    by (simp add: hex_text_inj)
next
  show "safe_component (exchange_filename k a)" by (rule exchange_filename_safe)
qed (simp_all add: exchange_filename_wide)

theorem exchange_filename_identifies_witness:
  "exchange_filename 1 (replicate 16 0) \<noteq> exchange_filename 1 (replicate 16 1)"
  using exchange_filename_identifies [of 1 1 "replicate 16 0" "replicate 16 1"]
  by (simp add: exchange_cap_def numeral_eq_Suc)

section \<open>Publication under a fixed name\<close>

text \<open>
  A request names \<open>name\<close> relative to the directory handle: the declared byte length is that
  of the name without its terminator, the array holds the name and its terminator, and the
  structure is large enough for prefix and array.
\<close>

definition request_for :: "wstring \<Rightarrow> handle \<Rightarrow> bool \<Rightarrow> rename_info \<Rightarrow> bool" where
  "request_for name directory existing info \<longleftrightarrow>
     root_directory info = directory \<and> replace_existing info = existing \<and>
     name_length info = 2 * length name \<and> take (length name) (file_name info) = name \<and>
     length (file_name info) = name_units info \<and> length name < name_units info \<and>
     file_name info ! length name = 0 \<and> 20 + 2 * name_units info \<le> info_size info"

text \<open>The contract of a publishing wrapper: one fixed name, one call, two failure statuses.\<close>

locale publication =
  fixes rename :: "rename_call \<Rightarrow> handle \<Rightarrow> handle \<Rightarrow> bool \<Rightarrow> status"
    and name :: wstring
    and may_replace :: bool
  assumes refuses: "(e \<longrightarrow> may_replace) \<Longrightarrow> \<not> (usable t \<and> usable d) \<Longrightarrow>
      rename call t d e = COMMIT_UNKNOWN"
    and requests: "(e \<longrightarrow> may_replace) \<Longrightarrow> usable t \<Longrightarrow> usable d \<Longrightarrow>
      \<exists>info. request_for name d e info \<and> (\<forall>call. rename call t d e = publish call t info)"
begin

lemma status_cases: "(e \<longrightarrow> may_replace) \<Longrightarrow> rename call t d e = OK \<or> rename call t d e = COMMIT_UNKNOWN"
proof (cases "usable t \<and> usable d")
  assume e: "e \<longrightarrow> may_replace"
  case True
  with e obtain info where "rename call t d e = publish call t info" using requests by blast
  then show ?thesis by (simp add: publish_def split: option.splits prod.splits)
qed (simp add: refuses)

lemma ok_iff:
  assumes e: "e \<longrightarrow> may_replace"
  shows "rename call t d e = OK \<longleftrightarrow>
     usable t \<and> usable d \<and>
     (\<exists>f info. call = Some f \<and> request_for name d e info \<and> f t info = (0, 0) \<and>
        rename call t d e = publish call t info)"
proof
  assume ok: "rename call t d e = OK"
  then have use: "usable t" "usable d" using refuses [OF e, of t d call] by auto
  then obtain info where "request_for name d e info" "rename call t d e = publish call t info"
    using requests [OF e] by blast
  moreover from this ok obtain f where "call = Some f" "f t info = (0, 0)"
    by (auto simp: publish_def split: option.splits prod.splits if_splits)
  ultimately show "usable t \<and> usable d \<and> (\<exists>f info. call = Some f \<and> request_for name d e info \<and>
      f t info = (0, 0) \<and> rename call t d e = publish call t info)"
    using use by blast
qed (auto simp: publish_def)

lemma only_this_name:
  assumes "e \<longrightarrow> may_replace" and "\<And>info. request_for name d e info \<Longrightarrow> f t info \<noteq> (0, 0)"
  shows "rename (Some f) t d e = COMMIT_UNKNOWN"
  using assms(2) ok_iff [OF assms(1), of "Some f" t d] status_cases [OF assms(1), of "Some f" t d]
  by (metis option.inject)

end

lemma request_padded:
  "length name < n \<Longrightarrow> 20 + 2 * n \<le> sz \<Longrightarrow>
   request_for name d e \<lparr>replace_existing = e, root_directory = d, name_length = 2 * length name,
     file_name = name @ replicate (n - length name) 0, name_units = n, info_size = sz\<rparr>"
  by (simp add: request_for_def nth_append)

interpretation association_rename: publication rename_association "wide ''associations.bin''" True
proof
  fix t d :: handle and e and call :: rename_call
  show "rename_association call t d e = COMMIT_UNKNOWN" if "\<not> (usable t \<and> usable d)"
    using that by (auto simp: rename_association_def)
  assume "usable t" "usable d"
  then have "rename_association call t d e = publish call t
      \<lparr>replace_existing = e, root_directory = d, name_length = 2 * length (wide ''associations.bin''),
       file_name = wide ''associations.bin'' @ replicate (17 - length (wide ''associations.bin'')) 0,
       name_units = 17, info_size = 56\<rparr>" for call
    by (cases call) (simp_all add: rename_association_def association_request_def publish_def)
  then show "\<exists>info. request_for (wide ''associations.bin'') d e info \<and>
      (\<forall>call. rename_association call t d e = publish call t info)"
    using request_padded [of "wide ''associations.bin''" 17 56 d e] by auto
qed

text \<open>A credential or discovery name is published for its kind only.\<close>

lemma credential_publication:
  assumes "credential_name k = Some name"
  shows "publication (\<lambda>call t d e. rename_credential call t d k e) name True"
proof
  fix t d :: handle and e and call :: rename_call
  show "rename_credential call t d k e = COMMIT_UNKNOWN" if "\<not> (usable t \<and> usable d)"
    using that assms by (auto simp: rename_credential_def)
  have len: "length name = 10"
    using assms by (auto simp: credential_name_def split: if_splits)
  assume "usable t" "usable d"
  then have "rename_credential call t d k e = publish call t
      \<lparr>replace_existing = e, root_directory = d, name_length = 2 * length name,
       file_name = name @ replicate (11 - length name) 0, name_units = 11, info_size = 48\<rparr>" for call
    using assms len by (cases call) (simp_all add: rename_credential_def credential_request_def publish_def)
  then show "\<exists>info. request_for name d e info \<and>
      (\<forall>call. rename_credential call t d k e = publish call t info)"
    using request_padded [of name 11 48 d e] len by auto
qed

lemma discovery_publication:
  assumes "discovery_name k = Some name"
  shows "publication (\<lambda>call t d e. rename_discovery call t d k e) name (k = 1)"
proof
  fix t d :: handle and e and call :: rename_call
  assume e: "e \<longrightarrow> k = 1"
  show "rename_discovery call t d k e = COMMIT_UNKNOWN" if "\<not> (usable t \<and> usable d)"
    using that assms e by (auto simp: rename_discovery_def)
  have len: "length name < 16"
    using assms by (auto simp: discovery_name_def split: if_splits)
  assume "usable t" "usable d"
  then have "rename_discovery call t d k e = publish call t
      \<lparr>replace_existing = e, root_directory = d, name_length = 2 * length name,
       file_name = name @ replicate (16 - length name) 0, name_units = 16, info_size = 56\<rparr>" for call
    using assms e by (cases call) (auto simp add: rename_discovery_def discovery_request_def publish_def)
  then show "\<exists>info. request_for name d e info \<and>
      (\<forall>call. rename_discovery call t d k e = publish call t info)"
    using request_padded [of name 16 56 d e] len by auto
qed

interpretation issuer_rename:
  publication "\<lambda>call t d e. rename_credential call t d 1 e" "wide ''issuer.bin''" True
  by (rule credential_publication) (simp add: credential_name_def)

interpretation server_rename:
  publication "\<lambda>call t d e. rename_credential call t d 2 e" "wide ''server.bin''" True
  by (rule credential_publication) (simp add: credential_name_def)

interpretation client_rename:
  publication "\<lambda>call t d e. rename_credential call t d 4 e" "wide ''client.bin''" True
  by (rule credential_publication) (simp add: credential_name_def)

interpretation endpoint_rename:
  publication "\<lambda>call t d e. rename_discovery call t d 1 e" "wide ''endpoint.bin''" True
  using discovery_publication [of 1] by (simp add: discovery_name_def)

text \<open>
  The three credential kinds are published under three different fixed names of
  the directory given: success means the one system call succeeded on a request for exactly
  that name, and every other outcome of a known kind is \<open>COMMIT_UNKNOWN\<close>.
\<close>
theorem credential_rename_publishes:
  assumes "credential_name kind = Some name"
  shows "(rename_credential call t d kind e = OK \<longleftrightarrow>
      usable t \<and> usable d \<and> (\<exists>f info. call = Some f \<and> request_for name d e info \<and>
        f t info = (0, 0) \<and> rename_credential call t d kind e = publish call t info)) \<and>
    (rename_credential call t d kind e = OK \<or> rename_credential call t d kind e = COMMIT_UNKNOWN)"
proof -
  have "kind = 1 \<and> name = wide ''issuer.bin'' \<or> kind = 2 \<and> name = wide ''server.bin'' \<or>
      kind = 4 \<and> name = wide ''client.bin''"
    using assms by (auto simp: credential_name_def split: if_splits)
  then show ?thesis
    using issuer_rename.ok_iff issuer_rename.status_cases server_rename.ok_iff
      server_rename.status_cases client_rename.ok_iff client_rename.status_cases
    by (elim disjE conjE) (simp_all only: simp_thms)
qed

theorem credential_rename_publishes_witness:
  "rename_credential None 5 6 2 True = COMMIT_UNKNOWN"
  using credential_rename_publishes [of 2 "wide ''server.bin''" None 5 6 True]
  by (auto simp: credential_name_def)

end
