(* ===== verification/Object_Ops.thy ===== *)
theory Object_Ops
  imports Native_Memory Object_Policy "HOL-Library.Multiset"
begin

text \<open>
  The seam of \<open>ProtectedObjects\<close> (\<open>protected_objects.h\<close>): the virtual operations of
  \<open>ObjectOperations\<close> as calls, what they answer, the owner lease with its pins and
  receipts, and the state one locked operation runs on.  The operating system is a
  function from the calls made so far to the next answer, so that a statement for every
  such function covers every sequence of observations, failures and exceptions.
\<close>

section \<open>Calls and answers\<close>

datatype call =
    User_sid
  | Local_directory
  | Child handle wstring bool bool sid
  | Inspect handle
  | Close handle
  | Association_open handle sid
  | Credential_open handle u32 sid
  | Credential_replace handle handle u32 bool
  | Read_file handle
  | Temporary_count handle
  | Random_name
  | Temporary_create handle wstring sid
  | Write_file handle "u8 list"
  | Flush_file handle
  | Replace_file handle handle bool
  | Exchange_lock object_info sid
  | Exchange_unlock handle
  | Exchange_count handle
  | Exchange_open handle wstring u32 sid
  | Exchange_nonce
  | Exchange_read handle nat
  | Exchange_delete handle
  | Discovery_open handle u32
  | Discovery_replace handle handle u32 bool

text \<open>
  An answer is the outcome (a status, or an exception) and the value of the call's output
  parameter, which an operation may assign even when it fails.  \<open>Close\<close> and
  \<open>Exchange_unlock\<close> are \<open>noexcept\<close> and answer \<open>a_flag\<close> alone.
\<close>

record answer =
  outcome :: fault
  a_handle :: handle
  a_info :: object_info
  a_sid :: sid
  a_bytes :: "u8 list"
  a_count :: nat
  a_runtime :: wstring
  a_random :: wstring
  a_flag :: bool

type_synonym event = "call \<times> answer"
type_synonym object_ops = "event list \<Rightarrow> call \<Rightarrow> answer"

text \<open>The inert operations of the base class: every default denies, and no handle is closed.\<close>

definition inert_answer :: answer where
  "inert_answer = \<lparr>outcome = Status UNAVAILABLE, a_handle = 0, a_info = empty_info, a_sid = [],
     a_bytes = [], a_count = 0, a_runtime = [], a_random = [], a_flag = False\<rparr>"

fun default_operations :: "event list \<Rightarrow> call \<Rightarrow> answer" where
  "default_operations h (Replace_file t d e) = inert_answer\<lparr>outcome := Status COMMIT_UNKNOWN\<rparr>"
| "default_operations h (Credential_replace t d k e) = inert_answer\<lparr>outcome := Status COMMIT_UNKNOWN\<rparr>"
| "default_operations h (Discovery_replace t d k e) = inert_answer\<lparr>outcome := Status COMMIT_UNKNOWN\<rparr>"
| "default_operations h c = inert_answer"

section \<open>Leases\<close>

record pin =
  pin_handle :: handle
  pin_identity :: object_info
  pin_owner :: bool
  pin_dacl :: bool

record exchange_receipt =
  x_token :: u64
  x_pin :: handle
  x_identity :: object_info
  x_name :: wstring

text \<open>\<open>ExchangeRead\<close> extends the receipt.\<close>

record exchange_read = exchange_receipt +
  x_nonce :: "u8 list"
  x_bytes :: "u8 list"
  x_kind :: u32

record lease =
  l_token :: u64
  l_pins :: "pin list"
  l_denied :: bool
  l_quarantined :: bool
  l_role :: u32
  l_kind :: u32
  l_ticket :: u64
  l_target :: handle
  l_temporary :: handle
  l_target_identity :: object_info
  l_missing :: bool
  l_runtime_id :: wstring
  l_exchange :: pin
  l_discovery :: pin
  l_receipts :: "exchange_receipt list"
  l_reads :: "exchange_read list"

definition empty_pin :: pin where
  "empty_pin = \<lparr>pin_handle = 0, pin_identity = empty_info, pin_owner = False, pin_dacl = False\<rparr>"

definition empty_receipt :: exchange_receipt where
  "empty_receipt = \<lparr>x_token = 0, x_pin = 0, x_identity = empty_info, x_name = []\<rparr>"

definition empty_read :: exchange_read where
  "empty_read = \<lparr>x_token = 0, x_pin = 0, x_identity = empty_info, x_name = [],
     x_nonce = replicate 16 0, x_bytes = [], x_kind = 0\<rparr>"

definition new_lease :: "u64 \<Rightarrow> u32 \<Rightarrow> lease" where
  "new_lease token role =
     \<lparr>l_token = token, l_pins = [], l_denied = False, l_quarantined = False, l_role = role,
      l_kind = 3, l_ticket = 0, l_target = 0, l_temporary = 0, l_target_identity = empty_info,
      l_missing = False, l_runtime_id = [], l_exchange = empty_pin, l_discovery = empty_pin,
      l_receipts = replicate 32 empty_receipt, l_reads = replicate 32 empty_read\<rparr>"

text \<open>\<open>directory(lease)\<close>: the index of the pinned directory a store transaction works in.\<close>

definition directory_index :: "lease \<Rightarrow> nat" where
  "directory_index l = (if l_kind l = 3 then 6 else if l_kind l = 4 then 3 else 5)"

definition store_directory :: "lease \<Rightarrow> pin" where
  "store_directory l = l_pins l ! directory_index l"

text \<open>The number of pins a complete lease holds.\<close>

definition complete_pins :: "lease \<Rightarrow> bool" where
  "complete_pins l \<longleftrightarrow> length (l_pins l) = (if l_role l = ROLE_APP then 9 else 5)"

section \<open>The state of a locked operation\<close>

text \<open>
  The lease under the mutex, the calls made so far, and the shared ticket counter.  An
  operation with local handles extends this record by its own frame.
\<close>

record run =
  cur :: lease
  hist :: "event list"
  next_ticket :: u64

definition upd :: "(lease \<Rightarrow> lease) \<Rightarrow> ('x run_scheme, unit) prog" where
  "upd f = modify (\<lambda>s. s\<lparr>cur := f (cur s)\<rparr>)"

definition lease_get :: "(lease \<Rightarrow> 'a) \<Rightarrow> ('x run_scheme, 'a) prog" where
  "lease_get f = gets (\<lambda>s. f (cur s))"

definition invoke :: "object_ops \<Rightarrow> call \<Rightarrow> ('x run_scheme, answer) prog" where
  "invoke ops c s = (let a = ops (hist s) c in (Val a, s\<lparr>hist := hist s @ [(c, a)]\<rparr>))"

definition expect :: "answer \<Rightarrow> ('s, unit) prog" where
  "expect a = (if outcome a = Status OK then ret () else err (outcome a))"

text \<open>A call without an output kept on failure.\<close>

definition perform :: "object_ops \<Rightarrow> call \<Rightarrow> ('x run_scheme, answer) prog" where
  "perform ops c = seq (invoke ops c) (\<lambda>a. seq (expect a) (\<lambda>_. ret a))"

definition close_usable :: "object_ops \<Rightarrow> handle \<Rightarrow> ('x run_scheme, bool) prog" where
  "close_usable ops h =
     (if usable h then seq (invoke ops (Close h)) (\<lambda>a. ret (a_flag a)) else ret True)"

definition close_nonnull :: "object_ops \<Rightarrow> handle \<Rightarrow> ('x run_scheme, bool) prog" where
  "close_nonnull ops h =
     (if h \<noteq> 0 then seq (invoke ops (Close h)) (\<lambda>a. ret (a_flag a)) else ret True)"

text \<open>\<open>lease.denied = true; lease.quarantined = true;\<close>\<close>

definition quarantine :: "lease \<Rightarrow> lease" where
  "quarantine l = l\<lparr>l_denied := True, l_quarantined := True\<rparr>"

subsection \<open>Execution rules\<close>

lemma wp_upd [wp_simps]: "wp (upd f) Q s = Q (Val ()) (s\<lparr>cur := f (cur s)\<rparr>)"
  by (simp add: upd_def wp_simps)

lemma wp_lease_get [wp_simps]: "wp (lease_get f) Q s = Q (Val (f (cur s))) s"
  by (simp add: lease_get_def wp_simps)

lemma wp_invoke [wp_simps]:
  "wp (invoke ops c) Q s =
     Q (Val (ops (hist s) c)) (s\<lparr>hist := hist s @ [(c, ops (hist s) c)]\<rparr>)"
  by (simp add: wp_def invoke_def Let_def)

lemma wp_expect [wp_simps]:
  "wp (expect a) Q s = (if outcome a = Status OK then Q (Val ()) s else Q (Err (outcome a)) s)"
  by (simp add: expect_def wp_simps)

lemma wp_perform [wp_simps]:
  "wp (perform ops c) Q s =
     (let a = ops (hist s) c; t = s\<lparr>hist := hist s @ [(c, a)]\<rparr>
      in if outcome a = Status OK then Q (Val a) t else Q (Err (outcome a)) t)"
  by (simp add: perform_def wp_simps Let_def)

lemma wp_close_usable [wp_simps]:
  "wp (close_usable ops h) Q s =
     (let a = ops (hist s) (Close h)
      in if usable h then Q (Val (a_flag a)) (s\<lparr>hist := hist s @ [(Close h, a)]\<rparr>) else Q (Val True) s)"
  by (simp add: close_usable_def wp_simps Let_def)

lemma wp_close_nonnull [wp_simps]:
  "wp (close_nonnull ops h) Q s =
     (let a = ops (hist s) (Close h)
      in if h \<noteq> 0 then Q (Val (a_flag a)) (s\<lparr>hist := hist s @ [(Close h, a)]\<rparr>) else Q (Val True) s)"
  by (simp add: close_nonnull_def wp_simps Let_def)

lemma pres_expect [pres_intros]: "pres I (expect a)"
  by (simp add: expect_def pres_intros)

lemma pres_lease_get [pres_intros]: "pres I (lease_get f)"
  by (simp add: lease_get_def pres_intros)

lemma pres_upd: "(\<And>s. I s \<Longrightarrow> I (s\<lparr>cur := f (cur s)\<rparr>)) \<Longrightarrow> pres I (upd f)"
  by (simp add: upd_def pres_modify)

lemma pres_invoke: "(\<And>s a. I s \<Longrightarrow> I (s\<lparr>hist := hist s @ [(c, a)]\<rparr>)) \<Longrightarrow> pres I (invoke ops c)"
  by (simp add: pres_def invoke_def Let_def)

lemma pres_perform: "(\<And>s a. I s \<Longrightarrow> I (s\<lparr>hist := hist s @ [(c, a)]\<rparr>)) \<Longrightarrow> pres I (perform ops c)"
  unfolding perform_def by (intro pres_intros pres_invoke)

lemma pres_close_usable:
  "(\<And>s a. I s \<Longrightarrow> I (s\<lparr>hist := hist s @ [(Close h, a)]\<rparr>)) \<Longrightarrow> pres I (close_usable ops h)"
  unfolding close_usable_def by (intro pres_intros pres_invoke)

lemma pres_close_nonnull:
  "(\<And>s a. I s \<Longrightarrow> I (s\<lparr>hist := hist s @ [(Close h, a)]\<rparr>)) \<Longrightarrow> pres I (close_nonnull ops h)"
  unfolding close_nonnull_def by (intro pres_intros pres_invoke)

lemma proper_steps [proper_intros]:
  "proper (expect a)" "proper (upd f)" "proper (lease_get g)" "proper (invoke ops c)" "proper (perform ops c)"
  "proper (close_usable ops h)" "proper (close_nonnull ops h)"
proof -
  show e: "proper (expect a)" for a :: answer
    by (simp add: expect_def proper_ret proper_err)
  show i: "proper (invoke ops c)" for c :: call
    by (simp add: proper_def invoke_def Let_def)
  show "proper (upd f)" "proper (lease_get g)"
    by (simp_all add: upd_def lease_get_def proper_intros)
  show "proper (perform ops c)" "proper (close_usable ops h)" "proper (close_nonnull ops h)"
    unfolding perform_def close_usable_def close_nonnull_def by (intro proper_intros e i)+
qed

text \<open>
  \<open>attempt\<close> turns the result of a step into a value, as a status variable or a handler that
  rethrows does; \<open>resume\<close> continues with it.
\<close>

definition attempt :: "('s, 'a) prog \<Rightarrow> ('s, 'a res) prog" where
  "attempt m s = (case m s of (r, t) \<Rightarrow> (Val r, t))"

definition resume :: "'a res \<Rightarrow> ('s, 'a) prog" where
  "resume r = (case r of Val x \<Rightarrow> ret x | Err e \<Rightarrow> err e)"

lemma wp_attempt [wp_simps]: "wp (attempt m) Q s = wp m (\<lambda>r t. Q (Val r) t) s"
  by (simp add: wp_def attempt_def split: prod.splits)

lemma wp_resume [wp_simps]: "wp (resume r) Q s = Q r s"
  by (cases r) (simp_all add: resume_def wp_simps)

lemma wp_after_attempt: "(\<And>r t. wp (f r) Q t) \<Longrightarrow> wp (seq (attempt m) f) Q s"
  by (simp add: wp_seq wp_attempt) (simp add: wp_def split: prod.splits)

lemma proper_attempt:
  assumes "proper m" and "\<And>r. r \<noteq> Err (Status OK) \<Longrightarrow> proper (f r)"
  shows "proper (seq (attempt m) f)"
  unfolding proper_def
proof
  fix s
  obtain r t where "m s = (r, t)" by fastforce
  then show "fst (seq (attempt m) f s) \<noteq> Err (Status OK)"
    using assms unfolding proper_def seq_def attempt_def by (metis (no_types, lifting) case_prod_conv fst_conv res.simps(5))
qed

lemma pres_attempt [pres_intros]: "pres I m \<Longrightarrow> pres I (attempt m)"
  by (simp add: pres_def attempt_def split: prod.splits) (metis snd_conv)

lemma pres_resume [pres_intros]: "pres I (resume r)"
  by (cases r) (simp_all add: resume_def pres_intros)

fun is_exception :: "fault \<Rightarrow> bool" where
  "is_exception (Status st) = False"
| "is_exception _ = True"

section \<open>Handle accounting\<close>

text \<open>
  Which calls hand out a handle and which take one back.  \<open>accounted h M\<close>: after the calls
  \<open>h\<close> the handles still to be closed include \<open>M\<close>, and are exactly \<open>M\<close> as long as no close
  has failed; no handle was ever closed more often than it was handed out.
\<close>

fun opener :: "call \<Rightarrow> bool" where
  "opener Local_directory = True"
| "opener (Child p n d c s) = True"
| "opener (Association_open p s) = True"
| "opener (Credential_open p k s) = True"
| "opener (Temporary_create p n s) = True"
| "opener (Exchange_lock i s) = True"
| "opener (Exchange_open p n m s) = True"
| "opener (Discovery_open p k) = True"
| "opener _ = False"

fun closes :: "call \<Rightarrow> handle option" where
  "closes (Close h) = Some h"
| "closes (Exchange_unlock h) = Some h"
| "closes _ = None"

definition hm :: "handle \<Rightarrow> handle multiset" where
  "hm h = (if usable h then {#h#} else {#})"

definition hms :: "handle list \<Rightarrow> handle multiset" where
  "hms hs = sum_list (map hm hs)"

definition opened :: "event list \<Rightarrow> handle multiset" where
  "opened es = sum_list (map (\<lambda>(c, a). if opener c then hm (a_handle a) else {#}) es)"

definition closed :: "event list \<Rightarrow> handle multiset" where
  "closed es = sum_list (map (\<lambda>(c, a). case closes c of None \<Rightarrow> {#} | Some h \<Rightarrow> {#h#}) es)"

definition clean :: "event list \<Rightarrow> bool" where
  "clean es \<longleftrightarrow> (\<forall>(c, a) \<in> set es. closes c \<noteq> None \<longrightarrow> a_flag a)"

definition accounted :: "event list \<Rightarrow> handle multiset \<Rightarrow> bool" where
  "accounted es M \<longleftrightarrow> closed es + M \<subseteq># opened es \<and> (clean es \<longrightarrow> closed es + M = opened es)"

lemma hm_simps [simp]: "hm 0 = {#}" "usable h \<Longrightarrow> hm h = {#h#}" "\<not> usable h \<Longrightarrow> hm h = {#}"
  by (simp_all add: hm_def usable_def)

lemma hms_simps [simp]: "hms [] = {#}" "hms (h # hs) = hm h + hms hs" "hms (hs @ ks) = hms hs + hms ks"
  by (simp_all add: hms_def)

lemma hms_zero: "\<forall>h \<in> set hs. h = 0 \<Longrightarrow> hms hs = {#}"
  by (induction hs) (simp_all add: hms_def)

lemma hms_rev [simp]: "hms (rev hs) = hms hs"
  by (induction hs) auto

lemma opened_append [simp]: "opened (es @ [(c, a)]) = opened es + (if opener c then hm (a_handle a) else {#})"
  by (simp add: opened_def)

lemma closed_append [simp]:
  "closed (es @ [(c, a)]) = closed es + (case closes c of None \<Rightarrow> {#} | Some h \<Rightarrow> {#h#})"
  by (simp add: closed_def split: option.splits)

lemma clean_append [simp]: "clean (es @ [(c, a)]) \<longleftrightarrow> clean es \<and> (closes c \<noteq> None \<longrightarrow> a_flag a)"
  by (auto simp: clean_def)

lemma accounted_start: "accounted [] {#}"
  by (simp add: accounted_def opened_def closed_def)

lemma accounted_quiet:
  "\<not> opener c \<Longrightarrow> closes c = None \<Longrightarrow> accounted es M \<Longrightarrow> accounted (es @ [(c, a)]) M"
  by (simp add: accounted_def)

lemma opener_no_close [simp]: "opener c \<Longrightarrow> closes c = None"
  by (cases c) auto

lemma accounted_open:
  "opener c \<Longrightarrow> accounted es M \<Longrightarrow> accounted (es @ [(c, a)]) (hm (a_handle a) + M)"
  unfolding accounted_def opened_append closed_append clean_append
  by (auto simp: union_ac intro: subset_mset.add_right_mono)

lemma accounted_close:
  "closes c = Some h \<Longrightarrow> usable h \<Longrightarrow> accounted es (hm h + M) \<Longrightarrow> accounted (es @ [(c, a)]) M"
  using opener_no_close [of c]
  by (cases "opener c") (auto simp: accounted_def union_ac)

lemma accounted_weaken:
  assumes "accounted es (N + M)" and "N = {#} \<or> \<not> clean es"
  shows "accounted es M"
proof -
  have "closed es + M \<subseteq># closed es + (N + M)" by simp
  also have "\<dots> \<subseteq># opened es" using assms(1) by (simp add: accounted_def)
  finally show ?thesis using assms by (auto simp: accounted_def)
qed

text \<open>Once a close has failed the history is never clean again.\<close>

lemma accounted_all_closed:
  "accounted es {#} \<Longrightarrow> clean es \<Longrightarrow> opened es = closed es"
  by (simp add: accounted_def)

section \<open>Custody of a lease\<close>

text \<open>The handles a lease holds: loose ones, and its directory and lock pins.\<close>

definition loose_handles :: "lease \<Rightarrow> handle list" where
  "loose_handles l = l_temporary l # l_target l # pin_handle (l_exchange l) # pin_handle (l_discovery l) #
     map x_pin (l_reads l) @ map x_pin (l_receipts l)"

definition pin_handles :: "lease \<Rightarrow> handle list" where
  "pin_handles l = map pin_handle (l_pins l)"

definition held :: "lease \<Rightarrow> handle multiset" where
  "held l = hms (loose_handles l) + hms (pin_handles l)"

text \<open>A quarantined lease never closes its pins again.\<close>

definition retained :: "lease \<Rightarrow> handle multiset" where
  "retained l = hms (loose_handles l) + (if l_quarantined l then {#} else hms (pin_handles l))"

definition null_or_usable :: "handle \<Rightarrow> bool" where
  "null_or_usable h \<longleftrightarrow> h = 0 \<or> usable h"

definition lease_wf :: "lease \<Rightarrow> bool" where
  "lease_wf l \<longleftrightarrow>
     (\<forall>r \<in> set (l_reads l). null_or_usable (x_pin r)) \<and>
     (\<forall>r \<in> set (l_receipts l). null_or_usable (x_pin r)) \<and>
     length (l_reads l) = 32 \<and> length (l_receipts l) = 32"

text \<open>
  \<open>custody F s\<close>: every handle is in the lease or in \<open>F s\<close>, which is what the other leases and
  the operation's own frame hold; a lease is in quarantine only after a failed close.
\<close>

definition custody :: "('x run_scheme \<Rightarrow> handle multiset) \<Rightarrow> 'x run_scheme \<Rightarrow> bool" where
  "custody F s \<longleftrightarrow> accounted (hist s) (F s + retained (cur s)) \<and>
     (l_quarantined (cur s) \<longrightarrow> \<not> clean (hist s)) \<and> lease_wf (cur s)"

text \<open>A frame is a share that the fields of \<open>run\<close> do not touch.\<close>

locale frame =
  fixes F :: "'x run_scheme \<Rightarrow> handle multiset"
  assumes F_cur [simp]: "F (s\<lparr>cur := l\<rparr>) = F s"
    and F_hist [simp]: "F (s\<lparr>hist := h\<rparr>) = F s"
    and F_next_ticket [simp]: "F (s\<lparr>next_ticket := n\<rparr>) = F s"
begin

lemma custody_quiet:
  "\<not> opener c \<Longrightarrow> closes c = None \<Longrightarrow> custody F s \<Longrightarrow> custody F (s\<lparr>hist := hist s @ [(c, a)]\<rparr>)"
  by (simp add: custody_def accounted_quiet)

lemma pres_invoke_quiet [pres_intros]:
  "\<not> opener c \<Longrightarrow> closes c = None \<Longrightarrow> pres (custody F) (invoke ops c)"
  by (rule pres_invoke) (rule custody_quiet)

lemma pres_perform_quiet [pres_intros]:
  "\<not> opener c \<Longrightarrow> closes c = None \<Longrightarrow> pres (custody F) (perform ops c)"
  by (rule pres_perform) (rule custody_quiet)

lemma pres_upd_same [pres_intros]:
  "(\<And>l. retained (f l) = retained l) \<Longrightarrow> (\<And>l. l_quarantined (f l) = l_quarantined l) \<Longrightarrow>
   (\<And>l. lease_wf (f l) = lease_wf l) \<Longrightarrow> pres (custody F) (upd f)"
  by (rule pres_upd) (simp add: custody_def)

end

end
