(* ===== verification/Owner_Leases.thy ===== *)
theory Owner_Leases
  imports Object_Ops
begin

text \<open>
  \<open>protected_objects.cpp\<close>: acquiring, validating, closing and destroying owner leases, with
  \<open>check\<close>, \<open>finish\<close> and \<open>find\<close> of \<open>association_files.cpp\<close>.  The lemmas follow every
  handle the operating system hands out: from the call that returns it, through the lease
  field that holds it, to its one close.
\<close>

section \<open>Pins\<close>

definition pin_current :: "pin \<Rightarrow> sid \<Rightarrow> object_info \<Rightarrow> bool" where
  "pin_current p sid current \<longleftrightarrow>
     object_valid current sid (is_directory (pin_identity p)) (pin_owner p) (pin_dacl p) \<and>
     volume current = volume (pin_identity p) \<and> file_index current = file_index (pin_identity p)"

fun inspect_each :: "object_ops \<Rightarrow> sid \<Rightarrow> pin list \<Rightarrow> ('x run_scheme, unit) prog" where
  "inspect_each ops sid [] = ret ()"
| "inspect_each ops sid (p # ps) =
     seq (perform ops (Inspect (pin_handle p))) (\<lambda>a.
     seq (require (pin_current p sid (a_info a)) UNAVAILABLE) (\<lambda>_.
     inspect_each ops sid ps))"

definition inspect_pins :: "object_ops \<Rightarrow> sid \<Rightarrow> ('x run_scheme, unit) prog" where
  "inspect_pins ops sid = seq (lease_get l_pins) (inspect_each ops sid)"

definition map_last :: "('a \<Rightarrow> 'a) \<Rightarrow> 'a list \<Rightarrow> 'a list" where
  "map_last f xs = (if xs = [] then [] else butlast xs @ [f (last xs)])"

definition set_last_pin :: "(pin \<Rightarrow> pin) \<Rightarrow> lease \<Rightarrow> lease" where
  "set_last_pin f l = l\<lparr>l_pins := map_last f (l_pins l)\<rparr>"

definition push_pin :: "bool \<Rightarrow> bool \<Rightarrow> lease \<Rightarrow> lease" where
  "push_pin owner dacl l =
     l\<lparr>l_pins := l_pins l @ [empty_pin\<lparr>pin_owner := owner, pin_dacl := dacl\<rparr>]\<rparr>"

definition last_handle :: "lease \<Rightarrow> handle" where
  "last_handle l = pin_handle (last (l_pins l))"

text \<open>
  An opening call into the last pin: the handle it answers is kept whatever the outcome,
  and so is the identity the inspection answers.
\<close>

definition open_last :: "object_ops \<Rightarrow> call \<Rightarrow> ('x run_scheme, unit) prog" where
  "open_last ops c =
     seq (invoke ops c) (\<lambda>a.
     seq (upd (set_last_pin (\<lambda>p. p\<lparr>pin_handle := a_handle a\<rparr>))) (\<lambda>_.
     seq (expect a) (\<lambda>_.
     seq (require (usable (a_handle a)) UNAVAILABLE) (\<lambda>_.
     seq (invoke ops (Inspect (a_handle a))) (\<lambda>b.
     seq (upd (set_last_pin (\<lambda>p. p\<lparr>pin_identity := a_info b\<rparr>))) (\<lambda>_.
     expect b))))))"

definition add ::
  "object_ops \<Rightarrow> bool \<Rightarrow> handle \<Rightarrow> wstring \<Rightarrow> bool \<Rightarrow> sid \<Rightarrow> bool \<Rightarrow> bool \<Rightarrow> ('x run_scheme, unit) prog" where
  "add ops initialize parent name directory sid dacl create =
     seq (require (safe_component name) INVALID_INPUT) (\<lambda>_.
     seq (inspect_pins ops sid) (\<lambda>_.
     seq (upd (push_pin True dacl)) (\<lambda>_.
     seq (open_last ops (Child parent name directory (create \<and> initialize) sid)) (\<lambda>_.
     seq (lease_get (\<lambda>l. (pin_identity (last (l_pins l)), volume (pin_identity (hd (l_pins l))))))
       (\<lambda>(identity, root_volume).
     require (object_valid identity sid directory True dacl \<and> volume identity = root_volume)
       UNAVAILABLE)))))"

section \<open>Checking and finishing a lease\<close>

definition check_lease :: "object_ops \<Rightarrow> ('x run_scheme, sid) prog" where
  "check_lease ops =
     seq (lease_get (\<lambda>l. l_denied l \<or> l_quarantined l)) (\<lambda>refused.
     seq (require (\<not> refused) UNAVAILABLE) (\<lambda>_.
     seq (upd (\<lambda>l. l\<lparr>l_denied := True\<rparr>)) (\<lambda>_.
     seq (perform ops User_sid) (\<lambda>a.
     seq (inspect_pins ops (a_sid a)) (\<lambda>_.
     seq (upd (\<lambda>l. l\<lparr>l_denied := False\<rparr>)) (\<lambda>_.
     ret (a_sid a)))))))"

definition finish :: "object_ops \<Rightarrow> ('x run_scheme, bool) prog" where
  "finish ops =
     seq (lease_get l_temporary) (\<lambda>temporary.
     seq (close_usable ops temporary) (\<lambda>ok1.
     seq (upd (\<lambda>l. l\<lparr>l_temporary := 0\<rparr>)) (\<lambda>_.
     seq (lease_get l_target) (\<lambda>target.
     seq (close_usable ops target) (\<lambda>ok2.
     seq (upd (\<lambda>l. l\<lparr>l_target := 0, l_ticket := 0\<rparr>)) (\<lambda>_.
     seq (upd (\<lambda>l. if ok1 \<and> ok2 then l else quarantine l)) (\<lambda>_.
     ret (ok1 \<and> ok2))))))))"

section \<open>Releasing every handle\<close>

definition cleared_read :: "exchange_read \<Rightarrow> exchange_read" where
  "cleared_read r = r\<lparr>x_pin := 0, x_token := 0, x_nonce := replicate 16 0, x_bytes := []\<rparr>"

definition cleared_receipt :: "exchange_receipt \<Rightarrow> exchange_receipt" where
  "cleared_receipt r = r\<lparr>x_pin := 0, x_token := 0\<rparr>"

definition drop_read :: "nat \<Rightarrow> lease \<Rightarrow> lease" where
  "drop_read i l = l\<lparr>l_reads := (l_reads l)[i := cleared_read (l_reads l ! i)]\<rparr>"

definition drop_receipt :: "nat \<Rightarrow> lease \<Rightarrow> lease" where
  "drop_receipt i l = l\<lparr>l_receipts := (l_receipts l)[i := cleared_receipt (l_receipts l ! i)]\<rparr>"

definition null_pin :: "nat \<Rightarrow> lease \<Rightarrow> lease" where
  "null_pin i l = l\<lparr>l_pins := (l_pins l)[i := (l_pins l ! i)\<lparr>pin_handle := 0\<rparr>]\<rparr>"

definition read_pin :: "lease \<Rightarrow> nat \<Rightarrow> handle" where
  "read_pin l i = x_pin (l_reads l ! i)"

definition receipt_pin :: "lease \<Rightarrow> nat \<Rightarrow> handle" where
  "receipt_pin l i = x_pin (l_receipts l ! i)"

text \<open>
  The loops of \<open>release\<close>, over the indices still to visit; the first two share their shape:
  close a pin that is not null, then clear its slot whatever the close answered.
\<close>

fun release_each ::
  "object_ops \<Rightarrow> (lease \<Rightarrow> nat \<Rightarrow> handle) \<Rightarrow> (nat \<Rightarrow> lease \<Rightarrow> lease) \<Rightarrow> nat list \<Rightarrow> bool \<Rightarrow>
     ('x run_scheme, bool) prog" where
  "release_each ops pin clear [] ok = ret ok"
| "release_each ops pin clear (i # js) ok =
     seq (lease_get (\<lambda>l. pin l i)) (\<lambda>h.
     seq (close_nonnull ops h) (\<lambda>closed.
     seq (upd (clear i)) (\<lambda>_. release_each ops pin clear js (ok \<and> closed))))"

fun release_pins :: "object_ops \<Rightarrow> nat list \<Rightarrow> bool \<Rightarrow> ('x run_scheme, bool) prog" where
  "release_pins ops [] ok = ret ok"
| "release_pins ops (i # js) ok =
     seq (lease_get (\<lambda>l. pin_handle (l_pins l ! i))) (\<lambda>h.
     if usable h
     then seq (invoke ops (Close h)) (\<lambda>a.
          seq (upd (if a_flag a then null_pin i else id)) (\<lambda>_.
          release_pins ops js (ok \<and> a_flag a)))
     else release_pins ops js ok)"

text \<open>\<open>release\<close>, stage by stage; \<open>ok\<close> falls at the first failed close and every stage still runs.\<close>

definition release_reads :: "object_ops \<Rightarrow> bool \<Rightarrow> ('x run_scheme, bool) prog" where
  "release_reads ops ok =
     seq (lease_get (\<lambda>l. [0 ..< length (l_reads l)])) (\<lambda>js. release_each ops read_pin drop_read js ok)"

definition release_receipts :: "object_ops \<Rightarrow> bool \<Rightarrow> ('x run_scheme, bool) prog" where
  "release_receipts ops ok =
     seq (lease_get (\<lambda>l. [0 ..< length (l_receipts l)])) (\<lambda>js. release_each ops receipt_pin drop_receipt js ok)"

definition release_exchange :: "object_ops \<Rightarrow> bool \<Rightarrow> ('x run_scheme, bool) prog" where
  "release_exchange ops ok =
     seq (lease_get (\<lambda>l. pin_handle (l_exchange l))) (\<lambda>h.
     seq (close_usable ops h) (\<lambda>closed.
     seq (upd (\<lambda>l. l\<lparr>l_exchange := (l_exchange l)\<lparr>pin_handle := 0\<rparr>\<rparr>)) (\<lambda>_. ret (ok \<and> closed))))"

definition release_discovery :: "object_ops \<Rightarrow> bool \<Rightarrow> ('x run_scheme, bool) prog" where
  "release_discovery ops ok =
     seq (lease_get (\<lambda>l. pin_handle (l_discovery l))) (\<lambda>h.
     seq (close_usable ops h) (\<lambda>closed.
     seq (upd (\<lambda>l. l\<lparr>l_discovery := (l_discovery l)\<lparr>pin_handle := 0\<rparr>\<rparr>)) (\<lambda>_. ret (ok \<and> closed))))"

definition release_all_pins :: "object_ops \<Rightarrow> bool \<Rightarrow> ('x run_scheme, bool) prog" where
  "release_all_pins ops ok =
     seq (lease_get (\<lambda>l. rev [0 ..< length (l_pins l)])) (\<lambda>js. release_pins ops js ok)"

definition release :: "object_ops \<Rightarrow> ('x run_scheme, bool) prog" where
  "release ops =
     seq (finish ops) (\<lambda>ok1.
     seq (release_reads ops ok1) (\<lambda>ok2.
     seq (release_receipts ops ok2) (\<lambda>ok3.
     seq (release_exchange ops ok3) (\<lambda>ok4.
     seq (release_discovery ops ok4) (\<lambda>ok5.
     seq (release_all_pins ops ok5) (\<lambda>ok.
     seq (upd (\<lambda>l. l\<lparr>l_denied := True, l_quarantined := \<not> ok\<rparr>)) (\<lambda>_.
     ret ok)))))))"

section \<open>The owners\<close>

text \<open>
  \<open>ProtectedObjects\<close>: the mode, the two counters that are never reused, and 32 slots.
  \<open>world\<close> is the history of calls and the caller's memory.
\<close>

record objects =
  o_initialize :: bool
  o_next_token :: u64
  o_next_ticket :: u64
  o_owners :: "lease option list"
  o_hist :: "event list"
  o_mem :: mem

definition max_owners :: nat where "max_owners = 32"

definition new_objects :: "bool \<Rightarrow> event list \<Rightarrow> mem \<Rightarrow> objects" where
  "new_objects initialize h m =
     \<lparr>o_initialize = initialize, o_next_token = 1, o_next_ticket = 1,
      o_owners = replicate max_owners None, o_hist = h, o_mem = m\<rparr>"

fun find_index :: "('a \<Rightarrow> bool) \<Rightarrow> 'a list \<Rightarrow> nat option" where
  "find_index P [] = None"
| "find_index P (x # xs) = (if P x then Some 0 else map_option Suc (find_index P xs))"

definition holds_token :: "u64 \<Rightarrow> lease option \<Rightarrow> bool" where
  "holds_token token slot = (case slot of None \<Rightarrow> False | Some l \<Rightarrow> l_token l = token)"

text \<open>\<open>find\<close>: the slot of the owner.\<close>

definition find_owner :: "u64 \<Rightarrow> objects \<Rightarrow> nat option" where
  "find_owner token s = find_index (holds_token token) (o_owners s)"

definition owner_at :: "objects \<Rightarrow> nat \<Rightarrow> lease" where
  "owner_at s i = the (o_owners s ! i)"

text \<open>Running a locked operation on the lease of a slot.\<close>

definition enter :: "nat \<Rightarrow> objects \<Rightarrow> run" where
  "enter i s = \<lparr>cur = owner_at s i, hist = o_hist s, next_ticket = o_next_ticket s\<rparr>"

definition leave :: "nat \<Rightarrow> 'x run_scheme \<Rightarrow> objects \<Rightarrow> objects" where
  "leave i r s = s\<lparr>o_owners := (o_owners s)[i := Some (cur r)], o_hist := hist r,
     o_next_ticket := next_ticket r\<rparr>"

definition forget :: "nat \<Rightarrow> objects \<Rightarrow> objects" where
  "forget i s = s\<lparr>o_owners := (o_owners s)[i := None]\<rparr>"

definition o_write :: "(mem \<Rightarrow> mem) \<Rightarrow> objects \<Rightarrow> objects" where
  "o_write f s = s\<lparr>o_mem := f (o_mem s)\<rparr>"

subsection \<open>Acquisition\<close>

definition acquire_root :: "object_ops \<Rightarrow> ('x run_scheme, sid) prog" where
  "acquire_root ops =
     seq (perform ops User_sid) (\<lambda>a.
     seq (require (a_sid a \<noteq> []) UNAVAILABLE) (\<lambda>_.
     seq (upd (push_pin False False)) (\<lambda>_.
     seq (open_last ops Local_directory) (\<lambda>_.
     seq (lease_get (\<lambda>l. pin_identity (last (l_pins l)))) (\<lambda>identity.
     seq (require (object_valid identity (a_sid a) True False False) UNAVAILABLE) (\<lambda>_.
     ret (a_sid a)))))))"

definition add_last ::
  "object_ops \<Rightarrow> bool \<Rightarrow> string \<Rightarrow> bool \<Rightarrow> sid \<Rightarrow> bool \<Rightarrow> bool \<Rightarrow> ('x run_scheme, handle) prog" where
  "add_last ops initialize name directory sid dacl create =
     seq (lease_get last_handle) (\<lambda>parent.
     seq (add ops initialize parent (wide name) directory sid dacl create) (\<lambda>_.
     lease_get last_handle))"

definition add_under ::
  "object_ops \<Rightarrow> bool \<Rightarrow> handle \<Rightarrow> string \<Rightarrow> sid \<Rightarrow> ('x run_scheme, handle) prog" where
  "add_under ops initialize parent name sid =
     seq (add ops initialize parent (wide name) True sid True True) (\<lambda>_. lease_get last_handle)"

definition acquire_stores :: "object_ops \<Rightarrow> bool \<Rightarrow> handle \<Rightarrow> sid \<Rightarrow> ('x run_scheme, unit) prog" where
  "acquire_stores ops initialize external sid =
     seq (add_under ops initialize external ''app'' sid) (\<lambda>app.
     seq (add_under ops initialize app ''trust'' sid) (\<lambda>_.
     seq (add_under ops initialize app ''state'' sid) (\<lambda>_.
     seq (add_under ops initialize external ''discovery'' sid) (\<lambda>_.
     seq (add_under ops initialize external ''exchange'' sid) (\<lambda>_. ret ())))))"

definition acquire_chain :: "object_ops \<Rightarrow> bool \<Rightarrow> u32 \<Rightarrow> ('x run_scheme, unit) prog" where
  "acquire_chain ops initialize role =
     seq (acquire_root ops) (\<lambda>sid.
     seq (add_last ops initialize ''Shiroha'' True sid False (role = ROLE_APP)) (\<lambda>_.
     seq (add_last ops initialize ''external'' True sid True (role = ROLE_APP)) (\<lambda>external.
     seq (if role = ROLE_BRIDGE then add_under ops initialize external ''bridge'' sid else ret external) (\<lambda>_.
     seq (add_last ops initialize (if role = ROLE_APP then ''runtime.lock'' else ''client.lock'')
            False sid True True) (\<lambda>_.
     seq (if role = ROLE_APP then acquire_stores ops initialize external sid else ret ()) (\<lambda>_.
     inspect_pins ops sid))))))"

text \<open>A fresh lease takes the slot and the next token, which is never given back.\<close>

definition claim_slot :: "nat \<Rightarrow> u32 \<Rightarrow> objects \<Rightarrow> objects" where
  "claim_slot slot role s = s\<lparr>o_next_token := o_next_token s + 1,
     o_owners := (o_owners s)[slot := Some (new_lease (o_next_token s) role)]\<rparr>"

definition acquire_slot :: "object_ops \<Rightarrow> u32 \<Rightarrow> ptr \<Rightarrow> nat \<Rightarrow> objects \<Rightarrow> status \<times> objects" where
  "acquire_slot ops role token slot s =
     (case acquire_chain ops (o_initialize s) role (enter slot s) of (result, r) \<Rightarrow>
        if settle result = OK
        then (OK, o_write (store64 token (l_token (cur r))) (leave slot r s))
        else case release ops r of (released, r') \<Rightarrow>
          (settle result, (if released = Val True then forget slot else id) (leave slot r' s)))"

definition acquire :: "object_ops \<Rightarrow> u32 \<Rightarrow> u32 \<Rightarrow> ptr \<Rightarrow> objects \<Rightarrow> status \<times> objects" where
  "acquire ops version role token s =
     (if token = 0 \<or> \<not> aligned8 token \<or> token > -1 - 8 then (INVALID_INPUT, s)
      else let s1 = o_write (store64 token 0) s in
        if \<not> owner_version version then (ABI_MISMATCH, s1)
        else if role \<noteq> ROLE_APP \<and> role \<noteq> ROLE_BRIDGE then (INVALID_INPUT, s1)
        else case find_index (\<lambda>slot. slot = None) (o_owners s1) of
            None \<Rightarrow> (RESOURCE_LIMIT, s1)
          | Some slot \<Rightarrow>
              if o_next_token s1 > INT64_MAX then (RESOURCE_LIMIT, s1)
              else acquire_slot ops role token slot (claim_slot slot role s1))"

subsection \<open>Validation, close and destruction\<close>

definition validate_chain :: "object_ops \<Rightarrow> ('x run_scheme, unit) prog" where
  "validate_chain ops =
     seq (upd (\<lambda>l. l\<lparr>l_denied := True\<rparr>)) (\<lambda>_.
     seq (perform ops User_sid) (\<lambda>a.
     seq (inspect_pins ops (a_sid a)) (\<lambda>_.
     upd (\<lambda>l. l\<lparr>l_denied := False\<rparr>))))"

definition validate :: "object_ops \<Rightarrow> u32 \<Rightarrow> u64 \<Rightarrow> objects \<Rightarrow> status \<times> objects" where
  "validate ops version token s =
     (if \<not> owner_version version then (ABI_MISMATCH, s)
      else if token = 0 then (INVALID_INPUT, s)
      else case find_owner token s of
          None \<Rightarrow> (INVALID_INPUT, s)
        | Some i \<Rightarrow>
            if l_denied (owner_at s i) then (UNAVAILABLE, s)
            else case validate_chain ops (enter i s) of
              (result, r) \<Rightarrow> (settle result, leave i r s))"

definition close_owner :: "object_ops \<Rightarrow> u32 \<Rightarrow> u64 \<Rightarrow> objects \<Rightarrow> status \<times> objects" where
  "close_owner ops version token s =
     (if \<not> owner_version version then (ABI_MISMATCH, s)
      else if token = 0 then (INVALID_INPUT, s)
      else case find_owner token s of
          None \<Rightarrow> (INVALID_INPUT, s)
        | Some i \<Rightarrow>
            if l_quarantined (owner_at s i) then (UNAVAILABLE, s)
            else case release ops (enter i s) of
              (released, r) \<Rightarrow>
                if released = Val True then (OK, forget i (leave i r s))
                else (UNAVAILABLE, leave i r s))"

text \<open>
  The destructor releases every lease that is not in quarantine; the slots themselves go
  with the object, which is modelled slot by slot.
\<close>

fun destroy_slots :: "object_ops \<Rightarrow> nat list \<Rightarrow> objects \<Rightarrow> objects" where
  "destroy_slots ops [] s = s"
| "destroy_slots ops (i # js) s =
     destroy_slots ops js
       (case o_owners s ! i of
          None \<Rightarrow> s
        | Some l \<Rightarrow> if l_quarantined l then s
           else forget i (leave i (snd (release ops (enter i s))) s))"

definition destroy :: "object_ops \<Rightarrow> objects \<Rightarrow> objects" where
  "destroy ops s = destroy_slots ops [0 ..< length (o_owners s)] s"

section \<open>What the shared steps keep\<close>

lemma pres_inspect_each:
  "(\<And>s h a. I s \<Longrightarrow> I (s\<lparr>hist := hist s @ [(Inspect h, a)]\<rparr>)) \<Longrightarrow> pres I (inspect_each ops sid ps)"
  by (induction ps) (simp_all add: pres_intros pres_perform)

lemma pres_inspect_pins:
  "(\<And>s h a. I s \<Longrightarrow> I (s\<lparr>hist := hist s @ [(Inspect h, a)]\<rparr>)) \<Longrightarrow> pres I (inspect_pins ops sid)"
  unfolding inspect_pins_def by (intro pres_intros pres_inspect_each)

lemma pres_check_lease:
  assumes "\<And>s h a. I s \<Longrightarrow> I (s\<lparr>hist := hist s @ [(Inspect h, a)]\<rparr>)"
    and "\<And>s a. I s \<Longrightarrow> I (s\<lparr>hist := hist s @ [(User_sid, a)]\<rparr>)"
    and "\<And>s b. I s \<Longrightarrow> I (s\<lparr>cur := (cur s)\<lparr>l_denied := b\<rparr>\<rparr>)"
  shows "pres I (check_lease ops)"
  unfolding check_lease_def
  by (intro pres_intros pres_inspect_pins pres_perform pres_upd assms)

lemma proper_check_lease [proper_intros]: "proper (check_lease ops)"
proof -
  have "proper (inspect_each ops sid bs)" for sid bs
    by (induction bs) (auto intro!: proper_intros)
  then show ?thesis
    unfolding check_lease_def inspect_pins_def by (intro proper_intros) auto
qed

lemma quarantine_sel [simp]:
  "l_quarantined (quarantine l)" "l_denied (quarantine l)" "held (quarantine l) = held l"
  "lease_wf (quarantine l) = lease_wf l" "l_ticket (quarantine l) = l_ticket l"
  "l_target (quarantine l) = l_target l" "l_temporary (quarantine l) = l_temporary l"
  "loose_handles (quarantine l) = loose_handles l" "pin_handles (quarantine l) = pin_handles l"
  "l_token (quarantine l) = l_token l" "l_role (quarantine l) = l_role l" "l_pins (quarantine l) = l_pins l"
  by (simp_all add: quarantine_def held_def lease_wf_def loose_handles_def pin_handles_def)

lemma held_denied [simp]: "held (l\<lparr>l_denied := b\<rparr>) = held l" "lease_wf (l\<lparr>l_denied := b\<rparr>) = lease_wf l"
  by (simp_all add: held_def lease_wf_def loose_handles_def pin_handles_def)

text \<open>The lease \<open>finish\<close> leaves behind, before the quarantine of a failed close.\<close>

definition finished :: "lease \<Rightarrow> lease" where
  "finished l = l\<lparr>l_temporary := 0, l_target := 0, l_ticket := 0\<rparr>"

lemma retained_denied [simp]: "retained (l\<lparr>l_denied := b\<rparr>) = retained l"
  by (simp add: retained_def loose_handles_def pin_handles_def)

lemma retained_split: "retained l = (if l_quarantined l then {#} else hms (pin_handles l)) + retained (quarantine l)"
  by (simp add: retained_def union_ac)

lemma retained_held: "\<not> l_quarantined l \<Longrightarrow> retained l = held l"
  by (simp add: retained_def held_def)

lemma held_parts:
  "held l = hm (l_temporary l) + hm (l_target l) + hm (pin_handle (l_exchange l)) +
     hm (pin_handle (l_discovery l)) + hms (map x_pin (l_reads l)) + hms (map x_pin (l_receipts l)) +
     hms (map pin_handle (l_pins l))"
  by (simp add: held_def loose_handles_def pin_handles_def union_ac)

lemma held_finished: "hm (l_temporary l) + (hm (l_target l) + held (finished l)) = held l"
  by (simp add: held_parts finished_def union_ac)

lemma finished_sel [simp]:
  "lease_wf (finished l) = lease_wf l" "l_quarantined (finished l) = l_quarantined l"
  "l_ticket (finished l) = 0" "l_target (finished l) = 0" "l_temporary (finished l) = 0"
  "l_pins (finished l) = l_pins l" "l_token (finished l) = l_token l" "l_role (finished l) = l_role l"
  by (simp_all add: finished_def lease_wf_def)

definition only_closes :: "event list \<Rightarrow> bool" where
  "only_closes es \<longleftrightarrow> (\<forall>(c, a) \<in> set es. \<exists>h. c = Close h)"

lemma only_closes_simps [simp]:
  "only_closes []" "only_closes ((c, a) # es) \<longleftrightarrow> (\<exists>h. c = Close h) \<and> only_closes es"
  "only_closes (es @ fs) \<longleftrightarrow> only_closes es \<and> only_closes fs"
  by (auto simp: only_closes_def)

text \<open>\<open>finish\<close> closes what it clears, changes nothing else, and quarantines a failed close.\<close>

definition finish_effect :: "bool \<Rightarrow> 'x run_scheme \<Rightarrow> 'x run_scheme \<Rightarrow> bool" where
  "finish_effect ok s t \<longleftrightarrow>
     (\<exists>es. only_closes es \<and> (\<not> ok \<longrightarrow> \<not> clean (hist s @ es)) \<and>
        t = s\<lparr>hist := hist s @ es, cur := (if ok then finished (cur s) else quarantine (finished (cur s)))\<rparr>)"

text \<open>A guarded close in one step: the events it logs and its result.\<close>

definition close_log :: "object_ops \<Rightarrow> event list \<Rightarrow> handle \<Rightarrow> event list" where
  "close_log ops es h = (if usable h then [(Close h, ops es (Close h))] else [])"

definition close_ok :: "object_ops \<Rightarrow> event list \<Rightarrow> handle \<Rightarrow> bool" where
  "close_ok ops es h \<longleftrightarrow> usable h \<longrightarrow> a_flag (ops es (Close h))"

lemma wp_close_step:
  "wp (close_usable ops h) Q s =
     Q (Val (close_ok ops (hist s) h)) (s\<lparr>hist := hist s @ close_log ops (hist s) h\<rparr>)"
  by (simp add: wp_close_usable close_ok_def close_log_def Let_def)

lemma close_log_facts:
  "only_closes (close_log ops es h)" "\<not> close_ok ops es h \<Longrightarrow> \<not> clean (es @ close_log ops es h)"
  by (auto simp: close_log_def close_ok_def split: if_splits)

lemma unclean_append: "\<not> clean es \<Longrightarrow> \<not> clean (es @ fs)"
  by (auto simp: clean_def)

lemma accounted_close_log:
  "accounted es (hm h + M) \<Longrightarrow> accounted (es @ close_log ops es h) M"
  using accounted_close [of "Close h" h es M] by (cases "usable h") (simp_all add: close_log_def)

lemma finish_run:
  assumes "es1 = hist s @ close_log ops (hist s) (l_temporary (cur s))"
    and "es2 = es1 @ close_log ops es1 (l_target (cur s))"
    and "ok = (close_ok ops (hist s) (l_temporary (cur s)) \<and> close_ok ops es1 (l_target (cur s)))"
  shows "wp (finish ops) Q s = Q (Val ok)
    (s\<lparr>hist := es2, cur := (if ok then finished (cur s) else quarantine (finished (cur s)))\<rparr>)"
  using assms by (simp add: finish_def wp_simps wp_close_step finished_def del: wp_close_usable)

lemma wp_finish:
  "wp (finish ops) (\<lambda>r t. \<exists>ok. r = Val ok \<and> finish_effect ok s t) s"
proof -
  define es1 where "es1 = close_log ops (hist s) (l_temporary (cur s))"
  define es2 where "es2 = close_log ops (hist s @ es1) (l_target (cur s))"
  define ok where "ok = (close_ok ops (hist s) (l_temporary (cur s)) \<and> close_ok ops (hist s @ es1) (l_target (cur s)))"
  have "\<not> ok \<longrightarrow> \<not> clean ((hist s @ es1) @ es2)"
    using close_log_facts(2) unclean_append unfolding ok_def es1_def es2_def by blast
  moreover have "only_closes (es1 @ es2)"
    by (simp add: es1_def es2_def close_log_facts)
  ultimately have "finish_effect ok s (s\<lparr>hist := (hist s @ es1) @ es2,
      cur := (if ok then finished (cur s) else quarantine (finished (cur s)))\<rparr>)"
    unfolding finish_effect_def by (intro exI [of _ "es1 @ es2"]) simp
  then show ?thesis
    unfolding es1_def es2_def ok_def by (subst finish_run [OF refl refl refl]) blast
qed

lemma accounted_finish:
  assumes "accounted (hist s) (M + held (cur s))"
  shows "wp (finish ops) (\<lambda>r t. accounted (hist t) (M + held (finished (cur s)))) s"
proof -
  have "accounted (hist s) (hm (l_temporary (cur s)) + (hm (l_target (cur s)) + (M + held (finished (cur s)))))"
    using assms held_finished [of "cur s"] by (simp add: ac_simps)
  from accounted_close_log [OF accounted_close_log [OF this]] show ?thesis
    by (simp add: finish_run [OF refl refl refl])
qed

section \<open>Release closes every handle once\<close>

lemma wp_bind:
  assumes "wp m (\<lambda>r t. \<exists>x. r = Val x \<and> P x t) s" and "\<And>x t. P x t \<Longrightarrow> wp (f x) Q t"
  shows "wp (seq m f) Q s"
  unfolding wp_seq by (rule wp_mono [OF assms(1)]) (auto intro: assms(2))

text \<open>
  \<open>drained M ok s l ok' t\<close>: from \<open>s\<close> to \<open>t\<close> only closes were made, the lease became \<open>l\<close>, what
  is left to close is \<open>M\<close>, and the flag fell only after a failed close.
\<close>

definition drained ::
  "handle multiset \<Rightarrow> bool \<Rightarrow> 'x run_scheme \<Rightarrow> lease \<Rightarrow> bool \<Rightarrow> 'x run_scheme \<Rightarrow> bool" where
  "drained M ok s l ok' t \<longleftrightarrow> (ok' \<longrightarrow> ok) \<and> (ok \<and> \<not> ok' \<longrightarrow> \<not> clean (hist t)) \<and> accounted (hist t) M \<and>
     (\<exists>es. only_closes es \<and> t = s\<lparr>hist := hist s @ es, cur := l\<rparr>)"

lemma drained_refl: "accounted (hist s) M \<Longrightarrow> drained M ok s (cur s) ok s"
  by (auto simp: drained_def intro!: exI [of _ "[]"])

lemma drained_trans:
  assumes "drained N ok s l ok1 t" and "drained M ok1 t k ok2 u"
  shows "drained M ok s k ok2 u"
proof -
  obtain es where es: "only_closes es" "t = s\<lparr>hist := hist s @ es, cur := l\<rparr>"
    using assms(1) unfolding drained_def by blast
  obtain fs where fs: "only_closes fs" "u = t\<lparr>hist := hist t @ fs, cur := k\<rparr>"
    using assms(2) unfolding drained_def by blast
  have later: "\<not> clean (hist t) \<Longrightarrow> \<not> clean (hist u)"
    unfolding fs(2) using unclean_append [of "hist t" fs] by simp
  have "\<exists>gs. only_closes gs \<and> u = s\<lparr>hist := hist s @ gs, cur := k\<rparr>"
    using es fs by (intro exI [of _ "es @ fs"]) simp
  then show ?thesis
    using assms later unfolding drained_def by blast
qed

lemma drained_close:
  assumes "accounted (hist s) (hm h + M)" and "null_or_usable h"
  shows "wp (close_nonnull ops h) (\<lambda>r t. \<exists>c. r = Val c \<and> drained M ok s (cur s) (ok \<and> c) t) s"
proof (cases "h = 0")
  case True
  with assms show ?thesis
    by (auto simp: wp_simps intro!: exI [of _ True] drained_refl)
next
  case False
  with assms have "usable h" by (simp add: null_or_usable_def)
  then have "accounted (hist s @ [(Close h, ops (hist s) (Close h))]) M"
    using accounted_close [of "Close h" h "hist s" M] assms by simp
  with False show ?thesis
    by (auto simp: wp_simps Let_def drained_def intro!: exI [of _ "[(Close h, ops (hist s) (Close h))]"])
qed

text \<open>Slots whose pins a loop drains: clearing one nulls its pin and leaves the others alone.\<close>

locale drain =
  fixes pin :: "lease \<Rightarrow> nat \<Rightarrow> handle"
    and clear :: "nat \<Rightarrow> lease \<Rightarrow> lease"
  assumes pin_clear: "i \<noteq> j \<Longrightarrow> pin (clear i l) j = pin l j"
begin

lemma drains:
  fixes s :: "'x run_scheme"
  assumes "distinct js" and "\<forall>j \<in> set js. null_or_usable (pin (cur s) j)"
    and "accounted (hist s) (hms (map (pin (cur s)) js) + M)"
  shows "wp (release_each ops pin clear js ok)
    (\<lambda>r t. \<exists>ok'. r = Val ok' \<and> drained M ok s (fold clear js (cur s)) ok' t) s"
  using assms
proof (induction js arbitrary: s ok)
  case Nil
  then show ?case by (auto simp: wp_simps intro: drained_refl)
next
  case (Cons j js)
  let ?N = "hms (map (pin (cur s)) js) + M"
  have start: "accounted (hist s) (hm (pin (cur s) j) + ?N)" "null_or_usable (pin (cur s) j)"
    using Cons.prems by (simp_all add: add.assoc)
  show ?case
    unfolding release_each.simps wp_seq [of "lease_get _"] wp_lease_get res.case
  proof (rule wp_bind [OF drained_close [OF start, where ok = ok]])
    fix c and t :: "'x run_scheme"
    assume t: "drained ?N ok s (cur s) (ok \<and> c) t"
    define u where "u = t\<lparr>cur := clear j (cur t)\<rparr>"
    have cur_t: "cur t = cur s" and u: "cur u = clear j (cur s)" "hist u = hist t"
      using t by (auto simp: drained_def u_def)
    have same_at: "pin (cur u) k = pin (cur s) k" if "k \<in> set js" for k
      using that Cons.prems(1) pin_clear [of j k "cur s"] u(1) by auto
    then have same: "map (pin (cur u)) js = map (pin (cur s)) js" by simp
    have su: "drained ?N ok s (cur u) (ok \<and> c) u"
      using t unfolding drained_def u u_def by auto
    have "wp (release_each ops pin clear js (ok \<and> c))
        (\<lambda>r v. \<exists>ok'. r = Val ok' \<and> drained M (ok \<and> c) u (fold clear js (cur u)) ok' v) u"
    proof (rule Cons.IH)
      show "accounted (hist u) (hms (map (pin (cur u)) js) + M)"
        unfolding same using t unfolding u drained_def by blast
      show "\<forall>k \<in> set js. null_or_usable (pin (cur u) k)"
        using Cons.prems(2) by (simp add: same_at)
    qed (use Cons.prems in simp)
    then have "wp (release_each ops pin clear js (ok \<and> c))
        (\<lambda>r v. \<exists>ok'. r = Val ok' \<and> drained M ok s (fold clear (j # js) (cur s)) ok' v) u"
      by (rule wp_mono) (auto simp: u dest: drained_trans [OF su])
    then show "wp (seq (upd (clear j)) (\<lambda>_. release_each ops pin clear js (ok \<and> c)))
        (\<lambda>r v. \<exists>ok'. r = Val ok' \<and> drained M ok s (fold clear (j # js) (cur s)) ok' v) t"
      by (simp add: wp_simps u_def)
  qed
qed

end

interpretation read_slots: drain read_pin drop_read
  by unfold_locales (simp add: read_pin_def drop_read_def)

interpretation receipt_slots: drain receipt_pin drop_receipt
  by unfold_locales (simp add: receipt_pin_def drop_receipt_def)

lemma wp_release_pins:
  fixes s :: "'x run_scheme"
  assumes "distinct js" and "\<forall>j \<in> set js. j < length (l_pins (cur s))"
    and "accounted (hist s) (hms (map (\<lambda>j. pin_handle (l_pins (cur s) ! j)) js) + M)"
  shows "wp (release_pins ops js ok) (\<lambda>r t. \<exists>ok' ps. r = Val ok' \<and>
    length ps = length (l_pins (cur s)) \<and> drained M ok s ((cur s)\<lparr>l_pins := ps\<rparr>) ok' t) s"
  using assms
proof (induction js arbitrary: s ok)
  case Nil
  then show ?case
    using drained_refl [of s M ok] by (auto simp: wp_simps intro!: exI [of _ "l_pins (cur s)"])
next
  case (Cons j js)
  let ?pin = "\<lambda>l i. pin_handle (l_pins l ! i)"
  let ?h = "?pin (cur s) j"
  show ?case
  proof (cases "usable ?h")
    case False
    then show ?thesis
      using Cons.IH [of s ok] Cons.prems by (simp add: wp_simps)
  next
    case True
    define a where "a = ops (hist s) (Close ?h)"
    define l where "l = (if a_flag a then null_pin j (cur s) else cur s)"
    define u where "u = s\<lparr>hist := hist s @ [(Close ?h, a)], cur := l\<rparr>"
    have pins: "length (l_pins l) = length (l_pins (cur s))" "\<forall>i \<in> set js. ?pin l i = ?pin (cur s) i"
      using Cons.prems(1) by (auto simp: l_def null_pin_def) (metis nth_list_update_neq)
    have len: "l = (cur s)\<lparr>l_pins := l_pins l\<rparr>"
      by (simp add: l_def null_pin_def)
    have acc: "accounted (hist u) (hms (map (?pin l) js) + M)"
    proof -
      have same: "map (?pin l) js = map (?pin (cur s)) js" using pins(2) by simp
      have "accounted (hist s @ [(Close ?h, a)]) (hms (map (?pin (cur s)) js) + M)"
        using Cons.prems(3) True by (intro accounted_close [of "Close ?h" ?h]) (simp_all add: add.assoc)
      then show ?thesis unfolding same by (simp add: u_def)
    qed
    have step: "drained (hms (map (?pin l) js) + M) ok s l (ok \<and> a_flag a) u"
      using acc unfolding drained_def
      by (auto simp: u_def intro!: exI [of _ "[(Close ?h, a)]"])
    have "wp (release_pins ops js (ok \<and> a_flag a)) (\<lambda>r t. \<exists>ok' ps. r = Val ok' \<and>
        length ps = length (l_pins (cur u)) \<and> drained M (ok \<and> a_flag a) u ((cur u)\<lparr>l_pins := ps\<rparr>) ok' t) u"
      using Cons.prems pins acc by (intro Cons.IH) (auto simp: u_def)
    then have "wp (release_pins ops js (ok \<and> a_flag a)) (\<lambda>r t. \<exists>ok' ps. r = Val ok' \<and>
        length ps = length (l_pins (cur s)) \<and> drained M ok s ((cur s)\<lparr>l_pins := ps\<rparr>) ok' t) u"
    proof (rule wp_mono, elim exE conjE)
      fix r and t :: "'x run_scheme" and ok' ps
      assume "r = Val ok'" "length ps = length (l_pins (cur u))"
        "drained M (ok \<and> a_flag a) u ((cur u)\<lparr>l_pins := ps\<rparr>) ok' t"
      moreover have "(cur u)\<lparr>l_pins := ps\<rparr> = (cur s)\<lparr>l_pins := ps\<rparr>"
        using len by (simp add: u_def) (metis lease.update_convs(2) lease.surjective)
      ultimately show "\<exists>ok' ps. r = Val ok' \<and> length ps = length (l_pins (cur s)) \<and>
          drained M ok s ((cur s)\<lparr>l_pins := ps\<rparr>) ok' t"
        using drained_trans [OF step] pins(1) by (auto simp: u_def)
    qed
    moreover have "s\<lparr>hist := h, cur := cur s\<rparr> = s\<lparr>hist := h\<rparr>" for h by simp
    ultimately show ?thesis
      using True by (cases "a_flag a") (simp_all add: wp_simps a_def [symmetric] u_def l_def)
  qed
qed

lemma fold_update_prefix:
  "k \<le> length xs \<Longrightarrow> fold (\<lambda>i ys. ys[i := f (ys ! i)]) [0 ..< k] xs = map f (take k xs) @ drop k xs"
proof (induction k)
  case (Suc k)
  then have "drop k xs = xs ! k # drop (Suc k) xs"
    by (simp add: Cons_nth_drop_Suc)
  with Suc show ?case
    by (simp add: nth_append take_Suc_conv_app_nth list_update_append)
qed simp

lemma fold_drop_read:
  "fold drop_read js l = l\<lparr>l_reads := fold (\<lambda>i rs. rs[i := cleared_read (rs ! i)]) js (l_reads l)\<rparr>"
  by (induction js arbitrary: l) (simp_all add: drop_read_def)

lemma fold_drop_receipt:
  "fold drop_receipt js l = l\<lparr>l_receipts := fold (\<lambda>i rs. rs[i := cleared_receipt (rs ! i)]) js (l_receipts l)\<rparr>"
  by (induction js arbitrary: l) (simp_all add: drop_receipt_def)

lemma drop_all_reads:
  "fold drop_read [0 ..< length (l_reads l)] l = l\<lparr>l_reads := map cleared_read (l_reads l)\<rparr>"
  by (simp add: fold_drop_read fold_update_prefix)

lemma drop_all_receipts:
  "fold drop_receipt [0 ..< length (l_receipts l)] l = l\<lparr>l_receipts := map cleared_receipt (l_receipts l)\<rparr>"
  by (simp add: fold_drop_receipt fold_update_prefix)

text \<open>The lease after \<open>release\<close>, its pins and flags apart.\<close>

definition emptied :: "lease \<Rightarrow> lease" where
  "emptied l = (finished l)\<lparr>l_reads := map cleared_read (l_reads l),
     l_receipts := map cleared_receipt (l_receipts l),
     l_exchange := (l_exchange l)\<lparr>pin_handle := 0\<rparr>,
     l_discovery := (l_discovery l)\<lparr>pin_handle := 0\<rparr>\<rparr>"

definition released_lease :: "lease \<Rightarrow> pin list \<Rightarrow> bool \<Rightarrow> lease" where
  "released_lease l ps ok = (emptied l)\<lparr>l_pins := ps, l_denied := True, l_quarantined := \<not> ok\<rparr>"

lemma drained_close_usable:
  assumes "accounted (hist s) (hm h + M)"
  shows "wp (close_usable ops h) (\<lambda>r t. \<exists>c. r = Val c \<and> drained M ok s (cur s) (ok \<and> c) t) s"
proof (cases "usable h")
  case True
  then show ?thesis
    using drained_close [OF assms, of ops ok]
    by (cases "h = 0") (auto simp: wp_simps null_or_usable_def usable_def)
next
  case False
  with assms show ?thesis
    by (auto simp: wp_simps intro!: exI [of _ True] drained_refl)
qed

lemma drained_upd:
  "drained M ok s (cur t) ok' t \<Longrightarrow> drained M ok s (f (cur t)) ok' (t\<lparr>cur := f (cur t)\<rparr>)"
proof -
  assume a: "drained M ok s (cur t) ok' t"
  then obtain es where "only_closes es" "t = s\<lparr>hist := hist s @ es, cur := cur t\<rparr>"
    unfolding drained_def by blast
  then have "t\<lparr>cur := f (cur t)\<rparr> = s\<lparr>hist := hist s @ es, cur := f (cur t)\<rparr>"
    by (metis (no_types, lifting) run.update_convs(1) run.surjective)
  moreover have "hist (t\<lparr>cur := f (cur t)\<rparr>) = hist t" by simp
  ultimately show ?thesis
    using a \<open>only_closes es\<close> unfolding drained_def by metis
qed

lemma drained_cur: "drained M ok s l ok' t \<Longrightarrow> cur t = l"
  by (auto simp: drained_def)

lemma drained_accounted: "drained M ok s l ok' t \<Longrightarrow> accounted (hist t) M"
  by (simp add: drained_def)

lemma drained_finish:
  fixes s :: "'x run_scheme"
  assumes "accounted (hist s) (held (cur s) + M)"
  shows "wp (finish ops) (\<lambda>r t. \<exists>ok. r = Val ok \<and>
    drained (held (finished (cur s)) + M) True s
      (if ok then finished (cur s) else quarantine (finished (cur s))) ok t) s"
proof -
  have "wp (finish ops) (\<lambda>r t. (\<exists>ok. r = Val ok \<and> finish_effect ok s t) \<and>
      accounted (hist t) (M + held (finished (cur s)))) s"
    using wp_finish accounted_finish [of s M] assms by (simp add: wp_conj add.commute)
  then show ?thesis
  proof (rule wp_mono, elim exE conjE)
    fix r and t :: "'x run_scheme" and ok
    assume "r = Val ok" "finish_effect ok s t" "accounted (hist t) (M + held (finished (cur s)))"
    then show "\<exists>ok. r = Val ok \<and> drained (held (finished (cur s)) + M) True s
        (if ok then finished (cur s) else quarantine (finished (cur s))) ok t"
      unfolding drained_def finish_effect_def by (auto simp: add.commute)
  qed
qed

lemma indexed_pins: "map (\<lambda>i. f (xs ! i)) [0 ..< length xs] = map f xs"
  by (rule nth_equalityI) simp_all

lemma reads_portion:
  "hms (map (read_pin l) [0 ..< length (l_reads l)]) = hms (map x_pin (l_reads l))"
proof -
  have "read_pin l = (\<lambda>i. x_pin (l_reads l ! i))" by (rule ext) (rule read_pin_def)
  then show ?thesis by (simp only: indexed_pins)
qed

lemma receipts_portion:
  "hms (map (receipt_pin l) [0 ..< length (l_receipts l)]) = hms (map x_pin (l_receipts l))"
proof -
  have "receipt_pin l = (\<lambda>i. x_pin (l_receipts l ! i))" by (rule ext) (rule receipt_pin_def)
  then show ?thesis by (simp only: indexed_pins)
qed

lemma pins_portion:
  "hms (map (\<lambda>i. pin_handle (l_pins l ! i)) (rev [0 ..< length (l_pins l)])) = hms (map pin_handle (l_pins l))"
  by (simp only: rev_map [symmetric] hms_rev indexed_pins)

lemma drained_bind:
  assumes "drained N ok0 s l ok1 t"
    and "wp m (\<lambda>r u. \<exists>ok2. r = Val ok2 \<and> drained M ok1 t k ok2 u) t"
    and "\<And>ok2 u. drained M ok0 s k ok2 u \<Longrightarrow> wp (f ok2) Q u"
  shows "wp (seq m f) Q t"
  using assms(3) by (rule wp_bind [OF assms(2)]) (rule drained_trans [OF assms(1)])

lemma drains_reads:
  assumes "accounted (hist s) (hms (map x_pin (l_reads (cur s))) + M)" and "lease_wf (cur s)"
  shows "wp (release_reads ops ok) (\<lambda>r t. \<exists>ok'. r = Val ok' \<and>
    drained M ok s ((cur s)\<lparr>l_reads := map cleared_read (l_reads (cur s))\<rparr>) ok' t) s"
  using read_slots.drains [of "[0 ..< length (l_reads (cur s))]" s M ops ok] assms
  unfolding release_reads_def wp_seq wp_lease_get res.case reads_portion drop_all_reads
  by (auto simp: lease_wf_def read_pin_def)

lemma drains_receipts:
  assumes "accounted (hist s) (hms (map x_pin (l_receipts (cur s))) + M)" and "lease_wf (cur s)"
  shows "wp (release_receipts ops ok) (\<lambda>r t. \<exists>ok'. r = Val ok' \<and>
    drained M ok s ((cur s)\<lparr>l_receipts := map cleared_receipt (l_receipts (cur s))\<rparr>) ok' t) s"
  using receipt_slots.drains [of "[0 ..< length (l_receipts (cur s))]" s M ops ok] assms
  unfolding release_receipts_def wp_seq wp_lease_get res.case receipts_portion drop_all_receipts
  by (auto simp: lease_wf_def receipt_pin_def)

lemma drains_close:
  assumes "accounted (hist s) (hm h + M)"
  shows "wp (seq (close_usable ops h) (\<lambda>closed. seq (upd f) (\<lambda>_. ret (ok \<and> closed))))
    (\<lambda>r t. \<exists>ok'. r = Val ok' \<and> drained M ok s (f (cur s)) ok' t) s"
proof (rule wp_bind [OF drained_close_usable [OF assms, where ok = ok]])
  fix c t
  assume d: "drained M ok s (cur s) (ok \<and> c) t"
  then have "cur t = cur s" by (rule drained_cur)
  with drained_upd [of M ok s t "ok \<and> c" f] d
  show "wp (seq (upd f) (\<lambda>_. ret (ok \<and> c))) (\<lambda>r t. \<exists>ok'. r = Val ok' \<and> drained M ok s (f (cur s)) ok' t) t"
    by (simp add: wp_simps)
qed

lemma drains_exchange:
  "accounted (hist s) (hm (pin_handle (l_exchange (cur s))) + M) \<Longrightarrow>
   wp (release_exchange ops ok) (\<lambda>r t. \<exists>ok'. r = Val ok' \<and>
    drained M ok s ((cur s)\<lparr>l_exchange := (l_exchange (cur s))\<lparr>pin_handle := 0\<rparr>\<rparr>) ok' t) s"
  unfolding release_exchange_def wp_seq [of "lease_get _"] wp_lease_get res.case by (rule drains_close)

lemma drains_discovery:
  "accounted (hist s) (hm (pin_handle (l_discovery (cur s))) + M) \<Longrightarrow>
   wp (release_discovery ops ok) (\<lambda>r t. \<exists>ok'. r = Val ok' \<and>
    drained M ok s ((cur s)\<lparr>l_discovery := (l_discovery (cur s))\<lparr>pin_handle := 0\<rparr>\<rparr>) ok' t) s"
  unfolding release_discovery_def wp_seq [of "lease_get _"] wp_lease_get res.case by (rule drains_close)

lemma drains_pins:
  assumes "accounted (hist s) (hms (map pin_handle (l_pins (cur s))) + M)"
  shows "wp (release_all_pins ops ok) (\<lambda>r t. \<exists>ok' ps. r = Val ok' \<and>
    length ps = length (l_pins (cur s)) \<and> drained M ok s ((cur s)\<lparr>l_pins := ps\<rparr>) ok' t) s"
  using wp_release_pins [of "rev [0 ..< length (l_pins (cur s))]" s M ops ok] assms
  unfolding release_all_pins_def wp_seq wp_lease_get res.case pins_portion by simp

lemma held_finished_portions:
  "held (finished l) = hms (map x_pin (l_reads l)) + (hms (map x_pin (l_receipts l)) +
     (hm (pin_handle (l_exchange l)) + (hm (pin_handle (l_discovery l)) + hms (map pin_handle (l_pins l)))))"
  by (simp add: held_parts finished_def ac_simps)

lemma quarantine_fields [simp]:
  "l_reads (quarantine l) = l_reads l" "l_receipts (quarantine l) = l_receipts l"
  "l_exchange (quarantine l) = l_exchange l" "l_discovery (quarantine l) = l_discovery l"
  by (simp_all add: quarantine_def)

lemma finished_fields [simp]:
  "l_reads (finished l) = l_reads l" "l_receipts (finished l) = l_receipts l"
  "l_exchange (finished l) = l_exchange l" "l_discovery (finished l) = l_discovery l"
  by (simp_all add: finished_def)

lemma cleared_slots [simp]: "x_pin (cleared_read r) = 0" "x_pin (cleared_receipt c) = 0" "null_or_usable 0"
  by (simp_all add: cleared_read_def cleared_receipt_def null_or_usable_def)

text \<open>The stages in sequence: each one consumes its portion of what is left to close.\<close>

lemma portion:
  "drained (A + M) ok0 s l ok t \<Longrightarrow> A = g l \<Longrightarrow> accounted (hist t) (g (cur t) + M)"
  using drained_cur drained_accounted by metis

lemma after_reads:
  assumes d: "drained (A + M) ok0 s l ok1 t" and "A = hms (map x_pin (l_reads l))" and "lease_wf l"
    and "\<And>ok2 u. drained M ok0 s (l\<lparr>l_reads := map cleared_read (l_reads l)\<rparr>) ok2 u \<Longrightarrow> wp (f ok2) Q u"
  shows "wp (seq (release_reads ops ok1) f) Q t"
  using drains_reads [OF portion [OF d, where g = "\<lambda>l. hms (map x_pin (l_reads l))"], of ops ok1] assms
  by (intro drained_bind [OF d]) (auto simp: drained_cur [OF d])

lemma after_receipts:
  assumes d: "drained (A + M) ok0 s l ok1 t" and "A = hms (map x_pin (l_receipts l))" and "lease_wf l"
    and "\<And>ok2 u. drained M ok0 s (l\<lparr>l_receipts := map cleared_receipt (l_receipts l)\<rparr>) ok2 u \<Longrightarrow> wp (f ok2) Q u"
  shows "wp (seq (release_receipts ops ok1) f) Q t"
  using drains_receipts [OF portion [OF d, where g = "\<lambda>l. hms (map x_pin (l_receipts l))"], of ops ok1] assms
  by (intro drained_bind [OF d]) (auto simp: drained_cur [OF d])

lemma after_exchange:
  assumes d: "drained (A + M) ok0 s l ok1 t" and "A = hm (pin_handle (l_exchange l))"
    and "\<And>ok2 u. drained M ok0 s (l\<lparr>l_exchange := (l_exchange l)\<lparr>pin_handle := 0\<rparr>\<rparr>) ok2 u \<Longrightarrow> wp (f ok2) Q u"
  shows "wp (seq (release_exchange ops ok1) f) Q t"
  using drains_exchange [OF portion [OF d, where g = "\<lambda>l. hm (pin_handle (l_exchange l))"], of ops ok1] assms
  by (intro drained_bind [OF d]) (auto simp: drained_cur [OF d])

lemma after_discovery:
  assumes d: "drained (A + M) ok0 s l ok1 t" and "A = hm (pin_handle (l_discovery l))"
    and "\<And>ok2 u. drained M ok0 s (l\<lparr>l_discovery := (l_discovery l)\<lparr>pin_handle := 0\<rparr>\<rparr>) ok2 u \<Longrightarrow> wp (f ok2) Q u"
  shows "wp (seq (release_discovery ops ok1) f) Q t"
  using drains_discovery [OF portion [OF d, where g = "\<lambda>l. hm (pin_handle (l_discovery l))"], of ops ok1] assms
  by (intro drained_bind [OF d]) (auto simp: drained_cur [OF d])

lemma after_pins:
  assumes d: "drained (A + M) ok0 s l ok1 t" and "A = hms (map pin_handle (l_pins l))"
    and "\<And>ok2 ps u. length ps = length (l_pins l) \<Longrightarrow> drained M ok0 s (l\<lparr>l_pins := ps\<rparr>) ok2 u \<Longrightarrow> wp (f ok2) Q u"
  shows "wp (seq (release_all_pins ops ok1) f) Q t"
proof (rule wp_bind)
  show "wp (release_all_pins ops ok1) (\<lambda>r u. \<exists>ok'. r = Val ok' \<and>
      (\<exists>ps. length ps = length (l_pins l) \<and> drained M ok1 t (l\<lparr>l_pins := ps\<rparr>) ok' u)) t"
    using drains_pins [OF portion [OF d, where g = "\<lambda>l. hms (map pin_handle (l_pins l))"], of ops ok1] assms(2)
    by (simp add: drained_cur [OF d])
qed (use assms(3) drained_trans [OF d] in blast)

lemma wp_release:
  fixes s :: "'x run_scheme"
  assumes acc: "accounted (hist s) (held (cur s) + M)" and wf: "lease_wf (cur s)"
  shows "wp (release ops) (\<lambda>r t. \<exists>ok ps. r = Val ok \<and> length ps = length (l_pins (cur s)) \<and>
    drained M True s (released_lease (cur s) ps ok) ok t) s"
  unfolding release_def
proof (rule wp_bind [OF drained_finish [OF acc]], unfold held_finished_portions add.assoc, goal_cases)
  case (1 ok1 t)
  then show ?case
  proof (rule after_reads, goal_cases)
    case (3 ok2 u)
    then show ?case
    proof (rule after_receipts, goal_cases)
      case (3 ok3 v)
      then show ?case
      proof (rule after_exchange, goal_cases)
        case (2 ok4 w)
        then show ?case
        proof (rule after_discovery, goal_cases)
          case (2 ok5 x)
          then show ?case
          proof (rule after_pins, goal_cases)
            case (2 ok ps y)
            let ?f = "\<lambda>l. l\<lparr>l_denied := True, l_quarantined := \<not> ok\<rparr>"
            have "?f (cur y) = released_lease (cur s) ps ok"
              unfolding drained_cur [OF 2(2)] released_lease_def emptied_def finished_def
              by (simp add: quarantine_def split: if_split)
            moreover have "drained M True s (?f (cur y)) ok (y\<lparr>cur := ?f (cur y)\<rparr>)"
              using 2(2) drained_cur [OF 2(2)] by (intro drained_upd) simp
            ultimately show ?case
              using 2(1) by (auto simp: wp_simps split: if_splits)
          qed (simp split: if_split)
        qed (simp split: if_split)
      qed (simp split: if_split)
    qed (use wf in \<open>simp_all add: lease_wf_def split: if_split\<close>)
  qed (simp_all add: wf split: if_split)
qed

section \<open>Custody through the shared steps\<close>

lemma map_last_identity:
  "map pin_handle (map_last (\<lambda>p. p\<lparr>pin_identity := i\<rparr>) ps) = map pin_handle ps"
  by (cases ps rule: rev_cases) (simp_all add: map_last_def)

lemma push_pin_sel [simp]:
  "retained (push_pin b d l) = retained l" "lease_wf (push_pin b d l) = lease_wf l"
  "l_quarantined (push_pin b d l) = l_quarantined l" "loose_handles (push_pin b d l) = loose_handles l"
  "l_token (push_pin b d l) = l_token l" "l_role (push_pin b d l) = l_role l"
  by (auto simp: push_pin_def retained_def loose_handles_def pin_handles_def lease_wf_def empty_pin_def)

lemma set_last_pin_sel [simp]:
  "l_quarantined (set_last_pin f l) = l_quarantined l" "loose_handles (set_last_pin f l) = loose_handles l"
  "l_token (set_last_pin f l) = l_token l" "l_role (set_last_pin f l) = l_role l"
  "lease_wf (set_last_pin f l) = lease_wf l"
  by (simp_all add: set_last_pin_def loose_handles_def lease_wf_def)

lemma retained_last_identity [simp]: "retained (set_last_pin (\<lambda>p. p\<lparr>pin_identity := i\<rparr>) l) = retained l"
  by (simp add: retained_def pin_handles_def) (simp add: set_last_pin_def map_last_identity)

lemma finished_portions: "retained l = hm (l_temporary l) + (hm (l_target l) + retained (finished l))"
  by (simp add: retained_def finished_def loose_handles_def pin_handles_def union_ac)

context frame
begin

lemma pres_custody_check: "pres (custody F) (check_lease ops)"
  by (rule pres_check_lease) (simp_all add: custody_quiet, simp add: custody_def)

text \<open>Quarantine after a failed close gives up the pins.\<close>

lemma custody_quarantine:
  assumes "custody F s" and "\<not> clean (hist s)"
  shows "custody F (s\<lparr>cur := quarantine (cur s)\<rparr>)"
proof -
  have "accounted (hist s) ((if l_quarantined (cur s) then {#} else hms (pin_handles (cur s))) +
      (F s + retained (quarantine (cur s))))"
    using assms(1) retained_split [of "cur s"] by (simp add: custody_def ac_simps)
  then have "accounted (hist s) (F s + retained (quarantine (cur s)))"
    using assms(2) by (auto dest: accounted_weaken)
  then show ?thesis using assms by (simp add: custody_def)
qed

lemma custody_finish:
  assumes "custody F s"
  shows "wp (finish ops) (\<lambda>r t. custody F t) s"
proof -
  define es1 where "es1 = hist s @ close_log ops (hist s) (l_temporary (cur s))"
  define es2 where "es2 = es1 @ close_log ops es1 (l_target (cur s))"
  define ok where "ok = (close_ok ops (hist s) (l_temporary (cur s)) \<and> close_ok ops es1 (l_target (cur s)))"
  define t where "t = s\<lparr>hist := es2, cur := finished (cur s)\<rparr>"
  have "accounted (hist s) (hm (l_temporary (cur s)) + (hm (l_target (cur s)) + (F s + retained (finished (cur s)))))"
    using assms finished_portions [of "cur s"] by (simp add: custody_def ac_simps)
  from accounted_close_log [OF accounted_close_log [OF this]]
  have "accounted es2 (F s + retained (finished (cur s)))"
    by (simp add: es1_def es2_def)
  moreover have "clean es2 \<Longrightarrow> clean (hist s)"
    using unclean_append unfolding es1_def es2_def by blast
  ultimately have "custody F t"
    using assms by (auto simp: custody_def t_def)
  moreover have "\<not> clean (hist t)" if bad: "\<not> ok"
  proof -
    consider "\<not> close_ok ops (hist s) (l_temporary (cur s))" | "\<not> close_ok ops es1 (l_target (cur s))"
      using bad ok_def by blast
    then have "\<not> clean es2"
    proof cases
      case 1
      then have "\<not> clean es1" unfolding es1_def by (rule close_log_facts)
      then show ?thesis unfolding es2_def by (rule unclean_append)
    next
      case 2
      then show ?thesis unfolding es2_def by (rule close_log_facts)
    qed
    then show ?thesis by (simp add: t_def)
  qed
  ultimately have "custody F (s\<lparr>hist := es2, cur := (if ok then finished (cur s) else quarantine (finished (cur s)))\<rparr>)"
    using custody_quarantine [of t] by (cases ok) (simp_all add: t_def)
  then show ?thesis
    unfolding finish_run [OF es1_def es2_def ok_def] .
qed

text \<open>A pin pushed and opened in one go: the handle it is given is the one the lease then holds.\<close>

lemma custody_push: "custody F s \<Longrightarrow> custody F (s\<lparr>cur := push_pin b d (cur s)\<rparr>)"
  by (simp add: custody_def)

lemma custody_last_identity:
  "custody F s \<Longrightarrow> custody F (s\<lparr>cur := set_last_pin (\<lambda>p. p\<lparr>pin_identity := i\<rparr>) (cur s)\<rparr>)"
  by (simp add: custody_def)

lemma custody_open_last:
  assumes "custody F s" and "opener c" and "l_pins (cur s) = ps @ [p]" and "pin_handle p = 0"
    and "\<not> l_quarantined (cur s)"
  shows "custody F (s\<lparr>hist := hist s @ [(c, a)],
    cur := set_last_pin (\<lambda>p. p\<lparr>pin_handle := a_handle a\<rparr>) (cur s)\<rparr>)"
proof -
  have "accounted (hist s @ [(c, a)]) (hm (a_handle a) + (F s + retained (cur s)))"
    using assms(1,2) by (simp add: custody_def accounted_open)
  moreover have "retained (set_last_pin (\<lambda>p. p\<lparr>pin_handle := a_handle a\<rparr>) (cur s)) =
      hm (a_handle a) + retained (cur s)"
    using assms(3-5)
    by (simp add: retained_def set_last_pin_def map_last_def loose_handles_def pin_handles_def)
  ultimately show ?thesis
    using assms by (simp add: custody_def set_last_pin_def lease_wf_def ac_simps)
qed

end

interpretation alone: frame "\<lambda>_. R" for R
  by unfold_locales simp_all

end
