(* ===== verification/Owner_Custody.thy ===== *)
theory Owner_Custody
  imports Owner_Leases "HOL-Library.Sublist"
begin

text \<open>
  The system view of \<open>ProtectedObjects\<close>: an invariant over its 32 owner slots, the counters
  and the history of calls, kept by acquiring, validating, closing and destroying, with the
  accounting of every operating-system handle at its core.
\<close>

section \<open>The invariant of the owners\<close>

definition slot_share :: "lease option \<Rightarrow> handle multiset" where
  "slot_share slot = (case slot of None \<Rightarrow> {#} | Some l \<Rightarrow> retained l)"

definition share :: "lease option list \<Rightarrow> handle multiset" where
  "share slots = sum_list (map slot_share slots)"

text \<open>Between two operations no temporary is open, and a target only under a ticket.\<close>

definition idle :: "lease \<Rightarrow> bool" where
  "idle l \<longleftrightarrow> l_temporary l = 0 \<and> null_or_usable (l_target l) \<and> (l_ticket l = 0 \<longrightarrow> l_target l = 0)"

definition lease_inv :: "event list \<Rightarrow> u64 \<Rightarrow> lease \<Rightarrow> bool" where
  "lease_inv h next l \<longleftrightarrow> lease_wf l \<and> idle l \<and> (l_quarantined l \<longrightarrow> \<not> clean h) \<and>
     0 < l_token l \<and> l_token l < next \<and> (l_role l = ROLE_APP \<or> l_role l = ROLE_BRIDGE)"

lemma lease_inv_later: "lease_inv h next l \<Longrightarrow> lease_inv (h @ es) next l"
  unfolding lease_inv_def using unclean_append [of h es] by blast

definition distinct_tokens :: "lease option list \<Rightarrow> bool" where
  "distinct_tokens slots \<longleftrightarrow> (\<forall>i j l k. i < length slots \<longrightarrow> j < length slots \<longrightarrow>
     slots ! i = Some l \<longrightarrow> slots ! j = Some k \<longrightarrow> l_token l = l_token k \<longrightarrow> i = j)"

definition objects_inv :: "objects \<Rightarrow> bool" where
  "objects_inv s \<longleftrightarrow> length (o_owners s) = max_owners \<and> 0 < o_next_token s \<and> 0 < o_next_ticket s \<and>
     o_next_token s \<le> INT64_MAX + 1 \<and>
     accounted (o_hist s) (share (o_owners s)) \<and>
     (\<forall>l. Some l \<in> set (o_owners s) \<longrightarrow> lease_inv (o_hist s) (o_next_token s) l) \<and>
     distinct_tokens (o_owners s)"

lemma share_empty [simp]: "share (replicate n None) = {#}"
  by (induction n) (simp_all add: share_def slot_share_def)

lemma objects_inv_new: "accounted h {#} \<Longrightarrow> objects_inv (new_objects b h m)"
  by (simp add: objects_inv_def new_objects_def distinct_tokens_def INT64_MAX_def)

lemma distinct_tokens_sub:
  assumes "distinct_tokens slots" and "length slots' = length slots"
    and sub: "\<And>c m. c < length slots \<Longrightarrow> slots' ! c = Some m \<Longrightarrow>
      \<exists>l. slots ! c = Some l \<and> l_token l = l_token m"
  shows "distinct_tokens slots'"
  unfolding distinct_tokens_def
proof (intro allI impI)
  fix i j l k
  assume "i < length slots'" "j < length slots'" "slots' ! i = Some l" "slots' ! j = Some k"
    "l_token l = l_token k"
  moreover from this obtain l' k' where "slots ! i = Some l'" "l_token l' = l_token l"
    "slots ! j = Some k'" "l_token k' = l_token k"
    using sub [of i l] sub [of j k] assms(2) by auto
  ultimately show "i = j" using assms(1,2) unfolding distinct_tokens_def by metis
qed

lemma share_split:
  "i < length slots \<Longrightarrow> share slots = slot_share (slots ! i) + share (slots[i := None])"
  unfolding share_def
proof (induction slots arbitrary: i)
  case (Cons x xs)
  then show ?case by (cases i) (simp_all add: slot_share_def union_ac)
qed simp

lemma share_update:
  "i < length slots \<Longrightarrow> share (slots[i := x]) = slot_share x + share (slots[i := None])"
  using share_split [of i "slots[i := x]"] by simp

definition others :: "nat \<Rightarrow> objects \<Rightarrow> handle multiset" where
  "others i s = share ((o_owners s)[i := None])"

lemma find_index_Some: "find_index P xs = Some i \<Longrightarrow> i < length xs \<and> P (xs ! i)"
  by (induction xs arbitrary: i) (auto split: if_splits)

lemma find_index_None: "find_index P xs = None \<Longrightarrow> \<forall>x \<in> set xs. \<not> P x"
  by (induction xs) (auto split: if_splits)

lemma find_owner_Some:
  "find_owner token s = Some i \<Longrightarrow> i < length (o_owners s) \<and> o_owners s ! i = Some (owner_at s i) \<and>
     l_token (owner_at s i) = token"
  using find_index_Some [of "holds_token token" "o_owners s" i]
  by (auto simp: find_owner_def holds_token_def owner_at_def split: option.splits)

lemma owner_inv:
  assumes "objects_inv s" and "i < length (o_owners s)" and "o_owners s ! i = Some (owner_at s i)"
  shows "lease_inv (o_hist s) (o_next_token s) (owner_at s i)"
  using assms nth_mem [of i "o_owners s"] by (auto simp: objects_inv_def)

text \<open>What an operation on the lease of slot \<open>i\<close> must establish before it leaves.\<close>

definition settled :: "nat \<Rightarrow> objects \<Rightarrow> 'x run_scheme \<Rightarrow> bool" where
  "settled i s r \<longleftrightarrow> accounted (hist r) (retained (cur r) + others i s) \<and> lease_wf (cur r) \<and>
     idle (cur r) \<and> (l_quarantined (cur r) \<longrightarrow> \<not> clean (hist r)) \<and>
     l_token (cur r) = l_token (owner_at s i) \<and> l_role (cur r) = l_role (owner_at s i) \<and>
     prefix (o_hist s) (hist r) \<and> 0 < next_ticket r"

lemma objects_inv_leave:
  assumes inv: "objects_inv s" and i: "i < length (o_owners s)" "o_owners s ! i = Some (owner_at s i)"
    and r: "settled i s r"
  shows "objects_inv (leave i r s)"
proof -
  obtain es where es: "hist r = o_hist s @ es" using r by (auto simp: settled_def prefix_def)
  have old: "lease_inv (o_hist s) (o_next_token s) (owner_at s i)"
    by (rule owner_inv [OF inv i])
  have mine: "lease_inv (hist r) (o_next_token s) (cur r)"
    using old r by (simp add: lease_inv_def settled_def)
  have keep: "lease_inv (hist r) (o_next_token s) l" if "Some l \<in> set (o_owners s)" for l
  proof -
    have "lease_inv (o_hist s) (o_next_token s) l" using inv that by (simp add: objects_inv_def)
    then show ?thesis unfolding es by (rule lease_inv_later)
  qed
  have "\<forall>l. Some l \<in> set ((o_owners s)[i := Some (cur r)]) \<longrightarrow> lease_inv (hist r) (o_next_token s) l"
  proof (intro allI impI)
    fix l assume "Some l \<in> set ((o_owners s)[i := Some (cur r)])"
    with set_update_subset_insert [of "o_owners s" i "Some (cur r)"]
    have "l = cur r \<or> Some l \<in> set (o_owners s)" by auto
    then show "lease_inv (hist r) (o_next_token s) l" using mine keep by auto
  qed
  moreover have "accounted (hist r) (share ((o_owners s)[i := Some (cur r)]))"
    using r share_update [OF i(1), of "Some (cur r)"] by (simp add: settled_def others_def slot_share_def)
  moreover have "distinct_tokens ((o_owners s)[i := Some (cur r)])"
  proof (rule distinct_tokens_sub [where slots = "o_owners s"])
    fix c m assume "c < length (o_owners s)" "(o_owners s)[i := Some (cur r)] ! c = Some m"
    then show "\<exists>l. o_owners s ! c = Some l \<and> l_token l = l_token m"
      using i r by (cases "c = i") (auto simp: settled_def)
  qed (use inv in \<open>simp_all add: objects_inv_def\<close>)
  ultimately show ?thesis
    using inv r by (simp add: objects_inv_def leave_def settled_def)
qed

lemma objects_inv_forget:
  assumes inv: "objects_inv s" and i: "i < length (o_owners s)"
    and r: "accounted (hist r) (others i s)" "hist r = o_hist s @ es" "0 < next_ticket r"
  shows "objects_inv (forget i (leave i r s))"
proof -
  have "lease_inv (hist r) (o_next_token s) l" if "Some l \<in> set ((o_owners s)[i := None])" for l
  proof -
    have "Some l \<in> set (o_owners s)"
      using that set_update_subset_insert [of "o_owners s" i None] by auto
    then have "lease_inv (o_hist s) (o_next_token s) l" using inv by (simp add: objects_inv_def)
    then show ?thesis unfolding r(2) by (rule lease_inv_later)
  qed
  moreover have "distinct_tokens ((o_owners s)[i := None])"
  proof (rule distinct_tokens_sub [where slots = "o_owners s"])
    fix c m assume "c < length (o_owners s)" "(o_owners s)[i := None] ! c = Some m"
    then show "\<exists>l. o_owners s ! c = Some l \<and> l_token l = l_token m"
      by (cases "c = i") auto
  qed (use inv in \<open>simp_all add: objects_inv_def\<close>)
  ultimately show ?thesis
    using inv r(1,3) by (simp add: objects_inv_def leave_def forget_def others_def)
qed

lemma objects_inv_mem [simp]: "objects_inv (o_write f s) = objects_inv s"
  by (simp add: objects_inv_def o_write_def)

lemma objects_inv_ticket: "objects_inv s \<Longrightarrow> 0 < o_next_ticket s"
  by (simp add: objects_inv_def)

text \<open>On entry the lease and the other slots account for every open handle.\<close>

lemma enter_custody:
  assumes "objects_inv s" and "i < length (o_owners s)" "o_owners s ! i = Some (owner_at s i)"
  shows "custody (\<lambda>_. others i s) (enter i s)"
proof -
  have "accounted (o_hist s) (share (o_owners s))" using assms(1) by (simp add: objects_inv_def)
  then have "accounted (o_hist s) (retained (owner_at s i) + others i s)"
    using share_split [OF assms(2)] assms(3) by (simp add: others_def slot_share_def)
  then show ?thesis
    using owner_inv [OF assms] by (simp add: custody_def enter_def lease_inv_def add.commute)
qed

section \<open>Every owner operation keeps the invariant\<close>

text \<open>
  \<open>steady R s r\<close>: from \<open>s\<close> to \<open>r\<close> custody held throughout and the lease kept its token, role,
  ticket and loose handles; what \<open>acquire\<close> and \<open>validate\<close> do to a lease.
\<close>

definition steady :: "handle multiset \<Rightarrow> run \<Rightarrow> run \<Rightarrow> bool" where
  "steady R s r \<longleftrightarrow> custody (\<lambda>_. R) r \<and> l_quarantined (cur r) = l_quarantined (cur s) \<and>
     loose_handles (cur r) = loose_handles (cur s) \<and> l_ticket (cur r) = l_ticket (cur s) \<and>
     l_token (cur r) = l_token (cur s) \<and> l_role (cur r) = l_role (cur s) \<and>
     prefix (hist s) (hist r) \<and> next_ticket r = next_ticket s"

lemma steady_refl: "custody (\<lambda>_. R) s \<Longrightarrow> steady R s s"
  by (simp add: steady_def)

lemma steady_quiet:
  "\<not> opener c \<Longrightarrow> closes c = None \<Longrightarrow> steady R s r \<Longrightarrow> steady R s (r\<lparr>hist := hist r @ [(c, a)]\<rparr>)"
  using alone.custody_quiet [of c R r a] by (auto simp: steady_def)

lemma steady_denied: "steady R s r \<Longrightarrow> steady R s (r\<lparr>cur := (cur r)\<lparr>l_denied := b\<rparr>\<rparr>)"
  by (simp add: steady_def custody_def loose_handles_def)

lemma steady_push: "steady R s r \<Longrightarrow> steady R s (r\<lparr>cur := push_pin b d (cur r)\<rparr>)"
  using alone.custody_push [of R r b d] by (simp add: steady_def) (simp add: push_pin_def)

lemma pres_steady_inspect: "pres (steady R s) (inspect_pins ops sid)"
  by (rule pres_inspect_pins) (simp add: steady_quiet)

lemma steady_open_last:
  assumes st: "steady R s r" and "opener c" and "l_pins (cur r) = ps @ [p]" "pin_handle p = 0"
    and q: "\<not> l_quarantined (cur s)"
  shows "wp (open_last ops c) (\<lambda>x t. steady R s t) r"
proof -
  define a where "a = ops (hist r) c"
  define r1 where "r1 = r\<lparr>hist := hist r @ [(c, a)],
    cur := set_last_pin (\<lambda>p. p\<lparr>pin_handle := a_handle a\<rparr>) (cur r)\<rparr>"
  have "custody (\<lambda>_. R) r1"
    unfolding r1_def using st q assms(2-4)
    by (intro alone.custody_open_last) (simp_all add: steady_def)
  then have s1: "steady R s r1"
    using st by (simp add: steady_def r1_def prefix_snoc) (simp add: set_last_pin_def)
  define b where "b = ops (hist r1) (Inspect (a_handle a))"
  define r2 where "r2 = r1\<lparr>hist := hist r1 @ [(Inspect (a_handle a), b)]\<rparr>"
  define r3 where "r3 = r2\<lparr>cur := set_last_pin (\<lambda>p. p\<lparr>pin_identity := a_info b\<rparr>) (cur r2)\<rparr>"
  have s2: "steady R s r2" unfolding r2_def by (rule steady_quiet [OF _ _ s1]) simp_all
  then have s3: "steady R s r3"
    using alone.custody_last_identity [of R r2 "a_info b"]
    by (simp add: steady_def r3_def) (simp add: set_last_pin_def)
  have r1': "r\<lparr>hist := hist r @ [(c, a)], cur := set_last_pin (\<lambda>p. p\<lparr>pin_handle := a_handle a\<rparr>) (cur r)\<rparr> = r1"
    by (simp add: r1_def)
  show ?thesis
    unfolding open_last_def
    using s1 s3 by (simp add: wp_simps a_def [symmetric] r1' b_def [symmetric] r2_def [symmetric]
        r3_def [symmetric])
qed

lemma pres_steady_push_open:
  assumes "opener c" and "\<not> l_quarantined (cur s)" and rest: "\<And>x. pres (steady R s) (f x)"
  shows "pres (steady R s) (seq (upd (push_pin b d)) (\<lambda>_. seq (open_last ops c) f))"
proof (rule pres_wp)
  fix r assume "steady R s r"
  then have "steady R s (r\<lparr>cur := push_pin b d (cur r)\<rparr>)" by (rule steady_push)
  then have "wp (open_last ops c) (\<lambda>x t. steady R s t) (r\<lparr>cur := push_pin b d (cur r)\<rparr>)"
    using assms by (intro steady_open_last [where ps = "l_pins (cur r)"])
      (auto simp: push_pin_def empty_pin_def)
  then show "wp (seq (upd (push_pin b d)) (\<lambda>_. seq (open_last ops c) f)) (\<lambda>x t. steady R s t) r"
    unfolding wp_seq wp_upd res.case
    by (rule wp_mono) (auto split: res.splits intro: wp_pres [OF rest])
qed

lemma pres_steady_perform:
  "\<not> opener c \<Longrightarrow> closes c = None \<Longrightarrow> pres (steady R s) (perform ops c)"
  by (rule pres_perform) (rule steady_quiet)

lemma pres_steady_add:
  "\<not> l_quarantined (cur s) \<Longrightarrow> pres (steady R s) (add ops i parent name directory sid dacl create)"
  unfolding add_def
  by (intro pres_intros pres_steady_inspect pres_steady_push_open) (auto intro!: pres_intros)

lemma pres_steady_chain:
  assumes "\<not> l_quarantined (cur s)"
  shows "pres (steady R s) (acquire_chain ops i role)"
  unfolding acquire_chain_def acquire_root_def acquire_stores_def add_last_def add_under_def
  by (intro pres_intros pres_steady_add pres_steady_inspect pres_steady_perform pres_steady_push_open)
    (simp_all add: assms)

lemma pres_steady_validate: "pres (steady R s) (validate_chain ops)"
  unfolding validate_chain_def
  by (intro pres_intros pres_steady_inspect pres_steady_perform pres_upd steady_denied) simp_all

lemma steady_settled:
  assumes "steady (others i s) (enter i s) r" and "idle (owner_at s i)" and "lease_wf (owner_at s i)"
    and "0 < o_next_ticket s"
  shows "settled i s r"
proof -
  have "loose_handles (cur r) = loose_handles (owner_at s i)"
    using assms(1) by (simp add: steady_def enter_def)
  then have "l_temporary (cur r) = l_temporary (owner_at s i)" "l_target (cur r) = l_target (owner_at s i)"
    by (simp_all add: loose_handles_def)
  then show ?thesis
    using assms by (simp add: settled_def steady_def custody_def enter_def idle_def add.commute)
qed

theorem validate_keeps_inv:
  assumes "objects_inv s"
  shows "objects_inv (snd (validate ops version token s))"
proof -
  have "objects_inv (leave i r s)" if "find_owner token s = Some i" "validate_chain ops (enter i s) = (x, r)" for i x r
  proof -
    note f = find_owner_Some [OF that(1)]
    have "steady (others i s) (enter i s) (enter i s)"
      using enter_custody assms f by (intro steady_refl) blast
    then have "steady (others i s) (enter i s) r"
      using presD [OF pres_steady_validate] that(2) by blast
    then have "settled i s r"
      using owner_inv [OF assms, of i] f assms by (intro steady_settled) (auto simp: lease_inv_def objects_inv_def)
    then show ?thesis using objects_inv_leave assms f by blast
  qed
  then show ?thesis
    using assms by (auto simp: validate_def split: option.splits prod.splits)
qed

lemma released_settled:
  assumes inv: "objects_inv s" and i: "i < length (o_owners s)" "o_owners s ! i = Some (owner_at s i)"
    and st: "steady (others i s) (enter i s) r0" and q: "\<not> l_quarantined (owner_at s i)"
    and run: "release ops r0 = (x, r)"
  obtains ok where "x = Val ok" "accounted (hist r) (others i s)" "prefix (o_hist s) (hist r)" "0 < next_ticket r"
    "clean (hist r) \<longrightarrow> ok" "\<not> ok \<Longrightarrow> settled i s r \<and> l_quarantined (cur r) \<and> l_denied (cur r)"
proof -
  have q0: "\<not> l_quarantined (cur r0)" using st q by (simp add: steady_def enter_def)
  have acc: "accounted (hist r0) (held (cur r0) + others i s)" and wf: "lease_wf (cur r0)"
    using st retained_held [OF q0] by (simp_all add: steady_def custody_def add.commute)
  obtain ok ps where x: "x = Val ok" and d: "drained (others i s) True r0 (released_lease (cur r0) ps ok) ok r"
    using wp_run [OF wp_release [OF acc wf] run] by blast
  have cur: "cur r = released_lease (cur r0) ps ok" by (rule drained_cur [OF d])
  have acc': "accounted (hist r) (others i s)" by (rule drained_accounted [OF d])
  have ext: "prefix (o_hist s) (hist r)"
    using d st by (auto simp: drained_def steady_def enter_def intro: prefix_order.trans)
  have bad: "\<not> ok \<longrightarrow> \<not> clean (hist r)" using d by (simp add: drained_def)
  have nt: "0 < next_ticket r"
    using d st inv by (auto simp: drained_def steady_def enter_def objects_inv_def)
  have loose: "hms (loose_handles (cur r)) = {#}"
    by (rule hms_zero) (auto simp: cur released_lease_def emptied_def finished_def loose_handles_def)
  have "lease_wf (cur r)" "idle (cur r)" "l_token (cur r) = l_token (owner_at s i)"
    "l_role (cur r) = l_role (owner_at s i)" "l_denied (cur r)" "l_quarantined (cur r) = (\<not> ok)"
    using wf st by (simp_all add: cur released_lease_def emptied_def finished_def lease_wf_def idle_def
        steady_def enter_def)
  moreover have "accounted (hist r) (retained (cur r) + others i s)" if "\<not> ok"
    using acc' loose that by (simp add: retained_def) (simp add: cur released_lease_def)
  ultimately have "\<not> ok \<Longrightarrow> settled i s r \<and> l_quarantined (cur r) \<and> l_denied (cur r)"
    using ext bad nt by (simp add: settled_def)
  then show ?thesis using x acc' ext bad nt by (intro that [of ok]) auto
qed

theorem close_keeps_inv:
  assumes inv: "objects_inv s"
  shows "objects_inv (snd (close_owner ops version token s))"
proof (cases "find_owner token s")
  case (Some i)
  note f = find_owner_Some [OF Some]
  have st: "steady (others i s) (enter i s) (enter i s)"
    using enter_custody inv f by (intro steady_refl) blast
  obtain x r where run: "release ops (enter i s) = (x, r)" by (cases "release ops (enter i s)")
  show ?thesis
  proof (cases "l_quarantined (owner_at s i)")
    case False
    obtain ok where "x = Val ok" "accounted (hist r) (others i s)" "prefix (o_hist s) (hist r)"
      "0 < next_ticket r" "\<not> ok \<Longrightarrow> settled i s r"
      using released_settled [OF inv _ _ st False run] f by blast
    then show ?thesis
      using inv f Some run objects_inv_leave [OF inv, of i r] objects_inv_forget [OF inv, of i r]
      by (auto simp: close_owner_def prefix_def)
  qed (use inv Some in \<open>simp add: close_owner_def\<close>)
qed (use inv in \<open>simp add: close_owner_def\<close>)

subsection \<open>Acquisition\<close>

lemma new_lease_sel [simp]:
  "retained (new_lease token role) = {#}" "lease_wf (new_lease token role)" "idle (new_lease token role)"
  "\<not> l_quarantined (new_lease token role)" "l_token (new_lease token role) = token"
  "l_role (new_lease token role) = role"
proof -
  have "\<forall>h \<in> set (loose_handles (new_lease token role)). h = 0"
    by (auto simp: new_lease_def loose_handles_def empty_pin_def empty_read_def empty_receipt_def)
  then have "hms (loose_handles (new_lease token role)) = {#}" by (rule hms_zero)
  then show "retained (new_lease token role) = {#}"
    by (simp add: retained_def pin_handles_def) (simp add: new_lease_def)
  show "lease_wf (new_lease token role)" "idle (new_lease token role)"
    "\<not> l_quarantined (new_lease token role)" "l_token (new_lease token role) = token"
    "l_role (new_lease token role) = role"
    by (simp_all add: lease_wf_def idle_def new_lease_def empty_read_def empty_receipt_def)
qed

lemma next_token_later:
  "t < n \<Longrightarrow> n \<le> INT64_MAX \<Longrightarrow> t < n + 1 \<and> 0 < n + 1 \<and> n + 1 \<le> INT64_MAX + 1" for n t :: u64
  by (auto simp: INT64_MAX_def word_less_nat_alt word_le_nat_alt unat_word_ariths)

lemma objects_inv_claim:
  assumes inv: "objects_inv s" and i: "i < length (o_owners s)" "o_owners s ! i = None"
    and n: "o_next_token s \<le> INT64_MAX" and role: "role = ROLE_APP \<or> role = ROLE_BRIDGE"
  shows "objects_inv (claim_slot i role s)"
proof -
  let ?l = "new_lease (o_next_token s) role"
  let ?slots = "(o_owners s)[i := Some ?l]"
  have pos: "0 < o_next_token s" using inv by (simp add: objects_inv_def)
  have leases: "lease_inv (o_hist s) (o_next_token s + 1) l" if "Some l \<in> set ?slots" for l
  proof -
    have "l = ?l \<or> Some l \<in> set (o_owners s)"
      using that set_update_subset_insert [of "o_owners s" i "Some ?l"] by auto
    then show ?thesis
    proof
      assume "Some l \<in> set (o_owners s)"
      then have "lease_inv (o_hist s) (o_next_token s) l" using inv by (simp add: objects_inv_def)
      then show ?thesis
        using next_token_later [OF _ n, of "l_token l"] by (auto simp: lease_inv_def)
    next
      assume "l = ?l"
      then show ?thesis using pos role next_token_later [OF pos n] n
        by (auto simp: lease_inv_def INT64_MAX_def word_less_nat_alt word_le_nat_alt unat_word_ariths)
    qed
  qed
  have fresh: "l_token l < o_next_token s" if "j < length (o_owners s)" "o_owners s ! j = Some l" for j l
    using that inv nth_mem [of j "o_owners s"] by (auto simp: objects_inv_def lease_inv_def)
  have "distinct_tokens ?slots"
    unfolding distinct_tokens_def
  proof (intro allI impI)
    fix a b l k
    assume ab: "a < length ?slots" "b < length ?slots" "?slots ! a = Some l" "?slots ! b = Some k"
      "l_token l = l_token k"
    show "a = b"
    proof (cases "a = i \<or> b = i")
      case True
      then show ?thesis using ab fresh [of b k] fresh [of a l] i(1) by (auto simp: nth_list_update split: if_splits)
    next
      case False
      then show ?thesis using ab inv unfolding objects_inv_def distinct_tokens_def by auto
    qed
  qed
  moreover have "share ?slots = share (o_owners s)"
    using share_update [OF i(1), of "Some ?l"] share_split [OF i(1)] i(2) by (simp add: slot_share_def)
  ultimately show ?thesis
    using inv leases next_token_later [OF pos n] by (simp add: objects_inv_def claim_slot_def)
qed

text \<open>\<open>acquire\<close> in terms of the claimed slot.\<close>

lemma acquire_cases:
  obtains (refused) st s' where "acquire ops version role token s = (st, s')" "st \<noteq> OK"
      "s' = s \<or> s' = o_write (store64 token 0) s"
  | (kept) i e r s1 where "i < length (o_owners s)" "o_owners s ! i = None" "o_next_token s \<le> INT64_MAX"
      "role = ROLE_APP \<or> role = ROLE_BRIDGE" "s1 = o_write (store64 token 0) s"
      "acquire_chain ops (o_initialize s) role (enter i (claim_slot i role s1)) = (e, r)" "settle e = OK"
      "acquire ops version role token s =
        (OK, o_write (store64 token (l_token (cur r))) (leave i r (claim_slot i role s1)))"
  | (given_up) i e r x r' s1 where "i < length (o_owners s)" "o_owners s ! i = None"
      "o_next_token s \<le> INT64_MAX" "role = ROLE_APP \<or> role = ROLE_BRIDGE" "s1 = o_write (store64 token 0) s"
      "acquire_chain ops (o_initialize s) role (enter i (claim_slot i role s1)) = (e, r)"
      "settle e \<noteq> OK" "release ops r = (x, r')"
      "acquire ops version role token s =
        (settle e, (if x = Val True then forget i else id) (leave i r' (claim_slot i role s1)))"
proof -
  let ?s1 = "o_write (store64 token 0) s"
  show ?thesis
  proof (cases "token = 0 \<or> \<not> aligned8 token \<or> token > -1 - 8 \<or> \<not> owner_version version \<or>
      role \<noteq> ROLE_APP \<and> role \<noteq> ROLE_BRIDGE \<or> find_index (\<lambda>slot. slot = None) (o_owners s) = None \<or>
      o_next_token s > INT64_MAX")
    case True
    then show ?thesis
      by (intro refused [of "fst (acquire ops version role token s)" "snd (acquire ops version role token s)"])
        (auto simp: acquire_def o_write_def Let_def split: option.splits)
  next
    case False
    then obtain i where i: "find_index (\<lambda>slot. slot = None) (o_owners s) = Some i" by auto
    obtain e r where run: "acquire_chain ops (o_initialize s) role (enter i (claim_slot i role ?s1)) = (e, r)"
      by (cases "acquire_chain ops (o_initialize s) role (enter i (claim_slot i role ?s1))")
    obtain x r' where rel: "release ops r = (x, r')" by (cases "release ops r")
    have acq: "acquire ops version role token s =
      (if settle e = OK then (OK, o_write (store64 token (l_token (cur r))) (leave i r (claim_slot i role ?s1)))
       else (settle e, (if x = Val True then forget i else id) (leave i r' (claim_slot i role ?s1))))"
    proof -
      have "o_owners ?s1 = o_owners s" "o_next_token ?s1 = o_next_token s"
        "o_initialize (claim_slot i role ?s1) = o_initialize s"
        by (simp_all add: o_write_def claim_slot_def)
      then have "acquire ops version role token s = acquire_slot ops role token i (claim_slot i role ?s1)"
        using False i by (auto simp: acquire_def Let_def)
      with run rel show ?thesis by (simp add: acquire_slot_def o_write_def claim_slot_def)
    qed
    note slot = find_index_Some [OF i]
    show ?thesis
    proof (cases "settle e = OK")
      case True
      with False slot run acq show ?thesis by (intro kept [of i ?s1 e r]) (auto simp: not_less)
    next
      case nok: False
      with False slot run acq rel show ?thesis
        by (intro given_up [of i ?s1 e r x r']) (auto simp: not_less)
    qed
  qed
qed

text \<open>Whatever becomes of the chain, the claimed lease is intact and settled.\<close>

lemma claimed_chain:
  assumes inv: "objects_inv s" and free: "i < length (o_owners s)" "o_owners s ! i = None"
    and token: "o_next_token s \<le> INT64_MAX" and role: "role = ROLE_APP \<or> role = ROLE_BRIDGE"
    and t: "t = claim_slot i role (o_write f s)" and run: "acquire_chain ops b role (enter i t) = (e, r)"
  shows "steady (others i t) (enter i t) r \<and> i < length (o_owners t) \<and>
    o_owners t ! i = Some (owner_at t i) \<and> objects_inv t \<and> settled i t r \<and> \<not> l_quarantined (owner_at t i) \<and>
    l_token (cur r) = o_next_token s"
proof -
  have t_inv: "objects_inv t"
    unfolding t
  proof (rule objects_inv_claim)
    show "objects_inv (o_write f s)" using inv by simp
  qed (use assms in \<open>simp_all add: o_write_def\<close>)
  have slot: "i < length (o_owners t)" "o_owners t ! i = Some (owner_at t i)"
    and own: "owner_at t i = new_lease (o_next_token s) role"
    using assms by (simp_all add: claim_slot_def o_write_def owner_at_def)
  have "\<not> l_quarantined (cur (enter i t))" by (simp add: enter_def own)
  then have st: "steady (others i t) (enter i t) r"
    using presD [OF pres_steady_chain steady_refl [OF enter_custody [OF t_inv slot]] run] by blast
  then have "l_token (cur r) = o_next_token s" by (simp add: steady_def enter_def own)
  with st show ?thesis
    using slot own t_inv by (auto intro!: steady_settled simp: objects_inv_def)
qed

theorem acquire_keeps_inv:
  assumes inv: "objects_inv s"
  shows "objects_inv (snd (acquire ops version role token s))"
proof -
  note chain = claimed_chain [OF inv]
  show ?thesis
  proof (cases rule: acquire_cases [of ops version role token s])
    case (refused st s')
    then show ?thesis using inv by auto
  next
    case (kept i e r s1)
    then show ?thesis
      using chain [of i role "claim_slot i role s1" "store64 token 0" ops "o_initialize s" e r] objects_inv_leave by auto
  next
    case (given_up i e r x r' s1)
    let ?t = "claim_slot i role s1"
    have c: "steady (others i ?t) (enter i ?t) r" "i < length (o_owners ?t)"
      "o_owners ?t ! i = Some (owner_at ?t i)" "objects_inv ?t" "\<not> l_quarantined (owner_at ?t i)"
      using chain [of i role ?t "store64 token 0" ops "o_initialize s" e r] given_up by blast+
    obtain ok where "x = Val ok" "accounted (hist r') (others i ?t)" "prefix (o_hist ?t) (hist r')"
      "0 < next_ticket r'" "\<not> ok \<Longrightarrow> settled i ?t r'"
      using released_settled [OF c(4) c(2) c(3) c(1) c(5) given_up(8)] by blast
    then show ?thesis
      using c given_up(9) objects_inv_leave [of ?t i r'] objects_inv_forget [of ?t i r']
      by (cases ok) (auto simp: prefix_def)
  qed
qed

end
