(* ===== verification/Custody_Rules.thy ===== *)
theory Custody_Rules
  imports Owner_Custody
begin

text \<open>
  Rules that carry custody through an operation on a lease: handles opened into the
  operation's frame, moved into the lease and out of it again, closed, and the quarantine a
  failed close brings.  The store theories apply them in the order the code has the steps.
\<close>

section \<open>Predicates insensitive to some steps\<close>

text \<open>\<open>stable P I\<close>: logging a call of class \<open>P\<close> keeps \<open>I\<close>.  \<open>lease_free I\<close>: so does any lease update.\<close>

definition stable :: "(call \<Rightarrow> bool) \<Rightarrow> ('x run_scheme \<Rightarrow> bool) \<Rightarrow> bool" where
  "stable P I \<longleftrightarrow> (\<forall>s c a. P c \<longrightarrow> I s \<longrightarrow> I (s\<lparr>hist := hist s @ [(c, a)]\<rparr>))"

definition lease_free :: "('x run_scheme \<Rightarrow> bool) \<Rightarrow> bool" where
  "lease_free I \<longleftrightarrow> (\<forall>s l. I s \<longrightarrow> I (s\<lparr>cur := l\<rparr>))"

lemma stable_invoke: "stable P I \<Longrightarrow> P c \<Longrightarrow> pres I (invoke ops c)"
  by (rule pres_invoke) (simp add: stable_def)

lemma stable_perform: "stable P I \<Longrightarrow> P c \<Longrightarrow> pres I (perform ops c)"
  by (rule pres_perform) (simp add: stable_def)

lemma lease_free_upd: "lease_free I \<Longrightarrow> pres I (upd f)"
  by (rule pres_upd) (simp add: lease_free_def)

lemma stable_inspect_pins: "stable P I \<Longrightarrow> (\<And>h. P (Inspect h)) \<Longrightarrow> pres I (inspect_pins ops sid)"
  by (rule pres_inspect_pins) (simp add: stable_def)

lemma stable_check:
  "stable P I \<Longrightarrow> lease_free I \<Longrightarrow> (\<And>h. P (Inspect h)) \<Longrightarrow> P User_sid \<Longrightarrow> pres I (check_lease ops)"
  by (rule pres_check_lease) (simp_all add: stable_def lease_free_def)

lemma stable_close: "stable P I \<Longrightarrow> (\<And>h. P (Close h)) \<Longrightarrow> pres I (close_usable ops h)"
  by (rule pres_close_usable) (simp add: stable_def)

lemma stable_finish:
  "stable P I \<Longrightarrow> lease_free I \<Longrightarrow> (\<And>h. P (Close h)) \<Longrightarrow> pres I (finish ops)"
  unfolding finish_def by (intro pres_intros stable_close lease_free_upd)

lemmas stable_intros = stable_invoke stable_perform lease_free_upd stable_inspect_pins
  stable_check stable_close stable_finish

section \<open>Custody with what else a lease keeps\<close>

definition kept :: "('x run_scheme \<Rightarrow> handle multiset) \<Rightarrow> (lease \<Rightarrow> bool) \<Rightarrow> event list \<times> u64 \<Rightarrow> 'x run_scheme \<Rightarrow> bool" where
  "kept F P h0 s \<longleftrightarrow> custody F s \<and> P (cur s) \<and> prefix (fst h0) (hist s) \<and> next_ticket s = snd h0"

lemma kept_mono: "kept F P h0 s \<Longrightarrow> (\<And>l. P l \<Longrightarrow> Q l) \<Longrightarrow> kept F Q h0 s"
  by (simp add: kept_def)

text \<open>A predicate of leases that ignores the two refusal flags.\<close>

definition flagless :: "(lease \<Rightarrow> bool) \<Rightarrow> bool" where
  "flagless P \<longleftrightarrow> (\<forall>l b q. P l \<longrightarrow> P (l\<lparr>l_denied := b, l_quarantined := q\<rparr>))"

lemma flagless_denied: "flagless P \<Longrightarrow> P l \<Longrightarrow> P (l\<lparr>l_denied := b\<rparr>)"
proof -
  assume "flagless P" "P l"
  then have "P (l\<lparr>l_denied := b, l_quarantined := l_quarantined l\<rparr>)" unfolding flagless_def by blast
  moreover have "l\<lparr>l_denied := b, l_quarantined := l_quarantined l\<rparr> = l\<lparr>l_denied := b\<rparr>"
    by (cases l) simp
  ultimately show ?thesis by simp
qed

lemma flagless_quarantine: "flagless P \<Longrightarrow> P l \<Longrightarrow> P (quarantine l)"
  by (simp add: flagless_def quarantine_def)

lemma retained_fields:
  "retained (l\<lparr>l_temporary := h\<rparr>) + hm (l_temporary l) = retained l + hm h"
  "retained (l\<lparr>l_target := h\<rparr>) + hm (l_target l) = retained l + hm h"
  by (simp_all add: retained_def loose_handles_def pin_handles_def union_ac)

context frame
begin

lemma frame_add: "frame (\<lambda>s. F s + M)"
  by unfold_locales simp_all

lemma pres_kept_invoke [pres_intros]:
  "\<not> opener c \<Longrightarrow> closes c = None \<Longrightarrow> pres (kept F P h0) (invoke ops c)"
  by (rule pres_invoke) (simp add: kept_def custody_quiet prefix_snoc)

lemma pres_kept_perform [pres_intros]:
  "\<not> opener c \<Longrightarrow> closes c = None \<Longrightarrow> pres (kept F P h0) (perform ops c)"
  by (rule pres_perform) (simp add: kept_def custody_quiet prefix_snoc)

lemma pres_kept_upd:
  assumes "\<And>l. retained (f l) = retained l" "\<And>l. l_quarantined (f l) = l_quarantined l"
    and "\<And>l. lease_wf (f l) = lease_wf l" "\<And>l. P l \<Longrightarrow> P (f l)"
  shows "pres (kept F P h0) (upd f)"
  by (rule pres_upd) (simp add: kept_def custody_def assms)

lemma pres_kept_check: "flagless P \<Longrightarrow> pres (kept F P h0) (check_lease ops)"
  by (rule pres_check_lease)
    (simp_all add: kept_def custody_quiet prefix_snoc, simp add: custody_def flagless_denied)

lemma kept_open:
  assumes "kept F P h0 s" and "opener c"
  shows "kept (\<lambda>s. F s + hm (a_handle a)) P h0 (s\<lparr>hist := hist s @ [(c, a)]\<rparr>)"
proof -
  have "accounted (hist s @ [(c, a)]) (hm (a_handle a) + (F s + retained (cur s)))"
    using assms by (simp add: kept_def custody_def accounted_open)
  then show ?thesis using assms by (simp add: kept_def custody_def prefix_snoc ac_simps)
qed

lemma kept_quarantine:
  "kept F P h0 s \<Longrightarrow> \<not> clean (hist s) \<Longrightarrow> flagless P \<Longrightarrow> kept F P h0 (s\<lparr>cur := quarantine (cur s)\<rparr>)"
  by (simp add: kept_def custody_quarantine flagless_quarantine)

lemma kept_closed:
  assumes "kept (\<lambda>s. F s + hm h) P h0 s" and "closes c = Some h" and "usable h"
  shows "kept F P h0 (s\<lparr>hist := hist s @ [(c, a)]\<rparr>)"
proof -
  have "accounted (hist s) (hm h + (F s + retained (cur s)))"
    using assms(1) by (simp add: kept_def custody_def ac_simps)
  then have "accounted (hist s @ [(c, a)]) (F s + retained (cur s))"
    by (rule accounted_close [OF assms(2,3)])
  then show ?thesis using assms by (simp add: kept_def custody_def prefix_snoc)
qed

lemma kept_close:
  assumes "kept (\<lambda>s. F s + hm h) P h0 s"
  shows "wp (close_usable ops h) (\<lambda>r t. \<exists>ok. r = Val ok \<and> kept F P h0 t \<and> (\<not> ok \<longrightarrow> \<not> clean (hist t)) \<and>
    (\<exists>es. t = s\<lparr>hist := hist s @ es\<rparr>)) s"
proof (cases "usable h")
  case True
  then show ?thesis
    using kept_closed [OF assms _ True, of "Close h"] by (auto simp: wp_simps Let_def)
next
  case False
  then show ?thesis
    using assms by (auto simp: wp_simps Let_def intro!: exI [of _ True] exI [of _ "[]"])
qed

text \<open>Between the frame and the lease.\<close>

lemma kept_to_target:
  "kept (\<lambda>s. F s + hm h) P h0 s \<Longrightarrow> l_target (cur s) = 0 \<Longrightarrow> P ((cur s)\<lparr>l_target := h\<rparr>) \<Longrightarrow>
   kept F P h0 (s\<lparr>cur := (cur s)\<lparr>l_target := h\<rparr>\<rparr>)"
  using retained_fields(2) [of h "cur s"]
  by (simp add: kept_def custody_def lease_wf_def ac_simps)

lemma kept_to_temporary:
  "kept (\<lambda>s. F s + hm h) P h0 s \<Longrightarrow> l_temporary (cur s) = 0 \<Longrightarrow> P ((cur s)\<lparr>l_temporary := h\<rparr>) \<Longrightarrow>
   kept F P h0 (s\<lparr>cur := (cur s)\<lparr>l_temporary := h\<rparr>\<rparr>)"
  using retained_fields(1) [of h "cur s"]
  by (simp add: kept_def custody_def lease_wf_def ac_simps)

lemma kept_from_target:
  "kept F P h0 s \<Longrightarrow> P ((cur s)\<lparr>l_target := 0\<rparr>) \<Longrightarrow>
   kept (\<lambda>s. F s + hm h) P h0 (s\<lparr>cur := (cur s)\<lparr>l_target := 0\<rparr>\<rparr>)" if "h = l_target (cur s)"
  using retained_fields(2) [of 0 "cur s"] that
  by (simp add: kept_def custody_def lease_wf_def ac_simps)

lemma kept_from_temporary:
  "kept F P h0 s \<Longrightarrow> P ((cur s)\<lparr>l_temporary := 0\<rparr>) \<Longrightarrow>
   kept (\<lambda>s. F s + hm h) P h0 (s\<lparr>cur := (cur s)\<lparr>l_temporary := 0\<rparr>\<rparr>)" if "h = l_temporary (cur s)"
  using retained_fields(1) [of 0 "cur s"] that
  by (simp add: kept_def custody_def lease_wf_def ac_simps)

lemma kept_finish:
  assumes "kept F P h0 s" and "flagless P" and "P (finished (cur s))"
  shows "wp (finish ops) (\<lambda>r t. kept F P h0 t \<and> (\<exists>ok. r = Val ok \<and> finish_effect ok s t)) s"
proof -
  have c: "custody F s" and p: "prefix (fst h0) (hist s)" using assms by (simp_all add: kept_def)
  have "wp (finish ops) (\<lambda>r t. custody F t \<and> (\<exists>ok. r = Val ok \<and> finish_effect ok s t)) s"
    unfolding wp_conj using custody_finish [OF c] wp_finish by blast
  then show ?thesis
  proof (rule wp_mono, elim conjE exE)
    fix r and t :: "'x run_scheme" and ok
    assume t: "custody F t" "r = Val ok" "finish_effect ok s t"
    then have "prefix (fst h0) (hist t)" "P (cur t)"
      using p assms(2,3) by (auto simp: finish_effect_def flagless_quarantine intro: prefix_order.trans)
    with t assms(1) show "kept F P h0 t \<and> (\<exists>ok. r = Val ok \<and> finish_effect ok s t)"
      by (auto simp: kept_def finish_effect_def)
  qed
qed

end

lemma enter_kept:
  assumes "objects_inv s" and "i < length (o_owners s)" "o_owners s ! i = Some (owner_at s i)"
    and "P (owner_at s i)"
  shows "kept (\<lambda>_. others i s) P (o_hist s, o_next_ticket s) (enter i s)"
  using enter_custody [OF assms(1-3)] assms(4) by (simp add: kept_def enter_def)

text \<open>What an operation must keep of its lease for the owners' invariant.\<close>

definition mine :: "lease \<Rightarrow> lease \<Rightarrow> bool" where
  "mine l0 l \<longleftrightarrow> l_token l = l_token l0 \<and> l_role l = l_role l0"

lemma mine_refl [simp]: "mine l l"
  by (simp add: mine_def)

lemma kept_settled:
  "kept (\<lambda>_. others i s) P (o_hist s, n) r \<Longrightarrow> 0 < n \<Longrightarrow> mine (owner_at s i) (cur r) \<Longrightarrow> idle (cur r) \<Longrightarrow> settled i s r"
  by (simp add: kept_def custody_def settled_def mine_def add.commute)

section \<open>The owner keeps its slot\<close>

definition token_is :: "u64 \<Rightarrow> 'x run_scheme \<Rightarrow> bool" where
  "token_is k s \<longleftrightarrow> l_token (cur s) = k"

lemma stable_token: "stable (\<lambda>_. True) (token_is k)"
  by (simp add: stable_def token_is_def)

lemma find_index_update: "find_index P xs = Some i \<Longrightarrow> P y \<Longrightarrow> find_index P (xs[i := y]) = Some i"
  by (induction xs arbitrary: i) (auto split: if_splits nat.splits)

lemma find_owner_leave:
  "find_owner k s = Some i \<Longrightarrow> token_is k r \<Longrightarrow> find_owner k (leave i r s) = Some i"
  unfolding find_owner_def by (simp add: leave_def find_index_update holds_token_def token_is_def)

lemma owner_at_leave: "i < length (o_owners s) \<Longrightarrow> owner_at (leave i r s) i = cur r"
  by (simp add: owner_at_def leave_def)

section \<open>Renames in the log\<close>

fun renaming :: "call \<Rightarrow> bool" where
  "renaming (Replace_file t d e) = True"
| "renaming (Credential_replace t d k e) = True"
| "renaming (Discovery_replace t d k e) = True"
| "renaming _ = False"

definition renames :: "event list \<Rightarrow> event list" where
  "renames es = filter (\<lambda>e. renaming (fst e)) es"

lemma renames_append [simp]: "renames (es @ fs) = renames es @ renames fs"
  "renames (e # es) = (if renaming (fst e) then e # renames es else renames es)" "renames [] = []"
  by (simp_all add: renames_def)

lemma only_closes_renames: "only_closes es \<Longrightarrow> renames es = []"
  by (induction es) auto

lemma proper_raise [proper_intros]: "proper (if is_exception e then err e else ret ())"
  by (cases e) (auto intro: proper_err proper_ret)

end
