(* ===== verification/Association_Store.thy ===== *)
theory Association_Store
  imports Custody_Rules
begin

text \<open>
  \<open>association_files.cpp\<close>: the two-step transactions on the association and credential
  files.  \<open>begin\<close> reads the current object and issues a ticket; \<open>commit\<close> writes a temporary,
  revalidates everything and publishes it by one rename; \<open>abort\<close> gives the ticket back.
  What a \<open>memcpy\<close> delivers is written at the end of the operation: the source clears it
  again on every failing path.
\<close>

section \<open>The named target\<close>

definition target_call :: "sid \<Rightarrow> lease \<Rightarrow> call" where
  "target_call sid l =
     (if l_kind l = 3 then Association_open (pin_handle (store_directory l)) sid
      else Credential_open (pin_handle (store_directory l)) (l_kind l) sid)"

definition replace_call :: "lease \<Rightarrow> call" where
  "replace_call l =
     (if l_kind l = 3 then Replace_file (l_temporary l) (pin_handle (store_directory l)) (\<not> l_missing l)
      else Credential_replace (l_temporary l) (pin_handle (store_directory l)) (l_kind l) (\<not> l_missing l))"

text \<open>The observation \<open>target_current\<close> makes of the name, before the handle is closed again.\<close>

definition observe_target :: "object_ops \<Rightarrow> sid \<Rightarrow> answer \<Rightarrow> ('x run_scheme, unit) prog" where
  "observe_target ops sid a =
     (if outcome a = Status MISSING
      then seq (lease_get l_missing) (\<lambda>missing. require missing UNAVAILABLE)
      else if outcome a = Status OK \<and> usable (a_handle a)
      then seq (perform ops (Inspect (a_handle a))) (\<lambda>b.
           seq (lease_get (\<lambda>l. (l_missing l, l_target_identity l))) (\<lambda>(missing, identity).
           require (\<not> missing \<and> object_valid (a_info b) sid False True True \<and>
             same_object (a_info b) identity) UNAVAILABLE))
      else if outcome a = Status OK then err (Status UNAVAILABLE)
      else err (outcome a))"

text \<open>
  The observed handle is closed on every way out, the exceptional one included; when that
  close fails the lease is quarantined, an exception is rethrown, and any status becomes
  \<open>UNAVAILABLE\<close>.
\<close>

definition close_observed :: "object_ops \<Rightarrow> handle \<Rightarrow> unit res \<Rightarrow> ('x run_scheme, unit) prog" where
  "close_observed ops observed result =
     seq (close_usable ops observed) (\<lambda>closed.
     if closed then resume result
     else seq (upd quarantine) (\<lambda>_.
       case result of
         Err e \<Rightarrow> if is_exception e then err e else err (Status UNAVAILABLE)
       | Val _ \<Rightarrow> err (Status UNAVAILABLE)))"

definition target_current :: "object_ops \<Rightarrow> sid \<Rightarrow> ('x run_scheme, unit) prog" where
  "target_current ops sid =
     seq (lease_get complete_pins) (\<lambda>complete.
     seq (require complete UNAVAILABLE) (\<lambda>_.
     seq (lease_get (target_call sid)) (\<lambda>open_target.
     seq (invoke ops open_target) (\<lambda>a.
     seq (attempt (observe_target ops sid a)) (\<lambda>result.
     close_observed ops (a_handle a) result)))))"

section \<open>Beginning a transaction\<close>

record observation =
  seen_kind :: u32
  parent_volume :: u64
  parent_file :: u64
  seen_volume :: u64
  seen_file :: u64
  seen_missing :: bool

definition no_observation :: observation where
  "no_observation = \<lparr>seen_kind = 0, parent_volume = 0, parent_file = 0, seen_volume = 0,
     seen_file = 0, seen_missing = False\<rparr>"

definition observation_of :: "lease \<Rightarrow> observation" where
  "observation_of l =
     (let parent = pin_identity (store_directory l) in
      \<lparr>seen_kind = l_kind l, parent_volume = volume parent, parent_file = file_index parent,
       seen_volume = (if l_missing l then 0 else volume (l_target_identity l)),
       seen_file = (if l_missing l then 0 else file_index (l_target_identity l)),
       seen_missing = l_missing l\<rparr>)"

definition read_target :: "object_ops \<Rightarrow> sid \<Rightarrow> nat \<Rightarrow> answer \<Rightarrow> ('x run_scheme, u8 list) prog" where
  "read_target ops sid capacity a =
     seq (require (\<not> (outcome a = Status MISSING \<and> a_handle a \<noteq> 0)) UNAVAILABLE) (\<lambda>_.
     seq (expect a) (\<lambda>_.
     seq (require (usable (a_handle a)) UNAVAILABLE) (\<lambda>_.
     seq (invoke ops (Inspect (a_handle a))) (\<lambda>b.
     seq (upd (\<lambda>l. l\<lparr>l_target_identity := a_info b\<rparr>)) (\<lambda>_.
     seq (expect b) (\<lambda>_.
     seq (lease_get (\<lambda>l. volume (pin_identity (store_directory l)))) (\<lambda>parent.
     seq (require (object_valid (a_info b) sid False True True \<and> volume (a_info b) = parent) UNAVAILABLE) (\<lambda>_.
     seq (perform ops (Read_file (a_handle a))) (\<lambda>c.
     seq (require (a_bytes c \<noteq> [] \<and> length (a_bytes c) \<le> unat MAX_BYTES) DATA_CORRUPT) (\<lambda>_.
     seq (require (length (a_bytes c) \<le> capacity) RESOURCE_LIMIT) (\<lambda>_.
     ret (a_bytes c))))))))))))"

definition issue_ticket :: "('x run_scheme, u64) prog" where
  "issue_ticket =
     seq (gets next_ticket) (\<lambda>t.
     seq (modify (\<lambda>s. s\<lparr>next_ticket := t + 1\<rparr>)) (\<lambda>_.
     seq (upd (\<lambda>l. l\<lparr>l_ticket := t\<rparr>)) (\<lambda>_. ret t)))"

definition open_begin :: "object_ops \<Rightarrow> ('x run_scheme, sid \<times> answer) prog" where
  "open_begin ops =
     seq (check_lease ops) (\<lambda>sid.
     seq (lease_get complete_pins) (\<lambda>complete.
     seq (require complete UNAVAILABLE) (\<lambda>_.
     seq (lease_get (target_call sid)) (\<lambda>open_target.
     seq (invoke ops open_target) (\<lambda>a.
     seq (upd (\<lambda>l. l\<lparr>l_target := a_handle a\<rparr>)) (\<lambda>_.
     ret (sid, a)))))))"

definition begin_chain :: "object_ops \<Rightarrow> nat \<Rightarrow> ('x run_scheme, status \<times> u8 list \<times> u64) prog" where
  "begin_chain ops capacity =
     seq (open_begin ops) (\<lambda>(sid, a).
     seq (if is_exception (outcome a) then err (outcome a) else ret ()) (\<lambda>_.
     seq (upd (\<lambda>l. l\<lparr>l_missing := (outcome a = Status MISSING)\<rparr>)) (\<lambda>_.
     seq (attempt (read_target ops sid capacity a)) (\<lambda>result.
     seq (case result of
            Val bytes \<Rightarrow> ret (OK, bytes)
          | Err e \<Rightarrow> if e = Status MISSING then ret (MISSING, []) else err e) (\<lambda>(original, bytes).
     seq (check_lease ops) (\<lambda>sid.
     seq (target_current ops sid) (\<lambda>_.
     seq issue_ticket (\<lambda>ticket.
     ret (original, bytes, ticket)))))))))"

definition begin_outputs :: "ptr \<Rightarrow> u64 \<Rightarrow> ptr \<Rightarrow> ptr \<Rightarrow> bool" where
  "begin_outputs output capacity written ticket \<longleftrightarrow>
     span output capacity \<and> valid_count written \<and> valid_count ticket \<and>
     \<not> overlaps output capacity written 8 \<and> \<not> overlaps output capacity ticket 8 \<and>
     \<not> overlaps written 8 ticket 8"

definition clear_begin :: "ptr \<Rightarrow> u64 \<Rightarrow> ptr \<Rightarrow> ptr \<Rightarrow> mem \<Rightarrow> mem" where
  "clear_begin output capacity written ticket m =
     store64 ticket 0 (store64 written 0 (zero_mem output capacity m))"

definition begin_slot ::
  "object_ops \<Rightarrow> nat \<Rightarrow> ptr \<Rightarrow> u64 \<Rightarrow> ptr \<Rightarrow> ptr \<Rightarrow> objects \<Rightarrow> status \<times> observation \<times> objects" where
  "begin_slot ops i output capacity written ticket s =
     (case begin_chain ops (unat capacity) (enter i s) of
        (Val (original, bytes, t), r) \<Rightarrow>
          (original, observation_of (cur r),
           o_write (\<lambda>m. store64 ticket t (store64 written (of_nat (length bytes)) (write_bytes output bytes m)))
             (leave i r s))
      | (Err e, r) \<Rightarrow>
          (case finish ops r of (finished_ok, r') \<Rightarrow>
             (if finished_ok = Val True then settle (Err e :: unit res) else UNAVAILABLE, no_observation,
              o_write (\<lambda>m. store64 written 0 (zero_mem output capacity m)) (leave i r' s))))"

definition set_kind :: "nat \<Rightarrow> u32 \<Rightarrow> objects \<Rightarrow> objects" where
  "set_kind i kind s = s\<lparr>o_owners := (o_owners s)[i := Some ((owner_at s i)\<lparr>l_kind := kind\<rparr>)]\<rparr>"

definition begin_op ::
  "object_ops \<Rightarrow> u32 \<Rightarrow> u64 \<Rightarrow> u32 \<Rightarrow> ptr \<Rightarrow> u64 \<Rightarrow> ptr \<Rightarrow> ptr \<Rightarrow> objects \<Rightarrow> status \<times> observation \<times> objects" where
  "begin_op ops version owner kind output capacity written ticket s =
     (if \<not> begin_outputs output capacity written ticket then (INVALID_INPUT, no_observation, s)
      else let s1 = o_write (clear_begin output capacity written ticket) s in
        if version \<noteq> ABI_VERSION then (ABI_MISMATCH, no_observation, s1)
        else case find_owner owner s1 of
            None \<Rightarrow> (INVALID_INPUT, no_observation, s1)
          | Some i \<Rightarrow>
              let lease = owner_at s1 i in
              if kind \<notin> {1, 2, 3, 4} \<or> l_role lease \<noteq> (if kind = 4 then ROLE_BRIDGE else ROLE_APP)
              then (if kind = 3 then UNAVAILABLE else INVALID_INPUT, no_observation, s1)
              else if l_ticket lease \<noteq> 0 \<or> o_next_ticket s1 > INT64_MAX
              then (RESOURCE_LIMIT, no_observation, s1)
              else begin_slot ops i output capacity written ticket (set_kind i kind s1))"

definition association_begin ::
  "object_ops \<Rightarrow> u32 \<Rightarrow> u64 \<Rightarrow> ptr \<Rightarrow> u64 \<Rightarrow> ptr \<Rightarrow> ptr \<Rightarrow> objects \<Rightarrow> status \<times> observation \<times> objects" where
  "association_begin ops version owner output capacity written ticket s =
     begin_op ops version owner 3 output capacity written ticket s"

definition credential_begin ::
  "object_ops \<Rightarrow> u32 \<Rightarrow> u64 \<Rightarrow> u32 \<Rightarrow> ptr \<Rightarrow> u64 \<Rightarrow> ptr \<Rightarrow> ptr \<Rightarrow> objects \<Rightarrow> status \<times> observation \<times> objects" where
  "credential_begin ops version owner kind output capacity written ticket s =
     begin_op ops version owner (if kind = 3 then 0 else kind) output capacity written ticket s"

section \<open>Committing\<close>

datatype commit_stage =
    Admission | Prepare | Target_close | Rename | Published_close | Published_validate | Complete

record diagnostic =
  d_stage :: commit_stage
  d_exception :: bool
  d_finish_failed :: bool
  d_published :: observation

definition no_diagnostic :: diagnostic where
  "no_diagnostic = \<lparr>d_stage = Admission, d_exception = False, d_finish_failed = False,
     d_published = no_observation\<rparr>"

text \<open>The locals of \<open>commit\<close> that its handlers read.\<close>

record commit_run = run +
  replacing :: bool
  stage :: commit_stage

definition at_stage :: "commit_stage \<Rightarrow> (commit_run, unit) prog" where
  "at_stage st = modify (\<lambda>s. s\<lparr>stage := st\<rparr>)"

text \<open>The name of a fresh temporary, its creation, and its content: written, flushed and inspected again.\<close>

definition choose_temporary :: "object_ops \<Rightarrow> (commit_run, wstring) prog" where
  "choose_temporary ops =
     seq (check_lease ops) (\<lambda>sid.
     seq (target_current ops sid) (\<lambda>_.
     seq (lease_get store_directory) (\<lambda>directory.
     seq (perform ops (Temporary_count (pin_handle directory))) (\<lambda>a.
     seq (require (a_count a < 32) RESOURCE_LIMIT) (\<lambda>_.
     seq (perform ops Random_name) (\<lambda>b.
     seq (require (hex_name (a_runtime b) 16 \<and> hex_name (a_random b) 8) UNAVAILABLE) (\<lambda>_.
     seq (upd (\<lambda>l. if l_runtime_id l = [] then l\<lparr>l_runtime_id := a_runtime b\<rparr> else l)) (\<lambda>_.
     lease_get (\<lambda>l. temporary_name (l_runtime_id l) (a_random b))))))))))"

definition create_temporary :: "object_ops \<Rightarrow> wstring \<Rightarrow> (commit_run, sid \<times> handle) prog" where
  "create_temporary ops name =
     seq (check_lease ops) (\<lambda>sid.
     seq (lease_get store_directory) (\<lambda>directory.
     seq (invoke ops (Temporary_create (pin_handle directory) name sid)) (\<lambda>c.
     seq (upd (\<lambda>l. l\<lparr>l_temporary := a_handle c\<rparr>)) (\<lambda>_.
     seq (expect c) (\<lambda>_.
     seq (require (usable (a_handle c)) UNAVAILABLE) (\<lambda>_.
     ret (sid, a_handle c)))))))"

definition fill_temporary :: "object_ops \<Rightarrow> u8 list \<Rightarrow> sid \<times> handle \<Rightarrow> (commit_run, object_info) prog" where
  "fill_temporary ops input target =
     (case target of (sid, h) \<Rightarrow>
     seq (lease_get store_directory) (\<lambda>directory.
     seq (perform ops (Inspect h)) (\<lambda>t.
     seq (require (object_valid (a_info t) sid False True True \<and>
            volume (a_info t) = volume (pin_identity directory)) UNAVAILABLE) (\<lambda>_.
     seq (perform ops (Write_file h input)) (\<lambda>_.
     seq (perform ops (Flush_file h)) (\<lambda>_.
     seq (check_lease ops) (\<lambda>sid.
     seq (target_current ops sid) (\<lambda>_.
     seq (perform ops (Inspect h)) (\<lambda>u.
     seq (require (object_valid (a_info u) sid False True True \<and> same_object (a_info u) (a_info t))
            UNAVAILABLE) (\<lambda>_.
     ret (a_info t)))))))))))"

definition prepare_temporary :: "object_ops \<Rightarrow> u8 list \<Rightarrow> (commit_run, object_info) prog" where
  "prepare_temporary ops input =
     seq (choose_temporary ops) (\<lambda>name.
     seq (create_temporary ops name) (fill_temporary ops input))"

text \<open>The rename cannot replace an open destination: the target is closed, once.\<close>

definition close_target :: "object_ops \<Rightarrow> (commit_run, unit) prog" where
  "close_target ops =
     seq (lease_get l_target) (\<lambda>target.
     if target = 0 then ret ()
     else seq (upd (\<lambda>l. l\<lparr>l_target := 0\<rparr>)) (\<lambda>_.
          seq (at_stage Target_close) (\<lambda>_.
          seq (invoke ops (Close target)) (\<lambda>a.
          if a_flag a then ret ()
          else seq (upd quarantine) (\<lambda>_. err (Status UNAVAILABLE))))))"

definition validate_published :: "object_ops \<Rightarrow> (commit_run, unit) prog" where
  "validate_published ops =
     seq (attempt (seq (check_lease ops) (target_current ops))) (\<lambda>result.
     case result of
       Val _ \<Rightarrow> ret ()
     | Err e \<Rightarrow> if is_exception e then err e else err (Status COMMIT_UNKNOWN))"

definition publish_temporary :: "object_ops \<Rightarrow> object_info \<Rightarrow> (commit_run, unit) prog" where
  "publish_temporary ops temp =
     seq (modify (\<lambda>s. s\<lparr>replacing := True\<rparr>)) (\<lambda>_.
     seq (at_stage Rename) (\<lambda>_.
     seq (lease_get replace_call) (\<lambda>replace.
     seq (invoke ops replace) (\<lambda>a.
     seq (if is_exception (outcome a) then err (outcome a) else ret ()) (\<lambda>_.
     seq (require (outcome a = Status OK) COMMIT_UNKNOWN) (\<lambda>_.
     seq (lease_get l_temporary) (\<lambda>temporary.
     seq (upd (\<lambda>l. l\<lparr>l_temporary := 0\<rparr>)) (\<lambda>_.
     seq (at_stage Published_close) (\<lambda>_.
     seq (invoke ops (Close temporary)) (\<lambda>b.
     if \<not> a_flag b then seq (upd quarantine) (\<lambda>_. err (Status COMMIT_UNKNOWN))
     else seq (at_stage Published_validate) (\<lambda>_.
          seq (upd (\<lambda>l. l\<lparr>l_missing := False, l_target_identity := temp\<rparr>)) (\<lambda>_.
          validate_published ops))))))))))))"

definition commit_chain :: "object_ops \<Rightarrow> u8 list \<Rightarrow> (commit_run, unit) prog" where
  "commit_chain ops input =
     seq (at_stage Prepare) (\<lambda>_.
     seq (prepare_temporary ops input) (\<lambda>temp.
     seq (close_target ops) (\<lambda>_.
     publish_temporary ops temp)))"

text \<open>The handlers, \<open>finish\<close>, and the final status.\<close>

definition commit_status :: "bool \<Rightarrow> unit res \<Rightarrow> status" where
  "commit_status renamed result =
     (case result of
        Err e \<Rightarrow> if is_exception e \<and> renamed then COMMIT_UNKNOWN else settle result
      | Val _ \<Rightarrow> OK)"

definition enter_commit :: "nat \<Rightarrow> objects \<Rightarrow> commit_run" where
  "enter_commit i s = \<lparr>cur = owner_at s i, hist = o_hist s, next_ticket = o_next_ticket s,
     replacing = False, stage = Admission\<rparr>"

definition commit_slot ::
  "object_ops \<Rightarrow> nat \<Rightarrow> bool \<Rightarrow> u8 list \<Rightarrow> objects \<Rightarrow> status \<times> diagnostic \<times> objects" where
  "commit_slot ops i credential input s =
     (case commit_chain ops input (enter_commit i s) of
        (result, r) \<Rightarrow> case finish ops r of
          (finished_ok, r') \<Rightarrow>
            let ok = (finished_ok = Val True);
                st = (if ok then commit_status (replacing r') result
                      else if replacing r' then COMMIT_UNKNOWN else UNAVAILABLE);
                exn = (case result of Err e \<Rightarrow> is_exception e | Val _ \<Rightarrow> False)
            in (st,
                \<lparr>d_stage = (if st = OK then Complete else stage r'), d_exception = exn,
                 d_finish_failed = (\<not> ok),
                 d_published = (if st = OK \<and> credential then observation_of (cur r') else no_observation)\<rparr>,
                leave i r' s))"

text \<open>The ticket names the lease's open transaction of the right family.\<close>

definition ticket_matches :: "lease \<Rightarrow> u64 \<Rightarrow> bool \<Rightarrow> bool" where
  "ticket_matches l ticket credential \<longleftrightarrow>
     ticket \<noteq> 0 \<and> l_ticket l = ticket \<and> (l_kind l \<noteq> 3) = credential"

definition commit_op ::
  "object_ops \<Rightarrow> u32 \<Rightarrow> u64 \<Rightarrow> u64 \<Rightarrow> bool \<Rightarrow> ptr \<Rightarrow> u64 \<Rightarrow> objects \<Rightarrow> status \<times> diagnostic \<times> objects" where
  "commit_op ops version owner ticket credential input len s =
     (if version \<noteq> ABI_VERSION then (ABI_MISMATCH, no_diagnostic, s)
      else if \<not> span input len then (INVALID_INPUT, no_diagnostic, s)
      else case find_owner owner s of
          None \<Rightarrow> (INVALID_INPUT, no_diagnostic, s)
        | Some i \<Rightarrow>
            if \<not> ticket_matches (owner_at s i) ticket credential then (INVALID_INPUT, no_diagnostic, s)
            else commit_slot ops i credential (read_bytes input len (o_mem s)) s)"

definition abort_op :: "object_ops \<Rightarrow> u32 \<Rightarrow> u64 \<Rightarrow> u64 \<Rightarrow> bool \<Rightarrow> objects \<Rightarrow> status \<times> objects" where
  "abort_op ops version owner ticket credential s =
     (if version \<noteq> ABI_VERSION then (ABI_MISMATCH, s)
      else case find_owner owner s of
          None \<Rightarrow> (INVALID_INPUT, s)
        | Some i \<Rightarrow>
            if \<not> ticket_matches (owner_at s i) ticket credential then (INVALID_INPUT, s)
            else case finish ops (enter i s) of
              (finished_ok, r) \<Rightarrow> (if finished_ok = Val True then OK else UNAVAILABLE, leave i r s))"

definition association_commit ::
  "object_ops \<Rightarrow> u32 \<Rightarrow> u64 \<Rightarrow> u64 \<Rightarrow> ptr \<Rightarrow> u64 \<Rightarrow> objects \<Rightarrow> status \<times> diagnostic \<times> objects" where
  "association_commit ops version owner ticket input len s =
     commit_op ops version owner ticket False input len s"

definition credential_commit ::
  "object_ops \<Rightarrow> u32 \<Rightarrow> u64 \<Rightarrow> u64 \<Rightarrow> ptr \<Rightarrow> u64 \<Rightarrow> objects \<Rightarrow> status \<times> diagnostic \<times> objects" where
  "credential_commit ops version owner ticket input len s =
     commit_op ops version owner ticket True input len s"

definition association_abort ::
  "object_ops \<Rightarrow> u32 \<Rightarrow> u64 \<Rightarrow> u64 \<Rightarrow> objects \<Rightarrow> status \<times> objects" where
  "association_abort ops version owner ticket s = abort_op ops version owner ticket False s"

definition credential_abort ::
  "object_ops \<Rightarrow> u32 \<Rightarrow> u64 \<Rightarrow> u64 \<Rightarrow> objects \<Rightarrow> status \<times> objects" where
  "credential_abort ops version owner ticket s = abort_op ops version owner ticket True s"

section \<open>Custody through the transactions\<close>

lemma opener_target [simp]: "opener (target_call sid l)"
  by (simp add: target_call_def)

lemma closes_replace [simp]: "closes (replace_call l) = None" "\<not> opener (replace_call l)"
  by (simp_all add: replace_call_def)

context frame
begin

lemma pres_kept_observe:
  "pres (kept (\<lambda>s. F s + M) P h0) (observe_target ops sid a)"
  unfolding observe_target_def
  by (intro pres_intros frame.pres_kept_perform [OF frame_add]) (auto intro!: pres_intros)

lemma pres_kept_target_current:
  assumes P: "flagless P"
  shows "pres (kept F P h0) (target_current ops sid)"
proof (rule pres_wp)
  fix s assume s: "kept F P h0 s"
  define c where "c = target_call sid (cur s)"
  define a where "a = ops (hist s) c"
  have opened: "kept (\<lambda>s. F s + hm (a_handle a)) P h0 (s\<lparr>hist := hist s @ [(c, a)]\<rparr>)"
    using s by (intro kept_open) (simp_all add: c_def)
  have last: "wp (close_observed ops (a_handle a) x) (\<lambda>r t. kept F P h0 t) t"
    if "kept (\<lambda>s. F s + hm (a_handle a)) P h0 t" for x t
    unfolding close_observed_def
  proof (rule wp_bind [where P = "\<lambda>ok u. kept F P h0 u \<and> (\<not> ok \<longrightarrow> \<not> clean (hist u))"])
    show "wp (close_usable ops (a_handle a))
        (\<lambda>r u. \<exists>ok. r = Val ok \<and> kept F P h0 u \<and> (\<not> ok \<longrightarrow> \<not> clean (hist u))) t"
      by (rule wp_mono [OF kept_close [OF that]]) blast
  qed (cases x, auto simp: wp_simps kept_quarantine [OF _ _ P])
  have "wp (seq (attempt (observe_target ops sid a)) (close_observed ops (a_handle a)))
      (\<lambda>r t. kept F P h0 t) (s\<lparr>hist := hist s @ [(c, a)]\<rparr>)"
    unfolding wp_seq wp_attempt res.case
    by (rule wp_mono [OF wp_pres [OF pres_kept_observe opened]]) (rule last)
  then show "wp (target_current ops sid) (\<lambda>r t. kept F P h0 t) s"
    using s unfolding target_current_def
    by (simp add: wp_seq [of "lease_get _"] wp_lease_get wp_seq [of "require _ _"] wp_require
        wp_seq [of "invoke _ _"] wp_invoke a_def c_def)
qed

end

subsection \<open>Beginning\<close>

text \<open>What a transaction keeps of its lease: token, role, and no temporary.\<close>

definition quiet_lease :: "lease \<Rightarrow> lease \<Rightarrow> bool" where
  "quiet_lease l0 l \<longleftrightarrow> mine l0 l \<and> l_temporary l = 0"

lemma flagless_quiet [simp]: "flagless (quiet_lease l0)"
  by (simp_all add: flagless_def quiet_lease_def mine_def)

lemma quiet_lease_updates [simp]:
  "quiet_lease l0 (l\<lparr>l_missing := b\<rparr>) = quiet_lease l0 l"
  "quiet_lease l0 (l\<lparr>l_target_identity := i\<rparr>) = quiet_lease l0 l"
  "quiet_lease l0 (l\<lparr>l_target := h\<rparr>) = quiet_lease l0 l"
  "quiet_lease l0 (l\<lparr>l_ticket := t\<rparr>) = quiet_lease l0 l"
  by (simp_all add: quiet_lease_def mine_def)

lemma retained_updates [simp]:
  "retained (l\<lparr>l_missing := b\<rparr>) = retained l" "retained (l\<lparr>l_target_identity := i\<rparr>) = retained l"
  "retained (l\<lparr>l_ticket := t\<rparr>) = retained l" "retained (l\<lparr>l_runtime_id := w\<rparr>) = retained l"
  "retained (l\<lparr>l_kind := k\<rparr>) = retained l" "retained (l\<lparr>l_missing := b, l_target_identity := i\<rparr>) = retained l"
  by (simp_all add: retained_def loose_handles_def pin_handles_def)

lemma lease_wf_updates [simp]:
  "lease_wf (l\<lparr>l_missing := b\<rparr>) = lease_wf l" "lease_wf (l\<lparr>l_target_identity := i\<rparr>) = lease_wf l"
  "lease_wf (l\<lparr>l_ticket := t\<rparr>) = lease_wf l" "lease_wf (l\<lparr>l_runtime_id := w\<rparr>) = lease_wf l"
  "lease_wf (l\<lparr>l_kind := k\<rparr>) = lease_wf l" "lease_wf (l\<lparr>l_missing := b, l_target_identity := i\<rparr>) = lease_wf l"
  by (simp_all add: lease_wf_def)

context frame
begin

lemma pres_kept_read_target:
  assumes "\<And>l i. P l \<Longrightarrow> P (l\<lparr>l_target_identity := i\<rparr>)"
  shows "pres (kept F P h0) (read_target ops sid capacity a)"
  unfolding read_target_def
  by (intro pres_intros pres_kept_invoke pres_kept_perform pres_kept_upd) (auto intro: assms)

end

text \<open>The lease while the handle the name was opened with is its target.\<close>

definition targeting :: "lease \<Rightarrow> handle \<Rightarrow> lease \<Rightarrow> bool" where
  "targeting l0 h l \<longleftrightarrow> quiet_lease l0 l \<and> l_target l = h"

lemma flagless_targeting [simp]: "flagless (targeting l0 h)"
  by (simp add: flagless_def targeting_def quiet_lease_def mine_def)

lemma targeting_updates [simp]:
  "targeting l0 h (l\<lparr>l_missing := b\<rparr>) = targeting l0 h l"
  "targeting l0 h (l\<lparr>l_target_identity := i\<rparr>) = targeting l0 h l"
  "targeting l0 h (l\<lparr>l_target := k\<rparr>) \<longleftrightarrow> quiet_lease l0 l \<and> k = h"
  "targeting l0 h (l\<lparr>l_ticket := t\<rparr>) = targeting l0 h l"
  by (auto simp: targeting_def)

lemma kept_targeting: "kept F (targeting l0 h) b t \<Longrightarrow> kept F (quiet_lease l0) b t"
  by (erule kept_mono) (simp add: targeting_def)

text \<open>Only a handle that can be closed again is left in the lease of an open transaction.\<close>

lemma read_target_handle:
  "wp (read_target ops sid capacity a)
     (\<lambda>r t. (case r of Val _ \<Rightarrow> True | Err e \<Rightarrow> e = Status MISSING) \<longrightarrow> null_or_usable (a_handle a)) s"
  unfolding read_target_def
  by (cases "usable (a_handle a)"; cases "a_handle a = 0"; cases "outcome a = Status MISSING")
    (auto simp: wp_simps null_or_usable_def Let_def expect_def)

context frame
begin

lemma kept_open_begin:
  assumes s: "kept F (targeting l0 0) b s"
  shows "wp (open_begin ops) (\<lambda>r t. case r of
      Val (sid, a) \<Rightarrow> kept F (targeting l0 (a_handle a)) b t
    | Err e \<Rightarrow> kept F (quiet_lease l0) b t) s"
  unfolding open_begin_def
proof (rule wp_seq_pres [where I = "kept F (targeting l0 0) b", OF _ s])
  show "pres (kept F (targeting l0 0) b) (check_lease ops)" by (rule pres_kept_check) simp
next
  fix e t assume "kept F (targeting l0 0) b t"
  then show "case Err e of Val (sid, a) \<Rightarrow> kept F (targeting l0 (a_handle a)) b t
      | Err e \<Rightarrow> kept F (quiet_lease l0) b t" by (simp add: kept_targeting)
next
  fix sid t assume t: "kept F (targeting l0 0) b t"
  define c where "c = target_call sid (cur t)"
  define a where "a = ops (hist t) c"
  let ?t = "t\<lparr>hist := hist t @ [(c, a)]\<rparr>"
  have "kept (\<lambda>s. F s + hm (a_handle a)) (targeting l0 0) b ?t"
    using t by (intro kept_open) (simp_all add: c_def)
  then have "kept (\<lambda>s. F s + hm (a_handle a)) (quiet_lease l0) b ?t"
    by (rule kept_mono) (simp add: targeting_def)
  then have "kept F (quiet_lease l0) b (?t\<lparr>cur := (cur ?t)\<lparr>l_target := a_handle a\<rparr>\<rparr>)"
    using t by (intro kept_to_target) (simp_all add: kept_def targeting_def)
  then have "kept F (targeting l0 (a_handle a)) b (t\<lparr>hist := hist t @ [(c, a)], cur := (cur t)\<lparr>l_target := a_handle a\<rparr>\<rparr>)"
    by (simp add: kept_def)
  then show "wp (seq (lease_get complete_pins) (\<lambda>complete. seq (require complete UNAVAILABLE) (\<lambda>_.
      seq (lease_get (target_call sid)) (\<lambda>open_target. seq (invoke ops open_target) (\<lambda>a.
      seq (upd (\<lambda>l. l\<lparr>l_target := a_handle a\<rparr>)) (\<lambda>_. ret (sid, a)))))))
      (\<lambda>r t. case r of Val (sid, a) \<Rightarrow> kept F (targeting l0 (a_handle a)) b t
        | Err e \<Rightarrow> kept F (quiet_lease l0) b t) t"
    using kept_targeting [OF t] by (simp add: wp_simps c_def a_def)
qed

lemma kept_begin:
  assumes s: "kept F (targeting l0 0) (h, n) s"
  shows "wp (begin_chain ops capacity) (\<lambda>r t. case r of
      Val (original, bytes, ticket) \<Rightarrow> ticket = n \<and> l_ticket (cur t) = n \<and>
        null_or_usable (l_target (cur t)) \<and> kept F (quiet_lease l0) (h, n + 1) t
    | Err e \<Rightarrow> kept F (quiet_lease l0) (h, n) t) s"
proof -
  let ?I = "\<lambda>k. kept F (targeting l0 k) (h, n)"
  define Q where "Q = (\<lambda>(r :: (status \<times> u8 list \<times> u64) res) t. case r of
      Val (original, bytes, ticket) \<Rightarrow> ticket = n \<and> l_ticket (cur t) = n \<and>
        null_or_usable (l_target (cur t)) \<and> kept F (quiet_lease l0) (h, n + 1) t
    | Err e \<Rightarrow> kept F (quiet_lease l0) (h, n) t)"
  have fail: "Q (Err e) t" if "?I k t" for e k t
    using kept_targeting [OF that] by (simp add: Q_def)
  have issue: "wp (seq issue_ticket (\<lambda>ticket. ret (original, bytes, ticket))) Q t"
    if "?I k t" "null_or_usable k" for t k original bytes
    using that kept_targeting [OF that(1)]
    by (simp add: issue_ticket_def wp_simps Q_def kept_def custody_def targeting_def)
  have tail: "wp (seq (check_lease ops) (\<lambda>sid. seq (target_current ops sid) (\<lambda>_.
      seq issue_ticket (\<lambda>ticket. ret (original, bytes, ticket))))) Q t"
    if "?I k t" "null_or_usable k" for t k original bytes
    by (rule wp_seq_pres [OF pres_kept_check that(1)], simp, rule fail, assumption,
        rule wp_seq_pres [where I = "?I k", OF pres_kept_target_current], simp, assumption,
        rule fail, assumption, rule issue [OF _ that(2)])
  show ?thesis
    unfolding begin_chain_def wp_seq [of "open_begin ops"] Q_def [symmetric]
  proof (rule wp_mono [OF kept_open_begin [OF s]])
    fix r :: "(u8 list \<times> answer) res" and t
    assume r: "case r of Val (sid, a) \<Rightarrow> ?I (a_handle a) t | Err e \<Rightarrow> kept F (quiet_lease l0) (h, n) t"
    have go: "wp (seq (if is_exception (outcome a) then err (outcome a) else ret ()) (\<lambda>_.
         seq (upd (\<lambda>l. l\<lparr>l_missing := (outcome a = Status MISSING)\<rparr>)) (\<lambda>_.
         seq (attempt (read_target ops sid capacity a)) (\<lambda>result.
         seq (case result of
                Val bytes \<Rightarrow> ret (OK, bytes)
              | Err e \<Rightarrow> if e = Status MISSING then ret (MISSING, []) else err e) (\<lambda>(original, bytes).
         seq (check_lease ops) (\<lambda>sid.
         seq (target_current ops sid) (\<lambda>_.
         seq issue_ticket (\<lambda>ticket.
         ret (original, bytes, ticket))))))))) Q t" if t: "?I (a_handle a) t" for sid a
    proof -
      have up: "?I (a_handle a) (t\<lparr>cur := (cur t)\<lparr>l_missing := m\<rparr>\<rparr>)" for m
        using t by (simp add: kept_def custody_def)
      have read: "wp (read_target ops sid capacity a) (\<lambda>r u. ?I (a_handle a) u \<and>
          ((case r of Val _ \<Rightarrow> True | Err e \<Rightarrow> e = Status MISSING) \<longrightarrow> null_or_usable (a_handle a)))
          (t\<lparr>cur := (cur t)\<lparr>l_missing := m\<rparr>\<rparr>)" for m
        unfolding wp_conj using wp_pres [OF pres_kept_read_target up] read_target_handle by simp
      show ?thesis
        apply (simp add: wp_seq [of "if is_exception _ then _ else _"] wp_if wp_err wp_ret
            fail [OF t] wp_seq [of "upd _"] wp_upd wp_seq [of "attempt _"] wp_attempt)
        apply (rule impI)
        apply (rule wp_mono [OF read])
        apply (auto simp: wp_seq [of "ret _"] wp_seq [of "err _"] wp_ret wp_err
            intro!: tail fail split: res.splits)
        done
    qed
    show "case r of
        Val x \<Rightarrow> wp ((\<lambda>(sid, a).
         seq (if is_exception (outcome a) then err (outcome a) else ret ()) (\<lambda>_.
         seq (upd (\<lambda>l. l\<lparr>l_missing := (outcome a = Status MISSING)\<rparr>)) (\<lambda>_.
         seq (attempt (read_target ops sid capacity a)) (\<lambda>result.
         seq (case result of
                Val bytes \<Rightarrow> ret (OK, bytes)
              | Err e \<Rightarrow> if e = Status MISSING then ret (MISSING, []) else err e) (\<lambda>(original, bytes).
         seq (check_lease ops) (\<lambda>sid.
         seq (target_current ops sid) (\<lambda>_.
         seq issue_ticket (\<lambda>ticket.
         ret (original, bytes, ticket))))))))) x) Q t
      | Err e \<Rightarrow> Q (Err e) t"
    proof (cases r)
      case (Val x)
      then show ?thesis using r by (cases x) (simp only: res.case prod.case go)
    next
      case (Err e)
      then show ?thesis using r by (simp add: Q_def)
    qed
  qed
qed

end

subsection \<open>The invariant\<close>

lemma set_kind_inv:
  assumes inv: "objects_inv s" and i: "i < length (o_owners s)" "o_owners s ! i = Some (owner_at s i)"
  shows "objects_inv (set_kind i k s)" "i < length (o_owners (set_kind i k s))"
    "o_owners (set_kind i k s) ! i = Some (owner_at (set_kind i k s) i)"
    "owner_at (set_kind i k s) i = (owner_at s i)\<lparr>l_kind := k\<rparr>" "o_next_ticket (set_kind i k s) = o_next_ticket s"
proof -
  define r where "r = (enter i s)\<lparr>cur := (owner_at s i)\<lparr>l_kind := k\<rparr>\<rparr>"
  have c: "custody (\<lambda>_. others i s) (enter i s)" by (rule enter_custody [OF inv i])
  have "idle (owner_at s i)" using owner_inv [OF inv i] by (simp add: lease_inv_def)
  then have "settled i s r"
    using c inv unfolding settled_def custody_def r_def
    by (simp add: enter_def idle_def add.commute objects_inv_def)
  then have "objects_inv (leave i r s)" by (rule objects_inv_leave [OF inv i])
  moreover have "leave i r s = set_kind i k s"
    by (simp add: leave_def set_kind_def r_def enter_def)
  ultimately show "objects_inv (set_kind i k s)" by simp
  show "i < length (o_owners (set_kind i k s))"
    "o_owners (set_kind i k s) ! i = Some (owner_at (set_kind i k s) i)"
    "owner_at (set_kind i k s) i = (owner_at s i)\<lparr>l_kind := k\<rparr>" "o_next_ticket (set_kind i k s) = o_next_ticket s"
    using i by (simp_all add: set_kind_def owner_at_def)
qed

subsection \<open>Committing\<close>

text \<open>What a commit keeps of its lease: a temporary that is \<open>h\<close>, and a target that can be closed.\<close>

definition writing :: "lease \<Rightarrow> handle \<Rightarrow> lease \<Rightarrow> bool" where
  "writing l0 h l \<longleftrightarrow> mine l0 l \<and> l_temporary l = h \<and> null_or_usable (l_target l)"

lemma flagless_writing [simp]: "flagless (writing l0 h)" "flagless (mine l0)"
  by (simp_all add: flagless_def writing_def mine_def)

lemma writing_updates [simp]:
  "writing l0 h (l\<lparr>l_missing := b, l_target_identity := i\<rparr>) = writing l0 h l"
  "writing l0 h (l\<lparr>l_temporary := k\<rparr>) \<longleftrightarrow> mine l0 l \<and> k = h \<and> null_or_usable (l_target l)"
  "writing l0 h l \<Longrightarrow> writing l0 h (l\<lparr>l_runtime_id := w\<rparr>)"
  "writing l0 h l \<Longrightarrow> writing l0 h (l\<lparr>l_target := 0\<rparr>)"
  by (auto simp: writing_def mine_def)

lemma kept_writing: "kept F (writing l0 h) b s \<Longrightarrow> kept F (mine l0) b s"
  by (erule kept_mono) (simp add: writing_def)

lemma pres_at_stage [pres_intros]: "pres (kept (\<lambda>_. R) P b) (at_stage st)"
  unfolding at_stage_def by (rule pres_modify) (simp add: kept_def custody_def)

lemma kept_choose: "pres (kept (\<lambda>_. R) (writing l0 0) b) (choose_temporary ops)"
  unfolding choose_temporary_def
  by (intro pres_intros alone.pres_kept_check alone.pres_kept_target_current alone.pres_kept_perform
      alone.pres_kept_upd) auto

lemma kept_create:
  assumes s: "kept (\<lambda>_. R) (writing l0 0) b s"
  shows "wp (create_temporary ops name) (\<lambda>r t. case r of
      Val (sid, h) \<Rightarrow> usable h \<and> kept (\<lambda>_. R) (writing l0 h) b t
    | Err e \<Rightarrow> kept (\<lambda>_. R) (mine l0) b t) s"
  unfolding create_temporary_def
proof (rule wp_seq_pres [where I = "kept (\<lambda>_. R) (writing l0 0) b", OF _ s])
  show "pres (kept (\<lambda>_. R) (writing l0 0) b) (check_lease ops)" by (rule alone.pres_kept_check) simp
next
  fix e and t :: commit_run assume "kept (\<lambda>_. R) (writing l0 0) b t"
  then show "case Err e of Val (sid, h) \<Rightarrow> usable h \<and> kept (\<lambda>_. R) (writing l0 h) b t
      | Err e \<Rightarrow> kept (\<lambda>_. R) (mine l0) b t" by (simp add: kept_writing)
next
  fix sid and t :: commit_run assume t: "kept (\<lambda>_. R) (writing l0 0) b t"
  define c where "c = Temporary_create (pin_handle (store_directory (cur t))) name sid"
  define a where "a = ops (hist t) c"
  let ?t = "t\<lparr>hist := hist t @ [(c, a)]\<rparr>"
  have opened: "kept (\<lambda>_. R + hm (a_handle a)) (writing l0 0) b ?t"
    using t by (intro alone.kept_open) (simp_all add: c_def)
  have "kept (\<lambda>_. R + hm (a_handle a)) (\<lambda>l. mine l0 l \<and> null_or_usable (l_target l)) b ?t"
    by (rule kept_mono [OF opened]) (simp add: writing_def)
  then have "kept (\<lambda>_. R) (\<lambda>l. mine l0 l \<and> null_or_usable (l_target l)) b (?t\<lparr>cur := (cur ?t)\<lparr>l_temporary := a_handle a\<rparr>\<rparr>)"
    using t by (intro alone.kept_to_temporary) (auto simp: kept_def writing_def mine_def)
  then have "kept (\<lambda>_. R) (writing l0 (a_handle a)) b
      (t\<lparr>hist := hist t @ [(c, a)], cur := (cur t)\<lparr>l_temporary := a_handle a\<rparr>\<rparr>)"
    by (auto simp: kept_def mine_def)
  then show "wp (seq (lease_get store_directory) (\<lambda>directory.
      seq (invoke ops (Temporary_create (pin_handle directory) name sid)) (\<lambda>c.
      seq (upd (\<lambda>l. l\<lparr>l_temporary := a_handle c\<rparr>)) (\<lambda>_. seq (expect c) (\<lambda>_.
      seq (require (usable (a_handle c)) UNAVAILABLE) (\<lambda>_. ret (sid, a_handle c))))))) (\<lambda>r t. case r of
        Val (sid, h) \<Rightarrow> usable h \<and> kept (\<lambda>_. R) (writing l0 h) b t
      | Err e \<Rightarrow> kept (\<lambda>_. R) (mine l0) b t) t"
    by (simp add: wp_simps c_def a_def kept_writing)
qed

lemma kept_fill: "pres (kept (\<lambda>_. R) (writing l0 h) b) (fill_temporary ops input p)"
  unfolding fill_temporary_def
  by (cases p, simp only: prod.case)
    (intro pres_intros alone.pres_kept_check alone.pres_kept_target_current alone.pres_kept_perform, auto)

lemma kept_prepare:
  assumes s: "kept (\<lambda>_. R) (writing l0 0) b s"
  shows "wp (prepare_temporary ops input) (\<lambda>r t. case r of
      Val _ \<Rightarrow> \<exists>h. usable h \<and> kept (\<lambda>_. R) (writing l0 h) b t
    | Err e \<Rightarrow> kept (\<lambda>_. R) (mine l0) b t) s"
  unfolding prepare_temporary_def
proof (rule wp_seq_pres [OF kept_choose s])
  fix name and t :: commit_run assume t: "kept (\<lambda>_. R) (writing l0 0) b t"
  show "wp (seq (create_temporary ops name) (fill_temporary ops input)) (\<lambda>r t. case r of
      Val _ \<Rightarrow> \<exists>h. usable h \<and> kept (\<lambda>_. R) (writing l0 h) b t
    | Err e \<Rightarrow> kept (\<lambda>_. R) (mine l0) b t) t"
    unfolding wp_seq
  proof (rule wp_mono [OF kept_create [OF t]])
    fix r :: "(u8 list \<times> handle) res" and u :: commit_run
    assume r: "case r of Val (sid, h) \<Rightarrow> usable h \<and> kept (\<lambda>_. R) (writing l0 h) b u
      | Err e \<Rightarrow> kept (\<lambda>_. R) (mine l0) b u"
    show "case r of
        Val p \<Rightarrow> wp (fill_temporary ops input p) (\<lambda>r t. case r of
            Val _ \<Rightarrow> \<exists>h. usable h \<and> kept (\<lambda>_. R) (writing l0 h) b t
          | Err e \<Rightarrow> kept (\<lambda>_. R) (mine l0) b t) u
      | Err e \<Rightarrow> (case Err e of
            Val _ \<Rightarrow> \<exists>h. usable h \<and> kept (\<lambda>_. R) (writing l0 h) b u
          | Err e \<Rightarrow> kept (\<lambda>_. R) (mine l0) b u)"
    proof (cases r)
      case (Val p)
      then obtain h where h: "usable h" "kept (\<lambda>_. R) (writing l0 h) b u" using r by (cases p) auto
      then show ?thesis
        unfolding Val res.case
        by (intro wp_mono [OF wp_pres [OF kept_fill h(2)]]) (auto intro: kept_writing split: res.splits)
    qed (use r in simp)
  qed
qed (simp add: kept_writing)

lemma kept_close_target:
  assumes s: "kept (\<lambda>_. R) (writing l0 h) b s"
  shows "wp (close_target ops) (\<lambda>r t. kept (\<lambda>_. R) (writing l0 h) b t) s"
proof (cases "l_target (cur s) = 0")
  case True
  then show ?thesis using s by (simp add: close_target_def wp_simps)
next
  case False
  define k where "k = l_target (cur s)"
  have k: "usable k" using s False by (simp add: k_def kept_def writing_def null_or_usable_def)
  have "kept (\<lambda>_. R + hm k) (writing l0 h) b (s\<lparr>cur := (cur s)\<lparr>l_target := 0\<rparr>\<rparr>)"
    using s by (intro alone.kept_from_target) (simp_all add: k_def kept_def)
  then have "kept (\<lambda>_. R + hm k) (writing l0 h) b (s\<lparr>cur := (cur s)\<lparr>l_target := 0\<rparr>, stage := Target_close\<rparr>)"
    by (simp add: kept_def custody_def)
  then have out: "kept (\<lambda>_. R) (writing l0 h) b (s\<lparr>cur := (cur s)\<lparr>l_target := 0\<rparr>, stage := Target_close,
      hist := hist s @ [(Close k, a)]\<rparr>)" for a
    using alone.kept_closed [where c = "Close k" and h = k and a = a] k by fastforce
  then have "kept (\<lambda>_. R) (writing l0 h) b (s\<lparr>stage := Target_close, hist := hist s @ [(Close k, a)],
      cur := quarantine ((cur s)\<lparr>l_target := 0\<rparr>)\<rparr>)" if "\<not> a_flag a" for a
    using that alone.kept_quarantine [OF out [of a]] by (simp add: kept_def custody_def)
  then show ?thesis
    using False out by (simp add: close_target_def at_stage_def wp_simps k_def [symmetric])
qed

lemma pres_kept_validate: "pres (kept (\<lambda>_. R) (writing l0 h) b) (validate_published ops)"
  unfolding validate_published_def
  by (intro pres_intros alone.pres_kept_check alone.pres_kept_target_current)
    (auto intro!: pres_intros split: res.splits)

lemma kept_publish:
  assumes s: "kept (\<lambda>_. R) (writing l0 h) b s" and h: "usable h"
  shows "wp (publish_temporary ops temp) (\<lambda>r t. kept (\<lambda>_. R) (mine l0) b t) s"
proof -
  define c where "c = replace_call (cur s)"
  define a where "a = ops (hist s) c"
  let ?s = "s\<lparr>replacing := True, stage := Rename, hist := hist s @ [(c, a)]\<rparr>"
  have renamed: "kept (\<lambda>_. R) (writing l0 h) b ?s"
    using s by (simp add: kept_def custody_def c_def accounted_quiet prefix_snoc)
  let ?t = "?s\<lparr>cur := (cur s)\<lparr>l_temporary := 0\<rparr>, stage := Published_close\<rparr>"
  define d where "d = ops (hist s @ [(c, a)]) (Close h)"
  let ?u = "?t\<lparr>hist := (hist s @ [(c, a)]) @ [(Close h, d)]\<rparr>"
  have "kept (\<lambda>_. R + hm h) (mine l0) b (?s\<lparr>cur := (cur ?s)\<lparr>l_temporary := 0\<rparr>\<rparr>)"
    using renamed h by (intro alone.kept_from_temporary kept_writing) (auto simp: kept_def writing_def mine_def)
  then have "kept (\<lambda>_. R + hm h) (\<lambda>l. writing l0 0 l) b ?t"
    using s by (simp add: kept_def custody_def writing_def mine_def)
  then have shut: "kept (\<lambda>_. R) (writing l0 0) b ?u"
    using alone.kept_closed [where c = "Close h" and h = h and a = d] h by fastforce
  have q: "kept (\<lambda>_. R) (writing l0 0) b (?u\<lparr>cur := quarantine (cur ?u)\<rparr>)" if "\<not> a_flag d"
    using that clean_append [of "hist s @ [(c, a)]" "Close h" d] by (intro alone.kept_quarantine [OF shut]) simp_all
  have v: "kept (\<lambda>_. R) (writing l0 0) b (?u\<lparr>stage := Published_validate,
      cur := (cur ?u)\<lparr>l_missing := False, l_target_identity := temp\<rparr>\<rparr>)"
    using shut by (simp add: kept_def custody_def)
  have temporary: "l_temporary (cur s) = h" using s by (simp add: kept_def writing_def)
  have "wp (validate_published ops) (\<lambda>r t. kept (\<lambda>_. R) (mine l0) b t) (?u\<lparr>stage := Published_validate,
      cur := (cur ?u)\<lparr>l_missing := False, l_target_identity := temp\<rparr>\<rparr>)"
    by (rule wp_mono [OF wp_pres [OF pres_kept_validate v]]) (rule kept_writing)
  then show ?thesis
    using kept_writing [OF renamed] kept_writing [OF q]
    unfolding publish_temporary_def at_stage_def
    by (simp add: wp_seq [of "modify _"] wp_modify wp_seq [of "lease_get _"] wp_lease_get
        wp_seq [of "invoke _ _"] wp_invoke wp_seq [of "upd _"] wp_upd wp_seq [of "require _ _"] wp_require
        wp_seq [of "if is_exception _ then _ else _"] wp_if wp_err wp_ret temporary
        c_def [symmetric] a_def [symmetric] d_def [symmetric])
qed

lemma kept_commit:
  assumes s: "kept (\<lambda>_. R) (writing l0 0) b s"
  shows "wp (commit_chain ops input) (\<lambda>r t. kept (\<lambda>_. R) (mine l0) b t) s"
  unfolding commit_chain_def
proof (rule wp_seq_pres [OF pres_at_stage s])
  fix t :: commit_run assume t: "kept (\<lambda>_. R) (writing l0 0) b t"
  have rest: "wp (seq (close_target ops) (\<lambda>_. publish_temporary ops temp)) (\<lambda>r t. kept (\<lambda>_. R) (mine l0) b t) u"
    if "usable h" "kept (\<lambda>_. R) (writing l0 h) b u" for h u temp
    by (rule wp_bind_res [OF kept_close_target [OF that(2)]]) (simp_all add: kept_publish that(1) kept_writing)
  show "wp (seq (prepare_temporary ops input) (\<lambda>temp. seq (close_target ops) (\<lambda>_. publish_temporary ops temp)))
      (\<lambda>r t. kept (\<lambda>_. R) (mine l0) b t) t"
    unfolding wp_seq [of "prepare_temporary ops input"]
    by (rule wp_mono [OF kept_prepare [OF t]]) (auto intro: rest split: res.splits)
qed (simp add: kept_writing)

lemma settled_finish:
  fixes r :: "'x run_scheme"
  assumes k: "kept (\<lambda>_. others i s) (mine (owner_at s i)) (o_hist s, n) r" and n: "0 < n"
    and run: "finish ops r = (x, r')"
  shows "settled i s r' \<and> l_ticket (cur r') = 0 \<and> (\<exists>ok. x = Val ok)"
proof -
  have fr: "frame (\<lambda>_ :: 'x run_scheme. others i s)" by unfold_locales simp_all
  have "wp (finish ops) (\<lambda>x t. kept (\<lambda>_. others i s) (mine (owner_at s i)) (o_hist s, n) t \<and>
      (\<exists>ok. x = Val ok \<and> finish_effect ok r t)) r"
    using k by (intro frame.kept_finish [OF fr]) (simp_all add: flagless_def mine_def kept_def finished_def)
  from wp_run [OF this run] obtain ok where f: "x = Val ok" "finish_effect ok r r'"
    and k': "kept (\<lambda>_. others i s) (mine (owner_at s i)) (o_hist s, n) r'" by blast
  have "l_ticket (cur r') = 0" "l_target (cur r') = 0" "l_temporary (cur r') = 0"
    using f(2) by (auto simp: finish_effect_def)
  then show ?thesis
    using k' f(1) n kept_settled [OF k' n] by (simp add: idle_def kept_def)
qed

lemma begin_slot_inv:
  assumes inv: "objects_inv s" and i: "i < length (o_owners s)" "o_owners s ! i = Some (owner_at s i)"
    and free: "l_ticket (owner_at s i) = 0" and n: "o_next_ticket s \<le> INT64_MAX"
  shows "objects_inv (snd (snd (begin_slot ops i output capacity written ticket s)))"
proof -
  let ?l = "owner_at s i"
  have idle: "l_temporary ?l = 0" "l_target ?l = 0"
    using owner_inv [OF inv i] free by (simp_all add: lease_inv_def idle_def)
  have n': "0 < o_next_ticket s" "0 < o_next_ticket s + 1"
    using inv next_token_later [OF _ n] by (auto simp: objects_inv_def)
  obtain x r where run: "begin_chain ops (unat capacity) (enter i s) = (x, r)" by fastforce
  have "kept (\<lambda>_. others i s) (targeting ?l 0) (o_hist s, o_next_ticket s) (enter i s)"
    using idle by (intro enter_kept inv i) (simp add: targeting_def quiet_lease_def)
  from wp_run [OF alone.kept_begin [OF this] run]
  have post: "case x of
      Val (original, bytes, ticket) \<Rightarrow> ticket = o_next_ticket s \<and> l_ticket (cur r) = o_next_ticket s \<and>
        null_or_usable (l_target (cur r)) \<and> kept (\<lambda>_. others i s) (quiet_lease ?l) (o_hist s, o_next_ticket s + 1) r
    | Err e \<Rightarrow> kept (\<lambda>_. others i s) (quiet_lease ?l) (o_hist s, o_next_ticket s) r" .
  show ?thesis
  proof (cases x)
    case (Val v)
    then obtain original bytes t where v: "x = Val (original, bytes, t)" by (cases v) auto
    then have "settled i s r"
      using post n' by (auto intro!: kept_settled simp: quiet_lease_def idle_def kept_def)
    then show ?thesis
      using objects_inv_leave [OF inv i] by (simp add: begin_slot_def run v)
  next
    case (Err e)
    obtain fin r' where f: "finish ops r = (fin, r')" by fastforce
    have "kept (\<lambda>_. others i s) (mine ?l) (o_hist s, o_next_ticket s) r"
      using post Err by (auto intro: kept_mono simp: quiet_lease_def)
    from settled_finish [OF this n'(1) f] have "settled i s r'" by blast
    then show ?thesis
      using objects_inv_leave [OF inv i] by (simp add: begin_slot_def run Err f)
  qed
qed

theorem begin_keeps_inv:
  assumes inv: "objects_inv s"
  shows "objects_inv (snd (snd (begin_op ops version owner kind output capacity written ticket s)))"
proof -
  let ?s1 = "o_write (clear_begin output capacity written ticket) s"
  have inv1: "objects_inv ?s1" using inv by simp
  have "objects_inv (snd (snd (begin_slot ops i output capacity written ticket (set_kind i kind ?s1))))"
    if "find_owner owner ?s1 = Some i" "l_ticket (owner_at ?s1 i) = 0" "o_next_ticket ?s1 \<le> INT64_MAX" for i
  proof -
    note f = find_owner_Some [OF that(1)]
    have f1: "i < length (o_owners ?s1)" "o_owners ?s1 ! i = Some (owner_at ?s1 i)" using f by auto
    note k = set_kind_inv [OF inv1 f1, of kind]
    show ?thesis
      using that k by (intro begin_slot_inv) simp_all
  qed
  then show ?thesis
    using inv inv1 by (auto simp: begin_op_def Let_def not_less split: option.splits)
qed

theorem abort_keeps_inv:
  assumes inv: "objects_inv s"
  shows "objects_inv (snd (abort_op ops version owner ticket credential s))"
proof -
  have "objects_inv (leave i r s)" if "find_owner owner s = Some i" "finish ops (enter i s) = (x, r)" for i x r
  proof -
    note f = find_owner_Some [OF that(1)]
    have f1: "i < length (o_owners s)" "o_owners s ! i = Some (owner_at s i)" using f by auto
    have "kept (\<lambda>_. others i s) (mine (owner_at s i)) (o_hist s, o_next_ticket s) (enter i s)"
      by (rule enter_kept [OF inv f1]) simp
    from settled_finish [OF this _ that(2)] show ?thesis
      using objects_inv_ticket [OF inv] objects_inv_leave [OF inv f1] by blast
  qed
  then show ?thesis using inv by (auto simp: abort_op_def split: option.splits prod.splits)
qed

lemma enter_commit_kept:
  assumes inv: "objects_inv s" and i: "i < length (o_owners s)" "o_owners s ! i = Some (owner_at s i)"
  shows "kept (\<lambda>_. others i s) (writing (owner_at s i) 0) (o_hist s, o_next_ticket s) (enter_commit i s)"
  using enter_custody [OF inv i] owner_inv [OF inv i]
  by (simp add: kept_def custody_def enter_def enter_commit_def writing_def lease_inv_def idle_def)

theorem commit_keeps_inv:
  assumes inv: "objects_inv s"
  shows "objects_inv (snd (snd (commit_op ops version owner ticket credential input len s)))"
proof -
  have "objects_inv (leave i r' s)"
    if f: "find_owner owner s = Some i" and c: "commit_chain ops bytes (enter_commit i s) = (x, r)"
      and fin: "finish ops r = (y, r')" for i bytes x r y r'
  proof -
    note k = find_owner_Some [OF f]
    have i: "i < length (o_owners s)" "o_owners s ! i = Some (owner_at s i)" using k by auto
    have "kept (\<lambda>_. others i s) (mine (owner_at s i)) (o_hist s, o_next_ticket s) r"
      by (rule wp_run [OF kept_commit [OF enter_commit_kept [OF inv i]] c])
    from settled_finish [OF this objects_inv_ticket [OF inv] fin] show ?thesis
      using objects_inv_leave [OF inv i] by blast
  qed
  then show ?thesis
    using inv by (auto simp: commit_op_def commit_slot_def Let_def split: option.splits prod.splits)
qed

end
