(* ===== verification/Sample_World.thy ===== *)
theory Sample_World
  imports Object_Ops Owner_Leases
begin

text \<open>
  A concrete operating system and a concrete owner on which the store theories apply their
  theorems: one directory behind handle 1, one protected file behind every other handle,
  a target that exists once it has been renamed into place.
\<close>

definition sample_sid :: sid where
  "sample_sid = [1]"

definition sample_ace :: "u8 \<Rightarrow> ace" where
  "sample_ace flags = \<lparr>ace_type = ACCESS_ALLOWED, ace_flags = flags, ace_mask = FILE_ALL_ACCESS, ace_sid = sample_sid\<rparr>"

definition sample_file :: object_info where
  "sample_file = \<lparr>volume = 4, file_index = 2, attributes = 0, drive_type = DRIVE_FIXED, links = 1,
     filesystem = wide ''NTFS'', owner_sid = sample_sid, dacl_present = True, dacl_protected = True,
     aces = [sample_ace 0]\<rparr>"

definition sample_directory :: object_info where
  "sample_directory = sample_file\<lparr>file_index := 1, attributes := ATTRIBUTE_DIRECTORY, aces := [sample_ace INHERIT_FLAGS]\<rparr>"

definition sample_pin :: pin where
  "sample_pin = \<lparr>pin_handle = 1, pin_identity = sample_directory, pin_owner = True, pin_dacl = True\<rparr>"

definition sample_answer :: answer where
  "sample_answer = inert_answer\<lparr>outcome := Status OK, a_flag := True\<rparr>"

fun is_rename :: "event \<Rightarrow> bool" where
  "is_rename (Replace_file t d e, a) = True"
| "is_rename (Credential_replace t d k e, a) = True"
| "is_rename (Discovery_replace t d k e, a) = True"
| "is_rename _ = False"

definition sample_target :: "event list \<Rightarrow> answer" where
  "sample_target h =
     (if list_ex is_rename h then sample_answer\<lparr>a_handle := 7\<rparr> else sample_answer\<lparr>outcome := Status MISSING\<rparr>)"

fun sample_ops :: object_ops where
  "sample_ops h User_sid = sample_answer\<lparr>a_sid := sample_sid\<rparr>"
| "sample_ops h (Inspect k) = sample_answer\<lparr>a_info := (if k = 1 then sample_directory else sample_file)\<rparr>"
| "sample_ops h (Association_open d s) = sample_target h"
| "sample_ops h (Credential_open d k s) = sample_target h"
| "sample_ops h (Discovery_open d k) = sample_target h"
| "sample_ops h Random_name = sample_answer\<lparr>a_runtime := replicate 16 97, a_random := replicate 8 98\<rparr>"
| "sample_ops h (Temporary_create d n s) = sample_answer\<lparr>a_handle := 9\<rparr>"
| "sample_ops h (Exchange_lock d s) = sample_answer\<lparr>a_handle := 3\<rparr>"
| "sample_ops h (Exchange_open d n m s) = sample_answer\<lparr>a_handle := 5\<rparr>"
| "sample_ops h (Exchange_read k n) = sample_answer\<lparr>a_bytes := narrow ''SHREXCHA'' @ 1 # replicate 16 0\<rparr>"
| "sample_ops h c = sample_answer"

text \<open>A lease of the Bridge whose chain is complete, and the component with that owner alone.\<close>

definition sample_lease :: lease where
  "sample_lease = (new_lease 1 ROLE_BRIDGE)\<lparr>l_pins := replicate 5 sample_pin, l_kind := 4\<rparr>"

definition sample_objects :: "lease \<Rightarrow> objects" where
  "sample_objects l = (new_objects True [] (\<lambda>_. 0))\<lparr>o_next_token := 2, o_next_ticket := 2,
     o_owners := Some l # replicate 31 None\<rparr>"

end
