(* ===== verification/Association_Contract.thy ===== *)
theory Association_Contract
  imports Association_Store Sample_World
begin

text \<open>
  What a transaction on an association or credential file promises its caller: one rename at
  most, no success without a confirmed rename, uncertainty reported exactly after a rename
  was entered, and a ticket that is good for one attempt.
\<close>

section \<open>The calls of a transaction\<close>

lemma not_renaming [simp]: "\<not> renaming (target_call sid l)"
  by (simp add: target_call_def)

lemma renaming_replace [simp]: "renaming (replace_call l)"
  by (simp add: replace_call_def)

text \<open>Steps that a predicate of the log and the frame survives.\<close>

lemma stable_observe:
  assumes "stable P I" "\<And>h. P (Inspect h)"
  shows "pres I (observe_target ops sid a)"
  unfolding observe_target_def
  by (intro pres_intros stable_perform [OF assms(1)] assms(2)) (auto intro!: pres_intros)

lemma stable_close_observed:
  assumes "stable P I" "\<And>s. I s \<Longrightarrow> I (s\<lparr>cur := quarantine (cur s)\<rparr>)" "\<And>h. P (Close h)"
  shows "pres I (close_observed ops h r)"
  unfolding close_observed_def
  by (cases r) (auto intro!: pres_intros stable_close [OF assms(1)] pres_upd assms)

lemma stable_target_current:
  assumes "stable P I" "\<And>s. I s \<Longrightarrow> I (s\<lparr>cur := quarantine (cur s)\<rparr>)"
    "\<And>h. P (Inspect h)" "\<And>h. P (Close h)" "\<And>sid l. P (target_call sid l)"
  shows "pres I (target_current ops sid)"
proof (rule pres_wp)
  fix s assume s: "I s"
  have "pres I (seq (invoke ops (target_call sid (cur s))) (\<lambda>a.
      seq (attempt (observe_target ops sid a)) (close_observed ops (a_handle a))))"
    by (intro pres_intros stable_invoke [OF assms(1)] stable_observe [OF assms(1)]
        stable_close_observed [OF assms(1,2)] assms)
  from wp_pres [OF this s] show "wp (target_current ops sid) (\<lambda>r t. I t) s"
    using s by (simp add: target_current_def wp_seq [of "lease_get _"] wp_lease_get wp_seq [of "require _ _"] wp_require)
qed













section \<open>A chain fails with a failing status\<close>

lemma proper_target_current [proper_intros]: "proper (target_current ops sid)"
proof -
  have "proper (observe_target ops sid a)" for a
    unfolding observe_target_def by (auto intro!: proper_intros proper_err)
  moreover have "proper (close_observed ops h r)" if "r \<noteq> Err (Status OK)" for h r
    unfolding close_observed_def using that
    by (cases r) (auto intro!: proper_intros proper_err simp: resume_def)
  ultimately show ?thesis
    unfolding target_current_def by (intro proper_intros proper_attempt) simp_all
qed

lemma proper_validate [proper_intros]: "proper (validate_published ops)"
  unfolding validate_published_def
  by (rule proper_attempt, intro proper_intros) (auto intro!: proper_intros proper_err split: res.splits)

lemma proper_commit: "proper (commit_chain ops input)"
  unfolding commit_chain_def prepare_temporary_def choose_temporary_def create_temporary_def
    fill_temporary_def close_target_def publish_temporary_def at_stage_def
  by (intro proper_intros) (auto intro!: proper_intros proper_err)

section \<open>The ticket\<close>

lemma pres_token [pres_intros]:
  "pres (token_is k) (invoke ops c)" "pres (token_is k) (perform ops c)"
  "(\<And>l. l_token (f l) = l_token l) \<Longrightarrow> pres (token_is k) (upd f)"
  "pres (token_is k) (check_lease ops)" "pres (token_is k) (target_current ops sid)"
  "pres (token_is k) (close_usable ops h)" "pres (token_is k) (at_stage st)"
  using stable_invoke [OF stable_token] stable_perform [OF stable_token] stable_close [OF stable_token]
    stable_target_current [OF stable_token]
  by (auto simp: token_is_def quarantine_def at_stage_def intro!: pres_check_lease pres_upd pres_modify)

lemma pres_token_commit: "pres (token_is k) (commit_chain ops input)"
  unfolding commit_chain_def prepare_temporary_def choose_temporary_def create_temporary_def
    fill_temporary_def close_target_def publish_temporary_def validate_published_def
  by (intro pres_intros) (auto intro!: pres_intros pres_modify simp: quarantine_def token_is_def split: res.splits)

lemma pres_token_finish: "pres (token_is k) (finish ops)"
  unfolding finish_def by (intro pres_intros) (auto simp: quarantine_def)

lemma finish_ticket: "finish ops s = (r, t) \<Longrightarrow> l_ticket (cur t) = 0"
  using wp_run [OF wp_finish, of ops s r t] by (auto simp: finish_effect_def finished_def)

lemma commit_op_cases:
  assumes run: "commit_op ops version owner ticket credential input len s = (st, d, s')"
  obtains (refused) "s' = s" "st = ABI_MISMATCH \<or> st = INVALID_INPUT"
      "version = ABI_VERSION \<longrightarrow> span input len \<longrightarrow>
         (case find_owner owner s of None \<Rightarrow> True | Some i \<Rightarrow> \<not> ticket_matches (owner_at s i) ticket credential)"
  | (ran) i x r y r' where "find_owner owner s = Some i" "ticket_matches (owner_at s i) ticket credential"
      "commit_chain ops (read_bytes input len (o_mem s)) (enter_commit i s) = (x, r)" "finish ops r = (y, r')"
      "s' = leave i r' s"
      "st = (if y = Val True then commit_status (replacing r') x
             else if replacing r' then COMMIT_UNKNOWN else UNAVAILABLE)"
      "d_stage d = (if st = OK then Complete else stage r')"
proof (cases "find_owner owner s")
  case None
  then show ?thesis using run by (intro refused) (auto simp: commit_op_def split: if_splits)
next
  case (Some i)
  show ?thesis
  proof (cases "version = ABI_VERSION \<and> span input len \<and> ticket_matches (owner_at s i) ticket credential")
    case False
    then show ?thesis using run Some by (intro refused) (auto simp: commit_op_def split: if_splits)
  next
    case True
    obtain x r where x: "commit_chain ops (read_bytes input len (o_mem s)) (enter_commit i s) = (x, r)" by fastforce
    obtain y r' where y: "finish ops r = (y, r')" by fastforce
    show ?thesis
      using run True Some x y by (intro ran [OF Some _ x y]) (auto simp: commit_op_def commit_slot_def Let_def)
  qed
qed

section \<open>The order of the calls\<close>

text \<open>
  Since \<open>h\<close> the calls \<open>cs\<close> were made in this order, among others; the lease still has the
  pins, kind and target state of \<open>l0\<close>, and the temporary \<open>k\<close>.
\<close>

definition logged :: "event list \<Rightarrow> call list \<Rightarrow> 'x run_scheme \<Rightarrow> bool" where
  "logged h cs s \<longleftrightarrow> (\<exists>es. hist s = h @ es \<and> subseq cs (map fst es))"

definition progress :: "event list \<Rightarrow> lease \<Rightarrow> call list \<Rightarrow> handle \<Rightarrow> 'x run_scheme \<Rightarrow> bool" where
  "progress h l0 cs k s \<longleftrightarrow> logged h cs s \<and> l_pins (cur s) = l_pins l0 \<and> l_kind (cur s) = l_kind l0 \<and>
     l_missing (cur s) = l_missing l0 \<and> l_temporary (cur s) = k"

lemma logged_step: "logged h cs s \<Longrightarrow> logged h (cs @ [c]) (s\<lparr>hist := hist s @ [(c, a)]\<rparr>)"
  by (force simp: logged_def intro: list_emb_append_mono)

lemma logged_two:
  assumes "logged h cs s" and "hist t = hist s @ es @ [(c, a), (d, b)]"
  shows "logged h (cs @ [c, d]) t"
proof -
  obtain fs where fs: "hist s = h @ fs" "subseq cs (map fst fs)" using assms(1) by (auto simp: logged_def)
  have "subseq cs (map fst (fs @ es))" using fs(2) by (simp add: subseq_rev_drop_many)
  then have "subseq (cs @ [c, d]) (map fst (fs @ es) @ [c, d])" by (rule list_emb_append_mono) simp
  then show ?thesis using assms(2) fs(1) by (auto simp: logged_def intro!: exI [of _ "fs @ es @ [(c, a), (d, b)]"])
qed

lemma logged_other: "logged h cs s \<Longrightarrow> logged h cs (s\<lparr>hist := hist s @ es\<rparr>)"
  by (auto simp: logged_def intro!: exI [where P = "\<lambda>x. _ @ _ = x \<and> _"] subseq_order.trans [OF _ list_emb_prefix])

lemma stable_logged: "stable (\<lambda>_. True) (logged h cs)" "lease_free (logged h cs)"
  unfolding stable_def lease_free_def using logged_other by (blast, simp add: logged_def)

lemma stable_progress: "stable (\<lambda>_. True) (progress h l0 cs k)"
  by (simp add: stable_def progress_def logged_other)

lemma progress_updates [simp]:
  "progress h l0 cs k (s\<lparr>cur := quarantine (cur s)\<rparr>) = progress h l0 cs k s"
  "progress h l0 cs k (s\<lparr>cur := (cur s)\<lparr>l_denied := b\<rparr>\<rparr>) = progress h l0 cs k s"
  "progress h l0 cs k (s\<lparr>cur := (cur s)\<lparr>l_target := t\<rparr>\<rparr>) = progress h l0 cs k s"
  "progress h l0 cs k (s\<lparr>cur := (cur s)\<lparr>l_runtime_id := w\<rparr>\<rparr>) = progress h l0 cs k s"
  by (simp_all add: progress_def logged_def quarantine_def)

lemma pres_progress [pres_intros]:
  "pres (progress h l0 cs k) (invoke ops c)" "pres (progress h l0 cs k) (perform ops c)"
  "pres (progress h l0 cs k) (check_lease ops)" "pres (progress h l0 cs k) (target_current ops sid)"
  "pres (progress h l0 cs k) (at_stage st)"
  using stable_invoke [OF stable_progress] stable_perform [OF stable_progress] stable_target_current [OF stable_progress]
  by (auto intro!: pres_check_lease pres_modify simp: at_stage_def stable_progress [unfolded stable_def, simplified])
    (simp_all add: progress_def logged_def)

lemma pres_progress_choose: "pres (progress h l0 cs k) (choose_temporary ops)"
  unfolding choose_temporary_def by (intro pres_intros) (auto intro!: pres_upd)

lemma pres_progress_close: "pres (progress h l0 cs k) (close_target ops)"
  unfolding close_target_def by (intro pres_intros) (auto intro!: pres_upd pres_intros)

lemma progress_create:
  assumes s: "progress h l0 [] k0 s"
  shows "wp (create_temporary ops name) (\<lambda>r t. \<forall>sid k. r = Val (sid, k) \<longrightarrow> usable k \<and> progress h l0 [] k t) s"
  unfolding create_temporary_def
  by (rule wp_seq_pres [where I = "progress h l0 [] k0", OF _ s])
    (auto intro: pres_intros simp: wp_simps progress_def logged_def)

lemma progress_fill:
  assumes s: "progress h l0 [] k s"
  shows "wp (fill_temporary ops input (sid, k))
    (\<lambda>r t. (\<exists>temp. r = Val temp) \<longrightarrow> progress h l0 [Write_file k input, Flush_file k] k t) s"
proof -
  have mid: "wp (seq (check_lease ops) (\<lambda>sid. seq (target_current ops sid) (\<lambda>_. seq (perform ops (Inspect k)) (\<lambda>u.
      seq (require (object_valid (a_info u) sid False True True \<and> same_object (a_info u) (a_info t)) UNAVAILABLE)
        (\<lambda>_. ret (a_info t)))))) (\<lambda>r t. (\<exists>temp. r = Val temp) \<longrightarrow> progress h l0 cs k t) v"
    if "progress h l0 cs k v" for t v cs
    by (rule wp_mono [OF wp_pres [where I = "progress h l0 cs k", OF _ that]]) (intro pres_intros, simp)
  have two: "progress h l0 [Write_file k input, Flush_file k] k
      (s\<lparr>hist := hist s @ [e, (Write_file k input, b), (Flush_file k, c)]\<rparr>)" for e b c
    using s logged_two [of h "[]" s "s\<lparr>hist := hist s @ [e, (Write_file k input, b), (Flush_file k, c)]\<rparr>" "[e]"
        "Write_file k input" b "Flush_file k" c] by (simp add: progress_def)
  show ?thesis
    unfolding fill_temporary_def prod.case
    by (simp add: wp_seq [of "lease_get _"] wp_lease_get wp_seq [of "perform _ _"] wp_perform Let_def
        wp_seq [of "require _ _"] wp_require) (intro impI mid two)
qed

lemma progress_prepare:
  assumes s: "progress h l0 [] k0 s"
  shows "wp (prepare_temporary ops input)
    (\<lambda>r t. \<forall>temp. r = Val temp \<longrightarrow> (\<exists>k. usable k \<and> progress h l0 [Write_file k input, Flush_file k] k t)) s"
  unfolding prepare_temporary_def
proof (rule wp_seq_pres [where I = "progress h l0 [] k0", OF pres_progress_choose s])
  fix name and t :: commit_run assume t: "progress h l0 [] k0 t"
  show "wp (seq (create_temporary ops name) (fill_temporary ops input)) (\<lambda>r t. \<forall>temp. r = Val temp \<longrightarrow>
      (\<exists>k. usable k \<and> progress h l0 [Write_file k input, Flush_file k] k t)) t"
    unfolding wp_seq
    by (rule wp_mono [OF progress_create [OF t]])
      (auto split: res.splits intro!: wp_mono [OF progress_fill])
qed simp

text \<open>The rename a lease stands for, with the temporary \<open>k\<close>.\<close>

definition replace_of :: "lease \<Rightarrow> handle \<Rightarrow> call" where
  "replace_of l0 k = replace_call (l0\<lparr>l_temporary := k\<rparr>)"

lemma replace_of_progress: "progress h l0 cs k s \<Longrightarrow> replace_call (cur s) = replace_of l0 k"
  by (simp add: progress_def replace_of_def replace_call_def store_directory_def directory_index_def)

lemma logged_publish:
  assumes s: "progress h l0 cs k s"
  shows "wp (publish_temporary ops temp)
    (\<lambda>r t. r = Val () \<longrightarrow> logged h (cs @ [replace_of l0 k, Close k]) t) s"
proof -
  have validate: "wp (validate_published ops) (\<lambda>r t. r = Val () \<longrightarrow> logged h ds t) t" if "logged h ds t" for ds t
  proof -
    have "pres (logged h ds) (validate_published ops)"
      unfolding validate_published_def
      using stable_check [OF stable_logged] stable_target_current [OF stable_logged(1)]
      by (intro pres_intros) (auto intro!: pres_intros simp: logged_def split: res.splits)
    then have "wp (validate_published ops) (\<lambda>r t. logged h ds t) t" using that by (rule wp_pres)
    then show ?thesis by (rule wp_mono) simp
  qed
  have two: "logged h (cs @ [replace_of l0 k, Close k]) t"
    if "hist t = hist s @ [(replace_of l0 k, b), (Close k, c)]" for t b c
    using s that logged_two [of h cs s t "[]" "replace_of l0 k" b "Close k" c] by (simp add: progress_def)
  have k: "l_temporary (cur s) = k" "replace_call (cur s) = replace_of l0 k"
    using s replace_of_progress [OF s] by (simp_all add: progress_def)
  show ?thesis
    unfolding publish_temporary_def at_stage_def
    by (simp add: wp_seq [of "modify _"] wp_modify wp_seq [of "lease_get _"] wp_lease_get
        wp_seq [of "invoke _ _"] wp_invoke wp_seq [of "upd _"] wp_upd wp_seq [of "require _ _"] wp_require
        wp_seq [of "if is_exception _ then _ else _"] wp_if wp_err wp_ret k)
      (intro impI validate two, simp)
qed

lemma logged_commit:
  assumes s: "progress h l0 [] k0 s"
  shows "wp (commit_chain ops input) (\<lambda>r t. r = Val () \<longrightarrow> (\<exists>k. usable k \<and>
    logged h [Write_file k input, Flush_file k, replace_of l0 k, Close k] t)) s"
  unfolding commit_chain_def
proof (rule wp_seq_pres [where I = "progress h l0 [] k0", OF pres_progress(5) s])
  fix t :: commit_run assume t: "progress h l0 [] k0 t"
  have rest: "wp (seq (close_target ops) (\<lambda>_. publish_temporary ops temp)) (\<lambda>r t. r = Val () \<longrightarrow> (\<exists>k. usable k \<and>
      logged h [Write_file k input, Flush_file k, replace_of l0 k, Close k] t)) u"
    if "usable k" "progress h l0 [Write_file k input, Flush_file k] k u" for k u temp
    by (rule wp_seq_pres [OF pres_progress_close that(2)], simp, rule wp_mono [OF logged_publish], assumption)
      (use that(1) in auto)
  show "wp (seq (prepare_temporary ops input) (\<lambda>temp. seq (close_target ops) (\<lambda>_. publish_temporary ops temp)))
      (\<lambda>r t. r = Val () \<longrightarrow> (\<exists>k. usable k \<and>
        logged h [Write_file k input, Flush_file k, replace_of l0 k, Close k] t)) t"
    unfolding wp_seq [of "prepare_temporary ops input"]
    by (rule wp_mono [OF progress_prepare [OF t]]) (auto split: res.splits dest: rest)
qed simp

section \<open>Properties\<close>


text \<open>
  Claim C12. A ticket is good for one commit: after a commit that was given well-formed input,
  whatever came of it, the same ticket is refused without any call and without any change.
\<close>

theorem commit_ticket_single_use:
  assumes "span input len"
  shows "let s' = snd (snd (commit_op ops ABI_VERSION owner ticket credential input len s)) in
    commit_op ops' ABI_VERSION owner ticket credential input' len' s' = (INVALID_INPUT, no_diagnostic, s')"
proof -
  obtain st d s' where run: "commit_op ops ABI_VERSION owner ticket credential input len s = (st, d, s')"
    using prod_cases3 by blast
  have "commit_op ops' ABI_VERSION owner ticket credential input' len' s' = (INVALID_INPUT, no_diagnostic, s')"
    using run
  proof (cases rule: commit_op_cases)
    case refused
    then show ?thesis using assms by (auto simp: commit_op_def split: option.splits)
  next
    case (ran i x r y r')
    have "token_is owner (enter_commit i s)"
      using find_owner_Some [OF ran(1)] by (simp add: token_is_def enter_commit_def)
    then have "token_is owner r'"
      using presD [OF pres_token_commit _ ran(3)] presD [OF pres_token_finish _ ran(4)] by blast
    then have "find_owner owner s' = Some i" unfolding ran(5) by (rule find_owner_leave [OF ran(1)])
    moreover have "l_ticket (owner_at s' i) = 0"
      using find_owner_Some [OF ran(1)] finish_ticket [OF ran(4)] by (simp add: ran(5) owner_at_leave)
    ultimately show ?thesis
      using ran(2) by (auto simp: commit_op_def ticket_matches_def)
  qed
  then show ?thesis by (simp add: run)
qed

text \<open>
  Claim C13. A successful commit wrote the caller's bytes to a fresh temporary, flushed it, renamed
  that temporary over the fixed name in the lease's pinned directory (replacing exactly when
  the transaction had seen a target), and closed it, in this order.
\<close>

theorem commit_success_sequence:
  assumes "commit_op ops version owner ticket credential input len s = (OK, d, s')"
  shows "\<exists>i k es. find_owner owner s = Some i \<and> usable k \<and> o_hist s' = o_hist s @ es \<and>
    subseq [Write_file k (read_bytes input len (o_mem s)), Flush_file k, replace_of (owner_at s i) k, Close k]
      (map fst es)"
  using assms
proof (cases rule: commit_op_cases)
  case (ran i x r y r')
  have start: "progress (o_hist s) (owner_at s i) [] (l_temporary (owner_at s i)) (enter_commit i s)"
    by (simp add: progress_def logged_def enter_commit_def)
  have "x \<noteq> Err (Status OK)" using proper_commit ran(3) by (metis fst_conv proper_def)
  then have "x = Val ()"
    using ran(6) by (cases x rule: settle.cases) (auto simp: commit_status_def split: if_splits)
  then obtain k where k: "usable k" "logged (o_hist s) [Write_file k (read_bytes input len (o_mem s)), Flush_file k,
      replace_of (owner_at s i) k, Close k] r"
    using wp_run [OF logged_commit [OF start] ran(3)] by blast
  then have "logged (o_hist s) [Write_file k (read_bytes input len (o_mem s)), Flush_file k,
      replace_of (owner_at s i) k, Close k] r'"
    using presD [OF stable_finish [OF stable_logged] k(2) ran(4)] by simp
  then show ?thesis using k(1) ran(1,5) by (auto simp: logged_def leave_def)
qed simp

definition sample_commit :: "status \<times> diagnostic \<times> objects" where
  "sample_commit = commit_op sample_ops ABI_VERSION 1 1 True 16 3
     (sample_objects (sample_lease\<lparr>l_ticket := 1, l_missing := True\<rparr>))"

lemma sample_commit_ok: "fst sample_commit = OK"
  by code_simp

theorem commit_ticket_single_use_witness:
  "commit_op sample_ops ABI_VERSION 1 1 True 16 3 (snd (snd sample_commit)) =
     (INVALID_INPUT, no_diagnostic, snd (snd sample_commit))"
proof -
  have "span 16 3" by code_simp
  from commit_ticket_single_use [OF this, of sample_ops 1 1 True _ sample_ops 16 3] show ?thesis
    unfolding sample_commit_def Let_def .
qed

theorem commit_success_sequence_witness:
  "let s = sample_objects (sample_lease\<lparr>l_ticket := 1, l_missing := True\<rparr>) in
   \<exists>i k es. find_owner 1 s = Some i \<and> usable k \<and> o_hist (snd (snd sample_commit)) = o_hist s @ es \<and>
    subseq [Write_file k (read_bytes 16 3 (o_mem s)), Flush_file k, replace_of (owner_at s i) k, Close k] (map fst es)"
proof -
  let ?s = "sample_objects (sample_lease\<lparr>l_ticket := 1, l_missing := True\<rparr>)"
  have "commit_op sample_ops ABI_VERSION 1 1 True 16 3 ?s = (OK, fst (snd sample_commit), snd (snd sample_commit))"
    using sample_commit_ok unfolding sample_commit_def by (metis prod.collapse)
  from commit_success_sequence [OF this] show ?thesis unfolding Let_def .
qed

end
