(* ===== verification/Exchange_Store.thy ===== *)
theory Exchange_Store
  imports Custody_Rules
begin

text \<open>
  \<open>exchange_files.cpp\<close>: the exchange directory that the two roles hand objects to each other
  through.  One role creates an object and may clean up what it created; the other reads it,
  and holds a read ticket that it either consumes, deleting exactly the object it read, or
  releases.  Every access runs under a cross-process lock.
\<close>

section \<open>The directory\<close>

definition set_exchange_handle :: "handle \<Rightarrow> lease \<Rightarrow> lease" where
  "set_exchange_handle h l = l\<lparr>l_exchange := (l_exchange l)\<lparr>pin_handle := h\<rparr>\<rparr>"

definition set_exchange_identity :: "object_info \<Rightarrow> lease \<Rightarrow> lease" where
  "set_exchange_identity i l = l\<lparr>l_exchange := (l_exchange l)\<lparr>pin_identity := i\<rparr>\<rparr>"

definition exchange_handle :: "lease \<Rightarrow> handle" where
  "exchange_handle l = pin_handle (l_exchange l)"

text \<open>
  Opening a store directory when the lease has not pinned it yet; it is never created here.
  The exchange and the discovery directory differ in the name and in the field that pins them.
\<close>

definition pin_directory ::
  "object_ops \<Rightarrow> string \<Rightarrow> (lease \<Rightarrow> handle) \<Rightarrow> (handle \<Rightarrow> lease \<Rightarrow> lease) \<Rightarrow> (object_info \<Rightarrow> lease \<Rightarrow> lease) \<Rightarrow> sid \<Rightarrow>
     ('x run_scheme, unit) prog" where
  "pin_directory ops name handle_of set_handle set_identity sid =
     seq (lease_get handle_of) (\<lambda>h.
     if h \<noteq> 0 then ret ()
     else
       seq (lease_get (\<lambda>l. pin_handle (l_pins l ! 2))) (\<lambda>parent.
       seq (invoke ops (Child parent (wide name) True False sid)) (\<lambda>a.
       seq (upd (set_handle (a_handle a))) (\<lambda>_.
       seq (expect a) (\<lambda>_.
       seq (require (usable (a_handle a)) UNAVAILABLE) (\<lambda>_.
       seq (invoke ops (Inspect (a_handle a))) (\<lambda>b.
       seq (upd (set_identity (a_info b))) (\<lambda>_.
       expect b))))))))"

definition pin_exchange :: "object_ops \<Rightarrow> sid \<Rightarrow> ('x run_scheme, unit) prog" where
  "pin_exchange ops sid =
     pin_directory ops ''exchange'' exchange_handle set_exchange_handle set_exchange_identity sid"

definition exchange_current :: "sid \<Rightarrow> object_info \<Rightarrow> lease \<Rightarrow> bool" where
  "exchange_current sid current l \<longleftrightarrow>
     object_valid current sid True True True \<and> same_object current (pin_identity (l_exchange l)) \<and>
     volume current = volume (pin_identity (l_pins l ! 2)) \<and>
     (l_role l = ROLE_APP \<longrightarrow> same_object current (pin_identity (l_pins l ! 8)))"

text \<open>A failing status, not an exception, denies the lease.\<close>

definition deny_failure :: "unit res \<Rightarrow> ('x run_scheme, unit) prog" where
  "deny_failure r =
     (case r of
        Val _ \<Rightarrow> ret ()
      | Err e \<Rightarrow> seq (if is_exception e then ret () else upd (\<lambda>l. l\<lparr>l_denied := True\<rparr>)) (\<lambda>_. err e))"

definition inspect_exchange :: "object_ops \<Rightarrow> sid \<Rightarrow> ('x run_scheme, unit) prog" where
  "inspect_exchange ops sid =
     seq (lease_get (\<lambda>l. pin_handle (l_exchange l))) (\<lambda>h.
     seq (attempt (seq (perform ops (Inspect h)) (\<lambda>a.
          seq (lease_get (exchange_current sid (a_info a))) (\<lambda>current. require current UNAVAILABLE)))) deny_failure)"

definition exchange_directory :: "object_ops \<Rightarrow> ('x run_scheme, sid) prog" where
  "exchange_directory ops =
     seq (check_lease ops) (\<lambda>sid.
     seq (pin_exchange ops sid) (\<lambda>_.
     seq (inspect_exchange ops sid) (\<lambda>_. ret sid)))"

section \<open>The frame of an operation\<close>

text \<open>The local handles, and whether the one deletion was entered.\<close>

record exchange_run = run +
  e_lock :: handle
  e_file :: handle
  e_pin :: handle
  deleting :: bool

definition enter_exchange :: "nat \<Rightarrow> objects \<Rightarrow> exchange_run" where
  "enter_exchange i s = \<lparr>cur = owner_at s i, hist = o_hist s, next_ticket = o_next_ticket s,
     e_lock = 0, e_file = 0, e_pin = 0, deleting = False\<rparr>"

definition lock_exchange :: "object_ops \<Rightarrow> (exchange_run, sid) prog" where
  "lock_exchange ops =
     seq (exchange_directory ops) (\<lambda>sid.
     seq (lease_get (\<lambda>l. pin_identity (l_exchange l))) (\<lambda>identity.
     seq (invoke ops (Exchange_lock identity sid)) (\<lambda>a.
     seq (modify (\<lambda>s. s\<lparr>e_lock := a_handle a\<rparr>)) (\<lambda>_.
     seq (expect a) (\<lambda>_.
     seq (require (usable (a_handle a)) UNAVAILABLE) (\<lambda>_. ret sid))))))"

text \<open>The number of entries; a creator also needs room for its own.\<close>

definition count_exchange :: "object_ops \<Rightarrow> bool \<Rightarrow> (exchange_run, unit) prog" where
  "count_exchange ops create =
     seq (lease_get exchange_handle) (\<lambda>h.
     seq (perform ops (Exchange_count h)) (\<lambda>a.
     require (\<not> (a_count a > 32 \<or> create \<and> a_count a = 32)) UNAVAILABLE))"

definition open_exchange :: "object_ops \<Rightarrow> wstring \<Rightarrow> u32 \<Rightarrow> sid \<Rightarrow> (exchange_run, handle) prog" where
  "open_exchange ops name mode sid =
     seq (lease_get exchange_handle) (\<lambda>h.
     seq (invoke ops (Exchange_open h name mode sid)) (\<lambda>a.
     seq (modify (if mode = 2 then (\<lambda>s. s\<lparr>e_pin := a_handle a\<rparr>) else (\<lambda>s. s\<lparr>e_file := a_handle a\<rparr>))) (\<lambda>_.
     seq (expect a) (\<lambda>_.
     seq (require (usable (a_handle a)) UNAVAILABLE) (\<lambda>_. ret (a_handle a))))))"

text \<open>A valid protected file whose identity satisfies a test.\<close>

definition inspect_file :: "object_ops \<Rightarrow> handle \<Rightarrow> sid \<Rightarrow> (object_info \<Rightarrow> bool) \<Rightarrow> ('x run_scheme, object_info) prog" where
  "inspect_file ops h sid P =
     seq (perform ops (Inspect h)) (\<lambda>a.
     seq (require (object_valid (a_info a) sid False True True \<and> P (a_info a)) UNAVAILABLE) (\<lambda>_.
     ret (a_info a)))"

section \<open>Create and read\<close>

definition transfer :: "object_ops \<Rightarrow> u32 \<Rightarrow> u8 list \<Rightarrow> u8 list \<Rightarrow> nat \<Rightarrow> bool \<Rightarrow> handle \<Rightarrow> (exchange_run, u8 list) prog" where
  "transfer ops kind oid input capacity create h =
     (if create
      then seq (perform ops (Write_file h input)) (\<lambda>_.
           seq (perform ops (Flush_file h)) (\<lambda>_. ret []))
      else seq (perform ops (Exchange_read h (exchange_cap kind))) (\<lambda>a.
           seq (require (exchange_header kind oid (a_bytes a) \<and> length (a_bytes a) \<le> capacity) DATA_CORRUPT) (\<lambda>_.
           ret (a_bytes a))))"

text \<open>The identity pin, taken before the creator's write handle is closed.\<close>

definition pin_object :: "object_ops \<Rightarrow> wstring \<Rightarrow> sid \<Rightarrow> object_info \<Rightarrow> (exchange_run, unit) prog" where
  "pin_object ops name sid identity =
     seq (open_exchange ops name 2 sid) (\<lambda>p.
     seq (inspect_file ops p sid (\<lambda>i. same_object i identity)) (\<lambda>_. ret ()))"

definition exchange_nonce :: "object_ops \<Rightarrow> bool \<Rightarrow> (exchange_run, u8 list) prog" where
  "exchange_nonce ops ticketed =
     (if ticketed then seq (perform ops Exchange_nonce) (\<lambda>a. ret (take 16 (a_bytes a @ replicate 16 0)))
      else ret (replicate 16 0))"

record exchanged =
  t_nonce :: "u8 list"
  t_identity :: object_info
  t_bytes :: "u8 list"

definition exchange_chain ::
  "object_ops \<Rightarrow> u32 \<Rightarrow> u8 list \<Rightarrow> u8 list \<Rightarrow> nat \<Rightarrow> bool \<Rightarrow> bool \<Rightarrow> (exchange_run, exchanged) prog" where
  "exchange_chain ops kind oid input capacity create ticketed =
     seq (exchange_nonce ops ticketed) (\<lambda>nonce.
     seq (lock_exchange ops) (\<lambda>_.
     seq (exchange_directory ops) (\<lambda>sid.
     seq (count_exchange ops create) (\<lambda>_.
     seq (open_exchange ops (exchange_filename kind oid) (if create then 0 else 1) sid) (\<lambda>file.
     seq (lease_get (\<lambda>l. volume (pin_identity (l_exchange l)))) (\<lambda>v.
     seq (inspect_file ops file sid (\<lambda>i. volume i = v)) (\<lambda>identity.
     seq (transfer ops kind oid input capacity create file) (\<lambda>bytes.
     seq (inspect_file ops file sid (\<lambda>i. same_object i identity)) (\<lambda>_.
     seq (exchange_directory ops) (\<lambda>sid.
     seq (if create \<or> ticketed then pin_object ops (exchange_filename kind oid) sid identity else ret ()) (\<lambda>_.
     seq (if ticketed then seq (exchange_directory ops) (\<lambda>_. ret ()) else ret ()) (\<lambda>_.
     ret \<lparr>t_nonce = nonce, t_identity = identity, t_bytes = bytes\<rparr>))))))))))))"

text \<open>File and lock are released in this order, whatever the first close answered.\<close>

definition unlock_usable :: "object_ops \<Rightarrow> handle \<Rightarrow> ('x run_scheme, bool) prog" where
  "unlock_usable ops h =
     (if usable h then seq (invoke ops (Exchange_unlock h)) (\<lambda>a. ret (a_flag a)) else ret True)"

definition close_exchange :: "object_ops \<Rightarrow> (exchange_run, bool) prog" where
  "close_exchange ops =
     seq (gets e_file) (\<lambda>file.
     seq (close_usable ops file) (\<lambda>ok1.
     seq (gets e_lock) (\<lambda>lock.
     seq (unlock_usable ops lock) (\<lambda>ok2.
     seq (upd (if ok1 \<and> ok2 then id else quarantine)) (\<lambda>_. ret (ok1 \<and> ok2))))))"

definition free_receipt :: "lease \<Rightarrow> nat option" where
  "free_receipt l = find_index (\<lambda>r. x_token r = 0 \<and> x_pin r = 0) (l_receipts l)"

definition free_read :: "lease \<Rightarrow> nat option" where
  "free_read l = find_index (\<lambda>r. x_token r = 0 \<and> x_pin r = 0) (l_reads l)"

text \<open>What a successful creation, or a successful ticketed read, leaves in the lease.\<close>

definition keep_receipt :: "nat \<Rightarrow> u64 \<Rightarrow> handle \<Rightarrow> object_info \<Rightarrow> wstring \<Rightarrow> lease \<Rightarrow> lease" where
  "keep_receipt j token p identity name l =
     l\<lparr>l_receipts := (l_receipts l)[j := \<lparr>x_token = token, x_pin = p, x_identity = identity, x_name = name\<rparr>]\<rparr>"

definition keep_read :: "nat \<Rightarrow> u64 \<Rightarrow> handle \<Rightarrow> exchanged \<Rightarrow> wstring \<Rightarrow> u32 \<Rightarrow> lease \<Rightarrow> lease" where
  "keep_read j token p x name kind l =
     l\<lparr>l_reads := (l_reads l)[j := \<lparr>x_token = token, x_pin = p, x_identity = t_identity x, x_name = name,
        x_nonce = t_nonce x, x_bytes = t_bytes x, x_kind = kind\<rparr>]\<rparr>"

definition new_ticket :: "(exchange_run, u64) prog" where
  "new_ticket = seq (gets next_ticket) (\<lambda>t. seq (modify (\<lambda>s. s\<lparr>next_ticket := t + 1\<rparr>)) (\<lambda>_. ret t))"

text \<open>What the operation delivers: nothing, a receipt, a ticket with the bytes, or the bytes.\<close>

datatype delivery = Nothing | Receipt u64 | Ticketed u64 "u8 list" "u8 list" | Plain "u8 list"

definition drop_pin :: "object_ops \<Rightarrow> (exchange_run, bool) prog" where
  "drop_pin ops =
     seq (gets e_pin) (\<lambda>p.
     seq (close_usable ops p) (\<lambda>ok.
     seq (upd (if ok then id else quarantine)) (\<lambda>_. ret ok)))"

definition exchange_finish ::
  "object_ops \<Rightarrow> u32 \<Rightarrow> u8 list \<Rightarrow> bool \<Rightarrow> bool \<Rightarrow> nat \<Rightarrow> exchanged res \<Rightarrow> (exchange_run, delivery) prog" where
  "exchange_finish ops kind oid create ticketed slot result =
     seq (close_exchange ops) (\<lambda>closed.
     case (if closed then result else Err (Status UNAVAILABLE)) of
       Err e \<Rightarrow> seq (drop_pin ops) (\<lambda>ok. err (if ok then e else Status UNAVAILABLE))
     | Val x \<Rightarrow>
         if create then
           seq (gets e_pin) (\<lambda>p.
           seq new_ticket (\<lambda>t.
           seq (upd (keep_receipt slot t p (t_identity x) (exchange_filename kind oid))) (\<lambda>_.
           ret (Receipt t))))
         else if ticketed then
           seq (gets e_pin) (\<lambda>p.
           seq new_ticket (\<lambda>t.
           seq (upd (keep_read slot t p x (exchange_filename kind oid) kind)) (\<lambda>_.
           ret (Ticketed t (t_nonce x) (t_bytes x)))))
         else seq (drop_pin ops) (\<lambda>ok. if ok then ret (Plain (t_bytes x)) else err (Status UNAVAILABLE)))"

definition exchange_transaction ::
  "object_ops \<Rightarrow> u32 \<Rightarrow> u8 list \<Rightarrow> u8 list \<Rightarrow> nat \<Rightarrow> bool \<Rightarrow> bool \<Rightarrow> nat \<Rightarrow> (exchange_run, delivery) prog" where
  "exchange_transaction ops kind oid input capacity create ticketed slot =
     seq (attempt (exchange_chain ops kind oid input capacity create ticketed))
       (exchange_finish ops kind oid create ticketed slot)"

text \<open>The writer of a kind of object: the application of pairings, the Bridge of the others.\<close>

definition exchange_writer :: "u32 \<Rightarrow> u32" where
  "exchange_writer kind = (if kind = 2 then ROLE_APP else ROLE_BRIDGE)"

definition exchange_slot :: "bool \<Rightarrow> bool \<Rightarrow> lease \<Rightarrow> u64 \<Rightarrow> nat option" where
  "exchange_slot create ticketed l next =
     (if create then (if next > INT64_MAX then None else free_receipt l)
      else if ticketed then (if next > INT64_MAX then None else free_read l)
      else Some 0)"

definition exchange_operation ::
  "object_ops \<Rightarrow> u64 \<Rightarrow> u32 \<Rightarrow> u8 list \<Rightarrow> u8 list \<Rightarrow> nat \<Rightarrow> bool \<Rightarrow> bool \<Rightarrow> objects \<Rightarrow> status \<times> delivery \<times> objects" where
  "exchange_operation ops owner kind oid input capacity create ticketed s =
     (case find_owner owner s of
        None \<Rightarrow> (INVALID_INPUT, Nothing, s)
      | Some i \<Rightarrow>
          if (l_role (owner_at s i) = exchange_writer kind) \<noteq> create
          then (INVALID_INPUT, Nothing, s)
          else case exchange_slot create ticketed (owner_at s i) (o_next_ticket s) of
              None \<Rightarrow> (RESOURCE_LIMIT, Nothing, s)
            | Some slot \<Rightarrow>
                case exchange_transaction ops kind oid input capacity create ticketed slot (enter_exchange i s) of
                  (Val d, r) \<Rightarrow> (OK, d, leave i r s)
                | (Err e, r) \<Rightarrow> (settle (Err e :: unit res), Nothing, leave i r s))"

section \<open>Settling a read ticket\<close>

definition held_read :: "nat \<Rightarrow> lease \<Rightarrow> exchange_read" where
  "held_read j l = l_reads l ! j"

definition retire_read :: "nat \<Rightarrow> lease \<Rightarrow> lease" where
  "retire_read j l = l\<lparr>l_reads := (l_reads l)[j := (l_reads l ! j)\<lparr>x_token := 0, x_nonce := replicate 16 0\<rparr>]\<rparr>"

definition drop_read_pin :: "nat \<Rightarrow> lease \<Rightarrow> lease" where
  "drop_read_pin j l = l\<lparr>l_reads := (l_reads l)[j := (l_reads l ! j)\<lparr>x_pin := 0, x_bytes := []\<rparr>]\<rparr>"

text \<open>
  The decision to delete: the pinned object, a fresh exclusive open of its name, the bytes
  that were handed out, and every identity again, before the one deletion.
\<close>

definition consume_chain :: "object_ops \<Rightarrow> nat \<Rightarrow> (exchange_run, unit) prog" where
  "consume_chain ops j =
     seq (lock_exchange ops) (\<lambda>_.
     seq (exchange_directory ops) (\<lambda>sid.
     seq (count_exchange ops False) (\<lambda>_.
     seq (lease_get (held_read j)) (\<lambda>r.
     seq (inspect_file ops (x_pin r) sid (\<lambda>i. same_object i (x_identity r))) (\<lambda>_.
     seq (open_exchange ops (x_name r) 4 sid) (\<lambda>file.
     seq (inspect_file ops file sid (\<lambda>i. same_object i (x_identity r))) (\<lambda>_.
     seq (perform ops (Exchange_read file (exchange_cap (x_kind r)))) (\<lambda>a.
     seq (require (a_bytes a = x_bytes r) DATA_CORRUPT) (\<lambda>_.
     seq (inspect_file ops file sid (\<lambda>i. same_object i (x_identity r))) (\<lambda>_.
     seq (inspect_file ops (x_pin r) sid (\<lambda>i. same_object i (x_identity r))) (\<lambda>_.
     seq (exchange_directory ops) (\<lambda>_.
     seq (modify (\<lambda>s. s\<lparr>deleting := True\<rparr>)) (\<lambda>_.
     seq (perform ops (Exchange_delete file)) (\<lambda>_. ret ()))))))))))))))"

text \<open>The file, the ticket's pin and the lock are released in this order.\<close>

definition close_settled :: "object_ops \<Rightarrow> (lease \<Rightarrow> handle) \<Rightarrow> (lease \<Rightarrow> lease) \<Rightarrow> (exchange_run, bool) prog" where
  "close_settled ops pin clear =
     seq (gets e_file) (\<lambda>file.
     seq (close_usable ops file) (\<lambda>ok1.
     seq (lease_get pin) (\<lambda>p.
     seq (close_nonnull ops p) (\<lambda>ok2.
     seq (upd clear) (\<lambda>_.
     seq (gets e_lock) (\<lambda>lock.
     seq (unlock_usable ops lock) (\<lambda>ok3.
     seq (upd (if ok1 \<and> ok2 \<and> ok3 then id else quarantine)) (\<lambda>_.
     ret (ok1 \<and> ok2 \<and> ok3)))))))))"

definition settle_status :: "bool \<Rightarrow> bool \<Rightarrow> unit res \<Rightarrow> status" where
  "settle_status deletion tidy result =
     (if \<not> tidy then (if deletion then COMMIT_UNKNOWN else UNAVAILABLE)
      else case result of
          Val _ \<Rightarrow> OK
        | Err e \<Rightarrow> if is_exception e then (if deletion then COMMIT_UNKNOWN else UNAVAILABLE)
            else settle result)"

definition settle_transaction :: "object_ops \<Rightarrow> nat \<Rightarrow> bool \<Rightarrow> (exchange_run, status) prog" where
  "settle_transaction ops j consume =
     seq (upd (retire_read j)) (\<lambda>_.
     seq (attempt (if consume then consume_chain ops j else ret ())) (\<lambda>result.
     seq (close_settled ops (\<lambda>l. x_pin (held_read j l)) (drop_read_pin j)) (\<lambda>closed.
     seq (gets deleting) (\<lambda>deletion.
     seq (upd (\<lambda>l. if settle_status deletion closed result = COMMIT_UNKNOWN then l\<lparr>l_denied := True\<rparr> else l)) (\<lambda>_.
     ret (settle_status deletion closed result))))))"

text \<open>The slot of a serial, and the comparison of the nonce over all its 16 bytes.\<close>

definition serial_of :: "u8 list \<Rightarrow> u64" where
  "serial_of ticket = of_le_bytes (take 8 ticket)"

definition nonce_difference :: "u8 list \<Rightarrow> u8 list \<Rightarrow> u8" where
  "nonce_difference nonce ticket = foldl (\<lambda>d i. d OR (nonce ! i XOR ticket ! (8 + i))) 0 [0 ..< 16]"

definition exchange_settle :: "object_ops \<Rightarrow> u32 \<Rightarrow> u64 \<Rightarrow> ptr \<Rightarrow> bool \<Rightarrow> objects \<Rightarrow> status \<times> objects" where
  "exchange_settle ops version owner ticket consume s =
     (if \<not> (span ticket 24 \<and> aligned8 ticket) then (INVALID_INPUT, s)
      else if version \<noteq> ABI_VERSION then (ABI_MISMATCH, s)
      else let t = read_bytes ticket 24 (o_mem s); serial = serial_of t in
        case find_owner owner s of
          None \<Rightarrow> (INVALID_INPUT, s)
        | Some i \<Rightarrow>
            if serial = 0 then (INVALID_INPUT, s)
            else if l_quarantined (owner_at s i) then (UNAVAILABLE, s)
            else case find_index (\<lambda>r. x_token r = serial) (l_reads (owner_at s i)) of
                None \<Rightarrow> (INVALID_INPUT, s)
              | Some j \<Rightarrow>
                  if nonce_difference (x_nonce (l_reads (owner_at s i) ! j)) t \<noteq> 0 then (INVALID_INPUT, s)
                  else case settle_transaction ops j consume (enter_exchange i s) of
                    (Val st, r) \<Rightarrow> (st, leave i r s)
                  | (Err e, r) \<Rightarrow> (UNAVAILABLE, leave i r s))"

definition exchange_consume :: "object_ops \<Rightarrow> u32 \<Rightarrow> u64 \<Rightarrow> ptr \<Rightarrow> objects \<Rightarrow> status \<times> objects" where
  "exchange_consume ops version owner ticket s = exchange_settle ops version owner ticket True s"

definition exchange_release :: "object_ops \<Rightarrow> u32 \<Rightarrow> u64 \<Rightarrow> ptr \<Rightarrow> objects \<Rightarrow> status \<times> objects" where
  "exchange_release ops version owner ticket s = exchange_settle ops version owner ticket False s"

section \<open>Cleanup by the creator\<close>

definition held_receipt :: "nat \<Rightarrow> lease \<Rightarrow> exchange_receipt" where
  "held_receipt j l = l_receipts l ! j"

definition retire_receipt :: "nat \<Rightarrow> lease \<Rightarrow> lease" where
  "retire_receipt j l = l\<lparr>l_receipts := (l_receipts l)[j := (l_receipts l ! j)\<lparr>x_token := 0\<rparr>]\<rparr>"

definition drop_receipt_pin :: "nat \<Rightarrow> lease \<Rightarrow> lease" where
  "drop_receipt_pin j l = l\<lparr>l_receipts := (l_receipts l)[j := (l_receipts l ! j)\<lparr>x_pin := 0\<rparr>]\<rparr>"

definition cleanup_chain :: "object_ops \<Rightarrow> nat \<Rightarrow> (exchange_run, unit) prog" where
  "cleanup_chain ops j =
     seq (lock_exchange ops) (\<lambda>sid.
     seq (lease_get (held_receipt j)) (\<lambda>r.
     seq (inspect_file ops (x_pin r) sid (\<lambda>i. same_object i (x_identity r))) (\<lambda>_.
     seq (open_exchange ops (x_name r) 3 sid) (\<lambda>file.
     seq (inspect_file ops file sid (\<lambda>i. same_object i (x_identity r))) (\<lambda>_.
     seq (exchange_directory ops) (\<lambda>_.
     seq (perform ops (Exchange_delete file)) (\<lambda>_. ret ())))))))"

definition cleanup_transaction :: "object_ops \<Rightarrow> nat \<Rightarrow> (exchange_run, status) prog" where
  "cleanup_transaction ops j =
     seq (upd (retire_receipt j)) (\<lambda>_.
     seq (attempt (cleanup_chain ops j)) (\<lambda>result.
     seq (close_settled ops (\<lambda>l. x_pin (held_receipt j l)) (drop_receipt_pin j)) (\<lambda>closed.
     ret (settle_status False closed result))))"

definition exchange_cleanup :: "object_ops \<Rightarrow> u32 \<Rightarrow> u64 \<Rightarrow> u64 \<Rightarrow> objects \<Rightarrow> status \<times> objects" where
  "exchange_cleanup ops version owner receipt s =
     (if version \<noteq> ABI_VERSION then (ABI_MISMATCH, s)
      else case find_owner owner s of
          None \<Rightarrow> (INVALID_INPUT, s)
        | Some i \<Rightarrow>
            if receipt = 0 then (INVALID_INPUT, s)
            else case find_index (\<lambda>r. x_token r = receipt) (l_receipts (owner_at s i)) of
                None \<Rightarrow> (INVALID_INPUT, s)
              | Some j \<Rightarrow>
                  case cleanup_transaction ops j (enter_exchange i s) of
                    (Val st, r) \<Rightarrow> (st, leave i r s)
                  | (Err e, r) \<Rightarrow> (UNAVAILABLE, leave i r s))"

section \<open>The exported operations\<close>

definition create_inputs :: "ptr \<Rightarrow> ptr \<Rightarrow> u64 \<Rightarrow> ptr \<Rightarrow> bool" where
  "create_inputs oid input len receipt \<longleftrightarrow>
     span oid 16 \<and> span input len \<and> valid_count receipt \<and> \<not> overlaps oid 16 input len \<and>
     \<not> overlaps oid 16 receipt 8 \<and> \<not> overlaps input len receipt 8"

definition exchange_create ::
  "object_ops \<Rightarrow> u32 \<Rightarrow> u64 \<Rightarrow> u32 \<Rightarrow> ptr \<Rightarrow> ptr \<Rightarrow> u64 \<Rightarrow> ptr \<Rightarrow> objects \<Rightarrow> status \<times> objects" where
  "exchange_create ops version owner kind oid input len receipt s =
     (if \<not> create_inputs oid input len receipt then (INVALID_INPUT, s)
      else let s1 = o_write (store64 receipt 0) s; name = read_bytes oid 16 (o_mem s1);
               bytes = read_bytes input len (o_mem s1) in
        if version \<noteq> ABI_VERSION then (ABI_MISMATCH, s1)
        else if exchange_cap kind = 0 \<or> \<not> exchange_header kind name bytes then (INVALID_INPUT, s1)
        else case exchange_operation ops owner kind name bytes 0 True False s1 of
          (st, d, s2) \<Rightarrow> (st, case d of Receipt t \<Rightarrow> o_write (store64 receipt t) s2 | _ \<Rightarrow> s2))"

definition read_outputs :: "ptr \<Rightarrow> ptr \<Rightarrow> u64 \<Rightarrow> ptr \<Rightarrow> bool" where
  "read_outputs oid output capacity written \<longleftrightarrow>
     span oid 16 \<and> span output capacity \<and> valid_count written \<and> \<not> overlaps oid 16 output capacity \<and>
     \<not> overlaps oid 16 written 8 \<and> \<not> overlaps output capacity written 8"

definition exchange_read_op ::
  "object_ops \<Rightarrow> u32 \<Rightarrow> u64 \<Rightarrow> u32 \<Rightarrow> ptr \<Rightarrow> ptr \<Rightarrow> u64 \<Rightarrow> ptr \<Rightarrow> objects \<Rightarrow> status \<times> objects" where
  "exchange_read_op ops version owner kind oid output capacity written s =
     (if \<not> read_outputs oid output capacity written then (INVALID_INPUT, s)
      else let s1 = o_write (\<lambda>m. store64 written 0 (zero_mem output capacity m)) s;
               name = read_bytes oid 16 (o_mem s1) in
        if version \<noteq> ABI_VERSION then (ABI_MISMATCH, s1)
        else if exchange_cap kind = 0 \<or> unat capacity \<noteq> exchange_cap kind then (INVALID_INPUT, s1)
        else case exchange_operation ops owner kind name [] (unat capacity) False False s1 of
          (st, d, s2) \<Rightarrow> (st, case d of
              Plain bytes \<Rightarrow> o_write (\<lambda>m. store64 written (of_nat (length bytes)) (write_bytes output bytes m)) s2
            | _ \<Rightarrow> s2))"

definition begin_tickets :: "ptr \<Rightarrow> ptr \<Rightarrow> u64 \<Rightarrow> ptr \<Rightarrow> ptr \<Rightarrow> bool" where
  "begin_tickets oid output capacity written ticket \<longleftrightarrow>
     read_outputs oid output capacity written \<and> span ticket 24 \<and> aligned8 ticket \<and>
     \<not> overlaps oid 16 ticket 24 \<and> \<not> overlaps output capacity ticket 24 \<and> \<not> overlaps written 8 ticket 24"

definition exchange_read_begin ::
  "object_ops \<Rightarrow> u32 \<Rightarrow> u64 \<Rightarrow> u32 \<Rightarrow> ptr \<Rightarrow> ptr \<Rightarrow> u64 \<Rightarrow> ptr \<Rightarrow> ptr \<Rightarrow> objects \<Rightarrow> status \<times> objects" where
  "exchange_read_begin ops version owner kind oid output capacity written ticket s =
     (if \<not> begin_tickets oid output capacity written ticket then (INVALID_INPUT, s)
      else let s1 = o_write (\<lambda>m. zero_mem ticket 24 (store64 written 0 (zero_mem output capacity m))) s;
               name = read_bytes oid 16 (o_mem s1) in
        if version \<noteq> ABI_VERSION then (ABI_MISMATCH, s1)
        else if exchange_cap kind = 0 \<or> unat capacity \<noteq> exchange_cap kind then (INVALID_INPUT, s1)
        else case exchange_operation ops owner kind name [] (unat capacity) False True s1 of
          (st, d, s2) \<Rightarrow> (st, case d of
              Ticketed t nonce bytes \<Rightarrow>
                o_write (\<lambda>m. write_bytes ticket (le_bytes t @ nonce)
                  (store64 written (of_nat (length bytes)) (write_bytes output bytes m))) s2
            | _ \<Rightarrow> s2))"

end
