(* ===== verification/Exchange_Custody.thy ===== *)
theory Exchange_Custody
  imports Exchange_Store
begin

text \<open>
  Custody through the exchange operations: the lock, the file and the identity pin an
  operation opens are its frame's until it closes them or hands the pin to a slot of the
  lease.  Every operation keeps the owners' invariant.
\<close>

section \<open>The frame\<close>

definition e_share :: "handle multiset \<Rightarrow> exchange_run \<Rightarrow> handle multiset" where
  "e_share R s = R + hm (e_lock s) + hm (e_file s) + hm (e_pin s)"

interpretation exchanging: frame "e_share R" for R
  by unfold_locales (simp_all add: e_share_def)

definition frame_is :: "'x \<Rightarrow> 'x run_scheme \<Rightarrow> bool" where
  "frame_is x s \<longleftrightarrow> run.more s = x"

lemma stable_frame_is: "stable (\<lambda>_. True) (frame_is x)" "lease_free (frame_is x)"
  by (simp_all add: stable_def lease_free_def frame_is_def)

text \<open>Of the three local handles those from stage \<open>k\<close> on are still null.\<close>

definition holding :: "handle multiset \<Rightarrow> (lease \<Rightarrow> bool) \<Rightarrow> event list \<times> u64 \<Rightarrow> nat \<Rightarrow> exchange_run \<Rightarrow> bool" where
  "holding R P b k s \<longleftrightarrow> kept (e_share R) P b s \<and> (k < 1 \<longrightarrow> e_lock s = 0) \<and>
     (k < 2 \<longrightarrow> e_file s = 0) \<and> (k < 3 \<longrightarrow> e_pin s = 0)"

lemma holding_later: "holding R P b k s \<Longrightarrow> k \<le> m \<Longrightarrow> holding R P b m s"
  by (simp add: holding_def)

lemma frame_handles:
  "frame_is (run.more s) t \<Longrightarrow> e_lock t = e_lock s \<and> e_file t = e_file s \<and> e_pin t = e_pin s" for s t :: exchange_run
  by (cases s; cases t) (simp add: frame_is_def)

lemma pres_holding:
  assumes "pres (kept (e_share R) P b) m" and "\<And>x. pres (frame_is x) m"
  shows "pres (holding R P b k) m"
proof (rule pres_wp)
  fix s assume s: "holding R P b k s"
  have "wp m (\<lambda>r t. kept (e_share R) P b t \<and> frame_is (run.more s) t) s"
    unfolding wp_conj using wp_pres [OF assms(1), of s] wp_pres [OF assms(2), of "run.more s" s] s
    by (simp add: holding_def frame_is_def)
  then show "wp m (\<lambda>r t. holding R P b k t) s"
    by (rule wp_mono) (use s in \<open>auto simp: holding_def dest: frame_handles\<close>)
qed

section \<open>The directory\<close>

text \<open>
  A lease field that pins a store directory: setting its handle exchanges one handle for
  another in custody, setting its identity changes nothing custody looks at.
\<close>

locale directory_field =
  fixes handle_of :: "lease \<Rightarrow> handle"
    and set_handle :: "handle \<Rightarrow> lease \<Rightarrow> lease"
    and set_identity :: "object_info \<Rightarrow> lease \<Rightarrow> lease"
  assumes retained_handle: "retained (set_handle h l) + hm (handle_of l) = retained l + hm h"
    and retained_identity: "retained (set_identity i l) = retained l"
    and other_handle: "l_quarantined (set_handle h l) = l_quarantined l" "lease_wf (set_handle h l) = lease_wf l"
    and other_identity: "l_quarantined (set_identity i l) = l_quarantined l" "lease_wf (set_identity i l) = lease_wf l"
begin

text \<open>A predicate of leases that ignores the field.\<close>

definition free :: "(lease \<Rightarrow> bool) \<Rightarrow> bool" where
  "free P \<longleftrightarrow> (\<forall>l h i. P l \<longrightarrow> P (set_handle h l) \<and> P (set_identity i l))"

lemma kept_to_field:
  assumes "frame F" "kept (\<lambda>s. F s + hm h) P b s" "handle_of (cur s) = 0" "free P"
  shows "kept F P b (s\<lparr>cur := set_handle h (cur s)\<rparr>)"
  using assms(2-4) retained_handle [of h "cur s"] frame.F_cur [OF assms(1)]
  by (simp add: kept_def custody_def free_def other_handle ac_simps)

lemma pres_kept_pin:
  assumes F: "frame F" and P: "free P"
  shows "pres (kept F P b) (pin_directory ops name handle_of set_handle set_identity sid)"
proof (rule pres_wp)
  fix s assume s: "kept F P b s"
  show "wp (pin_directory ops name handle_of set_handle set_identity sid) (\<lambda>r t. kept F P b t) s"
  proof (cases "handle_of (cur s) = 0")
    case True
    define c where "c = Child (pin_handle (l_pins (cur s) ! 2)) (wide name) True False sid"
    define a where "a = ops (hist s) c"
    let ?t = "s\<lparr>hist := hist s @ [(c, a)], cur := set_handle (a_handle a) (cur s)\<rparr>"
    have "kept (\<lambda>s. F s + hm (a_handle a)) P b (s\<lparr>hist := hist s @ [(c, a)]\<rparr>)"
      using s by (intro frame.kept_open [OF F]) (simp_all add: c_def)
    from kept_to_field [OF F this _ P] have t: "kept F P b ?t" using True by simp
    have "pres (kept F P b) (seq (expect a) (\<lambda>_. seq (require (usable (a_handle a)) UNAVAILABLE) (\<lambda>_.
        seq (invoke ops (Inspect (a_handle a))) (\<lambda>b. seq (upd (set_identity (a_info b))) (\<lambda>_. expect b)))))"
      using P by (intro pres_intros frame.pres_kept_invoke [OF F] frame.pres_kept_upd [OF F])
        (simp_all add: retained_identity other_identity free_def)
    from wp_pres [OF this t] show ?thesis
      using True by (simp add: pin_directory_def wp_seq [of "lease_get _"] wp_lease_get wp_seq [of "invoke _ _"] wp_invoke
          wp_seq [of "upd _"] wp_upd c_def a_def)
  next
    case False
    then show ?thesis using s by (simp add: pin_directory_def wp_simps)
  qed
qed

end

interpretation exchange_field: directory_field exchange_handle set_exchange_handle set_exchange_identity
  by unfold_locales (simp_all add: retained_def loose_handles_def pin_handles_def set_exchange_handle_def
      set_exchange_identity_def exchange_handle_def lease_wf_def union_ac)

abbreviation exchange_free :: "(lease \<Rightarrow> bool) \<Rightarrow> bool" where
  "exchange_free \<equiv> exchange_field.free"

lemmas exchange_free_def = exchange_field.free_def

lemma pres_frame_pin: "pres (frame_is x) (pin_directory ops name handle_of set_handle set_identity sid)"
  unfolding pin_directory_def
  by (intro pres_intros stable_invoke [OF stable_frame_is(1)] lease_free_upd [OF stable_frame_is(2)]) simp_all

lemma pres_frame_directory: "pres (frame_is x) (exchange_directory ops)"
  unfolding exchange_directory_def pin_exchange_def inspect_exchange_def deny_failure_def
  by (intro pres_intros stable_check [OF stable_frame_is] pres_frame_pin
      stable_perform [OF stable_frame_is(1)] lease_free_upd [OF stable_frame_is(2)])
    (auto split: res.splits intro!: pres_intros lease_free_upd [OF stable_frame_is(2)])

context frame
begin

lemma pres_kept_deny: "flagless P \<Longrightarrow> pres (kept F P b) (deny_failure r)"
  unfolding deny_failure_def
  by (cases r) (auto intro!: pres_intros pres_kept_upd simp: flagless_denied lease_wf_def)

lemma pres_kept_directory:
  assumes "flagless P" "exchange_free P"
  shows "pres (kept F P b) (exchange_directory ops)"
  unfolding exchange_directory_def inspect_exchange_def pin_exchange_def
  by (intro pres_intros pres_kept_check exchange_field.pres_kept_pin pres_kept_perform pres_kept_deny assms frame_axioms) simp_all

end

lemma pres_directory:
  "flagless P \<Longrightarrow> exchange_free P \<Longrightarrow> pres (holding R P b k) (exchange_directory ops)"
  by (rule pres_holding) (simp_all add: exchanging.pres_kept_directory pres_frame_directory)

lemma pres_holding_quiet:
  "\<not> opener c \<Longrightarrow> closes c = None \<Longrightarrow> pres (holding R P b k) (perform ops c)"
  by (rule pres_holding) (auto intro: exchanging.pres_kept_perform stable_perform [OF stable_frame_is(1)])

lemma pres_inspect_file: "pres (holding R P b k) (inspect_file ops h sid T)"
  unfolding inspect_file_def by (intro pres_intros pres_holding_quiet) simp_all

lemma pres_count: "pres (holding R P b k) (count_exchange ops create)"
  unfolding count_exchange_def by (intro pres_intros pres_holding_quiet) simp_all

lemma pres_transfer: "pres (holding R P b k) (transfer ops kind oid input capacity create h)"
  unfolding transfer_def by (intro pres_intros pres_holding_quiet) simp_all

lemma pres_nonce: "pres (holding R P b k) (exchange_nonce ops ticketed)"
  unfolding exchange_nonce_def by (intro pres_intros pres_holding_quiet) simp_all

section \<open>Opening\<close>

lemma holding_open:
  assumes s: "holding R P b k s" and c: "opener c"
  shows "k = 0 \<Longrightarrow> holding R P b 1 (s\<lparr>hist := hist s @ [(c, a)], e_lock := a_handle a\<rparr>)"
    "k = 1 \<Longrightarrow> holding R P b 2 (s\<lparr>hist := hist s @ [(c, a)], e_file := a_handle a\<rparr>)"
    "k = 2 \<Longrightarrow> holding R P b 3 (s\<lparr>hist := hist s @ [(c, a)], e_pin := a_handle a\<rparr>)"
  using s exchanging.kept_open [of R P b s c a, OF _ c]
  by (auto simp: holding_def kept_def custody_def e_share_def ac_simps)

lemma holding_lock:
  assumes s: "holding R P b 0 s" and P: "flagless P" "exchange_free P"
  shows "wp (lock_exchange ops) (\<lambda>r t. holding R P b 1 t) s"
  unfolding lock_exchange_def
proof (rule wp_seq_pres [OF pres_directory [OF P] s])
  fix sid t assume t: "holding R P b 0 t"
  show "wp (seq (lease_get (\<lambda>l. pin_identity (l_exchange l))) (\<lambda>identity.
      seq (invoke ops (Exchange_lock identity sid)) (\<lambda>a. seq (modify (\<lambda>s. s\<lparr>e_lock := a_handle a\<rparr>)) (\<lambda>_.
      seq (expect a) (\<lambda>_. seq (require (usable (a_handle a)) UNAVAILABLE) (\<lambda>_. ret sid)))))) (\<lambda>r t. holding R P b 1 t) t"
    by (simp add: wp_simps holding_open(1) [OF t] del: One_nat_def)
qed (rule holding_later, assumption, simp)

lemma holding_file:
  assumes s: "holding R P b 1 s" and "mode \<noteq> 2"
  shows "wp (open_exchange ops name mode sid) (\<lambda>r t. holding R P b 2 t) s"
  using assms(2) by (simp add: open_exchange_def wp_simps holding_open(2) [OF s])

lemma holding_pin:
  assumes s: "holding R P b 2 s"
  shows "wp (open_exchange ops name 2 sid)
    (\<lambda>r t. holding R P b 3 t \<and> (\<forall>p. r = Val p \<longrightarrow> usable (e_pin t))) s"
  by (simp add: open_exchange_def wp_simps holding_open(3) [OF s])

section \<open>The transaction\<close>

text \<open>What the chains keep of their lease.\<close>

definition calm :: "lease \<Rightarrow> lease \<Rightarrow> bool" where
  "calm l0 l \<longleftrightarrow> mine l0 l \<and> l_temporary l = l_temporary l0 \<and> l_target l = l_target l0 \<and>
     l_ticket l = l_ticket l0 \<and> l_reads l = l_reads l0 \<and> l_receipts l = l_receipts l0"

lemma calm_free: "flagless (calm l0)" "exchange_free (calm l0)"
  by (simp_all add: flagless_def exchange_free_def calm_def mine_def set_exchange_handle_def set_exchange_identity_def)

definition pinned :: "handle multiset \<Rightarrow> (lease \<Rightarrow> bool) \<Rightarrow> event list \<times> u64 \<Rightarrow> exchange_run \<Rightarrow> bool" where
  "pinned R P b s \<longleftrightarrow> holding R P b 3 s \<and> usable (e_pin s)"

lemma pres_pinned:
  assumes "pres (holding R P b 3) m" and "\<And>x. pres (frame_is x) m"
  shows "pres (pinned R P b) m"
proof (rule pres_wp)
  fix s assume s: "pinned R P b s"
  have "wp m (\<lambda>r t. holding R P b 3 t \<and> frame_is (run.more s) t) s"
    unfolding wp_conj using wp_pres [OF assms(1), of s] wp_pres [OF assms(2), of "run.more s" s] s
    by (simp add: pinned_def frame_is_def)
  then show "wp m (\<lambda>r t. pinned R P b t) s"
    by (rule wp_mono) (use s in \<open>auto simp: pinned_def dest: frame_handles\<close>)
qed

lemma frame_inspect_file: "pres (frame_is x) (inspect_file ops p sid T)"
  unfolding inspect_file_def by (intro pres_intros stable_perform [OF stable_frame_is(1)]) simp

lemma pinned_object:
  assumes s: "holding R P b 2 s"
  shows "wp (pin_object ops name sid identity) (\<lambda>r t. holding R P b 3 t \<and> (r = Val () \<longrightarrow> pinned R P b t)) s"
  unfolding pin_object_def wp_seq [of "open_exchange ops name 2 sid"]
proof (rule wp_mono [OF holding_pin [OF s]])
  fix r :: "handle res" and t assume r: "holding R P b 3 t \<and> (\<forall>p. r = Val p \<longrightarrow> usable (e_pin t))"
  show "case r of
      Val p \<Rightarrow> wp (seq (inspect_file ops p sid (\<lambda>i. same_object i identity)) (\<lambda>_. ret ()))
        (\<lambda>r t. holding R P b 3 t \<and> (r = Val () \<longrightarrow> pinned R P b t)) t
    | Err e \<Rightarrow> holding R P b 3 t \<and> (Err e = Val () \<longrightarrow> pinned R P b t)"
  proof (cases r)
    case (Val p)
    then have "pinned R P b t" using r by (simp add: pinned_def)
    then show ?thesis
      unfolding Val res.case
      by (rule wp_seq_pres [OF pres_pinned [OF pres_inspect_file frame_inspect_file]])
        (simp_all add: wp_ret pinned_def)
  qed (use r in simp)
qed

lemma holding_chain:
  assumes s: "holding R P b 0 s" and P: "flagless P" "exchange_free P"
  shows "wp (exchange_chain ops kind oid input capacity create ticketed)
    (\<lambda>r t. holding R P b 3 t \<and> ((create \<or> ticketed) \<and> (\<exists>x. r = Val x) \<longrightarrow> usable (e_pin t))) s"
proof -
  define Q where "Q = (\<lambda>(r :: exchanged res) t. holding R P b 3 t \<and> ((create \<or> ticketed) \<and> (\<exists>x. r = Val x) \<longrightarrow> usable (e_pin t)))"
  note dir = pres_directory [OF P]
  have fail: "Q (Err e) t" if "holding R P b k t" "k \<le> 3" for e k t
    using holding_later [OF that] by (simp add: Q_def)
  have last: "wp (seq (if ticketed then seq (exchange_directory ops) (\<lambda>_. ret ()) else ret ()) (\<lambda>_. ret x)) Q t"
    if t: "holding R P b 3 t" "create \<or> ticketed \<longrightarrow> pinned R P b t" for x t
  proof (cases ticketed)
    case True
    have "pres (pinned R P b) (seq (exchange_directory ops) (\<lambda>_. ret ()))"
      by (intro pres_intros pres_pinned dir pres_frame_directory)
    from wp_seq_pres [OF this, of t Q] show ?thesis
      using True t by (simp add: wp_ret Q_def pinned_def)
  next
    case False
    then show ?thesis using t by (simp add: wp_seq wp_ret Q_def pinned_def)
  qed
  have middle: "wp (seq (if create \<or> ticketed then pin_object ops name sid identity else ret ()) (\<lambda>_.
     seq (if ticketed then seq (exchange_directory ops) (\<lambda>_. ret ()) else ret ()) (\<lambda>_. ret x))) Q t"
    if t: "holding R P b 2 t" for name sid identity x t
  proof (cases "create \<or> ticketed")
    case True
    show ?thesis
      unfolding if_P [OF True] wp_seq [of "pin_object ops name sid identity"]
      by (rule wp_mono [OF pinned_object [OF t]]) (auto split: res.splits split del: if_split intro: fail last)
  next
    case False
    then show ?thesis
      using holding_later [OF t, of 3] by (simp add: wp_seq wp_ret Q_def)
  qed
  have "wp (exchange_chain ops kind oid input capacity create ticketed) Q s"
    unfolding exchange_chain_def
    apply (rule wp_seq_pres [OF pres_nonce s], erule fail, simp)
    apply (rule wp_bind_res [OF holding_lock [OF _ P]], assumption)
     apply (rule wp_seq_pres [OF dir], assumption, erule fail, simp)
     apply (rule wp_seq_pres [OF pres_count], assumption, erule fail, simp)
     apply (rule wp_bind_res [OF holding_file], assumption, simp)
      apply (rule wp_seq_pres [where I = "holding R P b 2"], rule pres_lease_get, assumption, erule fail, simp)
      apply (rule wp_seq_pres [OF pres_inspect_file], assumption, erule fail, simp)
      apply (rule wp_seq_pres [OF pres_transfer], assumption, erule fail, simp)
      apply (rule wp_seq_pres [OF pres_inspect_file], assumption, erule fail, simp)
      apply (rule wp_seq_pres [OF dir], assumption, erule fail, simp)
      apply (erule middle)
     apply (erule fail, simp)+
    done
  then show ?thesis unfolding Q_def .
qed

section \<open>Closing\<close>

lemma kept_frame: "F s = G s \<Longrightarrow> kept F P b s \<Longrightarrow> kept G P b s"
  by (simp add: kept_def custody_def)

text \<open>The state after a guarded close: less to hold, the same frame, and no clean log after a failure.\<close>

definition shut :: "handle multiset \<Rightarrow> (lease \<Rightarrow> bool) \<Rightarrow> event list \<times> u64 \<Rightarrow> exchange_run \<Rightarrow> bool \<Rightarrow> exchange_run \<Rightarrow> bool" where
  "shut R P b s ok t \<longleftrightarrow> kept (\<lambda>_. R) P b t \<and> frame_is (run.more s) t \<and> (\<not> ok \<longrightarrow> \<not> clean (hist t))"

lemma shut_close:
  assumes "kept (\<lambda>_. R + hm h) P b s"
  shows "wp (close_usable ops h) (\<lambda>r t. \<exists>ok. r = Val ok \<and> shut R P b s ok t) s"
    "wp (unlock_usable ops h) (\<lambda>r t. \<exists>ok. r = Val ok \<and> shut R P b s ok t) s"
proof -
  have frame: "frame_is (run.more s) s" "frame_is (run.more s) (s\<lparr>hist := h'\<rparr>)" for h'
    by (simp_all add: frame_is_def)
  have shut: "shut R P b s (a_flag a) (s\<lparr>hist := hist s @ [(c, a)]\<rparr>)" if "closes c = Some h" "usable h" for c a
    using alone.kept_closed [OF assms that, of a] that(1) by (simp add: shut_def frame)
  have "shut R P b s True s" if "\<not> usable h" using assms that by (simp add: shut_def frame)
  then show "wp (close_usable ops h) (\<lambda>r t. \<exists>ok. r = Val ok \<and> shut R P b s ok t) s"
    "wp (unlock_usable ops h) (\<lambda>r t. \<exists>ok. r = Val ok \<and> shut R P b s ok t) s"
    using shut by (simp_all add: unlock_usable_def wp_simps Let_def) blast+
qed

lemma unclean_close:
  "\<not> clean (hist s) \<Longrightarrow> wp (close_usable ops h) (\<lambda>r t. \<not> clean (hist t)) s"
  "\<not> clean (hist s) \<Longrightarrow> wp (unlock_usable ops h) (\<lambda>r t. \<not> clean (hist t)) s"
  by (simp_all add: unlock_usable_def wp_simps Let_def)

lemma holding_close:
  assumes s: "holding R P b k s" and P: "flagless P"
  shows "wp (close_exchange ops) (\<lambda>r t. \<exists>ok. r = Val ok \<and> e_pin t = e_pin s \<and>
    kept (\<lambda>_. R + hm (e_pin s)) P b t) s"
proof -
  have "kept (\<lambda>_. R + hm (e_pin s) + hm (e_lock s) + hm (e_file s)) P b s"
    by (rule kept_frame [of "e_share R"]) (use s in \<open>simp_all add: holding_def e_share_def ac_simps\<close>)
  note first = shut_close(1) [OF this, of ops]
  show ?thesis
    unfolding close_exchange_def wp_seq [of "gets _"] wp_gets res.case
  proof (rule wp_bind [OF first])
    fix ok1 t assume t: "shut (R + hm (e_pin s) + hm (e_lock s)) P b s ok1 t"
    then have same: "e_lock t = e_lock s" "e_pin t = e_pin s"
      using frame_handles [of s t] by (simp_all add: shut_def)
    have "kept (\<lambda>_. R + hm (e_pin s) + hm (e_lock s)) P b t" using t by (simp add: shut_def)
    note lock = shut_close(2) [OF this, of ops]
    have lock': "wp (unlock_usable ops (e_lock t)) (\<lambda>r u. \<exists>ok. r = Val ok \<and> shut (R + hm (e_pin s)) P b t ok u \<and>
        (\<not> ok1 \<longrightarrow> \<not> clean (hist u))) t"
      using lock unclean_close(2) [of t ops "e_lock s"] t
      by (simp add: same shut_def wp_def) (auto split: prod.splits)
    show "wp (seq (gets e_lock) (\<lambda>lock. seq (unlock_usable ops lock) (\<lambda>ok2.
        seq (upd (if ok1 \<and> ok2 then id else quarantine)) (\<lambda>_. ret (ok1 \<and> ok2)))))
        (\<lambda>r t. \<exists>ok. r = Val ok \<and> e_pin t = e_pin s \<and> kept (\<lambda>_. R + hm (e_pin s)) P b t) t"
      unfolding wp_seq [of "gets _"] wp_gets res.case
    proof (rule wp_bind [OF lock'])
      fix ok2 u assume u: "shut (R + hm (e_pin s)) P b t ok2 u \<and> (\<not> ok1 \<longrightarrow> \<not> clean (hist u))"
      then have "e_pin u = e_pin s"
        using frame_handles [of t u] same by (simp add: shut_def)
      then show "wp (seq (upd (if ok1 \<and> ok2 then id else quarantine)) (\<lambda>_. ret (ok1 \<and> ok2)))
          (\<lambda>r t. \<exists>ok. r = Val ok \<and> e_pin t = e_pin s \<and> kept (\<lambda>_. R + hm (e_pin s)) P b t) u"
        using u alone.kept_quarantine [of "R + hm (e_pin s)" P b u, OF _ _ P]
        by (auto simp: wp_simps shut_def)
    qed
  qed
qed

lemma kept_drop_pin:
  assumes "kept (\<lambda>_. R + hm (e_pin s)) P b s" and "flagless P"
  shows "wp (drop_pin ops) (\<lambda>r t. kept (\<lambda>_. R) P b t) s"
  unfolding drop_pin_def wp_seq [of "gets _"] wp_gets res.case
proof (rule wp_bind [OF shut_close(1) [OF assms(1)]])
  fix ok t assume "shut R P b s ok t"
  then show "wp (seq (upd (if ok then id else quarantine)) (\<lambda>_. ret ok)) (\<lambda>r t. kept (\<lambda>_. R) P b t) t"
    using alone.kept_quarantine [of R P b t, OF _ _ assms(2)] by (auto simp: wp_simps shut_def)
qed

section \<open>The slots of a lease\<close>

lemma hms_update: "j < length hs \<Longrightarrow> hms (hs[j := h]) + hm (hs ! j) = hms hs + hm h"
proof (induction hs arbitrary: j)
  case (Cons k hs)
  show ?case
  proof (cases j)
    case 0
    then show ?thesis by (simp add: ac_simps)
  next
    case (Suc i)
    then show ?thesis using Cons.IH [of i] Cons.prems by (simp add: add.assoc)
  qed
qed simp

lemma hms_slot: "j < length rs \<Longrightarrow> hms (map x_pin (rs[j := r])) + hm (x_pin (rs ! j)) = hms (map x_pin rs) + hm (x_pin r)"
  using hms_update [of j "map x_pin rs" "x_pin r"] by (simp add: map_update)

lemma retained_reads: "j < length (l_reads l) \<Longrightarrow>
  retained (l\<lparr>l_reads := (l_reads l)[j := r]\<rparr>) + hm (x_pin (l_reads l ! j)) = retained l + hm (x_pin r)"
  using hms_slot [of j "l_reads l" r] by (simp add: retained_def loose_handles_def pin_handles_def ac_simps)

lemma retained_receipts: "j < length (l_receipts l) \<Longrightarrow>
  retained (l\<lparr>l_receipts := (l_receipts l)[j := r]\<rparr>) + hm (x_pin (l_receipts l ! j)) = retained l + hm (x_pin r)"
  using hms_slot [of j "l_receipts l" r] by (simp add: retained_def loose_handles_def pin_handles_def ac_simps)

lemma lease_wf_slots:
  "lease_wf l \<Longrightarrow> null_or_usable (x_pin r) \<Longrightarrow> lease_wf (l\<lparr>l_reads := (l_reads l)[j := r]\<rparr>)"
  "lease_wf l \<Longrightarrow> null_or_usable (x_pin q) \<Longrightarrow> lease_wf (l\<lparr>l_receipts := (l_receipts l)[j := q]\<rparr>)"
  unfolding lease_wf_def using set_update_subset_insert by fastforce+

text \<open>What an exchange operation establishes before it leaves the lease.\<close>

definition left_in :: "handle multiset \<Rightarrow> lease \<Rightarrow> event list \<Rightarrow> exchange_run \<Rightarrow> bool" where
  "left_in R l0 h t \<longleftrightarrow> custody (\<lambda>_. R) t \<and> prefix h (hist t) \<and> 0 < next_ticket t \<and> mine l0 (cur t) \<and> idle (cur t)"

lemma left_settled: "left_in (others i s) (owner_at s i) (o_hist s) r \<Longrightarrow> settled i s r"
  by (simp add: left_in_def settled_def custody_def mine_def add.commute)

lemma calm_left: "kept (\<lambda>_. R) (calm l0) (h, n) t \<Longrightarrow> 0 < n \<Longrightarrow> idle l0 \<Longrightarrow> left_in R l0 h t"
  by (simp add: kept_def left_in_def calm_def idle_def)

lemma left_ticket:
  assumes s: "kept (\<lambda>_. R + hm p) (calm l0) (h, n) s" and p: "usable p" and n: "0 < n" "n \<le> INT64_MAX" and l0: "idle l0"
  shows "free_receipt l0 = Some j \<Longrightarrow> left_in R l0 h
      (s\<lparr>next_ticket := n + 1, cur := keep_receipt j n p i name (cur s)\<rparr>)"
    "free_read l0 = Some j \<Longrightarrow> left_in R l0 h
      (s\<lparr>next_ticket := n + 1, cur := keep_read j n p x name kind (cur s)\<rparr>)"
proof -
  have n': "0 < n + 1" using next_token_later [OF n] by blast
  have acc: "accounted (hist s) (R + (retained (cur s) + hm p))" "lease_wf (cur s)"
    "l_quarantined (cur s) \<longrightarrow> \<not> clean (hist s)" and calm: "calm l0 (cur s)" and pre: "prefix h (hist s)"
    using s by (simp_all add: kept_def custody_def ac_simps)
  have p': "null_or_usable p" using p by (simp add: null_or_usable_def)
  show "left_in R l0 h (s\<lparr>next_ticket := n + 1, cur := keep_receipt j n p i name (cur s)\<rparr>)"
    if "free_receipt l0 = Some j"
  proof -
    have j: "j < length (l_receipts (cur s))" "x_pin (l_receipts (cur s) ! j) = 0"
      using find_index_Some [of _ "l_receipts l0" j] that calm by (auto simp: free_receipt_def calm_def)
    have "retained (keep_receipt j n p i name (cur s)) = retained (cur s) + hm p"
      using retained_receipts [OF j(1)] j(2) by (simp add: keep_receipt_def)
    moreover have "lease_wf (keep_receipt j n p i name (cur s))"
      unfolding keep_receipt_def by (rule lease_wf_slots(2) [OF acc(2)]) (simp add: p')
    ultimately show ?thesis
      using acc pre n' calm l0 by (simp add: left_in_def custody_def keep_receipt_def calm_def mine_def idle_def)
  qed
  show "left_in R l0 h (s\<lparr>next_ticket := n + 1, cur := keep_read j n p x name kind (cur s)\<rparr>)"
    if "free_read l0 = Some j"
  proof -
    have j: "j < length (l_reads (cur s))" "x_pin (l_reads (cur s) ! j) = 0"
      using find_index_Some [of _ "l_reads l0" j] that calm by (auto simp: free_read_def calm_def)
    have "retained (keep_read j n p x name kind (cur s)) = retained (cur s) + hm p"
      using retained_reads [OF j(1)] j(2) by (simp add: keep_read_def)
    moreover have "lease_wf (keep_read j n p x name kind (cur s))"
      unfolding keep_read_def by (rule lease_wf_slots(1) [OF acc(2)]) (simp add: p')
    ultimately show ?thesis
      using acc pre n' calm l0 by (simp add: left_in_def custody_def keep_read_def calm_def mine_def idle_def)
  qed
qed

lemma left_finish:
  assumes s: "holding R (calm l0) (h, n) 3 s"
    and p: "(create \<or> ticketed) \<and> (\<exists>x. result = Val x) \<longrightarrow> usable (e_pin s)"
    and slot: "exchange_slot create ticketed l0 n = Some j" and n: "0 < n" and l0: "idle l0"
  shows "wp (exchange_finish ops kind oid create ticketed j result) (\<lambda>r t. left_in R l0 h t) s"
  unfolding exchange_finish_def
proof (rule wp_bind [OF holding_close [OF s calm_free(1)]])
  fix ok and t :: exchange_run
  assume "e_pin t = e_pin s \<and> kept (\<lambda>_. R + hm (e_pin s)) (calm l0) (h, n) t"
  then have pin: "e_pin t = e_pin s" and t: "kept (\<lambda>_. R + hm (e_pin t)) (calm l0) (h, n) t" by simp_all
  have next_ticket: "next_ticket t = n" using t by (simp add: kept_def)
  have drop: "wp (drop_pin ops) (\<lambda>r u. left_in R l0 h u) t"
    by (rule wp_mono [OF kept_drop_pin [OF t calm_free(1)]]) (rule calm_left [OF _ n l0])
  show "wp (case if ok then result else Err (Status UNAVAILABLE) of
      Val x \<Rightarrow>
         if create then
           seq (gets e_pin) (\<lambda>p. seq new_ticket (\<lambda>t.
           seq (upd (keep_receipt j t p (t_identity x) (exchange_filename kind oid))) (\<lambda>_. ret (Receipt t))))
         else if ticketed then
           seq (gets e_pin) (\<lambda>p. seq new_ticket (\<lambda>t.
           seq (upd (keep_read j t p x (exchange_filename kind oid) kind)) (\<lambda>_.
           ret (Ticketed t (t_nonce x) (t_bytes x)))))
         else seq (drop_pin ops) (\<lambda>ok. if ok then ret (Plain (t_bytes x)) else err (Status UNAVAILABLE))
    | Err e \<Rightarrow> seq (drop_pin ops) (\<lambda>ok. err (if ok then e else Status UNAVAILABLE)))
      (\<lambda>r t. left_in R l0 h t) t"
  proof (cases "if ok then result else Err (Status UNAVAILABLE)")
    case (Err e)
    show ?thesis
      unfolding Err res.case by (rule wp_bind_res [OF drop]) (simp_all add: wp_err)
  next
    case (Val x)
    then have "\<exists>x. result = Val x" by (auto split: if_splits)
    then have use: "create \<or> ticketed \<Longrightarrow> usable (e_pin t)" using p pin by simp
    consider (create) create | (ticketed) "\<not> create" ticketed | (plain) "\<not> create" "\<not> ticketed" by blast
    then show ?thesis
    proof cases
      case create
      then have f: "free_receipt l0 = Some j" "n \<le> INT64_MAX"
        using slot by (auto simp: exchange_slot_def not_less split: if_splits)
      show ?thesis
        using create left_ticket(1) [OF t use n f(2) l0 f(1)]
        by (simp add: Val new_ticket_def wp_simps next_ticket)
    next
      case ticketed
      then have f: "free_read l0 = Some j" "n \<le> INT64_MAX"
        using slot by (auto simp: exchange_slot_def not_less split: if_splits)
      show ?thesis
        using ticketed left_ticket(2) [OF t use n f(2) l0 f(1)]
        by (simp add: Val new_ticket_def wp_simps next_ticket)
    next
      case plain
      then show ?thesis
        unfolding Val by (simp, intro wp_bind_res [OF drop]) (simp_all add: wp_if wp_err wp_ret)
    qed
  qed
qed

lemma enter_holding:
  assumes inv: "objects_inv s" and i: "i < length (o_owners s)" "o_owners s ! i = Some (owner_at s i)"
  shows "holding (others i s) (calm (owner_at s i)) (o_hist s, o_next_ticket s) 0 (enter_exchange i s)"
  using enter_custody [OF inv i]
  by (simp add: holding_def kept_def custody_def enter_def enter_exchange_def e_share_def calm_def)

lemma owner_idle:
  assumes "objects_inv s" "i < length (o_owners s)" "o_owners s ! i = Some (owner_at s i)"
  shows "idle (owner_at s i)"
  using owner_inv [OF assms] by (simp add: lease_inv_def)

lemma exchange_operation_inv:
  assumes inv: "objects_inv s"
  shows "objects_inv (snd (snd (exchange_operation ops owner kind oid input capacity create ticketed s)))"
proof -
  have "objects_inv (leave i r s)"
    if f: "find_owner owner s = Some i" and slot: "exchange_slot create ticketed (owner_at s i) (o_next_ticket s) = Some j"
      and run: "exchange_transaction ops kind oid input capacity create ticketed j (enter_exchange i s) = (x, r)" for i j x r
  proof -
    have i: "i < length (o_owners s)" "o_owners s ! i = Some (owner_at s i)" using find_owner_Some [OF f] by auto
    have "wp (exchange_transaction ops kind oid input capacity create ticketed j)
        (\<lambda>r t. left_in (others i s) (owner_at s i) (o_hist s) t) (enter_exchange i s)"
      unfolding exchange_transaction_def wp_seq [of "attempt _"] wp_attempt res.case
      by (rule wp_mono [OF holding_chain [OF enter_holding [OF inv i] calm_free]])
        (auto intro!: left_finish slot objects_inv_ticket inv owner_idle i)
    from wp_run [OF this run] show ?thesis
      by (intro objects_inv_leave [OF inv i] left_settled)
  qed
  then show ?thesis
    using inv by (auto simp: exchange_operation_def split: option.splits prod.splits res.splits)
qed

theorem exchange_create_keeps_inv:
  "objects_inv s \<Longrightarrow> objects_inv (snd (exchange_create ops version owner kind oid input len receipt s))"
  using exchange_operation_inv [of "o_write (store64 receipt 0) s" ops owner kind
      "read_bytes oid 16 (o_mem (o_write (store64 receipt 0) s))"
      "read_bytes input len (o_mem (o_write (store64 receipt 0) s))" 0 True False]
  by (auto simp: exchange_create_def Let_def split: prod.splits delivery.splits)

lemma exchange_read_op_inv:
  "objects_inv s \<Longrightarrow> objects_inv (snd (exchange_read_op ops version owner kind oid output capacity written s))"
proof -
  assume inv: "objects_inv s"
  have "objects_inv (snd (snd (exchange_operation ops owner kind name [] n False False (o_write f s))))" for name n f
    by (rule exchange_operation_inv) (simp add: inv)
  then show ?thesis
    using inv by (auto simp: exchange_read_op_def Let_def split: prod.splits delivery.splits) (metis objects_inv_mem snd_conv)+
qed

lemma exchange_read_begin_inv:
  "objects_inv s \<Longrightarrow> objects_inv (snd (exchange_read_begin ops version owner kind oid output capacity written ticket s))"
proof -
  assume inv: "objects_inv s"
  have "objects_inv (snd (snd (exchange_operation ops owner kind name [] n False True (o_write f s))))" for name n f
    by (rule exchange_operation_inv) (simp add: inv)
  then show ?thesis
    using inv by (auto simp: exchange_read_begin_def Let_def split: prod.splits delivery.splits) (metis objects_inv_mem snd_conv)+
qed

section \<open>Settlement and cleanup\<close>

text \<open>The pin of a slot: closed once, then dropped.\<close>

lemma shut_slot:
  assumes s: "kept (\<lambda>_. R) P b s" and p: "null_or_usable (pin (cur s))"
    and clear: "retained (clear (cur s)) + hm (pin (cur s)) = retained (cur s)" "lease_wf (clear (cur s))"
      "l_quarantined (clear (cur s)) = l_quarantined (cur s)" "P (clear (cur s))"
  shows "wp (close_nonnull ops (pin (cur s))) (\<lambda>r t. \<exists>ok. r = Val ok \<and> shut R P b s ok (t\<lparr>cur := clear (cur t)\<rparr>)) s"
proof -
  have frame: "frame_is (run.more s) (s\<lparr>hist := h', cur := l\<rparr>)" "frame_is (run.more s) (s\<lparr>cur := l\<rparr>)" for h' l
    by (simp_all add: frame_is_def)
  have acc: "accounted (hist s) (hm (pin (cur s)) + (R + retained (clear (cur s))))"
    using s clear(1) by (simp add: kept_def custody_def ac_simps)
  show ?thesis
  proof (cases "pin (cur s) = 0")
    case True
    then show ?thesis
      using s acc clear frame by (simp add: wp_simps Let_def shut_def kept_def custody_def) blast
  next
    case False
    then have u: "usable (pin (cur s))" using p by (simp add: null_or_usable_def)
    have "accounted (hist s @ [(Close (pin (cur s)), a)]) (R + retained (clear (cur s)))" for a
      by (rule accounted_close [OF _ u acc]) simp
    then show ?thesis
      using False s clear frame by (simp add: wp_simps Let_def shut_def kept_def custody_def prefix_snoc)
  qed
qed

lemma unclean_later: "\<not> clean (hist s) \<Longrightarrow> wp (close_nonnull ops h) (\<lambda>r t. \<not> clean (hist t)) s"
  by (simp add: wp_simps Let_def)

text \<open>What a settlement keeps besides the slots.\<close>

definition quiet_slots :: "lease \<Rightarrow> lease \<Rightarrow> bool" where
  "quiet_slots l0 l \<longleftrightarrow> mine l0 l \<and> l_temporary l = l_temporary l0 \<and> l_target l = l_target l0 \<and> l_ticket l = l_ticket l0"

lemma quiet_flagless [simp]: "flagless (quiet_slots l0)"
  by (simp add: flagless_def quiet_slots_def mine_def)

lemma kept_close_settled:
  assumes s: "holding R (quiet_slots l0) b k s" and k: "e_pin s = 0"
    and p: "null_or_usable (pin (cur s))"
    and clear: "retained (clear (cur s)) + hm (pin (cur s)) = retained (cur s)" "lease_wf (clear (cur s))"
      "l_quarantined (clear (cur s)) = l_quarantined (cur s)" "quiet_slots l0 (clear (cur s))"
  shows "wp (close_settled ops pin clear) (\<lambda>r t. (\<exists>ok. r = Val ok) \<and> kept (\<lambda>_. R) (quiet_slots l0) b t) s"
proof -
  let ?P = "quiet_slots l0"
  have start: "kept (\<lambda>_. R + hm (e_lock s) + hm (e_file s)) ?P b s"
    by (rule kept_frame [of "e_share R"]) (use s k in \<open>simp_all add: holding_def e_share_def ac_simps\<close>)
  have first: "wp (close_usable ops (e_file s)) (\<lambda>r t. \<exists>ok. r = Val ok \<and> shut (R + hm (e_lock s)) ?P b s ok t \<and> cur t = cur s) s"
    using shut_close(1) [OF start, of ops] by (auto simp: wp_def close_usable_def seq_def invoke_def ret_def Let_def split: if_splits)
  show ?thesis
    unfolding close_settled_def wp_seq [of "gets _"] wp_gets res.case
  proof (rule wp_bind [OF first], elim conjE)
    fix ok1 t assume t: "shut (R + hm (e_lock s)) ?P b s ok1 t" "cur t = cur s"
    then have same: "e_lock t = e_lock s" using frame_handles [of s t] by (simp add: shut_def)
    have kt: "kept (\<lambda>_. R + hm (e_lock s)) ?P b t" using t by (simp add: shut_def)
    have slot: "wp (close_nonnull ops (pin (cur t))) (\<lambda>r u. \<exists>ok. r = Val ok \<and>
        shut (R + hm (e_lock s)) ?P b t ok (u\<lparr>cur := clear (cur u)\<rparr>) \<and> (\<not> ok1 \<longrightarrow> \<not> clean (hist u))) t"
      using shut_slot [OF kt, of pin clear ops, unfolded t(2), OF p clear]
        unclean_later [of t ops "pin (cur s)"] t
      by (auto simp: wp_def shut_def split: prod.splits)
    show "wp (seq (lease_get pin) (\<lambda>p. seq (close_nonnull ops p) (\<lambda>ok2. seq (upd clear) (\<lambda>_.
        seq (gets e_lock) (\<lambda>lock. seq (unlock_usable ops lock) (\<lambda>ok3.
        seq (upd (if ok1 \<and> ok2 \<and> ok3 then id else quarantine)) (\<lambda>_. ret (ok1 \<and> ok2 \<and> ok3))))))))
        (\<lambda>r t. (\<exists>ok. r = Val ok) \<and> kept (\<lambda>_. R) ?P b t) t"
      unfolding wp_seq [of "lease_get _"] wp_lease_get res.case
    proof (rule wp_bind [OF slot])
      fix ok2 u
      assume u: "shut (R + hm (e_lock s)) ?P b t ok2 (u\<lparr>cur := clear (cur u)\<rparr>) \<and> (\<not> ok1 \<longrightarrow> \<not> clean (hist u))"
      let ?u = "u\<lparr>cur := clear (cur u)\<rparr>"
      have lock: "e_lock ?u = e_lock s" using u frame_handles [of t ?u] same by (simp add: shut_def)
      have ku: "kept (\<lambda>_. R + hm (e_lock s)) ?P b ?u" using u by (simp add: shut_def)
      have last: "wp (unlock_usable ops (e_lock ?u)) (\<lambda>r v. \<exists>ok. r = Val ok \<and> shut R ?P b ?u ok v \<and>
          (\<not> (ok1 \<and> ok2) \<longrightarrow> \<not> clean (hist v))) ?u"
        using shut_close(2) [OF ku, of ops] unclean_close(2) [of ?u ops "e_lock s"] u
        unfolding lock by (auto simp: wp_def shut_def split: prod.splits)
      have "wp (seq (gets e_lock) (\<lambda>lock. seq (unlock_usable ops lock) (\<lambda>ok3.
          seq (upd (if ok1 \<and> ok2 \<and> ok3 then id else quarantine)) (\<lambda>_. ret (ok1 \<and> ok2 \<and> ok3)))))
          (\<lambda>r t. (\<exists>ok. r = Val ok) \<and> kept (\<lambda>_. R) ?P b t) ?u"
        unfolding wp_seq [of "gets _"] wp_gets res.case
      proof (rule wp_bind [OF last], elim conjE)
        fix ok3 v assume v: "shut R ?P b ?u ok3 v" "\<not> (ok1 \<and> ok2) \<longrightarrow> \<not> clean (hist v)"
        then show "wp (seq (upd (if ok1 \<and> ok2 \<and> ok3 then id else quarantine)) (\<lambda>_. ret (ok1 \<and> ok2 \<and> ok3)))
            (\<lambda>r t. (\<exists>ok. r = Val ok) \<and> kept (\<lambda>_. R) ?P b t) v"
          using alone.kept_quarantine [of R ?P b v] by (auto simp: wp_simps shut_def)
      qed
      then show "wp (seq (upd clear) (\<lambda>_. seq (gets e_lock) (\<lambda>lock. seq (unlock_usable ops lock) (\<lambda>ok3.
          seq (upd (if ok1 \<and> ok2 \<and> ok3 then id else quarantine)) (\<lambda>_. ret (ok1 \<and> ok2 \<and> ok3))))))
          (\<lambda>r t. (\<exists>ok. r = Val ok) \<and> kept (\<lambda>_. R) ?P b t) u"
        by (simp add: wp_seq [of "upd _"] wp_upd)
    qed
  qed
qed

lemma pres_deleting: "pres (holding R P b k) (modify (\<lambda>s. s\<lparr>deleting := d\<rparr>))"
  by (rule pres_modify) (simp add: holding_def kept_def custody_def e_share_def)

lemma holding_two: "holding R P b 0 t \<Longrightarrow> holding R P b 2 t" "holding R P b 1 t \<Longrightarrow> holding R P b 2 t"
  by (erule holding_later, simp)+

lemma holding_consume:
  assumes s: "holding R P b 0 s" and P: "flagless P" "exchange_free P"
  shows "wp (consume_chain ops j) (\<lambda>r t. holding R P b 2 t) s"
  unfolding consume_chain_def
  apply (rule wp_bind_res [OF holding_lock [OF s P]])
   apply (rule wp_seq_pres [OF pres_directory [OF P]], assumption, erule holding_two)
   apply (rule wp_seq_pres [OF pres_count], assumption, erule holding_two)
   apply (rule wp_seq_pres [where I = "holding R P b 1"], rule pres_lease_get, assumption, erule holding_two)
   apply (rule wp_seq_pres [OF pres_inspect_file], assumption, erule holding_two)
   apply (rule wp_bind_res [OF holding_file], assumption, simp)
    apply (rule wp_pres)
     apply (intro pres_intros pres_inspect_file pres_holding_quiet pres_directory [OF P] pres_deleting; simp)
    apply assumption
   apply assumption
  apply (erule holding_two)
  done

lemma holding_cleanup:
  assumes s: "holding R P b 0 s" and P: "flagless P" "exchange_free P"
  shows "wp (cleanup_chain ops j) (\<lambda>r t. holding R P b 2 t) s"
  unfolding cleanup_chain_def
  apply (rule wp_bind_res [OF holding_lock [OF s P]])
   apply (rule wp_seq_pres [where I = "holding R P b 1"], rule pres_lease_get, assumption, erule holding_two)
   apply (rule wp_seq_pres [OF pres_inspect_file], assumption, erule holding_two)
   apply (rule wp_bind_res [OF holding_file], assumption, simp)
    apply (rule wp_pres)
     apply (intro pres_intros pres_inspect_file pres_holding_quiet pres_directory [OF P]; simp)
    apply assumption
   apply assumption
  apply (erule holding_two)
  done

lemma slot_usable:
  "lease_wf l \<Longrightarrow> j < length (l_reads l) \<Longrightarrow> null_or_usable (x_pin (l_reads l ! j))"
  "lease_wf l \<Longrightarrow> j < length (l_receipts l) \<Longrightarrow> null_or_usable (x_pin (l_receipts l ! j))"
  by (simp_all add: lease_wf_def)

lemma drop_read_facts:
  assumes "lease_wf l" "j < length (l_reads l)"
  shows "null_or_usable (x_pin (held_read j l))" "retained (drop_read_pin j l) + hm (x_pin (held_read j l)) = retained l"
    "lease_wf (drop_read_pin j l)" "retained (retire_read j l) = retained l" "lease_wf (retire_read j l)"
  using slot_usable(1) [OF assms] retained_reads [OF assms(2), of "(l_reads l ! j)\<lparr>x_pin := 0, x_bytes := []\<rparr>"]
    retained_reads [OF assms(2), of "(l_reads l ! j)\<lparr>x_token := 0, x_nonce := replicate 16 0\<rparr>"]
    lease_wf_slots(1) [OF assms(1)]
  by (simp_all add: held_read_def drop_read_pin_def retire_read_def)

lemma drop_receipt_facts:
  assumes "lease_wf l" "j < length (l_receipts l)"
  shows "null_or_usable (x_pin (held_receipt j l))"
    "retained (drop_receipt_pin j l) + hm (x_pin (held_receipt j l)) = retained l"
    "lease_wf (drop_receipt_pin j l)" "retained (retire_receipt j l) = retained l" "lease_wf (retire_receipt j l)"
  using slot_usable(2) [OF assms] retained_receipts [OF assms(2), of "(l_receipts l ! j)\<lparr>x_pin := 0\<rparr>"]
    retained_receipts [OF assms(2), of "(l_receipts l ! j)\<lparr>x_token := 0\<rparr>"] lease_wf_slots(2) [OF assms(1)]
  by (simp_all add: held_receipt_def drop_receipt_pin_def retire_receipt_def)

lemma quiet_left: "kept (\<lambda>_. R) (quiet_slots l0) (h, n) t \<Longrightarrow> 0 < n \<Longrightarrow> idle l0 \<Longrightarrow> left_in R l0 h t"
  by (simp add: kept_def left_in_def quiet_slots_def idle_def)

lemma calm_quiet: "holding R (calm l0) b k t \<Longrightarrow> holding R (quiet_slots l0) b k t"
  unfolding holding_def by (auto elim!: kept_mono simp: calm_def quiet_slots_def)

lemma quiet_slots_updates [simp]:
  "quiet_slots l0 (drop_read_pin j l) = quiet_slots l0 l" "quiet_slots l0 (drop_receipt_pin j l) = quiet_slots l0 l"
  "quiet_slots l0 (retire_read j l) = quiet_slots l0 l" "quiet_slots l0 (retire_receipt j l) = quiet_slots l0 l"
  "l_quarantined (drop_read_pin j l) = l_quarantined l" "l_quarantined (drop_receipt_pin j l) = l_quarantined l"
  "l_quarantined (retire_read j l) = l_quarantined l" "l_quarantined (retire_receipt j l) = l_quarantined l"
  by (simp_all add: drop_read_pin_def drop_receipt_pin_def retire_read_def retire_receipt_def quiet_slots_def mine_def)

lemma holding_quiet: "holding R (quiet_slots l0) b k s \<Longrightarrow> lease_wf (cur s) \<and> quiet_slots l0 (cur s) \<and> length (l_reads (cur s)) = 32 \<and> length (l_receipts (cur s)) = 32"
  by (simp add: holding_def kept_def custody_def lease_wf_def)

lemma quiet_exchange [simp]: "exchange_free (quiet_slots l0)"
  by (simp add: exchange_free_def quiet_slots_def mine_def set_exchange_handle_def set_exchange_identity_def)

lemma left_denied: "left_in R l0 h t \<Longrightarrow> left_in R l0 h (t\<lparr>cur := (cur t)\<lparr>l_denied := True\<rparr>\<rparr>)"
  by (simp add: left_in_def custody_def mine_def idle_def lease_wf_def)

lemma left_close_settled:
  assumes s: "holding R (quiet_slots l0) (h, n) k s" and z: "e_pin s = 0" and n: "0 < n" and l0: "idle l0"
    and facts: "null_or_usable (pin (cur s))" "retained (clear (cur s)) + hm (pin (cur s)) = retained (cur s)"
      "lease_wf (clear (cur s))" "l_quarantined (clear (cur s)) = l_quarantined (cur s)" "quiet_slots l0 (clear (cur s))"
  shows "wp (close_settled ops pin clear) (\<lambda>r t. left_in R l0 h t) s"
  by (rule wp_mono [OF kept_close_settled [where pin = pin and clear = clear, OF s z facts]]) (auto intro: quiet_left n l0)

lemma left_settle:
  assumes s: "holding R (quiet_slots l0) (h, n) 0 s" and j: "j < 32" and n: "0 < n" and l0: "idle l0"
  shows "wp (settle_transaction ops j consume) (\<lambda>r t. left_in R l0 h t) s"
proof -
  note wf = holding_quiet [OF s]
  have retired: "holding R (quiet_slots l0) (h, n) 0 (s\<lparr>cur := retire_read j (cur s)\<rparr>)"
    using s wf drop_read_facts [of "cur s" j] j by (auto simp: holding_def kept_def custody_def e_share_def)
  have chain: "wp (if consume then consume_chain ops j else ret ()) (\<lambda>r t. holding R (quiet_slots l0) (h, n) 2 t)
      (s\<lparr>cur := retire_read j (cur s)\<rparr>)"
    using holding_consume [OF retired] holding_two(1) [OF retired] by (simp add: wp_ret)
  show ?thesis
    unfolding settle_transaction_def wp_seq [of "upd _"] wp_upd res.case wp_seq [of "attempt _"] wp_attempt
  proof (rule wp_mono [OF chain])
    fix result and t :: exchange_run assume t: "holding R (quiet_slots l0) (h, n) 2 t"
    note facts = drop_read_facts [of "cur t" j]
    have "wp (close_settled ops (\<lambda>l. x_pin (held_read j l)) (drop_read_pin j)) (\<lambda>r t. left_in R l0 h t) t"
      by (rule left_close_settled [OF t _ n l0]) (use t holding_quiet [OF t] facts j in \<open>simp_all add: holding_def\<close>)
    then show "wp (seq (close_settled ops (\<lambda>l. x_pin (held_read j l)) (drop_read_pin j)) (\<lambda>closed.
        seq (gets deleting) (\<lambda>deletion.
        seq (upd (\<lambda>l. if settle_status deletion closed result = COMMIT_UNKNOWN then l\<lparr>l_denied := True\<rparr> else l)) (\<lambda>_.
        ret (settle_status deletion closed result))))) (\<lambda>r t. left_in R l0 h t) t"
      by (rule wp_bind_res) (simp_all add: wp_simps left_denied)
  qed
qed

lemma left_cleanup:
  assumes s: "holding R (quiet_slots l0) (h, n) 0 s" and j: "j < 32" and n: "0 < n" and l0: "idle l0"
  shows "wp (cleanup_transaction ops j) (\<lambda>r t. left_in R l0 h t) s"
proof -
  note wf = holding_quiet [OF s]
  have retired: "holding R (quiet_slots l0) (h, n) 0 (s\<lparr>cur := retire_receipt j (cur s)\<rparr>)"
    using s wf drop_receipt_facts [of "cur s" j] j by (auto simp: holding_def kept_def custody_def e_share_def)
  show ?thesis
    unfolding cleanup_transaction_def wp_seq [of "upd _"] wp_upd res.case wp_seq [of "attempt _"] wp_attempt
  proof (rule wp_mono [OF holding_cleanup [OF retired]])
    fix result and t :: exchange_run assume t: "holding R (quiet_slots l0) (h, n) 2 t"
    note facts = drop_receipt_facts [of "cur t" j]
    have "wp (close_settled ops (\<lambda>l. x_pin (held_receipt j l)) (drop_receipt_pin j)) (\<lambda>r t. left_in R l0 h t) t"
      by (rule left_close_settled [OF t _ n l0]) (use t holding_quiet [OF t] facts j in \<open>simp_all add: holding_def\<close>)
    then show "wp (seq (close_settled ops (\<lambda>l. x_pin (held_receipt j l)) (drop_receipt_pin j)) (\<lambda>closed.
        ret (settle_status False closed result))) (\<lambda>r t. left_in R l0 h t) t"
      by (rule wp_bind_res) (simp_all add: wp_simps)
  qed (rule quiet_flagless quiet_exchange)+
qed

lemma enter_quiet:
  assumes "objects_inv s" "i < length (o_owners s)" "o_owners s ! i = Some (owner_at s i)"
  shows "holding (others i s) (quiet_slots (owner_at s i)) (o_hist s, o_next_ticket s) 0 (enter_exchange i s)"
  by (rule calm_quiet [OF enter_holding [OF assms]])

lemma slot_count:
  assumes "objects_inv s" "i < length (o_owners s)" "o_owners s ! i = Some (owner_at s i)"
  shows "length (l_reads (owner_at s i)) = 32" "length (l_receipts (owner_at s i)) = 32"
  using owner_inv [OF assms] by (simp_all add: lease_inv_def lease_wf_def)

theorem exchange_settle_keeps_inv:
  assumes inv: "objects_inv s"
  shows "objects_inv (snd (exchange_settle ops version owner ticket consume s))"
proof -
  have "objects_inv (leave i r s)"
    if f: "find_owner owner s = Some i" and j: "find_index P (l_reads (owner_at s i)) = Some j"
      and run: "settle_transaction ops j consume (enter_exchange i s) = (x, r)" for i j x r P
  proof -
    have i: "i < length (o_owners s)" "o_owners s ! i = Some (owner_at s i)" using find_owner_Some [OF f] by auto
    have "j < 32" using find_index_Some [OF j] slot_count [OF inv i] by simp
    from wp_run [OF left_settle [OF enter_quiet [OF inv i] this objects_inv_ticket [OF inv] owner_idle [OF inv i]] run]
    show ?thesis by (intro objects_inv_leave [OF inv i] left_settled)
  qed
  then show ?thesis
    using inv by (auto simp: exchange_settle_def Let_def split: option.splits prod.splits res.splits)
qed

theorem exchange_cleanup_keeps_inv:
  assumes inv: "objects_inv s"
  shows "objects_inv (snd (exchange_cleanup ops version owner receipt s))"
proof -
  have "objects_inv (leave i r s)"
    if f: "find_owner owner s = Some i" and j: "find_index P (l_receipts (owner_at s i)) = Some j"
      and run: "cleanup_transaction ops j (enter_exchange i s) = (x, r)" for i j x r P
  proof -
    have i: "i < length (o_owners s)" "o_owners s ! i = Some (owner_at s i)" using find_owner_Some [OF f] by auto
    have "j < 32" using find_index_Some [OF j] slot_count [OF inv i] by simp
    from wp_run [OF left_cleanup [OF enter_quiet [OF inv i] this objects_inv_ticket [OF inv] owner_idle [OF inv i]] run]
    show ?thesis by (intro objects_inv_leave [OF inv i] left_settled)
  qed
  then show ?thesis
    using inv by (auto simp: exchange_cleanup_def split: option.splits prod.splits res.splits)
qed

end
