(* ===== verification/Exchange_Contract.thy ===== *)
theory Exchange_Contract
  imports Exchange_Store Sample_World
begin

text \<open>
  What the exchange operations promise: a consumption deletes only the object whose bytes and
  identity it has just compared with the ones it handed out, a ticket is retired whatever
  happens, and a read delivers a complete, well-formed object or nothing.
\<close>

section \<open>Deletions in the log\<close>

fun is_delete :: "call \<Rightarrow> bool" where
  "is_delete (Exchange_delete h) = True"
| "is_delete _ = False"

definition deletes :: "event list \<Rightarrow> event list" where
  "deletes es = filter (\<lambda>e. is_delete (fst e)) es"

lemma deletes_simps [simp]: "deletes [] = []" "deletes (es @ fs) = deletes es @ deletes fs"
  "deletes (e # es) = (if is_delete (fst e) then e # deletes es else deletes es)"
  by (simp_all add: deletes_def)

text \<open>Since \<open>h\<close> the events \<open>E\<close> were logged, among others but no deletion; the slots are \<open>rs\<close>.\<close>

definition noted :: "event list \<Rightarrow> exchange_read list \<Rightarrow> event set \<Rightarrow> 'x run_scheme \<Rightarrow> bool" where
  "noted h rs E s \<longleftrightarrow> (\<exists>es. hist s = h @ es \<and> deletes es = [] \<and> E \<subseteq> set es) \<and> l_reads (cur s) = rs"

lemma noted_step:
  "noted h rs E s \<Longrightarrow> \<not> is_delete c \<Longrightarrow> noted h rs (insert (c, a) E) (s\<lparr>hist := hist s @ [(c, a)]\<rparr>)"
  by (fastforce simp: noted_def)

lemma noted_mono: "noted h rs E s \<Longrightarrow> D \<subseteq> E \<Longrightarrow> noted h rs D s"
  by (fastforce simp: noted_def)

lemma noted_quiet: "noted h rs E s \<Longrightarrow> \<not> is_delete c \<Longrightarrow> noted h rs E (s\<lparr>hist := hist s @ [(c, a)]\<rparr>)"
  using noted_mono [OF noted_step] by blast

lemma stable_noted: "stable (\<lambda>c. \<not> is_delete c) (noted h rs E)"
  unfolding stable_def using noted_quiet by blast

lemma noted_upd [simp]:
  "l_reads (f (cur s)) = l_reads (cur s) \<Longrightarrow> noted h rs E (s\<lparr>cur := f (cur s)\<rparr>) = noted h rs E s"
  by (simp add: noted_def)

lemma noted_frame [simp]:
  "noted h rs E (s\<lparr>e_lock := x\<rparr>) = noted h rs E s" "noted h rs E (s\<lparr>e_file := x\<rparr>) = noted h rs E s"
  "noted h rs E (s\<lparr>e_pin := x\<rparr>) = noted h rs E s" "noted h rs E (s\<lparr>deleting := d\<rparr>) = noted h rs E s"
  by (simp_all add: noted_def)

lemma pres_noted_check: "pres (noted h rs E) (check_lease ops)"
  by (rule pres_check_lease) (erule noted_quiet, simp, erule noted_quiet, simp, simp add: noted_def)

lemma pres_noted_upd: "(\<And>l. l_reads (f l) = l_reads l) \<Longrightarrow> pres (noted h rs E) (upd f)"
  by (rule pres_upd) simp

lemma pres_noted_directory: "pres (noted h rs E) (exchange_directory ops)"
  unfolding exchange_directory_def pin_exchange_def pin_directory_def inspect_exchange_def deny_failure_def
  by (intro pres_intros pres_noted_check stable_invoke [OF stable_noted] stable_perform [OF stable_noted] pres_noted_upd)
    (auto split: res.splits intro!: pres_intros pres_noted_upd simp: set_exchange_handle_def set_exchange_identity_def)

lemma pres_noted_lock: "pres (noted h rs E) (lock_exchange ops)"
  unfolding lock_exchange_def
  by (intro pres_intros pres_noted_directory stable_invoke [OF stable_noted] pres_modify) simp_all

lemma pres_noted_count: "pres (noted h rs E) (count_exchange ops create)"
  unfolding count_exchange_def by (intro pres_intros stable_perform [OF stable_noted]) simp

text \<open>Steps that leave their observation in the log.\<close>

lemma noted_inspect:
  assumes "noted h rs E s"
  shows "wp (inspect_file ops f sid T) (\<lambda>r t. case r of
      Val i \<Rightarrow> object_valid i sid False True True \<and> T i \<and>
        (\<exists>a. outcome a = Status OK \<and> a_info a = i \<and> noted h rs (insert (Inspect f, a) E) t)
    | Err e \<Rightarrow> noted h rs E t) s"
  using noted_step [OF assms, of "Inspect f"] noted_mono [OF noted_step [OF assms, of "Inspect f"], of E]
  by (auto simp: inspect_file_def wp_simps Let_def)

lemma noted_open:
  assumes "noted h rs E s"
  shows "wp (open_exchange ops name mode sid) (\<lambda>r t. case r of
      Val f \<Rightarrow> usable f \<and> (\<exists>d a. outcome a = Status OK \<and> a_handle a = f \<and>
        noted h rs (insert (Exchange_open d name mode sid, a) E) t)
    | Err e \<Rightarrow> noted h rs E t) s"
proof -
  let ?c = "Exchange_open (exchange_handle (cur s)) name mode sid"
  have new: "noted h rs (insert (?c, a) E) (s\<lparr>hist := hist s @ [(?c, a)]\<rparr>)" for a
    by (rule noted_step [OF assms]) simp
  have old: "noted h rs E (s\<lparr>hist := hist s @ [(?c, a)]\<rparr>)" for a
    by (rule noted_mono [OF new]) auto
  show ?thesis
    using new old by (auto simp: open_exchange_def wp_simps)
qed

lemma noted_read:
  assumes "noted h rs E s"
  shows "wp (perform ops (Exchange_read f n)) (\<lambda>r t. case r of
      Val a \<Rightarrow> outcome a = Status OK \<and> noted h rs (insert (Exchange_read f n, a) E) t
    | Err e \<Rightarrow> noted h rs E t) s"
  using noted_step [OF assms, of "Exchange_read f n"] noted_quiet [OF assms, of "Exchange_read f n"]
  by (simp add: wp_simps Let_def)

section \<open>Consumption\<close>

text \<open>
  What vouches for deleting through \<open>f\<close> on behalf of the ticket \<open>r\<close>: the pinned object is
  unchanged, \<open>f\<close> was opened exclusively under the recorded name, it is the same protected
  file, and its bytes are the ones that were handed out.
\<close>

definition vouched :: "exchange_read \<Rightarrow> handle \<Rightarrow> event list \<Rightarrow> bool" where
  "vouched r f es \<longleftrightarrow> usable f \<and>
     (\<exists>d sid a. (Exchange_open d (x_name r) 4 sid, a) \<in> set es \<and> outcome a = Status OK \<and> a_handle a = f) \<and>
     (\<exists>a. (Exchange_read f (exchange_cap (x_kind r)), a) \<in> set es \<and> outcome a = Status OK \<and> a_bytes a = x_bytes r) \<and>
     (\<exists>sid a. (Inspect f, a) \<in> set es \<and> outcome a = Status OK \<and>
        object_valid (a_info a) sid False True True \<and> same_object (a_info a) (x_identity r)) \<and>
     (\<exists>sid a. (Inspect (x_pin r), a) \<in> set es \<and> outcome a = Status OK \<and>
        object_valid (a_info a) sid False True True \<and> same_object (a_info a) (x_identity r))"

definition consumed :: "event list \<Rightarrow> exchange_read \<Rightarrow> unit res \<Rightarrow> exchange_run \<Rightarrow> bool" where
  "consumed h r res t \<longleftrightarrow>
     (\<exists>es. hist t = h @ es \<and> deletes es = [] \<and> res \<noteq> Val ()) \<or>
     (\<exists>pre f a. hist t = h @ pre @ [(Exchange_delete f, a)] \<and> deletes pre = [] \<and> vouched r f pre \<and>
        (res = Val () \<longrightarrow> outcome a = Status OK))"

lemma noted_consumed: "noted h rs E t \<Longrightarrow> consumed h r (Err e) t"
  by (auto simp: noted_def consumed_def)

lemma consumed_delete:
  assumes t: "noted h rs E t" and v: "\<And>es. E \<subseteq> set es \<Longrightarrow> vouched r f es"
  shows "wp (seq (perform ops (Exchange_delete f)) (\<lambda>_. ret ())) (consumed h r) (t\<lparr>deleting := True\<rparr>)"
proof -
  obtain es where es: "hist t = h @ es" "deletes es = []" "E \<subseteq> set es" using t by (auto simp: noted_def)
  then show ?thesis using v [OF es(3)] by (auto simp: wp_simps Let_def consumed_def)
qed

lemma noted_slot: "noted h rs E s \<Longrightarrow> held_read j (cur s) = rs ! j"
  by (simp add: noted_def held_read_def)

lemma wp_consume:
  assumes s: "noted h rs {} s"
  shows "wp (consume_chain ops j) (consumed h (rs ! j)) s"
  unfolding consume_chain_def
  apply (rule wp_seq_pres [OF pres_noted_lock s], erule noted_consumed)
  apply (rule wp_seq_pres [OF pres_noted_directory], assumption, erule noted_consumed)
  apply (rule wp_seq_pres [OF pres_noted_count], assumption, erule noted_consumed)
  apply (simp only: wp_seq [of "lease_get _"] wp_lease_get res.case noted_slot)
  apply (rule wp_val_err [OF noted_inspect], assumption)
   apply (elim conjE exE)
   apply (rule wp_val_err [OF noted_open], assumption)
    apply (elim conjE exE)
    apply (rule wp_val_err [OF noted_inspect], assumption)
     apply (elim conjE exE)
     apply (rule wp_val_err [OF noted_read], assumption)
      apply (elim conjE)
      apply (simp only: wp_seq [of "require _ _"] wp_require)
      apply (split if_split, intro conjI impI)
       apply (simp only: res.case)
       apply (rule wp_val_err [OF noted_inspect], assumption)
        apply (elim conjE exE)
        apply (rule wp_val_err [OF noted_inspect], assumption)
         apply (elim conjE exE)
         apply (rule wp_seq_pres [OF pres_noted_directory], assumption, erule noted_consumed)
         apply (simp only: wp_seq [of "modify _"] wp_modify res.case)
         apply (erule consumed_delete)
         apply (unfold vouched_def insert_subset)
         apply blast
       apply (simp add: noted_consumed)
      apply (simp_all add: noted_consumed)
  done

text \<open>Nothing is deleted once the decision has been taken.\<close>

definition quiet_since :: "event list \<Rightarrow> 'x run_scheme \<Rightarrow> bool" where
  "quiet_since h s \<longleftrightarrow> (\<exists>es. hist s = h @ es \<and> deletes es = [])"

lemma stable_quiet_since: "stable (\<lambda>c. \<not> is_delete c) (quiet_since h)" "lease_free (quiet_since h)"
  by (fastforce simp: stable_def quiet_since_def, simp add: lease_free_def quiet_since_def)

lemma quiet_close_settled: "pres (quiet_since h) (close_settled ops pin clear)"
  unfolding close_settled_def unlock_usable_def close_nonnull_def
  by (intro pres_intros stable_close [OF stable_quiet_since(1)] stable_invoke [OF stable_quiet_since(1)]
      lease_free_upd [OF stable_quiet_since(2)]) simp_all

lemma proper_deny: "r \<noteq> Err (Status OK) \<Longrightarrow> proper (deny_failure r)"
  by (cases r) (auto simp: deny_failure_def intro!: proper_intros proper_err)

lemma proper_inspect_exchange [proper_intros]: "proper (inspect_exchange ops sid)"
  unfolding inspect_exchange_def
  by (rule proper_seq, intro proper_intros, rule proper_attempt, intro proper_intros, simp, erule proper_deny)

lemma proper_directory [proper_intros]: "proper (exchange_directory ops)"
  unfolding exchange_directory_def pin_exchange_def pin_directory_def by (intro proper_intros) simp_all

lemma proper_consume: "proper (consume_chain ops j)"
  unfolding consume_chain_def lock_exchange_def count_exchange_def open_exchange_def inspect_file_def
  by (intro proper_intros) simp_all

definition deletion_report :: "exchange_read \<Rightarrow> bool \<Rightarrow> bool \<Rightarrow> event list \<Rightarrow> bool" where
  "deletion_report r consume success es \<longleftrightarrow>
     deletes es = [] \<and> (consume \<longrightarrow> \<not> success) \<or>
     (\<exists>pre f a post. consume \<and> es = pre @ (Exchange_delete f, a) # post \<and> deletes pre = [] \<and>
        deletes post = [] \<and> vouched r f pre \<and> (success \<longrightarrow> outcome a = Status OK))"

lemma consumed_report:
  assumes "consumed h r res t" and "hist u = hist t @ post" "deletes post = []" and "success \<Longrightarrow> res = Val ()"
  shows "\<exists>es. hist u = h @ es \<and> deletion_report r True success es"
  using assms(1) unfolding consumed_def
proof (elim disjE exE conjE)
  fix es assume "hist t = h @ es" "deletes es = []" "res \<noteq> Val ()"
  then show ?thesis using assms(2-4) by (intro exI [of _ "es @ post"]) (auto simp: deletion_report_def)
next
  fix pre f a
  assume "hist t = h @ pre @ [(Exchange_delete f, a)]" "deletes pre = []" "vouched r f pre"
    "res = Val () \<longrightarrow> outcome a = Status OK"
  then show ?thesis
    using assms(2-4) unfolding deletion_report_def
    by (intro exI [of _ "pre @ (Exchange_delete f, a) # post"] conjI disjI2 exI [of _ pre] exI [of _ f] exI [of _ a]
        exI [of _ post]) auto
qed

lemma wp_settle_deletes:
  assumes h: "hist s = h" and slots: "l_reads (cur s) = rs" and j: "j < length rs"
  shows "wp (settle_transaction ops j consume) (\<lambda>st t. \<exists>es. hist t = h @ es \<and>
    deletion_report (rs ! j) consume (st = Val OK) es) s"
proof -
  let ?s = "s\<lparr>cur := retire_read j (cur s)\<rparr>"
  define r where "r = (rs ! j)\<lparr>x_token := 0, x_nonce := replicate 16 0\<rparr>"
  have "noted h (rs[j := r]) {} ?s" using h slots by (simp add: noted_def retire_read_def r_def)
  from wp_consume [OF this, of ops j] have "wp (consume_chain ops j) (consumed h r) ?s" using j by simp
  then have c: "wp (consume_chain ops j) (consumed h (rs ! j)) ?s"
    by (simp add: consumed_def [abs_def] vouched_def r_def)
  have "fst (consume_chain ops j ?s) \<noteq> Err (Status OK)" using proper_consume by (simp add: proper_def)
  with c h have chain: "wp (if consume then consume_chain ops j else ret ()) (\<lambda>res t. res \<noteq> Err (Status OK) \<and>
      (if consume then consumed h (rs ! j) res t else hist t = h)) ?s"
    by (cases consume) (auto simp: wp_def ret_def split: prod.splits)
  show ?thesis
    unfolding settle_transaction_def wp_seq [of "upd _"] wp_upd res.case wp_seq [of "attempt _"] wp_attempt
  proof (rule wp_mono [OF chain], elim conjE)
    fix res and t :: exchange_run
    assume t: "res \<noteq> Err (Status OK)" "if consume then consumed h (rs ! j) res t else hist t = h"
    have status: "settle_status d c res = OK \<Longrightarrow> res = Val ()" for d c
      using t(1) by (cases res rule: settle.cases) (auto simp: settle_status_def split: if_splits)
    have final: "\<exists>es. hist u = h @ es \<and> deletion_report (rs ! j) consume ok es"
      if "quiet_since (hist t) u" and "ok \<Longrightarrow> res = Val ()" for ok and u :: exchange_run
    proof (cases consume)
      case True
      then show ?thesis using that t(2) consumed_report [of h "rs ! j" res t u] by (auto simp: quiet_since_def)
    next
      case False
      then show ?thesis using that(1) t(2) by (auto simp: quiet_since_def deletion_report_def)
    qed
    have "wp (close_settled ops (\<lambda>l. x_pin (held_read j l)) (drop_read_pin j)) (\<lambda>res u. quiet_since (hist t) u) t"
      by (rule wp_pres [OF quiet_close_settled]) (simp add: quiet_since_def)
    moreover have "quiet_since (hist t) u \<Longrightarrow> quiet_since (hist t) (u\<lparr>cur := l\<rparr>)" for u :: exchange_run and l
      by (simp add: quiet_since_def)
    ultimately show "wp (seq (close_settled ops (\<lambda>l. x_pin (held_read j l)) (drop_read_pin j)) (\<lambda>closed.
        seq (gets deleting) (\<lambda>deletion.
        seq (upd (\<lambda>l. if settle_status deletion closed res = COMMIT_UNKNOWN then l\<lparr>l_denied := True\<rparr> else l)) (\<lambda>_.
        ret (settle_status deletion closed res))))) (\<lambda>st t. \<exists>es. hist t = h @ es \<and>
          deletion_report (rs ! j) consume (st = Val OK) es) t"
      by (intro wp_bind_res [where J = "quiet_since (hist t)"]) (auto simp: wp_simps intro!: final dest: status)
  qed
qed

text \<open>The slot of a ticket after its settlement: no serial, no nonce, no pin, no bytes.\<close>

definition spent :: "exchange_read \<Rightarrow> bool" where
  "spent r \<longleftrightarrow> x_token r = 0 \<and> x_nonce r = replicate 16 0 \<and> x_pin r = 0 \<and> x_bytes r = []"

definition reads_are :: "exchange_read list \<Rightarrow> u64 \<Rightarrow> 'x run_scheme \<Rightarrow> bool" where
  "reads_are rs k s \<longleftrightarrow> l_reads (cur s) = rs \<and> l_token (cur s) = k"

lemma stable_reads: "stable (\<lambda>_. True) (reads_are rs k)"
  by (simp add: stable_def reads_are_def)

lemma pres_reads_upd: "(\<And>l. l_reads (f l) = l_reads l \<and> l_token (f l) = l_token l) \<Longrightarrow> pres (reads_are rs k) (upd f)"
  by (rule pres_upd) (simp add: reads_are_def)

lemma pres_reads_check: "pres (reads_are rs k) (check_lease ops)"
  by (rule pres_check_lease) (simp_all add: reads_are_def)

lemma pres_reads_consume: "pres (reads_are rs k) (consume_chain ops j)"
proof -
  have d: "pres (reads_are rs k) (exchange_directory ops)"
    unfolding exchange_directory_def pin_exchange_def pin_directory_def inspect_exchange_def deny_failure_def
    by (intro pres_intros pres_reads_check stable_invoke [OF stable_reads] stable_perform [OF stable_reads] pres_reads_upd)
      (auto split: res.splits intro!: pres_intros pres_reads_upd simp: set_exchange_handle_def set_exchange_identity_def)
  show ?thesis
    unfolding consume_chain_def lock_exchange_def count_exchange_def open_exchange_def inspect_file_def
    by (intro pres_intros d stable_invoke [OF stable_reads] stable_perform [OF stable_reads] pres_modify)
      (simp_all add: reads_are_def)
qed

lemma wp_settle_spends:
  assumes slots: "reads_are rs k s" and j: "j < length rs"
  shows "wp (settle_transaction ops j consume) (\<lambda>st t. spent (l_reads (cur t) ! j) \<and> l_token (cur t) = k) s"
proof -
  let ?s = "s\<lparr>cur := retire_read j (cur s)\<rparr>"
  define r where "r = (rs ! j)\<lparr>x_token := 0, x_nonce := replicate 16 0\<rparr>"
  have "reads_are (rs[j := r]) k ?s" using slots by (simp add: reads_are_def retire_read_def r_def)
  then have chain: "wp (if consume then consume_chain ops j else ret ()) (\<lambda>_ t. reads_are (rs[j := r]) k t) ?s"
    by (intro wp_pres [where I = "reads_are (rs[j := r]) k"] pres_if pres_reads_consume pres_ret)
  have drop: "spent (l_reads (drop_read_pin j l) ! j) \<and> l_token (drop_read_pin j l) = k" if "l_reads l = rs[j := r]" "l_token l = k" for l
    using that j by (simp add: drop_read_pin_def spent_def r_def)
  show ?thesis
    unfolding settle_transaction_def close_settled_def wp_seq [of "upd (retire_read j)"] wp_upd res.case wp_seq [of "attempt _"] wp_attempt
    by (rule wp_mono [OF chain])
      (use drop in \<open>simp add: wp_simps unlock_usable_def reads_are_def quarantine_def Let_def\<close>)
qed

lemma exchange_settle_cases:
  assumes run: "exchange_settle ops version owner ticket consume s = (st, s')"
  obtains (refused) "s' = s" "st \<noteq> OK"
  | (ran) i j x r where "find_owner owner s = Some i"
      "find_index (\<lambda>r. x_token r = serial_of (read_bytes ticket 24 (o_mem s))) (l_reads (owner_at s i)) = Some j"
      "settle_transaction ops j consume (enter_exchange i s) = (x, r)" "s' = leave i r s"
      "st = OK \<longrightarrow> x = Val OK"
proof (cases "find_owner owner s")
  case None
  then show ?thesis using run by (intro refused) (auto simp: exchange_settle_def Let_def split: if_splits)
next
  case (Some i)
  show ?thesis
  proof (cases "find_index (\<lambda>r. x_token r = serial_of (read_bytes ticket 24 (o_mem s))) (l_reads (owner_at s i))")
    case None
    then show ?thesis using run Some by (intro refused) (auto simp: exchange_settle_def Let_def split: if_splits)
  next
    case j: (Some j)
    obtain x r where x: "settle_transaction ops j consume (enter_exchange i s) = (x, r)" by fastforce
    show ?thesis
    proof (cases "s' = s \<and> st \<noteq> OK")
      case True
      then show ?thesis by (auto intro: refused)
    next
      case False
      then show ?thesis
        using run Some j x
        by (intro ran [OF Some j x]) (auto simp: exchange_settle_def Let_def split: if_splits res.splits)
    qed
  qed
qed

section \<open>Reading\<close>

definition seen :: "event \<Rightarrow> 'x run_scheme \<Rightarrow> bool" where
  "seen e s \<longleftrightarrow> e \<in> set (hist s)"

lemma stable_seen: "stable (\<lambda>_. True) (seen e)" "lease_free (seen e)"
  by (simp_all add: stable_def lease_free_def seen_def)

lemma pres_seen_directory: "pres (seen e) (exchange_directory ops)"
  unfolding exchange_directory_def pin_exchange_def pin_directory_def inspect_exchange_def deny_failure_def
  by (intro pres_intros stable_check [OF stable_seen] stable_invoke [OF stable_seen(1)]
      stable_perform [OF stable_seen(1)] lease_free_upd [OF stable_seen(2)])
    (auto split: res.splits intro!: pres_intros lease_free_upd [OF stable_seen(2)])

lemma pres_seen_inspect: "pres (seen e) (inspect_file ops h sid T)"
  unfolding inspect_file_def by (intro pres_intros stable_perform [OF stable_seen(1)]) simp

lemma pres_seen_pin: "pres (seen e) (pin_object ops name sid identity)"
  unfolding pin_object_def open_exchange_def
  by (intro pres_intros pres_seen_inspect stable_invoke [OF stable_seen(1)] pres_modify) (simp_all add: seen_def)

definition delivered :: "u32 \<Rightarrow> u8 list \<Rightarrow> nat \<Rightarrow> u8 list \<Rightarrow> 'x run_scheme \<Rightarrow> bool" where
  "delivered kind oid capacity bytes s \<longleftrightarrow> exchange_header kind oid bytes \<and> length bytes \<le> capacity \<and>
     (\<exists>h a. seen (Exchange_read h (exchange_cap kind), a) s \<and> outcome a = Status OK \<and> a_bytes a = bytes)"

lemma pres_delivered: "(\<And>e. pres (seen e) m) \<Longrightarrow> pres (delivered kind oid capacity bytes) m"
  unfolding pres_def delivered_def by blast

lemma chain_delivers:
  "wp (exchange_chain ops kind oid input capacity False ticketed)
     (\<lambda>r t. \<forall>x. r = Val x \<longrightarrow> delivered kind oid capacity (t_bytes x) t) s"
proof -
  let ?J = "delivered kind oid capacity"
  have transfer: "wp (transfer ops kind oid input capacity False h) (\<lambda>r t. case r of Val b \<Rightarrow> ?J b t | Err e \<Rightarrow> True) t" for h t
    by (auto simp: transfer_def wp_simps Let_def delivered_def seen_def)
  show ?thesis
    unfolding exchange_chain_def
    apply (rule wp_later [rotated], simp, rule wp_later [rotated], simp, rule wp_later [rotated], simp,
        rule wp_later [rotated], simp, rule wp_later [rotated], simp, rule wp_later [rotated], simp,
        rule wp_later [rotated], simp)
    apply (rule wp_val_err [OF transfer])
     apply (rule wp_seq_pres [OF pres_delivered [OF pres_seen_inspect]], assumption, simp)
     apply (rule wp_seq_pres [OF pres_delivered [OF pres_seen_directory]], assumption, simp)
     apply (rule wp_seq_pres [OF pres_delivered], intro pres_if pres_seen_pin pres_ret, assumption, simp)
     apply (rule wp_seq_pres [OF pres_delivered], intro pres_intros pres_seen_directory, assumption, simp)
     apply (simp add: wp_ret)
    apply simp
    done
qed

lemma pres_seen_close: "pres (seen e) (close_exchange ops)" "pres (seen e) (drop_pin ops)"
  unfolding close_exchange_def drop_pin_def unlock_usable_def
  by (intro pres_intros stable_close [OF stable_seen(1)] stable_invoke [OF stable_seen(1)] lease_free_upd [OF stable_seen(2)]; simp)+

lemma transaction_delivers:
  "wp (exchange_transaction ops kind oid input capacity False False slot)
     (\<lambda>r t. \<forall>d. r = Val d \<longrightarrow> (\<exists>bytes. d = Plain bytes \<and> delivered kind oid capacity bytes t)) s"
  unfolding exchange_transaction_def wp_seq [of "attempt _"] wp_attempt res.case
proof (rule wp_mono [OF chain_delivers])
  fix r :: "exchanged res" and t :: exchange_run
  assume r: "\<forall>x. r = Val x \<longrightarrow> delivered kind oid capacity (t_bytes x) t"
  let ?Q = "\<lambda>r t. \<forall>d. r = Val d \<longrightarrow> (\<exists>bytes. d = Plain bytes \<and> delivered kind oid capacity bytes t)"
  have plain: "wp (seq (drop_pin ops) (\<lambda>ok. if ok then ret (Plain b) else err (Status UNAVAILABLE))) ?Q u"
    if "delivered kind oid capacity b u" for b u
    by (rule wp_seq_pres [OF pres_delivered [OF pres_seen_close(2)] that]) (auto simp: wp_if wp_err wp_ret)
  have failed: "wp (seq (drop_pin ops) (\<lambda>ok. err (e ok))) ?Q u" for e u
    by (rule wp_later) (simp_all add: wp_err)
  show "wp (exchange_finish ops kind oid False False slot r) ?Q t"
  proof (cases r)
    case (Val x)
    then have "delivered kind oid capacity (t_bytes x) t" using r by simp
    then show ?thesis
      unfolding exchange_finish_def
      by (rule wp_seq_pres [OF pres_delivered [OF pres_seen_close(1)]]) (simp_all add: Val plain failed)
  next
    case (Err e)
    then show ?thesis
      unfolding exchange_finish_def by (intro wp_later) (simp_all add: failed)
  qed
qed

lemma proper_chain: "proper (exchange_chain ops kind oid input capacity create ticketed)"
  unfolding exchange_chain_def exchange_nonce_def lock_exchange_def count_exchange_def open_exchange_def inspect_file_def
    transfer_def pin_object_def
  by (intro proper_intros) simp_all

lemma proper_drop_pin [proper_intros]: "proper (drop_pin ops)"
  unfolding drop_pin_def by (intro proper_intros)

lemma proper_close_exchange: "proper (close_exchange ops)"
  unfolding close_exchange_def unlock_usable_def by (intro proper_intros)

lemma proper_transaction: "proper (exchange_transaction ops kind oid input capacity create ticketed slot)"
  unfolding exchange_transaction_def
proof (rule proper_attempt [OF proper_chain])
  fix r :: "exchanged res" assume r: "r \<noteq> Err (Status OK)"
  have "proper (seq (drop_pin ops) (\<lambda>ok. err (if ok then e else Status UNAVAILABLE)))" if "e \<noteq> Status OK" for e
    using that by (intro proper_seq proper_drop_pin proper_err) auto
  moreover have "proper (seq (drop_pin ops) (\<lambda>ok. if ok then ret x else err (Status UNAVAILABLE)))" for x
    by (intro proper_seq proper_drop_pin proper_if proper_ret proper_err) simp
  ultimately show "proper (exchange_finish ops kind oid create ticketed slot r)"
    using r unfolding exchange_finish_def new_ticket_def
    by (intro proper_seq proper_close_exchange) (cases r, auto intro!: proper_intros proper_err split: if_splits)
qed

lemma exchange_read_outcome:
  assumes run: "exchange_operation ops owner kind oid [] capacity False False s = (st, d, s')"
  shows "o_mem s' = o_mem s \<and> (if st = OK then \<exists>bytes h a. d = Plain bytes \<and> exchange_header kind oid bytes \<and>
      length bytes \<le> capacity \<and> (Exchange_read h (exchange_cap kind), a) \<in> set (o_hist s') \<and>
      outcome a = Status OK \<and> a_bytes a = bytes
    else d = Nothing)"
proof (cases "find_owner owner s")
  case None
  then show ?thesis using run by (auto simp: exchange_operation_def)
next
  case (Some i)
  obtain x r where x: "exchange_transaction ops kind oid [] capacity False False 0 (enter_exchange i s) = (x, r)" by fastforce
  have "x \<noteq> Err (Status OK)" using proper_transaction x by (metis fst_conv proper_def)
  moreover have "\<exists>bytes. d = Plain bytes \<and> delivered kind oid capacity bytes r" if "x = Val d" for d
    using wp_run [OF transaction_delivers x] that by simp
  ultimately show ?thesis
    using run Some x
    by (cases x rule: settle.cases)
      (auto simp: exchange_operation_def exchange_slot_def leave_def delivered_def seen_def split: if_splits, blast)
qed

section \<open>Properties\<close>

text \<open>
  Claim C14. Settling a read ticket deletes at most one object, and only to consume it: through
  a handle freshly opened under the recorded name whose bytes equal the ones handed out and
  which, like the pinned object, still has the recorded identity.  Consumption is reported as
  successful only when that deletion was made and confirmed; a release deletes nothing.
\<close>

theorem consume_deletes_what_was_read:
  "case exchange_settle ops version owner ticket consume s of (st, s') \<Rightarrow>
     s' = s \<and> st \<noteq> OK \<or>
     (\<exists>i j es. find_owner owner s = Some i \<and> find_index (\<lambda>r. x_token r = serial_of (read_bytes ticket 24 (o_mem s)))
          (l_reads (owner_at s i)) = Some j \<and>
        o_hist s' = o_hist s @ es \<and> deletion_report (l_reads (owner_at s i) ! j) consume (st = OK) es)"
proof (cases "exchange_settle ops version owner ticket consume s")
  case (Pair st s')
  then show ?thesis
  proof (cases rule: exchange_settle_cases)
    case (ran i j x r)
    have "hist (enter_exchange i s) = o_hist s" "l_reads (cur (enter_exchange i s)) = l_reads (owner_at s i)"
      by (simp_all add: enter_exchange_def)
    from wp_run [OF wp_settle_deletes [OF this] ran(3)] find_index_Some [OF ran(2)]
    obtain es where "hist r = o_hist s @ es" "deletion_report (l_reads (owner_at s i) ! j) consume (x = Val OK) es" by blast
    then have "o_hist s' = o_hist s @ es" "deletion_report (l_reads (owner_at s i) ! j) consume (st = OK) es"
      using ran(4,5) by (auto simp: leave_def deletion_report_def)
    then show ?thesis unfolding Pair prod.case using ran(1,2) by blast
  qed (simp add: Pair)
qed

text \<open>
  Claim C15. Settlement retires its ticket before anything can fail: whatever the operating
  system answers, the slot it used holds no serial, nonce, pin or bytes afterwards.
\<close>

theorem settle_retires_ticket:
  "case exchange_settle ops version owner ticket consume s of (st, s') \<Rightarrow>
     s' = s \<and> st \<noteq> OK \<or>
     (\<exists>i j. find_owner owner s = Some i \<and> find_owner owner s' = Some i \<and>
        find_index (\<lambda>r. x_token r = serial_of (read_bytes ticket 24 (o_mem s))) (l_reads (owner_at s i)) = Some j \<and>
        spent (l_reads (owner_at s' i) ! j))"
proof (cases "exchange_settle ops version owner ticket consume s")
  case (Pair st s')
  then show ?thesis
  proof (cases rule: exchange_settle_cases)
    case (ran i j x r)
    note own = find_owner_Some [OF ran(1)]
    have "reads_are (l_reads (owner_at s i)) owner (enter_exchange i s)"
      using own by (simp add: reads_are_def enter_exchange_def)
    from wp_run [OF wp_settle_spends [OF this] ran(3)] find_index_Some [OF ran(2)]
    have "spent (l_reads (cur r) ! j)" "token_is owner r" by (auto simp: token_is_def)
    then have "spent (l_reads (owner_at s' i) ! j)" "find_owner owner s' = Some i"
      unfolding ran(4) using find_owner_leave [OF ran(1)] own by (simp_all add: owner_at_leave)
    then show ?thesis unfolding Pair prod.case using ran(1,2) by blast
  qed (simp add: Pair)
qed

text \<open>
  Claim C16. A read is all or nothing: on success the caller's buffer holds bytes the operating
  system returned for one exchange object, with the fixed header of the requested kind and
  identifier, and their count; otherwise the buffer and the count are zero.
\<close>

theorem exchange_read_all_or_nothing:
  assumes "read_outputs oid output capacity written"
  shows "case exchange_read_op ops ABI_VERSION owner kind oid output capacity written s of (st, s') \<Rightarrow>
    if st = OK
    then \<exists>h a. (Exchange_read h (exchange_cap kind), a) \<in> set (o_hist s') \<and> outcome a = Status OK \<and>
      exchange_header kind (read_bytes oid 16 (o_mem s)) (a_bytes a) \<and>
      load64 written (o_mem s') = of_nat (length (a_bytes a)) \<and>
      read_bytes output (of_nat (length (a_bytes a))) (o_mem s') = a_bytes a
    else load64 written (o_mem s') = 0 \<and> read_bytes output capacity (o_mem s') = replicate (unat capacity) 0"
proof -
  let ?s1 = "o_write (\<lambda>m. store64 written 0 (zero_mem output capacity m)) s"
  note ok = assms [unfolded read_outputs_def valid_count_def]
  have name: "read_bytes oid 16 (o_mem ?s1) = read_bytes oid 16 (o_mem s)"
    using ok by (simp add: o_write_def mem_simps)
  have cleared: "load64 written (o_mem ?s1) = 0" "read_bytes output capacity (o_mem ?s1) = replicate (unat capacity) 0"
    using ok by (simp_all add: o_write_def load64_def mem_simps)
  show ?thesis
  proof (cases "exchange_cap kind = 0 \<or> unat capacity \<noteq> exchange_cap kind")
    case True
    then show ?thesis using assms cleared by (auto simp: exchange_read_op_def Let_def)
  next
    case False
    obtain st d s2 where run: "exchange_operation ops owner kind (read_bytes oid 16 (o_mem s)) [] (unat capacity) False False ?s1 = (st, d, s2)"
      using prod_cases3 by blast
    note out = exchange_read_outcome [OF run]
    show ?thesis
    proof (cases "st = OK")
      case True
      then obtain h a where a: "d = Plain (a_bytes a)" "exchange_header kind (read_bytes oid 16 (o_mem s)) (a_bytes a)"
          "length (a_bytes a) \<le> unat capacity" "(Exchange_read h (exchange_cap kind), a) \<in> set (o_hist s2)" "outcome a = Status OK"
        using out by auto
      let ?n = "of_nat (length (a_bytes a)) :: u64"
      have len: "unat ?n = length (a_bytes a)" "0 < length (a_bytes a)"
        using a(2,3) by (auto simp: exchange_header_def unat_of_nat exchange_cap_def split: if_splits)
      have sub: "span output ?n" "\<not> overlaps output ?n written 8"
        using ok len a(3) span_shorter [of "output" capacity "?n"] overlaps_shorter [of "output" capacity written 8 "?n"] by auto
      have res: "exchange_read_op ops ABI_VERSION owner kind oid output capacity written s =
          (OK, o_write (\<lambda>m. store64 written ?n (write_bytes output (a_bytes a) m)) s2)"
        using assms False run a(1) name True by (simp add: exchange_read_op_def Let_def)
      have "load64 written (store64 written ?n m) = ?n"
          "read_bytes output ?n (store64 written ?n (write_bytes output (a_bytes a) m)) = a_bytes a" for m
        using ok sub len by (simp_all add: load_store64 read_store_other read_write_bytes)
      then show ?thesis
        unfolding res prod.case if_P [OF refl] using a by (intro exI [of _ h] exI [of _ a]) (simp add: o_write_def)
    next
      case f: False
      then show ?thesis
        using assms False run out cleared name by (auto simp: exchange_read_op_def Let_def)
    qed
  qed
qed

definition sample_reader :: objects where
  "sample_reader = sample_objects (sample_lease\<lparr>l_exchange := sample_pin\<rparr>)"

theorem exchange_read_all_or_nothing_witness:
  "case exchange_read_op sample_ops ABI_VERSION 1 2 64 4096 4096 128 sample_reader of (st, s') \<Rightarrow>
    if st = OK
    then \<exists>h a. (Exchange_read h (exchange_cap 2), a) \<in> set (o_hist s') \<and> outcome a = Status OK \<and>
      exchange_header 2 (read_bytes 64 16 (o_mem sample_reader)) (a_bytes a) \<and>
      load64 128 (o_mem s') = of_nat (length (a_bytes a)) \<and>
      read_bytes 4096 (of_nat (length (a_bytes a))) (o_mem s') = a_bytes a
    else load64 128 (o_mem s') = 0 \<and> read_bytes 4096 4096 (o_mem s') = replicate (unat (4096 :: u64)) 0"
proof -
  have "read_outputs 64 4096 4096 128" by code_simp
  from exchange_read_all_or_nothing [OF this, where ops = sample_ops and owner = 1 and kind = 2 and s = sample_reader] show ?thesis .
qed

lemma sample_read_succeeds: "fst (exchange_read_op sample_ops ABI_VERSION 1 2 64 4096 4096 128 sample_reader) = OK"
  by code_simp

end
