(* ===== verification/Discovery_Store.thy ===== *)
theory Discovery_Store
  imports Exchange_Store
begin

text \<open>
  \<open>discovery_files.cpp\<close>: the fixed discovery objects that the application publishes and the
  Bridge reads.  An object is compared with what is already there, written to a temporary and
  renamed into place; only the endpoint is ever replaced.
\<close>

section \<open>The directory\<close>

definition set_discovery_handle :: "handle \<Rightarrow> lease \<Rightarrow> lease" where
  "set_discovery_handle h l = l\<lparr>l_discovery := (l_discovery l)\<lparr>pin_handle := h\<rparr>\<rparr>"

definition set_discovery_identity :: "object_info \<Rightarrow> lease \<Rightarrow> lease" where
  "set_discovery_identity i l = l\<lparr>l_discovery := (l_discovery l)\<lparr>pin_identity := i\<rparr>\<rparr>"

definition discovery_handle :: "lease \<Rightarrow> handle" where
  "discovery_handle l = pin_handle (l_discovery l)"

definition pin_discovery :: "object_ops \<Rightarrow> sid \<Rightarrow> ('x run_scheme, unit) prog" where
  "pin_discovery ops sid =
     pin_directory ops ''discovery'' discovery_handle set_discovery_handle set_discovery_identity sid"

definition discovery_current :: "sid \<Rightarrow> object_info \<Rightarrow> lease \<Rightarrow> bool" where
  "discovery_current sid current l \<longleftrightarrow>
     object_valid current sid True True True \<and> same_object current (pin_identity (l_discovery l)) \<and>
     volume current = volume (pin_identity (l_pins l ! 2)) \<and>
     (l_role l = ROLE_APP \<longrightarrow> same_object current (pin_identity (l_pins l ! 7)))"

definition inspect_discovery :: "object_ops \<Rightarrow> sid \<Rightarrow> ('x run_scheme, unit) prog" where
  "inspect_discovery ops sid =
     seq (lease_get (\<lambda>l. pin_handle (l_discovery l))) (\<lambda>h.
     seq (perform ops (Inspect h)) (\<lambda>a.
     seq (lease_get (discovery_current sid (a_info a))) (\<lambda>current. require current UNAVAILABLE)))"

definition discovery_directory :: "object_ops \<Rightarrow> ('x run_scheme, sid) prog" where
  "discovery_directory ops =
     seq (check_lease ops) (\<lambda>sid.
     seq (attempt (seq (pin_discovery ops sid) (\<lambda>_. inspect_discovery ops sid))) (\<lambda>r.
     seq (deny_failure r) (\<lambda>_. ret sid)))"

section \<open>The frame of an operation\<close>

record discovery_run = run +
  d_file :: handle
  d_temporary :: handle
  d_observed :: handle
  renaming_entered :: bool

definition enter_discovery :: "nat \<Rightarrow> objects \<Rightarrow> discovery_run" where
  "enter_discovery i s = \<lparr>cur = owner_at s i, hist = o_hist s, next_ticket = o_next_ticket s,
     d_file = 0, d_temporary = 0, d_observed = 0, renaming_entered = False\<rparr>"

text \<open>The \<open>close\<close> of the operation: once, the local is null afterwards, and a failure quarantines.\<close>

definition close_local ::
  "object_ops \<Rightarrow> (discovery_run \<Rightarrow> handle) \<Rightarrow> (discovery_run \<Rightarrow> discovery_run) \<Rightarrow> (discovery_run, bool) prog" where
  "close_local ops get clear =
     seq (gets get) (\<lambda>h.
     if usable h
     then seq (invoke ops (Close h)) (\<lambda>a.
          seq (modify clear) (\<lambda>_.
          if a_flag a then ret True else seq (upd quarantine) (\<lambda>_. ret False)))
     else ret True)"

definition close_local_file :: "object_ops \<Rightarrow> (discovery_run, bool) prog" where
  "close_local_file ops = close_local ops d_file (\<lambda>s. s\<lparr>d_file := 0\<rparr>)"

definition close_local_temporary :: "object_ops \<Rightarrow> (discovery_run, bool) prog" where
  "close_local_temporary ops = close_local ops d_temporary (\<lambda>s. s\<lparr>d_temporary := 0\<rparr>)"

definition close_local_observed :: "object_ops \<Rightarrow> (discovery_run, bool) prog" where
  "close_local_observed ops = close_local ops d_observed (\<lambda>s. s\<lparr>d_observed := 0\<rparr>)"

text \<open>A step whose failing status is kept in a variable, while exceptions leave the block.\<close>

definition caught :: "('s, 'a) prog \<Rightarrow> ('s, 'a res) prog" where
  "caught m = seq (attempt m) (\<lambda>r.
     case r of Val x \<Rightarrow> ret (Val x) | Err e \<Rightarrow> if is_exception e then err e else ret (Err e))"

definition open_discovery ::
  "object_ops \<Rightarrow> u32 \<Rightarrow> (handle \<Rightarrow> discovery_run \<Rightarrow> discovery_run) \<Rightarrow> (discovery_run, answer) prog" where
  "open_discovery ops kind keep =
     seq (lease_get discovery_handle) (\<lambda>h.
     seq (invoke ops (Discovery_open h kind)) (\<lambda>a.
     seq (modify (keep (a_handle a))) (\<lambda>_. ret a)))"

definition keep_file :: "handle \<Rightarrow> discovery_run \<Rightarrow> discovery_run" where
  "keep_file h s = s\<lparr>d_file := h\<rparr>"

definition keep_observed :: "handle \<Rightarrow> discovery_run \<Rightarrow> discovery_run" where
  "keep_observed h s = s\<lparr>d_observed := h\<rparr>"

definition keep_temporary :: "handle \<Rightarrow> discovery_run \<Rightarrow> discovery_run" where
  "keep_temporary h s = s\<lparr>d_temporary := h\<rparr>"

definition inspect_local :: "object_ops \<Rightarrow> handle \<Rightarrow> sid \<Rightarrow> (discovery_run, object_info) prog" where
  "inspect_local ops h sid =
     seq (require (usable h) UNAVAILABLE) (\<lambda>_.
     seq (perform ops (Inspect h)) (\<lambda>a.
     seq (lease_get (\<lambda>l. volume (pin_identity (l_discovery l)))) (\<lambda>v.
     seq (require (object_valid (a_info a) sid False True True \<and> volume (a_info a) = v) UNAVAILABLE) (\<lambda>_.
     ret (a_info a)))))"

section \<open>The published object\<close>

definition find_object :: "object_ops \<Rightarrow> u32 \<Rightarrow> (discovery_run, sid) prog" where
  "find_object ops kind =
     seq (discovery_directory ops) (\<lambda>sid.
     seq (open_discovery ops kind keep_file) (\<lambda>a.
     seq (expect a) (\<lambda>_. ret sid)))"

text \<open>
  The object that was found: inspected, read, inspected again, compared with the bytes to be
  published unless it is the endpoint, and opened a second time under its name.
\<close>

definition examine :: "object_ops \<Rightarrow> u32 \<Rightarrow> u8 list \<Rightarrow> bool \<Rightarrow> sid \<Rightarrow> (discovery_run, object_info \<times> u8 list) prog" where
  "examine ops kind input publishing sid =
     seq (gets d_file) (\<lambda>file.
     seq (inspect_local ops file sid) (\<lambda>identity.
     seq (perform ops (Exchange_read file (discovery_cap kind))) (\<lambda>b.
     seq (require (a_bytes b \<noteq> [] \<and> length (a_bytes b) \<le> discovery_cap kind) DATA_CORRUPT) (\<lambda>_.
     seq (inspect_local ops file sid) (\<lambda>after.
     seq (require (same_object identity after) UNAVAILABLE) (\<lambda>_.
     seq (require (\<not> (publishing \<and> kind \<noteq> 1 \<and> a_bytes b \<noteq> input)) DATA_CORRUPT) (\<lambda>_.
     seq (open_discovery ops kind keep_observed) (\<lambda>c.
     seq (expect c) (\<lambda>_.
     seq (inspect_local ops (a_handle c) sid) (\<lambda>again.
     seq (require (same_object identity again) UNAVAILABLE) (\<lambda>_.
     ret (identity, a_bytes b))))))))))))"

section \<open>Publication\<close>

text \<open>The name must still be missing, or still be the object that is to be replaced.\<close>

definition recheck_name :: "object_ops \<Rightarrow> u32 \<Rightarrow> bool \<Rightarrow> object_info \<Rightarrow> sid \<Rightarrow> (discovery_run, unit) prog" where
  "recheck_name ops kind create identity sid =
     seq (open_discovery ops kind keep_observed) (\<lambda>a.
     if create
     then seq (if is_exception (outcome a) then err (outcome a) else ret ()) (\<lambda>_.
          require (outcome a = Status MISSING \<and> a_handle a = 0) UNAVAILABLE)
     else seq (expect a) (\<lambda>_.
          seq (inspect_local ops (a_handle a) sid) (\<lambda>after.
          require (same_object identity after) UNAVAILABLE)))"

definition stage_object :: "object_ops \<Rightarrow> u32 \<Rightarrow> u8 list \<Rightarrow> bool \<Rightarrow> object_info \<Rightarrow> (discovery_run, object_info \<times> sid) prog" where
  "stage_object ops kind input create identity =
     seq (discovery_directory ops) (\<lambda>sid.
     seq (lease_get discovery_handle) (\<lambda>directory.
     seq (perform ops (Temporary_count directory)) (\<lambda>n.
     seq (require (a_count n < 32) RESOURCE_LIMIT) (\<lambda>_.
     seq (perform ops Random_name) (\<lambda>b.
     seq (require (hex_name (a_runtime b) 16 \<and> hex_name (a_random b) 8) UNAVAILABLE) (\<lambda>_.
     seq (upd (\<lambda>l. if l_runtime_id l = [] then l\<lparr>l_runtime_id := a_runtime b\<rparr> else l)) (\<lambda>_.
     seq (lease_get (\<lambda>l. temporary_name (l_runtime_id l) (a_random b))) (\<lambda>name.
     seq (invoke ops (Temporary_create directory name sid)) (\<lambda>c.
     seq (modify (keep_temporary (a_handle c))) (\<lambda>_.
     seq (expect c) (\<lambda>_.
     seq (inspect_local ops (a_handle c) sid) (\<lambda>temp.
     seq (perform ops (Write_file (a_handle c) input)) (\<lambda>_.
     seq (perform ops (Flush_file (a_handle c))) (\<lambda>_.
     seq (inspect_local ops (a_handle c) sid) (\<lambda>after.
     seq (require (same_object temp after) UNAVAILABLE) (\<lambda>_.
     seq (discovery_directory ops) (\<lambda>sid.
     seq (recheck_name ops kind create identity sid) (\<lambda>_. ret (temp, sid)))))))))))))))))))"

definition rename_object :: "object_ops \<Rightarrow> u32 \<Rightarrow> bool \<Rightarrow> object_info \<times> sid \<Rightarrow> (discovery_run, object_info \<times> sid) prog" where
  "rename_object ops kind replace staged =
     seq (modify (\<lambda>s. s\<lparr>renaming_entered := True\<rparr>)) (\<lambda>_.
     seq (lease_get discovery_handle) (\<lambda>directory.
     seq (gets d_temporary) (\<lambda>temporary.
     seq (perform ops (Discovery_replace temporary directory kind replace)) (\<lambda>_. ret staged))))"

text \<open>Once renamed, the name is opened again and must be the temporary's object.\<close>

definition confirm_object :: "object_ops \<Rightarrow> u32 \<Rightarrow> object_info \<Rightarrow> sid \<Rightarrow> (discovery_run, unit) prog" where
  "confirm_object ops kind temp sid =
     seq (open_discovery ops kind keep_file) (\<lambda>a.
     seq (expect a) (\<lambda>_.
     seq (inspect_local ops (a_handle a) sid) (\<lambda>after.
     require (same_object temp after) UNAVAILABLE)))"

definition publish_object :: "object_ops \<Rightarrow> u32 \<Rightarrow> u8 list \<Rightarrow> bool \<Rightarrow> object_info \<Rightarrow> (discovery_run, unit) prog" where
  "publish_object ops kind input create identity =
     seq (caught (stage_object ops kind input create identity)) (\<lambda>staged.
     seq (close_local_observed ops) (\<lambda>ok1.
     seq (if ok1 then close_local_file ops else ret False) (\<lambda>ok2.
     seq (caught (seq (resume (if ok2 then staged else Err (Status UNAVAILABLE)))
            (rename_object ops kind (\<not> create)))) (\<lambda>moved.
     seq (close_local_temporary ops) (\<lambda>ok3.
     seq (resume (if ok3 then moved else Err (Status UNAVAILABLE))) (\<lambda>(temp, sid).
     confirm_object ops kind temp sid))))))"

section \<open>The operation\<close>

text \<open>
  A missing name is what the first open reported, unless it also handed out a handle.  The
  second handle is closed before anything is decided on what was found.
\<close>

definition discovery_chain :: "object_ops \<Rightarrow> u32 \<Rightarrow> u8 list \<Rightarrow> bool \<Rightarrow> (discovery_run, u8 list) prog" where
  "discovery_chain ops kind input publishing =
     seq (caught (find_object ops kind)) (\<lambda>found.
     seq (gets d_file) (\<lambda>file.
     let missing = (found = Err (Status MISSING));
         found' = (if missing \<and> file \<noteq> 0 then Err (Status UNAVAILABLE) else found) in
     seq (caught (seq (resume found') (examine ops kind input publishing))) (\<lambda>seen.
     seq (close_local_observed ops) (\<lambda>ok.
     let seen' = (if ok then seen else Err (Status UNAVAILABLE));
         create = (publishing \<and> missing \<and> seen' = Err (Status MISSING)) in
     seq (if create then seq (publish_object ops kind input True empty_info) (\<lambda>_. ret [])
          else seq (resume seen') (\<lambda>(identity, bytes).
               if publishing \<and> kind = 1
               then seq (publish_object ops kind input False identity) (\<lambda>_. ret bytes)
               else ret bytes)) (\<lambda>bytes.
     seq (discovery_directory ops) (\<lambda>_. ret bytes))))))"

text \<open>The last closes, and the outcome once a rename has been entered.\<close>

definition discovery_finish :: "object_ops \<Rightarrow> u8 list res \<Rightarrow> (discovery_run, u8 list) prog" where
  "discovery_finish ops r =
     seq (close_local_observed ops) (\<lambda>ok1.
     seq (close_local_file ops) (\<lambda>ok2.
     seq (close_local_temporary ops) (\<lambda>ok3.
     seq (gets renaming_entered) (\<lambda>entered.
     let r' = (if ok1 \<and> ok2 \<and> ok3 then r else Err (Status UNAVAILABLE)) in
     case r' of
       Val bytes \<Rightarrow> ret bytes
     | Err e \<Rightarrow> if entered then seq (upd (\<lambda>l. l\<lparr>l_denied := True\<rparr>)) (\<lambda>_. err (Status COMMIT_UNKNOWN))
         else err e))))"

definition discovery_transaction :: "object_ops \<Rightarrow> u32 \<Rightarrow> u8 list \<Rightarrow> bool \<Rightarrow> (discovery_run, u8 list) prog" where
  "discovery_transaction ops kind input publishing =
     seq (attempt (discovery_chain ops kind input publishing)) (discovery_finish ops)"

definition discovery_operation ::
  "object_ops \<Rightarrow> u64 \<Rightarrow> u32 \<Rightarrow> u8 list \<Rightarrow> bool \<Rightarrow> objects \<Rightarrow> status \<times> u8 list \<times> objects" where
  "discovery_operation ops owner kind input publishing s =
     (case find_owner owner s of
        None \<Rightarrow> (INVALID_INPUT, [], s)
      | Some i \<Rightarrow>
          if publishing \<and> l_role (owner_at s i) \<noteq> ROLE_APP then (INVALID_INPUT, [], s)
          else if l_ticket (owner_at s i) \<noteq> 0 then (RESOURCE_LIMIT, [], s)
          else case discovery_transaction ops kind input publishing (enter_discovery i s) of
              (Val bytes, r) \<Rightarrow> (OK, bytes, leave i r s)
            | (Err e, r) \<Rightarrow> (settle (Err e :: unit res), [], leave i r s))"

definition discovery_publish ::
  "object_ops \<Rightarrow> u32 \<Rightarrow> u64 \<Rightarrow> u32 \<Rightarrow> ptr \<Rightarrow> u64 \<Rightarrow> objects \<Rightarrow> status \<times> objects" where
  "discovery_publish ops version owner kind input len s =
     (if version \<noteq> ABI_VERSION then (ABI_MISMATCH, s)
      else if discovery_cap kind = 0 \<or> \<not> span input len \<or> unat len > discovery_cap kind \<or>
              kind \<noteq> 2 \<and> unat len \<noteq> discovery_cap kind
      then (INVALID_INPUT, s)
      else case discovery_operation ops owner kind (read_bytes input len (o_mem s)) True s of
          (st, _, s') \<Rightarrow> (st, s'))"

definition discovery_read ::
  "object_ops \<Rightarrow> u32 \<Rightarrow> u64 \<Rightarrow> u32 \<Rightarrow> ptr \<Rightarrow> u64 \<Rightarrow> ptr \<Rightarrow> objects \<Rightarrow> status \<times> objects" where
  "discovery_read ops version owner kind output capacity written s =
     (if \<not> (span output capacity \<and> span written 8 \<and> aligned8 written) \<or> overlaps output capacity written 8
      then (INVALID_INPUT, s)
      else let s1 = o_write (\<lambda>m. store64 written 0 (zero_mem output capacity m)) s in
        if version \<noteq> ABI_VERSION then (ABI_MISMATCH, s1)
        else if discovery_cap kind = 0 \<or> unat capacity \<noteq> discovery_cap kind then (INVALID_INPUT, s1)
        else case discovery_operation ops owner kind [] False s1 of
            (st, bytes, s2) \<Rightarrow>
              (st, if st = OK
                   then o_write (\<lambda>m. store64 written (of_nat (length bytes)) (write_bytes output bytes m)) s2
                   else s2))"

end
