(* ===== verification/Discovery_Custody.thy ===== *)
theory Discovery_Custody
  imports Discovery_Store Exchange_Custody
begin

text \<open>
  Custody through the discovery operations: the two handles on the published object and the
  temporary belong to the operation's frame until its closes, on every path through it.
\<close>

section \<open>The frame\<close>

definition d_share :: "handle multiset \<Rightarrow> discovery_run \<Rightarrow> handle multiset" where
  "d_share R s = R + hm (d_file s) + hm (d_temporary s) + hm (d_observed s)"

interpretation discovering: frame "d_share R" for R
  by unfold_locales (simp_all add: d_share_def)

interpretation discovery_field: directory_field discovery_handle set_discovery_handle set_discovery_identity
  by unfold_locales (simp_all add: retained_def loose_handles_def pin_handles_def set_discovery_handle_def
      set_discovery_identity_def discovery_handle_def lease_wf_def union_ac)

text \<open>The locals that hold nothing to close: the file, the temporary, the observed handle.\<close>

definition dhold :: "handle multiset \<Rightarrow> (lease \<Rightarrow> bool) \<Rightarrow> event list \<times> u64 \<Rightarrow> bool \<Rightarrow> bool \<Rightarrow> bool \<Rightarrow> discovery_run \<Rightarrow> bool" where
  "dhold R P b f t v s \<longleftrightarrow> kept (d_share R) P b s \<and> (f \<longrightarrow> hm (d_file s) = {#}) \<and>
     (t \<longrightarrow> hm (d_temporary s) = {#}) \<and> (v \<longrightarrow> hm (d_observed s) = {#})"

lemma dhold_any: "dhold R P b f t v s \<Longrightarrow> dhold R P b False False False s"
  by (simp add: dhold_def)

lemma local_handles:
  "frame_is (run.more s) t \<Longrightarrow> d_file t = d_file s \<and> d_temporary t = d_temporary s \<and> d_observed t = d_observed s"
  for s t :: discovery_run
  by (cases s; cases t) (simp add: frame_is_def)

lemma pres_dhold:
  assumes "pres (kept (d_share R) P b) m" and "\<And>x. pres (frame_is x) m"
  shows "pres (dhold R P b f t v) m"
proof (rule pres_wp)
  fix s assume s: "dhold R P b f t v s"
  have "wp m (\<lambda>r u. kept (d_share R) P b u \<and> frame_is (run.more s) u) s"
    unfolding wp_conj using wp_pres [OF assms(1), of s] wp_pres [OF assms(2), of "run.more s" s] s
    by (simp add: dhold_def frame_is_def)
  then show "wp m (\<lambda>r u. dhold R P b f t v u) s"
    by (rule wp_mono) (use s in \<open>auto simp: dhold_def dest: local_handles\<close>)
qed

text \<open>The lease predicate of the operations: everything but the directory and the runtime name.\<close>

lemma quiet_discovery: "discovery_field.free (quiet_slots l0)"
  by (simp add: discovery_field.free_def quiet_slots_def mine_def set_discovery_handle_def set_discovery_identity_def)

lemma pres_frame_discovery: "pres (frame_is x) (discovery_directory ops)"
  unfolding discovery_directory_def pin_discovery_def inspect_discovery_def deny_failure_def
  by (intro pres_intros stable_check [OF stable_frame_is] pres_frame_pin
      stable_perform [OF stable_frame_is(1)] lease_free_upd [OF stable_frame_is(2)])
    (auto split: res.splits intro!: pres_intros lease_free_upd [OF stable_frame_is(2)])

lemma dhold_directory: "pres (dhold R (quiet_slots l0) b f t v) (discovery_directory ops)"
proof (rule pres_dhold)
  show "pres (kept (d_share R) (quiet_slots l0) b) (discovery_directory ops)"
    unfolding discovery_directory_def inspect_discovery_def pin_discovery_def
    by (intro pres_intros discovering.pres_kept_check discovery_field.pres_kept_pin discovering.pres_kept_perform
        discovering.pres_kept_deny discovering.frame_axioms quiet_discovery) simp_all
qed (rule pres_frame_discovery)

lemma dhold_quiet: "\<not> opener c \<Longrightarrow> closes c = None \<Longrightarrow> pres (dhold R P b f t v) (perform ops c)"
  by (rule pres_dhold) (auto intro: discovering.pres_kept_perform stable_perform [OF stable_frame_is(1)])

lemma dhold_inspect: "pres (dhold R P b f t v) (inspect_local ops h sid)"
  unfolding inspect_local_def by (intro pres_intros dhold_quiet) simp_all

lemma dhold_entered: "pres (dhold R P b f t v) (modify (\<lambda>s. s\<lparr>renaming_entered := True\<rparr>))"
  by (rule pres_modify) (simp add: dhold_def kept_def custody_def d_share_def)

lemma pres_caught: "pres I m \<Longrightarrow> pres I (caught m)"
  unfolding caught_def by (intro pres_intros) (auto intro!: pres_intros split: res.splits)

lemma wp_caught: "wp m (\<lambda>r t. J t) s \<Longrightarrow> wp (caught m) (\<lambda>r t. J t) s"
  unfolding caught_def wp_seq wp_attempt res.case by (erule wp_mono) (auto simp: wp_ret wp_err split: res.splits)

section \<open>Opening and closing\<close>

lemma dhold_open:
  assumes s: "dhold R P b f t v s" and c: "opener c"
  shows "f \<Longrightarrow> dhold R P b False t v (s\<lparr>hist := hist s @ [(c, a)], d_file := a_handle a\<rparr>)"
    "t \<Longrightarrow> dhold R P b f False v (s\<lparr>hist := hist s @ [(c, a)], d_temporary := a_handle a\<rparr>)"
    "v \<Longrightarrow> dhold R P b f t False (s\<lparr>hist := hist s @ [(c, a)], d_observed := a_handle a\<rparr>)"
  using s discovering.kept_open [of R P b s c a, OF _ c]
  by (auto simp: dhold_def kept_def custody_def d_share_def ac_simps)

lemma dhold_open_file:
  "dhold R P b True t v s \<Longrightarrow> wp (open_discovery ops kind keep_file) (\<lambda>r u. dhold R P b False t v u) s"
  using dhold_open(1) [of R P b True t v s] by (simp add: open_discovery_def keep_file_def wp_simps)

lemma dhold_open_observed:
  "dhold R P b f t True s \<Longrightarrow> wp (open_discovery ops kind keep_observed) (\<lambda>r u. dhold R P b f t False u) s"
  using dhold_open(3) [of R P b f t True s] by (simp add: open_discovery_def keep_observed_def wp_simps)

text \<open>One close of a local: the handle leaves the frame, and a failure quarantines the lease.\<close>

lemma dhold_close:
  assumes P: "flagless P" and s: "dhold R P b f t v s"
  shows "wp (close_local_file ops) (\<lambda>r u. dhold R P b True t v u) s"
    "wp (close_local_temporary ops) (\<lambda>r u. dhold R P b f True v u) s"
    "wp (close_local_observed ops) (\<lambda>r u. dhold R P b f t True u) s"
proof -
  have step: "kept (\<lambda>_. M) P b (u\<lparr>hist := hist u @ [(Close h, a)]\<rparr>)"
    if "kept (\<lambda>_. M + hm h) P b u" "usable h" for M h a and u :: discovery_run
    by (rule alone.kept_closed [OF that(1) _ that(2)]) simp
  have q: "kept (\<lambda>_. M) P b (u\<lparr>hist := hist u @ [(Close h, a)], cur := quarantine (cur u)\<rparr>)"
    if "kept (\<lambda>_. M + hm h) P b u" "usable h" "\<not> a_flag a" for M h a and u :: discovery_run
    using alone.kept_quarantine [OF step [OF that(1,2), of a] _ P] that(3) by simp
  have ks: "kept (\<lambda>_. d_share R s) P b s" using s by (simp add: dhold_def kept_def custody_def)
  show "wp (close_local_file ops) (\<lambda>r u. dhold R P b True t v u) s"
    using s step [of "R + hm (d_temporary s) + hm (d_observed s)" "d_file s" s]
      q [of "R + hm (d_temporary s) + hm (d_observed s)" "d_file s" s] ks
    by (auto simp: close_local_file_def close_local_def wp_simps dhold_def d_share_def kept_def custody_def ac_simps)
  show "wp (close_local_temporary ops) (\<lambda>r u. dhold R P b f True v u) s"
    using s step [of "R + hm (d_file s) + hm (d_observed s)" "d_temporary s" s]
      q [of "R + hm (d_file s) + hm (d_observed s)" "d_temporary s" s] ks
    by (auto simp: close_local_temporary_def close_local_def wp_simps dhold_def d_share_def kept_def custody_def ac_simps)
  show "wp (close_local_observed ops) (\<lambda>r u. dhold R P b f t True u) s"
    using s step [of "R + hm (d_file s) + hm (d_temporary s)" "d_observed s" s]
      q [of "R + hm (d_file s) + hm (d_temporary s)" "d_observed s" s] ks
    by (auto simp: close_local_observed_def close_local_def wp_simps dhold_def d_share_def kept_def custody_def ac_simps)
qed

section \<open>The chain\<close>

abbreviation qhold :: "handle multiset \<Rightarrow> lease \<Rightarrow> event list \<times> u64 \<Rightarrow> bool \<Rightarrow> bool \<Rightarrow> bool \<Rightarrow> discovery_run \<Rightarrow> bool" where
  "qhold R l0 b \<equiv> dhold R (quiet_slots l0) b"

lemma qhold_weaker: "qhold R l0 b f t v s \<Longrightarrow> (f' \<longrightarrow> f) \<Longrightarrow> (t' \<longrightarrow> t) \<Longrightarrow> (v' \<longrightarrow> v) \<Longrightarrow> qhold R l0 b f' t' v' s"
  by (auto simp: dhold_def)

lemma qstep:
  assumes "qhold R l0 b f t v s" and "pres (qhold R l0 b f t v) m"
    and "\<And>e u. qhold R l0 b f t v u \<Longrightarrow> Q (Err e) u" and "\<And>x u. qhold R l0 b f t v u \<Longrightarrow> wp (g x) Q u"
  shows "wp (seq m g) Q s"
  by (rule wp_seq_pres [OF assms(2,1,3,4)])

lemma qkeep: "qhold R l0 b f t v s \<Longrightarrow> pres (qhold R l0 b f t v) m \<Longrightarrow> wp m (\<lambda>r u. qhold R l0 b f t v u) s"
  by (rule wp_pres)

lemma qhold_find:
  assumes s: "qhold R l0 b True t v s"
  shows "wp (find_object ops kind) (\<lambda>r u. qhold R l0 b False t v u) s"
proof -
  have weak: "qhold R l0 b True t v u \<Longrightarrow> qhold R l0 b False t v u" for u by (erule qhold_weaker) simp_all
  show ?thesis
    unfolding find_object_def
    by (rule qstep [OF s dhold_directory], erule weak, rule wp_bind_res [OF dhold_open_file], assumption)
      (simp_all add: wp_simps)
qed

lemma qhold_examine:
  assumes s: "qhold R l0 b f t True s"
  shows "wp (examine ops kind input publishing sid) (\<lambda>r u. qhold R l0 b f t False u) s"
proof -
  have weak: "qhold R l0 b f t True u \<Longrightarrow> qhold R l0 b f t False u" for u by (erule qhold_weaker) simp_all
  have tail: "wp (seq (open_discovery ops kind keep_observed) (\<lambda>c. seq (expect c) (\<lambda>_.
      seq (inspect_local ops (a_handle c) sid) (\<lambda>again. seq (require (same_object identity again) UNAVAILABLE) (\<lambda>_.
      ret (identity, bytes)))))) (\<lambda>r u. qhold R l0 b f t False u) u" if "qhold R l0 b f t True u" for u identity bytes
    by (rule wp_bind_res [OF dhold_open_observed [OF that]], erule qkeep, intro pres_intros dhold_inspect) simp
  show ?thesis
    unfolding examine_def
    apply (rule qstep [OF s], rule pres_gets, erule weak)
    apply (rule qstep, assumption, rule dhold_inspect, erule weak)
    apply (rule qstep, assumption, rule dhold_quiet, simp, simp, erule weak)
    apply (rule qstep, assumption, rule pres_require, erule weak)
    apply (rule qstep, assumption, rule dhold_inspect, erule weak)
    apply (rule qstep, assumption, rule pres_require, erule weak)
    apply (rule qstep, assumption, rule pres_require, erule weak)
    apply (erule tail)
    done
qed

lemma qhold_recheck:
  assumes s: "qhold R l0 b f t True s"
  shows "wp (recheck_name ops kind create identity sid) (\<lambda>r u. qhold R l0 b f t False u) s"
  unfolding recheck_name_def
  by (rule wp_bind_res [OF dhold_open_observed [OF s]], erule qkeep, intro pres_intros dhold_inspect) simp

lemma qhold_runtime: "pres (qhold R l0 b f t v) (upd (\<lambda>l. if c l then l\<lparr>l_runtime_id := w\<rparr> else l))"
proof (rule pres_dhold)
  show "pres (kept (d_share R) (quiet_slots l0) b) (upd (\<lambda>l. if c l then l\<lparr>l_runtime_id := w\<rparr> else l))"
    by (rule discovering.pres_kept_upd)
      (simp_all add: quiet_slots_def mine_def retained_def loose_handles_def pin_handles_def lease_wf_def)
qed (rule lease_free_upd [OF stable_frame_is(2)])

lemma qhold_stage:
  assumes s: "qhold R l0 b f True True s"
  shows "wp (stage_object ops kind input create identity) (\<lambda>r u. qhold R l0 b f False False u) s"
proof -
  have weak: "qhold R l0 b f t v u \<Longrightarrow> qhold R l0 b f False False u" for t v u by (erule qhold_weaker) simp_all
  have rest: "wp (seq (expect c) (\<lambda>_. seq (inspect_local ops (a_handle c) sid) (\<lambda>temp.
      seq (perform ops (Write_file (a_handle c) input)) (\<lambda>_. seq (perform ops (Flush_file (a_handle c))) (\<lambda>_.
      seq (inspect_local ops (a_handle c) sid) (\<lambda>after. seq (require (same_object temp after) UNAVAILABLE) (\<lambda>_.
      seq (discovery_directory ops) (\<lambda>sid. seq (recheck_name ops kind create identity sid) (\<lambda>_. ret (temp, sid))))))))))
      (\<lambda>r u. qhold R l0 b f False False u) u" if u: "qhold R l0 b f False True u" for u c sid
    apply (rule qstep [OF u], rule pres_expect, erule weak)
    apply (rule qstep, assumption, rule dhold_inspect, erule weak)
    apply (rule qstep, assumption, rule dhold_quiet, simp, simp, erule weak)
    apply (rule qstep, assumption, rule dhold_quiet, simp, simp, erule weak)
    apply (rule qstep, assumption, rule dhold_inspect, erule weak)
    apply (rule qstep, assumption, rule pres_require, erule weak)
    apply (rule qstep, assumption, rule dhold_directory, erule weak)
    apply (rule wp_bind_res [OF qhold_recheck], assumption)
     apply (simp_all add: wp_ret)
    done
  have created: "qhold R l0 b f False True (keep_temporary (a_handle a) (u\<lparr>hist := hist u @ [(Temporary_create d n sid, a)]\<rparr>))"
    if "qhold R l0 b f True True u" for u a d n sid
    using dhold_open(2) [OF that, of "Temporary_create d n sid" a] by (simp add: keep_temporary_def)
  show ?thesis
    unfolding stage_object_def
    apply (rule qstep [OF s], rule dhold_directory, erule weak)
    apply (rule qstep, assumption, rule pres_lease_get, erule weak)
    apply (rule qstep, assumption, rule dhold_quiet, simp, simp, erule weak)
    apply (rule qstep, assumption, rule pres_require, erule weak)
    apply (rule qstep, assumption, rule dhold_quiet, simp, simp, erule weak)
    apply (rule qstep, assumption, rule pres_require, erule weak)
    apply (rule qstep, assumption, rule qhold_runtime, erule weak)
    apply (rule qstep, assumption, rule pres_lease_get, erule weak)
    apply (simp only: wp_seq [of "invoke _ _"] wp_invoke wp_seq [of "modify _"] wp_modify res.case)
    apply (rule rest, erule created)
    done
qed

lemma qhold_confirm:
  assumes s: "qhold R l0 b True t v s"
  shows "wp (confirm_object ops kind temp sid) (\<lambda>r u. qhold R l0 b False t v u) s"
  unfolding confirm_object_def
  by (rule wp_bind_res [OF dhold_open_file [OF s]], erule qkeep, intro pres_intros dhold_inspect) simp

lemma qhold_rename: "pres (qhold R l0 b f t v) (rename_object ops kind replace staged)"
  unfolding rename_object_def by (intro pres_intros dhold_entered dhold_quiet) simp_all

text \<open>The middle of a publication: the file is already closed when \<open>c\<close> holds.\<close>

definition midway :: "handle multiset \<Rightarrow> lease \<Rightarrow> event list \<times> u64 \<Rightarrow> bool \<Rightarrow> bool \<Rightarrow> discovery_run \<Rightarrow> bool" where
  "midway R l0 b c t u \<longleftrightarrow> qhold R l0 b c t True u"

lemma midway_weaker: "midway R l0 b c t u \<Longrightarrow> (d \<longrightarrow> c) \<Longrightarrow> midway R l0 b d t u"
  unfolding midway_def by (erule qhold_weaker) simp_all

lemma midway_any: "midway R l0 b c t u \<Longrightarrow> qhold R l0 b False False False u"
  unfolding midway_def by (rule dhold_any)

lemma midway_close_file:
  assumes "qhold R l0 b f False True s"
  shows "wp (if ok then close_local_file ops else ret False)
    (\<lambda>r u. case r of Val c \<Rightarrow> midway R l0 b c False u | Err e \<Rightarrow> qhold R l0 b False False False u) s"
proof (cases ok)
  case True
  have "wp (close_local_file ops) (\<lambda>r u. qhold R l0 b True False True u) s"
    by (rule dhold_close(1) [OF quiet_flagless assms])
  then show ?thesis
    using True by (auto elim!: wp_mono simp: midway_def elim: dhold_any qhold_weaker split: res.splits)
next
  case False
  then show ?thesis using qhold_weaker [OF assms, of False False True] by (simp add: wp_ret midway_def)
qed

lemma midway_rename:
  assumes s: "midway R l0 b c False s"
  shows "wp (caught (seq (resume (if c then staged else Err (Status UNAVAILABLE))) (rename_object ops kind replace)))
    (\<lambda>r u. case r of Val m \<Rightarrow> midway R l0 b (\<exists>x. m = Val x) False u | Err e \<Rightarrow> qhold R l0 b False False False u) s"
proof (cases c)
  case True
  have "pres (qhold R l0 b True False True)
      (caught (seq (resume (if c then staged else Err (Status UNAVAILABLE))) (rename_object ops kind replace)))"
    by (intro pres_caught pres_intros qhold_rename)
  from wp_pres [OF this, of s] show ?thesis
    using True s by (auto elim!: wp_mono simp: midway_def elim: dhold_any qhold_weaker split: res.splits)
next
  case False
  then show ?thesis using s by (simp add: caught_def wp_simps)
qed

lemma midway_close_temporary:
  "midway R l0 b c t s \<Longrightarrow> wp (close_local_temporary ops) (\<lambda>r u. midway R l0 b c True u) s"
  unfolding midway_def by (rule dhold_close(2) [OF quiet_flagless])

lemma qhold_publish:
  assumes s: "qhold R l0 b f True True s"
  shows "wp (publish_object ops kind input create identity) (\<lambda>r u. qhold R l0 b False False False u) s"
proof -
  have confirm: "wp (seq (resume (if ok then m else Err (Status UNAVAILABLE))) (\<lambda>(temp, sid). confirm_object ops kind temp sid))
      (\<lambda>r u. qhold R l0 b False False False u) u" if u: "midway R l0 b (\<exists>x. m = Val x) True u" for u m ok
  proof (cases "ok \<and> (\<exists>x. m = Val x)")
    case True
    then obtain temp sid where m: "m = Val (temp, sid)" by auto
    have "qhold R l0 b True True True u" using u m by (simp add: midway_def)
    then show ?thesis
      using True by (auto simp: m wp_seq wp_resume intro!: wp_mono [OF qhold_confirm] elim: dhold_any)
  next
    case False
    then show ?thesis using midway_any [OF u] by (cases m) (auto simp: wp_simps)
  qed
  show ?thesis
    unfolding publish_object_def
    apply (rule wp_bind_res [OF wp_caught [OF qhold_stage [OF s]]])
     apply (rule wp_bind_res [OF dhold_close(3) [OF quiet_flagless]], assumption)
      apply (rule wp_val_err [OF midway_close_file], assumption)
       apply (rule wp_val_err [OF midway_rename], assumption)
        apply (rule wp_bind_res [OF midway_close_temporary], assumption)
         apply (erule confirm)
        apply (erule midway_any)
       apply assumption
      apply assumption
     apply (erule dhold_any)+
    done
qed

lemma qhold_chain:
  assumes s: "qhold R l0 b True True True s"
  shows "wp (discovery_chain ops kind input publishing) (\<lambda>r u. qhold R l0 b False False False u) s"
proof -
  have last: "wp (seq (if create then seq (publish_object ops kind input True empty_info) (\<lambda>_. ret [])
          else seq (resume seen) (\<lambda>(identity, bytes).
               if publishing \<and> kind = 1
               then seq (publish_object ops kind input False identity) (\<lambda>_. ret bytes)
               else ret bytes)) (\<lambda>bytes. seq (discovery_directory ops) (\<lambda>_. ret bytes)))
      (\<lambda>r u. qhold R l0 b False False False u) u" if u: "qhold R l0 b False True True u" for u create seen
  proof (rule wp_bind_res)
    have pub: "wp (seq (publish_object ops kind input c i) (\<lambda>_. ret x)) (\<lambda>r u. qhold R l0 b False False False u) u" for c i x
      by (rule wp_bind_res [OF qhold_publish [OF u]]) (simp_all add: wp_ret)
    show "wp (if create then seq (publish_object ops kind input True empty_info) (\<lambda>_. ret [])
          else seq (resume seen) (\<lambda>(identity, bytes).
               if publishing \<and> kind = 1
               then seq (publish_object ops kind input False identity) (\<lambda>_. ret bytes)
               else ret bytes)) (\<lambda>r u. qhold R l0 b False False False u) u"
      using pub dhold_any [OF u]
      by (cases seen) (auto simp: wp_seq [of "resume _"] wp_resume wp_ret)
  next
    fix x v assume v: "qhold R l0 b False False False v"
    show "wp (seq (discovery_directory ops) (\<lambda>_. ret x)) (\<lambda>r u. qhold R l0 b False False False u) v"
      by (rule qkeep [OF v]) (intro pres_intros dhold_directory)
  qed
  show ?thesis
    unfolding discovery_chain_def Let_def
    apply (rule wp_bind_res [OF wp_caught [OF qhold_find [OF s]]])
     apply (rule qstep, assumption, rule pres_gets, erule dhold_any)
     apply (rule wp_bind_res [where J = "qhold R l0 b False True False", OF wp_caught])
       apply (rule qstep, assumption, rule pres_resume)
        apply (erule qhold_weaker, simp, simp, simp)
       apply (erule qhold_examine)
      apply (rule wp_bind_res [OF dhold_close(3) [OF quiet_flagless]], assumption)
       apply (erule last)
      apply (erule dhold_any)+
    done
qed

section \<open>The operation\<close>

lemma kept_finish_discovery:
  assumes s: "qhold R l0 b False False False s"
  shows "wp (discovery_finish ops r) (\<lambda>r u. kept (\<lambda>_. R) (quiet_slots l0) b u) s"
proof -
  have empty: "kept (\<lambda>_. R) (quiet_slots l0) b u" if "qhold R l0 b True True True u" for u
    using that by (auto simp: dhold_def kept_def custody_def d_share_def)
  have deny: "kept (\<lambda>_. R) (quiet_slots l0) b (u\<lparr>cur := (cur u)\<lparr>l_denied := d\<rparr>\<rparr>)"
    if "kept (\<lambda>_. R) (quiet_slots l0) b u" for u :: discovery_run and d
    using that by (simp add: kept_def custody_def flagless_denied lease_wf_def)
  have tail: "wp (seq (gets renaming_entered) (\<lambda>entered.
       case if ok then r else Err (Status UNAVAILABLE) of
         Val bytes \<Rightarrow> ret bytes
       | Err e \<Rightarrow> if entered then seq (upd (\<lambda>l. l\<lparr>l_denied := True\<rparr>)) (\<lambda>_. err (Status COMMIT_UNKNOWN)) else err e))
      (\<lambda>r u. kept (\<lambda>_. R) (quiet_slots l0) b u) u" if "kept (\<lambda>_. R) (quiet_slots l0) b u" for ok and u :: discovery_run
    using that by (auto simp: wp_simps intro: deny split: res.splits)
  have z: "wp (close_local_observed ops) (\<lambda>r u. qhold R l0 b False False True u) s"
    by (rule dhold_close(3) [OF quiet_flagless s])
  have never: "wp (close_local ops g c) (\<lambda>r u. \<exists>ok. r = Val ok) u" for g c u
    by (simp add: close_local_def wp_simps) blast
  have n3: "wp (close_local_observed ops) (\<lambda>r u. case r of Val _ \<Rightarrow> qhold R l0 b False False True u | Err e \<Rightarrow> False) s"
    using z never [of d_observed "\<lambda>s. s\<lparr>d_observed := 0\<rparr>" s] by (auto simp: close_local_observed_def wp_def split: prod.splits)
  have n1: "wp (close_local_file ops) (\<lambda>r u. case r of Val _ \<Rightarrow> qhold R l0 b True False True u | Err e \<Rightarrow> False) u"
    if "qhold R l0 b False False True u" for u
    using dhold_close(1) [OF quiet_flagless that, of ops] never [of d_file "\<lambda>s. s\<lparr>d_file := 0\<rparr>" u]
    by (auto simp: close_local_file_def wp_def split: prod.splits)
  have n2: "wp (close_local_temporary ops) (\<lambda>r u. case r of Val _ \<Rightarrow> qhold R l0 b True True True u | Err e \<Rightarrow> False) u"
    if "qhold R l0 b True False True u" for u
    using dhold_close(2) [OF quiet_flagless that, of ops] never [of d_temporary "\<lambda>s. s\<lparr>d_temporary := 0\<rparr>" u]
    by (auto simp: close_local_temporary_def wp_def split: prod.splits)
  show ?thesis
    unfolding discovery_finish_def Let_def
    apply (rule wp_val_err [OF n3])
     apply (rule wp_val_err [OF n1], assumption)
      apply (rule wp_val_err [OF n2], assumption)
       apply (rule tail, erule empty)
      apply simp_all
    done
qed

lemma enter_qhold:
  assumes inv: "objects_inv s" and i: "i < length (o_owners s)" "o_owners s ! i = Some (owner_at s i)"
  shows "qhold (others i s) (owner_at s i) (o_hist s, o_next_ticket s) True True True (enter_discovery i s)"
  using enter_custody [OF inv i]
  by (simp add: dhold_def kept_def custody_def enter_def enter_discovery_def d_share_def quiet_slots_def)

lemma discovery_operation_inv:
  assumes inv: "objects_inv s"
  shows "objects_inv (snd (snd (discovery_operation ops owner kind input publishing s)))"
proof -
  have "objects_inv (leave i r s)"
    if f: "find_owner owner s = Some i" and run: "discovery_transaction ops kind input publishing (enter_discovery i s) = (x, r)" for i x r
  proof -
    have i: "i < length (o_owners s)" "o_owners s ! i = Some (owner_at s i)" using find_owner_Some [OF f] by auto
    have "wp (discovery_transaction ops kind input publishing)
        (\<lambda>r u. kept (\<lambda>_. others i s) (quiet_slots (owner_at s i)) (o_hist s, o_next_ticket s) u) (enter_discovery i s)"
      unfolding discovery_transaction_def wp_seq [of "attempt _"] wp_attempt res.case
      by (rule wp_mono [OF qhold_chain [OF enter_qhold [OF inv i]]]) (erule kept_finish_discovery)
    from wp_run [OF this run] have k: "kept (\<lambda>_. others i s) (quiet_slots (owner_at s i)) (o_hist s, o_next_ticket s) r" .
    then have "settled i s r"
      using owner_idle [OF inv i] by (intro kept_settled [OF k objects_inv_ticket [OF inv]])
        (simp_all add: kept_def quiet_slots_def idle_def)
    then show ?thesis by (rule objects_inv_leave [OF inv i])
  qed
  then show ?thesis
    using inv by (auto simp: discovery_operation_def split: option.splits prod.splits res.splits)
qed

theorem discovery_publish_keeps_inv:
  "objects_inv s \<Longrightarrow> objects_inv (snd (discovery_publish ops version owner kind input len s))"
  using discovery_operation_inv [of s ops owner kind "read_bytes input len (o_mem s)" True]
  by (auto simp: discovery_publish_def split: prod.splits)

theorem discovery_read_keeps_inv:
  assumes inv: "objects_inv s"
  shows "objects_inv (snd (discovery_read ops version owner kind output capacity written s))"
proof -
  have "objects_inv (snd (snd (discovery_operation ops owner kind [] False (o_write f s))))" for f
    by (rule discovery_operation_inv) (simp add: inv)
  then show ?thesis
    using inv by (auto simp: discovery_read_def Let_def split: prod.splits) (metis objects_inv_mem snd_conv)+
qed

end
