(* ===== verification/Discovery_Contract.thy ===== *)
theory Discovery_Contract
  imports Discovery_Custody Sample_World
begin

text \<open>
  What the discovery operations promise: at most one rename, of a temporary that the input was
  written to; replacement of the endpoint alone; no success without a confirmed rename or an
  identical object already in place; and reading changes no name.
\<close>

section \<open>The log of an operation\<close>

text \<open>
  Since \<open>h\<close> the renames were \<open>R\<close> and the events \<open>E\<close> happened, \<open>b\<close> is the flag the end of the
  operation reads, and \<open>T\<close> holds of the temporary.
\<close>

definition dlog :: "event list \<Rightarrow> event list \<Rightarrow> bool \<Rightarrow> event set \<Rightarrow> (handle \<Rightarrow> bool) \<Rightarrow> discovery_run \<Rightarrow> bool" where
  "dlog h R b E T s \<longleftrightarrow>
     (\<exists>es. hist s = h @ es \<and> renames es = R \<and> E \<subseteq> set es) \<and> renaming_entered s = b \<and> T (d_temporary s)"

abbreviation anything :: "handle \<Rightarrow> bool" where
  "anything \<equiv> \<lambda>_. True"

lemma dlog_event:
  "dlog h R b E T s \<Longrightarrow> dlog h (R @ renames [(c, a)]) b (insert (c, a) E) T (s\<lparr>hist := hist s @ [(c, a)]\<rparr>)"
  unfolding dlog_def by force

lemma dlog_weaker: "dlog h R b E T s \<Longrightarrow> F \<subseteq> E \<Longrightarrow> (\<And>k. T k \<Longrightarrow> U k) \<Longrightarrow> dlog h R b F U s"
  unfolding dlog_def by blast

lemma dlog_any: "dlog h R b E T s \<Longrightarrow> dlog h R b {} anything s"
  by (erule dlog_weaker) auto

lemma stable_dlog: "stable (\<lambda>c. \<not> renaming c) (dlog h R b E T)" "lease_free (dlog h R b E T)"
proof -
  have "dlog h R b E T (s\<lparr>hist := hist s @ [(c, a)]\<rparr>)" if "\<not> renaming c" "dlog h R b E T s" for s c a
    using dlog_event [OF that(2), of c a] that(1) dlog_weaker [of h R b "insert (c, a) E" T _ E T] by auto
  then show "stable (\<lambda>c. \<not> renaming c) (dlog h R b E T)" by (simp add: stable_def)
  show "lease_free (dlog h R b E T)" by (simp add: lease_free_def dlog_def)
qed

lemma pres_dlog_directory: "pres (dlog h R b E T) (discovery_directory ops)"
  unfolding discovery_directory_def pin_discovery_def pin_directory_def inspect_discovery_def deny_failure_def
  by (intro pres_intros stable_check [OF stable_dlog] stable_perform [OF stable_dlog(1)] stable_invoke [OF stable_dlog(1)]
      lease_free_upd [OF stable_dlog(2)])
    (auto split: res.splits intro!: pres_intros stable_perform [OF stable_dlog(1)] stable_invoke [OF stable_dlog(1)]
      lease_free_upd [OF stable_dlog(2)])

lemma pres_dlog [pres_intros]:
  "\<not> renaming c \<Longrightarrow> pres (dlog h R b E T) (invoke ops c)"
  "\<not> renaming c \<Longrightarrow> pres (dlog h R b E T) (perform ops c)"
  "pres (dlog h R b E T) (upd f)" "pres (dlog h R b E T) (modify (keep_file k))"
  "pres (dlog h R b E T) (modify (keep_observed k))" "pres (dlog h R b E T) (discovery_directory ops)"
  "pres (dlog h R b E anything) (modify (keep_temporary k))"
  using stable_invoke [OF stable_dlog(1)] stable_perform [OF stable_dlog(1)] lease_free_upd [OF stable_dlog(2)]
  by (auto intro!: pres_modify pres_dlog_directory simp: keep_file_def keep_observed_def keep_temporary_def dlog_def)

lemma pres_dlog_steps [pres_intros]:
  "pres (dlog h R b E T) (inspect_local ops k sid)"
  "pres (dlog h R b E T) (close_local_file ops)" "pres (dlog h R b E T) (close_local_observed ops)"
  "pres (dlog h R b E anything) (close_local_temporary ops)"
  "pres (dlog h R b E T) (open_discovery ops kind keep_file)" "pres (dlog h R b E T) (open_discovery ops kind keep_observed)"
  unfolding inspect_local_def open_discovery_def close_local_file_def close_local_observed_def
    close_local_temporary_def close_local_def
  by (intro pres_intros; simp?; rule pres_modify; simp add: dlog_def)+

lemma pres_dlog_parts [pres_intros]:
  "pres (dlog h R b E T) (find_object ops kind)" "pres (dlog h R b E T) (confirm_object ops kind temp sid)"
  "pres (dlog h R b E T) (recheck_name ops kind create identity sid)"
  "pres (dlog h R b E T) (examine ops kind input publishing sid)"
  unfolding find_object_def confirm_object_def recheck_name_def examine_def
  by (intro pres_intros; simp)+

section \<open>Publication\<close>

text \<open>A temporary that was written with \<open>input\<close>, and what has happened to the names when \<open>r\<close> is the result.\<close>

definition written_temporary :: "event list \<Rightarrow> u8 list \<Rightarrow> discovery_run \<Rightarrow> bool" where
  "written_temporary h input s \<longleftrightarrow>
     (\<exists>k w. dlog h [] False {(Write_file k input, w)} ((=) k) s \<and> outcome w = Status OK)"

definition unmoved :: "event list \<Rightarrow> discovery_run \<Rightarrow> bool" where
  "unmoved h s \<longleftrightarrow> dlog h [] False {} anything s"

definition moved :: "event list \<Rightarrow> u32 \<Rightarrow> bool \<Rightarrow> u8 list \<Rightarrow> bool \<Rightarrow> discovery_run \<Rightarrow> bool" where
  "moved h kind replace input confirmed s \<longleftrightarrow>
     (\<exists>k d a w. dlog h [(Discovery_replace k d kind replace, a)] True {(Write_file k input, w)} anything s \<and>
        outcome w = Status OK \<and> (confirmed \<longrightarrow> outcome a = Status OK))"

lemma written_unmoved: "written_temporary h input s \<Longrightarrow> unmoved h s"
  unfolding written_temporary_def unmoved_def by (blast intro: dlog_any)

lemma moved_weaker: "moved h kind replace input c s \<Longrightarrow> (d \<longrightarrow> c) \<Longrightarrow> moved h kind replace input d s"
  unfolding moved_def by blast

lemma pres_published:
  assumes "\<And>R b E T. pres (dlog h R b E T) m"
  shows "pres (unmoved h) m" "pres (moved h kind replace input c) m" "pres (written_temporary h input) m"
  unfolding unmoved_def [abs_def] moved_def [abs_def] written_temporary_def [abs_def]
  by (intro pres_composed assms)+

lemma pres_closed: "pres (unmoved h) (close_local_temporary ops)"
  "pres (moved h kind replace input c) (close_local_temporary ops)"
  unfolding unmoved_def [abs_def] moved_def [abs_def] by (intro pres_composed pres_dlog_steps(4))+

lemma wp_stage:
  assumes s: "unmoved h s"
  shows "wp (stage_object ops kind input create identity)
    (\<lambda>r u. case r of Val _ \<Rightarrow> written_temporary h input u | Err _ \<Rightarrow> unmoved h u) s"
proof -
  let ?Q = "\<lambda>r u. case r of Val _ \<Rightarrow> written_temporary h input u | Err _ \<Rightarrow> unmoved h u"
  note pu = pres_published
  have fill: "wp (seq (perform ops (Write_file k input)) (\<lambda>_. seq (perform ops (Flush_file k)) (\<lambda>_.
      seq (inspect_local ops k sid) (\<lambda>after. seq (require (same_object temp after) UNAVAILABLE) (\<lambda>_.
      seq (discovery_directory ops) (\<lambda>sid. seq (recheck_name ops kind create identity sid) (\<lambda>_. ret (temp, sid)))))))) ?Q u"
    if u: "dlog h [] False {} ((=) k) u" for u k temp and sid :: sid
  proof -
    have tail: "pres (written_temporary h input) (seq (perform ops (Flush_file k)) (\<lambda>_.
      seq (inspect_local ops k sid) (\<lambda>after. seq (require (same_object temp after) UNAVAILABLE) (\<lambda>_.
      seq (discovery_directory ops) (\<lambda>sid. seq (recheck_name ops kind create identity sid) (\<lambda>_. ret (temp, sid)))))))"
      by (rule pu(3)) (intro pres_intros, simp)
    define a where "a = ops (hist u) (Write_file k input)"
    have log: "dlog h [] False {(Write_file k input, a)} ((=) k) (u\<lparr>hist := hist u @ [(Write_file k input, a)]\<rparr>)"
      using dlog_event [OF u, of "Write_file k input" a] by simp
    have "wp (seq (perform ops (Flush_file k)) (\<lambda>_.
      seq (inspect_local ops k sid) (\<lambda>after. seq (require (same_object temp after) UNAVAILABLE) (\<lambda>_.
      seq (discovery_directory ops) (\<lambda>sid. seq (recheck_name ops kind create identity sid) (\<lambda>_. ret (temp, sid)))))))
      ?Q (u\<lparr>hist := hist u @ [(Write_file k input, a)]\<rparr>)" if "outcome a = Status OK"
      by (rule wp_mono [OF wp_pres [OF tail]])
        (use log that in \<open>auto simp: written_temporary_def split: res.splits intro: written_unmoved\<close>,
         auto simp: written_temporary_def unmoved_def intro: dlog_any)
    then show ?thesis
      using dlog_any [OF log] by (simp add: wp_seq [of "perform ops (Write_file k input)"] wp_perform a_def Let_def unmoved_def)
  qed
  have opened: "wp (seq (expect c) (\<lambda>_. seq (inspect_local ops (a_handle c) sid) (\<lambda>temp.
      seq (perform ops (Write_file (a_handle c) input)) (\<lambda>_. seq (perform ops (Flush_file (a_handle c))) (\<lambda>_.
      seq (inspect_local ops (a_handle c) sid) (\<lambda>after. seq (require (same_object temp after) UNAVAILABLE) (\<lambda>_.
      seq (discovery_directory ops) (\<lambda>sid. seq (recheck_name ops kind create identity sid) (\<lambda>_. ret (temp, sid)))))))))) ?Q u"
    if u: "dlog h [] False {} ((=) (a_handle c)) u" for u c and sid :: sid
    apply (rule wp_seq_pres [where I = "dlog h [] False {} ((=) (a_handle c))", OF pres_expect u])
     apply (simp add: unmoved_def, erule dlog_any)
    apply (rule wp_seq_pres [where I = "dlog h [] False {} ((=) (a_handle c))", OF pres_dlog_steps(1)], assumption)
     apply (simp add: unmoved_def, erule dlog_any)
    apply (erule fill)
    done
  have created: "dlog h [] False {} ((=) (a_handle a)) (keep_temporary (a_handle a) (u\<lparr>hist := hist u @ [(Temporary_create d n sid, a)]\<rparr>))"
    if "unmoved h u" for u a d n sid
    using dlog_event [OF that [unfolded unmoved_def], of "Temporary_create d n sid" a]
    by (auto simp: dlog_def keep_temporary_def)
  have step: "wp (seq m f) ?Q u" if "unmoved h u" "\<And>R b E T. pres (dlog h R b E T) m"
    "\<And>x v. unmoved h v \<Longrightarrow> wp (f x) ?Q v" for m :: "(discovery_run, 'b) prog" and f u
    by (rule wp_seq_pres [where I = "unmoved h", OF pu(1) [OF that(2)] that(1)]) (simp_all add: that(3))
  show ?thesis
    unfolding stage_object_def
    apply (rule step [OF s], rule pres_intros)
    apply (rule step, assumption, rule pres_intros)
    apply (rule step, assumption, rule pres_intros, simp)
    apply (rule step, assumption, rule pres_intros)
    apply (rule step, assumption, rule pres_intros, simp)
    apply (rule step, assumption, rule pres_intros)
    apply (rule step, assumption, rule pres_intros)
    apply (rule step, assumption, rule pres_intros)
    apply (simp only: wp_seq [of "invoke _ _"] wp_invoke wp_seq [of "modify _"] wp_modify res.case)
    apply (rule opened, erule created)
    done
qed

lemma wp_rename:
  assumes s: "written_temporary h input s"
  shows "wp (rename_object ops kind replace staged) (\<lambda>r u. moved h kind replace input (\<exists>x. r = Val x) u) s"
proof -
  obtain k w where k: "dlog h [] False {(Write_file k input, w)} ((=) k) s" "outcome w = Status OK"
    using s unfolding written_temporary_def by blast
  define s1 where "s1 = s\<lparr>renaming_entered := True\<rparr>"
  define c where "c = Discovery_replace k (discovery_handle (cur s)) kind replace"
  define a where "a = ops (hist s1) c"
  have temp: "d_temporary s = k" using k(1) by (simp add: dlog_def)
  have "dlog h [] True {(Write_file k input, w)} anything s1" using k(1) by (auto simp: s1_def dlog_def)
  from dlog_event [OF this, of c a]
  have log: "dlog h [(c, a)] True {(Write_file k input, w)} anything (s1\<lparr>hist := hist s1 @ [(c, a)]\<rparr>)"
    by (auto simp: c_def elim: dlog_weaker)
  have "moved h kind replace input (outcome a = Status OK) (s1\<lparr>hist := hist s1 @ [(c, a)]\<rparr>)"
    unfolding moved_def using log k(2) c_def by blast
  then show ?thesis
    by (auto simp: rename_object_def wp_simps Let_def s1_def c_def a_def temp)
qed

text \<open>What a publication has done once it stops with \<open>r\<close>.\<close>

definition publication :: "event list \<Rightarrow> u32 \<Rightarrow> bool \<Rightarrow> u8 list \<Rightarrow> 'a res \<Rightarrow> discovery_run \<Rightarrow> bool" where
  "publication h kind replace input r u \<longleftrightarrow>
     unmoved h u \<and> (\<forall>x. r \<noteq> Val x) \<or> moved h kind replace input (\<exists>x. r = Val x) u"

lemma publication_error: "publication h kind replace input (Err e :: 'a res) u \<longleftrightarrow>
    unmoved h u \<or> moved h kind replace input False u"
  by (simp add: publication_def)

lemma wp_publish_object:
  assumes s: "unmoved h s"
  shows "wp (publish_object ops kind input create identity) (\<lambda>r u. publication h kind (\<not> create) input r u) s"
proof -
  let ?P = "\<lambda>r u. publication h kind (\<not> create) input r u"
  have confirm: "wp (seq (resume (if ok then m else Err (Status UNAVAILABLE))) (\<lambda>(temp, sid). confirm_object ops kind temp sid)) ?P u"
    if u: "publication h kind (\<not> create) input m u" for ok and m :: "(object_info \<times> sid) res" and u
  proof (cases "\<exists>x. m = Val x \<and> ok")
    case True
    then obtain temp sid where m: "m = Val (temp, sid)" and ok by auto
    have "wp (confirm_object ops kind temp sid) (\<lambda>r t. moved h kind (\<not> create) input True t) u"
      by (rule wp_pres [OF pres_published(2) [OF pres_dlog_parts(2)]]) (use u m in \<open>simp add: publication_def\<close>)
    then have "wp (confirm_object ops kind temp sid) ?P u"
      by (rule wp_mono) (auto simp: publication_def intro: moved_weaker)
    then show ?thesis using m \<open>ok\<close> by (simp add: wp_seq wp_resume)
  next
    case False
    then show ?thesis using u
      by (cases m) (auto simp: wp_seq wp_resume publication_def intro: moved_weaker)
  qed
  have last: "wp (seq (close_local_temporary ops) (\<lambda>ok3.
      seq (resume (if ok3 then m else Err (Status UNAVAILABLE))) (\<lambda>(temp, sid). confirm_object ops kind temp sid))) ?P u"
    if u: "publication h kind (\<not> create) input m u" for m :: "(object_info \<times> sid) res" and u
  proof (rule wp_bind_res)
    have "pres (publication h kind (\<not> create) input m) (close_local_temporary ops)"
      unfolding publication_def using pres_closed unfolding pres_def by blast
    from wp_pres [OF this u] show "wp (close_local_temporary ops) (\<lambda>r v. publication h kind (\<not> create) input m v) u" .
  next
    fix x v assume "publication h kind (\<not> create) input m v"
    then show "wp (seq (resume (if x then m else Err (Status UNAVAILABLE))) (\<lambda>(temp, sid). confirm_object ops kind temp sid)) ?P v"
      by (rule confirm)
  qed (auto simp: publication_def intro: moved_weaker)
  have renamed: "wp (caught (seq (resume (if ok2 then staged else Err (Status UNAVAILABLE))) (rename_object ops kind (\<not> create))))
      (\<lambda>r v. case r of Val m \<Rightarrow> publication h kind (\<not> create) input m v | Err e \<Rightarrow> publication h kind (\<not> create) input (Err OtherExn :: unit res) v) u"
    if u: "case staged of Val _ \<Rightarrow> written_temporary h input u | Err _ \<Rightarrow> unmoved h u" for ok2 staged u
  proof (cases "ok2 \<and> (\<exists>x. staged = Val x)")
    case True
    then obtain x where "staged = Val x" ok2 by blast
    moreover from this u have "wp (rename_object ops kind (\<not> create) x) (\<lambda>r u. moved h kind (\<not> create) input (\<exists>x. r = Val x) u) u"
      by (intro wp_rename) simp
    ultimately show ?thesis
      unfolding caught_def wp_seq wp_attempt res.case wp_resume if_P [OF \<open>ok2\<close>]
      by (auto elim!: wp_mono simp: wp_ret wp_err publication_def split: res.splits intro: moved_weaker)
  next
    case False
    then have "unmoved h u" using u by (auto split: res.splits intro: written_unmoved)
    then show ?thesis
      using False by (cases staged) (auto simp: caught_def wp_simps publication_def)
  qed
  have staging: "wp (caught (stage_object ops kind input create identity))
      (\<lambda>r u. case r of Val staged \<Rightarrow> (case staged of Val _ \<Rightarrow> written_temporary h input u | Err _ \<Rightarrow> unmoved h u) | Err _ \<Rightarrow> unmoved h u) s"
    unfolding caught_def wp_seq wp_attempt res.case
    by (rule wp_mono [OF wp_stage [OF s]]) (auto simp: wp_ret wp_err split: res.splits)
  have keeps: "pres (\<lambda>u. case staged of Val _ \<Rightarrow> written_temporary h input u | Err _ \<Rightarrow> unmoved h u) m"
    if "\<And>R b E T. pres (dlog h R b E T) m" for m :: "(discovery_run, bool) prog" and staged :: "(object_info \<times> sid) res"
    using pres_published [OF that] by (cases staged) simp_all
  have out: "?P (Err e) u" if "case staged of Val _ \<Rightarrow> written_temporary h input u | Err _ \<Rightarrow> unmoved h u"
    for e u and staged :: "(object_info \<times> sid) res"
    using that by (auto simp: publication_def split: res.splits intro: written_unmoved)
  show ?thesis
    unfolding publish_object_def
    apply (rule wp_val_err [OF staging])
     apply (rule wp_seq_pres [OF keeps [OF pres_dlog_steps(3)]], assumption, erule out)
     apply (rule wp_seq_pres [OF keeps], rule pres_if, rule pres_dlog_steps(2), rule pres_ret, assumption, erule out)
     apply (rule wp_val_err [OF renamed], assumption)
      apply (erule last)
     apply (simp add: publication_def)
    apply (simp add: publication_def)
    done
qed

section \<open>The whole operation\<close>

text \<open>
  Without a rename a result is what was read from the object, and a publication then found its
  own input in an object that is not the endpoint.
\<close>

definition examined :: "event list \<Rightarrow> u32 \<Rightarrow> u8 list \<Rightarrow> bool \<Rightarrow> u8 list \<Rightarrow> discovery_run \<Rightarrow> bool" where
  "examined h kind input publishing bytes u \<longleftrightarrow>
     (\<exists>f a. dlog h [] False {(Exchange_read f (discovery_cap kind), a)} anything u \<and> outcome a = Status OK \<and>
        a_bytes a = bytes \<and> bytes \<noteq> [] \<and> length bytes \<le> discovery_cap kind \<and>
        (publishing \<and> kind \<noteq> 1 \<longrightarrow> bytes = input))"

lemma examined_unmoved: "examined h kind input publishing bytes u \<Longrightarrow> unmoved h u"
  unfolding examined_def unmoved_def by (blast intro: dlog_any)

lemma pres_examined:
  assumes "\<And>R b E T. pres (dlog h R b E T) m"
  shows "pres (examined h kind input publishing bytes) m"
  unfolding examined_def [abs_def] by (intro pres_composed assms)

lemma wp_examine:
  assumes s: "unmoved h s"
  shows "wp (examine ops kind input publishing sid) (\<lambda>r u. case r of
      Val (identity, bytes) \<Rightarrow> examined h kind input publishing bytes u | Err _ \<Rightarrow> unmoved h u) s"
proof -
  let ?Q = "\<lambda>r u. case r of Val (identity, bytes) \<Rightarrow> examined h kind input publishing bytes u | Err _ \<Rightarrow> unmoved h u"
  have step: "wp (seq m f) ?Q u" if "unmoved h u" "\<And>R b E T. pres (dlog h R b E T) m"
    "\<And>x v. unmoved h v \<Longrightarrow> wp (f x) ?Q v" for m :: "(discovery_run, 'b) prog" and f u
    by (rule wp_seq_pres [where I = "unmoved h", OF pres_published(1) [OF that(2)] that(1)]) (simp_all add: that(3))
  have rest: "wp (seq (require (a_bytes b \<noteq> [] \<and> length (a_bytes b) \<le> discovery_cap kind) DATA_CORRUPT) (\<lambda>_.
     seq (inspect_local ops k sid) (\<lambda>after.
     seq (require (same_object identity after) UNAVAILABLE) (\<lambda>_.
     seq (require (\<not> (publishing \<and> kind \<noteq> 1 \<and> a_bytes b \<noteq> input)) DATA_CORRUPT) (\<lambda>_.
     seq (open_discovery ops kind keep_observed) (\<lambda>c.
     seq (expect c) (\<lambda>_.
     seq (inspect_local ops (a_handle c) sid) (\<lambda>again.
     seq (require (same_object identity again) UNAVAILABLE) (\<lambda>_.
     ret (identity, a_bytes b)))))))))) ?Q u"
    if u: "dlog h [] False {(Exchange_read k (discovery_cap kind), b)} anything u" and ok: "outcome b = Status OK" for u k b identity
  proof -
    let ?I = "dlog h [] False {(Exchange_read k (discovery_cap kind), b)} anything"
    have out: "?Q (Err e) v" if "?I v" for e v using that by (auto simp: unmoved_def intro: dlog_any)
    have fin: "?Q (Val (identity, a_bytes b)) v" if "?I v" "a_bytes b \<noteq> []" "length (a_bytes b) \<le> discovery_cap kind"
      "\<not> (publishing \<and> kind \<noteq> 1 \<and> a_bytes b \<noteq> input)" for v
      using that ok by (auto simp: examined_def)
    note stop = wp_seq_pres [where I = ?I]
    show ?thesis
      unfolding wp_seq [of "require (_ \<and> _) _"] wp_require
      apply (simp only: res.case split: if_split)
      apply (intro conjI impI)
       apply (rule stop [OF _ u], rule pres_intros, erule out)
       apply (rule stop, rule pres_intros, assumption, erule out)
       unfolding wp_seq [of "require (\<not> _) _"] wp_require
       apply (simp only: res.case split: if_split)
       apply (intro conjI impI)
        apply (rule stop, rule pres_intros, assumption, erule out)
        apply (rule stop, rule pres_expect, assumption, erule out)
        apply (rule stop, rule pres_intros, assumption, erule out)
        apply (rule stop, rule pres_intros, assumption, erule out)
        apply (simp only: wp_ret)
        apply (rule fin; simp)
       apply (simp add: unmoved_def, erule dlog_any)
      apply (use u in \<open>simp add: unmoved_def, blast intro: dlog_any\<close>)
      done
  qed
  show ?thesis
    unfolding examine_def
    apply (rule step [OF s], rule pres_intros)
    apply (rule step, assumption, rule pres_intros)
    subgoal premises p for k v identity u
    proof -
      define a where "a = ops (hist u) (Exchange_read k (discovery_cap kind))"
      have log: "dlog h [] False {(Exchange_read k (discovery_cap kind), a)} anything
          (u\<lparr>hist := hist u @ [(Exchange_read k (discovery_cap kind), a)]\<rparr>)"
        using dlog_event [of h "[]" False "{}" anything u "Exchange_read k (discovery_cap kind)" a] p
        by (simp add: unmoved_def)
      show ?thesis
        unfolding wp_seq [of "perform ops (Exchange_read _ _)"] wp_perform Let_def a_def [symmetric]
        using rest [OF log] dlog_any [OF log]
        by (cases "outcome a = Status OK") (simp_all only: res.case unmoved_def if_True if_False simp_thms)
    qed
    done
qed

definition moved_once :: "event list \<Rightarrow> u32 \<Rightarrow> u8 list \<Rightarrow> bool \<Rightarrow> bool \<Rightarrow> discovery_run \<Rightarrow> bool" where
  "moved_once h kind input publishing confirmed u \<longleftrightarrow>
     publishing \<and> (\<exists>replace. (replace \<longrightarrow> kind = 1) \<and> moved h kind replace input confirmed u)"

lemma moved_once_weaker: "moved_once h kind input publishing c u \<Longrightarrow> (d \<longrightarrow> c) \<Longrightarrow> moved_once h kind input publishing d u"
  unfolding moved_once_def by (blast intro: moved_weaker)

lemma moved_onceI: "moved h kind replace input c u \<Longrightarrow> publishing \<Longrightarrow> replace \<longrightarrow> kind = 1 \<Longrightarrow> moved_once h kind input publishing c u"
  unfolding moved_once_def by blast

definition chain_outcome :: "event list \<Rightarrow> u32 \<Rightarrow> u8 list \<Rightarrow> bool \<Rightarrow> u8 list res \<Rightarrow> discovery_run \<Rightarrow> bool" where
  "chain_outcome h kind input publishing r u \<longleftrightarrow>
     unmoved h u \<and> (\<forall>bytes. r = Val bytes \<longrightarrow> examined h kind input publishing bytes u \<and> (publishing \<longrightarrow> kind \<noteq> 1)) \<or>
     moved_once h kind input publishing (\<exists>b. r = Val b) u"

lemma chain_outcome_error: "chain_outcome h kind input publishing (Val b) u \<Longrightarrow> chain_outcome h kind input publishing (Err e) u"
  unfolding chain_outcome_def by (auto intro: moved_once_weaker)

lemma pres_chain_outcome:
  assumes "\<And>R b E T. pres (dlog h R b E T) m"
  shows "pres (chain_outcome h kind input publishing r) m"
  unfolding chain_outcome_def [abs_def] moved_once_def
  by (intro pres_composed pres_published(1,2) [OF assms] pres_examined [OF assms])

text \<open>What the examination left in the status variable.\<close>

definition was_seen :: "event list \<Rightarrow> u32 \<Rightarrow> u8 list \<Rightarrow> bool \<Rightarrow> (object_info \<times> u8 list) res \<Rightarrow> discovery_run \<Rightarrow> bool" where
  "was_seen h kind input publishing seen u \<longleftrightarrow> unmoved h u \<and>
     (\<forall>identity bytes. seen = Val (identity, bytes) \<longrightarrow> examined h kind input publishing bytes u)"

lemma pres_was_seen:
  assumes "\<And>R b E T. pres (dlog h R b E T) m"
  shows "pres (was_seen h kind input publishing seen) m"
  unfolding was_seen_def [abs_def] by (intro pres_composed pres_published(1) [OF assms] pres_examined [OF assms])

lemma wp_seen:
  assumes s: "unmoved h s"
  shows "wp (caught (seq (resume found) (examine ops kind input publishing)))
    (\<lambda>r u. case r of Val seen \<Rightarrow> was_seen h kind input publishing seen u | Err _ \<Rightarrow> unmoved h u) s"
proof (cases found)
  case (Val sid)
  show ?thesis
    unfolding caught_def wp_seq wp_attempt res.case wp_resume Val
    by (rule wp_mono [OF wp_examine [OF s]])
      (auto simp: wp_ret wp_err was_seen_def intro: examined_unmoved split: res.splits)
next
  case (Err e)
  then show ?thesis using s by (simp add: caught_def wp_simps was_seen_def)
qed

lemma published:
  assumes "publication h kind replace input r u" publishing "replace \<longrightarrow> kind = 1"
  shows "chain_outcome h kind input publishing (case r of Val _ \<Rightarrow> Val x | Err e \<Rightarrow> Err e) u"
proof (cases r)
  case (Val y)
  then have "moved h kind replace input True u" using assms(1) by (simp add: publication_def)
  then have "moved_once h kind input publishing True u" by (rule moved_onceI [OF _ assms(2,3)])
  then show ?thesis unfolding chain_outcome_def Val by simp
next
  case (Err e)
  then have "unmoved h u \<or> moved h kind replace input False u" using assms(1) by (simp add: publication_def)
  then have "unmoved h u \<or> moved_once h kind input publishing False u" using moved_onceI [OF _ assms(2,3)] by blast
  then show ?thesis unfolding chain_outcome_def Err by simp
qed

lemma wp_conclude:
  assumes s: "was_seen h kind input publishing seen s" and c: "create \<Longrightarrow> publishing"
  shows "wp (if create then seq (publish_object ops kind input True empty_info) (\<lambda>_. ret [])
      else seq (resume seen) (\<lambda>(identity, bytes).
        if publishing \<and> kind = 1 then seq (publish_object ops kind input False identity) (\<lambda>_. ret bytes) else ret bytes))
    (chain_outcome h kind input publishing) s"
proof -
  have u: "unmoved h s" using s by (simp add: was_seen_def)
  have pub: "wp (seq (publish_object ops kind input cr i) (\<lambda>_. ret x)) (chain_outcome h kind input publishing) s"
    if publishing "\<not> cr \<longrightarrow> kind = 1" for cr i x
    unfolding wp_seq
  proof (rule wp_mono [OF wp_publish_object [OF u]])
    fix r v assume r: "publication h kind (\<not> cr) input r v"
    show "case r of Val _ \<Rightarrow> wp (ret x) (chain_outcome h kind input publishing) v
      | Err e \<Rightarrow> chain_outcome h kind input publishing (Err e) v"
      using published [OF r that] by (cases r) (simp_all add: wp_ret)
  qed
  show ?thesis
  proof (cases create)
    case True
    then show ?thesis using pub [of True empty_info "[]"] c by simp
  next
    case False
    show ?thesis
    proof (cases seen)
      case (Val x)
      obtain identity bytes where x: "x = (identity, bytes)" by (cases x)
      have e: "examined h kind input publishing bytes s" using s Val x by (simp add: was_seen_def)
      have "chain_outcome h kind input publishing (Val bytes) s" if "publishing \<longrightarrow> kind \<noteq> 1"
        using that e u by (simp add: chain_outcome_def)
      then show ?thesis
        using False Val x pub [of False identity bytes] by (auto simp: wp_seq [of "resume _"] wp_resume wp_ret)
    qed (use False u in \<open>simp add: wp_simps chain_outcome_def\<close>)
  qed
qed

lemma wp_chain:
  assumes s: "unmoved h s"
  shows "wp (discovery_chain ops kind input publishing) (chain_outcome h kind input publishing) s"
proof -
  let ?Q = "chain_outcome h kind input publishing"
  have out: "?Q (Err e) u" if "unmoved h u" for e u using that by (simp add: chain_outcome_def)
  have last: "wp (seq (discovery_directory ops) (\<lambda>_. ret x)) ?Q u" if "?Q (Val x) u" for x u
    by (rule wp_seq_pres [OF pres_chain_outcome [OF pres_dlog(6)] that])
      (simp_all add: wp_ret chain_outcome_error)
  have next_directory: "wp (seq m (\<lambda>bytes. seq (discovery_directory ops) (\<lambda>_. ret bytes))) ?Q u" if "wp m ?Q u" for m u
    unfolding wp_seq [of m] by (rule wp_mono [OF that]) (auto split: res.splits intro: last)
  show ?thesis
    unfolding discovery_chain_def Let_def
    apply (rule wp_bind_res [where J = "unmoved h", OF wp_caught])
      apply (rule wp_pres [OF pres_published(1) s], rule pres_intros)
     apply (rule wp_seq_pres [OF pres_gets], assumption, erule out)
     apply (rule wp_val_err [OF wp_seen], assumption)
      apply (rule wp_seq_pres [OF pres_was_seen], rule pres_intros, assumption)
       apply (rule out, simp add: was_seen_def)
      apply (rule next_directory, rule wp_conclude)
       apply (simp add: was_seen_def)
      apply simp
     apply (erule out)+
    done
qed

text \<open>Once a rename was entered the operation ends well or with \<open>COMMIT_UNKNOWN\<close>.\<close>

definition operation_outcome :: "event list \<Rightarrow> u32 \<Rightarrow> u8 list \<Rightarrow> bool \<Rightarrow> u8 list res \<Rightarrow> discovery_run \<Rightarrow> bool" where
  "operation_outcome h kind input publishing r u \<longleftrightarrow>
     chain_outcome h kind input publishing r u \<and>
     (renaming_entered u \<longrightarrow> (\<exists>b. r = Val b) \<or> r = Err (Status COMMIT_UNKNOWN))"

lemma wp_discovery_finish:
  assumes s: "chain_outcome h kind input publishing r s"
  shows "wp (discovery_finish ops r) (operation_outcome h kind input publishing) s"
proof -
  let ?I = "chain_outcome h kind input publishing r"
  have denied: "chain_outcome h kind input publishing x (u\<lparr>cur := l\<rparr>) \<longleftrightarrow> chain_outcome h kind input publishing x u" for x l u
    by (simp add: chain_outcome_def moved_once_def unmoved_def examined_def moved_def dlog_def)
  have tail: "wp (seq (gets renaming_entered) (\<lambda>entered.
       case if ok then r else Err (Status UNAVAILABLE) of
         Val bytes \<Rightarrow> ret bytes
       | Err e \<Rightarrow> if entered then seq (upd (\<lambda>l. l\<lparr>l_denied := True\<rparr>)) (\<lambda>_. err (Status COMMIT_UNKNOWN)) else err e))
      (operation_outcome h kind input publishing) u" if u: "?I u" for ok u
  proof -
    have v: "chain_outcome h kind input publishing (if ok then r else Err (Status UNAVAILABLE)) u"
      using u chain_outcome_error [of h kind input publishing _ u "Status UNAVAILABLE"]
      by (cases r; cases ok) (simp_all add: chain_outcome_def)
    show ?thesis
    proof (cases "if ok then r else Err (Status UNAVAILABLE)")
      case (Val b)
      then show ?thesis using v by (simp add: wp_simps operation_outcome_def)
    next
      case (Err e)
      have "chain_outcome h kind input publishing (Err f :: u8 list res) u" for f
        using v unfolding Err chain_outcome_def by simp
      then show ?thesis unfolding Err by (simp add: wp_simps operation_outcome_def denied)
    qed
  qed
  have temporary: "pres ?I (close_local_temporary ops)"
    unfolding chain_outcome_def [abs_def] moved_once_def examined_def by (intro pres_composed pres_closed pres_dlog_steps(4))
  have never: "wp (close_local ops g c) (\<lambda>r u. \<exists>ok. r = Val ok) u" for g c u
    by (simp add: close_local_def wp_simps) blast
  have total: "wp m (\<lambda>r u. case r of Val _ \<Rightarrow> ?I u | Err _ \<Rightarrow> False) u"
    if "pres ?I m" "?I u" "\<exists>g c. m = close_local ops g c" for m u
  proof -
    have "wp m (\<lambda>r u. \<exists>ok. r = Val ok) u" using never that(3) by auto
    then have "wp m (\<lambda>r u. (\<exists>ok. r = Val ok) \<and> ?I u) u"
      unfolding wp_conj using wp_pres [OF that(1,2)] by blast
    then show ?thesis by (rule wp_mono) auto
  qed
  show ?thesis
    unfolding discovery_finish_def Let_def
    apply (rule wp_val_err [OF total [OF pres_chain_outcome [OF pres_dlog_steps(3)] s]])
      apply (auto simp: close_local_observed_def) [1]
     apply (rule wp_val_err [OF total [OF pres_chain_outcome [OF pres_dlog_steps(2)]]], assumption)
       apply (auto simp: close_local_file_def) [1]
      apply (rule wp_val_err [OF total [OF temporary]], assumption)
        apply (auto simp: close_local_temporary_def) [1]
       apply (erule tail)
      apply simp_all
    done
qed

lemma discovery_operation_cases:
  assumes run: "discovery_operation ops owner kind input publishing s = (st, bytes, s')"
  obtains (refused) "s' = s" "st \<noteq> OK"
  | (ran) i x r where "find_owner owner s = Some i"
      "discovery_transaction ops kind input publishing (enter_discovery i s) = (x, r)" "s' = leave i r s"
      "st = (case x of Val _ \<Rightarrow> OK | Err e \<Rightarrow> settle (Err e :: unit res))" "x = Val bytes \<or> bytes = [] \<and> (\<exists>e. x = Err e)"
proof (cases "find_owner owner s")
  case None
  then show ?thesis using run by (intro refused) (auto simp: discovery_operation_def)
next
  case (Some i)
  obtain x r where x: "discovery_transaction ops kind input publishing (enter_discovery i s) = (x, r)" by fastforce
  show ?thesis
  proof (cases "publishing \<and> l_role (owner_at s i) \<noteq> ROLE_APP \<or> l_ticket (owner_at s i) \<noteq> 0")
    case True
    then show ?thesis using run Some by (intro refused) (auto simp: discovery_operation_def split: if_splits)
  next
    case False
    then show ?thesis using run Some x by (intro ran [OF Some x]) (auto simp: discovery_operation_def split: res.splits)
  qed
qed

lemma operation_wp:
  "wp (discovery_transaction ops kind input publishing) (operation_outcome (o_hist s) kind input publishing) (enter_discovery i s)"
proof -
  have "unmoved (o_hist s) (enter_discovery i s)" by (simp add: unmoved_def dlog_def enter_discovery_def)
  from wp_chain [OF this] show ?thesis
    unfolding discovery_transaction_def wp_seq [of "attempt _"] wp_attempt res.case
    by (rule wp_mono) (rule wp_discovery_finish)
qed

text \<open>A transaction fails with a failing status.\<close>

lemma proper_caught:
  assumes m: "proper m" and f: "\<And>r. r \<noteq> Err (Status OK) \<Longrightarrow> proper (f r)"
  shows "proper (seq (caught m) f)"
proof -
  have eq: "seq (caught m) f = seq (attempt m) (\<lambda>r.
      seq (case r of Val x \<Rightarrow> ret (Val x) | Err e \<Rightarrow> if is_exception e then err e else ret (Err e)) f)"
    by (rule ext) (simp add: caught_def seq_def split: prod.splits res.splits)
  have each: "proper (seq (case r of Val x \<Rightarrow> ret (Val x) | Err e \<Rightarrow> if is_exception e then err e else ret (Err e)) f)"
    if r: "r \<noteq> Err (Status OK)" for r
  proof (cases r)
    case (Val x)
    have "seq (ret (Val x)) f = f (Val x)" by (rule ext) (simp add: seq_def ret_def)
    then show ?thesis using Val f by simp
  next
    case (Err e)
    have "seq (ret (Err e)) f = f (Err e)" "seq (err e) f = err e" by (rule ext, simp add: seq_def ret_def err_def)+
    then show ?thesis using Err r f [of "Err e"] by (auto intro: proper_err)
  qed
  show ?thesis unfolding eq by (rule proper_attempt [OF m each])
qed

lemma proper_resume: "r \<noteq> Err (Status OK) \<Longrightarrow> proper (resume r)"
  by (cases r) (auto simp: resume_def intro: proper_ret proper_err)

lemma proper_discovery_steps [proper_intros]:
  "proper (discovery_directory ops)" "proper (open_discovery ops kind k)" "proper (inspect_local ops h sid)"
  "proper (close_local ops g c)"
proof -
  have "proper (pin_discovery ops sid)" "proper (inspect_discovery ops sid)" for sid
    unfolding pin_discovery_def pin_directory_def inspect_discovery_def
    by (intro proper_intros; auto intro!: proper_intros)+
  then show "proper (discovery_directory ops)"
    unfolding discovery_directory_def deny_failure_def
    by (intro proper_seq proper_intros proper_attempt) (auto intro!: proper_intros proper_err split: res.splits)
  show "proper (open_discovery ops kind k)" "proper (inspect_local ops h sid)" "proper (close_local ops g c)"
    unfolding open_discovery_def inspect_local_def close_local_def
    by (intro proper_intros; auto intro!: proper_intros)+
qed

lemma proper_discovery_parts [proper_intros]:
  "proper (find_object ops kind)" "proper (examine ops kind input publishing sid)"
  "proper (recheck_name ops kind create identity sid)" "proper (confirm_object ops kind temp sid)"
  "proper (rename_object ops kind replace staged)" "proper (close_local_file ops)" "proper (close_local_temporary ops)"
  "proper (close_local_observed ops)"
proof -
  show "proper (recheck_name ops kind create identity sid)"
    unfolding recheck_name_def by (rule proper_seq, rule proper_intros, rule proper_if, rule proper_seq, rule proper_raise)
      (intro proper_intros; simp)+
  show "proper (find_object ops kind)" "proper (examine ops kind input publishing sid)"
    "proper (confirm_object ops kind temp sid)" "proper (rename_object ops kind replace staged)"
    unfolding find_object_def examine_def confirm_object_def rename_object_def by (intro proper_intros; simp)+
  show "proper (close_local_file ops)" "proper (close_local_temporary ops)" "proper (close_local_observed ops)"
    unfolding close_local_file_def close_local_temporary_def close_local_observed_def by (intro proper_intros)+
qed

lemma proper_stage [proper_intros]: "proper (stage_object ops kind input create identity)"
  unfolding stage_object_def by (intro proper_intros; simp)

lemma proper_publish [proper_intros]: "proper (publish_object ops kind input create identity)"
  unfolding publish_object_def
  apply (rule proper_caught, rule proper_stage)
  apply (rule proper_seq, rule proper_intros, rule proper_seq, intro proper_if proper_intros)
  apply (rule proper_caught, rule proper_seq, rule proper_resume, simp, rule proper_intros)
  apply (rule proper_seq, rule proper_intros, rule proper_seq, rule proper_resume, simp)
  apply (auto intro!: proper_intros split: prod.splits)
  done

lemma proper_discovery_chain: "proper (discovery_chain ops kind input publishing)"
proof -
  have conclude: "proper (if c then seq (publish_object ops kind input True i) (\<lambda>_. ret [])
      else seq (resume seen) (\<lambda>(identity, bytes).
        if d then seq (publish_object ops kind input False identity) (\<lambda>_. ret bytes) else ret bytes))"
    if "seen \<noteq> Err (Status OK)" for c d i seen
    using that by (auto intro!: proper_intros proper_resume split: prod.splits)
  show ?thesis
    unfolding discovery_chain_def Let_def
    apply (rule proper_caught, rule proper_intros)
    apply (rule proper_seq, rule proper_gets)
    apply (rule proper_caught, rule proper_seq, rule proper_resume, simp, rule proper_intros)
    apply (rule proper_seq, rule proper_intros, rule proper_seq, rule conclude, simp)
    apply (rule proper_intros)+
    done
qed

lemma proper_discovery_transaction: "proper (discovery_transaction ops kind input publishing)"
  unfolding discovery_transaction_def discovery_finish_def Let_def
  by (rule proper_attempt, rule proper_discovery_chain, intro proper_intros)
    (auto intro!: proper_intros proper_err split: res.splits)

section \<open>Properties\<close>

text \<open>
  Claim C17. A discovery operation renames at most once, and only to publish: a temporary the
  input was written to, over an existing object only for the endpoint.  Once a rename was
  entered the answer is \<open>OK\<close>, with the rename confirmed, or \<open>COMMIT_UNKNOWN\<close>.  Without a rename a
  success means that the object was read in full, and for a publication that it already holds
  the input and is not the endpoint.
\<close>

theorem discovery_reports_rename:
  assumes "discovery_operation ops owner kind input publishing s = (st, bytes, s')"
  shows "\<exists>es. o_hist s' = o_hist s @ es \<and>
    (if renames es = []
     then st = OK \<longrightarrow> (\<exists>f a. (Exchange_read f (discovery_cap kind), a) \<in> set es \<and> outcome a = Status OK \<and>
       a_bytes a = bytes \<and> bytes \<noteq> [] \<and> length bytes \<le> discovery_cap kind \<and> (publishing \<longrightarrow> kind \<noteq> 1 \<and> bytes = input))
     else publishing \<and> (\<exists>k d replace a w. renames es = [(Discovery_replace k d kind replace, a)] \<and> (replace \<longrightarrow> kind = 1) \<and>
       (Write_file k input, w) \<in> set es \<and> outcome w = Status OK \<and>
       (st = OK \<and> outcome a = Status OK \<or> st = COMMIT_UNKNOWN)))"
  using assms
proof (cases rule: discovery_operation_cases)
  case refused
  then show ?thesis by (intro exI [of _ "[]"]) simp
next
  case (ran i x r)
  from wp_run [OF operation_wp ran(2)] have out: "operation_outcome (o_hist s) kind input publishing x r" .
  have hist: "o_hist s' = hist r" by (simp add: ran(3) leave_def)
  from out consider (quiet) "unmoved (o_hist s) r" "\<forall>b. x = Val b \<longrightarrow> examined (o_hist s) kind input publishing b r \<and> (publishing \<longrightarrow> kind \<noteq> 1)"
    | (once) "moved_once (o_hist s) kind input publishing (\<exists>b. x = Val b) r"
    unfolding operation_outcome_def chain_outcome_def by blast
  then show ?thesis
  proof cases
    case quiet
    show ?thesis
    proof (cases x)
      case (Val b)
      then have "examined (o_hist s) kind input publishing bytes r" "publishing \<longrightarrow> kind \<noteq> 1" using quiet ran(5) by auto
      then show ?thesis unfolding examined_def dlog_def hist by fastforce
    next
      case (Err e)
      then have "st \<noteq> OK"
        using ran(2,4) settle_proper [OF proper_discovery_transaction] proper_discovery_transaction [unfolded proper_def]
        by (cases e) (auto, metis fst_conv)
      then show ?thesis using quiet(1) unfolding unmoved_def dlog_def hist by auto
    qed
  next
    case once
    then obtain replace k d a w es where m: "publishing" "replace \<longrightarrow> kind = 1" "hist r = o_hist s @ es"
      "renames es = [(Discovery_replace k d kind replace, a)]" "renaming_entered r" "(Write_file k input, w) \<in> set es"
      "outcome w = Status OK" "(\<exists>b. x = Val b) \<longrightarrow> outcome a = Status OK"
      unfolding moved_once_def moved_def dlog_def insert_subset by blast
    then have "st = OK \<and> outcome a = Status OK \<or> st = COMMIT_UNKNOWN"
      using out ran(4) by (auto simp: operation_outcome_def)
    then show ?thesis using m hist by auto
  qed
qed

text \<open>A read by the Bridge of an endpoint that was renamed into place before.\<close>

definition sample_found :: objects where
  "sample_found = (sample_objects (sample_lease\<lparr>l_discovery := sample_pin\<rparr>))
     \<lparr>o_hist := [(Discovery_replace 9 1 1 False, sample_answer)]\<rparr>"

definition sample_discovery :: "status \<times> u8 list \<times> objects" where
  "sample_discovery = discovery_operation sample_ops 1 1 [] False sample_found"

lemma sample_discovery_ok:
  "fst sample_discovery = OK"
  by code_simp

theorem discovery_reports_rename_witness:
  "\<exists>es f a. o_hist (snd (snd sample_discovery)) = o_hist sample_found @ es \<and> renames es = [] \<and>
     (Exchange_read f 185, a) \<in> set es \<and> a_bytes a = fst (snd sample_discovery) \<and> a_bytes a \<noteq> []"
proof -
  obtain st bytes s' where run: "discovery_operation sample_ops 1 1 [] False sample_found = (st, bytes, s')"
    using prod_cases3 by blast
  have "discovery_cap 1 = 185" by (simp add: discovery_cap_def)
  then show ?thesis
    using discovery_reports_rename [OF run] sample_discovery_ok
    by (fastforce simp: sample_discovery_def run split: if_splits)
qed

end
