(* ===== verification/Directory_Listing.thy ===== *)
theory Directory_Listing
  imports Native_Prelude
begin

text \<open>
  The directory listings of \<open>protected_windows.cpp\<close>: the chained \<open>FILE_ID_BOTH_DIR_INFO\<close>
  records of one 64 KiB buffer, as \<open>exchange_count\<close> and \<open>temporary_count\<close> walk them.  The walk
  checks every offset before it reads; the lemmas show that it ends, and that on a well-formed
  listing it counts exactly the entries it means to count.
\<close>

section \<open>The record layout\<close>

text \<open>\<open>NextEntryOffset\<close> at 0, \<open>FileNameLength\<close> at 60, \<open>FileName\<close> at 104; records are 8-aligned.\<close>

type_synonym buffer = "nat \<Rightarrow> u8"

definition buffer_size :: nat where "buffer_size = 65536"
definition name_offset :: nat where "name_offset = 104"

text \<open>The buffer is wiped before the call, which writes from its start.\<close>

definition page :: "u8 list \<Rightarrow> buffer" where
  "page bs i = (if i < length bs then bs ! i else 0)"

definition u32_at :: "buffer \<Rightarrow> nat \<Rightarrow> nat" where
  "u32_at b i = unat (b i) + 2 ^ 8 * unat (b (i + 1)) + 2 ^ 16 * unat (b (i + 2)) + 2 ^ 24 * unat (b (i + 3))"

definition wchar_at :: "buffer \<Rightarrow> nat \<Rightarrow> wchar" where
  "wchar_at b i = of_nat (unat (b i) + 2 ^ 8 * unat (b (i + 1)))"

definition next_entry :: "buffer \<Rightarrow> nat \<Rightarrow> nat" where
  "next_entry b off = u32_at b off"

definition entry_name_length :: "buffer \<Rightarrow> nat \<Rightarrow> nat" where
  "entry_name_length b off = u32_at b (off + 60)"

definition entry_name :: "buffer \<Rightarrow> nat \<Rightarrow> wstring" where
  "entry_name b off = map (\<lambda>i. wchar_at b (off + name_offset + 2 * i)) [0 ..< entry_name_length b off div 2]"

text \<open>The checks before a record's name and its successor are used.\<close>

definition entry_fits :: "buffer \<Rightarrow> nat \<Rightarrow> bool" where
  "entry_fits b off \<longleftrightarrow> off \<le> buffer_size - name_offset \<and> entry_name_length b off mod 2 = 0 \<and>
     entry_name_length b off \<le> buffer_size - off - name_offset"

definition next_fits :: "buffer \<Rightarrow> nat \<Rightarrow> bool" where
  "next_fits b off \<longleftrightarrow> name_offset \<le> next_entry b off \<and> next_entry b off mod 8 = 0 \<and>
     next_entry b off \<le> buffer_size - off - name_offset"

section \<open>The two walks\<close>

text \<open>A walk finds the buffer malformed, stops early, or reaches the end of the page.\<close>

datatype walk = Malformed | Enough nat | Too_many | Page_end nat nat

definition listed :: "wstring \<Rightarrow> bool" where
  "listed name \<longleftrightarrow> name \<noteq> wide ''.'' \<and> name \<noteq> wide ''..''"

text \<open>\<open>exchange_count\<close>: everything but the two dot entries counts, up to the 33rd.\<close>

function exchange_walk :: "buffer \<Rightarrow> nat \<Rightarrow> nat \<Rightarrow> walk" where
  "exchange_walk b off count =
     (if \<not> entry_fits b off then Malformed
      else let count' = (if listed (entry_name b off) then count + 1 else count) in
        if listed (entry_name b off) \<and> count' > 32 then Enough count'
        else if next_entry b off = 0 then Page_end count' 0
        else if \<not> next_fits b off then Malformed
        else exchange_walk b (off + next_entry b off) count')"
  by pat_completeness auto
termination
  by (relation "measure (\<lambda>(b, off, c). buffer_size - off)")
    (auto simp: entry_fits_def next_fits_def name_offset_def buffer_size_def)

definition is_temporary :: "wstring \<Rightarrow> bool" where
  "is_temporary name \<longleftrightarrow> take 5 name = wide ''~tmp-''"

text \<open>\<open>temporary_count\<close>: temporaries count up to the 32nd, and at most 4096 entries are walked.\<close>

function temporary_walk :: "buffer \<Rightarrow> nat \<Rightarrow> nat \<Rightarrow> nat \<Rightarrow> walk" where
  "temporary_walk b off count entries =
     (if entries + 1 > 4096 then Too_many
      else if \<not> entry_fits b off then Malformed
      else let count' = (if is_temporary (entry_name b off) then count + 1 else count) in
        if is_temporary (entry_name b off) \<and> count' \<ge> 32 then Enough count'
        else if next_entry b off = 0 then Page_end count' (entries + 1)
        else if \<not> next_fits b off then Malformed
        else temporary_walk b (off + next_entry b off) count' (entries + 1))"
  by pat_completeness auto
termination
  by (relation "measure (\<lambda>(b, off, c, e). buffer_size - off)")
    (auto simp: entry_fits_def next_fits_def name_offset_def buffer_size_def)

declare exchange_walk.simps [simp del] temporary_walk.simps [simp del]

section \<open>Well-formed listings\<close>

text \<open>The reference: the bytes of a list of names, each record but the last padded to 8 bytes.\<close>

definition le4 :: "nat \<Rightarrow> u8 list" where
  "le4 n = [of_nat n, of_nat (n div 2 ^ 8), of_nat (n div 2 ^ 16), of_nat (n div 2 ^ 24)]"

definition name_bytes :: "wstring \<Rightarrow> u8 list" where
  "name_bytes us = concat (map (\<lambda>u. [of_nat (unat u), of_nat (unat u div 2 ^ 8)]) us)"

definition record_bytes :: "nat \<Rightarrow> wstring \<Rightarrow> u8 list" where
  "record_bytes link name =
     le4 link @ replicate 56 0 @ le4 (2 * length name) @ replicate 40 0 @ name_bytes name"

definition record_size :: "wstring \<Rightarrow> nat" where
  "record_size name = 8 * ((name_offset + 2 * length name + 7) div 8)"

fun listing :: "wstring list \<Rightarrow> u8 list" where
  "listing [] = []"
| "listing [name] = record_bytes 0 name"
| "listing (name # names) =
     record_bytes (record_size name) name @
     replicate (record_size name - (name_offset + 2 * length name)) 0 @ listing names"

lemma name_bytes_length [simp]: "length (name_bytes us) = 2 * length us"
  by (induction us) (simp_all add: name_bytes_def)

lemma le4_length [simp]: "length (le4 n) = 4"
  by (simp add: le4_def)

lemma record_bytes_length [simp]: "length (record_bytes link name) = name_offset + 2 * length name"
  by (simp add: record_bytes_def name_offset_def)

lemma record_size_ge: "name_offset + 2 * length name \<le> record_size name" "record_size name mod 8 = 0"
  "name_offset \<le> record_size name"
  by (simp_all add: record_size_def name_offset_def)

text \<open>\<open>b\<close> shows the bytes \<open>bs\<close> at \<open>off\<close>.\<close>

definition shows_at :: "buffer \<Rightarrow> nat \<Rightarrow> u8 list \<Rightarrow> bool" where
  "shows_at b off bs \<longleftrightarrow> (\<forall>i < length bs. b (off + i) = bs ! i)"

lemma shows_append: "shows_at b off (xs @ ys) \<longleftrightarrow> shows_at b off xs \<and> shows_at b (off + length xs) ys"
proof
  assume a: "shows_at b off (xs @ ys)"
  have "b (off + length xs + i) = ys ! i" if "i < length ys" for i
    using a [unfolded shows_at_def, rule_format, of "length xs + i"] that by (simp add: add.assoc)
  moreover have "b (off + i) = xs ! i" if "i < length xs" for i
    using a [unfolded shows_at_def, rule_format, of i] that by (simp add: nth_append)
  ultimately show "shows_at b off xs \<and> shows_at b (off + length xs) ys" by (simp add: shows_at_def)
next
  assume a: "shows_at b off xs \<and> shows_at b (off + length xs) ys"
  have "b (off + i) = (xs @ ys) ! i" if "i < length (xs @ ys)" for i
  proof (cases "i < length xs")
    case False
    then have "i - length xs < length ys" "off + length xs + (i - length xs) = off + i" using that by auto
    with a have "b (off + i) = ys ! (i - length xs)" unfolding shows_at_def by metis
    then show ?thesis using False by (simp add: nth_append)
  qed (use a in \<open>simp add: shows_at_def nth_append\<close>)
  then show "shows_at b off (xs @ ys)" by (simp add: shows_at_def)
qed

lemma digits_sum:
  fixes n :: nat
  assumes "256 * q1 + r0 = n" "256 * q2 + r1 = q1" "256 * q3 + r2 = q2"
  shows "r0 + 256 * r1 + 65536 * r2 + 16777216 * q3 = n"
  using assms by linarith

lemma byte_digits:
  "n mod 256 + 256 * (n div 256 mod 256) + 65536 * (n div 65536 mod 256) + 16777216 * (n div 16777216) = (n :: nat)"
proof -
  have div: "n div 65536 = n div 256 div 256" "n div 16777216 = n div 256 div 256 div 256"
    by (simp_all add: div_mult2_eq [symmetric])
  show ?thesis
    unfolding div by (rule digits_sum) (rule mult_div_mod_eq)+
qed

lemma u32_at_le4:
  assumes "shows_at b off (le4 n)" and "n < 2 ^ 32"
  shows "u32_at b off = n"
proof -
  have digits: "b off = of_nat n" "b (off + 1) = of_nat (n div 256)" "b (off + 2) = of_nat (n div 65536)"
    "b (off + 3) = of_nat (n div 16777216)"
    using assms(1) [unfolded shows_at_def, rule_format, of 0] assms(1) [unfolded shows_at_def, rule_format, of 1]
      assms(1) [unfolded shows_at_def, rule_format, of 2] assms(1) [unfolded shows_at_def, rule_format, of 3]
    by (simp_all add: le4_def)
  have "n div 16777216 mod 256 = n div 16777216"
    using assms(2) by (intro mod_less) (simp add: less_mult_imp_div_less)
  then show ?thesis
    unfolding u32_at_def digits unat_of_nat using byte_digits [of n] by simp
qed

lemma word_digits: "of_nat (unat (of_nat (unat u) :: u8) + 256 * unat (of_nat (unat u div 256) :: u8)) = (u :: wchar)"
proof -
  have "unat u < 2 ^ 16" using unsigned_less [of u] by simp
  then have "unat u div 256 < 256" by (simp add: less_mult_imp_div_less)
  moreover have "unat u mod 256 + 256 * (unat u div 256) = unat u" by simp
  ultimately have "unat (of_nat (unat u) :: u8) + 256 * unat (of_nat (unat u div 256) :: u8) = unat u"
    unfolding unat_of_nat by simp
  then show ?thesis by simp
qed

lemma wchar_at_name:
  assumes "shows_at b off (name_bytes us)" and "i < length us"
  shows "wchar_at b (off + 2 * i) = us ! i"
  using assms
proof (induction us arbitrary: off i)
  case (Cons u us)
  have split: "name_bytes (u # us) = [of_nat (unat u), of_nat (unat u div 256)] @ name_bytes us"
    by (simp add: name_bytes_def)
  have here: "b off = of_nat (unat u)" "b (off + 1) = of_nat (unat u div 256)" and rest: "shows_at b (off + 2) (name_bytes us)"
    using Cons.prems(1) [unfolded split shows_append] by (force simp: shows_at_def numeral_2_eq_2 less_Suc_eq)+
  show ?case
  proof (cases i)
    case 0
    then show ?thesis using here word_digits [of u] by (simp add: wchar_at_def)
  next
    case (Suc j)
    then show ?thesis using Cons.IH [OF rest, of j] Cons.prems(2) by simp
  qed
qed simp

text \<open>What the walk reads of a record.\<close>

lemma record_read:
  assumes b: "shows_at b off (record_bytes link name)" and "link < 2 ^ 32" "2 * length name < 2 ^ 32"
  shows "next_entry b off = link" "entry_name_length b off = 2 * length name" "entry_name b off = name"
proof -
  have parts: "shows_at b off (le4 link)" "shows_at b (off + 60) (le4 (2 * length name))" "shows_at b (off + 104) (name_bytes name)"
    using b by (simp_all add: record_bytes_def shows_append add.assoc)
  show "next_entry b off = link" unfolding next_entry_def by (rule u32_at_le4 [OF parts(1) assms(2)])
  show len: "entry_name_length b off = 2 * length name"
    unfolding entry_name_length_def by (rule u32_at_le4 [OF parts(2) assms(3)])
  show "entry_name b off = name"
    using wchar_at_name [OF parts(3)] by (intro nth_equalityI) (simp_all add: entry_name_def len name_offset_def add.assoc)
qed

lemma listing_record:
  assumes b: "shows_at b off (listing (name # names))" and fits: "off + length (listing (name # names)) \<le> buffer_size"
  shows "entry_fits b off" "entry_name b off = name" "next_entry b off = (if names = [] then 0 else record_size name)"
    "names \<noteq> [] \<Longrightarrow> next_fits b off \<and> record_size name \<noteq> 0 \<and> shows_at b (off + record_size name) (listing names) \<and>
      off + record_size name + length (listing names) \<le> buffer_size"
proof -
  let ?link = "if names = [] then 0 else record_size name"
  obtain rest where l: "listing (name # names) = record_bytes ?link name @ rest" by (cases names) auto
  have len: "off + name_offset + 2 * length name \<le> buffer_size" using fits by (simp add: l)
  then have small: "?link < 2 ^ 32" "2 * length name < 2 ^ 32"
    by (auto simp: buffer_size_def record_size_def name_offset_def)
  from b have shown: "shows_at b off (record_bytes ?link name)" by (simp add: l shows_append)
  note read = record_read [OF shown small]
  show "entry_name b off = name" "next_entry b off = ?link" by (rule read)+
  show "entry_fits b off" using len by (auto simp: entry_fits_def read)
  assume n: "names \<noteq> []"
  then obtain m ms where names: "names = m # ms" by (cases names) auto
  have at: "shows_at b (off + record_size name) (listing names)"
    using b record_size_ge(1) [of name] by (simp add: names shows_append add.assoc)
  have stop: "off + record_size name + length (listing names) \<le> buffer_size"
    using fits record_size_ge(1) [of name] by (simp add: names)
  have "name_offset \<le> length (listing names)" by (cases ms) (simp_all add: names)
  then have "next_fits b off" using n stop record_size_ge [of name] by (simp add: next_fits_def read)
  then show "next_fits b off \<and> record_size name \<noteq> 0 \<and> shows_at b (off + record_size name) (listing names) \<and>
      off + record_size name + length (listing names) \<le> buffer_size"
    using at stop record_size_ge(3) [of name] by (simp add: name_offset_def)
qed

lemma exchange_walk_listing:
  assumes "names \<noteq> []" "shows_at b off (listing names)" "off + length (listing names) \<le> buffer_size" "count \<le> 32"
  shows "exchange_walk b off count =
    (let n = count + length (filter listed names) in if n > 32 then Enough 33 else Page_end n 0)"
  using assms
proof (induction names arbitrary: off count)
  case (Cons name names)
  note r = listing_record [OF Cons.prems(2,3)]
  show ?case
  proof (cases "names = []")
    case True
    then show ?thesis using r Cons.prems(4) by (subst exchange_walk.simps) (auto simp: Let_def)
  next
    case False
    note more = r(4) [OF False]
    show ?thesis
      using r(1,2,3) more False Cons.prems(4) Cons.IH [of "off + record_size name"]
      by (subst exchange_walk.simps) (auto simp: Let_def)
  qed
qed simp

lemma temporary_walk_listing:
  assumes "names \<noteq> []" "shows_at b off (listing names)" "off + length (listing names) \<le> buffer_size" "count < 32"
    "entries + length names \<le> 4096"
  shows "temporary_walk b off count entries =
    (let n = count + length (filter is_temporary names) in if n \<ge> 32 then Enough 32 else Page_end n (entries + length names))"
  using assms
proof (induction names arbitrary: off count entries)
  case (Cons name names)
  note r = listing_record [OF Cons.prems(2,3)]
  show ?case
  proof (cases "names = []")
    case True
    then show ?thesis using r Cons.prems(4,5) by (subst temporary_walk.simps) (auto simp: Let_def)
  next
    case False
    note more = r(4) [OF False]
    show ?thesis
      using r(1,2,3) more False Cons.prems(4,5) Cons.IH [of "off + record_size name"]
      by (subst temporary_walk.simps) (auto simp: Let_def)
  qed
qed simp

lemma page_shows: "shows_at (page bs) 0 bs"
  by (simp add: shows_at_def page_def)

section \<open>Properties\<close>

text \<open>
  Claim C19.  On a well-formed page the walk of \<open>exchange_count\<close> counts exactly the entries that
  are not the two dot entries, of any name and kind, and stops with 33 when there are more
  than 32 of them.
\<close>

theorem exchange_walk_counts:
  assumes "names \<noteq> []" "length (listing names) \<le> buffer_size" "found \<le> 32"
  shows "exchange_walk (page (listing names)) 0 found =
    (let n = found + length (filter listed names) in if n > 32 then Enough 33 else Page_end n 0)"
  using exchange_walk_listing [OF assms(1) page_shows _ assms(3)] assms(2) by simp

theorem exchange_walk_counts_witness:
  "exchange_walk (page (listing [wide ''.'', wide ''..'', wide ''a.bin''])) 0 0 = Page_end 1 0"
  using exchange_walk_counts [of "[wide ''.'', wide ''..'', wide ''a.bin'']" 0]
  by (simp add: buffer_size_def record_size_def name_offset_def wide_def listed_def)

text \<open>
  The walk of \<open>temporary_count\<close> counts exactly the names that begin like a temporary,
  stops with 32 of them, and carries on the number of entries walked.
\<close>

theorem temporary_walk_counts:
  assumes "names \<noteq> []" "length (listing names) \<le> buffer_size" "found < 32" "entries + length names \<le> 4096"
  shows "temporary_walk (page (listing names)) 0 found entries =
    (let n = found + length (filter is_temporary names) in
     if n \<ge> 32 then Enough 32 else Page_end n (entries + length names))"
  using temporary_walk_listing [OF assms(1) page_shows _ assms(3,4)] assms(2) by simp

theorem temporary_walk_counts_witness:
  "temporary_walk (page (listing [wide ''.'', wide ''~tmp-0''])) 0 0 7 = Page_end 1 9"
  using temporary_walk_counts [of "[wide ''.'', wide ''~tmp-0'']" 0 7]
  by (simp add: buffer_size_def record_size_def name_offset_def wide_def is_temporary_def)

end
