(* ===== verification/Windows_Api.thy ===== *)
theory Windows_Api
  imports Object_Ops Directory_Listing
begin

text \<open>
  The system calls \<open>protected_windows.cpp\<close> makes, and \<open>open_native\<close>, through which it opens
  every file.  The system is a function from the calls made so far to the next answer.  What
  a call acquires and what releases it are read off the log, so that ownership is a statement
  about every sequence of answers.
\<close>

section \<open>Calls\<close>

record native_open =
  no_parent :: handle
  no_name :: wstring
  no_access :: u32
  no_attributes :: u32
  no_share :: u32
  no_disposition :: u32
  no_options :: u32
  no_security :: "(sid \<times> bool \<times> u32) option"

datatype wcall =
    Proc_address string
  | Nt_create_file native_open
  | Close_handle handle
  | Local_free u64
  | Open_process_token
  | Token_user handle "nat option"
  | Last_error
  | Is_valid_sid sid
  | Length_sid sid
  | Allocate nat
  | Build_security string sid bool u32
  | Get_file_type handle
  | File_information handle
  | Volume_information handle
  | Final_path handle
  | Drive_type_of wstring
  | Security_info handle bool
  | Is_valid_descriptor u64
  | Descriptor_dacl u64
  | Descriptor_control u64
  | Is_valid_acl
  | Get_ace
  | Equal_sid sid sid
  | Create_mutex wstring sid
  | Wait_single handle
  | Release_mutex handle
  | List_directory handle bool
  | File_name_info handle
  | File_size handle
  | Read_bytes handle nat
  | Gen_random nat
  | Set_disposition handle
  | Write_bytes handle "u8 list"
  | Flush_buffers handle
  | Set_rename handle rename_info

text \<open>An access control entry as it lies in memory, and what \<open>GetSecurityInfo\<close> points to.\<close>

record raw_ace =
  raw_type :: u8
  raw_flags :: u8
  raw_size :: nat
  raw_mask :: u32
  raw_sid :: sid

record wanswer =
  w_flag :: bool
  w_status :: u32
  w_io :: u32
  w_handle :: handle
  w_size :: nat
  w_int :: int
  w_bytes :: "u8 list"
  w_text :: wstring
  w_serial :: u32
  w_index_high :: u32
  w_index_low :: u32
  w_attributes :: u32
  w_links :: u32
  w_pointer :: u64
  w_owner :: "sid option"
  w_present :: bool
  w_dacl :: bool
  w_control :: u16
  w_ace_count :: nat
  w_ace :: "raw_ace option"

type_synonym wevent = "wcall \<times> wanswer"
type_synonym win_ops = "wevent list \<Rightarrow> wcall \<Rightarrow> wanswer"
type_synonym 'a wprog = "(wevent list, 'a) prog"

definition ask :: "win_ops \<Rightarrow> wcall \<Rightarrow> wanswer wprog" where
  "ask win c es = (let a = win es c in (Val a, es @ [(c, a)]))"

text \<open>A call whose \<open>FALSE\<close> ends the operation as unavailable, and a vector that is sized.\<close>

definition demand :: "win_ops \<Rightarrow> wcall \<Rightarrow> wanswer wprog" where
  "demand win c = seq (ask win c) (\<lambda>a. seq (require (w_flag a) UNAVAILABLE) (\<lambda>_. ret a))"

definition allocate :: "win_ops \<Rightarrow> nat \<Rightarrow> unit wprog" where
  "allocate win n = seq (ask win (Allocate n)) (\<lambda>a. if w_flag a then ret () else err BadAlloc)"

text \<open>An owner's destructor runs after its scope, however the scope is left.\<close>

definition scoped :: "win_ops \<Rightarrow> wcall option \<Rightarrow> 'a wprog \<Rightarrow> 'a wprog" where
  "scoped win release m =
     seq (attempt m) (\<lambda>r.
     seq (case release of None \<Rightarrow> ret () | Some c \<Rightarrow> seq (ask win c) (\<lambda>_. ret ())) (\<lambda>_. resume r))"

text \<open>\<open>WinHandle\<close> and \<open>LocalAllocation\<close>.\<close>

definition win_handle :: "handle \<Rightarrow> wcall option" where
  "win_handle h = (if usable h then Some (Close_handle h) else None)"

definition local_allocation :: "u64 \<Rightarrow> wcall option" where
  "local_allocation p = (if p \<noteq> 0 then Some (Local_free p) else None)"

section \<open>Opening a file\<close>

definition FILE_OPEN :: u32 where "FILE_OPEN = 1"
definition FILE_CREATE :: u32 where "FILE_CREATE = 2"
definition FILE_OPEN_IF :: u32 where "FILE_OPEN_IF = 3"
definition FILE_OPENED :: u32 where "FILE_OPENED = 1"
definition FILE_CREATED :: u32 where "FILE_CREATED = 2"
definition FILE_DIRECTORY_FILE :: u32 where "FILE_DIRECTORY_FILE = 1"
definition FILE_SYNCHRONOUS_IO_NONALERT :: u32 where "FILE_SYNCHRONOUS_IO_NONALERT = 0x20"
definition FILE_NON_DIRECTORY_FILE :: u32 where "FILE_NON_DIRECTORY_FILE = 0x40"
definition FILE_OPEN_REPARSE_POINT :: u32 where "FILE_OPEN_REPARSE_POINT = 0x200000"
definition FILE_LIST_DIRECTORY :: u32 where "FILE_LIST_DIRECTORY = 1"
definition FILE_TRAVERSE :: u32 where "FILE_TRAVERSE = 0x20"
definition OBJ_CASE_INSENSITIVE :: u32 where "OBJ_CASE_INSENSITIVE = 0x40"
definition OBJ_DONT_REPARSE :: u32 where "OBJ_DONT_REPARSE = 0x1000"
definition name_collision :: u32 where "name_collision = 0xC0000035"
definition name_not_found :: u32 where "name_not_found = 0xC0000034"
definition invalid_parameter :: u32 where "invalid_parameter = 0xC000000D"

definition native_options :: "bool \<Rightarrow> bool \<Rightarrow> u32" where
  "native_options directory_create exclusive =
     (FILE_SYNCHRONOUS_IO_NONALERT OR (if directory_create then FILE_DIRECTORY_FILE else FILE_OPEN_REPARSE_POINT)) OR
     (if exclusive then FILE_NON_DIRECTORY_FILE else 0)"

definition native_access :: "u32 \<Rightarrow> bool \<Rightarrow> u32" where
  "native_access file_access exclusive =
     (if file_access \<noteq> 0 then file_access
      else READ_CONTROL OR FILE_READ_ATTRIBUTES OR SYNCHRONIZE OR
        (if exclusive then FILE_READ_DATA OR FILE_WRITE_DATA else FILE_LIST_DIRECTORY OR FILE_TRAVERSE))"

definition native_share :: "u32 option \<Rightarrow> bool \<Rightarrow> u32" where
  "native_share file_share exclusive =
     (case file_share of Some s \<Rightarrow> s | None \<Rightarrow> if exclusive then 0 else SHARE_READ OR SHARE_WRITE)"

text \<open>Success must come with a usable handle and the result that fits the disposition.\<close>

definition expected_result :: "u32 \<Rightarrow> u32 \<Rightarrow> bool" where
  "expected_result disposition io \<longleftrightarrow>
     disposition = FILE_CREATE \<and> io = FILE_CREATED \<or> disposition = FILE_OPEN \<and> io = FILE_OPENED \<or>
     disposition = FILE_OPEN_IF \<and> (io = FILE_CREATED \<or> io = FILE_OPENED)"

definition native_opened :: "u32 \<Rightarrow> wanswer \<Rightarrow> bool" where
  "native_opened disposition a \<longleftrightarrow>
     w_status a = 0 \<and> usable (w_handle a) \<and> expected_result disposition (w_io a)"

text \<open>The status and the handle, null unless the status is 0.\<close>

definition open_native ::
  "win_ops \<Rightarrow> handle \<Rightarrow> wstring \<Rightarrow> bool \<Rightarrow> bool \<Rightarrow> u32 \<Rightarrow> (sid \<times> bool \<times> u32) option \<Rightarrow> u32 \<Rightarrow> u32 option \<Rightarrow>
   (u32 \<times> handle) wprog" where
  "open_native win parent name directory_create exclusive disposition security file_access file_share =
     seq (ask win (Proc_address ''NtCreateFile'')) (\<lambda>create.
     if \<not> w_flag create \<or> name = [] \<or> length name > 32766 then ret (invalid_parameter, 0)
     else
       seq (ask win (Nt_create_file
         \<lparr>no_parent = parent, no_name = name, no_access = native_access file_access exclusive,
          no_attributes = OBJ_CASE_INSENSITIVE OR OBJ_DONT_REPARSE, no_share = native_share file_share exclusive,
          no_disposition = disposition, no_options = native_options directory_create exclusive,
          no_security = security\<rparr>)) (\<lambda>a.
       if native_opened disposition a then ret (0, w_handle a)
       else scoped win (win_handle (w_handle a))
         (ret (if w_status a = 0 then invalid_parameter else w_status a, 0))))"

section \<open>Ownership\<close>

datatype resource = Kernel handle | Memory u64

fun acquires :: "wevent \<Rightarrow> resource multiset" where
  "acquires (Nt_create_file n, a) = (if usable (w_handle a) then {#Kernel (w_handle a)#} else {#})"
| "acquires (Open_process_token, a) = (if usable (w_handle a) then {#Kernel (w_handle a)#} else {#})"
| "acquires (Create_mutex n s, a) = (if usable (w_handle a) then {#Kernel (w_handle a)#} else {#})"
| "acquires (Security_info h b, a) = (if w_pointer a \<noteq> 0 then {#Memory (w_pointer a)#} else {#})"
| "acquires _ = {#}"

fun disposes :: "wevent \<Rightarrow> resource multiset" where
  "disposes (Close_handle h, a) = {#Kernel h#}"
| "disposes (Local_free p, a) = {#Memory p#}"
| "disposes _ = {#}"

definition all_acquired :: "wevent list \<Rightarrow> resource multiset" where
  "all_acquired es = sum_list (map acquires es)"

definition all_disposed :: "wevent list \<Rightarrow> resource multiset" where
  "all_disposed es = sum_list (map disposes es)"

text \<open>\<open>owns es0 M es\<close>: since \<open>es0\<close> what was acquired is what was released, and \<open>M\<close>.\<close>

definition owns :: "wevent list \<Rightarrow> resource multiset \<Rightarrow> wevent list \<Rightarrow> bool" where
  "owns es0 M es \<longleftrightarrow> (\<exists>fs. es = es0 @ fs \<and> all_acquired fs = all_disposed fs + M)"

definition kernel :: "handle \<Rightarrow> resource multiset" where
  "kernel h = (if usable h then {#Kernel h#} else {#})"

definition memory :: "u64 \<Rightarrow> resource multiset" where
  "memory p = (if p \<noteq> 0 then {#Memory p#} else {#})"

lemma owns_refl: "owns es {#} es"
  by (simp add: owns_def all_acquired_def all_disposed_def)

lemma owns_event: "owns es0 M es \<Longrightarrow> disposes (c, a) = {#} \<Longrightarrow> owns es0 (M + acquires (c, a)) (es @ [(c, a)])"
  by (auto simp: owns_def all_acquired_def all_disposed_def ac_simps)

lemma owns_release:
  assumes "owns es0 (M + disposes (c, a)) es" and "acquires (c, a) = {#}"
  shows "owns es0 M (es @ [(c, a)])"
  using assms by (auto simp: owns_def all_acquired_def all_disposed_def ac_simps)

lemma wp_ask [wp_simps]: "wp (ask win c) Q es = Q (Val (win es c)) (es @ [(c, win es c)])"
  by (simp add: wp_def ask_def Let_def)

text \<open>A call that neither acquires nor releases.\<close>

definition neutral :: "wcall \<Rightarrow> bool" where
  "neutral c \<longleftrightarrow> (\<forall>a. acquires (c, a) = {#} \<and> disposes (c, a) = {#})"

lemma pres_ask: "neutral c \<Longrightarrow> pres (owns es0 M) (ask win c)"
  by (rule presI) (use owns_event [of es0 M _ c] in \<open>simp add: ask_def Let_def neutral_def\<close>)

lemma pres_demand: "neutral c \<Longrightarrow> pres (owns es0 M) (demand win c)"
  unfolding demand_def by (intro pres_intros pres_ask)

lemma pres_allocate: "pres (owns es0 M) (allocate win n)"
  unfolding allocate_def by (intro pres_intros pres_ask) (simp add: neutral_def)

lemmas pres_owns = pres_ask pres_demand pres_allocate

text \<open>A scope that keeps its resource gives it back.\<close>

lemma scoped_owns:
  assumes body: "wp m (\<lambda>r t. owns es0 (M + N) t) es"
    and "case release of None \<Rightarrow> N = {#} | Some c \<Rightarrow> \<forall>a. acquires (c, a) = {#} \<and> disposes (c, a) = N"
  shows "wp (scoped win release m) (\<lambda>r t. owns es0 M t) es"
  unfolding scoped_def wp_seq [of "attempt m"] wp_attempt res.case
proof (rule wp_mono [OF body])
  fix r t assume t: "owns es0 (M + N) t"
  show "wp (seq (case release of None \<Rightarrow> ret () | Some c \<Rightarrow> seq (ask win c) (\<lambda>_. ret ())) (\<lambda>_. resume r)) (\<lambda>r t. owns es0 M t) t"
  proof (cases release)
    case None
    then show ?thesis using t assms(2) by (simp add: wp_simps)
  next
    case (Some c)
    have "owns es0 M (t @ [(c, win t c)])"
      by (rule owns_release) (use t assms(2) Some in simp_all)
    then show ?thesis using Some by (simp add: wp_simps)
  qed
qed

lemma scoped_handle: "wp m (\<lambda>r t. owns es0 (M + kernel h) t) es \<Longrightarrow> wp (scoped win (win_handle h) m) (\<lambda>r t. owns es0 M t) es"
  by (erule scoped_owns) (simp add: win_handle_def kernel_def)

lemma scoped_memory: "wp m (\<lambda>r t. owns es0 (M + memory p) t) es \<Longrightarrow> wp (scoped win (local_allocation p) m) (\<lambda>r t. owns es0 M t) es"
  by (erule scoped_owns) (simp add: local_allocation_def memory_def)

text \<open>\<open>open_native\<close> returns a usable handle exactly with status 0, and closes every other one.\<close>

lemma open_native_owns:
  assumes "owns es0 M es"
  shows "wp (open_native win parent name d x disposition security fa fs)
    (\<lambda>r t. \<exists>st h. r = Val (st, h) \<and> owns es0 (M + kernel h) t \<and> (st = 0 \<longleftrightarrow> usable h) \<and> (h \<noteq> 0 \<longrightarrow> usable h)) es"
proof -
  define c where "c = Nt_create_file
         \<lparr>no_parent = parent, no_name = name, no_access = native_access fa x,
          no_attributes = OBJ_CASE_INSENSITIVE OR OBJ_DONT_REPARSE, no_share = native_share fs x,
          no_disposition = disposition, no_options = native_options d x, no_security = security\<rparr>"
  let ?p = "(Proc_address ''NtCreateFile'', win es (Proc_address ''NtCreateFile''))"
  define a where "a = win (es @ [?p]) c"
  have p: "owns es0 M (es @ [?p])" using owns_event [OF assms, of "fst ?p" "snd ?p"] by simp
  have k: "kernel 0 = {#}" by (simp add: kernel_def usable_def)
  have o: "owns es0 (M + kernel (w_handle a)) (es @ [?p, (c, a)])"
    using owns_event [OF p, of c a] by (simp add: c_def kernel_def)
  have fail: "wp (scoped win (win_handle (w_handle a)) (ret (if w_status a = 0 then invalid_parameter else w_status a, 0)))
    (\<lambda>r t. \<exists>st h. r = Val (st, h) \<and> owns es0 (M + kernel h) t \<and> (st = 0 \<longleftrightarrow> usable h) \<and> (h \<noteq> 0 \<longrightarrow> usable h)) (es @ [?p, (c, a)])"
  proof -
    have "wp (scoped win (win_handle (w_handle a)) (ret (st, 0))) (\<lambda>r t. r = Val (st, 0)) es'" for st :: u32 and es'
      by (simp add: scoped_def wp_simps win_handle_def)
    moreover have "wp (scoped win (win_handle (w_handle a)) (ret (st, 0))) (\<lambda>r t. owns es0 M t) (es @ [?p, (c, a)])" for st :: u32
      by (rule scoped_handle) (simp add: wp_ret o)
    ultimately have "wp (scoped win (win_handle (w_handle a)) (ret (st, 0))) (\<lambda>r t. r = Val (st, 0) \<and> owns es0 M t) (es @ [?p, (c, a)])" for st :: u32
      unfolding wp_conj by blast
    then show ?thesis
      by (rule wp_mono) (auto simp: k usable_def invalid_parameter_def)
  qed
  show ?thesis
    unfolding open_native_def
    using p o fail
    by (auto simp: wp_seq [of "ask _ _"] wp_ask wp_ret k c_def [symmetric] a_def [symmetric] native_opened_def
        invalid_parameter_def usable_def)
qed

end
