(* ===== verification/Windows_Objects.thy ===== *)
theory Windows_Objects
  imports Windows_Api Native_Core
begin

text \<open>
  \<open>WindowsObjects\<close> of \<open>protected_windows.cpp\<close>: each operation that \<open>ProtectedObjects\<close> calls,
  as the sequence of system calls it makes.
\<close>

section \<open>Security\<close>

definition MUTEX_ALL_ACCESS :: u32 where "MUTEX_ALL_ACCESS = 0x1F0001"

text \<open>A conjunction of calls, evaluated until the first that fails.\<close>

fun all_succeed :: "win_ops \<Rightarrow> wcall list \<Rightarrow> bool wprog" where
  "all_succeed win [] = ret True"
| "all_succeed win (c # cs) = seq (ask win c) (\<lambda>a. if w_flag a then all_succeed win cs else ret False)"

text \<open>\<open>SecurityRecipe::build\<close>: one protected entry for the user.\<close>

definition build_security :: "win_ops \<Rightarrow> sid \<Rightarrow> bool \<Rightarrow> u32 \<Rightarrow> bool wprog" where
  "build_security win sid directory access =
     (if sid = [] then ret False
      else
        seq (ask win (Is_valid_sid sid)) (\<lambda>valid.
        if \<not> w_flag valid then ret False
        else
          seq (ask win (Length_sid sid)) (\<lambda>size.
          if w_size size \<noteq> length sid then ret False
          else
            seq (allocate win (8 + 12 - 4 + length sid)) (\<lambda>_.
            all_succeed win (map (\<lambda>step. Build_security step sid directory access)
              [''descriptor'', ''owner'', ''acl'', ''entry'', ''dacl'', ''protected''])))))"

text \<open>\<open>user_sid\<close>: the token's user, with the buffer the first query asked for.\<close>

definition user_sid :: "win_ops \<Rightarrow> sid wprog" where
  "user_sid win =
     seq (ask win Open_process_token) (\<lambda>t.
     scoped win (win_handle (w_handle t))
       (seq (require (w_flag t) UNAVAILABLE) (\<lambda>_.
        seq (ask win (Token_user (w_handle t) None)) (\<lambda>q.
        seq (require (\<not> w_flag q) UNAVAILABLE) (\<lambda>_.
        seq (ask win Last_error) (\<lambda>e.
        seq (require (w_status e = 122 \<and> 16 \<le> w_size q \<and> w_size q \<le> 65536) UNAVAILABLE) (\<lambda>_.
        seq (allocate win (w_size q)) (\<lambda>_.
        seq (demand win (Token_user (w_handle t) (Some (w_size q)))) (\<lambda>u.
        seq (demand win (Is_valid_sid (w_bytes u))) (\<lambda>_.
        seq (ask win (Length_sid (w_bytes u))) (\<lambda>n.
        ret (take (w_size n) (w_bytes u)))))))))))))"

section \<open>Names under a pinned directory\<close>

text \<open>The status of \<open>open_native\<close> as the operations report it.\<close>

definition opened_or :: "bool \<Rightarrow> (u32 \<times> handle) wprog \<Rightarrow> handle wprog" where
  "opened_or may_miss m =
     seq m (\<lambda>(status, h).
     if may_miss \<and> status = name_not_found then err (Status MISSING)
     else if status = 0 then ret h
     else err (Status UNAVAILABLE))"

definition child :: "win_ops \<Rightarrow> handle \<Rightarrow> wstring \<Rightarrow> bool \<Rightarrow> bool \<Rightarrow> sid \<Rightarrow> handle wprog" where
  "child win parent component directory create sid =
     (if \<not> usable parent \<or> \<not> safe_component component then err (Status INVALID_INPUT)
      else if \<not> create
      then opened_or False (open_native win parent component False (\<not> directory) FILE_OPEN None 0 None)
      else
        seq (build_security win sid directory FILE_ALL_ACCESS) (\<lambda>built.
        seq (require built UNAVAILABLE) (\<lambda>_.
        let recipe = Some (sid, directory, FILE_ALL_ACCESS) in
        if \<not> directory
        then opened_or False (open_native win parent component False True FILE_OPEN_IF recipe 0 None)
        else
          seq (open_native win parent component True False FILE_CREATE recipe 0 None) (\<lambda>(status, h).
          if status = name_collision
          then opened_or False (open_native win parent component False False FILE_OPEN None 0 None)
          else opened_or False (ret (status, h))))))"

definition READ_ACCESS :: u32 where
  "READ_ACCESS = READ_CONTROL OR FILE_READ_ATTRIBUTES OR FILE_READ_DATA OR SYNCHRONIZE"

definition open_existing :: "win_ops \<Rightarrow> handle \<Rightarrow> wstring \<Rightarrow> handle wprog" where
  "open_existing win parent name =
     opened_or True (open_native win parent name False True FILE_OPEN None READ_ACCESS (Some (SHARE_READ OR SHARE_DELETE)))"

definition association_open :: "win_ops \<Rightarrow> handle \<Rightarrow> handle wprog" where
  "association_open win parent = open_existing win parent (wide ''associations.bin'')"

definition credential_open :: "win_ops \<Rightarrow> handle \<Rightarrow> u32 \<Rightarrow> handle wprog" where
  "credential_open win parent kind =
     (case credential_name kind of None \<Rightarrow> err (Status INVALID_INPUT) | Some name \<Rightarrow> open_existing win parent name)"

definition discovery_open :: "win_ops \<Rightarrow> handle \<Rightarrow> u32 \<Rightarrow> handle wprog" where
  "discovery_open win parent kind =
     (case discovery_name kind of None \<Rightarrow> err (Status INVALID_INPUT) | Some name \<Rightarrow> open_existing win parent name)"

definition temporary_create :: "win_ops \<Rightarrow> handle \<Rightarrow> wstring \<Rightarrow> sid \<Rightarrow> handle wprog" where
  "temporary_create win parent name sid =
     (if \<not> safe_component name then err (Status INVALID_INPUT)
      else
        seq (build_security win sid False FILE_ALL_ACCESS) (\<lambda>built.
        seq (require built UNAVAILABLE) (\<lambda>_.
        opened_or False (open_native win parent name False True FILE_CREATE (Some (sid, False, FILE_ALL_ACCESS))
          (READ_CONTROL OR FILE_READ_ATTRIBUTES OR FILE_WRITE_DATA OR DELETE_ACCESS OR SYNCHRONIZE) (Some 0)))))"

text \<open>
  The renames.  The request is the one of the rename headers; it is issued when the export was
  found and both handles are usable, and a \<open>NTSTATUS\<close> other than 0 is not a success.
\<close>

definition issue_rename :: "win_ops \<Rightarrow> bool \<Rightarrow> handle \<Rightarrow> rename_info \<Rightarrow> (rename_call \<Rightarrow> status) \<Rightarrow> unit wprog" where
  "issue_rename win guarded temporary info report =
     seq (ask win (Proc_address ''NtSetInformationFile'')) (\<lambda>p.
     seq (if w_flag p \<and> guarded
          then seq (ask win (Set_rename temporary info)) (\<lambda>a.
               ret (Some (\<lambda>_ _. (sint (w_status a), sint (w_io a)))))
          else ret (if w_flag p then Some (\<lambda>_ _. (1, 1)) else None)) (\<lambda>call.
     if report call = OK then ret () else err (Status (report call))))"

definition replace_file :: "win_ops \<Rightarrow> handle \<Rightarrow> handle \<Rightarrow> bool \<Rightarrow> unit wprog" where
  "replace_file win temporary directory existing =
     issue_rename win (usable temporary \<and> usable directory) temporary (association_request directory existing)
       (\<lambda>call. rename_association call temporary directory existing)"

definition credential_replace :: "win_ops \<Rightarrow> handle \<Rightarrow> handle \<Rightarrow> u32 \<Rightarrow> bool \<Rightarrow> unit wprog" where
  "credential_replace win temporary directory kind existing =
     (case credential_name kind of
        None \<Rightarrow> issue_rename win False temporary (credential_request [] directory existing)
          (\<lambda>call. rename_credential call temporary directory kind existing)
      | Some name \<Rightarrow> issue_rename win (usable temporary \<and> usable directory) temporary
          (credential_request name directory existing)
          (\<lambda>call. rename_credential call temporary directory kind existing))"

definition discovery_replace :: "win_ops \<Rightarrow> handle \<Rightarrow> handle \<Rightarrow> u32 \<Rightarrow> bool \<Rightarrow> unit wprog" where
  "discovery_replace win temp parent kind replace =
     (case discovery_name kind of
        None \<Rightarrow> issue_rename win False temp (discovery_request [] parent replace)
          (\<lambda>call. rename_discovery call temp parent kind replace)
      | Some name \<Rightarrow> issue_rename win (usable temp \<and> usable parent \<and> \<not> (kind \<noteq> 1 \<and> replace)) temp
          (discovery_request name parent replace)
          (\<lambda>call. rename_discovery call temp parent kind replace))"

section \<open>Inspection\<close>

text \<open>The volume part of a final path: up to the first \<open>}\<close> that a separator follows.\<close>

fun volume_path :: "wstring \<Rightarrow> wstring option" where
  "volume_path (c # d # rest) =
     (if c = of_char (CHR ''}'') \<and> d = backslash then Some [c, d]
      else map_option (\<lambda>v. c # v) (volume_path (d # rest)))"
| "volume_path _ = None"

definition volume_prefix :: wstring where
  "volume_prefix = [backslash, backslash, of_char (CHR ''?''), backslash] @ wide ''Volume{''"

text \<open>The owner and the single access entry behind a security descriptor.\<close>

definition read_entry :: "win_ops \<Rightarrow> object_info \<Rightarrow> object_info wprog" where
  "read_entry win info =
     seq (demand win Get_ace) (\<lambda>g.
     case w_ace g of
       None \<Rightarrow> err (Status UNAVAILABLE)
     | Some raw \<Rightarrow>
         if raw_type raw \<noteq> ACCESS_ALLOWED then ret (info\<lparr>dacl_present := False\<rparr>)
         else
           seq (require (12 \<le> raw_size raw) UNAVAILABLE) (\<lambda>_.
           seq (demand win (Is_valid_sid (raw_sid raw))) (\<lambda>_.
           seq (ask win (Length_sid (raw_sid raw))) (\<lambda>n.
           seq (require (w_size n \<le> raw_size raw - 8) UNAVAILABLE) (\<lambda>_.
           seq (ask win (Length_sid (raw_sid raw))) (\<lambda>n.
           ret (info\<lparr>aces := [\<lparr>ace_type = raw_type raw, ace_flags = raw_flags raw, ace_mask = raw_mask raw,
             ace_sid = take (w_size n) (raw_sid raw)\<rparr>]\<rparr>)))))))"

definition read_security :: "win_ops \<Rightarrow> handle \<Rightarrow> object_info \<Rightarrow> object_info wprog" where
  "read_security win h info =
     seq (ask win (Security_info h False)) (\<lambda>s.
     scoped win (local_allocation (w_pointer s))
       (seq (require (w_status s = 0 \<and> w_pointer s \<noteq> 0) UNAVAILABLE) (\<lambda>_.
        seq (demand win (Is_valid_descriptor (w_pointer s))) (\<lambda>_.
        case w_owner s of
          None \<Rightarrow> err (Status UNAVAILABLE)
        | Some owner \<Rightarrow>
            seq (demand win (Is_valid_sid owner)) (\<lambda>_.
            seq (ask win (Length_sid owner)) (\<lambda>n.
            seq (demand win (Descriptor_dacl (w_pointer s))) (\<lambda>d.
            seq (demand win (Descriptor_control (w_pointer s))) (\<lambda>c.
            let info' = info\<lparr>owner_sid := take (w_size n) owner, dacl_present := w_present d \<and> w_dacl d,
                  dacl_protected := w_control c AND 0x1000 \<noteq> 0, aces := []\<rparr>
            in if \<not> dacl_present info' then ret info'
               else
                 seq (demand win Is_valid_acl) (\<lambda>_.
                 if w_ace_count d \<noteq> 1 then ret (info'\<lparr>dacl_present := False\<rparr>)
                 else read_entry win info')))))))))"

definition inspect :: "win_ops \<Rightarrow> handle \<Rightarrow> object_info wprog" where
  "inspect win h =
     seq (ask win (Get_file_type h)) (\<lambda>t.
     seq (require (w_status t = 1) UNAVAILABLE) (\<lambda>_.
     seq (demand win (File_information h)) (\<lambda>f.
     seq (demand win (Volume_information h)) (\<lambda>v.
     seq (ask win (Final_path h)) (\<lambda>p.
     seq (require (w_size p \<noteq> 0 \<and> w_size p < 32768) UNAVAILABLE) (\<lambda>_.
     let path = take (w_size p) (w_text p) in
     seq (require (take (length volume_prefix) path = volume_prefix) UNAVAILABLE) (\<lambda>_.
     case volume_path path of
       None \<Rightarrow> err (Status UNAVAILABLE)
     | Some drive \<Rightarrow>
         seq (ask win (Drive_type_of drive)) (\<lambda>d.
         seq (require (w_serial v = w_serial f) UNAVAILABLE) (\<lambda>_.
         read_security win h (empty_info\<lparr>drive_type := w_status d,
           filesystem := takeWhile (\<lambda>c. c \<noteq> 0) (take 32 (w_text v)), volume := ucast (w_serial f),
           file_index := push_bit 32 (ucast (w_index_high f)) OR ucast (w_index_low f),
           attributes := w_attributes f, links := w_links f\<rparr>))))))))))"

definition close :: "win_ops \<Rightarrow> handle \<Rightarrow> bool wprog" where
  "close win h = seq (ask win (Close_handle h)) (\<lambda>a. ret (w_flag a))"

section \<open>The exchange lock\<close>

text \<open>The mutex of a directory is named by the directory's identity.\<close>

definition lock_name :: "object_info \<Rightarrow> wstring" where
  "lock_name directory =
     wide ''Global'' @ [backslash] @ wide ''Shiroha.Exchange.'' @ wide (decimal (unat (volume directory))) @
     wide ''.'' @ wide (decimal (unat (file_index directory)))"

text \<open>The mutex must be the user's own, with one protected entry that grants the user everything.\<close>

definition own_mutex :: "win_ops \<Rightarrow> handle \<Rightarrow> sid \<Rightarrow> unit wprog" where
  "own_mutex win mutex sid =
     seq (ask win (Security_info mutex True)) (\<lambda>s.
     scoped win (local_allocation (w_pointer s))
       (seq (require (w_status s = 0 \<and> w_pointer s \<noteq> 0) UNAVAILABLE) (\<lambda>_.
        seq (demand win (Is_valid_descriptor (w_pointer s))) (\<lambda>_.
        case w_owner s of
          None \<Rightarrow> err (Status UNAVAILABLE)
        | Some owner \<Rightarrow>
            seq (demand win (Is_valid_sid owner)) (\<lambda>_.
            seq (demand win (Equal_sid owner sid)) (\<lambda>_.
            seq (demand win (Descriptor_dacl (w_pointer s))) (\<lambda>d.
            seq (require (w_present d \<and> w_dacl d) UNAVAILABLE) (\<lambda>_.
            seq (demand win Is_valid_acl) (\<lambda>_.
            seq (demand win (Descriptor_control (w_pointer s))) (\<lambda>c.
            seq (require (w_control c AND 0x1000 \<noteq> 0 \<and> w_ace_count d = 1) UNAVAILABLE) (\<lambda>_.
            seq (demand win Get_ace) (\<lambda>g.
            case w_ace g of
              None \<Rightarrow> err (Status UNAVAILABLE)
            | Some raw \<Rightarrow>
                seq (require (raw_type raw = ACCESS_ALLOWED \<and> raw_flags raw = 0 \<and>
                  raw_size raw = 12 - 4 + length sid \<and> raw_mask raw = MUTEX_ALL_ACCESS) UNAVAILABLE) (\<lambda>_.
                seq (demand win (Is_valid_sid (raw_sid raw))) (\<lambda>_.
                seq (ask win (Length_sid (raw_sid raw))) (\<lambda>n.
                seq (require (w_size n = length sid) UNAVAILABLE) (\<lambda>_.
                seq (demand win (Equal_sid (raw_sid raw) sid)) (\<lambda>_. ret ())))))))))))))))))"

text \<open>What was acquired is returned when the checks succeed, and closed when they do not.\<close>

definition returned :: "win_ops \<Rightarrow> handle \<Rightarrow> unit wprog \<Rightarrow> handle wprog" where
  "returned win h m =
     seq (attempt m) (\<lambda>r. case r of Val _ \<Rightarrow> ret h | Err e \<Rightarrow> scoped win (win_handle h) (err e))"

definition WAIT_OBJECT_0 :: u32 where "WAIT_OBJECT_0 = 0"
definition WAIT_ABANDONED :: u32 where "WAIT_ABANDONED = 0x80"

definition take_mutex :: "win_ops \<Rightarrow> handle \<Rightarrow> unit wprog" where
  "take_mutex win mutex =
     seq (ask win (Wait_single mutex)) (\<lambda>wait.
     if w_status wait = WAIT_ABANDONED
     then seq (ask win (Release_mutex mutex)) (\<lambda>_. err (Status UNAVAILABLE))
     else require (w_status wait = WAIT_OBJECT_0) UNAVAILABLE)"

definition exchange_lock :: "win_ops \<Rightarrow> object_info \<Rightarrow> sid \<Rightarrow> handle wprog" where
  "exchange_lock win directory sid =
     seq (build_security win sid False MUTEX_ALL_ACCESS) (\<lambda>built.
     seq (require built UNAVAILABLE) (\<lambda>_.
     seq (ask win (Create_mutex (lock_name directory) sid)) (\<lambda>m.
     if w_handle m = 0 then err (Status UNAVAILABLE)
     else returned win (w_handle m)
       (seq (own_mutex win (w_handle m) sid) (\<lambda>_. take_mutex win (w_handle m))))))"

definition exchange_unlock :: "win_ops \<Rightarrow> handle \<Rightarrow> bool wprog" where
  "exchange_unlock win mutex =
     seq (ask win (Release_mutex mutex)) (\<lambda>r.
     seq (ask win (Close_handle mutex)) (\<lambda>c. ret (w_flag r \<and> w_flag c)))"

section \<open>Counting entries\<close>

definition ERROR_NO_MORE_FILES :: u32 where "ERROR_NO_MORE_FILES = 18"

text \<open>
  Pages are read until one fails; the count of the exchange directory ends early once it exceeds
  32, but a system that keeps listing dot entries is never left: not returning is \<open>None\<close>.
\<close>

partial_function (option) exchange_pages ::
  "win_ops \<Rightarrow> handle \<Rightarrow> bool \<Rightarrow> nat \<Rightarrow> wevent list \<Rightarrow> (nat res \<times> wevent list) option" where
  "exchange_pages win directory first found es =
     (let a = win es (List_directory directory first); es1 = es @ [(List_directory directory first, a)] in
      if \<not> w_flag a
      then (let e = win es1 Last_error; es2 = es1 @ [(Last_error, e)] in
        Some (if w_status e = ERROR_NO_MORE_FILES then Val found else Err (Status UNAVAILABLE), es2))
      else case exchange_walk (page (w_bytes a)) 0 found of
          Enough n \<Rightarrow> Some (Val n, es1)
        | Page_end n _ \<Rightarrow> exchange_pages win directory False n es1
        | _ \<Rightarrow> Some (Err (Status UNAVAILABLE), es1))"

definition exchange_count :: "win_ops \<Rightarrow> handle \<Rightarrow> wevent list \<Rightarrow> (nat res \<times> wevent list) option" where
  "exchange_count win directory = exchange_pages win directory True 0"

text \<open>Every page of temporaries adds an entry to the 4096 that are walked at most.\<close>

lemma temporary_walk_progress:
  "temporary_walk b off found entries = Page_end n e \<Longrightarrow> entries < e \<and> e \<le> 4096"
proof (induction b off found entries rule: temporary_walk.induct)
  case (1 b off found entries)
  show ?case
    using "1.prems" "1.IH" by (subst (asm) temporary_walk.simps) (fastforce simp: Let_def split: if_splits)
qed

function temporary_pages ::
  "win_ops \<Rightarrow> handle \<Rightarrow> bool \<Rightarrow> nat \<Rightarrow> nat \<Rightarrow> wevent list \<Rightarrow> nat res \<times> wevent list" where
  "temporary_pages win directory first found entries es =
     (let a = win es (List_directory directory first); es1 = es @ [(List_directory directory first, a)] in
      if \<not> w_flag a
      then (let e = win es1 Last_error; es2 = es1 @ [(Last_error, e)] in
        (if w_status e = ERROR_NO_MORE_FILES then Val found else Err (Status UNAVAILABLE), es2))
      else case temporary_walk (page (w_bytes a)) 0 found entries of
          Enough n \<Rightarrow> (Val n, es1)
        | Page_end n e \<Rightarrow> temporary_pages win directory False n e es1
        | Too_many \<Rightarrow> (Err (Status RESOURCE_LIMIT), es1)
        | Malformed \<Rightarrow> (Err (Status UNAVAILABLE), es1))"
  by pat_completeness auto
termination
  by (relation "measure (\<lambda>(w, d, f, c, entries, es). 4096 - entries)") (auto dest!: temporary_walk_progress)

declare temporary_pages.simps [simp del]

definition temporary_count :: "win_ops \<Rightarrow> handle \<Rightarrow> nat wprog" where
  "temporary_count win directory = temporary_pages win directory True 0 0"

section \<open>Bytes and names\<close>

definition last_component :: "wstring \<Rightarrow> wstring" where
  "last_component path = rev (takeWhile (\<lambda>c. c \<noteq> backslash) (rev path))"

text \<open>The name on disk must be the requested one, casing included.\<close>

definition check_name :: "win_ops \<Rightarrow> handle \<Rightarrow> wstring \<Rightarrow> unit wprog" where
  "check_name win h name =
     seq (demand win (File_name_info h)) (\<lambda>a.
     let b = page (w_bytes a); len = u32_at b 0 in
     seq (require (len mod 2 = 0 \<and> len \<le> 65536 - 4) UNAVAILABLE) (\<lambda>_.
     let actual = map (\<lambda>i. wchar_at b (4 + 2 * i)) [0 ..< len div 2] in
     require (last_component actual = name) UNAVAILABLE))"

definition exchange_open :: "win_ops \<Rightarrow> handle \<Rightarrow> wstring \<Rightarrow> u32 \<Rightarrow> sid \<Rightarrow> handle wprog" where
  "exchange_open win directory name mode sid =
     (if \<not> safe_component name \<or> mode > 4 then err (Status INVALID_INPUT)
      else
        seq (if mode = 0 then build_security win sid False FILE_ALL_ACCESS else ret True) (\<lambda>built.
        seq (require built UNAVAILABLE) (\<lambda>_.
        seq (opened_or True (open_native win directory name False True (if mode = 0 then FILE_CREATE else FILE_OPEN)
          (if mode = 0 then Some (sid, False, FILE_ALL_ACCESS) else None) (exchange_access mode) (Some (exchange_share mode)))) (\<lambda>h.
        returned win h (check_name win h name)))))"

definition read_file :: "win_ops \<Rightarrow> handle \<Rightarrow> u8 list wprog" where
  "read_file win h =
     seq (demand win (File_size h)) (\<lambda>s.
     seq (require (0 < w_int s \<and> w_int s \<le> 65536) DATA_CORRUPT) (\<lambda>_.
     let n = nat (w_int s) in
     seq (allocate win n) (\<lambda>_.
     seq (demand win (Read_bytes h n)) (\<lambda>r.
     seq (require (w_size r = n) UNAVAILABLE) (\<lambda>_.
     seq (demand win (File_size h)) (\<lambda>after.
     seq (require (w_int after = w_int s) UNAVAILABLE) (\<lambda>_.
     ret (map (page (w_bytes r)) [0 ..< n]))))))))"

definition exchange_read_call :: "win_ops \<Rightarrow> handle \<Rightarrow> nat \<Rightarrow> u8 list wprog" where
  "exchange_read_call win h maximum =
     seq (demand win (File_size h)) (\<lambda>s.
     seq (require (0 < w_int s \<and> nat (w_int s) \<le> maximum) DATA_CORRUPT) (\<lambda>_.
     read_file win h))"

definition gen_random :: "win_ops \<Rightarrow> nat \<Rightarrow> u8 list wprog" where
  "gen_random win n =
     seq (ask win (Gen_random n)) (\<lambda>a.
     seq (require (w_status a = 0) UNAVAILABLE) (\<lambda>_. ret (map (page (w_bytes a)) [0 ..< n])))"

definition exchange_nonce_call :: "win_ops \<Rightarrow> nat \<Rightarrow> u8 list wprog" where
  "exchange_nonce_call win n = (if n \<noteq> 16 then err (Status INVALID_INPUT) else gen_random win 16)"

definition exchange_delete :: "win_ops \<Rightarrow> handle \<Rightarrow> unit wprog" where
  "exchange_delete win h = seq (demand win (Set_disposition h)) (\<lambda>_. ret ())"

text \<open>Eight bytes name the runtime, four the temporary.\<close>

definition random_name :: "win_ops \<Rightarrow> (wstring \<times> wstring) wprog" where
  "random_name win =
     seq (gen_random win 12) (\<lambda>bytes. ret (wide (hex_text (take 8 bytes)), wide (hex_text (drop 8 bytes))))"

definition write_file :: "win_ops \<Rightarrow> handle \<Rightarrow> u8 list \<Rightarrow> unit wprog" where
  "write_file win h input =
     seq (demand win (Write_bytes h (take (length input mod 2 ^ 32) input))) (\<lambda>a.
     require (w_size a = length input) UNAVAILABLE)"

definition flush_file :: "win_ops \<Rightarrow> handle \<Rightarrow> unit wprog" where
  "flush_file win h = seq (demand win (Flush_buffers h)) (\<lambda>_. ret ())"

section \<open>The object root\<close>

text \<open>Little-endian UTF-16, as \<open>reinterpret_cast<const wchar_t*>\<close> reads it.\<close>

fun utf16_units :: "u8 list \<Rightarrow> wstring" where
  "utf16_units (a # b # bs) = (ucast a OR push_bit 8 (ucast b)) # utf16_units bs"
| "utf16_units _ = []"

text \<open>\<open>production_object_root\<close>, with the addresses of its buffer and its count on the stack.\<close>

definition production_object_root :: "core_ops \<Rightarrow> ptr \<Rightarrow> ptr \<Rightarrow> core_state \<Rightarrow> wstring res" where
  "production_object_root ops output written s =
     (case local_app_data ABI_VERSION output MAX_BYTES written ops s of (status, t) \<Rightarrow>
        if status \<noteq> OK then Err (Status status)
        else let n = load64 written (cmem t) in
          if n = 0 \<or> n mod 2 \<noteq> 0 then Err (Status UNAVAILABLE)
          else Val (utf16_units (read_bytes output n (cmem t))))"

text \<open>\<open>p20_test_root.h\<close>: a diagnostic build has a fixed root, a production build has none.\<close>

definition resolve_object_root :: "wstring option \<Rightarrow> wstring res \<Rightarrow> wstring res" where
  "resolve_object_root test_root production =
     (case test_root of
        Some root \<Rightarrow> if local_nt_name root = None then Err (Status INVALID_INPUT) else Val root
      | None \<Rightarrow> production)"

definition local_directory :: "win_ops \<Rightarrow> wstring res \<Rightarrow> handle wprog" where
  "local_directory win root =
     seq (resume root) (\<lambda>path.
     case local_nt_name path of
       None \<Rightarrow> err (Status UNAVAILABLE)
     | Some name \<Rightarrow> opened_or False (open_native win 0 name False False FILE_OPEN None 0 None))"

section \<open>The operations behind the interface\<close>

text \<open>
  An answer of \<open>ObjectOperations\<close>.  Output parameters other than a handle are shown on success
  only: no caller reads them after a failure.
\<close>

definition answering :: "('a \<Rightarrow> answer \<Rightarrow> answer) \<Rightarrow> 'a res \<times> wevent list \<Rightarrow> answer \<times> wevent list" where
  "answering put = (\<lambda>(r, es).
     (case r of Val x \<Rightarrow> put x (inert_answer\<lparr>outcome := Status OK\<rparr>) | Err e \<Rightarrow> inert_answer\<lparr>outcome := e\<rparr>, es))"

abbreviation "answer_handle \<equiv> answering (\<lambda>h a. a\<lparr>a_handle := h\<rparr>)"
abbreviation "answer_status \<equiv> answering (\<lambda>u :: unit. \<lambda>a. a)"
abbreviation "answer_bytes \<equiv> answering (\<lambda>b a. a\<lparr>a_bytes := b\<rparr>)"
abbreviation "answer_count \<equiv> answering (\<lambda>n a. a\<lparr>a_count := n\<rparr>)"
abbreviation "answer_flag \<equiv> answering (\<lambda>b a. a\<lparr>a_flag := b\<rparr>)"

fun windows_call :: "win_ops \<Rightarrow> wstring res \<Rightarrow> call \<Rightarrow> wevent list \<Rightarrow> (answer \<times> wevent list) option" where
  "windows_call win root User_sid es = Some (answering (\<lambda>s a. a\<lparr>a_sid := s\<rparr>) (user_sid win es))"
| "windows_call win root Local_directory es = Some (answer_handle (local_directory win root es))"
| "windows_call win root (Child p n d c s) es = Some (answer_handle (child win p n d c s es))"
| "windows_call win root (Inspect h) es = Some (answering (\<lambda>i a. a\<lparr>a_info := i\<rparr>) (inspect win h es))"
| "windows_call win root (Close h) es = Some (answer_flag (close win h es))"
| "windows_call win root (Association_open d s) es = Some (answer_handle (association_open win d es))"
| "windows_call win root (Credential_open d k s) es = Some (answer_handle (credential_open win d k es))"
| "windows_call win root (Credential_replace t d k e) es = Some (answer_status (credential_replace win t d k e es))"
| "windows_call win root (Read_file h) es = Some (answer_bytes (read_file win h es))"
| "windows_call win root (Temporary_count d) es = Some (answer_count (temporary_count win d es))"
| "windows_call win root Random_name es =
     Some (answering (\<lambda>(r, n) a. a\<lparr>a_runtime := r, a_random := n\<rparr>) (random_name win es))"
| "windows_call win root (Temporary_create d n s) es = Some (answer_handle (temporary_create win d n s es))"
| "windows_call win root (Write_file h b) es = Some (answer_status (write_file win h b es))"
| "windows_call win root (Flush_file h) es = Some (answer_status (flush_file win h es))"
| "windows_call win root (Replace_file t d e) es = Some (answer_status (replace_file win t d e es))"
| "windows_call win root (Exchange_lock i s) es = Some (answer_handle (exchange_lock win i s es))"
| "windows_call win root (Exchange_unlock h) es = Some (answer_flag (exchange_unlock win h es))"
| "windows_call win root (Exchange_count d) es = map_option answer_count (exchange_count win d es)"
| "windows_call win root (Exchange_open d n m s) es = Some (answer_handle (exchange_open win d n m s es))"
| "windows_call win root Exchange_nonce es = Some (answer_bytes (exchange_nonce_call win 16 es))"
| "windows_call win root (Exchange_read h n) es = Some (answer_bytes (exchange_read_call win h n es))"
| "windows_call win root (Exchange_delete h) es = Some (answer_status (exchange_delete win h es))"
| "windows_call win root (Discovery_open d k) es = Some (answer_handle (discovery_open win d k es))"
| "windows_call win root (Discovery_replace t d k r) es = Some (answer_status (discovery_replace win t d k r es))"

end
