(* ===== verification/Windows_Contract.thy ===== *)
theory Windows_Contract
  imports Windows_Objects
begin

text \<open>
  What the Windows operations promise to the core: every handle and allocation they obtain is
  given to the caller or given back, on every path; files are created only where the core asks
  for it; and the names and counts they answer are the ones the core relies on.
\<close>

section \<open>Ownership\<close>

lemma neutral_simps [simp]:
  "neutral (Proc_address q)" "neutral (Token_user h z)" "neutral Last_error" "neutral (Is_valid_sid s)"
  "neutral (Length_sid s)" "neutral (Allocate k)" "neutral (Build_security st s d x)" "neutral (Get_file_type h)"
  "neutral (File_information h)" "neutral (Volume_information h)" "neutral (Final_path h)" "neutral (Drive_type_of w)"
  "neutral (Is_valid_descriptor p)" "neutral (Descriptor_dacl p)" "neutral (Descriptor_control p)" "neutral Is_valid_acl"
  "neutral Get_ace" "neutral (Equal_sid s s')" "neutral (Wait_single h)" "neutral (Release_mutex h)"
  "neutral (List_directory h b)" "neutral (File_name_info h)" "neutral (File_size h)" "neutral (Read_bytes h k)"
  "neutral (Gen_random k)" "neutral (Set_disposition h)" "neutral (Write_bytes h bs)" "neutral (Flush_buffers h)"
  "neutral (Set_rename h i)"
  by (simp_all add: neutral_def)

text \<open>An operation that gives back what it obtains.\<close>

abbreviation settles :: "'a wprog \<Rightarrow> bool" where
  "settles m \<equiv> \<forall>es0 M. pres (owns es0 M) m"

lemma settles_all_succeed: "list_all neutral cs \<Longrightarrow> pres (owns es0 M) (all_succeed win cs)"
  by (induction cs) (auto intro!: pres_intros pres_ask)

lemma settles_build [pres_intros]: "pres (owns es0 M) (build_security win sid d x)"
  unfolding build_security_def by (intro pres_intros pres_owns settles_all_succeed) simp_all

lemma settles_resume [pres_intros]: "pres I (resume r)"
  by (cases r) (simp_all add: resume_def pres_intros)

text \<open>A resource that is scoped as soon as it is obtained.\<close>

lemma settles_scoped_handle:
  assumes c: "\<And>a. acquires (c, a) = kernel (w_handle a) \<and> disposes (c, a) = {#}"
    and m: "\<And>a N. pres (owns es0 N) (m a)"
  shows "pres (owns es0 M) (seq (ask win c) (\<lambda>a. scoped win (win_handle (w_handle a)) (m a)))"
proof (rule pres_wp)
  fix es assume "owns es0 M es"
  then have "owns es0 (M + kernel (w_handle (win es c))) (es @ [(c, win es c)])"
    using owns_event [of es0 M es c "win es c"] c by simp
  from wp_pres [OF m this] show "wp (seq (ask win c) (\<lambda>a. scoped win (win_handle (w_handle a)) (m a))) (\<lambda>r t. owns es0 M t) es"
    unfolding wp_seq wp_ask res.case by (rule scoped_handle)
qed

lemma settles_scoped_memory:
  assumes m: "\<And>a N. pres (owns es0 N) (m a)"
  shows "pres (owns es0 M) (seq (ask win (Security_info h b)) (\<lambda>a. scoped win (local_allocation (w_pointer a)) (m a)))"
proof (rule pres_wp)
  let ?c = "Security_info h b"
  fix es assume "owns es0 M es"
  then have "owns es0 (M + memory (w_pointer (win es ?c))) (es @ [(?c, win es ?c)])"
    using owns_event [of es0 M es ?c "win es ?c"] by (simp add: memory_def split: if_splits)
  from wp_pres [OF m this]
  show "wp (seq (ask win ?c) (\<lambda>a. scoped win (local_allocation (w_pointer a)) (m a))) (\<lambda>r t. owns es0 M t) es"
    unfolding wp_seq wp_ask res.case by (rule scoped_memory)
qed

lemma settles_user_sid: "pres (owns es0 M) (user_sid win)"
  unfolding user_sid_def
proof (rule settles_scoped_handle)
  show "acquires (Open_process_token, t) = kernel (w_handle t) \<and> disposes (Open_process_token, t) = {#}" for t
    by (simp add: kernel_def)
qed (intro pres_intros pres_owns; simp)

lemma settles_read_entry: "pres (owns es0 M) (read_entry win info)"
  unfolding read_entry_def by (intro pres_intros pres_owns) (auto split: option.splits intro!: pres_intros pres_owns)

lemma settles_read_security [pres_intros]: "pres (owns es0 M) (read_security win h info)"
  unfolding read_security_def
  by (rule settles_scoped_memory, intro pres_intros pres_owns)
    (auto simp: Let_def split: option.splits intro!: pres_intros pres_owns settles_read_entry)

lemma settles_inspect: "pres (owns es0 M) (inspect win h)"
  unfolding inspect_def Let_def
  by (intro pres_intros pres_owns) (auto split: option.splits intro!: pres_intros pres_owns)

lemma settles_own_mutex: "pres (owns es0 M) (own_mutex win h sid)"
  unfolding own_mutex_def
  by (rule settles_scoped_memory, intro pres_intros pres_owns)
    (auto split: option.splits intro!: pres_intros pres_owns)

lemma settles_take_mutex: "pres (owns es0 M) (take_mutex win h)"
  unfolding take_mutex_def by (intro pres_intros pres_owns) simp_all

lemma settles_bytes:
  "pres (owns es0 M) (check_name win h n)" "pres (owns es0 M) (read_file win h)" "pres (owns es0 M) (exchange_read_call win h k)"
  "pres (owns es0 M) (gen_random win k)" "pres (owns es0 M) (exchange_nonce_call win k)" "pres (owns es0 M) (exchange_delete win h)"
  "pres (owns es0 M) (random_name win)" "pres (owns es0 M) (write_file win h bs)" "pres (owns es0 M) (flush_file win h)"
  unfolding check_name_def read_file_def exchange_read_call_def gen_random_def exchange_nonce_call_def exchange_delete_def
    random_name_def write_file_def flush_file_def Let_def
  by (intro pres_intros pres_owns; simp)+

lemma settles_rename: "pres (owns es0 M) (issue_rename win g t info report)"
  unfolding issue_rename_def by (intro pres_intros pres_owns) simp_all

lemma settles_replace:
  "pres (owns es0 M) (replace_file win t d e)" "pres (owns es0 M) (credential_replace win t d k e)"
  "pres (owns es0 M) (discovery_replace win t d k e)"
  unfolding replace_file_def credential_replace_def discovery_replace_def
  by (auto split: option.splits intro: settles_rename)

lemma owns_listing:
  assumes "owns es0 M es"
  shows "owns es0 M (es @ [(List_directory d f, a)])" "owns es0 M (es @ [(List_directory d f, a), (Last_error, e)])"
  using owns_event [OF assms, of "List_directory d f" a]
    owns_event [of es0 M "es @ [(List_directory d f, a)]" Last_error e] by simp_all

lemma settles_temporary_pages:
  "owns es0 M es \<Longrightarrow> owns es0 M (snd (temporary_pages win d f found entries es))"
proof (induction win d f found entries es rule: temporary_pages.induct)
  case (1 win d f found entries es)
  show ?case
    using "1.prems" owns_listing [OF "1.prems"] "1.IH" [OF refl refl]
    by (subst temporary_pages.simps) (auto simp: Let_def split: walk.splits)
qed

lemma settles_temporary_count: "pres (owns es0 M) (temporary_count win d)"
  unfolding temporary_count_def pres_def by (simp add: settles_temporary_pages)

text \<open>What the pages of a listing log, for every predicate of the log that a listing keeps.\<close>

lemma exchange_pages_log:
  assumes "exchange_pages win d f found es = Some r"
    and "\<And>es d f a. I es \<Longrightarrow> I (es @ [(List_directory d f, a)])"
    and "\<And>es d f a e. I es \<Longrightarrow> I (es @ [(List_directory d f, a), (Last_error, e)])"
  shows "I es \<longrightarrow> I (snd r)"
proof (rule exchange_pages.raw_induct [where P = "\<lambda>win d f found es r. I es \<longrightarrow> I (snd r)", OF _ assms(1)])
  fix pages win d f found es r
  assume IH: "\<And>d f found es b y. pages d f found es b = Some y \<Longrightarrow> I b \<longrightarrow> I (snd y)"
    and run: "(let a = win es (List_directory d f); es1 = es @ [(List_directory d f, a)]
      in if \<not> w_flag a
         then let e = win es1 Last_error; es2 = es1 @ [(Last_error, e)]
              in Some (if w_status e = ERROR_NO_MORE_FILES then Val found else Err (Status UNAVAILABLE), es2)
         else case exchange_walk (page (w_bytes a)) 0 found of
              Enough n \<Rightarrow> Some (Val n, es1)
              | Page_end n x \<Rightarrow> pages win d False n es1
              | _ \<Rightarrow> Some (Err (Status UNAVAILABLE), es1)) = Some r"
  show "I es \<longrightarrow> I (snd r)"
    using run assms(2,3) IH by (auto simp: Let_def split: if_splits walk.splits)
qed

lemma settles_exchange_pages:
  "exchange_pages win d f found es = Some r \<Longrightarrow> owns es0 M es \<Longrightarrow> owns es0 M (snd r)"
  using exchange_pages_log [of win d f found es r "owns es0 M"] owns_listing by blast

text \<open>An operation that hands out a handle owns nothing else; without one it owns nothing.\<close>

definition handed :: "handle res \<Rightarrow> resource multiset" where
  "handed r = (case r of Val h \<Rightarrow> kernel h | Err e \<Rightarrow> {#})"

lemma handed_simps [simp]: "handed (Val h) = kernel h" "handed (Err e) = {#}"
  by (simp_all add: handed_def)

definition hands :: "handle wprog \<Rightarrow> bool" where
  "hands m \<longleftrightarrow> (\<forall>es0 M es. owns es0 M es \<longrightarrow> wp m (\<lambda>r t. owns es0 (M + handed r) t) es)"

named_theorems hands_intros \<open>operations that hand out what they own\<close>

lemma hands_err [hands_intros]: "hands (err e)"
  by (simp add: hands_def wp_err)

lemma hands_if [hands_intros]: "hands m \<Longrightarrow> hands n \<Longrightarrow> hands (if b then m else n)"
  by simp

lemma hands_seq [hands_intros]:
  assumes "\<And>es0 M. pres (owns es0 M) m" and "\<And>x. hands (f x)"
  shows "hands (seq m f)"
  unfolding hands_def
  by (intro allI impI, rule wp_seq_pres [OF assms(1)], assumption)
    (use assms(2) in \<open>auto simp: hands_def\<close>)

text \<open>\<open>open_native\<close> and what is made of its status.\<close>

definition opens :: "(u32 \<times> handle) wprog \<Rightarrow> bool" where
  "opens m \<longleftrightarrow> (\<forall>es0 M es. owns es0 M es \<longrightarrow> wp m (\<lambda>r t. \<exists>st h. r = Val (st, h) \<and> owns es0 (M + kernel h) t \<and>
     (st = 0 \<longleftrightarrow> usable h) \<and> (h \<noteq> 0 \<longrightarrow> usable h)) es)"

lemma opens_native [hands_intros]: "opens (open_native win p n d x disp sec fa fs)"
  unfolding opens_def using open_native_owns by blast

lemma hands_status:
  assumes m: "opens m" and f: "\<And>st h. hands (f st h) \<or> (\<forall>es. wp (f st h) (\<lambda>r t. t = es \<and> (if st = 0 then r = Val h else \<exists>e. r = Err e)) es)"
    and zero: "\<And>h es. wp (f 0 h) (\<lambda>r t. t = es \<and> r = Val h) es"
  shows "hands (seq m (\<lambda>(st, h). f st h))"
  unfolding hands_def
proof (intro allI impI)
  fix es0 M es assume "owns es0 M es"
  with m have "wp m (\<lambda>r t. \<exists>st h. r = Val (st, h) \<and> owns es0 (M + kernel h) t \<and>
     (st = 0 \<longleftrightarrow> usable h) \<and> (h \<noteq> 0 \<longrightarrow> usable h)) es" unfolding opens_def by blast
  then show "wp (seq m (\<lambda>(st, h). f st h)) (\<lambda>r t. owns es0 (M + handed r) t) es"
    unfolding wp_seq
  proof (rule wp_mono, elim exE conjE)
    fix r t and st :: u32 and h assume r: "r = Val (st, h)" and t: "owns es0 (M + kernel h) t" and "st = 0 \<longleftrightarrow> usable h" "h \<noteq> 0 \<longrightarrow> usable h"
    have "wp (f st h) (\<lambda>r t. owns es0 (M + handed r) t) t"
    proof (cases "st = 0")
      case True
      with zero [of h t] t show ?thesis by (auto elim!: wp_mono)
    next
      case False
      then have "\<not> usable h" using \<open>st = 0 \<longleftrightarrow> usable h\<close> by simp
      then have k: "owns es0 M t" using t by (simp add: kernel_def)
      from f [of st h] show ?thesis
      proof
        assume "hands (f st h)"
        with k show ?thesis by (simp add: hands_def)
      next
        assume "\<forall>es. wp (f st h) (\<lambda>r t. t = es \<and> (if st = 0 then r = Val h else \<exists>e. r = Err e)) es"
        from this [rule_format, of t] k False show ?thesis by (auto elim!: wp_mono)
      qed
    qed
    then show "case r of Val x \<Rightarrow> wp (case x of (st, h) \<Rightarrow> f st h) (\<lambda>r t. owns es0 (M + handed r) t) t
        | Err e \<Rightarrow> owns es0 (M + handed (Err e)) t" by (simp add: r)
  qed
qed

lemma hands_opened [hands_intros]: "opens m \<Longrightarrow> hands (opened_or b m)"
  unfolding opened_or_def
  by (erule hands_status) (auto simp: wp_err wp_ret name_not_found_def)

lemma hands_child: "hands (child win p n d c sid)"
proof -
  have create: "hands (seq (open_native win p n True False FILE_CREATE recipe 0 None) (\<lambda>(status, h).
          if status = name_collision
          then opened_or False (open_native win p n False False FILE_OPEN None 0 None)
          else opened_or False (ret (status, h))))" for recipe
  proof (rule hands_status)
    fix st :: u32 and h
    show "hands (if st = name_collision then opened_or False (open_native win p n False False FILE_OPEN None 0 None)
          else opened_or False (ret (st, h))) \<or>
        (\<forall>es. wp (if st = name_collision then opened_or False (open_native win p n False False FILE_OPEN None 0 None)
          else opened_or False (ret (st, h))) (\<lambda>r t. t = es \<and> (if st = 0 then r = Val h else \<exists>e. r = Err e)) es)"
      using hands_opened [OF opens_native, of False win p n False False FILE_OPEN None 0 None]
      by (cases "st = name_collision") (simp_all add: opened_or_def [of False "ret _"] wp_simps)
  qed (auto simp: opened_or_def wp_simps name_collision_def hands_intros)
  show ?thesis
    unfolding child_def Let_def
    apply (rule hands_if, rule hands_err)
    apply (rule hands_if, rule hands_opened, rule opens_native)
    apply (rule hands_seq, rule settles_build, rule hands_seq, rule pres_require)
    apply (rule hands_if, rule hands_opened, rule opens_native)
    apply (rule create)
    done
qed

lemma hands_existing [hands_intros]: "hands (open_existing win p n)"
  unfolding open_existing_def by (intro hands_intros)

lemma hands_named: "hands (association_open win p)" "hands (credential_open win p k)" "hands (discovery_open win p k)"
  "hands (temporary_create win p n sid)" "hands (local_directory win root)"
  unfolding association_open_def credential_open_def discovery_open_def temporary_create_def local_directory_def
  by (auto split: option.splits intro!: hands_intros pres_intros)

text \<open>Checks after the handle is there.\<close>

lemma returned_owns:
  assumes m: "\<And>N. pres (owns es0 N) m" and s: "owns es0 (M + kernel h) es"
  shows "wp (returned win h m) (\<lambda>r t. owns es0 (M + handed r) t) es"
  unfolding returned_def wp_seq [of "attempt m"] wp_attempt res.case
proof (rule wp_mono [OF wp_pres [OF m s]])
  fix r t assume t: "owns es0 (M + kernel h) t"
  show "wp (case r of Val _ \<Rightarrow> ret h | Err e \<Rightarrow> scoped win (win_handle h) (err e)) (\<lambda>r t. owns es0 (M + handed r) t) t"
  proof (cases r)
    case (Err e)
    have "wp (scoped win (win_handle h) (err e :: handle wprog)) (\<lambda>r t. owns es0 M t) t"
      by (rule scoped_handle) (simp add: wp_err t)
    moreover have "wp (scoped win (win_handle h) (err e :: handle wprog)) (\<lambda>r t. r = Err e) t"
      by (simp add: scoped_def wp_simps win_handle_def)
    ultimately have "wp (scoped win (win_handle h) (err e :: handle wprog)) (\<lambda>r t. owns es0 M t \<and> r = Err e) t"
      unfolding wp_conj by blast
    then show ?thesis unfolding Err by (auto elim!: wp_mono)
  qed (use t in \<open>simp add: wp_ret\<close>)
qed

lemma hands_returned:
  assumes "hands m" and c: "\<And>h es0 N. pres (owns es0 N) (check h)"
  shows "hands (seq m (\<lambda>h. returned win h (check h)))"
  unfolding hands_def
proof (intro allI impI)
  fix es0 M es assume "owns es0 M es"
  with assms(1) have "wp m (\<lambda>r t. owns es0 (M + handed r) t) es" unfolding hands_def by blast
  then show "wp (seq m (\<lambda>h. returned win h (check h))) (\<lambda>r t. owns es0 (M + handed r) t) es"
    unfolding wp_seq
    by (rule wp_mono) (auto split: res.splits intro!: returned_owns c)
qed

lemma hands_exchange_open: "hands (exchange_open win d n mode sid)"
  unfolding exchange_open_def
  by (intro hands_intros hands_returned settles_bytes(1)) (auto intro!: pres_intros)

lemma hands_exchange_lock: "hands (exchange_lock win i sid)"
proof -
  have mutex: "hands (seq (ask win (Create_mutex (lock_name i) sid)) (\<lambda>m.
     if w_handle m = 0 then err (Status UNAVAILABLE)
     else returned win (w_handle m) (seq (own_mutex win (w_handle m) sid) (\<lambda>_. take_mutex win (w_handle m)))))"
    unfolding hands_def
  proof (intro allI impI)
    let ?c = "Create_mutex (lock_name i) sid"
    fix es0 M es assume "owns es0 M es"
    then have o: "owns es0 (M + kernel (w_handle (win es ?c))) (es @ [(?c, win es ?c)])"
      using owns_event [of es0 M es ?c "win es ?c"] by (simp add: kernel_def split: if_splits)
    have checks: "pres (owns es0 N) (seq (own_mutex win h sid) (\<lambda>_. take_mutex win h))" for N h
      by (intro pres_intros settles_own_mutex settles_take_mutex)
    show "wp (seq (ask win ?c) (\<lambda>m. if w_handle m = 0 then err (Status UNAVAILABLE)
      else returned win (w_handle m) (seq (own_mutex win (w_handle m) sid) (\<lambda>_. take_mutex win (w_handle m)))))
      (\<lambda>r t. owns es0 (M + handed r) t) es"
      unfolding wp_seq [of "ask win ?c"] wp_ask res.case
      using o returned_owns [OF checks o] by (auto simp: wp_err kernel_def usable_def)
  qed
  show ?thesis
    unfolding exchange_lock_def
    by (rule hands_seq, rule settles_build, rule hands_seq, rule pres_require, rule mutex)
qed

section \<open>Where files come into being\<close>

fun creating :: "call \<Rightarrow> bool" where
  "creating (Child p n d c s) = c"
| "creating (Temporary_create d n s) = True"
| "creating (Exchange_open d n m s) = (m = 0)"
| "creating _ = False"

text \<open>
  No reparse point is ever followed, the two incompatible directory options are never combined,
  and a file may only be created with the user's security on it.
\<close>

definition lawful_open :: "bool \<Rightarrow> native_open \<Rightarrow> bool" where
  "lawful_open may_create n \<longleftrightarrow>
     no_attributes n = OBJ_CASE_INSENSITIVE OR OBJ_DONT_REPARSE \<and>
     (no_options n AND FILE_DIRECTORY_FILE = 0 \<or> no_options n AND FILE_OPEN_REPARSE_POINT = 0) \<and>
     (if no_disposition n = FILE_OPEN then no_security n = None
      else may_create \<and> no_security n \<noteq> None \<and> (no_disposition n = FILE_CREATE \<or> no_disposition n = FILE_OPEN_IF))"

definition lawful_since :: "wevent list \<Rightarrow> bool \<Rightarrow> wevent list \<Rightarrow> bool" where
  "lawful_since es0 may_create es \<longleftrightarrow>
     (\<exists>fs. es = es0 @ fs \<and> list_all (\<lambda>(c, a). \<forall>n. c = Nt_create_file n \<longrightarrow> lawful_open may_create n) fs)"

lemma lawful_refl: "lawful_since es c es"
  by (simp add: lawful_since_def)

lemma lawful_ask:
  assumes "\<And>n. c = Nt_create_file n \<Longrightarrow> lawful_open m n"
  shows "pres (lawful_since es0 m) (ask win c)"
  by (rule presI) (use assms in \<open>auto simp: ask_def Let_def lawful_since_def\<close>)

lemma lawful_steps [pres_intros]:
  assumes "\<And>n. c \<noteq> Nt_create_file n"
  shows "pres (lawful_since es0 m) (ask win c)" "pres (lawful_since es0 m) (demand win c)"
  unfolding demand_def by (intro pres_intros lawful_ask; use assms in simp)+

lemma lawful_allocate [pres_intros]: "pres (lawful_since es0 m) (allocate win n)"
  unfolding allocate_def by (intro pres_intros) simp_all

lemma pres_attempt_w [pres_intros]: "pres I p \<Longrightarrow> pres I (attempt p)"
  by (simp add: pres_def attempt_def split: prod.splits) (metis snd_conv)

lemma lawful_scoped [pres_intros]:
  "pres (lawful_since es0 m) p \<Longrightarrow> pres (lawful_since es0 m) (scoped win (win_handle h) p)"
  "pres (lawful_since es0 m) p \<Longrightarrow> pres (lawful_since es0 m) (scoped win (local_allocation q) p)"
  unfolding scoped_def by (auto intro!: pres_intros simp: win_handle_def local_allocation_def)

lemma native_options_apart:
  "native_options d x AND FILE_DIRECTORY_FILE = 0 \<or> native_options d x AND FILE_OPEN_REPARSE_POINT = 0"
  by (cases d; cases x) (simp_all add: native_options_def FILE_DIRECTORY_FILE_def FILE_OPEN_REPARSE_POINT_def
      FILE_SYNCHRONOUS_IO_NONALERT_def FILE_NON_DIRECTORY_FILE_def)

lemma lawful_native:
  assumes "if disp = FILE_OPEN then sec = None else m \<and> sec \<noteq> None \<and> (disp = FILE_CREATE \<or> disp = FILE_OPEN_IF)"
  shows "pres (lawful_since es0 m) (open_native win p n d x disp sec fa fs)"
proof -
  have "lawful_open m \<lparr>no_parent = p, no_name = n, no_access = native_access fa x,
      no_attributes = OBJ_CASE_INSENSITIVE OR OBJ_DONT_REPARSE, no_share = native_share fs x,
      no_disposition = disp, no_options = native_options d x, no_security = sec\<rparr>"
    using assms native_options_apart [of d x] by (simp add: lawful_open_def)
  then show ?thesis
    unfolding open_native_def by (intro pres_intros lawful_ask) simp_all
qed

lemma lawful_opened: "pres I m \<Longrightarrow> pres I (opened_or b m)"
  unfolding opened_or_def by (intro pres_intros) (auto intro!: pres_intros split: prod.splits)

lemma dispositions [simp]: "FILE_CREATE \<noteq> FILE_OPEN" "FILE_OPEN_IF \<noteq> FILE_OPEN"
  by (simp_all add: FILE_CREATE_def FILE_OPEN_def FILE_OPEN_IF_def)

lemma lawful_build [pres_intros]: "pres (lawful_since es0 m) (build_security win sid d x)"
proof -
  have "pres (lawful_since es0 m) (all_succeed win cs)" if "list_all (\<lambda>c. \<forall>n. c \<noteq> Nt_create_file n) cs" for cs
    using that by (induction cs) (auto intro!: pres_intros)
  then show ?thesis unfolding build_security_def by (auto intro!: pres_intros)
qed

lemma lawful_child: "pres (lawful_since es0 c) (child win p n d c sid)"
  unfolding child_def Let_def
  by (auto intro!: pres_intros lawful_opened lawful_native split: prod.splits)

lemma lawful_files:
  "pres (lawful_since es0 m) (open_existing win p n)" "pres (lawful_since es0 m) (local_directory win root)"
  "pres (lawful_since es0 True) (temporary_create win p n sid)"
  unfolding open_existing_def local_directory_def temporary_create_def
  by (auto intro!: pres_intros lawful_opened lawful_native split: option.splits)

lemma lawful_exchange_open: "pres (lawful_since es0 (mode = 0)) (exchange_open win d n mode sid)"
  unfolding exchange_open_def returned_def check_name_def Let_def
  by (auto intro!: pres_intros lawful_opened lawful_native split: res.splits)

lemma lawful_queries:
  "pres (lawful_since es0 m) (user_sid win)" "pres (lawful_since es0 m) (inspect win h)" "pres (lawful_since es0 m) (close win h)"
  "pres (lawful_since es0 m) (exchange_unlock win h)"
  unfolding user_sid_def inspect_def close_def exchange_unlock_def read_security_def read_entry_def Let_def
  by (auto intro!: pres_intros split: option.splits)

lemma lawful_lock: "pres (lawful_since es0 m) (exchange_lock win i sid)"
  unfolding exchange_lock_def returned_def own_mutex_def take_mutex_def
  by (auto intro!: pres_intros split: option.splits res.splits)

lemma lawful_bytes:
  "pres (lawful_since es0 m) (read_file win h)" "pres (lawful_since es0 m) (exchange_read_call win h k)"
  "pres (lawful_since es0 m) (exchange_nonce_call win k)" "pres (lawful_since es0 m) (exchange_delete win h)"
  "pres (lawful_since es0 m) (random_name win)" "pres (lawful_since es0 m) (write_file win h bs)"
  "pres (lawful_since es0 m) (flush_file win h)" "pres (lawful_since es0 m) (issue_rename win g t info report)"
  unfolding read_file_def exchange_read_call_def gen_random_def exchange_nonce_call_def exchange_delete_def
    random_name_def write_file_def flush_file_def issue_rename_def Let_def
  by (auto intro!: pres_intros)

lemma lawful_named:
  "pres (lawful_since es0 m) (association_open win p)" "pres (lawful_since es0 m) (credential_open win p k)"
  "pres (lawful_since es0 m) (discovery_open win p k)" "pres (lawful_since es0 m) (replace_file win t d e)"
  "pres (lawful_since es0 m) (credential_replace win t d k e)" "pres (lawful_since es0 m) (discovery_replace win t d k e)"
  unfolding association_open_def credential_open_def discovery_open_def replace_file_def credential_replace_def discovery_replace_def
  by (auto split: option.splits intro: lawful_files lawful_bytes pres_err)

lemma lawful_event: "lawful_since es0 m es \<Longrightarrow> (\<And>n. c \<noteq> Nt_create_file n) \<Longrightarrow> lawful_since es0 m (es @ [(c, a)])"
  by (auto simp: lawful_since_def)

lemma lawful_listing:
  assumes "lawful_since es0 m es"
  shows "lawful_since es0 m (es @ [(List_directory d f, a)])" "lawful_since es0 m (es @ [(List_directory d f, a), (Last_error, e)])"
  using lawful_event [OF assms, of "List_directory d f" a]
    lawful_event [of es0 m "es @ [(List_directory d f, a)]" Last_error e] by simp_all

lemma lawful_temporary_pages:
  "lawful_since es0 m es \<Longrightarrow> lawful_since es0 m (snd (temporary_pages win d f found entries es))"
proof (induction win d f found entries es rule: temporary_pages.induct)
  case (1 win d f found entries es)
  show ?case
    using "1.prems" lawful_listing [OF "1.prems"] "1.IH" [OF refl refl]
    by (subst temporary_pages.simps) (auto simp: Let_def split: walk.splits)
qed

lemma lawful_exchange_pages:
  "exchange_pages win d f found es = Some r \<Longrightarrow> lawful_since es0 m es \<Longrightarrow> lawful_since es0 m (snd r)"
  using exchange_pages_log [of win d f found es r "lawful_since es0 m"] lawful_listing by blast

section \<open>Properties\<close>

lemma answering_run: "answering put x = (a, t) \<Longrightarrow> t = snd x"
  by (auto simp: answering_def split: prod.splits)

lemma answer_handle_handed:
  assumes "hands m" and "answer_handle (m es) = (a, t)"
  shows "owns es (kernel (a_handle a)) t" "outcome a \<noteq> Status OK \<Longrightarrow> a_handle a = 0"
proof -
  obtain r u where m: "m es = (r, u)" by fastforce
  have "wp m (\<lambda>r t. owns es ({#} + handed r) t) es"
    using assms(1) owns_refl unfolding hands_def by blast
  then have "owns es (handed r) u" by (simp add: wp_def m)
  then show "owns es (kernel (a_handle a)) t" "outcome a \<noteq> Status OK \<Longrightarrow> a_handle a = 0"
    using assms(2) m by (cases r; auto simp: answering_def inert_answer_def kernel_def usable_def)+
qed

lemma answering_settled:
  assumes "pres (owns es {#}) m" and "answering put (m es) = (a, t)" and "\<And>x b. a_handle (put x b) = a_handle b"
  shows "owns es (kernel (a_handle a)) t \<and> a_handle a = 0"
proof -
  obtain r u where m: "m es = (r, u)" by fastforce
  have "owns es {#} u" using presD [OF assms(1) owns_refl m] .
  then show ?thesis
    using assms(2,3) m by (cases r) (auto simp: answering_def inert_answer_def kernel_def usable_def)
qed

text \<open>
  Claim C18.  Every Windows operation gives back what it obtains: the handles and allocations a
  call acquires are, on success and on every failure or exception, exactly those it releases
  and the one handle it answers with; a failure answers with none.
\<close>

theorem windows_call_owns:
  assumes "windows_call win root c es = Some (a, t)" and "\<And>h. c \<noteq> Close h" "\<And>h. c \<noteq> Exchange_unlock h"
  shows "owns es (kernel (a_handle a)) t \<and> (outcome a = Status OK \<or> a_handle a = 0)"
proof -
  have handle: "owns es (kernel (a_handle a)) t \<and> (outcome a = Status OK \<or> a_handle a = 0)"
    if "hands m" "answer_handle (m es) = (a, t)" for m
    using answer_handle_handed [OF that] by blast
  note handles = handle [OF hands_child] handle [OF hands_named(1)] handle [OF hands_named(2)] handle [OF hands_named(3)]
    handle [OF hands_named(4)] handle [OF hands_named(5)] handle [OF hands_exchange_open] handle [OF hands_exchange_lock]
  have quiet: "owns es (kernel (a_handle a)) t \<and> (outcome a = Status OK \<or> a_handle a = 0)"
    if "answering put (m es) = (a, t)" "pres (owns es {#}) m" "\<And>x b. a_handle (put x b) = a_handle b" for put :: "'b \<Rightarrow> answer \<Rightarrow> answer" and m
    using answering_settled [OF that(2,1,3)] by blast
  have pages: "owns es (kernel (a_handle a)) t \<and> (outcome a = Status OK \<or> a_handle a = 0)"
    if "exchange_count win d es = Some x" "answer_count x = (a, t)" for d x
    using that settles_exchange_pages [of win d True 0 es x es "{#}"] owns_refl [of es]
    by (cases x; cases "fst x") (auto simp: exchange_count_def answering_def inert_answer_def kernel_def usable_def)
  show ?thesis
    using assms
    by (cases c) (auto dest: handles quiet pages
        intro: settles_bytes settles_replace settles_inspect settles_user_sid settles_temporary_count)
qed

text \<open>A system that answers every open with handle 9, every query favourably, and 12 zero bytes.\<close>

definition sample_win :: win_ops where
  "sample_win es c = \<lparr>w_flag = True, w_status = 0, w_io = FILE_OPENED, w_handle = 9, w_size = 0, w_int = 0,
     w_bytes = [], w_text = [], w_serial = 0, w_index_high = 0, w_index_low = 0, w_attributes = 0, w_links = 0,
     w_pointer = 0, w_owner = None, w_present = False, w_dacl = False, w_control = 0, w_ace_count = 0, w_ace = None\<rparr>"

definition sample_child :: "answer \<times> wevent list" where
  "sample_child = the (windows_call sample_win (Err OtherExn) (Child 1 (wide ''state'') True False [1]) [])"

lemma sample_child_run:
  "windows_call sample_win (Err OtherExn) (Child 1 (wide ''state'') True False [1]) [] = Some (fst sample_child, snd sample_child)"
  by (simp add: sample_child_def)

lemma sample_child_handle: "a_handle (fst sample_child) = 9"
  by (simp add: sample_child_def child_def opened_or_def open_native_def sample_win_def answering_def seq_def ask_def
      ret_def Let_def safe_component_def dot_name_def wide_def forbidden_char_def colon_def slash_def backslash_def
      native_opened_def expected_result_def usable_def)

theorem windows_call_owns_witness: "owns [] {#Kernel 9#} (snd sample_child)"
  using windows_call_owns [OF sample_child_run] sample_child_handle by (simp add: kernel_def usable_def)

text \<open>
  Files come into being only where the core asks for it: a call that does not create
  opens existing files only and passes no security; one that does creates with the user's
  security on the new file.  Every open refuses reparse points, and none combines the two
  directory options that exclude each other.
\<close>

theorem windows_call_creates:
  assumes "windows_call win root c es = Some (a, t)"
  shows "\<exists>fs. t = es @ fs \<and> list_all (\<lambda>(w, b). \<forall>n. w = Nt_create_file n \<longrightarrow> lawful_open (creating c) n) fs"
proof -
  have run: "lawful_since es m t" if "answering put (p es) = (a, t)" "pres (lawful_since es m) p"
    for put :: "'b \<Rightarrow> answer \<Rightarrow> answer" and p m
    using that(2) lawful_refl [of es m] answering_run [OF that(1)] by (simp add: pres_def)
  have temporary: "pres (lawful_since es m) (temporary_count win d)" for m d
    unfolding temporary_count_def pres_def by (simp add: lawful_temporary_pages)
  have pages: "lawful_since es m t" if "exchange_count win d es = Some x" "answer_count x = (a, t)" for d x m
    using lawful_exchange_pages [OF that(1) [unfolded exchange_count_def] lawful_refl] answering_run [OF that(2)] by simp
  have "lawful_since es (creating c) t"
  proof (cases "\<exists>d. c = Exchange_count d")
    case True
    then show ?thesis using assms by (auto intro: pages)
  next
    case False
    then show ?thesis
      using assms
      by (cases c) (auto dest: run intro: temporary lawful_child lawful_files lawful_named lawful_exchange_open lawful_queries
          lawful_lock lawful_bytes)
  qed
  then show ?thesis by (simp add: lawful_since_def)
qed

theorem windows_call_creates_witness:
  "\<exists>fs. snd sample_child = fs \<and> list_all (\<lambda>(w, b). \<forall>n. w = Nt_create_file n \<longrightarrow> lawful_open False n) fs"
  using windows_call_creates [OF sample_child_run] by simp

text \<open>
  Claim C20.  The count of the exchange directory returns whenever the system's listing ends: if
  no page is answered once \<open>n\<close> further calls were made, the count is known after at most \<open>n + 2\<close>.
\<close>

theorem exchange_count_returns:
  assumes "\<And>es' first. length es + n \<le> length es' \<Longrightarrow> \<not> w_flag (win es' (List_directory d first))"
  shows "\<exists>r t. exchange_count win d es = Some (r, t) \<and> length t \<le> length es + n + 2"
proof -
  have "\<exists>r u. exchange_pages win d first found t = Some (r, u) \<and> length u \<le> max (length t) (length es + n) + 2"
    for first found t
  proof (induction "length es + n - length t" arbitrary: first found t rule: less_induct)
    case less
    let ?c = "List_directory d first"
    show ?case
    proof (cases "w_flag (win t ?c)")
      case False
      then show ?thesis by (subst exchange_pages.simps) (simp add: Let_def)
    next
      case True
      then have shorter: "length t < length es + n" using assms [of t first] by (meson not_le)
      note next_page = less [of "t @ [(?c, win t ?c)]" False]
      from shorter have bound: "max (length (t @ [(?c, win t ?c)])) (length es + n) = max (length t) (length es + n)" by simp
      show ?thesis
        using True shorter next_page
        by (subst exchange_pages.simps) (auto simp: Let_def bound split: walk.splits)
    qed
  qed
  from this [of True 0 es] show ?thesis by (simp add: exchange_count_def)
qed

text \<open>A directory that shows one empty page, then ends.\<close>

definition sample_listing :: win_ops where
  "sample_listing es c = (sample_win es c)\<lparr>w_flag := es = [], w_status := ERROR_NO_MORE_FILES\<rparr>"

theorem exchange_count_returns_witness:
  "\<exists>r t. exchange_count sample_listing 5 [] = Some (r, t) \<and> length t \<le> 3"
proof -
  have "\<not> w_flag (sample_listing es' (List_directory 5 first))" if "length [] + 1 \<le> length es'" for es' :: "wevent list" and first
    using that by (cases es') (simp_all add: sample_listing_def)
  then have "\<And>es' first. length ([] :: wevent list) + 1 \<le> length es' \<Longrightarrow> \<not> w_flag (sample_listing es' (List_directory 5 first))" .
  then show ?thesis using exchange_count_returns [where es = "[]" and n = 1 and win = sample_listing and d = 5] by (simp add: eval_nat_numeral)
qed

lemma hex_text_lower: "\<forall>c \<in> set (wide (hex_text bs)). lower_hex c"
proof -
  have "\<forall>c \<in> set (wide hex_digits). lower_hex c"
    by (simp add: wide_def hex_digits_def lower_hex_def)
  then show ?thesis using hex_text_chars [of bs] by (auto simp: wide_def)
qed

lemma lower_hex_clean: "lower_hex c \<Longrightarrow> \<not> forbidden_char c \<and> c \<noteq> backslash \<and> c \<noteq> of_char (CHR ''.'') \<and> c \<noteq> of_char (CHR '' '')"
  by (auto simp: lower_hex_def forbidden_char_def wide_def colon_def slash_def backslash_def
      word_le_nat_alt word_less_nat_alt)

lemma temporary_name_safe:
  assumes "hex_name r 16" "hex_name n 8"
  shows "safe_component (temporary_name r n)"
proof -
  let ?t = "temporary_name r n"
  have n: "n \<noteq> []" using assms(2) by (auto simp: hex_name_def)
  then have "last n \<in> set n" by simp
  have len: "length ?t = 30" using assms by (simp add: temporary_name_def hex_name_def wide_def)
  have clean: "\<not> forbidden_char c \<and> c \<noteq> backslash" if "c \<in> set ?t" for c
  proof -
    have "c \<in> set r \<or> c \<in> set n \<or> c \<in> set (wide ''~tmp-'')" using that by (auto simp: temporary_name_def wide_def)
    then show ?thesis
      using assms lower_hex_clean
      by (auto simp: hex_name_def wide_def forbidden_char_def colon_def slash_def backslash_def)
  qed
  have "last ?t = last n" using n by (simp add: temporary_name_def)
  then have "last ?t \<noteq> of_char (CHR ''.'')" "last ?t \<noteq> of_char (CHR '' '')"
    using lower_hex_clean [of "last n"] assms(2) \<open>last n \<in> set n\<close> by (auto simp: hex_name_def)
  moreover have "?t \<noteq> []" "\<not> dot_name ?t" using len by (auto simp: dot_name_def wide_def)
  ultimately show ?thesis using len clean by (auto simp: safe_component_def)
qed

text \<open>
  The names \<open>random_name\<close> answers always pass the check of the stores: sixteen and
  eight lower-case hexadecimal digits, whatever bytes the generator answered, and the temporary
  they name is a safe component.
\<close>

theorem random_name_accepted:
  "case random_name win es of
     (Val (runtime, random), t) \<Rightarrow>
       hex_name runtime 16 \<and> hex_name random 8 \<and> safe_component (temporary_name runtime random)
   | (Err e, t) \<Rightarrow> e = Status UNAVAILABLE"
proof -
  have hex: "hex_name (wide (hex_text bs)) (2 * length bs)" for bs
    using hex_text_lower [of bs] by (simp add: hex_name_def wide_def)
  have "hex_name (wide (hex_text (take 8 bs))) 16" "hex_name (wide (hex_text (drop 8 bs))) 8" if "length bs = 12" for bs
    using hex [of "take 8 bs"] hex [of "drop 8 bs"] that by simp_all
  then have "wp (random_name win) (\<lambda>r t. case r of Val (runtime, random) \<Rightarrow>
       hex_name runtime 16 \<and> hex_name random 8 \<and> safe_component (temporary_name runtime random)
     | Err e \<Rightarrow> e = Status UNAVAILABLE) es"
    by (simp add: random_name_def gen_random_def wp_simps temporary_name_safe)
  then show ?thesis by (auto simp: wp_def split: prod.splits res.splits)
qed

end
