(* ===== verification/Owner_Liveness.thy ===== *)
theory Owner_Liveness
  imports Owner_Custody Sample_World
begin

text \<open>
  An owner can be acquired: on a system that opens what it is asked to open and reports the
  protected objects it should, \<open>ProtectedObjects::acquire\<close> succeeds.
\<close>

section \<open>An obliging system\<close>

text \<open>\<open>disk h\<close> is the object behind the handle \<open>h\<close>, whatever was called before.\<close>

definition opens_valid :: "answer \<Rightarrow> (handle \<Rightarrow> object_info) \<Rightarrow> sid \<Rightarrow> bool \<Rightarrow> bool" where
  "opens_valid a disk sid directory \<longleftrightarrow> outcome a = Status OK \<and> usable (a_handle a) \<and>
     object_valid (disk (a_handle a)) sid directory True True \<and> volume (disk (a_handle a)) = volume (disk 0)"

definition obliging :: "object_ops \<Rightarrow> sid \<Rightarrow> (handle \<Rightarrow> object_info) \<Rightarrow> bool" where
  "obliging ops sid disk \<longleftrightarrow>
     (\<forall>h. outcome (ops h User_sid) = Status OK \<and> a_sid (ops h User_sid) = sid \<and>
       opens_valid (ops h Local_directory) disk sid True \<and>
       (\<forall>p n d c. opens_valid (ops h (Child p n d c sid)) disk sid d) \<and>
       (\<forall>k. outcome (ops h (Inspect k)) = Status OK \<and> a_info (ops h (Inspect k)) = disk k))"

lemma object_valid_directory: "object_valid i sid d o' l \<Longrightarrow> is_directory i = d"
  by (simp add: object_valid_def split: if_splits)

lemma object_valid_weaker: "object_valid i sid d True True \<Longrightarrow> object_valid i sid d o' l"
  by (auto simp: object_valid_def split: if_splits)

lemma object_valid_user: "object_valid i sid d o' l \<Longrightarrow> sid \<noteq> []"
  by (auto simp: object_valid_def)

section \<open>The chain of pins\<close>

text \<open>Every pin shows its object, valid as the pin demands, on the volume of the first.\<close>

definition sound_pins :: "sid \<Rightarrow> (handle \<Rightarrow> object_info) \<Rightarrow> pin list \<Rightarrow> bool" where
  "sound_pins sid disk ps \<longleftrightarrow> ps \<noteq> [] \<and>
     list_all (\<lambda>p. pin_identity p = disk (pin_handle p) \<and> object_valid (pin_identity p) sid
       (is_directory (pin_identity p)) (pin_owner p) (pin_dacl p) \<and> volume (pin_identity p) = volume (disk 0)) ps"

definition sound :: "sid \<Rightarrow> (handle \<Rightarrow> object_info) \<Rightarrow> 'x run_scheme \<Rightarrow> bool" where
  "sound sid disk s \<longleftrightarrow> sound_pins sid disk (l_pins (cur s))"

text \<open>\<open>smooth K p\<close>: from \<open>K\<close>, \<open>p\<close> succeeds and \<open>K\<close> holds after it.\<close>

definition smooth :: "('s \<Rightarrow> bool) \<Rightarrow> ('s, 'a) prog \<Rightarrow> bool" where
  "smooth K p \<longleftrightarrow> (\<forall>s. K s \<longrightarrow> wp p (\<lambda>r t. (\<exists>x. r = Val x) \<and> K t) s)"

lemma smooth_seq: "smooth K m \<Longrightarrow> (\<And>x. smooth K (f x)) \<Longrightarrow> smooth K (seq m f)"
  unfolding smooth_def wp_seq
  by (intro allI impI) (rule wp_mono, blast, auto)

lemma smooth_steps:
  "smooth K (ret x)" "smooth K (lease_get g)" "b \<Longrightarrow> smooth K (require b st)"
  "(b \<Longrightarrow> smooth K m) \<Longrightarrow> (\<not> b \<Longrightarrow> smooth K n) \<Longrightarrow> smooth K (if b then m else n)"
  by (simp_all add: smooth_def wp_simps)

lemma smooth_settles: "smooth K p \<Longrightarrow> K s \<Longrightarrow> wp p (\<lambda>r t. settle r = OK) s"
  unfolding smooth_def by (rule wp_mono, blast, auto)

lemma smooth_inspect_each:
  "obliging ops sid disk \<Longrightarrow> list_all (\<lambda>p. pin_current p sid (disk (pin_handle p))) ps \<Longrightarrow>
    wp (inspect_each ops sid ps) (\<lambda>r t. r = Val () \<and> cur t = cur s) s"
proof (induction ps arbitrary: s)
  case (Cons p ps)
  note next_pins = Cons.IH [OF Cons.prems(1), of "s\<lparr>hist := hist s @ [(Inspect (pin_handle p), ops (hist s) (Inspect (pin_handle p)))]\<rparr>"]
  show ?case using Cons.prems next_pins by (simp add: wp_simps Let_def obliging_def)
qed (simp add: wp_simps)

lemma smooth_inspect:
  assumes "obliging ops sid disk"
  shows "smooth (sound sid disk) (inspect_pins ops sid)"
  unfolding smooth_def
proof (intro allI impI)
  fix s :: "'a run_scheme" assume s: "sound sid disk s"
  then have "list_all (\<lambda>p. pin_current p sid (disk (pin_handle p))) (l_pins (cur s))"
    by (auto simp: sound_def sound_pins_def pin_current_def list_all_iff)
  from smooth_inspect_each [OF assms this] show "wp (inspect_pins ops sid) (\<lambda>r t. (\<exists>x. r = Val x) \<and> sound sid disk t) s"
    unfolding inspect_pins_def by (simp add: wp_simps) (rule wp_mono, assumption, use s in \<open>auto simp: sound_def\<close>)
qed

lemma sound_push:
  assumes "opens_valid a disk sid d" and "sound_pins sid disk ps" and "p = \<lparr>pin_handle = a_handle a,
    pin_identity = disk (a_handle a), pin_owner = True, pin_dacl = dacl\<rparr>"
  shows "sound_pins sid disk (ps @ [p])"
  using assms object_valid_directory [of "disk (a_handle a)"] object_valid_weaker [of "disk (a_handle a)"]
  by (auto simp: sound_pins_def opens_valid_def)

lemma smooth_add:
  assumes ob: "obliging ops sid disk" and name: "safe_component name"
  shows "smooth (sound sid disk :: 'x run_scheme \<Rightarrow> bool) (add ops b parent name d sid dacl create)"
proof -
  have tail: "smooth (sound sid disk :: 'x run_scheme \<Rightarrow> bool) (seq (upd (push_pin True dacl)) (\<lambda>_.
    seq (open_last ops (Child parent name d c sid)) (\<lambda>_.
    seq (lease_get (\<lambda>l. (pin_identity (last (l_pins l)), volume (pin_identity (hd (l_pins l))))))
      (\<lambda>(identity, root_volume).
    require (object_valid identity sid d True dacl \<and> volume identity = root_volume) UNAVAILABLE))))" for c
    unfolding smooth_def
  proof (intro allI impI)
    fix s :: "'x run_scheme" assume s: "sound sid disk s"
    let ?a = "ops (hist s) (Child parent name d c sid)"
    have a: "opens_valid ?a disk sid d" using ob by (simp add: obliging_def)
    have i: "outcome (ops h (Inspect k)) = Status OK" "a_info (ops h (Inspect k)) = disk k" for h k
      using ob by (simp_all add: obliging_def)
    have ne: "l_pins (cur s) \<noteq> []" "volume (pin_identity (hd (l_pins (cur s)))) = volume (disk 0)"
      using s hd_in_set [of "l_pins (cur s)"] by (auto simp: sound_def sound_pins_def list_all_iff simp del: hd_in_set)
    have v: "object_valid (disk (a_handle ?a)) sid d True dacl" "volume (disk (a_handle ?a)) = volume (disk 0)"
      "outcome ?a = Status OK" "usable (a_handle ?a)"
      using a by (simp_all add: opens_valid_def object_valid_weaker)
    show "wp (seq (upd (push_pin True dacl)) (\<lambda>_.
      seq (open_last ops (Child parent name d c sid)) (\<lambda>_.
      seq (lease_get (\<lambda>l. (pin_identity (last (l_pins l)), volume (pin_identity (hd (l_pins l))))))
        (\<lambda>(identity, root_volume).
      require (object_valid identity sid d True dacl \<and> volume identity = root_volume) UNAVAILABLE))))
      (\<lambda>r t. (\<exists>x. r = Val x) \<and> sound sid disk t) s"
      using s ne v sound_push [OF a]
      by (simp add: wp_simps open_last_def push_pin_def set_last_pin_def map_last_def empty_pin_def i sound_def)
  qed
  show ?thesis
    unfolding add_def by (intro smooth_seq smooth_steps smooth_inspect [OF ob] tail name)
qed

lemma store_names:
  "list_all (\<lambda>n. safe_component (wide n)) [''Shiroha'', ''external'', ''bridge'', ''runtime.lock'', ''client.lock'',
    ''app'', ''trust'', ''state'', ''discovery'', ''exchange'']"
  by code_simp

text \<open>From an empty lease the chain succeeds for either role.\<close>

lemma obliging_chain:
  assumes ob: "obliging ops sid disk" and s: "l_pins (cur s) = []"
  shows "wp (acquire_chain ops b role) (\<lambda>r t. settle r = OK) s"
proof -
  let ?K = "sound sid disk"
  have names: "safe_component (wide n)" if "n \<in> set [''Shiroha'', ''external'', ''bridge'', ''runtime.lock'',
    ''client.lock'', ''app'', ''trust'', ''state'', ''discovery'', ''exchange'']" for n
    using store_names that by (simp only: list_all_iff)
  note steps = smooth_seq smooth_steps smooth_add [OF ob] smooth_inspect [OF ob]
  have rest: "smooth ?K (seq (add_last ops b ''Shiroha'' True sid False (role = ROLE_APP)) (\<lambda>_.
     seq (add_last ops b ''external'' True sid True (role = ROLE_APP)) (\<lambda>external.
     seq (if role = ROLE_BRIDGE then add_under ops b external ''bridge'' sid else ret external) (\<lambda>_.
     seq (add_last ops b (if role = ROLE_APP then ''runtime.lock'' else ''client.lock'') False sid True True) (\<lambda>_.
     seq (if role = ROLE_APP then acquire_stores ops b external sid else ret ()) (\<lambda>_.
     inspect_pins ops sid))))))"
    unfolding add_last_def add_under_def acquire_stores_def
    by (intro steps names) simp_all
  let ?a = "ops (hist s @ [(User_sid, ops (hist s) User_sid)]) Local_directory"
  have i: "outcome (ops h (Inspect k)) = Status OK" "a_info (ops h (Inspect k)) = disk k"
    "outcome (ops h User_sid) = Status OK" "a_sid (ops h User_sid) = sid" for h k
    using ob by (simp_all add: obliging_def)
  have a: "opens_valid ?a disk sid True" using ob by (simp add: obliging_def)
  have root: "wp (acquire_root ops) (\<lambda>r t. r = Val sid \<and> ?K t) s"
    using s a object_valid_weaker [of "disk (a_handle ?a)" sid True False False]
      object_valid_user [of "disk (a_handle ?a)" sid True True True]
      object_valid_directory [of "disk (a_handle ?a)" sid True True True]
    by (simp add: wp_simps acquire_root_def open_last_def push_pin_def set_last_pin_def map_last_def empty_pin_def
      i Let_def opens_valid_def sound_def sound_pins_def)
  show ?thesis
    unfolding acquire_chain_def wp_seq [of "acquire_root ops"]
    by (rule wp_mono [OF root]) (use smooth_settles [OF rest] in auto)
qed

text \<open>A system with one directory and one file.\<close>

fun acquiring_ops :: object_ops where
  "acquiring_ops h Local_directory = sample_answer\<lparr>a_handle := 1\<rparr>"
| "acquiring_ops h (Child p n d c s) = sample_answer\<lparr>a_handle := (if d then 1 else 11)\<rparr>"
| "acquiring_ops h c = sample_ops h c"

lemma acquiring_obliging: "obliging acquiring_ops sample_sid (\<lambda>k. if k = 1 then sample_directory else sample_file)"
proof -
  have "object_valid sample_directory sample_sid True True True" "object_valid sample_file sample_sid False True True"
    by (simp_all add: object_valid_def sample_directory_def sample_file_def sample_sid_def sample_ace_def
      is_directory_def ATTRIBUTE_DIRECTORY_def ATTRIBUTE_REPARSE_POINT_def)
  then show ?thesis
    by (simp add: obliging_def opens_valid_def sample_answer_def usable_def sample_directory_def sample_file_def)
qed

end
