(* ===== verification/Owner_Exports.thy ===== *)
theory Owner_Exports
  imports Association_Contract Exchange_Contract Discovery_Contract Windows_Contract Owner_Liveness
begin

text \<open>
  The exported owner functions of \<open>protected_windows.cpp\<close> over the one \<open>ProtectedObjects\<close> of the
  process: the calls a client can make, the states they lead to, and what holds in all of them.
\<close>

section \<open>The exports\<close>

datatype export =
    Shiroha_owner_acquire u32 u32 ptr
  | Shiroha_owner_validate u32 u64
  | Shiroha_owner_close u32 u64
  | Shiroha_association_begin u32 u64 ptr u64 ptr ptr
  | Shiroha_association_commit u32 u64 u64 ptr u64
  | Shiroha_association_abort u32 u64 u64
  | Shiroha_credential_begin u32 u64 u32 ptr u64 ptr ptr
  | Shiroha_credential_commit u32 u64 u64 ptr u64
  | Shiroha_credential_abort u32 u64 u64
  | Shiroha_exchange_create u32 u64 u32 ptr ptr u64 ptr
  | Shiroha_exchange_read u32 u64 u32 ptr ptr u64 ptr
  | Shiroha_exchange_cleanup u32 u64 u64
  | Shiroha_exchange_read_begin u32 u64 u32 ptr ptr u64 ptr ptr
  | Shiroha_exchange_consume u32 u64 ptr
  | Shiroha_exchange_release u32 u64 ptr
  | Shiroha_discovery_publish u32 u64 u32 ptr u64
  | Shiroha_discovery_read u32 u64 u32 ptr u64 ptr

text \<open>The observation of a begin and the diagnostic of a commit stay inside the process.\<close>

definition result_only :: "status \<times> 'a \<times> objects \<Rightarrow> status \<times> objects" where
  "result_only = (\<lambda>(st, _, s). (st, s))"

fun call_export :: "object_ops \<Rightarrow> export \<Rightarrow> objects \<Rightarrow> status \<times> objects" where
  "call_export ops (Shiroha_owner_acquire version role token) s = acquire ops version role token s"
| "call_export ops (Shiroha_owner_validate version token) s = validate ops version token s"
| "call_export ops (Shiroha_owner_close version token) s = close_owner ops version token s"
| "call_export ops (Shiroha_association_begin version owner output capacity written ticket) s =
     result_only (association_begin ops version owner output capacity written ticket s)"
| "call_export ops (Shiroha_association_commit version owner ticket input len) s =
     result_only (association_commit ops version owner ticket input len s)"
| "call_export ops (Shiroha_association_abort version owner ticket) s = association_abort ops version owner ticket s"
| "call_export ops (Shiroha_credential_begin version owner kind output capacity written ticket) s =
     result_only (credential_begin ops version owner kind output capacity written ticket s)"
| "call_export ops (Shiroha_credential_commit version owner ticket input len) s =
     result_only (credential_commit ops version owner ticket input len s)"
| "call_export ops (Shiroha_credential_abort version owner ticket) s = credential_abort ops version owner ticket s"
| "call_export ops (Shiroha_exchange_create version owner kind oid input len receipt) s =
     exchange_create ops version owner kind oid input len receipt s"
| "call_export ops (Shiroha_exchange_read version owner kind oid output capacity written) s =
     exchange_read_op ops version owner kind oid output capacity written s"
| "call_export ops (Shiroha_exchange_cleanup version owner receipt) s = exchange_cleanup ops version owner receipt s"
| "call_export ops (Shiroha_exchange_read_begin version owner kind oid output capacity written ticket) s =
     exchange_read_begin ops version owner kind oid output capacity written ticket s"
| "call_export ops (Shiroha_exchange_consume version owner ticket) s = exchange_consume ops version owner ticket s"
| "call_export ops (Shiroha_exchange_release version owner ticket) s = exchange_release ops version owner ticket s"
| "call_export ops (Shiroha_discovery_publish version owner kind input len) s =
     discovery_publish ops version owner kind input len s"
| "call_export ops (Shiroha_discovery_read version owner kind output capacity written) s =
     discovery_read ops version owner kind output capacity written s"

fun_cases call_export_elims: "call_export ops e s = (st, t)"

section \<open>The states of the process\<close>

text \<open>
  One client step: an export, each under the mutex of \<open>ProtectedObjects\<close>, or a write of the client
  to its own memory, which may be any memory.
\<close>

inductive client_step :: "object_ops \<Rightarrow> objects \<Rightarrow> objects \<Rightarrow> bool" for ops where
  exported: "call_export ops e s = (st, t) \<Longrightarrow> client_step ops s t"
| client_write: "client_step ops s (o_write f s)"

inductive_cases client_step_cases: "client_step ops s t"

inductive reachable :: "object_ops \<Rightarrow> bool \<Rightarrow> objects \<Rightarrow> bool" for ops initialize where
  constructed: "reachable ops initialize (new_objects initialize [] m)"
| stepped: "reachable ops initialize s \<Longrightarrow> client_step ops s t \<Longrightarrow> reachable ops initialize t"

text \<open>What every step keeps holds in every state that is reached.\<close>

locale kept_by_clients =
  fixes I :: "objects \<Rightarrow> bool" and ops :: object_ops and initialize :: bool
  assumes initially: "I (new_objects initialize [] m)"
    and by_exports: "I s \<Longrightarrow> call_export ops e s = (st, t) \<Longrightarrow> I t"
    and by_writes: "I s \<Longrightarrow> I (o_write f s)"
begin

lemma by_steps: "client_step ops s t \<Longrightarrow> I s \<Longrightarrow> I t"
  by (erule client_step_cases) (auto intro: by_exports by_writes)

lemma always: "reachable ops initialize s \<Longrightarrow> I s"
  by (induction rule: reachable.induct) (auto intro: initially by_steps)

end

lemmas export_inv = acquire_keeps_inv validate_keeps_inv close_keeps_inv begin_keeps_inv commit_keeps_inv
  abort_keeps_inv exchange_create_keeps_inv exchange_read_op_inv exchange_read_begin_inv
  exchange_settle_keeps_inv exchange_cleanup_keeps_inv discovery_publish_keeps_inv discovery_read_keeps_inv

lemma export_keeps_inv:
  assumes "objects_inv s" and "call_export ops e s = (st, t)"
  shows "objects_inv t"
proof -
  have "objects_inv (snd (call_export ops e s))"
    using export_inv [OF assms(1)]
    by (cases e) (simp_all add: result_only_def association_begin_def credential_begin_def
      association_commit_def credential_commit_def association_abort_def credential_abort_def
      exchange_consume_def exchange_release_def split: prod.splits, (metis snd_conv)+)
  then show ?thesis using assms(2) by simp
qed

interpretation custody_kept: kept_by_clients objects_inv ops initialize for ops initialize
  by unfold_locales (auto intro: objects_inv_new accounted_start export_keeps_inv)

section \<open>Owner tokens\<close>

text \<open>The mode never changes and the next token only grows.\<close>

definition later_owners :: "objects \<Rightarrow> objects \<Rightarrow> bool" where
  "later_owners s t \<longleftrightarrow> o_initialize t = o_initialize s \<and> o_next_token s \<le> o_next_token t"

lemma later_refl [simp]: "later_owners s s"
  by (simp add: later_owners_def)

lemma later_trans: "later_owners s t \<Longrightarrow> later_owners t u \<Longrightarrow> later_owners s u"
  by (auto simp: later_owners_def)

lemma later_parts [simp]:
  "later_owners s (o_write f t) = later_owners s t" "later_owners s (leave i r t) = later_owners s t"
  "later_owners s (forget i t) = later_owners s t" "later_owners s (set_kind i k t) = later_owners s t"
  by (simp_all add: later_owners_def o_write_def leave_def forget_def set_kind_def)

lemma later_claim: "o_next_token s \<le> INT64_MAX \<Longrightarrow> later_owners s (claim_slot i role (o_write f s))"
  by (auto simp: later_owners_def claim_slot_def o_write_def INT64_MAX_def word_le_nat_alt unat_word_ariths)

lemma later_acquire: "later_owners s (snd (acquire ops version role token s))"
  by (cases rule: acquire_cases [of ops version role token s]) (auto simp: later_claim)

lemma later_leases:
  "later_owners s (snd (validate ops version token s))" "later_owners s (snd (close_owner ops version token s))"
  by (auto simp: validate_def close_owner_def split: option.splits prod.splits)

lemma later_association:
  "later_owners s (snd (snd (begin_op ops version owner kind output capacity written ticket s)))"
  "later_owners s (snd (snd (commit_op ops version owner ticket credential input len s)))"
  "later_owners s (snd (abort_op ops version owner ticket credential s))"
  by (auto simp: begin_op_def begin_slot_def commit_op_def commit_slot_def abort_op_def Let_def
      split: option.splits prod.splits res.splits)

lemma later_exchange_operation:
  "later_owners s (snd (snd (exchange_operation ops owner kind oid input capacity create ticketed s)))"
  by (auto simp: exchange_operation_def split: option.splits prod.splits res.splits)

lemma later_exchange:
  "later_owners s (snd (exchange_create ops version owner kind oid input len receipt s))"
  "later_owners s (snd (exchange_read_op ops version owner kind oid output capacity written s))"
  "later_owners s (snd (exchange_read_begin ops version owner kind oid output capacity written ticket s))"
proof -
  have step: "later_owners s u" if "exchange_operation ops owner k n b c cr ti (o_write f s) = (st, d, u)"
    for k n b c cr ti f st d u
    using later_exchange_operation [of "o_write f s" ops owner k n b c cr ti] that
    by (simp add: later_owners_def o_write_def)
  show "later_owners s (snd (exchange_create ops version owner kind oid input len receipt s))"
    by (auto simp: exchange_create_def Let_def dest: step split: prod.splits delivery.splits)
  show "later_owners s (snd (exchange_read_op ops version owner kind oid output capacity written s))"
    by (auto simp: exchange_read_op_def Let_def dest: step split: prod.splits delivery.splits)
  show "later_owners s (snd (exchange_read_begin ops version owner kind oid output capacity written ticket s))"
    by (auto simp: exchange_read_begin_def Let_def dest: step split: prod.splits delivery.splits)
qed

lemma later_settlement:
  "later_owners s (snd (exchange_settle ops version owner ticket consume s))"
  "later_owners s (snd (exchange_cleanup ops version owner receipt s))"
  by (auto simp: exchange_settle_def exchange_cleanup_def Let_def split: option.splits prod.splits res.splits)

lemma later_discovery:
  "later_owners s (snd (discovery_publish ops version owner kind input len s))"
  "later_owners s (snd (discovery_read ops version owner kind output capacity written s))"
proof -
  have step: "later_owners s u" if "discovery_operation ops owner k b p (o_write f s) = (st, d, u)" for k b p f st d u
    using that by (auto simp: discovery_operation_def split: option.splits prod.splits res.splits if_splits)
  have "o_write id s = s" by (simp add: o_write_def)
  then show "later_owners s (snd (discovery_publish ops version owner kind input len s))"
    using step [of _ _ _ id] by (auto simp: discovery_publish_def split: prod.splits)
  show "later_owners s (snd (discovery_read ops version owner kind output capacity written s))"
    by (auto simp: discovery_read_def Let_def dest: step split: prod.splits)
qed

lemmas later_exports = later_acquire later_leases later_association later_exchange later_settlement later_discovery

lemma later_export:
  assumes "call_export ops e s = (st, t)"
  shows "later_owners s t"
proof -
  have "later_owners s (snd (call_export ops e s))"
    using later_exports [of s]
    by (cases e) (simp_all add: result_only_def association_begin_def credential_begin_def
      association_commit_def credential_commit_def association_abort_def credential_abort_def
      exchange_consume_def exchange_release_def split: prod.splits, (metis snd_conv)+)
  then show ?thesis using assms by simp
qed

lemma later_step: "client_step ops s t \<Longrightarrow> later_owners s t"
  by (erule client_step_cases) (auto dest: later_export)

lemma later_steps: "(client_step ops)\<^sup>*\<^sup>* s t \<Longrightarrow> later_owners s t"
  by (induction rule: rtranclp_induct) (auto intro: later_trans later_step)

interpretation mode_kept: kept_by_clients "\<lambda>s. o_initialize s = initialize" ops initialize for ops initialize
  by unfold_locales (auto simp: new_objects_def o_write_def later_owners_def dest: later_export)

text \<open>A successful acquisition hands out the next token.\<close>

lemma acquired_token:
  assumes "objects_inv s" and run: "acquire ops version role token s = (OK, t)"
  shows "load64 token (o_mem t) = o_next_token s" "o_next_token t = o_next_token s + 1"
    "o_next_token s \<le> INT64_MAX"
proof -
  have sp: "span token 8"
    using run by (auto simp: acquire_def span_def bounded_def MAX_BYTES_def split: if_splits)
  show "load64 token (o_mem t) = o_next_token s" "o_next_token t = o_next_token s + 1"
    "o_next_token s \<le> INT64_MAX"
    using run claimed_chain [OF assms(1)]
    by (cases rule: acquire_cases [of ops version role token s];
        force simp: o_write_def leave_def claim_slot_def load_store64 [OF sp])+
qed

section \<open>Existing-only mode\<close>

text \<open>\<open>barren h r\<close>: nothing logged since \<open>h\<close> may create a file or a directory.\<close>

definition barren :: "event list \<Rightarrow> 'x run_scheme \<Rightarrow> bool" where
  "barren h r \<longleftrightarrow> (\<exists>es. hist r = h @ es \<and> list_all (\<lambda>(c, a). \<not> creating c) es)"

lemma stable_barren: "stable (\<lambda>c. \<not> creating c) (barren h)" "lease_free (barren h)"
  by (auto simp: stable_def lease_free_def barren_def)

lemmas barren_intros = stable_invoke [OF stable_barren(1)] stable_perform [OF stable_barren(1)]
  lease_free_upd [OF stable_barren(2)] stable_inspect_pins [OF stable_barren(1)]

lemma barren_open: "\<not> creating c \<Longrightarrow> pres (barren h) (open_last ops c)"
  unfolding open_last_def by (intro pres_intros barren_intros) simp_all

lemma barren_add: "pres (barren h) (add ops False parent name directory sid dacl create)"
  unfolding add_def by (intro pres_intros barren_intros barren_open) (auto intro!: pres_intros)

lemma barren_chain: "pres (barren h) (acquire_chain ops False role)"
  unfolding acquire_chain_def acquire_root_def acquire_stores_def add_last_def add_under_def
  by (intro pres_intros barren_intros barren_open barren_add) simp_all

lemma release_log:
  assumes "steady M s r0" and "\<not> l_quarantined (cur s)" and "release ops r0 = (x, r)"
  shows "\<exists>es. only_closes es \<and> hist r = hist r0 @ es"
proof -
  have "\<not> l_quarantined (cur r0)" using assms by (simp add: steady_def)
  then have "accounted (hist r0) (held (cur r0) + M)" "lease_wf (cur r0)"
    using assms(1) by (simp_all add: steady_def custody_def add.commute retained_held)
  from wp_run [OF wp_release [OF this] assms(3)] show ?thesis by (auto simp: drained_def)
qed

section \<open>The end of the process\<close>

text \<open>Destroying a slot empties it unless its lease is in quarantine.\<close>

definition spared :: "lease option \<Rightarrow> lease option" where
  "spared slot = (case slot of Some l \<Rightarrow> if l_quarantined l then Some l else None | None \<Rightarrow> None)"

lemma spared_idem [simp]: "spared (spared x) = spared x" "spared None = None"
  by (simp_all add: spared_def split: option.split)

lemma destroy_slots_Cons:
  "destroy_slots ops (i # js) s =
     destroy_slots ops js (if spared (o_owners s ! i) = o_owners s ! i then s
       else forget i (leave i (snd (release ops (enter i s))) s))"
  by (simp add: spared_def split: option.split)

lemma destroy_slot:
  assumes inv: "objects_inv s" and i: "i < length (o_owners s)" "spared (o_owners s ! i) \<noteq> o_owners s ! i"
    and t: "t = forget i (leave i (snd (release ops (enter i s))) s)"
  shows "objects_inv t \<and> o_owners t = (o_owners s)[i := spared (o_owners s ! i)]"
proof -
  obtain l where l: "o_owners s ! i = Some l" "\<not> l_quarantined l"
    using i by (auto simp: spared_def split: option.splits if_splits)
  then have own: "owner_at s i = l" "o_owners s ! i = Some (owner_at s i)" by (simp_all add: owner_at_def)
  obtain x r where run: "release ops (enter i s) = (x, r)" by (cases "release ops (enter i s)")
  have "steady (others i s) (enter i s) (enter i s)"
    by (rule steady_refl) (use enter_custody [OF inv i(1) own(2)] in simp)
  then obtain ok where ok: "accounted (hist r) (others i s)" "prefix (o_hist s) (hist r)" "0 < next_ticket r"
    using released_settled [OF inv i(1) own(2) _ _ run] l own by blast
  from ok(2) obtain es where "hist r = o_hist s @ es" by (auto simp: prefix_def)
  from objects_inv_forget [OF inv i(1) ok(1) this ok(3)] show ?thesis
    using run l by (simp add: t forget_def leave_def spared_def)
qed

lemma destroy_slots_spares:
  "objects_inv s \<Longrightarrow> list_all (\<lambda>i. i < length (o_owners s)) js \<Longrightarrow> t = destroy_slots ops js s \<Longrightarrow>
    objects_inv t \<and> length (o_owners t) = length (o_owners s) \<and>
    (\<forall>j < length (o_owners s). o_owners t ! j = (if j \<in> set js then spared (o_owners s ! j) else o_owners s ! j))"
proof (induction js arbitrary: s)
  case (Cons i js)
  let ?u = "if spared (o_owners s ! i) = o_owners s ! i then s
    else forget i (leave i (snd (release ops (enter i s))) s)"
  have i: "i < length (o_owners s)" using Cons.prems(2) by simp
  have u: "objects_inv ?u \<and> o_owners ?u = (o_owners s)[i := spared (o_owners s ! i)]"
  proof (cases "spared (o_owners s ! i) = o_owners s ! i")
    case True
    then show ?thesis using Cons.prems(1) by (simp only: if_True list_update_id simp_thms)
  next
    case False
    then show ?thesis using destroy_slot [OF Cons.prems(1) i False refl] by (simp only: if_False)
  qed
  have "t = destroy_slots ops js ?u" using Cons.prems(3) unfolding destroy_slots_Cons .
  from Cons.IH [of ?u, OF _ _ this] u Cons.prems(2) show ?case
    by (auto simp: nth_list_update)
qed simp

lemma destroy_spares:
  assumes "objects_inv s"
  shows "objects_inv (destroy ops s)" and "list_all (\<lambda>slot. spared slot = slot) (o_owners (destroy ops s))"
proof -
  note d = destroy_slots_spares [OF assms _ refl, of "[0 ..< length (o_owners s)]" ops]
  show "objects_inv (destroy ops s)" unfolding destroy_def using d by (simp add: list_all_iff)
  show "list_all (\<lambda>slot. spared slot = slot) (o_owners (destroy ops s))"
    unfolding destroy_def using d by (auto simp: list_all_iff in_set_conv_nth)
qed

section \<open>Acquisition on an obliging system\<close>

lemma obliging_acquire:
  assumes "objects_inv s" and ob: "obliging ops sid disk" and free: "None \<in> set (o_owners s)"
    and "o_next_token s \<le> INT64_MAX" "owner_version version" "role = ROLE_APP \<or> role = ROLE_BRIDGE"
    and "span token 8" "aligned8 token"
  shows "\<exists>t. acquire ops version role token s = (OK, t) \<and> find_owner (o_next_token s) t \<noteq> None"
proof -
  have ptr: "token \<noteq> 0 \<and> \<not> -1 - 8 < token" using assms by (auto simp: span_def)
  obtain i where slot: "find_index (\<lambda>slot. slot = None) (o_owners s) = Some i"
    using find_index_None [of "\<lambda>slot. slot = None" "o_owners s"] free by fastforce
  note i = find_index_Some [OF slot]
  let ?u = "claim_slot i role (o_write (store64 token 0) s)"
  obtain e r where run: "acquire_chain ops (o_initialize ?u) role (enter i ?u) = (e, r)"
    by (cases "acquire_chain ops (o_initialize ?u) role (enter i ?u)")
  have "l_pins (cur (enter i ?u)) = []"
    using i by (simp add: enter_def owner_at_def claim_slot_def o_write_def new_lease_def)
  from wp_run [OF obliging_chain [OF ob this] run] have settled_ok: "settle e = OK" .
  let ?t = "o_write (store64 token (l_token (cur r))) (leave i r ?u)"
  have "o_owners (o_write (store64 token 0) s) = o_owners s" "o_next_token (o_write (store64 token 0) s) = o_next_token s"
    by (simp_all add: o_write_def)
  then have acq: "acquire ops version role token s = (OK, ?t)"
    using assms ptr slot run settled_ok by (auto simp: acquire_def Let_def acquire_slot_def)
  have "l_token (cur r) = o_next_token s"
    using claimed_chain [OF assms(1) _ _ assms(4,6) refl run] i by simp
  then have "holds_token (o_next_token s) (o_owners ?t ! i)" "i < length (o_owners ?t)"
    using i by (simp_all add: leave_def claim_slot_def o_write_def holds_token_def)
  then have "find_owner (o_next_token s) ?t \<noteq> None"
    using find_index_None [of "holds_token (o_next_token s)" "o_owners ?t"] by (force simp: find_owner_def)
  with acq show ?thesis by blast
qed

section \<open>A sample process\<close>

definition sample_acquire :: "objects \<Rightarrow> status \<times> objects" where
  "sample_acquire = call_export acquiring_ops (Shiroha_owner_acquire 2 ROLE_BRIDGE 8)"

definition sample_first :: "bool \<Rightarrow> objects" where
  "sample_first initialize = snd (sample_acquire (new_objects initialize [] (\<lambda>_. 0)))"

lemma sample_reachable: "reachable acquiring_ops initialize (sample_first initialize)"
  unfolding sample_first_def sample_acquire_def
  by (rule reachable.stepped [OF reachable.constructed client_step.exported [OF surjective_pairing]])

section \<open>Properties\<close>

text \<open>
  Claim C21.  In every state a client can reach, whatever it called and whatever the operating
  system answered, the leases and the closes account for every handle: what was closed and what
  the leases hold are disjoint shares of what was opened, all of it unless a close failed, no two
  leases share a token, and a lease is in quarantine only after a failed close.
\<close>

theorem leases_hold_every_handle:
  assumes "reachable ops initialize s"
  shows "closed (o_hist s) + share (o_owners s) \<subseteq># opened (o_hist s) \<and>
    (clean (o_hist s) \<longrightarrow> closed (o_hist s) + share (o_owners s) = opened (o_hist s)) \<and>
    distinct_tokens (o_owners s) \<and>
    (\<forall>l. Some l \<in> set (o_owners s) \<longrightarrow>
      l_token l < o_next_token s \<and> idle l \<and> (l_quarantined l \<longrightarrow> \<not> clean (o_hist s)))"
  using custody_kept.always [OF assms] by (auto simp: objects_inv_def accounted_def lease_inv_def)

theorem leases_hold_every_handle_witness:
  "closed (o_hist (sample_first True)) + share (o_owners (sample_first True)) \<subseteq># opened (o_hist (sample_first True))"
  using leases_hold_every_handle [OF sample_reachable] by blast

text \<open>
  Claim C22.  When the process ends in a state a client can reach, no handle has been closed twice
  and, unless a close failed, none was left open.
\<close>

theorem destruction_closes_every_handle:
  assumes "reachable ops initialize s"
  shows "closed (o_hist (destroy ops s)) \<subseteq># opened (o_hist (destroy ops s)) \<and>
    (clean (o_hist (destroy ops s)) \<longrightarrow> closed (o_hist (destroy ops s)) = opened (o_hist (destroy ops s)))"
proof -
  let ?t = "destroy ops s"
  have inv: "objects_inv s" by (rule custody_kept.always [OF assms])
  note d = destroy_spares [OF inv, of ops]
  from d(1) have acc: "accounted (o_hist ?t) (share (o_owners ?t))" by (simp add: objects_inv_def)
  have "closed (o_hist ?t) \<subseteq># opened (o_hist ?t)"
    using acc by (auto simp: accounted_def intro: subset_mset.order_trans [OF mset_subset_eq_add_left])
  moreover have "closed (o_hist ?t) = opened (o_hist ?t)" if c: "clean (o_hist ?t)"
  proof -
    have "slot = None" if "slot \<in> set (o_owners ?t)" for slot
    proof (rule ccontr)
      assume "slot \<noteq> None"
      then obtain l where l: "slot = Some l" by blast
      then have "\<not> l_quarantined l" using that d(1) c by (simp add: objects_inv_def lease_inv_def)
      moreover have "spared slot = slot" using that d(2) by (simp add: list_all_iff)
      ultimately show False using l by (simp add: spared_def)
    qed
    then have "o_owners ?t = replicate (length (o_owners ?t)) None" by (metis replicate_eqI)
    then have "share (o_owners ?t) = {#}" by (metis share_empty)
    then show ?thesis using acc c by (simp add: accounted_def)
  qed
  ultimately show ?thesis by blast
qed

theorem destruction_closes_every_handle_witness:
  "closed (o_hist (destroy acquiring_ops (sample_first True))) \<subseteq>#
     opened (o_hist (destroy acquiring_ops (sample_first True)))"
  using destruction_closes_every_handle [OF sample_reachable] by blast

text \<open>
  Claim C23.  A process built for existing files only never creates one while acquiring an owner:
  in every state such a process reaches, an acquisition asks for no creating operation.
\<close>

theorem existing_only_creates_nothing:
  assumes "reachable ops False s" and "call_export ops (Shiroha_owner_acquire version role token) s = (st, t)"
  shows "\<exists>es. o_hist t = o_hist s @ es \<and> list_all (\<lambda>(c, a). \<not> creating c) es"
proof -
  have inv: "objects_inv s" and mode: "\<not> o_initialize s"
    using custody_kept.always mode_kept.always assms(1) by blast+
  have run: "acquire ops version role token s = (st, t)" using assms(2) by simp
  have closes: "list_all (\<lambda>(c, a). \<not> creating c) es" if "only_closes es" for es
    using that by (auto simp: only_closes_def list_all_iff)
  have chain: "barren (o_hist s) r"
    if "acquire_chain ops False role (enter i (claim_slot i role (o_write f s))) = (e, r)" for i e r f
    by (rule presD [OF barren_chain _ that])
      (simp add: barren_def enter_def claim_slot_def o_write_def)
  show ?thesis
  proof (cases rule: acquire_cases [of ops version role token s])
    case (refused st' s')
    then show ?thesis using run by (auto simp: o_write_def)
  next
    case (kept i e r s1)
    then show ?thesis
      using run chain [of i "store64 token 0" e r] mode by (auto simp: barren_def leave_def o_write_def)
  next
    case (given_up i e r x r' s1)
    let ?u = "claim_slot i role s1"
    have "steady (others i ?u) (enter i ?u) r \<and> \<not> l_quarantined (cur (enter i ?u))"
      using claimed_chain [OF inv given_up(1-4) _ given_up(6), of "store64 token 0"] given_up(5)
      by (simp add: enter_def)
    then obtain fs where "only_closes fs" "hist r' = hist r @ fs"
      using release_log [OF _ _ given_up(8)] by blast
    then show ?thesis
      using run chain [of i "store64 token 0" e r] mode given_up closes
      by (auto simp: barren_def leave_def forget_def)
  qed
qed

theorem existing_only_creates_nothing_witness:
  "\<exists>es. o_hist (snd (sample_acquire (sample_first False))) = o_hist (sample_first False) @ es \<and>
     list_all (\<lambda>(c, a). \<not> creating c) es"
  by (rule existing_only_creates_nothing [OF sample_reachable, of 2 ROLE_BRIDGE 8 "fst (sample_acquire (sample_first False))"])
    (simp add: sample_acquire_def)

text \<open>
  Claim C24.  A token names one owner for the life of the process: whatever a client does after an
  acquisition, closing the owner included, a later acquisition is given a greater token.
\<close>

theorem owner_tokens_never_reused:
  assumes "reachable ops initialize s" and "call_export ops (Shiroha_owner_acquire version role token) s = (OK, t)"
    and "(client_step ops)\<^sup>*\<^sup>* t u" and "call_export ops (Shiroha_owner_acquire version' role' token') u = (OK, v)"
  shows "load64 token (o_mem t) < load64 token' (o_mem v)"
proof -
  have "reachable ops initialize t" using assms(1,2) by (blast intro: reachable.stepped client_step.exported)
  then have "reachable ops initialize u" using assms(3) by (induction rule: rtranclp_induct [OF assms(3)]) (auto intro: reachable.stepped)
  then have inv: "objects_inv s" "objects_inv u" using custody_kept.always assms(1) by blast+
  have a: "acquire ops version role token s = (OK, t)" "acquire ops version' role' token' u = (OK, v)"
    using assms(2,4) by simp_all
  have "o_next_token s < o_next_token t"
    using acquired_token [OF inv(1) a(1)] by (auto simp: INT64_MAX_def word_less_nat_alt word_le_nat_alt unat_word_ariths)
  also have "\<dots> \<le> o_next_token u" using later_steps [OF assms(3)] by (simp add: later_owners_def)
  finally show ?thesis using acquired_token(1) [OF inv(1) a(1)] acquired_token(1) [OF inv(2) a(2)] by simp
qed

lemma free_slot_left: "2 \<le> n \<Longrightarrow> None \<in> set ((replicate n None)[i := x])"
proof -
  assume "2 \<le> n"
  then have "(replicate n None)[i := x] ! (if i = 0 then 1 else 0) = None" "(if i = 0 then 1 else 0) < n" by auto
  then show ?thesis by (metis length_list_update length_replicate nth_mem)
qed

lemma sample_token: "span 8 8" "aligned8 8" "owner_version 2"
  by (simp_all add: span_def bounded_def MAX_BYTES_def aligned8_def owner_version_def)

lemma sample_acquire_OK:
  assumes "objects_inv s" and "None \<in> set (o_owners s)" and "o_next_token s \<le> INT64_MAX"
  shows "sample_acquire s = (OK, snd (sample_acquire s))"
  using obliging_acquire [OF assms(1) acquiring_obliging assms(2,3) sample_token(3) _ sample_token(1,2), of ROLE_BRIDGE]
  by (auto simp: sample_acquire_def)

theorem owner_tokens_never_reused_witness:
  "\<exists>t v. sample_acquire (new_objects True [] (\<lambda>_. 0)) = (OK, t) \<and> sample_acquire t = (OK, v) \<and>
     load64 8 (o_mem t) < load64 8 (o_mem v)"
proof -
  let ?s = "new_objects True [] (\<lambda>_. 0)" let ?t = "snd (sample_acquire ?s)"
  have s: "sample_acquire ?s = (OK, ?t)"
    by (rule sample_acquire_OK [OF objects_inv_new [OF accounted_start]])
      (simp_all add: new_objects_def max_owners_def INT64_MAX_def)
  have inv: "objects_inv ?t" using custody_kept.always [OF sample_reachable [of True]] by (simp add: sample_first_def)
  have token: "o_next_token ?t = 2"
    using acquired_token(2) [OF objects_inv_new [OF accounted_start], of acquiring_ops 2 ROLE_BRIDGE 8 True "\<lambda>_. 0" ?t] s
    by (simp add: sample_acquire_def new_objects_def)
  have "o_owners ?t \<noteq> [] \<longrightarrow> None \<in> set (o_owners ?t)"
    using s unfolding sample_acquire_def call_export.simps
    by (cases rule: acquire_cases [of acquiring_ops 2 ROLE_BRIDGE 8 ?s])
      (auto simp: new_objects_def max_owners_def o_write_def leave_def claim_slot_def free_slot_left)
  then have "sample_acquire ?t = (OK, snd (sample_acquire ?t))"
    using sample_acquire_OK [OF inv] inv token by (auto simp: objects_inv_def max_owners_def INT64_MAX_def)
  then show ?thesis
    using owner_tokens_never_reused [OF reachable.constructed, of acquiring_ops 2 ROLE_BRIDGE 8 True "\<lambda>_. 0" ?t ?t
      2 ROLE_BRIDGE 8 "snd (sample_acquire ?t)"] s
    by (auto simp: sample_acquire_def)
qed

text \<open>
  Claim C25.  Acquisition succeeds wherever the system lets it: in every state a client can reach
  with a free slot and tokens left, if the directories and the lock open and are what they should
  be, the call returns OK, and the token it stored finds the owner.
\<close>

theorem acquisition_succeeds:
  assumes "reachable ops initialize s" and "obliging ops sid disk" and "None \<in> set (o_owners s)"
    and "o_next_token s \<le> INT64_MAX" and "owner_version version" and "role = ROLE_APP \<or> role = ROLE_BRIDGE"
    and "span token 8" and "aligned8 token"
  shows "\<exists>t. call_export ops (Shiroha_owner_acquire version role token) s = (OK, t) \<and>
    find_owner (load64 token (o_mem t)) t \<noteq> None"
proof -
  have inv: "objects_inv s" by (rule custody_kept.always [OF assms(1)])
  obtain t where t: "acquire ops version role token s = (OK, t)" "find_owner (o_next_token s) t \<noteq> None"
    using obliging_acquire [OF inv assms(2-8)] by blast
  then show ?thesis using acquired_token(1) [OF inv t(1)] by simp
qed

theorem acquisition_succeeds_witness:
  "\<exists>t. call_export acquiring_ops (Shiroha_owner_acquire 2 ROLE_APP 8) (new_objects True [] (\<lambda>_. 0)) = (OK, t) \<and>
     find_owner (load64 8 (o_mem t)) t \<noteq> None"
proof (rule acquisition_succeeds [OF reachable.constructed acquiring_obliging])
  show "None \<in> set (o_owners (new_objects True [] (\<lambda>_. 0)))" by (simp add: new_objects_def max_owners_def)
qed (simp_all add: new_objects_def owner_version_def span_def bounded_def MAX_BYTES_def aligned8_def INT64_MAX_def)

end
