(* ===== verification/Relay_Api.thy ===== *)
theory Relay_Api
  imports Object_Ops
begin

text \<open>
  The system calls of \<open>local_relay.cpp\<close>, the state of its module (the one owned pipe, the
  generation, the cleanup flag, the diagnostic stage) and its owner of a kernel handle.
\<close>

section \<open>Calls\<close>

datatype rcall =
    R_allocate nat
  | R_close handle
  | R_image_name handle
  | R_open_token handle
  | R_elevation handle
  | R_user_size handle
  | R_user handle nat
  | R_valid_sid sid
  | R_length_sid sid
  | R_copy_sid nat sid
  | R_equal_sid sid sid
  | R_sid_string sid
  | R_local_free
  | R_open_file wstring u32
  | R_file_information handle
  | R_snapshot
  | R_first_process handle
  | R_next_process handle
  | R_current_process_id
  | R_open_process u32
  | R_session_of u32
  | R_process_times handle
  | R_wait handle
  | R_shell_window
  | R_window_process u64
  | R_system_directory
  | R_open_hash
  | R_create_hash u64
  | R_hash_data u64 wstring
  | R_finish_hash u64
  | R_destroy_hash u64
  | R_close_hash u64
  | R_descriptor wstring
  | R_create_pipe wstring u32 u32 u64
  | R_open_pipe wstring u32
  | R_pipe_mode handle u32
  | R_client_id handle
  | R_server_id handle
  | R_connect handle
  | R_peek handle
  | R_read handle nat
  | R_write handle "u8 list"
  | R_disconnect handle
  | R_last_error
  | R_heap_allocate nat
  | R_heap_free u64

record ranswer =
  r_flag :: bool
  r_handle :: handle
  r_number :: u32
  r_other :: u32
  r_wide :: u64
  r_size :: nat
  r_text :: wstring
  r_bytes :: "u8 list"
  r_serial :: u32
  r_high :: u32
  r_low :: u32

type_synonym revent = "rcall \<times> ranswer"
type_synonym relay_ops = "revent list \<Rightarrow> rcall \<Rightarrow> ranswer"

section \<open>State\<close>

definition INVALID_HANDLE :: handle where "INVALID_HANDLE = -1"

text \<open>\<open>struct Pipe\<close>: every handle is closed by its destructor unless it was closed before.\<close>

record relay_pipe =
  p_server :: bool
  p_connected :: bool
  p_failed :: bool
  p_guard_only :: bool
  p_independent_guard :: bool
  p_session :: u32
  p_root :: wstring
  p_sid :: sid
  p_pipe :: handle
  p_peer :: handle
  p_expected_image :: handle
  p_actual_image :: handle
  p_launch_parent :: handle
  p_expected_shell :: handle
  p_actual_shell :: handle

definition new_pipe :: relay_pipe where
  "new_pipe = \<lparr>p_server = False, p_connected = False, p_failed = False, p_guard_only = False,
     p_independent_guard = False, p_session = 0, p_root = [], p_sid = [], p_pipe = INVALID_HANDLE,
     p_peer = INVALID_HANDLE, p_expected_image = INVALID_HANDLE, p_actual_image = INVALID_HANDLE,
     p_launch_parent = INVALID_HANDLE, p_expected_shell = INVALID_HANDLE, p_actual_shell = INVALID_HANDLE\<rparr>"

text \<open>The module's variables; \<open>this_pipe\<close> is the pipe whose method runs.\<close>

record relay =
  owned :: "relay_pipe option"
  generation :: u64
  cleanup_failed :: bool
  link_diagnostic :: u32
  this_pipe :: relay_pipe
  rlog :: "revent list"

type_synonym 'a rprog = "(relay, 'a) prog"

definition new_relay :: relay where
  "new_relay = \<lparr>owned = None, generation = 0, cleanup_failed = False, link_diagnostic = 0,
     this_pipe = new_pipe, rlog = []\<rparr>"

section \<open>Steps\<close>

definition rask :: "relay_ops \<Rightarrow> rcall \<Rightarrow> ranswer rprog" where
  "rask ops c s = (let a = ops (rlog s) c in (Val a, s\<lparr>rlog := rlog s @ [(c, a)]\<rparr>))"

text \<open>A vector or string that is sized throws when the memory is not there.\<close>

definition rallocate :: "relay_ops \<Rightarrow> nat \<Rightarrow> unit rprog" where
  "rallocate ops n = seq (rask ops (R_allocate n)) (\<lambda>a. if r_flag a then ret () else err BadAlloc)"

definition diagnose :: "u32 \<Rightarrow> unit rprog" where
  "diagnose n = modify (\<lambda>s. s\<lparr>link_diagnostic := n\<rparr>)"

definition this_get :: "(relay_pipe \<Rightarrow> 'a) \<Rightarrow> 'a rprog" where
  "this_get f = gets (\<lambda>s. f (this_pipe s))"

definition this_upd :: "(relay_pipe \<Rightarrow> relay_pipe) \<Rightarrow> unit rprog" where
  "this_upd f = modify (\<lambda>s. s\<lparr>this_pipe := f (this_pipe s)\<rparr>)"

text \<open>
  A function that returns a value early: \<open>leave\<close> stops the body, and \<open>body d m\<close> returns \<open>d\<close>
  there.  An exception is passed on.
\<close>

definition rleave :: "'a rprog" where
  "rleave = err (Status UNAVAILABLE)"

definition check :: "bool \<Rightarrow> unit rprog" where
  "check b = (if b then ret () else rleave)"

definition body :: "'a \<Rightarrow> 'a rprog \<Rightarrow> 'a rprog" where
  "body d m = handle m (\<lambda>e. case e of Status st \<Rightarrow> ret d | _ \<Rightarrow> err e)"

definition finally_do :: "unit rprog \<Rightarrow> 'a rprog \<Rightarrow> 'a rprog" where
  "finally_do cleanup m = seq (attempt m) (\<lambda>r. seq cleanup (\<lambda>_. resume r))"

section \<open>\<open>struct Handle\<close>\<close>

definition note_failure :: "unit rprog" where
  "note_failure = modify (\<lambda>s. s\<lparr>cleanup_failed := True\<rparr>)"

text \<open>The destructor and \<open>Handle::close\<close>, which answers what the handle's value becomes.\<close>

definition destroy_handle :: "relay_ops \<Rightarrow> handle \<Rightarrow> unit rprog" where
  "destroy_handle ops h =
     (if usable h then seq (rask ops (R_close h)) (\<lambda>a. if r_flag a then ret () else note_failure) else ret ())"

definition close_handle :: "relay_ops \<Rightarrow> handle \<Rightarrow> (bool \<times> handle) rprog" where
  "close_handle ops h =
     (if \<not> usable h then ret (True, h)
      else seq (rask ops (R_close h)) (\<lambda>a.
        if r_flag a then ret (True, INVALID_HANDLE) else seq note_failure (\<lambda>_. ret (False, h))))"

section \<open>Facts about the machine\<close>

text \<open>\<open>image\<close>: the buffer of 32768 units is cut to the reported count.\<close>

definition image :: "relay_ops \<Rightarrow> handle \<Rightarrow> wstring rprog" where
  "image ops process =
     seq (rallocate ops 32768) (\<lambda>_.
     seq (rask ops (R_image_name process)) (\<lambda>a.
     if \<not> r_flag a \<or> r_size a = 0 then ret []
     else ret (take (r_size a) (r_text a @ replicate (r_size a) 0))))"

text \<open>\<open>user_sid\<close>: the user of a process that is not elevated, or nothing.\<close>

definition process_user :: "relay_ops \<Rightarrow> handle \<Rightarrow> sid rprog" where
  "process_user ops process =
     seq (rask ops (R_open_token process)) (\<lambda>t.
     finally_do (destroy_handle ops (r_handle t))
       (body []
         (seq (check (r_flag t)) (\<lambda>_.
          seq (rask ops (R_elevation (r_handle t))) (\<lambda>e.
          seq (check (r_flag e \<and> r_number e = 0)) (\<lambda>_.
          seq (rask ops (R_user_size (r_handle t))) (\<lambda>q.
          seq (check (r_size q \<noteq> 0 \<and> r_size q \<le> 65536)) (\<lambda>_.
          seq (rallocate ops (r_size q)) (\<lambda>_.
          seq (rask ops (R_user (r_handle t) (r_size q))) (\<lambda>u.
          seq (check (r_flag u)) (\<lambda>_.
          seq (rask ops (R_valid_sid (r_bytes u))) (\<lambda>v.
          seq (check (r_flag v)) (\<lambda>_.
          seq (rask ops (R_length_sid (r_bytes u))) (\<lambda>n.
          seq (rallocate ops (r_size n)) (\<lambda>_.
          seq (rask ops (R_copy_sid (r_size n) (r_bytes u))) (\<lambda>c.
          seq (check (r_flag c)) (\<lambda>_.
          ret (take (r_size n) (r_bytes u)))))))))))))))))))"

definition REPARSE_OR_DIRECTORY :: u32 where "REPARSE_OR_DIRECTORY = 0x410"
definition OPEN_REPARSE_POINT :: u32 where "OPEN_REPARSE_POINT = 0x200000"

definition same_image :: "ranswer \<Rightarrow> ranswer \<Rightarrow> bool" where
  "same_image left right \<longleftrightarrow>
     (r_number left OR r_number right) AND REPARSE_OR_DIRECTORY = 0 \<and> r_serial left = r_serial right \<and>
     r_high left = r_high right \<and> r_low left = r_low right"

text \<open>
  \<open>bind_image\<close>: the image of the process and the expected file are one file.  The two handles
  go to the fields of the pipe that \<open>set_expected\<close> and \<open>set_actual\<close> name.
\<close>

definition bind_image ::
  "relay_ops \<Rightarrow> handle \<Rightarrow> wstring \<Rightarrow> (handle \<Rightarrow> relay_pipe \<Rightarrow> relay_pipe) \<Rightarrow> (handle \<Rightarrow> relay_pipe \<Rightarrow> relay_pipe) \<Rightarrow>
   bool rprog" where
  "bind_image ops process expected set_expected set_actual =
     seq (diagnose 20) (\<lambda>_.
     seq (image ops process) (\<lambda>actual.
     if actual = [] then ret False
     else
       seq (rask ops (R_open_file expected OPEN_REPARSE_POINT)) (\<lambda>e.
       seq (this_upd (set_expected (r_handle e))) (\<lambda>_.
       seq (rask ops (R_open_file actual OPEN_REPARSE_POINT)) (\<lambda>a.
       seq (this_upd (set_actual (r_handle a))) (\<lambda>_.
       seq (diagnose (if \<not> usable (r_handle e) then 21 else if \<not> usable (r_handle a) then 22 else 23)) (\<lambda>_.
       body False
         (seq (check (usable (r_handle e) \<and> usable (r_handle a))) (\<lambda>_.
          seq (rask ops (R_file_information (r_handle e))) (\<lambda>left.
          seq (check (r_flag left)) (\<lambda>_.
          seq (rask ops (R_file_information (r_handle a))) (\<lambda>right.
          seq (check (r_flag right)) (\<lambda>_.
          ret (same_image left right))))))))))))))"

text \<open>\<open>parent_id\<close>: at most 65536 entries of the snapshot are looked at.\<close>

primrec scan_processes :: "relay_ops \<Rightarrow> handle \<Rightarrow> u32 \<Rightarrow> nat \<Rightarrow> ranswer \<Rightarrow> u32 rprog" where
  "scan_processes ops snapshot child 0 entry = ret 0"
| "scan_processes ops snapshot child (Suc remaining) entry =
     (if r_number entry = child then ret (r_other entry)
      else if remaining = 0 then ret 0
      else seq (rask ops (R_next_process snapshot)) (\<lambda>a.
        if r_flag a then scan_processes ops snapshot child remaining a else ret 0))"

definition parent_id :: "relay_ops \<Rightarrow> u32 \<Rightarrow> u32 rprog" where
  "parent_id ops child =
     seq (rask ops R_snapshot) (\<lambda>s.
     if \<not> usable (r_handle s) then ret 0
     else
       seq (rask ops (R_first_process (r_handle s))) (\<lambda>a.
       seq (if r_flag a then scan_processes ops (r_handle s) child 65536 a else ret 0) (\<lambda>result.
       seq (close_handle ops (r_handle s)) (\<lambda>(done_ok, h).
       seq (destroy_handle ops h) (\<lambda>_. ret (if done_ok then result else 0))))))"

definition sid_text :: "relay_ops \<Rightarrow> sid \<Rightarrow> wstring rprog" where
  "sid_text ops sid =
     (if sid = [] then ret []
      else seq (rask ops (R_sid_string sid)) (\<lambda>a.
        if \<not> r_flag a then ret []
        else seq (rallocate ops (length (r_text a))) (\<lambda>_.
             seq (rask ops R_local_free) (\<lambda>_. ret (r_text a)))))"

text \<open>\<open>towlower\<close> in the C locale.\<close>

definition wide_lower :: "wchar \<Rightarrow> wchar" where
  "wide_lower c = (if 65 \<le> c \<and> c \<le> 90 then c + 32 else c)"

text \<open>The name of the pipe for each build: the relay, the business link, the control link.\<close>

definition pipe_prefix :: "nat \<Rightarrow> wstring" where
  "pipe_prefix link = [backslash, backslash] @ wide ''.'' @ [backslash] @ wide ''pipe'' @ [backslash] @
     wide (if link = 1 then ''ShirohaLinkBusinessV1_'' else if link = 2 then ''ShirohaLinkControlV1_''
       else ''ShirohaCodexRelayV1_'')"

definition endpoint_material :: "wstring \<Rightarrow> wstring \<Rightarrow> u32 \<Rightarrow> wstring" where
  "endpoint_material root sid session =
     map wide_lower (root @ wide ''|'' @ sid @ wide ''|'' @ wide (decimal (unat session)))"

definition endpoint :: "relay_ops \<Rightarrow> nat \<Rightarrow> wstring \<Rightarrow> wstring \<Rightarrow> u32 \<Rightarrow> wstring rprog" where
  "endpoint ops link root sid session =
     (let material = endpoint_material root sid session in
      seq (rallocate ops (length material)) (\<lambda>_.
      seq (rask ops R_open_hash) (\<lambda>algorithm.
      if \<not> r_flag algorithm then ret []
      else
        seq (rask ops (R_create_hash (r_wide algorithm))) (\<lambda>hash.
        seq (body []
          (seq (check (r_flag hash)) (\<lambda>_.
           seq (rask ops (R_hash_data (r_wide hash) material)) (\<lambda>d.
           seq (check (r_flag d)) (\<lambda>_.
           seq (rask ops (R_finish_hash (r_wide hash))) (\<lambda>f.
           seq (check (r_flag f)) (\<lambda>_. ret (take 32 (r_bytes f @ replicate 32 0))))))))) (\<lambda>digest.
        seq (if r_wide hash \<noteq> 0 then seq (rask ops (R_destroy_hash (r_wide hash))) (\<lambda>_. ret ()) else ret ()) (\<lambda>_.
        seq (rask ops (R_close_hash (r_wide algorithm))) (\<lambda>_.
        if digest = [] then ret []
        else seq (rallocate ops 64) (\<lambda>_. ret (pipe_prefix link @ wide (hex_text digest))))))))))"

end
