(* ===== verification/Relay_Pipe.thy ===== *)
theory Relay_Pipe
  imports Relay_Api
begin

text \<open>
  \<open>struct Pipe\<close> of \<open>local_relay.cpp\<close>: who may launch the process, who may be the peer, whether
  the pipe is live, and how it is disconnected and closed.  \<open>link\<close> is \<open>SHIROHA_LINK_ROLE\<close>, 0 when
  it is not defined.
\<close>

section \<open>Provenance\<close>

definition CURRENT_PROCESS :: handle where "CURRENT_PROCESS = -1"
definition WAIT_TIMEOUT :: u32 where "WAIT_TIMEOUT = 0x102"

definition under :: "wstring \<Rightarrow> string \<Rightarrow> wstring" where
  "under root name = root @ [backslash] @ wide name"

text \<open>\<open>launch_current\<close>: a server or a guard lives only as long as the shell that launched it.\<close>

definition launch_current :: "relay_ops \<Rightarrow> bool rprog" where
  "launch_current ops =
     seq (this_get (\<lambda>p. (\<not> p_server p \<and> \<not> p_guard_only p, p_launch_parent p))) (\<lambda>(free, parent).
     if free then ret True
     else if \<not> usable parent then ret False
     else seq (rask ops (R_wait parent)) (\<lambda>a. ret (r_number a = WAIT_TIMEOUT)))"

text \<open>The process behind a handle has the user and the session of the pipe.\<close>

definition same_user :: "relay_ops \<Rightarrow> handle \<Rightarrow> u32 \<Rightarrow> unit rprog" where
  "same_user ops process pid =
     seq (process_user ops process) (\<lambda>other.
     seq (check (other \<noteq> [])) (\<lambda>_.
     seq (this_get p_sid) (\<lambda>sid.
     seq (rask ops (R_equal_sid sid other)) (\<lambda>q.
     seq (check (r_flag q)) (\<lambda>_.
     seq (rask ops (R_session_of pid)) (\<lambda>n.
     seq (check (r_flag n)) (\<lambda>_.
     seq (this_get p_session) (\<lambda>session.
     check (r_number n = session)))))))))"

text \<open>The parent was created before the child, so its identifier was not reused.\<close>

definition created_before :: "relay_ops \<Rightarrow> handle \<Rightarrow> handle \<Rightarrow> unit rprog" where
  "created_before ops parent child =
     seq (rask ops (R_process_times parent)) (\<lambda>a.
     seq (check (r_flag a)) (\<lambda>_.
     seq (rask ops (R_process_times child)) (\<lambda>b.
     seq (check (r_flag b)) (\<lambda>_.
     check (r_wide a < r_wide b)))))"

definition independent_launch :: "relay_ops \<Rightarrow> u32 \<Rightarrow> handle \<Rightarrow> bool rprog" where
  "independent_launch ops child child_process =
     body False
       (seq (parent_id ops child) (\<lambda>parent.
        seq (rask ops R_shell_window) (\<lambda>w.
        seq (check (r_wide w \<noteq> 0)) (\<lambda>_.
        seq (rask ops (R_window_process (r_wide w))) (\<lambda>shell.
        seq (check (r_flag shell \<and> parent \<noteq> 0 \<and> parent = r_number shell \<and> parent \<noteq> child)) (\<lambda>_.
        seq (rask ops (R_open_process parent)) (\<lambda>o'.
        seq (this_upd (\<lambda>p. p\<lparr>p_launch_parent := r_handle o'\<rparr>)) (\<lambda>_.
        seq (check (usable (r_handle o'))) (\<lambda>_.
        seq (same_user ops (r_handle o') parent) (\<lambda>_.
        seq (created_before ops (r_handle o') child_process) (\<lambda>_.
        seq (rallocate ops 32768) (\<lambda>_.
        seq (rask ops R_system_directory) (\<lambda>d.
        seq (check (r_size d \<noteq> 0 \<and> r_size d < 32768)) (\<lambda>_.
        let system_root = take (r_size d) (r_text d @ replicate (r_size d) 0) in
        seq (bind_image ops (r_handle o') (under system_root ''explorer.exe'')
          (\<lambda>h p. p\<lparr>p_expected_shell := h\<rparr>) (\<lambda>h p. p\<lparr>p_actual_shell := h\<rparr>)) (\<lambda>bound.
        seq (check bound) (\<lambda>_.
        launch_current ops))))))))))))))))"

section \<open>The peer\<close>

text \<open>\<open>set_expected_image\<close> and \<open>set_actual_image\<close> name the two files of the peer's image.\<close>

definition bind_peer :: "relay_ops \<Rightarrow> handle \<Rightarrow> wstring \<Rightarrow> bool rprog" where
  "bind_peer ops peer expected =
     bind_image ops peer expected (\<lambda>h p. p\<lparr>p_expected_image := h\<rparr>) (\<lambda>h p. p\<lparr>p_actual_image := h\<rparr>)"

definition still_running :: "relay_ops \<Rightarrow> handle \<Rightarrow> bool rprog" where
  "still_running ops process = seq (rask ops (R_wait process)) (\<lambda>a. ret (r_number a = WAIT_TIMEOUT))"

definition current_id :: "relay_ops \<Rightarrow> u32 rprog" where
  "current_id ops = seq (rask ops R_current_process_id) (\<lambda>a. ret (r_number a))"

text \<open>\<open>authenticate_parent\<close>: a guard is launched by the application it guards for.\<close>

definition authenticate_parent :: "relay_ops \<Rightarrow> nat \<Rightarrow> bool rprog" where
  "authenticate_parent ops link =
     body False
       (seq (current_id ops) (\<lambda>me.
        seq (parent_id ops me) (\<lambda>pid.
        seq (check (pid \<noteq> 0)) (\<lambda>_.
        seq (current_id ops) (\<lambda>me.
        seq (check (pid \<noteq> me)) (\<lambda>_.
        seq (rask ops (R_open_process pid)) (\<lambda>o'.
        seq (this_upd (\<lambda>p. p\<lparr>p_peer := r_handle o'\<rparr>)) (\<lambda>_.
        seq (check (usable (r_handle o'))) (\<lambda>_.
        seq (same_user ops (r_handle o') pid) (\<lambda>_.
        seq (created_before ops (r_handle o') CURRENT_PROCESS) (\<lambda>_.
        seq (this_get p_root) (\<lambda>root.
        seq (bind_peer ops (r_handle o')
          (under root (if link = 1 \<or> link = 2 then ''shiroha_link.exe'' else ''shiroha_quiz.exe''))) (\<lambda>bound.
        seq (check bound) (\<lambda>_.
        seq (independent_launch ops pid (r_handle o')) (\<lambda>launched.
        seq (check launched) (\<lambda>_.
        still_running ops (r_handle o')))))))))))))))))"

text \<open>The one image each side accepts at the other end.\<close>

definition peer_image :: "nat \<Rightarrow> bool \<Rightarrow> string" where
  "peer_image link server =
     (if link = 1 then if server then ''shiroha.exe'' else ''shiroha_link.exe''
      else if link = 2 then if server then ''shiroha_link_control.exe'' else ''shiroha_link.exe''
      else if server then ''shiroha_codex.exe'' else ''shiroha_quiz.exe'')"

definition authenticate :: "relay_ops \<Rightarrow> nat \<Rightarrow> bool rprog" where
  "authenticate ops link =
     body False
       (seq (diagnose 10) (\<lambda>_.
        seq (this_get (\<lambda>p. (p_server p, p_pipe p))) (\<lambda>(server, pipe).
        seq (rask ops (if server then R_client_id pipe else R_server_id pipe)) (\<lambda>i.
        seq (check (r_flag i \<and> r_number i \<noteq> 0)) (\<lambda>_.
        seq (rask ops (R_open_process (r_number i))) (\<lambda>o'.
        seq (this_upd (\<lambda>p. p\<lparr>p_peer := r_handle o'\<rparr>)) (\<lambda>_.
        seq (diagnose 11) (\<lambda>_.
        seq (check (usable (r_handle o'))) (\<lambda>_.
        seq (same_user ops (r_handle o') (r_number i)) (\<lambda>_.
        seq (this_get p_root) (\<lambda>root.
        seq (diagnose 12) (\<lambda>_.
        seq (bind_peer ops (r_handle o') (under root (peer_image link server))) (\<lambda>bound.
        seq (check bound) (\<lambda>_.
        seq (still_running ops (r_handle o')) (\<lambda>running.
        seq (check running) (\<lambda>_.
        launch_current ops))))))))))))))))"

section \<open>Life of a pipe\<close>

definition live :: "relay_ops \<Rightarrow> bool rprog" where
  "live ops =
     seq (this_get id) (\<lambda>p.
     if p_independent_guard p
     then if p_connected p \<and> \<not> p_failed p \<and> p_guard_only p \<and> \<not> usable (p_pipe p) then launch_current ops else ret False
     else if p_connected p \<and> \<not> p_failed p \<and> usable (p_peer p)
     then seq (still_running ops (p_peer p)) (\<lambda>running. if running then launch_current ops else ret False)
     else ret False)"

text \<open>A handle field is closed in place.\<close>

definition close_field ::
  "relay_ops \<Rightarrow> (relay_pipe \<Rightarrow> handle) \<Rightarrow> (handle \<Rightarrow> relay_pipe \<Rightarrow> relay_pipe) \<Rightarrow> bool rprog" where
  "close_field ops field set_field =
     seq (this_get field) (\<lambda>h.
     seq (close_handle ops h) (\<lambda>(ok, h').
     seq (this_upd (set_field h')) (\<lambda>_. ret ok)))"

definition close_peer :: "relay_ops \<Rightarrow> bool rprog" where
  "close_peer ops =
     seq (close_field ops p_peer (\<lambda>h p. p\<lparr>p_peer := h\<rparr>)) (\<lambda>a.
     seq (close_field ops p_actual_image (\<lambda>h p. p\<lparr>p_actual_image := h\<rparr>)) (\<lambda>b.
     seq (close_field ops p_expected_image (\<lambda>h p. p\<lparr>p_expected_image := h\<rparr>)) (\<lambda>c.
     ret (a \<and> b \<and> c))))"

definition ERROR_PIPE_NOT_CONNECTED :: u32 where "ERROR_PIPE_NOT_CONNECTED = 233"

definition disconnect :: "relay_ops \<Rightarrow> bool rprog" where
  "disconnect ops =
     body False
       (seq (this_get id) (\<lambda>p.
        seq (check (p_server p \<and> usable (p_pipe p))) (\<lambda>_.
        seq (gets cleanup_failed) (\<lambda>bad.
        seq (check (\<not> bad)) (\<lambda>_.
        seq (launch_current ops) (\<lambda>current.
        seq (check current) (\<lambda>_.
        seq (this_upd (\<lambda>p. p\<lparr>p_failed := True\<rparr>)) (\<lambda>_.
        seq (rask ops (R_disconnect (p_pipe p))) (\<lambda>d.
        seq (if r_flag d then ret ()
             else seq (rask ops R_last_error) (\<lambda>e. check (r_number e = ERROR_PIPE_NOT_CONNECTED))) (\<lambda>_.
        seq (close_peer ops) (\<lambda>success.
        seq (gets cleanup_failed) (\<lambda>bad.
        seq (check (success \<and> \<not> bad)) (\<lambda>_.
        seq (this_upd (\<lambda>p. p\<lparr>p_connected := False, p_failed := False\<rparr>)) (\<lambda>_.
        ret True))))))))))))))"

definition close_pipe :: "relay_ops \<Rightarrow> bool rprog" where
  "close_pipe ops =
     seq (this_upd (\<lambda>p. p\<lparr>p_failed := True\<rparr>)) (\<lambda>_.
     seq (close_field ops p_pipe (\<lambda>h p. p\<lparr>p_pipe := h\<rparr>)) (\<lambda>a.
     seq (close_peer ops) (\<lambda>b.
     seq (close_field ops p_launch_parent (\<lambda>h p. p\<lparr>p_launch_parent := h\<rparr>)) (\<lambda>c.
     seq (close_field ops p_actual_shell (\<lambda>h p. p\<lparr>p_actual_shell := h\<rparr>)) (\<lambda>d.
     seq (close_field ops p_expected_shell (\<lambda>h p. p\<lparr>p_expected_shell := h\<rparr>)) (\<lambda>e.
     ret (a \<and> b \<and> c \<and> d \<and> e)))))))"

text \<open>The destructor of the pipe: its handles in the reverse order of their declaration.\<close>

definition pipe_handles :: "relay_pipe \<Rightarrow> handle list" where
  "pipe_handles p = [p_actual_shell p, p_expected_shell p, p_launch_parent p, p_actual_image p,
     p_expected_image p, p_peer p, p_pipe p]"

fun destroy_handles :: "relay_ops \<Rightarrow> handle list \<Rightarrow> unit rprog" where
  "destroy_handles ops [] = ret ()"
| "destroy_handles ops (h # hs) = seq (destroy_handle ops h) (\<lambda>_. destroy_handles ops hs)"

definition destroy_pipe :: "relay_ops \<Rightarrow> unit rprog" where
  "destroy_pipe ops = seq (this_get pipe_handles) (destroy_handles ops)"

end
