(* ===== verification/Relay_Exports.thy ===== *)
theory Relay_Exports
  imports Relay_Pipe
begin

text \<open>
  The exported functions of \<open>local_relay.cpp\<close>.  Each takes the module's lock, so a call is one step
  of the module's state.  Output parameters are values; whether the caller passed them is a flag.
\<close>

datatype relay_status = Relay_ok | Relay_pending | Relay_disconnected | Relay_rejected | Relay_busy | Relay_unlaunched

fun relay_code :: "relay_status \<Rightarrow> nat" where
  "relay_code Relay_ok = 0"
| "relay_code Relay_pending = 1"
| "relay_code Relay_disconnected = 2"
| "relay_code Relay_rejected = 3"
| "relay_code Relay_busy = 5"
| "relay_code Relay_unlaunched = 6"

definition CAPACITY :: nat where "CAPACITY = 65536"
definition PIPE_ACCESS :: u32 where "PIPE_ACCESS = 0x120183"
definition PIPE_OPEN_MODE :: u32 where "PIPE_OPEN_MODE = 0x80003"
definition PIPE_MODE :: u32 where "PIPE_MODE = 9"
definition PIPE_NOWAIT :: u32 where "PIPE_NOWAIT = 1"
definition ERROR_PIPE_BUSY :: u32 where "ERROR_PIPE_BUSY = 231"
definition ERROR_BAD_PIPE :: u32 where "ERROR_BAD_PIPE = 230"
definition ERROR_PIPE_CONNECTED :: u32 where "ERROR_PIPE_CONNECTED = 535"
definition ERROR_PIPE_LISTENING :: u32 where "ERROR_PIPE_LISTENING = 536"
definition ERROR_INVALID_PARAMETER :: u32 where "ERROR_INVALID_PARAMETER = 87"

section \<open>Opening\<close>

text \<open>The directory and the file name of a path, at its last separator.\<close>

definition split_path :: "wstring \<Rightarrow> (wstring \<times> wstring) option" where
  "split_path path =
     (let name = rev (takeWhile (\<lambda>c. c \<noteq> backslash \<and> c \<noteq> slash) (rev path)) in
      if length name = length path then None
      else Some (take (length path - length name - 1) path, name))"

text \<open>The image that may take a role in a build, if any may.\<close>

definition selected_name :: "nat \<Rightarrow> u32 \<Rightarrow> string option" where
  "selected_name link role =
     (if link = 1
      then Some (if role = 0 \<or> role = 3 then ''shiroha_link.exe''
        else if role = 1 then ''shiroha.exe'' else ''AndroidDeviceAdapter.exe'')
      else if link = 2
      then if role > 1 then None else Some (if role = 0 then ''shiroha_link.exe'' else ''shiroha_link_control.exe'')
      else if link = 3
      then if role \<noteq> 2 then None else Some ''AndroidDeviceAdapter.exe''
      else Some (if role = 0 \<or> role = 3 then ''shiroha_quiz.exe''
        else if role = 2 then ''shiroha_bridge.exe'' else ''shiroha_codex.exe''))"

text \<open>\<open>_wcsicmp\<close> in the C locale, which reads up to a NUL.\<close>

definition names_equal :: "wstring \<Rightarrow> wstring \<Rightarrow> bool" where
  "names_equal a b \<longleftrightarrow> map wide_lower (takeWhile (\<lambda>c. c \<noteq> 0) a) = map wide_lower (takeWhile (\<lambda>c. c \<noteq> 0) b)"

definition guard_launch :: "relay_ops \<Rightarrow> nat \<Rightarrow> bool rprog" where
  "guard_launch ops link =
     seq (this_get p_independent_guard) (\<lambda>independent.
     if independent then seq (current_id ops) (\<lambda>me. independent_launch ops me CURRENT_PROCESS)
     else authenticate_parent ops link)"

definition open_guard :: "relay_ops \<Rightarrow> nat \<Rightarrow> relay_status rprog" where
  "open_guard ops link =
     seq (guard_launch ops link) (\<lambda>launched.
     seq (check launched) (\<lambda>_.
     seq (this_upd (\<lambda>p. p\<lparr>p_connected := True\<rparr>)) (\<lambda>_. ret Relay_ok)))"

definition pipe_security :: "wstring \<Rightarrow> wstring" where
  "pipe_security sid =
     wide ''O:'' @ sid @ wide ''D:P(A;;0x00120183;;;'' @ sid @ wide '')''"

definition open_server :: "relay_ops \<Rightarrow> wstring \<Rightarrow> wstring \<Rightarrow> relay_status rprog" where
  "open_server ops sid address =
     seq (current_id ops) (\<lambda>me.
     seq (independent_launch ops me CURRENT_PROCESS) (\<lambda>launched.
     if \<not> launched then ret Relay_unlaunched
     else
       seq (rask ops (R_descriptor (pipe_security sid))) (\<lambda>d.
       seq (check (r_flag d)) (\<lambda>_.
       seq (rask ops (R_create_pipe address PIPE_OPEN_MODE PIPE_MODE (r_wide d))) (\<lambda>c.
       seq (this_upd (\<lambda>p. p\<lparr>p_pipe := r_handle c\<rparr>)) (\<lambda>_.
       seq (rask ops R_local_free) (\<lambda>_.
       seq (check (usable (r_handle c))) (\<lambda>_. ret Relay_ok))))))))"

definition open_client :: "relay_ops \<Rightarrow> nat \<Rightarrow> wstring \<Rightarrow> relay_status rprog" where
  "open_client ops link address =
     seq (diagnose 4) (\<lambda>_.
     seq (rask ops (R_open_pipe address PIPE_ACCESS)) (\<lambda>o'.
     seq (this_upd (\<lambda>p. p\<lparr>p_pipe := r_handle o'\<rparr>)) (\<lambda>_.
     seq (if link \<noteq> 0 \<and> \<not> usable (r_handle o')
          then seq (rask ops R_last_error) (\<lambda>e. ret (r_number e = ERROR_PIPE_BUSY)) else ret False) (\<lambda>busy.
     if busy then ret Relay_busy
     else
       seq (check (usable (r_handle o'))) (\<lambda>_.
       seq (diagnose 5) (\<lambda>_.
       seq (rask ops (R_pipe_mode (r_handle o') PIPE_NOWAIT)) (\<lambda>m.
       seq (check (r_flag m)) (\<lambda>_.
       seq (diagnose 6) (\<lambda>_.
       seq (authenticate ops link) (\<lambda>trusted.
       seq (check trusted) (\<lambda>_.
       seq (this_upd (\<lambda>p. p\<lparr>p_connected := True\<rparr>)) (\<lambda>_. ret Relay_ok))))))))))))"

text \<open>The part of \<open>open_pipe\<close> that fills the new pipe.\<close>

definition open_fresh :: "relay_ops \<Rightarrow> nat \<Rightarrow> u32 \<Rightarrow> relay_status rprog" where
  "open_fresh ops link role =
     body Relay_rejected
       (seq (this_upd (\<lambda>_. new_pipe)) (\<lambda>_.
        seq (rallocate ops 1) (\<lambda>_.
        seq (this_upd (\<lambda>p. p\<lparr>p_server := (role = 0), p_guard_only := (role \<ge> 2)\<rparr>)) (\<lambda>_.
        seq (image ops CURRENT_PROCESS) (\<lambda>self.
        case split_path self of
          None \<Rightarrow> ret Relay_rejected
        | Some (root, name) \<Rightarrow>
            case selected_name link role of
              None \<Rightarrow> ret Relay_rejected
            | Some selected \<Rightarrow>
                seq (this_upd (\<lambda>p. p\<lparr>p_independent_guard := (link = 1 \<and> role = 3)\<rparr>)) (\<lambda>_.
                seq (check (names_equal name (wide selected))) (\<lambda>_.
                seq (diagnose 2) (\<lambda>_.
                seq (this_upd (\<lambda>p. p\<lparr>p_root := root\<rparr>)) (\<lambda>_.
                seq (process_user ops CURRENT_PROCESS) (\<lambda>sid.
                seq (this_upd (\<lambda>p. p\<lparr>p_sid := sid\<rparr>)) (\<lambda>_.
                seq (check (sid \<noteq> [])) (\<lambda>_.
                seq (current_id ops) (\<lambda>me.
                seq (rask ops (R_session_of me)) (\<lambda>n.
                seq (check (r_flag n)) (\<lambda>_.
                seq (this_upd (\<lambda>p. p\<lparr>p_session := r_number n\<rparr>)) (\<lambda>_.
                if role \<ge> 2 then open_guard ops link
                else
                  seq (sid_text ops sid) (\<lambda>text.
                  seq (diagnose 3) (\<lambda>_.
                  seq (endpoint ops link root text (r_number n)) (\<lambda>address.
                  seq (check (text \<noteq> [] \<and> address \<noteq> [])) (\<lambda>_.
                  if role = 0 then open_server ops text address
                  else open_client ops link address))))))))))))))))))))"

definition relay_open :: "relay_ops \<Rightarrow> nat \<Rightarrow> u32 \<Rightarrow> bool \<Rightarrow> relay \<Rightarrow> (relay_status \<times> u64 option) \<times> relay" where
  "relay_open ops link role output_given s =
     (let s1 = s\<lparr>link_diagnostic := 1\<rparr> in
      if \<not> output_given \<or> role > 3 then ((Relay_rejected, None), s1)
      else if owned s1 \<noteq> None \<or> cleanup_failed s1 \<or> generation s1 = -1 then ((Relay_rejected, Some 0), s1)
      else case open_fresh ops link role s1 of
          (Val Relay_ok, t) \<Rightarrow>
            ((Relay_ok, Some (generation t + 1)),
             t\<lparr>owned := Some (this_pipe t), generation := generation t + 1,
               link_diagnostic := (if role \<ge> 2 then link_diagnostic t else 0)\<rparr>)
        | (r, t) \<Rightarrow>
            ((case r of Val st \<Rightarrow> st | Err _ \<Rightarrow> Relay_rejected, Some 0), snd (destroy_pipe ops t)))"

section \<open>Using the pipe\<close>

text \<open>\<open>get\<close>: only the current generation names the pipe.\<close>

definition get_pipe :: "u64 \<Rightarrow> relay \<Rightarrow> relay_pipe option" where
  "get_pipe pid s = (if generation s = pid then owned s else None)"

definition with_pipe :: "relay_pipe \<Rightarrow> 'a rprog \<Rightarrow> relay \<Rightarrow> 'a res \<times> relay" where
  "with_pipe p m s = (case m (s\<lparr>this_pipe := p\<rparr>) of (r, t) \<Rightarrow> (r, t\<lparr>owned := Some (this_pipe t)\<rparr>))"

text \<open>A call that answers \<open>missing\<close> without a pipe, and rejects an exception.\<close>

definition on_pipe :: "'a \<Rightarrow> 'a \<Rightarrow> u64 \<Rightarrow> 'a rprog \<Rightarrow> relay \<Rightarrow> 'a \<times> relay" where
  "on_pipe missing thrown pid m s =
     (case get_pipe pid s of
        None \<Rightarrow> (missing, s)
      | Some p \<Rightarrow> (case with_pipe p m s of (Val x, t) \<Rightarrow> (x, t) | (Err _, t) \<Rightarrow> (thrown, t)))"

definition fail_pipe :: "relay_status rprog" where
  "fail_pipe = seq (this_upd (\<lambda>p. p\<lparr>p_failed := True\<rparr>)) (\<lambda>_. ret Relay_rejected)"

definition accept_client :: "relay_ops \<Rightarrow> nat \<Rightarrow> handle \<Rightarrow> relay_status rprog" where
  "accept_client ops link pipe =
     seq (rask ops (R_connect pipe)) (\<lambda>c.
     seq (if r_flag c then ret 0 else seq (rask ops R_last_error) (\<lambda>e. ret (r_number e))) (\<lambda>error.
     if error = ERROR_PIPE_LISTENING then ret Relay_pending
     else if error \<noteq> 0 \<and> error \<noteq> ERROR_PIPE_CONNECTED then fail_pipe
     else
       seq (rask ops (R_peek pipe)) (\<lambda>k.
       if \<not> r_flag k
       then seq (rask ops R_last_error) (\<lambda>e.
         if r_number e = ERROR_PIPE_LISTENING \<or> r_number e = ERROR_PIPE_NOT_CONNECTED \<or> r_number e = ERROR_BAD_PIPE
         then ret Relay_pending else fail_pipe)
       else
         seq (authenticate ops link) (\<lambda>trusted.
         if \<not> trusted then fail_pipe
         else seq (this_upd (\<lambda>p. p\<lparr>p_connected := True\<rparr>)) (\<lambda>_. ret Relay_ok)))))"

definition accept_pipe :: "relay_ops \<Rightarrow> nat \<Rightarrow> relay_status rprog" where
  "accept_pipe ops link =
     body Relay_rejected
       (seq (this_get id) (\<lambda>p.
        seq (check (p_server p \<and> \<not> p_failed p)) (\<lambda>_.
        seq (launch_current ops) (\<lambda>current.
        seq (check current) (\<lambda>_.
        if p_connected p then seq (live ops) (\<lambda>alive. ret (if alive then Relay_ok else Relay_disconnected))
        else accept_client ops link (p_pipe p))))))"

definition relay_accept :: "relay_ops \<Rightarrow> nat \<Rightarrow> u64 \<Rightarrow> relay \<Rightarrow> relay_status \<times> relay" where
  "relay_accept ops link pid = on_pipe Relay_rejected Relay_rejected pid (accept_pipe ops link)"

text \<open>Whether a peer can be read from or written to now.\<close>

definition transferable :: "relay_ops \<Rightarrow> handle rprog" where
  "transferable ops =
     seq (this_get id) (\<lambda>p.
     seq (check (\<not> p_guard_only p)) (\<lambda>_.
     seq (live ops) (\<lambda>alive.
     seq (check alive) (\<lambda>_. ret (p_pipe p)))))"

definition read_pipe :: "relay_ops \<Rightarrow> nat \<Rightarrow> (relay_status \<times> u8 list) rprog" where
  "read_pipe ops limit =
     body (Relay_disconnected, [])
       (seq (transferable ops) (\<lambda>pipe.
        seq (rask ops (R_peek pipe)) (\<lambda>k.
        seq (check (r_flag k)) (\<lambda>_.
        if r_number k = 0 then ret (Relay_pending, [])
        else
          seq (rask ops (R_read pipe (min limit (unat (r_number k))))) (\<lambda>a.
          seq (check (r_flag a)) (\<lambda>_.
          ret (if r_bytes a = [] then Relay_pending else Relay_ok, r_bytes a)))))))"

definition relay_read :: "relay_ops \<Rightarrow> u64 \<Rightarrow> bool \<Rightarrow> nat \<Rightarrow> relay \<Rightarrow> (relay_status \<times> u8 list) \<times> relay" where
  "relay_read ops pid outputs_given limit s =
     (if \<not> outputs_given \<or> limit = 0 \<or> limit > CAPACITY then ((Relay_rejected, []), s)
      else on_pipe (Relay_disconnected, []) (Relay_disconnected, []) pid (read_pipe ops limit) s)"

definition write_pipe :: "relay_ops \<Rightarrow> u8 list \<Rightarrow> (relay_status \<times> nat) rprog" where
  "write_pipe ops data =
     body (Relay_disconnected, 0)
       (seq (transferable ops) (\<lambda>pipe.
        seq (rask ops (R_write pipe data)) (\<lambda>a.
        seq (check (r_flag a)) (\<lambda>_.
        ret (if r_size a = 0 then Relay_pending else Relay_ok, r_size a)))))"

definition relay_write :: "relay_ops \<Rightarrow> u64 \<Rightarrow> bool \<Rightarrow> u8 list \<Rightarrow> relay \<Rightarrow> (relay_status \<times> nat) \<times> relay" where
  "relay_write ops pid given data s =
     (if \<not> given \<or> data = [] \<or> length data > CAPACITY then ((Relay_rejected, 0), s)
      else on_pipe (Relay_disconnected, 0) (Relay_disconnected, 0) pid (write_pipe ops data) s)"

section \<open>State, end and identity\<close>

definition pipe_state :: "relay_ops \<Rightarrow> relay_status rprog" where
  "pipe_state ops =
     seq (this_get id) (\<lambda>p.
     seq (if p_server p \<and> \<not> p_connected p \<and> \<not> p_failed p then launch_current ops else ret False) (\<lambda>waiting.
     if waiting then ret Relay_pending
     else
       seq (live ops) (\<lambda>alive.
       if \<not> alive then ret Relay_disconnected
       else if p_guard_only p then ret Relay_ok
       else seq (rask ops (R_peek (p_pipe p))) (\<lambda>k. ret (if r_flag k then Relay_ok else Relay_disconnected)))))"

definition relay_state :: "relay_ops \<Rightarrow> u64 \<Rightarrow> relay \<Rightarrow> relay_status \<times> relay" where
  "relay_state ops pid = on_pipe Relay_disconnected Relay_disconnected pid (pipe_state ops)"

definition app_launch :: "relay_ops \<Rightarrow> relay_status rprog" where
  "app_launch ops =
     seq (this_get id) (\<lambda>p.
     seq (gets cleanup_failed) (\<lambda>bad.
     if p_server p \<and> \<not> p_guard_only p \<and> \<not> p_failed p \<and> \<not> bad \<and> usable (p_pipe p)
     then seq (launch_current ops) (\<lambda>current. ret (if current then Relay_ok else Relay_disconnected))
     else ret Relay_disconnected))"

definition relay_app_launch_state :: "relay_ops \<Rightarrow> u64 \<Rightarrow> relay \<Rightarrow> relay_status \<times> relay" where
  "relay_app_launch_state ops pid = on_pipe Relay_disconnected Relay_disconnected pid (app_launch ops)"

text \<open>\<open>shiroha_relay_close\<close>: the pipe goes only when all its handles are closed.\<close>

definition relay_close :: "relay_ops \<Rightarrow> u64 \<Rightarrow> relay \<Rightarrow> relay_status \<times> relay" where
  "relay_close ops pid s =
     (case get_pipe pid s of
        None \<Rightarrow> (Relay_rejected, s)
      | Some p \<Rightarrow>
          (case with_pipe p (close_pipe ops) s of
             (Val True, t) \<Rightarrow> (Relay_ok, (snd (destroy_pipe ops t))\<lparr>owned := None\<rparr>)
           | (_, t) \<Rightarrow> (Relay_rejected, t)))"

definition relay_disconnect :: "relay_ops \<Rightarrow> u64 \<Rightarrow> relay \<Rightarrow> relay_status \<times> relay" where
  "relay_disconnect ops pid =
     on_pipe Relay_rejected Relay_rejected pid
       (seq (disconnect ops) (\<lambda>ok. ret (if ok then Relay_ok else Relay_rejected)))"

definition relay_healthy :: "relay \<Rightarrow> nat" where
  "relay_healthy s = (if cleanup_failed s then 0 else 1)"

definition relay_allocate :: "relay_ops \<Rightarrow> nat \<Rightarrow> u64 rprog" where
  "relay_allocate ops n =
     (if 0 < n \<and> n \<le> CAPACITY then seq (rask ops (R_heap_allocate n)) (\<lambda>a. ret (r_wide a)) else ret 0)"

definition relay_free :: "relay_ops \<Rightarrow> u64 \<Rightarrow> unit rprog" where
  "relay_free ops buffer =
     (if buffer = 0 then ret ()
      else seq (rask ops (R_heap_free buffer)) (\<lambda>a. if r_flag a then ret () else note_failure))"

text \<open>\<open>shiroha_link_peer_identity\<close> and \<open>shiroha_link_process_current\<close> of the link builds.\<close>

definition peer_identity :: "relay_ops \<Rightarrow> u64 rprog" where
  "peer_identity ops =
     body 0
       (seq (live ops) (\<lambda>alive.
        seq (check alive) (\<lambda>_.
        seq (this_get p_peer) (\<lambda>peer.
        seq (rask ops (R_process_times peer)) (\<lambda>a.
        seq (check (r_flag a)) (\<lambda>_. ret (r_wide a)))))))"

definition link_peer_identity :: "relay_ops \<Rightarrow> u64 \<Rightarrow> relay \<Rightarrow> u64 \<times> relay" where
  "link_peer_identity ops pid = on_pipe 0 0 pid (peer_identity ops)"

definition link_process_current :: "relay_ops \<Rightarrow> u32 \<Rightarrow> u64 \<Rightarrow> int rprog" where
  "link_process_current ops process creation =
     seq (rask ops (R_open_process process)) (\<lambda>o'.
     finally_do (destroy_handle ops (r_handle o'))
       (if \<not> usable (r_handle o')
        then seq (rask ops R_last_error) (\<lambda>e. ret (if r_number e = ERROR_INVALID_PARAMETER then 0 else -1))
        else
          body (-1)
            (seq (rask ops (R_process_times (r_handle o'))) (\<lambda>a.
             seq (check (r_flag a)) (\<lambda>_.
             seq (rask ops (R_wait (r_handle o'))) (\<lambda>w.
             seq (check (r_number w = 0 \<or> r_number w = WAIT_TIMEOUT)) (\<lambda>_.
             ret (if r_wide a = creation \<and> r_number w = WAIT_TIMEOUT then 1 else 0))))))))"

end
