(* ===== verification/Relay_Contract.thy ===== *)
theory Relay_Contract
  imports Relay_Exports "HOL-Library.Sublist"
begin

text \<open>
  What the relay promises: its calls refine a machine of four stages, a generation names one pipe
  for ever, and a pipe is joined only to a peer that was authenticated.
\<close>

section \<open>What the methods of a pipe leave alone\<close>

definition pipe_flags :: "relay_pipe \<Rightarrow> (bool \<times> bool \<times> bool \<times> bool \<times> bool) \<times> u32 \<times> wstring \<times> sid \<times> handle" where
  "pipe_flags p = ((p_server p, p_connected p, p_failed p, p_guard_only p, p_independent_guard p),
     p_session p, p_root p, p_sid p, p_pipe p)"

text \<open>\<open>unmoved s\<close>: the flags, the identity and the pipe handle of the pipe, the owner and the generation of \<open>s\<close>, and its log or more.\<close>

definition unmoved :: "relay \<Rightarrow> relay \<Rightarrow> bool" where
  "unmoved s t \<longleftrightarrow> pipe_flags (this_pipe t) = pipe_flags (this_pipe s) \<and> owned t = owned s \<and>
     generation t = generation s \<and> prefix (rlog s) (rlog t)"

lemma unmoved_refl [simp]: "unmoved s s"
  by (simp add: unmoved_def)

lemma unmoved_trans: "unmoved s t \<Longrightarrow> unmoved t u \<Longrightarrow> unmoved s u"
  by (auto simp: unmoved_def intro: prefix_order.trans)

lemma pres_rask: "(\<And>s c a. I s \<Longrightarrow> I (s\<lparr>rlog := rlog s @ [(c, a)]\<rparr>)) \<Longrightarrow> pres I (rask ops c)"
  by (rule presI) (auto simp: rask_def Let_def)

lemma unmoved_steps [pres_intros]:
  "pres (unmoved s0) (rask ops c)" "pres (unmoved s0) (diagnose n)" "pres (unmoved s0) note_failure"
  "(\<And>p. pipe_flags (f p) = pipe_flags p) \<Longrightarrow> pres (unmoved s0) (this_upd f)"
  unfolding diagnose_def note_failure_def this_upd_def
  by (rule pres_rask, simp add: unmoved_def prefix_snoc)
    (rule pres_modify, simp add: unmoved_def)+

lemma unmoved_parts [pres_intros]:
  "pres I (this_get f)" "pres I (check b)" "pres I rleave"
  "pres I m \<Longrightarrow> pres I (body d m)"
  unfolding this_get_def check_def rleave_def body_def
  by (auto intro!: pres_intros split: fault.splits)

lemma unmoved_handles [pres_intros]:
  "pres (unmoved s0) (destroy_handle ops h)" "pres (unmoved s0) (close_handle ops h)"
  "pres (unmoved s0) (rallocate ops n)"
  unfolding destroy_handle_def close_handle_def rallocate_def by (auto intro!: pres_intros)

lemma unmoved_finally [pres_intros]:
  "pres I m \<Longrightarrow> pres I c \<Longrightarrow> pres I (finally_do c m)"
  unfolding finally_do_def by (intro pres_intros pres_attempt pres_resume)

lemma unmoved_scan: "pres (unmoved s0) (scan_processes ops h child n a)"
  by (induction n arbitrary: a) (auto intro!: pres_intros)

lemma unmoved_facts [pres_intros]:
  "pres (unmoved s0) (image ops h)" "pres (unmoved s0) (process_user ops h)" "pres (unmoved s0) (sid_text ops sid)"
  "pres (unmoved s0) (parent_id ops child)" "pres (unmoved s0) (endpoint ops link root text session)"
  unfolding image_def process_user_def sid_text_def parent_id_def endpoint_def Let_def
  by (auto intro!: pres_intros unmoved_scan)

lemma unmoved_bind [pres_intros]:
  assumes "\<And>h p. pipe_flags (f h p) = pipe_flags p" "\<And>h p. pipe_flags (g h p) = pipe_flags p"
  shows "pres (unmoved s0) (bind_image ops h name f g)"
  unfolding bind_image_def by (auto intro!: pres_intros assms)

lemma unmoved_checks [pres_intros]:
  "pres (unmoved s0) (launch_current ops)" "pres (unmoved s0) (same_user ops h pid)"
  "pres (unmoved s0) (created_before ops a b)" "pres (unmoved s0) (still_running ops h)"
  "pres (unmoved s0) (current_id ops)" "pres (unmoved s0) (live ops)"
  unfolding launch_current_def same_user_def created_before_def still_running_def current_id_def live_def
  by (auto intro!: pres_intros)

lemma unmoved_peer [pres_intros]: "pres (unmoved s0) (bind_peer ops h name)"
  unfolding bind_peer_def by (rule unmoved_bind) (simp_all add: pipe_flags_def)

lemma unmoved_launch [pres_intros]: "pres (unmoved s0) (independent_launch ops child h)"
  unfolding independent_launch_def Let_def
  by (intro pres_intros unmoved_steps unmoved_bind) (simp_all add: pipe_flags_def)

lemma unmoved_authenticate [pres_intros]:
  "pres (unmoved s0) (authenticate_parent ops link)" "pres (unmoved s0) (authenticate ops link)"
  unfolding authenticate_parent_def authenticate_def
  by (auto intro!: pres_intros simp: pipe_flags_def)

section \<open>Predicates closed under such methods\<close>

definition unmoved_closed :: "(relay \<Rightarrow> bool) \<Rightarrow> bool" where
  "unmoved_closed I \<longleftrightarrow> (\<forall>s t. I s \<longrightarrow> unmoved s t \<longrightarrow> I t)"

lemma unmoved_pres:
  assumes "\<And>s0. pres (unmoved s0) m" and "unmoved_closed I"
  shows "pres I m"
proof (rule pres_wp)
  fix s assume "I s"
  then show "wp m (\<lambda>r t. I t) s"
    using wp_pres [OF assms(1) unmoved_refl, of s] assms(2)
    by (auto simp: unmoved_closed_def wp_def split: prod.splits)
qed

lemmas method_pres =
  unmoved_pres [OF unmoved_steps(1)] unmoved_pres [OF unmoved_steps(2)] unmoved_pres [OF unmoved_handles(1)]
  unmoved_pres [OF unmoved_handles(2)] unmoved_pres [OF unmoved_handles(3)] unmoved_pres [OF unmoved_facts(1)]
  unmoved_pres [OF unmoved_facts(2)] unmoved_pres [OF unmoved_facts(3)] unmoved_pres [OF unmoved_facts(4)]
  unmoved_pres [OF unmoved_facts(5)] unmoved_pres [OF unmoved_checks(1)] unmoved_pres [OF unmoved_checks(4)]
  unmoved_pres [OF unmoved_checks(5)] unmoved_pres [OF unmoved_checks(6)] unmoved_pres [OF unmoved_launch]
  unmoved_pres [OF unmoved_authenticate(1)] unmoved_pres [OF unmoved_authenticate(2)]

lemma upd_pres: "(\<And>s. I s \<Longrightarrow> I (s\<lparr>this_pipe := f (this_pipe s)\<rparr>)) \<Longrightarrow> pres I (this_upd f)"
  unfolding this_upd_def by (rule pres_modify)

section \<open>The abstract machine\<close>

datatype side = Server | Client | Guard
datatype stage = Waiting | Joined | Failed

type_synonym relay_session = "u64 \<times> (side \<times> stage) option"

datatype relay_call =
    Call_open u32 bool
  | Call_accept u64
  | Call_read u64 bool nat
  | Call_write u64 bool "u8 list"
  | Call_state u64
  | Call_app_launch u64
  | Call_close u64
  | Call_disconnect u64
  | Call_peer u64
  | Call_process u32 u64
  | Call_allocate nat
  | Call_free u64

fun relay_run :: "relay_ops \<Rightarrow> nat \<Rightarrow> relay_call \<Rightarrow> relay \<Rightarrow> relay" where
  "relay_run ops link (Call_open role given) s = snd (relay_open ops link role given s)"
| "relay_run ops link (Call_accept pid) s = snd (relay_accept ops link pid s)"
| "relay_run ops link (Call_read pid given limit) s = snd (relay_read ops pid given limit s)"
| "relay_run ops link (Call_write pid given data) s = snd (relay_write ops pid given data s)"
| "relay_run ops link (Call_state pid) s = snd (relay_state ops pid s)"
| "relay_run ops link (Call_app_launch pid) s = snd (relay_app_launch_state ops pid s)"
| "relay_run ops link (Call_close pid) s = snd (relay_close ops pid s)"
| "relay_run ops link (Call_disconnect pid) s = snd (relay_disconnect ops pid s)"
| "relay_run ops link (Call_peer pid) s = snd (link_peer_identity ops pid s)"
| "relay_run ops link (Call_process process creation) s = snd (link_process_current ops process creation s)"
| "relay_run ops link (Call_allocate n) s = snd (relay_allocate ops n s)"
| "relay_run ops link (Call_free buffer) s = snd (relay_free ops buffer s)"

definition pipe_stage :: "relay_pipe \<Rightarrow> side \<times> stage" where
  "pipe_stage p =
     (if p_server p then Server else if p_guard_only p then Guard else Client,
      if p_failed p then Failed else if p_connected p then Joined else Waiting)"

definition relay_abs :: "relay \<Rightarrow> relay_session" where
  "relay_abs s = (generation s, map_option pipe_stage (owned s))"

definition opening_stage :: "u32 \<Rightarrow> side \<times> stage" where
  "opening_stage role = (if role = 0 then (Server, Waiting) else if role = 1 then (Client, Joined) else (Guard, Joined))"

text \<open>What each call may do to the session, and which generation it must name.\<close>

inductive session_step :: "relay_call \<Rightarrow> relay_session \<Rightarrow> relay_session \<Rightarrow> bool" where
  stays: "session_step c x x"
| opens: "n \<noteq> -1 \<Longrightarrow> role \<le> 3 \<Longrightarrow> session_step (Call_open role True) (n, None) (n + 1, Some (opening_stage role))"
| joins: "session_step (Call_accept n) (n, Some (Server, Waiting)) (n, Some (Server, Joined))"
| breaks: "session_step (Call_accept n) (n, Some (Server, Waiting)) (n, Some (Server, Failed))"
| resets: "session_step (Call_disconnect n) (n, Some (Server, x)) (n, Some (Server, Waiting))"
| sticks: "session_step (Call_disconnect n) (n, Some (Server, x)) (n, Some (Server, Failed))"
| closes: "session_step (Call_close n) (n, Some x) (n, None)"
| clings: "session_step (Call_close n) (n, Some (sd, x)) (n, Some (sd, Failed))"

inductive_cases session_stepE: "session_step c x y"

subsection \<open>Opening\<close>

definition shaped :: "relay_pipe option \<Rightarrow> u64 \<Rightarrow> u32 \<Rightarrow> relay \<Rightarrow> bool" where
  "shaped own g role t \<longleftrightarrow> owned t = own \<and> generation t = g \<and> p_server (this_pipe t) = (role = 0) \<and>
     p_guard_only (this_pipe t) = (role \<ge> 2) \<and> \<not> p_failed (this_pipe t)"

definition unjoined :: "relay \<Rightarrow> bool" where
  "unjoined t \<longleftrightarrow> \<not> p_connected (this_pipe t)"

lemma closed_shapes: "unmoved_closed (shaped own g role)" "unmoved_closed unjoined"
  by (auto simp: unmoved_closed_def unmoved_def shaped_def unjoined_def pipe_flags_def)

lemmas shaped_methods = method_pres [OF closed_shapes(1)]
lemmas unjoined_methods = method_pres [OF closed_shapes(2)]

lemma shaped_guard: "pres (shaped own g role) (open_guard ops link)"
  unfolding open_guard_def guard_launch_def
  by (intro pres_intros shaped_methods upd_pres) (simp add: shaped_def)

lemma shaped_server: "pres (shaped own g role) (open_server ops text address)"
  unfolding open_server_def
  by (intro pres_intros shaped_methods upd_pres) (simp add: shaped_def)

lemma shaped_client: "pres (shaped own g role) (open_client ops link address)"
  unfolding open_client_def
  by (intro pres_intros shaped_methods upd_pres) (simp_all add: shaped_def)

lemma unjoined_server: "pres unjoined (open_server ops text address)"
  unfolding open_server_def
  by (intro pres_intros unjoined_methods upd_pres) (simp add: unjoined_def)

text \<open>A guard or a client reports success only when it is joined.\<close>

definition joined_if_ok :: "relay_status res \<Rightarrow> relay \<Rightarrow> bool" where
  "joined_if_ok r t \<longleftrightarrow> (r = Val Relay_ok \<longrightarrow> p_connected (this_pipe t))"

lemma joined_cases [simp]:
  "joined_if_ok (Err e) t" "st \<noteq> Relay_ok \<Longrightarrow> joined_if_ok (Val st) t"
  by (simp_all add: joined_if_ok_def)

lemma wp_this_upd [wp_simps]: "wp (this_upd f) Q s = Q (Val ()) (s\<lparr>this_pipe := f (this_pipe s)\<rparr>)"
  by (simp add: this_upd_def wp_simps)

lemma wp_body: "wp (body d m) Q s = wp m (\<lambda>r t. case r of Val x \<Rightarrow> Q (Val x) t
    | Err e \<Rightarrow> (case e of Status _ \<Rightarrow> Q (Val d) t | _ \<Rightarrow> Q (Err e) t)) s"
  unfolding body_def wp_handle by (auto simp: wp_def ret_def err_def split: prod.splits res.splits fault.splits)

lemma joined_end: "wp (seq (this_upd (\<lambda>p. p\<lparr>p_connected := True\<rparr>)) (\<lambda>_. ret Relay_ok)) joined_if_ok s"
  by (simp add: wp_simps joined_if_ok_def)

lemma wp_branch: "(b \<Longrightarrow> wp m Q s) \<Longrightarrow> (\<not> b \<Longrightarrow> wp n Q s) \<Longrightarrow> wp (if b then m else n) Q s"
  by simp

lemma joined_guard: "wp (open_guard ops link) joined_if_ok s"
  unfolding open_guard_def by (rule joined_end wp_later | simp)+

lemma joined_client: "wp (open_client ops link address) joined_if_ok s"
  unfolding open_client_def by (rule joined_end wp_later wp_branch | simp add: wp_ret)+

text \<open>The pipe \<open>open_pipe\<close> fills, with the flags of its role; success means it is in its first stage.\<close>

definition opened_as :: "relay_pipe option \<Rightarrow> u64 \<Rightarrow> u32 \<Rightarrow> relay_status res \<Rightarrow> relay \<Rightarrow> bool" where
  "opened_as own g role r t \<longleftrightarrow> owned t = own \<and> generation t = g \<and>
     (r = Val Relay_ok \<longrightarrow> pipe_stage (this_pipe t) = opening_stage role)"

lemma opened_asI:
  assumes "shaped own g role t" and "role \<le> 3" and "role = 0 \<longrightarrow> unjoined t" and "role \<noteq> 0 \<longrightarrow> joined_if_ok r t"
  shows "opened_as own g role r t"
proof -
  have "role = 0 \<or> role = 1 \<or> role \<ge> 2" "\<not> (2 :: u32) \<le> 1" "\<not> (2 :: u32) \<le> 0" by unat_arith+
  then show ?thesis
    using assms by (auto simp: opened_as_def shaped_def unjoined_def joined_if_ok_def pipe_stage_def opening_stage_def)
qed

lemma opened_refused: "shaped own g role t \<Longrightarrow> r \<noteq> Val Relay_ok \<Longrightarrow> opened_as own g role r t"
  by (simp add: opened_as_def shaped_def)

definition based :: "relay_pipe option \<Rightarrow> u64 \<Rightarrow> relay \<Rightarrow> bool" where
  "based own g t \<longleftrightarrow> owned t = own \<and> generation t = g"

definition filling :: "relay_pipe option \<Rightarrow> u64 \<Rightarrow> u32 \<Rightarrow> relay \<Rightarrow> bool" where
  "filling own g role t \<longleftrightarrow> shaped own g role t \<and> unjoined t"

lemma closed_filling: "unmoved_closed (based own g)" "unmoved_closed (filling own g role)"
  using closed_shapes by (auto simp: unmoved_closed_def based_def filling_def unmoved_def)

lemmas filling_methods = method_pres [OF closed_filling(2)]

lemma filling_upd:
  assumes "\<And>p. p_server (f p) = p_server p" "\<And>p. p_guard_only (f p) = p_guard_only p"
    "\<And>p. p_failed (f p) = p_failed p" "\<And>p. p_connected (f p) = p_connected p"
  shows "pres (filling own g role) (this_upd f)"
  by (rule upd_pres) (simp add: filling_def shaped_def unjoined_def assms)

text \<open>The rest of the body once the flags are set, whatever it returns early.\<close>

definition fresh_outcome :: "relay_pipe option \<Rightarrow> u64 \<Rightarrow> u32 \<Rightarrow> relay_status res \<Rightarrow> relay \<Rightarrow> bool" where
  "fresh_outcome own g role r t \<longleftrightarrow> opened_as own g role (case r of Val x \<Rightarrow> Val x
     | Err (Status _) \<Rightarrow> Val Relay_rejected | Err e \<Rightarrow> Err e) t"

lemma fresh_refused: "filling own g role t \<Longrightarrow> fresh_outcome own g role (Err e) t"
  "filling own g role t \<Longrightarrow> fresh_outcome own g role (Val Relay_rejected) t"
  by (auto simp: fresh_outcome_def filling_def opened_refused split: fault.split)

lemma fresh_outcomeI: "opened_as own g role r t \<Longrightarrow> fresh_outcome own g role r t"
  by (auto simp: fresh_outcome_def opened_as_def split: res.split fault.split)

lemma fresh_unfilled: "based own g t \<Longrightarrow> fresh_outcome own g role (Err e) t"
  by (auto simp: fresh_outcome_def opened_as_def based_def split: fault.split)

lemma fresh_step:
  "pres (filling own g role) m \<Longrightarrow> filling own g role s \<Longrightarrow>
    (\<And>x t. filling own g role t \<Longrightarrow> wp (f x) (fresh_outcome own g role) t) \<Longrightarrow>
    wp (seq m f) (fresh_outcome own g role) s"
  by (rule wp_seq_pres [where I = "filling own g role"]) (auto intro: fresh_refused)

lemma fresh_stage:
  assumes f: "filling own g role s" and role: "role \<le> 3"
  shows "role \<ge> 2 \<Longrightarrow> wp (open_guard ops link) (fresh_outcome own g role) s"
    "role = 0 \<Longrightarrow> wp (open_server ops text address) (fresh_outcome own g role) s"
    "role = 1 \<Longrightarrow> wp (open_client ops link address) (fresh_outcome own g role) s"
proof -
  have sh: "shaped own g role s" and un: "unjoined s" using f by (simp_all add: filling_def)
  have ne: "\<not> (2 :: u32) \<le> 0" "(1 :: u32) \<noteq> 0" by unat_arith simp
  show "role \<ge> 2 \<Longrightarrow> wp (open_guard ops link) (fresh_outcome own g role) s"
    by (rule wp_mono [OF wp_conj [THEN iffD2, OF conjI [OF wp_pres [OF shaped_guard sh] joined_guard]]])
      (use ne role in \<open>auto intro!: fresh_outcomeI opened_asI\<close>)
  show "role = 0 \<Longrightarrow> wp (open_server ops text address) (fresh_outcome own g role) s"
    by (rule wp_mono [OF wp_conj [THEN iffD2, OF conjI [OF wp_pres [OF shaped_server sh] wp_pres [OF unjoined_server un]]]])
      (auto intro!: fresh_outcomeI opened_asI)
  show "role = 1 \<Longrightarrow> wp (open_client ops link address) (fresh_outcome own g role) s"
    by (rule wp_mono [OF wp_conj [THEN iffD2, OF conjI [OF wp_pres [OF shaped_client sh] joined_client]]])
      (use role in \<open>auto intro!: fresh_outcomeI opened_asI\<close>)
qed

lemma role_cases: "\<not> 2 \<le> (role :: u32) \<Longrightarrow> role \<noteq> 0 \<Longrightarrow> role = 1"
  by unat_arith

lemma open_fresh_stage:
  assumes role: "role \<le> 3" and s: "based own g s"
  shows "wp (open_fresh ops link role) (opened_as own g role) s"
proof -
  have set: "filling own g role (t\<lparr>this_pipe := new_pipe\<lparr>p_server := (role = 0), p_guard_only := (role \<ge> 2)\<rparr>\<rparr>)"
    if "based own g t \<and> this_pipe t = new_pipe" for t
    using that by (simp add: filling_def shaped_def unjoined_def based_def new_pipe_def)
  have alloc: "pres (\<lambda>t. based own g t \<and> this_pipe t = new_pipe) (rallocate ops n)" for n
    by (rule presI) (auto simp: rallocate_def rask_def seq_def ret_def err_def Let_def based_def split: if_splits)
  show ?thesis
    unfolding open_fresh_def wp_body
    apply (rule wp_mono [where Q = "fresh_outcome own g role"])
     apply (subst wp_seq, subst wp_this_upd, simp only: res.case)
     apply (rule wp_seq_pres [OF alloc])
       apply (use s in \<open>simp add: based_def\<close>)
      apply (blast intro: fresh_unfilled)
     apply (subst wp_seq, subst wp_this_upd, simp only: res.case)
     apply (rule fresh_step [OF filling_methods(6) set], assumption)
     apply (simp only: split: option.split prod.split, intro allI impI conjI)
       apply (simp add: wp_ret fresh_refused)
      apply (simp add: wp_ret fresh_refused)
     apply (rule fresh_step [OF filling_upd], simp, simp, simp, simp, assumption)
     apply (rule fresh_step [OF unmoved_parts(2)], assumption)
     apply (rule fresh_step [OF filling_methods(2)], assumption)
     apply (rule fresh_step [OF filling_upd], simp, simp, simp, simp, assumption)
     apply (rule fresh_step [OF filling_methods(7)], assumption)
     apply (rule fresh_step [OF filling_upd], simp, simp, simp, simp, assumption)
     apply (rule fresh_step [OF unmoved_parts(2)], assumption)
     apply (rule fresh_step [OF filling_methods(13)], assumption)
     apply (rule fresh_step [OF filling_methods(1)], assumption)
     apply (rule fresh_step [OF unmoved_parts(2)], assumption)
     apply (rule fresh_step [OF filling_upd], simp, simp, simp, simp, assumption)
     apply (rule wp_branch)
      apply (erule fresh_stage(1) [OF _ role], assumption)
     apply (rule fresh_step [OF filling_methods(8)], assumption)
     apply (rule fresh_step [OF filling_methods(2)], assumption)
     apply (rule fresh_step [OF filling_methods(10)], assumption)
     apply (rule fresh_step [OF unmoved_parts(2)], assumption)
     apply (rule wp_branch)
      apply (erule fresh_stage(2) [OF _ role], assumption)
     apply (erule fresh_stage(3) [OF _ role], erule role_cases, assumption)
    apply (auto simp: fresh_outcome_def split: res.splits fault.splits)
    done
qed

subsection \<open>The other calls\<close>

text \<open>What a method running on the owned pipe makes of the session.\<close>

lemma destroy_unmoved: "unmoved s (snd (destroy_pipe ops s))"
proof -
  have "pres (unmoved s) (destroy_handles ops hs)" for hs
    by (induction hs) (auto intro!: pres_intros)
  then have "pres (unmoved s) (destroy_pipe ops)"
    unfolding destroy_pipe_def by (intro pres_intros)
  then show ?thesis by (simp add: pres_def)
qed

lemma relay_open_steps: "session_step (Call_open role given) (relay_abs s) (relay_abs (snd (relay_open ops link role given s)))"
proof -
  let ?s1 = "s\<lparr>link_diagnostic := 1\<rparr>"
  show ?thesis
  proof (cases "\<not> given \<or> role > 3 \<or> owned s \<noteq> None \<or> cleanup_failed s \<or> generation s = -1")
    case True
    then show ?thesis by (auto simp: relay_open_def Let_def relay_abs_def stays)
  next
    case False
    obtain r t where run: "open_fresh ops link role ?s1 = (r, t)" by (cases "open_fresh ops link role ?s1")
    have "opened_as None (generation s) role r t"
      using wp_run [OF open_fresh_stage [where s = ?s1] run] False by (simp add: based_def not_less)
    moreover have "relay_abs (snd (destroy_pipe ops t)) = relay_abs t" for t
      using destroy_unmoved [of t ops] by (simp add: unmoved_def relay_abs_def)
    ultimately show ?thesis
      using False run opens [of "generation s" role]
      by (auto simp: relay_open_def Let_def opened_as_def relay_abs_def not_less stays
        split: res.splits relay_status.splits)
  qed
qed

text \<open>A method that leaves the flags alone leaves the session alone.\<close>

lemma pipe_stage_flags: "pipe_flags p = pipe_flags q \<Longrightarrow> pipe_stage p = pipe_stage q"
  by (simp add: pipe_flags_def pipe_stage_def)

lemma with_pipe_unmoved:
  assumes "\<And>s0. pres (unmoved s0) m" and "get_pipe pid s = Some p"
  shows "relay_abs (snd (with_pipe p m s)) = relay_abs s"
proof -
  obtain r t where run: "m (s\<lparr>this_pipe := p\<rparr>) = (r, t)" by (cases "m (s\<lparr>this_pipe := p\<rparr>)")
  have "unmoved (s\<lparr>this_pipe := p\<rparr>) t"
    by (rule presD [OF assms(1) unmoved_refl run])
  then show ?thesis
    using assms(2) run by (auto simp: with_pipe_def relay_abs_def unmoved_def get_pipe_def split: if_splits
      intro: pipe_stage_flags)
qed

lemma on_pipe_unmoved:
  assumes "\<And>s0. pres (unmoved s0) m"
  shows "relay_abs (snd (on_pipe missing thrown pid m s)) = relay_abs s"
  using with_pipe_unmoved [OF assms]
  by (auto simp: on_pipe_def split: option.splits prod.splits res.splits) (metis snd_conv)+

lemma unmoved_calls [pres_intros]:
  "pres (unmoved s0) (read_pipe ops n)" "pres (unmoved s0) (write_pipe ops data)" "pres (unmoved s0) (pipe_state ops)"
  "pres (unmoved s0) (app_launch ops)" "pres (unmoved s0) (peer_identity ops)"
  "pres (unmoved s0) (link_process_current ops process creation)" "pres (unmoved s0) (relay_allocate ops n)"
  "pres (unmoved s0) (relay_free ops buffer)"
  unfolding read_pipe_def write_pipe_def pipe_state_def app_launch_def peer_identity_def transferable_def
    link_process_current_def relay_allocate_def relay_free_def
  by (auto intro!: pres_intros)

lemma wp_this_get [wp_simps]: "wp (this_get f) Q s = Q (Val (f (this_pipe s))) s"
  by (simp add: this_get_def wp_simps)

lemma wp_check [wp_simps]: "wp (check b) Q s = (if b then Q (Val ()) s else Q (Err (Status UNAVAILABLE)) s)"
  by (simp add: check_def rleave_def wp_simps)

lemma wp_body_state: "wp m (\<lambda>r t. P t) s \<Longrightarrow> wp (body d m) (\<lambda>r t. P t) s"
  unfolding wp_body by (erule wp_mono) (auto split: res.split fault.split)

text \<open>A step that leaves the flags alone, in a method whose outcome may be any unmoved state.\<close>

lemma unmoved_then:
  assumes "\<And>s0. pres (unmoved s0) m" and "unmoved s0 s" and "\<And>t. unmoved s0 t \<Longrightarrow> P t"
    and "\<And>x t. unmoved s0 t \<Longrightarrow> wp (f x) (\<lambda>r t. P t) t"
  shows "wp (seq m f) (\<lambda>r t. P t) s"
  by (rule wp_seq_pres [OF assms(1,2)]) (use assms(3,4) in auto)

lemma unmoved_ret: "unmoved s0 s \<Longrightarrow> (\<And>t. unmoved s0 t \<Longrightarrow> P t) \<Longrightarrow> wp (ret x) (\<lambda>r t. P t) s"
  by (simp add: wp_ret)

lemma unmoved_stage: "unmoved s t \<Longrightarrow> pipe_stage (this_pipe t) = pipe_stage (this_pipe s)"
  unfolding unmoved_def by (blast intro: pipe_stage_flags)

definition accepted_from :: "relay \<Rightarrow> relay \<Rightarrow> bool" where
  "accepted_from s t \<longleftrightarrow> owned t = owned s \<and> generation t = generation s \<and>
     (unmoved s t \<or>
      pipe_stage (this_pipe s) = (Server, Waiting) \<and> pipe_stage (this_pipe t) \<in> {(Server, Joined), (Server, Failed)})"

lemma unmoved_accepted: "unmoved s t \<Longrightarrow> accepted_from s t"
  by (simp add: unmoved_def accepted_from_def)

lemma accepted_flag:
  assumes "unmoved s t" and "p_server (this_pipe s)" "\<not> p_failed (this_pipe s)" "\<not> p_connected (this_pipe s)"
  shows "wp fail_pipe (\<lambda>r t. accepted_from s t) t"
    "wp (seq (this_upd (\<lambda>p. p\<lparr>p_connected := True\<rparr>)) (\<lambda>_. ret x)) (\<lambda>r t. accepted_from s t) t"
proof -
  have "pipe_stage (this_pipe s) = (Server, Waiting)" "p_server (this_pipe t)" "\<not> p_failed (this_pipe t)"
    "owned t = owned s" "generation t = generation s"
    using assms by (simp_all add: unmoved_def pipe_stage_def pipe_flags_def)
  then show "wp fail_pipe (\<lambda>r t. accepted_from s t) t"
    "wp (seq (this_upd (\<lambda>p. p\<lparr>p_connected := True\<rparr>)) (\<lambda>_. ret x)) (\<lambda>r t. accepted_from s t) t"
    by (simp_all add: fail_pipe_def wp_simps accepted_from_def) (simp_all add: pipe_stage_def)
qed

lemma accept_steps: "wp (accept_pipe ops link) (\<lambda>r t. accepted_from s t) s"
proof -
  have client: "wp (accept_client ops link pipe) (\<lambda>r t. accepted_from s t) t"
    if u: "unmoved s t" and p: "p_server (this_pipe s)" "\<not> p_failed (this_pipe s)" "\<not> p_connected (this_pipe s)" for t pipe
  proof -
    have err_step: "pres (unmoved s0) (if b then ret 0 else seq (rask ops R_last_error) (\<lambda>e. ret (r_number e)))" for s0 b
      by (intro pres_intros)
    note steps = unmoved_then [OF unmoved_steps(1)] unmoved_then [OF err_step] unmoved_then [OF unmoved_authenticate(2)]
    show ?thesis
      unfolding accept_client_def
      by (rule steps [OF _ unmoved_accepted] u unmoved_accepted wp_branch unmoved_ret accepted_flag p | assumption | erule accepted_flag)+
  qed
  show ?thesis
    unfolding accept_pipe_def
    apply (rule wp_body_state)
    apply (simp only: wp_seq [of "this_get id"] wp_seq [of "check _"] wp_this_get wp_check id_apply split: if_split)
    apply (simp only: res.case, intro conjI impI)
       apply (rule unmoved_then [OF unmoved_checks(1) unmoved_refl unmoved_accepted], assumption)
       apply (rule unmoved_then [OF unmoved_parts(2) _ unmoved_accepted], assumption, assumption)
       apply (rule unmoved_then [OF unmoved_checks(6) _ unmoved_accepted], assumption, assumption)
       apply (erule unmoved_ret [OF _ unmoved_accepted], assumption)
      apply (simp add: unmoved_accepted)
     apply (rule unmoved_then [OF unmoved_checks(1) unmoved_refl unmoved_accepted], assumption)
     apply (rule unmoved_then [OF unmoved_parts(2) _ unmoved_accepted], assumption, assumption)
     apply (rule client, assumption, simp, simp, simp)
    apply (simp add: unmoved_accepted)
    done
qed

lemma relay_accept_steps: "session_step (Call_accept pid) (relay_abs s) (relay_abs (snd (relay_accept ops link pid s)))"
proof (cases "get_pipe pid s")
  case None
  then show ?thesis by (simp add: relay_accept_def on_pipe_def stays)
next
  case (Some p)
  let ?s = "s\<lparr>this_pipe := p\<rparr>"
  obtain r t where run: "accept_pipe ops link ?s = (r, t)" by (cases "accept_pipe ops link ?s")
  have "accepted_from ?s t" using wp_run [OF accept_steps run] .
  then show ?thesis
    using Some run joins [of pid] breaks [of pid] stays [of "Call_accept pid" "relay_abs s"]
    by (auto simp: relay_accept_def on_pipe_def with_pipe_def accepted_from_def relay_abs_def get_pipe_def
      dest!: unmoved_stage
      split: res.split if_splits)
qed

subsection \<open>Disconnecting and closing\<close>

definition stuck_at :: "relay \<Rightarrow> relay \<Rightarrow> bool" where
  "stuck_at s t \<longleftrightarrow> owned t = owned s \<and> generation t = generation s \<and> p_failed (this_pipe t) \<and>
     p_server (this_pipe t) = p_server (this_pipe s) \<and> p_guard_only (this_pipe t) = p_guard_only (this_pipe s)"

lemma closed_stuck: "unmoved_closed (stuck_at s)"
  by (auto simp: unmoved_closed_def unmoved_def stuck_at_def pipe_flags_def)

lemmas stuck_methods = method_pres [OF closed_stuck]

lemma stuck_close: "pres (stuck_at s) (close_peer ops)"
  "(\<And>h p. (p_failed (f h p), p_server (f h p), p_guard_only (f h p)) = (p_failed p, p_server p, p_guard_only p)) \<Longrightarrow>
    pres (stuck_at s) (close_field ops g f)"
  unfolding close_peer_def close_field_def
  by (auto intro!: pres_intros stuck_methods upd_pres simp: stuck_at_def)

lemma close_pipe_stuck: "wp (close_pipe ops) (\<lambda>r t. stuck_at s t) s"
proof -
  let ?m = "seq (close_field ops p_pipe (\<lambda>h p. p\<lparr>p_pipe := h\<rparr>)) (\<lambda>a.
     seq (close_peer ops) (\<lambda>b.
     seq (close_field ops p_launch_parent (\<lambda>h p. p\<lparr>p_launch_parent := h\<rparr>)) (\<lambda>c.
     seq (close_field ops p_actual_shell (\<lambda>h p. p\<lparr>p_actual_shell := h\<rparr>)) (\<lambda>d.
     seq (close_field ops p_expected_shell (\<lambda>h p. p\<lparr>p_expected_shell := h\<rparr>)) (\<lambda>e.
     ret (a \<and> b \<and> c \<and> d \<and> e))))))"
  have "pres (stuck_at s) ?m" by (intro pres_intros stuck_close) simp_all
  moreover have "stuck_at s (s\<lparr>this_pipe := (this_pipe s)\<lparr>p_failed := True\<rparr>\<rparr>)" by (simp add: stuck_at_def)
  ultimately show ?thesis
    unfolding close_pipe_def wp_seq [of "this_upd _"] wp_this_upd res.case by (rule wp_pres)
qed

definition disconnected_from :: "relay \<Rightarrow> relay \<Rightarrow> bool" where
  "disconnected_from s t \<longleftrightarrow> owned t = owned s \<and> generation t = generation s \<and>
     (unmoved s t \<or>
      p_server (this_pipe s) \<and> pipe_stage (this_pipe t) \<in> {(Server, Waiting), (Server, Failed)})"

lemma stuck_disconnected: "stuck_at s t \<Longrightarrow> p_server (this_pipe s) \<Longrightarrow> disconnected_from s t"
  by (simp add: stuck_at_def disconnected_from_def pipe_stage_def)

lemma unmoved_disconnected: "unmoved s t \<Longrightarrow> disconnected_from s t"
  by (simp add: unmoved_def disconnected_from_def)

lemma stuck_then:
  assumes "pres (stuck_at s) m" and "stuck_at s u" and "p_server (this_pipe s)"
    and "\<And>x t. stuck_at s t \<Longrightarrow> wp (f x) (\<lambda>r t. disconnected_from s t) t"
  shows "wp (seq m f) (\<lambda>r t. disconnected_from s t) u"
  by (rule wp_seq_pres [OF assms(1,2)]) (use assms(3,4) stuck_disconnected in auto)

lemma disconnect_steps: "wp (disconnect ops) (\<lambda>r t. disconnected_from s t) s"
proof -
  have tail: "wp (seq (this_upd (\<lambda>p. p\<lparr>p_failed := True\<rparr>)) (\<lambda>_.
        seq (rask ops (R_disconnect pipe)) (\<lambda>d.
        seq (if r_flag d then ret ()
             else seq (rask ops R_last_error) (\<lambda>e. check (r_number e = ERROR_PIPE_NOT_CONNECTED))) (\<lambda>_.
        seq (close_peer ops) (\<lambda>success.
        seq (gets cleanup_failed) (\<lambda>bad.
        seq (check (success \<and> \<not> bad)) (\<lambda>_.
        seq (this_upd (\<lambda>p. p\<lparr>p_connected := False, p_failed := False\<rparr>)) (\<lambda>_.
        ret True)))))))) (\<lambda>r t. disconnected_from s t) u"
    if u: "unmoved s u" and p: "p_server (this_pipe s)" for u pipe
  proof -
    have report: "pres (stuck_at s) (if r_flag d then ret ()
      else seq (rask ops R_last_error) (\<lambda>e. check (r_number e = ERROR_PIPE_NOT_CONNECTED)))" for d
      by (intro pres_intros stuck_methods)
    show ?thesis
      apply (subst wp_seq, subst wp_this_upd, simp only: res.case)
      apply (rule stuck_then [OF stuck_methods(1) _ p])
       apply (use u in \<open>simp add: stuck_at_def unmoved_def pipe_flags_def\<close>)
      apply (rule stuck_then [OF report _ p], assumption)
      apply (rule stuck_then [OF stuck_close(1) _ p], assumption)
      apply (rule stuck_then [OF pres_gets _ p], assumption)
      apply (rule stuck_then [OF unmoved_parts(2) _ p], assumption)
      apply (use p in \<open>auto simp: wp_simps stuck_at_def disconnected_from_def pipe_stage_def\<close>)
      done
  qed
  show ?thesis
    unfolding disconnect_def
    apply (rule wp_body_state)
    apply (simp only: wp_seq [of "this_get id"] wp_seq [of "check _"] wp_seq [of "gets _"] wp_this_get wp_check wp_gets id_apply)
    apply (simp only: res.case split: if_split)
    apply (intro conjI impI)
      apply (rule unmoved_then [OF unmoved_checks(1) unmoved_refl unmoved_disconnected], assumption)
      apply (rule unmoved_then [OF unmoved_parts(2) _ unmoved_disconnected], assumption, assumption)
      apply (rule tail, assumption, simp)
     apply (simp_all add: unmoved_disconnected)
    done
qed

lemma relay_disconnect_steps: "session_step (Call_disconnect pid) (relay_abs s) (relay_abs (snd (relay_disconnect ops pid s)))"
proof (cases "get_pipe pid s")
  case None
  then show ?thesis by (simp add: relay_disconnect_def on_pipe_def stays)
next
  case (Some p)
  let ?s = "s\<lparr>this_pipe := p\<rparr>" and ?m = "seq (disconnect ops) (\<lambda>ok. ret (if ok then Relay_ok else Relay_rejected))"
  obtain r t where run: "?m ?s = (r, t)" by (cases "?m ?s")
  have "wp ?m (\<lambda>r t. disconnected_from ?s t) ?s"
    unfolding wp_seq by (rule wp_mono [OF disconnect_steps]) (auto simp: wp_ret split: res.split)
  then have out: "disconnected_from ?s t" using run by (rule wp_run)
  have stage: "p_server p \<Longrightarrow> pipe_stage p = (Server, snd (pipe_stage p))" by (simp add: pipe_stage_def)
  show ?thesis
    using out Some run resets [of pid "snd (pipe_stage p)"] sticks [of pid "snd (pipe_stage p)"]
      stays [of "Call_disconnect pid" "relay_abs s"] stage
    by (auto simp: relay_disconnect_def on_pipe_def with_pipe_def disconnected_from_def relay_abs_def get_pipe_def
      dest!: unmoved_stage
      split: res.split if_splits)
qed

lemma relay_close_steps: "session_step (Call_close pid) (relay_abs s) (relay_abs (snd (relay_close ops pid s)))"
proof (cases "get_pipe pid s")
  case None
  then show ?thesis by (simp add: relay_close_def stays)
next
  case (Some p)
  let ?s = "s\<lparr>this_pipe := p\<rparr>"
  obtain r t where run: "close_pipe ops ?s = (r, t)" by (cases "close_pipe ops ?s")
  have out: "stuck_at ?s t" using wp_run [OF close_pipe_stuck run] .
  have gone: "owned (snd (destroy_pipe ops u)) = owned u \<and> generation (snd (destroy_pipe ops u)) = generation u" for u
    using destroy_unmoved [of u ops] by (simp add: unmoved_def)
  have stage: "pipe_stage p = (fst (pipe_stage p), snd (pipe_stage p))" by simp
  have failed: "pipe_stage (this_pipe t) = (fst (pipe_stage p), Failed)"
    using out by (simp add: stuck_at_def pipe_stage_def)
  show ?thesis
    using out Some run gone closes [of pid "pipe_stage p"] clings [of pid "fst (pipe_stage p)" "snd (pipe_stage p)"] failed
    by (auto simp: relay_close_def with_pipe_def stuck_at_def relay_abs_def get_pipe_def
      split: res.split bool.split if_splits)
qed

section \<open>Properties\<close>

lemma unmoved_run: "(\<And>s0. pres (unmoved s0) m) \<Longrightarrow> relay_abs (snd (m s)) = relay_abs s"
  using presD [where I = "unmoved s" and m = m, OF _ unmoved_refl] by (cases "m s") (fastforce simp: unmoved_def relay_abs_def)

lemma relay_refines: "session_step c (relay_abs s) (relay_abs (relay_run ops link c s))"
proof -
  have on: "relay_abs (snd (on_pipe missing thrown pid m s)) = relay_abs s" if "\<And>s0. pres (unmoved s0) m"
    for missing thrown :: 'b and pid m
    using that by (rule on_pipe_unmoved)
  show ?thesis
    by (cases c)
      (auto simp: relay_open_steps relay_accept_steps relay_disconnect_steps relay_close_steps relay_read_def relay_write_def
        relay_state_def relay_app_launch_state_def link_peer_identity_def on unmoved_calls unmoved_run stays)
qed

lemma next_generation:
  fixes n k :: u64
  assumes "n \<noteq> -1"
  shows "n < n + 1" and "k < n \<Longrightarrow> k < n + 1"
proof -
  have "n + 1 \<noteq> 0"
    using assms by (metis add_eq_0_iff2)
  then have "unat (n + 1) = unat n + 1" by (metis unatSuc add.commute Suc_eq_plus1)
  then show "n < n + 1" by (simp add: word_less_nat_alt)
  then show "k < n \<Longrightarrow> k < n + 1" by simp
qed

lemma session_past:
  assumes "session_step c (n, x) (m, y)" and "k < n \<or> k = n \<and> x = None"
  shows "k < m \<or> k = m \<and> y = None"
  using assms by (cases rule: session_stepE) (auto intro: next_generation)

lemma relay_calls_past:
  assumes "pid < generation s \<or> pid = generation s \<and> owned s = None"
  shows "pid < generation (fold (relay_run ops link) cs s) \<or>
    pid = generation (fold (relay_run ops link) cs s) \<and> owned (fold (relay_run ops link) cs s) = None"
  using assms
proof (induction cs arbitrary: s)
  case (Cons c cs)
  have "pid < generation (relay_run ops link c s) \<or>
    pid = generation (relay_run ops link c s) \<and> owned (relay_run ops link c s) = None"
    using session_past [of c "generation s" _ "generation (relay_run ops link c s)" _ pid]
      relay_refines [of c s ops link] Cons.prems
    by (auto simp: relay_abs_def)
  from Cons.IH [OF this] show ?case by simp
qed simp

text \<open>
  Claim C26.  Every call of the relay is a step of the session machine: only an open with no pipe
  starts a session, as a waiting server, a joined client or a joined guard under the next
  generation; only accept joins a waiting server or fails it; only disconnect brings a server back to
  waiting; only close ends a session; each must name the current generation, and every other call,
  an exception included, leaves the session as it is.
\<close>

theorem relay_refines_sessions: "session_step c (relay_abs s) (relay_abs (relay_run ops link c s))"
  by (rule relay_refines)

text \<open>
  Claim C27.  An identifier that no longer names a pipe never names one again, whatever calls follow:
  a client that kept an old identifier cannot reach a later pipe.
\<close>

theorem relay_identifiers_retire:
  assumes "pid \<le> generation s" and "get_pipe pid s = None"
  shows "get_pipe pid (fold (relay_run ops link) cs s) = None"
proof -
  have "pid < generation s \<or> pid = generation s \<and> owned s = None"
    using assms by (auto simp: get_pipe_def split: if_splits)
  from relay_calls_past [OF this] show ?thesis by (auto simp: get_pipe_def)
qed

text \<open>A system that refuses everything.\<close>

definition refusing_relay :: relay_ops where
  "refusing_relay es c = \<lparr>r_flag = False, r_handle = 0, r_number = 0, r_other = 0, r_wide = 0, r_size = 0, r_text = [],
     r_bytes = [], r_serial = 0, r_high = 0, r_low = 0\<rparr>"

theorem relay_identifiers_retire_witness:
  "get_pipe 0 (fold (relay_run refusing_relay 0) [Call_open 0 True, Call_accept 0, Call_close 0] new_relay) = None"
  by (rule relay_identifiers_retire) (simp_all add: new_relay_def get_pipe_def)

end
