(* ===== verification/Relay_Trust.thy ===== *)
theory Relay_Trust
  imports Relay_Contract
begin

text \<open>
  Whom the relay joins.  A server accepts, and a client opens, only after the operating system
  reported, in this order, the process at the other end, its user, its session and its image, and
  these are the pipe's own.
\<close>

section \<open>Collecting what the system reported\<close>

text \<open>\<open>knows s K t\<close>: from \<open>s\<close> only calm methods ran, and the events of \<open>K\<close> are in the log.\<close>

definition knows :: "relay \<Rightarrow> revent set \<Rightarrow> relay \<Rightarrow> bool" where
  "knows s K t \<longleftrightarrow> unmoved s t \<and> K \<subseteq> set (rlog t)"

lemma knows_start: "knows s {} s"
  by (simp add: knows_def)

lemma knows_later: "knows s K t \<Longrightarrow> unmoved t u \<Longrightarrow> knows s K u"
  by (auto simp: knows_def unmoved_def prefix_def)

lemma seq_assoc: "seq (seq m f) g = seq m (\<lambda>x. seq (f x) g)"
  by (rule ext) (simp add: seq_def split: prod.splits res.splits)

text \<open>\<open>admits A\<close>: what holds of a returned value; nothing is claimed of an exception.\<close>

definition admits :: "('a \<Rightarrow> relay \<Rightarrow> bool) \<Rightarrow> 'a res \<Rightarrow> relay \<Rightarrow> bool" where
  "admits A r t \<longleftrightarrow> (\<forall>x. r = Val x \<longrightarrow> A x t)"

lemma admits_simps [simp]: "admits A (Val x) t = A x t" "admits A (Err e) t"
  by (simp_all add: admits_def)

lemma admits_ret: "A x s \<Longrightarrow> wp (ret x) (admits A) s"
  by (simp add: wp_ret)

lemma admits_body: "(\<And>t. A d t) \<Longrightarrow> wp m (admits A) s \<Longrightarrow> wp (body d m) (admits A) s"
  unfolding wp_body by (erule wp_mono) (auto split: res.split fault.split)

lemma admits_seq: "wp m (admits A) s \<Longrightarrow> (\<And>x t. A x t \<Longrightarrow> wp (f x) (admits B) t) \<Longrightarrow> wp (seq m f) (admits B) s"
  unfolding wp_seq by (erule wp_mono) (auto split: res.split)

lemma knows_step:
  assumes "\<And>s0. pres (unmoved s0) m" and "knows s K u"
    and "\<And>x t. knows s K t \<Longrightarrow> wp (f x) (admits A) t"
  shows "wp (seq m f) (admits A) u"
  by (rule wp_seq_pres [OF assms(1) unmoved_refl]) (use assms(2,3) knows_later in auto)

lemma wp_rask [wp_simps]: "wp (rask ops c) Q s = Q (Val (ops (rlog s) c)) (s\<lparr>rlog := rlog s @ [(c, ops (rlog s) c)]\<rparr>)"
  by (simp add: wp_def rask_def Let_def)

lemma knows_ask:
  assumes "knows s K u" and "\<And>a t. knows s (insert (c, a) K) t \<Longrightarrow> wp (f a) (admits A) t"
  shows "wp (seq (rask ops c) f) (admits A) u"
  using assms by (auto simp: wp_simps knows_def unmoved_def prefix_snoc intro!: assms(2))

lemma knows_check: "(b \<Longrightarrow> wp (f ()) (admits A) u) \<Longrightarrow> wp (seq (check b) f) (admits A) u"
  by (simp add: wp_simps)

lemma knows_get: "wp (f (g (this_pipe u))) (admits A) u \<Longrightarrow> wp (seq (this_get g) f) (admits A) u"
  by (simp add: wp_simps)

lemma knows_finally:
  assumes c: "\<And>s0. pres (unmoved s0) c" and A: "\<And>x t u. A x t \<Longrightarrow> unmoved t u \<Longrightarrow> A x u"
    and m: "wp m (admits A) s"
  shows "wp (finally_do c m) (admits A) s"
proof -
  have "wp (seq c (\<lambda>_. resume r)) (admits A) t" if "admits A r t" for r t
    by (rule wp_seq_pres [OF c unmoved_refl]) (use A that in \<open>auto simp: wp_resume admits_def\<close>)
  then show ?thesis
    unfolding finally_do_def wp_seq [of "attempt m"] wp_attempt by (intro wp_mono [OF m]) simp
qed

lemma knows_learn:
  assumes m: "\<And>s0. pres (unmoved s0) m" and k: "knows s K u" and A: "wp m (admits A) u"
    and f: "\<And>x t. knows s K t \<Longrightarrow> A x t \<Longrightarrow> wp (f x) (admits B) t"
  shows "wp (seq m f) (admits B) u"
proof -
  have "wp m (\<lambda>r t. unmoved u t \<and> admits A r t) u"
    using wp_conj [THEN iffD2, OF conjI [OF wp_pres [OF m unmoved_refl] A]] .
  then show ?thesis
    unfolding wp_seq by (rule wp_mono) (use f knows_later [OF k] in \<open>auto split: res.split\<close>)
qed

lemma knows_more: "knows s K t \<Longrightarrow> e \<in> set (rlog t) \<Longrightarrow> knows s (insert e K) t"
  by (simp add: knows_def)

lemma knows_in: "knows s K t \<Longrightarrow> e \<in> K \<Longrightarrow> e \<in> set (rlog t)"
  by (auto simp: knows_def)

section \<open>The user and the image of a process\<close>

definition shown_user :: "handle \<Rightarrow> sid \<Rightarrow> relay \<Rightarrow> bool" where
  "shown_user h sid t \<longleftrightarrow> (sid \<noteq> [] \<longrightarrow>
     (\<exists>k a n u. (R_open_token h, k) \<in> set (rlog t) \<and> (R_user (r_handle k) n, a) \<in> set (rlog t) \<and>
       r_flag a \<and> sid = take u (r_bytes a)))"

lemma log_grows: "unmoved t u \<Longrightarrow> e \<in> set (rlog t) \<Longrightarrow> e \<in> set (rlog u)"
  by (auto simp: unmoved_def prefix_def)

lemma shown_user_later: "shown_user h sid t \<Longrightarrow> unmoved t u \<Longrightarrow> shown_user h sid u"
  unfolding shown_user_def by (blast intro: log_grows)

lemma process_user_shows: "wp (process_user ops h) (admits (shown_user h)) s"
  unfolding process_user_def
  apply (rule knows_ask [OF knows_start])
  apply (rule knows_finally, intro pres_intros)
   apply (erule shown_user_later, assumption)
  apply (rule admits_body, simp add: shown_user_def)
  apply (rule knows_check)
  apply (rule knows_ask, assumption, rule knows_check)
  apply (rule knows_ask, assumption, rule knows_check)
  apply (rule knows_step [OF unmoved_handles(3)], assumption)
  apply (rule knows_ask, assumption, rule knows_check)
  apply (rule knows_ask, assumption, rule knows_check)
  apply (rule knows_ask, assumption)
  apply (rule knows_step [OF unmoved_handles(3)], assumption)
  apply (rule knows_ask, assumption, rule knows_check)
  apply (rule admits_ret)
  apply (simp add: shown_user_def knows_def) 
  apply blast
  done

text \<open>The image named by the system and the expected file are one plain file.\<close>

definition shown_image :: "handle \<Rightarrow> wstring \<Rightarrow> relay \<Rightarrow> bool" where
  "shown_image h expected t \<longleftrightarrow> (\<exists>i actual e a left right.
     (R_image_name h, i) \<in> set (rlog t) \<and> r_flag i \<and> actual = take (r_size i) (r_text i @ replicate (r_size i) 0) \<and>
     (R_open_file expected OPEN_REPARSE_POINT, e) \<in> set (rlog t) \<and>
     (R_open_file actual OPEN_REPARSE_POINT, a) \<in> set (rlog t) \<and>
     (R_file_information (r_handle e), left) \<in> set (rlog t) \<and>
     (R_file_information (r_handle a), right) \<in> set (rlog t) \<and> same_image left right)"

lemma image_shows:
  "wp (Relay_Api.image ops h) (admits (\<lambda>text t. text \<noteq> [] \<longrightarrow> (\<exists>i. (R_image_name h, i) \<in> set (rlog t) \<and> r_flag i \<and>
     text = take (r_size i) (r_text i @ replicate (r_size i) 0)))) s"
  unfolding Relay_Api.image_def
  apply (rule knows_step [OF unmoved_handles(3) knows_start])
  apply (rule knows_ask, assumption)
  apply (rule wp_branch)
   apply (simp add: wp_ret)
  apply (rule admits_ret)
  apply (auto simp: knows_def)
  done

lemma bind_image_shows:
  assumes f: "\<And>h p. pipe_flags (f h p) = pipe_flags p" "\<And>h p. pipe_flags (g h p) = pipe_flags p"
  shows "wp (bind_image ops h expected f g) (admits (\<lambda>b t. b \<longrightarrow> shown_image h expected t)) s"
  unfolding bind_image_def
  apply (rule knows_step [OF unmoved_steps(2) knows_start])
  apply (rule knows_learn [OF unmoved_facts(1) _ image_shows], assumption)
  apply (rule wp_branch, simp add: wp_ret)
  apply (erule impE, assumption, elim exE conjE)
  apply (drule knows_more, assumption)
  apply (rule knows_ask, assumption)
  apply (rule knows_step [OF unmoved_steps(4)], rule f, assumption)
  apply (rule knows_ask, assumption)
  apply (rule knows_step [OF unmoved_steps(4)], rule f, assumption)
  apply (rule knows_step [OF unmoved_steps(2)], assumption)
  apply (rule admits_body, simp)
  apply (rule knows_check)
  apply (rule knows_ask, assumption, rule knows_check)
  apply (rule knows_ask, assumption, rule knows_check)
  apply (rule admits_ret)
  apply (simp add: knows_def shown_image_def)
  apply blast
  done

section \<open>The peer\<close>

text \<open>
  What the log shows of a peer that was let in: the process at the other end of the pipe, its
  user, its session, its image and that it still ran are all as this pipe demands.
\<close>

definition vouched :: "nat \<Rightarrow> relay_pipe \<Rightarrow> relay \<Rightarrow> bool" where
  "vouched link p t \<longleftrightarrow> (\<exists>i o' other q n w.
     (if p_server p then R_client_id (p_pipe p) else R_server_id (p_pipe p), i) \<in> set (rlog t) \<and>
     (R_open_process (r_number i), o') \<in> set (rlog t) \<and> usable (r_handle o') \<and>
     other \<noteq> [] \<and> shown_user (r_handle o') other t \<and>
     (R_equal_sid (p_sid p) other, q) \<in> set (rlog t) \<and> r_flag q \<and>
     (R_session_of (r_number i), n) \<in> set (rlog t) \<and> r_flag n \<and> r_number n = p_session p \<and>
     shown_image (r_handle o') (under (p_root p) (peer_image link (p_server p))) t \<and>
     (R_wait (r_handle o'), w) \<in> set (rlog t) \<and> r_number w = WAIT_TIMEOUT)"

lemma shown_image_later: "shown_image h e t \<Longrightarrow> unmoved t u \<Longrightarrow> shown_image h e u"
  unfolding shown_image_def by (blast intro: log_grows)

lemma vouched_later: "vouched link p t \<Longrightarrow> unmoved t u \<Longrightarrow> vouched link p u"
  unfolding vouched_def by (blast intro: log_grows shown_user_later shown_image_later)

lemma still_running_shows:
  "wp (still_running ops h) (admits (\<lambda>b t. b \<longrightarrow> (\<exists>w. (R_wait h, w) \<in> set (rlog t) \<and> r_number w = WAIT_TIMEOUT))) s"
  unfolding still_running_def
  apply (rule knows_ask [OF knows_start])
  apply (rule admits_ret)
  apply (auto simp: knows_def)
  done

lemma knows_flags: "knows s K t \<Longrightarrow> pipe_flags (this_pipe t) = pipe_flags (this_pipe s)"
  by (simp add: knows_def unmoved_def)

lemma knows_get_flag:
  assumes "knows s K u" and "\<And>p q. pipe_flags p = pipe_flags q \<Longrightarrow> g p = g q" and "knows s K u \<Longrightarrow> wp (f (g (this_pipe s))) (admits A) u"
  shows "wp (seq (this_get g) f) (admits A) u"
  using assms(3) [OF assms(1)] assms(2) [OF knows_flags [OF assms(1)]] by (simp add: wp_simps)

lemma admits_last:
  assumes "\<And>s0. pres (unmoved s0) m" and "P s" and "\<And>t. P s \<Longrightarrow> unmoved s t \<Longrightarrow> P t"
  shows "wp m (admits (\<lambda>b t. b \<longrightarrow> P t)) s"
  by (rule wp_mono [OF wp_pres [OF assms(1) unmoved_refl]]) (use assms(2,3) in \<open>auto simp: admits_def\<close>)

lemma knows_user:
  "knows s K t \<Longrightarrow> shown_user h x t \<Longrightarrow> x \<noteq> [] \<Longrightarrow>
    \<exists>k a n u. knows s (insert (R_open_token h, k) (insert (R_user (r_handle k) n, a) K)) t \<and> r_flag a \<and> x = take u (r_bytes a)"
  unfolding shown_user_def knows_def insert_subset by blast

lemma knows_image:
  "knows s K t \<Longrightarrow> shown_image h expected t \<Longrightarrow>
    \<exists>i e a left right actual. knows s (insert (R_image_name h, i) (insert (R_open_file expected OPEN_REPARSE_POINT, e)
      (insert (R_open_file actual OPEN_REPARSE_POINT, a) (insert (R_file_information (r_handle e), left)
      (insert (R_file_information (r_handle a), right) K))))) t \<and> r_flag i \<and>
      actual = take (r_size i) (r_text i @ replicate (r_size i) 0) \<and> same_image left right"
  unfolding shown_image_def knows_def insert_subset by blast

lemma diagnose_pipe: "this_pipe (s\<lparr>link_diagnostic := n\<rparr>) = this_pipe s"
  by simp

lemma authenticate_vouches: "wp (authenticate ops link) (admits (\<lambda>b t. b \<longrightarrow> vouched link (this_pipe s) t)) s"
  unfolding authenticate_def same_user_def seq_assoc
  apply (rule admits_body, simp)
  apply (subst wp_seq, simp only: diagnose_def wp_modify res.case)
  apply (rule knows_get, simp only: prod.case)
  apply (subgoal_tac "knows s {} (s\<lparr>link_diagnostic := 10\<rparr>)")
   prefer 2 apply (simp add: knows_def unmoved_def)
  apply (fold diagnose_def)
  apply (erule knows_ask, rule knows_check)
  apply (erule knows_ask)
  apply (erule knows_step [OF unmoved_steps(4), rotated], simp add: pipe_flags_def)
  apply (erule knows_step [OF unmoved_steps(2)])
  apply (rule knows_check)
  apply (erule knows_learn [OF unmoved_facts(2) _ process_user_shows])
  apply (rule knows_check)
  apply (drule knows_user, assumption, assumption, elim exE conjE)
  apply (erule knows_get_flag, simp add: pipe_flags_def)
  apply (erule knows_ask, rule knows_check)
  apply (erule knows_ask, rule knows_check)
  apply (erule knows_get_flag, simp add: pipe_flags_def)
  apply (rule knows_check)
  apply (erule knows_get_flag, simp add: pipe_flags_def)
  apply (erule knows_step [OF unmoved_steps(2)])
  apply (erule knows_learn [OF unmoved_peer])
   apply (unfold bind_peer_def, rule bind_image_shows, simp add: pipe_flags_def, simp add: pipe_flags_def)
  apply (rule knows_check)
  apply (erule impE, assumption, drule knows_image, assumption, elim exE conjE)
  apply (erule knows_learn [OF unmoved_checks(4) _ still_running_shows])
  apply (rule knows_check)
  apply (erule impE, assumption, elim exE conjE)
  apply (drule knows_more, assumption)
  apply (rule admits_last [OF unmoved_checks(1) _ vouched_later])
    apply (simp only: vouched_def shown_user_def shown_image_def knows_def insert_subset diagnose_pipe)
    apply (elim conjE)
    apply (intro exI conjI impI)
    apply (assumption | (simp; fail) | fastforce)+
  apply (simp add: pipe_flags_def)
  done

section \<open>The invariant of the module\<close>

text \<open>A pipe joined to a peer, that peer vouched for.\<close>

definition trusted_pipe :: "nat \<Rightarrow> relay_pipe \<Rightarrow> relay \<Rightarrow> bool" where
  "trusted_pipe link p t \<longleftrightarrow> (pipe_stage p = (Server, Joined) \<or> pipe_stage p = (Client, Joined) \<longrightarrow> vouched link p t)"

definition trusted :: "nat \<Rightarrow> relay \<Rightarrow> bool" where
  "trusted link s \<longleftrightarrow> (case owned s of None \<Rightarrow> True | Some p \<Rightarrow> trusted_pipe link p s)"

lemma vouched_log: "rlog t = rlog u \<Longrightarrow> vouched link p t = vouched link p u"
  by (simp add: vouched_def shown_user_def shown_image_def)

lemma vouched_pipe:
  "p_server p = p_server q \<Longrightarrow> p_pipe p = p_pipe q \<Longrightarrow> p_sid p = p_sid q \<Longrightarrow> p_session p = p_session q \<Longrightarrow>
    p_root p = p_root q \<Longrightarrow> vouched link p t = vouched link q t"
  by (simp add: vouched_def)

lemma trusted_log: "rlog t = rlog u \<Longrightarrow> trusted_pipe link p t = trusted_pipe link p u"
  unfolding trusted_pipe_def by (simp add: vouched_log [of t u])

lemma trusted_unmoved:
  assumes "trusted_pipe link (this_pipe s) s" and "unmoved s t"
  shows "trusted_pipe link (this_pipe t) t"
proof -
  have f: "pipe_flags (this_pipe t) = pipe_flags (this_pipe s)" using assms(2) by (simp add: unmoved_def)
  have "vouched link (this_pipe s) s \<Longrightarrow> vouched link (this_pipe t) t"
    using vouched_later [OF _ assms(2), of link "this_pipe s"] vouched_pipe [of "this_pipe t" "this_pipe s" link t] f
    by (simp add: pipe_flags_def)
  then show ?thesis using assms(1) pipe_stage_flags [OF f] by (simp add: trusted_pipe_def)
qed

lemma not_joined_trusted: "snd (pipe_stage p) \<noteq> Joined \<Longrightarrow> trusted_pipe link p t"
  by (auto simp: trusted_pipe_def)

text \<open>A method of the owned pipe keeps trust when it keeps it of the pipe it runs on.\<close>

lemma trusted_on_pipe:
  assumes "trusted link s" and m: "\<And>u. trusted_pipe link (this_pipe u) u \<Longrightarrow> wp m (\<lambda>r t. trusted_pipe link (this_pipe t) t) u"
  shows "trusted link (snd (on_pipe missing thrown pid m s))"
proof (cases "get_pipe pid s")
  case (Some p)
  obtain r t where run: "m (s\<lparr>this_pipe := p\<rparr>) = (r, t)" by (cases "m (s\<lparr>this_pipe := p\<rparr>)")
  have "owned s = Some p" using Some by (simp add: get_pipe_def split: if_splits)
  then have "trusted_pipe link p s" using assms(1) by (simp add: trusted_def)
  then have "trusted_pipe link (this_pipe (s\<lparr>this_pipe := p\<rparr>)) (s\<lparr>this_pipe := p\<rparr>)"
    using trusted_log [of "s\<lparr>this_pipe := p\<rparr>" s link p] by simp
  from wp_run [OF m [OF this] run] have "trusted_pipe link (this_pipe t) t" .
  then show ?thesis
    using Some run trusted_log [of "t\<lparr>owned := Some (this_pipe t)\<rparr>" t link "this_pipe t"]
    by (auto simp: on_pipe_def with_pipe_def trusted_def split: res.split)
qed (use assms(1) in \<open>simp add: on_pipe_def\<close>)

lemma trusted_calm: "(\<And>s0. pres (unmoved s0) m) \<Longrightarrow> trusted_pipe link (this_pipe u) u \<Longrightarrow>
    wp m (\<lambda>r t. trusted_pipe link (this_pipe t) t) u"
  by (rule wp_mono [OF wp_pres [where I = "unmoved u", OF _ unmoved_refl]]) (auto intro: trusted_unmoved)

lemma trusted_disconnect:
  assumes "trusted_pipe link (this_pipe u) u"
  shows "wp (seq (disconnect ops) (\<lambda>ok. ret (if ok then Relay_ok else Relay_rejected)))
    (\<lambda>r t. trusted_pipe link (this_pipe t) t) u"
proof -
  have "trusted_pipe link (this_pipe t) t" if "disconnected_from u t" for t
    using that trusted_unmoved [OF assms] by (auto simp: disconnected_from_def intro: not_joined_trusted)
  then show ?thesis
    unfolding wp_seq by (intro wp_mono [OF disconnect_steps]) (auto simp: wp_ret split: res.split)
qed

subsection \<open>Accepting\<close>

lemma joined_after: "wp (authenticate ops link) (\<lambda>r t. unmoved s t \<and> (r = Val True \<longrightarrow> vouched link (this_pipe t) t)) s"
proof -
  have "wp (authenticate ops link) (\<lambda>r t. unmoved s t \<and> admits (\<lambda>b t. b \<longrightarrow> vouched link (this_pipe s) t) r t) s"
    using wp_conj [THEN iffD2, OF conjI [OF wp_pres [OF unmoved_authenticate(2) unmoved_refl] authenticate_vouches]] .
  then show ?thesis
    by (rule wp_mono)
      (auto simp: unmoved_def pipe_flags_def intro: vouched_pipe [THEN iffD1, rotated -1])
qed

lemma trusted_joined:
  assumes "vouched link (this_pipe t) t"
  shows "trusted_pipe link ((this_pipe t)\<lparr>p_connected := b\<rparr>) (t\<lparr>this_pipe := (this_pipe t)\<lparr>p_connected := b\<rparr>\<rparr>)"
  using assms vouched_pipe [of "(this_pipe t)\<lparr>p_connected := b\<rparr>" "this_pipe t" link t]
    vouched_log [of "t\<lparr>this_pipe := (this_pipe t)\<lparr>p_connected := b\<rparr>\<rparr>" t link]
  by (simp add: trusted_pipe_def)

lemma authenticated_then:
  assumes u: "unmoved s u" and P: "\<And>t. unmoved s t \<Longrightarrow> P t"
    and f: "\<And>t. unmoved s t \<Longrightarrow> wp (f False) (\<lambda>r t. P t) t"
    and g: "\<And>t. unmoved s t \<Longrightarrow> vouched link (this_pipe t) t \<Longrightarrow> wp (f True) (\<lambda>r t. P t) t"
  shows "wp (seq (authenticate ops link) f) (\<lambda>r t. P t) u"
proof -
  have "wp (f x) (\<lambda>r t. P t) t" if "unmoved u t" "x \<longrightarrow> vouched link (this_pipe t) t" for x t
    using that f g unmoved_trans [OF u] by (cases x) auto
  then show ?thesis
    unfolding wp_seq by (intro wp_mono [OF joined_after]) (auto intro: P unmoved_trans [OF u] split: res.split)
qed

lemma trusted_accept:
  assumes "trusted_pipe link (this_pipe s) s"
  shows "wp (accept_pipe ops link) (\<lambda>r t. trusted_pipe link (this_pipe t) t) s"
proof -
  note calm = trusted_unmoved [OF assms]
  have failing: "wp fail_pipe (\<lambda>r t. trusted_pipe link (this_pipe t) t) t" for t
    by (simp add: fail_pipe_def wp_simps not_joined_trusted pipe_stage_def)
  have err_step: "pres (unmoved s0) (if b then ret 0 else seq (rask ops R_last_error) (\<lambda>e. ret (r_number e)))" for s0 b
    by (intro pres_intros)
  have client: "wp (accept_client ops link pipe) (\<lambda>r t. trusted_pipe link (this_pipe t) t) t" if "unmoved s t" for t pipe
    unfolding accept_client_def
    apply (rule unmoved_then [OF unmoved_steps(1) that calm], assumption)
    apply (rule unmoved_then [OF err_step _ calm], assumption, assumption)
    apply (rule wp_branch, erule unmoved_ret [OF _ calm], assumption)
    apply (rule wp_branch, rule failing)
    apply (rule unmoved_then [OF unmoved_steps(1) _ calm], assumption, assumption)
    apply (rule wp_branch)
     apply (rule unmoved_then [OF unmoved_steps(1) _ calm], assumption, assumption)
     apply (rule wp_branch, erule unmoved_ret [OF _ calm], assumption, rule failing)
    apply (erule authenticated_then)
      apply (erule calm)
     apply (simp add: failing)
    apply (simp add: wp_simps trusted_joined)
    done
  show ?thesis
    unfolding accept_pipe_def
    apply (rule wp_body_state)
    apply (simp only: wp_seq [of "this_get id"] wp_this_get res.case id_apply)
    apply (rule unmoved_then [OF unmoved_parts(2) unmoved_refl calm], assumption)
    apply (rule unmoved_then [OF unmoved_checks(1) _ calm], assumption, assumption)
    apply (rule unmoved_then [OF unmoved_parts(2) _ calm], assumption, assumption)
    apply (rule wp_branch)
     apply (rule unmoved_then [OF unmoved_checks(6) _ calm], assumption, assumption)
     apply (erule unmoved_ret [OF _ calm], assumption)
    apply (erule client)
    done
qed

subsection \<open>Opening\<close>

definition vouched_if_ok :: "nat \<Rightarrow> relay_status res \<Rightarrow> relay \<Rightarrow> bool" where
  "vouched_if_ok link r t \<longleftrightarrow> (r = Val Relay_ok \<longrightarrow> vouched link (this_pipe t) t)"

lemma vouched_if_ok_simps [simp]: "vouched_if_ok link (Err e) t" "st \<noteq> Relay_ok \<Longrightarrow> vouched_if_ok link (Val st) t"
  by (simp_all add: vouched_if_ok_def)

lemma vouched_end:
  "wp (seq (authenticate ops link) (\<lambda>trusted. seq (check trusted) (\<lambda>_.
     seq (this_upd (\<lambda>p. p\<lparr>p_connected := True\<rparr>)) (\<lambda>_. ret Relay_ok)))) (vouched_if_ok link) s"
proof -
  have "vouched link ((this_pipe t)\<lparr>p_connected := True\<rparr>) (t\<lparr>this_pipe := (this_pipe t)\<lparr>p_connected := True\<rparr>\<rparr>)"
    if "vouched link (this_pipe t) t" for t
    using that vouched_pipe [of "(this_pipe t)\<lparr>p_connected := True\<rparr>" "this_pipe t" link t]
      vouched_log [of "t\<lparr>this_pipe := (this_pipe t)\<lparr>p_connected := True\<rparr>\<rparr>" t link] by simp
  then show ?thesis
    unfolding wp_seq [of "authenticate ops link"]
    by (intro wp_mono [OF joined_after]) (auto simp: wp_simps vouched_if_ok_def split: res.split)
qed

lemma vouched_client: "wp (open_client ops link address) (vouched_if_ok link) s"
  unfolding open_client_def by (rule vouched_end wp_later wp_branch | simp add: wp_ret)+

lemma wp_body_rejected: "wp m (vouched_if_ok link) s \<Longrightarrow> wp (body Relay_rejected m) (vouched_if_ok link) s"
  unfolding wp_body by (erule wp_mono) (auto split: res.split fault.split)

lemma vouched_fresh: "wp (open_fresh ops link 1) (vouched_if_ok link) s"
proof -
  have "\<not> (2 :: u32) \<le> 1" by unat_arith
  then have no: "(2 :: u32) \<le> 1 \<longleftrightarrow> False" "(1 :: u32) = 0 \<longleftrightarrow> False" by simp_all
  show ?thesis
    unfolding open_fresh_def no if_False
    by (rule wp_body_rejected) (rule wp_later vouched_client | simp add: wp_ret split: option.split prod.split | intro allI impI conjI)+
qed

lemma trusted_open:
  assumes "trusted link s"
  shows "trusted link (snd (relay_open ops link role given s))"
proof (cases "\<not> given \<or> role > 3 \<or> owned s \<noteq> None \<or> cleanup_failed s \<or> generation s = -1")
  case True
  have "trusted link (s\<lparr>link_diagnostic := 1\<rparr>)"
    using assms trusted_log [of "s\<lparr>link_diagnostic := 1\<rparr>" s link] by (cases "owned s") (simp_all add: trusted_def)
  then show ?thesis using True by (auto simp: relay_open_def Let_def)
next
  case False
  let ?s1 = "s\<lparr>link_diagnostic := 1\<rparr>"
  obtain r t where run: "open_fresh ops link role ?s1 = (r, t)" by (cases "open_fresh ops link role ?s1")
  have out: "opened_as None (generation s) role r t"
    using wp_run [OF open_fresh_stage [where s = ?s1] run] False by (simp add: based_def not_less)
  have gone: "owned (snd (destroy_pipe ops u)) = owned u" for u
    using destroy_unmoved [of u ops] by (simp add: unmoved_def)
  have ok: "trusted_pipe link (this_pipe t) t" if "r = Val Relay_ok"
  proof (cases "role = 1")
    case True
    then have "vouched_if_ok link r t" using wp_run [OF vouched_fresh] run by simp
    then show ?thesis using that by (simp add: vouched_if_ok_def trusted_pipe_def)
  next
    case False
    then show ?thesis using out that by (auto simp: trusted_pipe_def opened_as_def opening_stage_def split: if_splits)
  qed
  have "trusted_pipe link (this_pipe t) (t\<lparr>owned := x, generation := g, link_diagnostic := d\<rparr>) = trusted_pipe link (this_pipe t) t"
    "trusted_pipe link (this_pipe t) (t\<lparr>owned := x, generation := g\<rparr>) = trusted_pipe link (this_pipe t) t"
    for x g d by (rule trusted_log, simp)+
  then show ?thesis
    using False run out ok gone
    by (auto simp: relay_open_def Let_def opened_as_def trusted_def not_less split: res.splits relay_status.splits)
qed

lemma trusted_close: "trusted link s \<Longrightarrow> trusted link (snd (relay_close ops pid s))"
proof (cases "get_pipe pid s")
  case (Some p)
  let ?s = "s\<lparr>this_pipe := p\<rparr>"
  obtain r t where run: "close_pipe ops ?s = (r, t)" by (cases "close_pipe ops ?s")
  have "stuck_at ?s t" using wp_run [OF close_pipe_stuck run] .
  then have "trusted_pipe link (this_pipe t) u" for u by (simp add: stuck_at_def not_joined_trusted pipe_stage_def)
  then show ?thesis
    using Some run by (auto simp: relay_close_def with_pipe_def trusted_def split: res.split bool.split)
qed (simp add: relay_close_def)

lemma trusted_plain: "(\<And>s0. pres (unmoved s0) m) \<Longrightarrow> trusted link s \<Longrightarrow> trusted link (snd (m s))"
proof -
  assume m: "\<And>s0. pres (unmoved s0) m" and s: "trusted link s"
  obtain r t where run: "m s = (r, t)" by (cases "m s")
  have "unmoved s t" by (rule presD [where I = "unmoved s", OF m unmoved_refl run])
  then show ?thesis
    using s run vouched_later [of link _ s t] by (auto simp: trusted_def trusted_pipe_def unmoved_def split: option.splits)
qed

lemma trusted_run: "trusted link s \<Longrightarrow> trusted link (relay_run ops link c s)"
proof -
  assume s: "trusted link s"
  have calm: "trusted link (snd (on_pipe missing thrown pid m s))" if "\<And>s0. pres (unmoved s0) m"
    for missing thrown :: 'b and pid m
    by (rule trusted_on_pipe [OF s trusted_calm]) (use that in auto)
  show ?thesis
    by (cases c)
      (auto simp: s trusted_open trusted_close relay_accept_def relay_disconnect_def relay_read_def relay_write_def
        relay_state_def relay_app_launch_state_def link_peer_identity_def
        intro: trusted_on_pipe [OF s trusted_accept] trusted_on_pipe [OF s trusted_disconnect] calm unmoved_calls
          trusted_plain [OF _ s])
qed

section \<open>A sample system\<close>

text \<open>The Codex adapter opens the pipe of an application of the same user, session and image.\<close>

definition sample_ranswer :: ranswer where
  "sample_ranswer = \<lparr>r_flag = True, r_handle = 5, r_number = 7, r_other = 0, r_wide = 1, r_size = 1, r_text = [83],
     r_bytes = [1], r_serial = 2, r_high = 0, r_low = 3\<rparr>"

definition sample_path :: "handle \<Rightarrow> wstring" where
  "sample_path h = backslash # wide (if h = -1 then ''shiroha_codex.exe'' else ''shiroha_quiz.exe'')"

fun sample_relay :: relay_ops where
  "sample_relay es (R_image_name h) = sample_ranswer\<lparr>r_text := sample_path h, r_size := length (sample_path h)\<rparr>"
| "sample_relay es (R_elevation h) = sample_ranswer\<lparr>r_number := 0\<rparr>"
| "sample_relay es (R_file_information h) = sample_ranswer\<lparr>r_number := 0\<rparr>"
| "sample_relay es (R_wait h) = sample_ranswer\<lparr>r_number := WAIT_TIMEOUT\<rparr>"
| "sample_relay es (R_session_of pid) = sample_ranswer\<lparr>r_number := 0\<rparr>"
| "sample_relay es c = sample_ranswer"

definition sample_joined :: relay where
  "sample_joined = fold (relay_run sample_relay 0) [Call_open 1 True] new_relay"

lemma sample_paths:
  "split_path (backslash # wide ''shiroha_codex.exe'') = Some ([], wide ''shiroha_codex.exe'')"
  "selected_name 0 1 = Some ''shiroha_codex.exe''"
  by code_simp+

text \<open>\<open>goes x m\<close>: on this system, for a pipe of session 0 that is not a server, \<open>m\<close> returns \<open>x\<close>.\<close>

definition sample_pipe :: "relay \<Rightarrow> bool" where
  "sample_pipe t \<longleftrightarrow> p_session (this_pipe t) = 0 \<and> \<not> p_server (this_pipe t) \<and> \<not> p_guard_only (this_pipe t) \<and>
     \<not> p_failed (this_pipe t)"

definition goes :: "'a \<Rightarrow> 'a rprog \<Rightarrow> bool" where
  "goes x m \<longleftrightarrow> (\<forall>s. sample_pipe s \<longrightarrow> wp m (\<lambda>r t. r = Val x \<and> sample_pipe t) s)"

lemma goes_seq: "goes y m \<Longrightarrow> goes x (f y) \<Longrightarrow> goes x (seq m f)"
  unfolding goes_def wp_seq by (intro allI impI) (rule wp_mono, blast, auto)

lemma goes_ask: "goes (sample_relay [] c) (rask sample_relay c)"
proof -
  have "sample_relay es c = sample_relay [] c" for es by (cases c) simp_all
  then show ?thesis by (auto simp: goes_def wp_rask sample_pipe_def)
qed

lemma goes_steps:
  "goes x (ret x)" "goes () (diagnose n)" "b \<Longrightarrow> goes () (check b)"
  by (simp_all add: goes_def wp_ret wp_check diagnose_def wp_modify sample_pipe_def)

lemma goes_upd:
  "(\<And>p. (p_session (f p), p_server (f p), p_guard_only (f p), p_failed (f p)) =
      (p_session p, p_server p, p_guard_only p, p_failed p)) \<Longrightarrow> goes () (this_upd f)"
  by (simp add: goes_def wp_this_upd sample_pipe_def)

lemma goes_get: "(\<And>v. goes x (f v)) \<Longrightarrow> goes x (seq (this_get g) f)"
  by (simp add: goes_def wp_seq wp_this_get)

lemma goes_session: "goes 0 (this_get p_session)"
  by (simp add: goes_def wp_this_get sample_pipe_def)

lemma goes_body: "goes x m \<Longrightarrow> goes x (body d m)"
  unfolding goes_def wp_body by (intro allI impI) (rule wp_mono, blast, auto)

lemma goes_finally: "goes x m \<Longrightarrow> goes () c \<Longrightarrow> goes x (finally_do c m)"
  unfolding goes_def finally_do_def wp_seq wp_attempt wp_resume
  by (intro allI impI) (rule wp_mono, blast, clarsimp, rule wp_mono, blast, auto)

lemma goes_allocate: "goes () (rallocate sample_relay n)"
  unfolding rallocate_def by (rule goes_seq [OF goes_ask]) (simp add: goes_steps sample_ranswer_def)

lemma goes_destroy: "goes () (destroy_handle sample_relay h)"
  unfolding destroy_handle_def
  by (cases "usable h") (simp_all add: goes_steps goes_seq [OF goes_ask] sample_ranswer_def)

lemmas goes_intros = goes_seq goes_ask goes_steps goes_body goes_finally goes_allocate goes_destroy

lemma goes_user: "goes [1] (process_user sample_relay h)"
  unfolding process_user_def
  by (rule goes_seq goes_finally goes_body goes_ask goes_allocate goes_destroy | simp add: sample_ranswer_def goes_steps)+

lemma sample_path_nonempty [simp]: "sample_path h \<noteq> []"
  by (simp add: sample_path_def)

lemma goes_image: "goes (sample_path h) (Relay_Api.image sample_relay h)"
  unfolding Relay_Api.image_def
  by (rule goes_seq goes_ask goes_allocate | simp add: sample_ranswer_def goes_steps Let_def)+

lemma goes_bind:
  assumes "\<And>h p. (p_session (f h p), p_server (f h p), p_guard_only (f h p), p_failed (f h p)) =
      (p_session p, p_server p, p_guard_only p, p_failed p)"
    and "\<And>h p. (p_session (g h p), p_server (g h p), p_guard_only (g h p), p_failed (g h p)) =
      (p_session p, p_server p, p_guard_only p, p_failed p)"
  shows "goes True (bind_image sample_relay h name f g)"
  unfolding bind_image_def
  by (rule goes_seq goes_body goes_ask goes_image goes_upd [OF assms(1)] goes_upd [OF assms(2)]
    | simp add: sample_ranswer_def goes_steps usable_def same_image_def REPARSE_OR_DIRECTORY_def)+

lemma goes_same_user: "goes () (same_user sample_relay h pid)"
  unfolding same_user_def
  by (rule goes_seq [OF goes_session] goes_get goes_seq goes_user goes_ask | simp add: sample_ranswer_def goes_steps)+

lemma goes_running: "goes True (still_running sample_relay h)"
  unfolding still_running_def by (rule goes_seq goes_ask | simp add: goes_steps sample_ranswer_def)+

lemma goes_current: "goes True (launch_current sample_relay)"
  by (simp add: goes_def launch_current_def wp_seq wp_this_get wp_ret sample_pipe_def)

lemma goes_peer: "goes True (bind_peer sample_relay h name)"
  unfolding bind_peer_def by (rule goes_bind) simp_all

lemma goes_authenticate: "goes True (authenticate sample_relay 0)"
  unfolding authenticate_def
proof (rule goes_body, rule goes_seq [OF goes_steps(2)], rule goes_get, simp only: split: prod.split, intro allI impI)
  fix server pipe
  let ?i = "sample_relay [] (if server then R_client_id pipe else R_server_id pipe)"
  have i: "r_flag ?i" "r_number ?i = 7" by (simp_all add: sample_ranswer_def)
  show "goes True (seq (rask sample_relay (if server then R_client_id pipe else R_server_id pipe)) (\<lambda>i.
        seq (check (r_flag i \<and> r_number i \<noteq> 0)) (\<lambda>_.
        seq (rask sample_relay (R_open_process (r_number i))) (\<lambda>o'.
        seq (this_upd (\<lambda>p. p\<lparr>p_peer := r_handle o'\<rparr>)) (\<lambda>_.
        seq (diagnose 11) (\<lambda>_.
        seq (check (usable (r_handle o'))) (\<lambda>_.
        seq (same_user sample_relay (r_handle o') (r_number i)) (\<lambda>_.
        seq (this_get p_root) (\<lambda>root.
        seq (diagnose 12) (\<lambda>_.
        seq (bind_peer sample_relay (r_handle o') (under root (peer_image 0 server))) (\<lambda>bound.
        seq (check bound) (\<lambda>_.
        seq (still_running sample_relay (r_handle o')) (\<lambda>running.
        seq (check running) (\<lambda>_.
        launch_current sample_relay))))))))))))))"
    by (rule goes_get goes_seq goes_ask goes_same_user goes_peer goes_running goes_current goes_upd
      | simp add: goes_steps i usable_def sample_ranswer_def)+
qed

lemma goes_text: "goes [83] (sid_text sample_relay [1])"
  unfolding sid_text_def
  by (rule goes_seq goes_ask goes_allocate | simp add: goes_steps sample_ranswer_def)+

definition sample_address :: wstring where
  "sample_address = pipe_prefix 0 @ wide (hex_text (take 32 (1 # replicate 32 0)))"

lemma goes_endpoint: "goes sample_address (endpoint sample_relay 0 root text session)"
  unfolding endpoint_def sample_address_def Let_def
  by (rule goes_seq goes_body goes_ask goes_allocate goes_steps(1) | simp add: goes_steps sample_ranswer_def)+

lemma goes_client: "goes Relay_ok (open_client sample_relay 0 address)"
  unfolding open_client_def
  by (rule goes_seq goes_ask goes_authenticate goes_upd goes_steps(1) | simp add: goes_steps sample_ranswer_def usable_def)+

lemma sample_name:
  "split_path (sample_path CURRENT_PROCESS) = Some ([], wide ''shiroha_codex.exe'')"
  "selected_name 0 1 = Some ''shiroha_codex.exe''" "sample_address \<noteq> []"
  by (code_simp, code_simp, simp add: sample_address_def pipe_prefix_def)

lemma goes_upd_state:
  "(\<And>s. sample_pipe s \<Longrightarrow> sample_pipe (s\<lparr>this_pipe := f (this_pipe s)\<rparr>)) \<Longrightarrow> goes () (this_upd f)"
  by (simp add: goes_def wp_this_upd)

lemma goes_id: "goes 7 (current_id sample_relay)"
  unfolding current_id_def by (rule goes_seq goes_ask goes_steps(1) | simp add: sample_ranswer_def goes_steps)+

lemma goesD: "goes x m \<Longrightarrow> sample_pipe s \<Longrightarrow> wp m (\<lambda>r t. r = Val x) s"
  unfolding goes_def by (rule wp_mono, blast) simp

lemma goes_fresh: "wp (open_fresh sample_relay 0 1) (\<lambda>r t. r = Val Relay_ok) s"
proof -
  have "\<not> (2 :: u32) \<le> 1" by unat_arith
  then have no: "(2 :: u32) \<le> 1 \<longleftrightarrow> False" "(1 :: u32) = 0 \<longleftrightarrow> False" by simp_all
  have same: "names_equal (wide ''shiroha_codex.exe'') (wide ''shiroha_codex.exe'')" by (simp add: names_equal_def)
  have start: "sample_pipe (s\<lparr>this_pipe := new_pipe\<rparr>)" by (simp add: sample_pipe_def new_pipe_def)
  show ?thesis
    unfolding open_fresh_def no if_False wp_body
    apply (rule wp_mono [where Q = "\<lambda>r t. r = Val Relay_ok"])
     apply (subst wp_seq, subst wp_this_upd, simp only: res.case)
     apply (rule goesD [OF _ start])
     apply (rule goes_seq [OF goes_allocate])
     apply (rule goes_seq [OF goes_upd_state], simp add: sample_pipe_def)
     apply (rule goes_seq [OF goes_image])
     apply (simp only: sample_name option.case prod.case)
     apply (rule goes_seq [OF goes_upd], simp)
     apply (rule goes_seq [OF goes_steps(3)], rule same)
     apply (rule goes_seq [OF goes_steps(2)])
     apply (rule goes_seq [OF goes_upd], simp)
     apply (rule goes_seq [OF goes_user])
     apply (rule goes_seq [OF goes_upd], simp)
     apply (rule goes_seq [OF goes_steps(3)], simp)
     apply (rule goes_seq [OF goes_id])
     apply (rule goes_seq [OF goes_ask])
     apply (rule goes_seq [OF goes_steps(3)], simp add: sample_ranswer_def)
     apply (rule goes_seq [OF goes_upd_state], simp add: sample_pipe_def)
     apply (rule goes_seq [OF goes_text])
     apply (rule goes_seq [OF goes_steps(2)])
     apply (rule goes_seq [OF goes_endpoint])
     apply (rule goes_seq [OF goes_steps(3)], simp add: sample_name)
     apply (rule goes_client)
    apply simp
    done
qed

lemma sample_joins: "map_option pipe_stage (owned sample_joined) = Some (Client, Joined)"
proof -
  let ?s = "new_relay\<lparr>link_diagnostic := 1\<rparr>"
  obtain r t where run: "open_fresh sample_relay 0 1 ?s = (r, t)" by (cases "open_fresh sample_relay 0 1 ?s")
  have "r = Val Relay_ok" using wp_run [OF goes_fresh run] .
  moreover have "opened_as None 0 1 r t"
    using wp_run [OF open_fresh_stage [where s = ?s] run] by (simp add: based_def new_relay_def)
  ultimately show ?thesis
    using run by (simp add: sample_joined_def relay_open_def Let_def new_relay_def opened_as_def opening_stage_def)
qed

section \<open>Property\<close>

text \<open>
  Claim C28.  Whatever calls were made, a pipe that is joined as a server or as a client has a peer
  the system vouched for: the process at the other end of this very pipe, running as the pipe's
  user, in its session, and from the one image file that build accepts there.
\<close>

theorem joined_peer_is_vouched:
  assumes "owned (fold (relay_run ops link) cs new_relay) = Some p"
    and "pipe_stage p = (Server, Joined) \<or> pipe_stage p = (Client, Joined)"
  shows "vouched link p (fold (relay_run ops link) cs new_relay)"
proof -
  have "trusted link (fold (relay_run ops link) cs s)" if "trusted link s" for s
    using that by (induction cs arbitrary: s) (simp_all add: trusted_run)
  from this [of new_relay] show ?thesis
    using assms by (simp add: trusted_def new_relay_def trusted_pipe_def)
qed

theorem joined_peer_is_vouched_witness:
  "\<exists>p. owned sample_joined = Some p \<and> vouched 0 p sample_joined"
proof -
  obtain p where p: "owned sample_joined = Some p" "pipe_stage p = (Client, Joined)"
    using sample_joins by (cases "owned sample_joined") auto
  from joined_peer_is_vouched [OF p(1) [unfolded sample_joined_def] disjI2 [OF p(2)]] p(1) show ?thesis
    unfolding sample_joined_def by blast
qed

end
