(* ===== verification/Native_Observation.thy ===== *)
theory Native_Observation
  imports Native_Prelude
begin

text \<open>
  The call observer of the diagnostics (\<open>diagnostics/l1_native_observation.h\<close>): per-call
  counters with fixed limits, the failure latch, and the custody ticket of an owner that
  counts acquisition and the one release.  Its balance invariant says that every counted
  attempt has exactly one outcome and every acquired resource is released or still owned.
\<close>

section \<open>Operations and counters\<close>

datatype native_op =
    kOpen | kGenerate | kFinalize | kExport | kImport | kSign | kVerify
  | kClose | kDestroy | kCertCreate | kCertFree | kDecode | kLocalFree | kTime

fun op_index :: "native_op \<Rightarrow> nat" where
  "op_index kOpen = 0"
| "op_index kGenerate = 1"
| "op_index kFinalize = 2"
| "op_index kExport = 3"
| "op_index kImport = 4"
| "op_index kSign = 5"
| "op_index kVerify = 6"
| "op_index kClose = 7"
| "op_index kDestroy = 8"
| "op_index kCertCreate = 9"
| "op_index kCertFree = 10"
| "op_index kDecode = 11"
| "op_index kLocalFree = 12"
| "op_index kTime = 13"

text \<open>The operations are ordered as the enumeration lists them.\<close>

lemma op_index_inj: "op_index a = op_index b \<Longrightarrow> a = b"
  by (cases a; cases b) simp_all

instantiation native_op :: linorder
begin

definition less_eq_native_op :: "native_op \<Rightarrow> native_op \<Rightarrow> bool" where
  "less_eq_native_op a b \<longleftrightarrow> op_index a \<le> op_index b"

definition less_native_op :: "native_op \<Rightarrow> native_op \<Rightarrow> bool" where
  "less_native_op a b \<longleftrightarrow> op_index a < op_index b"

instance
  by standard (auto simp: less_eq_native_op_def less_native_op_def intro: op_index_inj)

end

lemma op_index_mono: "mono op_index"
  by (simp add: mono_def less_eq_native_op_def)

definition kNativeOpCount :: nat where "kNativeOpCount = 14"

definition kNativeLimits :: "u32 list" where
  "kNativeLimits = [12, 3, 3, 3, 9, 3, 6, 12, 12, 3, 3, 20, 20, 3]"

definition kNativeNames :: "string list" where
  "kNativeNames =
    [''provider_open'', ''key_generate'', ''key_finalize'', ''key_export'', ''key_import'',
     ''sign'', ''verify'', ''provider_close'', ''key_destroy'', ''certificate_create'',
     ''certificate_free'', ''decode'', ''local_free'', ''time'']"

record call_counts =
  attempted_n :: u32
  returned_n :: u32
  accepted_n :: u32
  settled_n :: u32
  unknown_n :: u32
  failed_n :: u32

definition no_counts :: call_counts where
  "no_counts = \<lparr>attempted_n = 0, returned_n = 0, accepted_n = 0, settled_n = 0, unknown_n = 0, failed_n = 0\<rparr>"

record native_observation =
  obs_calls :: "call_counts list"
  obs_acquired :: u32
  obs_released :: u32
  obs_still_owned :: u32
  obs_quarantined :: u32
  obs_stopped :: bool
  obs_unknown :: bool
  obs_first_unknown :: bool
  obs_first_failure :: string

definition fresh_observation :: native_observation where
  "fresh_observation =
    \<lparr>obs_calls = replicate kNativeOpCount no_counts, obs_acquired = 0, obs_released = 0,
     obs_still_owned = 0, obs_quarantined = 0, obs_stopped = False, obs_unknown = False,
     obs_first_unknown = False, obs_first_failure = ''none''\<rparr>"

definition obs_fail :: "string \<Rightarrow> bool \<Rightarrow> native_observation \<Rightarrow> native_observation" where
  "obs_fail stage uncertain n =
    (let n = (if obs_stopped n then n
              else n\<lparr>obs_first_failure := stage, obs_first_unknown := uncertain\<rparr>)
     in n\<lparr>obs_stopped := True, obs_unknown := obs_unknown n \<or> uncertain\<rparr>)"

definition call_complete :: "u32 \<Rightarrow> call_counts \<Rightarrow> bool" where
  "call_complete limit c \<longleftrightarrow>
    attempted_n c = limit \<and> returned_n c = attempted_n c \<and> accepted_n c = attempted_n c \<and>
    settled_n c = attempted_n c \<and> unknown_n c = 0"

definition obs_complete :: "native_observation \<Rightarrow> bool" where
  "obs_complete n \<longleftrightarrow>
    \<not> obs_stopped n \<and> \<not> obs_unknown n \<and> obs_still_owned n = 0 \<and> obs_quarantined n = 0 \<and>
    obs_acquired n = 47 \<and> obs_acquired n = obs_released n \<and>
    list_all2 call_complete kNativeLimits (obs_calls n)"

definition count_call :: "native_op \<Rightarrow> (call_counts \<Rightarrow> call_counts) \<Rightarrow> native_observation \<Rightarrow> native_observation" where
  "count_call op f n = n\<lparr>obs_calls := (obs_calls n)[op_index op := f (obs_calls n ! op_index op)]\<rparr>"

section \<open>One observed call\<close>

text \<open>
  The environment \<open>'w\<close> is what the call and the admission callback act on; a call that
  answers \<open>None\<close> threw.  The outer result is \<open>None\<close> only where the source would leave a
  \<open>noexcept\<close> function by an exception: an unobserved call that throws.
\<close>

type_synonym ('w, 'r) native_call = "'w \<Rightarrow> 'r option \<times> 'w"
type_synonym 'w admission_check = "('w \<Rightarrow> bool \<times> 'w) option"

text \<open>The attempt itself, once it is admitted and budgeted.\<close>

definition attempt_native ::
    "native_op \<Rightarrow> bool \<Rightarrow> ('w, 'r) native_call \<Rightarrow> ('r \<Rightarrow> bool) \<Rightarrow> 'r \<Rightarrow> native_observation \<Rightarrow> 'w
     \<Rightarrow> 'r \<times> native_observation \<times> 'w" where
  "attempt_native op release call accept failure n w =
    (let n = count_call op (\<lambda>c. c\<lparr>attempted_n := attempted_n c + 1\<rparr>) n
     in case call w of
          (None, w) \<Rightarrow>
            (failure,
             obs_fail (kNativeNames ! op_index op) True
               (count_call op (\<lambda>c. c\<lparr>unknown_n := unknown_n c + 1\<rparr>) n), w)
        | (Some r, w) \<Rightarrow>
            let n = count_call op (\<lambda>c. c\<lparr>returned_n := returned_n c + 1\<rparr>) n
            in if accept r then
                 (r, count_call op (\<lambda>c. c\<lparr>accepted_n := accepted_n c + 1, settled_n := settled_n c + 1\<rparr>) n, w)
               else
                 (r, obs_fail (kNativeNames ! op_index op) release
                       (count_call op (\<lambda>c. c\<lparr>failed_n := failed_n c + 1,
                          settled_n := (if release then settled_n c else settled_n c + 1)\<rparr>) n), w))"

definition over_budget :: "native_op \<Rightarrow> bool \<Rightarrow> native_observation \<Rightarrow> bool" where
  "over_budget op release n \<longleftrightarrow>
    (\<not> release \<and> obs_stopped n) \<or> kNativeLimits ! op_index op \<le> attempted_n (obs_calls n ! op_index op)"

definition observed_call ::
    "native_op \<Rightarrow> bool \<Rightarrow> 'w admission_check \<Rightarrow> ('w, 'r) native_call \<Rightarrow> ('r \<Rightarrow> bool) \<Rightarrow> 'r
     \<Rightarrow> native_observation \<Rightarrow> 'w \<Rightarrow> 'r \<times> native_observation \<times> 'w" where
  "observed_call op release check call accept failure n w =
    (let (admitted, w) =
           (case check of None \<Rightarrow> (True, w) | Some admit \<Rightarrow> if release then (True, w) else admit w)
     in if \<not> admitted then (failure, obs_fail ''supervisor_stop'' False n, w)
        else if over_budget op release n then
          (let n = obs_fail ''native_budget'' release n
           in if \<not> release then (failure, n, w)
              else attempt_native op release call accept failure n w)
        else attempt_native op release call accept failure n w)"

definition observe_native ::
    "native_op \<Rightarrow> bool \<Rightarrow> 'w admission_check \<Rightarrow> ('w, 'r) native_call \<Rightarrow> ('r \<Rightarrow> bool) \<Rightarrow> 'r
     \<Rightarrow> native_observation option \<Rightarrow> 'w \<Rightarrow> 'r option \<times> native_observation option \<times> 'w" where
  "observe_native op release check call accept failure observer w =
    (case observer of
       None \<Rightarrow> (let (r, w) = call w in (r, None, w))
     | Some n \<Rightarrow> (let (r, n, w) = observed_call op release check call accept failure n w
                  in (Some r, Some n, w)))"

section \<open>Owner tickets\<close>

record ticket =
  ticket_watched :: bool
  ticket_acquired :: bool
  ticket_attempted :: bool

definition fresh_ticket :: ticket where
  "fresh_ticket = \<lparr>ticket_watched = False, ticket_acquired = False, ticket_attempted = False\<rparr>"

definition ticket_acquire :: "bool \<Rightarrow> ticket \<Rightarrow> native_observation option \<Rightarrow> ticket \<times> native_observation option" where
  "ticket_acquire present t active =
    (if \<not> present then (t, active)
     else
       (t\<lparr>ticket_watched := (active \<noteq> None), ticket_acquired := True\<rparr>,
        map_option (\<lambda>n. n\<lparr>obs_acquired := obs_acquired n + 1, obs_still_owned := obs_still_owned n + 1\<rparr>) active))"

text \<open>A ticket that no observer watches releases without counting.\<close>

definition ticket_release ::
    "native_op \<Rightarrow> ('w, 'r) native_call \<Rightarrow> ('r \<Rightarrow> bool) \<Rightarrow> 'r \<Rightarrow> ticket \<Rightarrow> native_observation option \<Rightarrow> 'w
     \<Rightarrow> 'r option \<times> ticket \<times> native_observation option \<times> 'w" where
  "ticket_release op call accept failure t active w =
    (let observer = (if ticket_watched t then active else None);
         keep = (\<lambda>o'. if ticket_watched t then o' else active)
     in if \<not> ticket_acquired t \<or> ticket_attempted t then
          (Some failure, t, keep (map_option (obs_fail ''duplicate_or_unowned_release'' True) observer), w)
        else
          let t = t\<lparr>ticket_attempted := True\<rparr>;
              (r, observer, w) = observe_native op True None call accept failure observer w
          in case r of
               None \<Rightarrow> (None, t, keep observer, w)
             | Some r \<Rightarrow>
                 (Some r, t,
                  keep (map_option
                    (\<lambda>n. if accept r
                         then n\<lparr>obs_released := obs_released n + 1, obs_still_owned := obs_still_owned n - 1\<rparr>
                         else n\<lparr>obs_quarantined := obs_quarantined n + 1\<rparr>) observer), w))"

section \<open>Balance\<close>

definition counts_balanced :: "call_counts \<Rightarrow> bool" where
  "counts_balanced c \<longleftrightarrow>
    attempted_n c = returned_n c + unknown_n c \<and> returned_n c = accepted_n c + failed_n c"

definition obs_balanced :: "native_observation \<Rightarrow> bool" where
  "obs_balanced n \<longleftrightarrow>
    length (obs_calls n) = kNativeOpCount \<and> list_all counts_balanced (obs_calls n) \<and>
    obs_acquired n = obs_released n + obs_still_owned n"

lemma op_index_less [simp]: "op_index op < kNativeOpCount"
  by (cases op) (simp_all add: kNativeOpCount_def)

lemma fresh_observation_balanced: "obs_balanced fresh_observation"
  by (simp add: obs_balanced_def fresh_observation_def no_counts_def counts_balanced_def
      list_all_length)

lemma obs_fail_balanced [simp]: "obs_balanced (obs_fail stage u n) = obs_balanced n"
  by (simp add: obs_balanced_def obs_fail_def Let_def)

lemma obs_fail_keeps [simp]:
  "obs_calls (obs_fail stage u n) = obs_calls n" "obs_stopped (obs_fail stage u n)"
  "obs_acquired (obs_fail stage u n) = obs_acquired n" "obs_released (obs_fail stage u n) = obs_released n"
  "obs_still_owned (obs_fail stage u n) = obs_still_owned n"
  by (simp_all add: obs_fail_def Let_def)

lemma count_call_twice:
  "length (obs_calls n) = kNativeOpCount \<Longrightarrow> count_call op f (count_call op g n) = count_call op (f \<circ> g) n"
  by (simp add: count_call_def)

lemma count_call_balanced:
  assumes "obs_balanced n" and "\<And>c. counts_balanced c \<Longrightarrow> counts_balanced (f c)"
  shows "obs_balanced (count_call op f n)"
  using assms by (auto simp: obs_balanced_def count_call_def list_all_length nth_list_update)

lemma attempt_balanced:
  assumes "obs_balanced n"
  shows "obs_balanced (fst (snd (attempt_native op release call accept failure n w)))"
proof -
  have l: "length (obs_calls n) = kNativeOpCount" using assms by (simp add: obs_balanced_def)
  show ?thesis
    unfolding attempt_native_def Let_def
    by (auto split: prod.splits option.splits simp: count_call_twice l counts_balanced_def
        intro!: count_call_balanced assms)
qed

lemma observed_call_balanced:
  assumes "obs_balanced n"
  shows "obs_balanced (fst (snd (observed_call op release check call accept failure n w)))"
  using assms attempt_balanced [of n op release call accept failure]
    attempt_balanced [of "obs_fail ''native_budget'' release n" op release call accept failure]
  by (auto simp: observed_call_def Let_def split: prod.splits option.splits if_splits)

definition watched_balanced :: "native_observation option \<Rightarrow> bool" where
  "watched_balanced active = (case active of None \<Rightarrow> True | Some n \<Rightarrow> obs_balanced n)"

lemma observe_native_balanced:
  assumes "watched_balanced active"
  shows "watched_balanced (fst (snd (observe_native op release check call accept failure active w)))"
proof (cases active)
  case None
  then show ?thesis by (simp add: observe_native_def watched_balanced_def Let_def split: prod.splits)
next
  case (Some n)
  then show ?thesis
    using assms observed_call_balanced [of n op release check call accept failure w]
    by (auto simp: observe_native_def watched_balanced_def Let_def split: prod.splits)
qed

lemma ticket_acquire_balanced:
  "watched_balanced active \<Longrightarrow> watched_balanced (snd (ticket_acquire present t active))"
  by (cases active) (auto simp: ticket_acquire_def watched_balanced_def obs_balanced_def)

lemma ticket_release_balanced:
  assumes "watched_balanced active"
  shows "watched_balanced (fst (snd (snd (ticket_release op call accept failure t active w))))"
proof -
  obtain r o' w' where e:
    "observe_native op True None call accept failure (if ticket_watched t then active else None) w = (r, o', w')"
    by (metis prod_cases3)
  have "watched_balanced (if ticket_watched t then active else None)"
    using assms by (simp add: watched_balanced_def)
  then have "watched_balanced o'"
    using observe_native_balanced [of _ op True None call accept failure w] e by (metis fst_conv snd_conv)
  then show ?thesis
    using assms e by (cases "ticket_watched t"; cases r; cases o'; cases active)
      (auto simp: ticket_release_def Let_def watched_balanced_def obs_balanced_def)
qed

text \<open>A ticket releases once: the second attempt makes no call, it only records the fault.\<close>

lemma released_ticket_is_spent:
  "ticket_release op call accept failure t active w = (r, t', active', w') \<Longrightarrow> ticket_acquired t \<Longrightarrow>
    ticket_attempted t'"
  by (auto simp: ticket_release_def Let_def split: if_splits prod.splits option.splits)

lemma spent_ticket_calls_nothing:
  "ticket_attempted t \<Longrightarrow>
    ticket_release op call accept failure t active w =
      (Some failure, t,
       (if ticket_watched t then map_option (obs_fail ''duplicate_or_unowned_release'' True) active else active), w)"
  by (simp add: ticket_release_def)

text \<open>Business calls never pass their limit.\<close>

definition op_within :: "native_op \<Rightarrow> native_observation \<Rightarrow> bool" where
  "op_within op n \<longleftrightarrow> attempted_n (obs_calls n ! op_index op) \<le> kNativeLimits ! op_index op"

lemma limit_step: "(a :: u32) < l \<Longrightarrow> a + 1 \<le> l"
  by (simp add: inc_le)

lemma business_call_within:
  assumes "op_within op n" and "length (obs_calls n) = kNativeOpCount"
  shows "op_within op (fst (snd (observed_call op False check call accept failure n w)))"
proof -
  have "op_within op (fst (snd (attempt_native op False call accept failure n w')))" 
    if "\<not> over_budget op False n" for w'
    using that assms(2) unfolding attempt_native_def Let_def op_within_def over_budget_def
    by (auto split: prod.splits option.splits simp: count_call_def limit_step not_le)
  then show ?thesis
    using assms(1) by (auto simp: observed_call_def op_within_def Let_def split: prod.splits option.splits)
qed

end
