(* ===== verification/Crypto_Ledger.thy ===== *)
theory Crypto_Ledger
  imports Native_Observation Native_Memory
begin

text \<open>
  The ledger of the bounded cryptographic sequence (\<open>L1CryptoLedger\<close> in
  \<open>diagnostics/l1_crypto_probe.h\<close>): the STOP latch, the deadline, the resource
  observations, the call budgets and the checked invocation that every business call goes
  through.  The lemmas show that no operation of the ledger lets a call category pass its
  limit, so that the whole sequence stays within 106 calls.
\<close>

section \<open>State\<close>

text \<open>C \<open>int\<close> statuses are 32-bit words, negative ones in two's complement.\<close>

definition status_word :: "status \<Rightarrow> u32" where
  "status_word st = of_int (status_code st)"

record crypto_ledger =
  attempted_steps :: u32
  returned_steps :: u32
  completed_steps :: u32
  l_attempted :: u32
  l_returned :: u32
  l_completed :: u32
  l_successful :: u32
  l_accepted :: u32
  abi_reserved :: u32
  generate_reserved :: u32
  encode_sign_reserved :: u32
  verify_reserved :: u32
  verify_positive_reserved :: u32
  verify_negative_reserved :: u32
  policy_reserved :: u32
  budget_rejections :: u32
  abi_calls :: "call_counts list"
  abi_attempted_total :: u32
  allowed_symbol_resolutions :: u32
  forbidden_symbol_attempts :: u32
  buffers_allocated :: u32
  buffers_live :: u32
  releases_attempted :: u32
  releases_succeeded :: u32
  releases_unknown :: u32
  duplicate_release_attempts :: u32
  observation_attempts :: u32
  observation_failures :: u32
  l_samples :: u32
  peak_working_set :: u64
  peak_commit :: u64
  handles_first :: u32
  handles_last :: u32
  handles_max_sampled :: u32
  working_set_limit_bytes :: u64
  commit_limit_bytes :: u64
  handle_limit :: u32
  max_elapsed_ms :: u64
  clock_initialized :: bool
  start_ms :: u64
  last_ms :: u64
  elapsed_ms :: u64
  l_stopped :: bool
  settlement_unknown :: bool
  first_failure :: string
  failure_code :: string
  first_status :: u32

definition kMaxTotalAbiAttempts :: u32 where "kMaxTotalAbiAttempts = 106"
definition kMaxAllocationAttempts :: u32 where "kMaxAllocationAttempts = 45"
definition kMaxFreeAttempts :: u32 where "kMaxFreeAttempts = 45"
definition kMaxLiveBuffers :: u32 where "kMaxLiveBuffers = 5"
definition kTotalPlannedSteps :: nat where "kTotalPlannedSteps = 16"

definition kSteps :: "string list" where
  "kSteps =
    [''abi'', ''gen_issuer'', ''gen_server'', ''gen_client'', ''sign_issuer_cert'',
     ''sign_server_cert'', ''sign_client_cert'', ''verify_issuer_valid'',
     ''verify_server_valid'', ''verify_client_valid'', ''verify_issuer_tampered'',
     ''verify_server_tampered'', ''verify_client_tampered'', ''policy_server_valid'',
     ''policy_client_valid'', ''policy_role_mismatch'']"

definition fresh_ledger :: crypto_ledger where
  "fresh_ledger =
    \<lparr>attempted_steps = 0, returned_steps = 0, completed_steps = 0, l_attempted = 0,
     l_returned = 0, l_completed = 0, l_successful = 0, l_accepted = 0, abi_reserved = 0,
     generate_reserved = 0, encode_sign_reserved = 0, verify_reserved = 0,
     verify_positive_reserved = 0, verify_negative_reserved = 0, policy_reserved = 0,
     budget_rejections = 0, abi_calls = replicate 7 no_counts, abi_attempted_total = 0,
     allowed_symbol_resolutions = 0, forbidden_symbol_attempts = 0, buffers_allocated = 0,
     buffers_live = 0, releases_attempted = 0, releases_succeeded = 0, releases_unknown = 0,
     duplicate_release_attempts = 0, observation_attempts = 0, observation_failures = 0,
     l_samples = 0, peak_working_set = 0, peak_commit = 0, handles_first = 0,
     handles_last = 0, handles_max_sampled = 0, working_set_limit_bytes = 0,
     commit_limit_bytes = 0, handle_limit = 0, max_elapsed_ms = 30000,
     clock_initialized = False, start_ms = 0, last_ms = 0, elapsed_ms = 0,
     l_stopped = False, settlement_unknown = False, first_failure = ''none'',
     failure_code = ''NONE'', first_status = 0\<rparr>"

text \<open>A slot of the buffer pool and the copy of an ephemeral key pair.\<close>

record buffer_slot =
  slot_ptr :: ptr
  slot_capacity :: u64
  allocated_ever :: bool
  slot_active :: bool
  release_attempted :: bool
  release_succeeded :: bool
  release_unknown :: bool

record key_slot =
  key_pkcs8 :: "u8 list"
  key_length :: u64
  key_point :: "u8 list"
  private_wiped :: bool

text \<open>
  A running probe: its ledger, the installed observer, the byte memory the API shares with
  it, the buffer pool, the key and certificate copies of the sequence, and everything the
  injected functions themselves keep (\<open>'w\<close>).
\<close>

record 'w probe =
  ledger :: crypto_ledger
  observer :: "native_observation option"
  heap :: mem
  pool :: "buffer_slot list"
  keys :: "key_slot list"
  certs :: "u8 list list"
  world :: 'w

text \<open>The injected clock and sampler; both pointers may be null.\<close>

record 'w probe_env =
  clock_ms :: "('w \<Rightarrow> u64 option \<times> 'w) option"
  sampler :: "('w probe \<Rightarrow> bool \<times> 'w probe) option"

type_synonym 'w step = "'w probe \<Rightarrow> bool \<times> 'w probe"

definition on_ledger :: "(crypto_ledger \<Rightarrow> crypto_ledger) \<Rightarrow> 'w probe \<Rightarrow> 'w probe" where
  "on_ledger f s = s\<lparr>ledger := f (ledger s)\<rparr>"

section \<open>STOP, deadline and observations\<close>

definition ledger_stop :: "string option \<Rightarrow> u32 \<Rightarrow> string option \<Rightarrow> crypto_ledger \<Rightarrow> crypto_ledger" where
  "ledger_stop step status code l =
    (let l = (if l_stopped l then l
              else l\<lparr>first_failure := (case step of None \<Rightarrow> ''unknown'' | Some x \<Rightarrow> x),
                     first_status := status,
                     failure_code := (case code of None \<Rightarrow> ''ADMISSION_BLOCKED'' | Some x \<Rightarrow> x)\<rparr>);
         l = (if code = Some ''SETTLEMENT_UNKNOWN'' then l\<lparr>settlement_unknown := True\<rparr> else l)
     in l\<lparr>l_stopped := True\<rparr>)"

abbreviation stop_at :: "string \<Rightarrow> u32 \<Rightarrow> string \<Rightarrow> 'w probe \<Rightarrow> 'w probe" where
  "stop_at step status code \<equiv> on_ledger (ledger_stop (Some step) status (Some code))"

definition bind_launch_origin :: "u64 \<Rightarrow> crypto_ledger \<Rightarrow> crypto_ledger" where
  "bind_launch_origin launch l =
    l\<lparr>clock_initialized := True, start_ms := launch, last_ms := launch, elapsed_ms := 0\<rparr>"

definition check_clock :: "'w probe_env \<Rightarrow> string \<Rightarrow> 'w step" where
  "check_clock env step s =
    (case clock_ms env of
       None \<Rightarrow> (\<not> l_stopped (ledger s), s)
     | Some clk \<Rightarrow>
         (case clk (world s) of
            (None, w) \<Rightarrow> (False, stop_at step (- 1) ''MEASUREMENT_UNAVAILABLE'' (s\<lparr>world := w\<rparr>))
          | (Some now, w) \<Rightarrow>
              let s = s\<lparr>world := w\<rparr>; l = ledger s
              in if \<not> clock_initialized l then (True, on_ledger (bind_launch_origin now) s)
                 else if now < last_ms l then
                   (False, stop_at step (- 1) ''MEASUREMENT_UNAVAILABLE'' s)
                 else
                   let l = l\<lparr>last_ms := now, elapsed_ms := now - start_ms l\<rparr>;
                       s = s\<lparr>ledger := l\<rparr>
                   in if max_elapsed_ms l \<le> elapsed_ms l then
                        (False, stop_at ''deadline_exceeded'' (- 1) ''BUDGET_EXCEEDED'' s)
                      else (\<not> l_stopped l, s)))"

definition note_resources :: "u64 \<Rightarrow> u64 \<Rightarrow> u32 \<Rightarrow> crypto_ledger \<Rightarrow> crypto_ledger" where
  "note_resources working commit handles l =
    l\<lparr>peak_working_set := max working (peak_working_set l),
      peak_commit := max commit (peak_commit l),
      handles_first := (if l_samples l = 0 then handles else handles_first l),
      l_samples := l_samples l + 1,
      handles_last := handles,
      handles_max_sampled := max handles (handles_max_sampled l)\<rparr>"

text \<open>A ceiling of zero does not bound.\<close>

definition over_ceiling :: "u64 \<Rightarrow> u64 \<Rightarrow> u32 \<Rightarrow> crypto_ledger \<Rightarrow> bool" where
  "over_ceiling working commit handles l \<longleftrightarrow>
    (0 < working_set_limit_bytes l \<and> working_set_limit_bytes l < working) \<or>
    (0 < commit_limit_bytes l \<and> commit_limit_bytes l < commit) \<or>
    (0 < handle_limit l \<and> handle_limit l < handles)"

definition resources :: "u64 \<Rightarrow> u64 \<Rightarrow> u32 \<Rightarrow> 'w step" where
  "resources working commit handles s =
    (if working = 0 \<or> commit = 0 \<or> handles = 0 then
       (False, stop_at ''resource_observation_invalid'' (- 1) ''MEASUREMENT_UNAVAILABLE'' s)
     else
       let s = on_ledger (note_resources working commit handles) s
       in if over_ceiling working commit handles (ledger s) then
            (False, stop_at ''resource_budget_exceeded'' (- 1) ''BUDGET_EXCEEDED'' s)
          else (True, s))"

definition observe :: "'w probe_env \<Rightarrow> string \<Rightarrow> 'w step" where
  "observe env stage s =
    (let (ok, s) = check_clock env stage s
     in if \<not> ok then (False, s)
        else
          let s = on_ledger (\<lambda>l. l\<lparr>observation_attempts := observation_attempts l + 1\<rparr>) s;
              (sampled, s) = (case sampler env of None \<Rightarrow> (False, s) | Some take_sample \<Rightarrow> take_sample s)
          in if sampled then (\<not> l_stopped (ledger s), s)
             else
               let s = on_ledger (\<lambda>l. l\<lparr>observation_failures := observation_failures l + 1\<rparr>) s
               in (False,
                   if failure_code (ledger s) = ''BUDGET_EXCEEDED'' then s
                   else stop_at ''resource_observation_failed'' (- 1) ''MEASUREMENT_UNAVAILABLE'' s))"

section \<open>Budgets\<close>

definition count_abi :: "nat \<Rightarrow> (call_counts \<Rightarrow> call_counts) \<Rightarrow> crypto_ledger \<Rightarrow> crypto_ledger" where
  "count_abi i f l = l\<lparr>abi_calls := (abi_calls l)[i := f (abi_calls l ! i)]\<rparr>"

definition reserve_abi :: "nat \<Rightarrow> u32 \<Rightarrow> 'w step" where
  "reserve_abi i limit s =
    (let l = ledger s
     in if kMaxTotalAbiAttempts \<le> abi_attempted_total l \<or> limit \<le> attempted_n (abi_calls l ! i) then
          (False,
           stop_at ''abi_call_budget_exceeded'' (- 1) ''BUDGET_EXCEEDED''
             (on_ledger (\<lambda>l. l\<lparr>budget_rejections := budget_rejections l + 1\<rparr>) s))
        else
          (True,
           on_ledger (\<lambda>l. (count_abi i (\<lambda>c. c\<lparr>attempted_n := attempted_n c + 1\<rparr>) l)
             \<lparr>abi_attempted_total := abi_attempted_total l + 1\<rparr>) s))"

datatype primitive_category =
    kAbi
  | kGenerateKey
  | kCertificateEncodeSign
  | kVerifyPositive
  | kVerifyNegative
  | kPeerPolicyPositive
  | kPeerPolicyNegative

text \<open>\<open>None\<close>: the category is exhausted.\<close>

fun reserve_category :: "primitive_category \<Rightarrow> crypto_ledger \<Rightarrow> crypto_ledger option" where
  "reserve_category kAbi l =
    (if 1 \<le> abi_reserved l then None else Some (l\<lparr>abi_reserved := abi_reserved l + 1\<rparr>))"
| "reserve_category kGenerateKey l =
    (if 3 \<le> generate_reserved l then None
     else Some (l\<lparr>generate_reserved := generate_reserved l + 1\<rparr>))"
| "reserve_category kCertificateEncodeSign l =
    (if 3 \<le> encode_sign_reserved l then None
     else Some (l\<lparr>encode_sign_reserved := encode_sign_reserved l + 1\<rparr>))"
| "reserve_category kVerifyPositive l =
    (if 6 \<le> verify_reserved l \<or> 3 \<le> verify_positive_reserved l then None
     else Some (l\<lparr>verify_reserved := verify_reserved l + 1,
                  verify_positive_reserved := verify_positive_reserved l + 1\<rparr>))"
| "reserve_category kVerifyNegative l =
    (if 6 \<le> verify_reserved l \<or> 3 \<le> verify_negative_reserved l then None
     else Some (l\<lparr>verify_reserved := verify_reserved l + 1,
                  verify_negative_reserved := verify_negative_reserved l + 1\<rparr>))"
| "reserve_category kPeerPolicyPositive l =
    (if 3 \<le> policy_reserved l then None else Some (l\<lparr>policy_reserved := policy_reserved l + 1\<rparr>))"
| "reserve_category kPeerPolicyNegative l =
    (if 3 \<le> policy_reserved l then None else Some (l\<lparr>policy_reserved := policy_reserved l + 1\<rparr>))"

fun category_index :: "primitive_category \<Rightarrow> nat" where
  "category_index kAbi = 0"
| "category_index kGenerateKey = 1"
| "category_index kCertificateEncodeSign = 2"
| "category_index kVerifyPositive = 3"
| "category_index kVerifyNegative = 3"
| "category_index kPeerPolicyPositive = 4"
| "category_index kPeerPolicyNegative = 4"

definition category_limits :: "u32 list" where
  "category_limits = [1, 3, 3, 6, 3]"

fun find_step :: "string \<Rightarrow> string list \<Rightarrow> nat \<Rightarrow> nat option" where
  "find_step step [] i = None"
| "find_step step (x # xs) i = (if x = step then Some i else find_step step xs (i + 1))"

definition step_index :: "string \<Rightarrow> nat option" where
  "step_index step = find_step step kSteps 0"

definition step_bit :: "string \<Rightarrow> u32" where
  "step_bit step = (case step_index step of None \<Rightarrow> 0 | Some i \<Rightarrow> push_bit i 1)"

definition is_negative :: "primitive_category \<Rightarrow> bool" where
  "is_negative cat \<longleftrightarrow> cat = kVerifyNegative \<or> cat = kPeerPolicyNegative"

section \<open>Checked invocation\<close>

text \<open>The outcome of a returned call whose status and output shape have been checked.\<close>

definition judge_status ::
    "primitive_category \<Rightarrow> string \<Rightarrow> u32 \<Rightarrow> u32 \<Rightarrow> bool \<Rightarrow> 'w probe \<Rightarrow> 'w probe" where
  "judge_status cat step expected status shape_valid s =
    (if status = expected \<and> shape_valid then
       on_ledger (\<lambda>l. count_abi (category_index cat) (\<lambda>c. c\<lparr>accepted_n := accepted_n c + 1\<rparr>)
         (l\<lparr>l_accepted := l_accepted l + 1\<rparr>)) s
     else if is_negative cat \<and> status = status_word OK then
       stop_at step status ''SECURITY_REJECT_MISMATCH'' s
     else if \<not> is_negative cat \<and> status = status_word VERIFICATION_REJECTED then
       stop_at step status ''SECURITY_REJECT_MISMATCH'' s
     else stop_at step status ''ADMISSION_BLOCKED'' s)"

definition judge_call ::
    "primitive_category \<Rightarrow> string \<Rightarrow> u32 \<Rightarrow> u32 \<Rightarrow> bool \<Rightarrow> 'w probe \<Rightarrow> 'w probe" where
  "judge_call cat step expected status shape_valid s =
    (case observer s of
       None \<Rightarrow> judge_status cat step expected status shape_valid s
     | Some n \<Rightarrow>
         if obs_stopped n then
           on_ledger (\<lambda>l. l\<lparr>settlement_unknown := settlement_unknown l \<or> obs_unknown n\<rparr>)
             (stop_at (obs_first_failure n) status
                (if obs_first_unknown n then ''SETTLEMENT_UNKNOWN'' else ''ADMISSION_BLOCKED'') s)
         else judge_status cat step expected status shape_valid s)"

definition returned_call :: "primitive_category \<Rightarrow> string \<Rightarrow> 'w probe \<Rightarrow> 'w probe" where
  "returned_call cat step s =
    (let settled = (case observer s of None \<Rightarrow> True | Some n \<Rightarrow> \<not> obs_unknown n)
     in on_ledger (\<lambda>l. count_abi (category_index cat)
            (\<lambda>c. if settled then c\<lparr>returned_n := returned_n c + 1, settled_n := settled_n c + 1\<rparr>
                  else c\<lparr>returned_n := returned_n c + 1, unknown_n := unknown_n c + 1\<rparr>)
            (l\<lparr>l_returned := l_returned l + 1,
               returned_steps := returned_steps l OR step_bit step\<rparr>)) s)"

definition completed_call :: "primitive_category \<Rightarrow> string \<Rightarrow> u32 \<Rightarrow> u32 \<Rightarrow> 'w probe \<Rightarrow> 'w probe" where
  "completed_call cat step expected status =
    on_ledger (\<lambda>l. l
      \<lparr>l_completed := l_completed l + 1,
       completed_steps := completed_steps l OR step_bit step,
       l_successful :=
         (if (if cat = kAbi then status = expected else status = status_word OK)
          then l_successful l + 1 else l_successful l)\<rparr>)"

text \<open>A call that answers \<open>None\<close> threw; the shape check may keep what it read.\<close>

definition invoke_and_check ::
    "'w probe_env \<Rightarrow> primitive_category \<Rightarrow> string \<Rightarrow> u32
     \<Rightarrow> ('w probe \<Rightarrow> u32 option \<times> 'w probe) \<Rightarrow> (u32 \<Rightarrow> 'w step) \<Rightarrow> 'w step" where
  "invoke_and_check env cat step expected call shape_ok s =
    (if l_stopped (ledger s) then (False, s)
     else
       let (ok, s) = check_clock env step s
       in if \<not> ok then (False, s)
          else
            case reserve_category cat (ledger s) of
              None \<Rightarrow>
                (False,
                 stop_at ''call_budget_exceeded'' (- 1) ''BUDGET_EXCEEDED''
                   (on_ledger (\<lambda>l. l\<lparr>budget_rejections := budget_rejections l + 1\<rparr>) s))
            | Some l \<Rightarrow>
                let i = category_index cat;
                    (reserved, s) = reserve_abi i (category_limits ! i) (s\<lparr>ledger := l\<rparr>)
                in if \<not> reserved then (False, s)
                   else
                     let s = on_ledger (\<lambda>l. l
                               \<lparr>attempted_steps := attempted_steps l OR step_bit step,
                                l_attempted := l_attempted l + 1\<rparr>) s
                     in case call s of
                          (None, s) \<Rightarrow>
                            (False,
                             snd (observe env step
                               (stop_at step (- 1) ''SETTLEMENT_UNKNOWN''
                                 (on_ledger (count_abi i (\<lambda>c. c\<lparr>unknown_n := unknown_n c + 1\<rparr>)) s))))
                        | (Some status, s) \<Rightarrow>
                            let (in_time, s) = check_clock env step (returned_call cat step s)
                            in if \<not> in_time then (False, snd (observe env step s))
                               else
                                 let (shape_valid, s) = shape_ok status s;
                                     s = completed_call cat step expected status s
                                 in observe env step (judge_call cat step expected status shape_valid s))"

section \<open>Verdict\<close>

text \<open>\<open>observed_build\<close>: the build that cannot prove its custody without an observer.\<close>

definition verdict :: "bool \<Rightarrow> 'w probe \<Rightarrow> string" where
  "verdict observed_build s =
    (let l = ledger s; n = observer s
     in if observed_build \<and> n = None then ''FAIL''
        else if settlement_unknown l \<or> 0 < releases_unknown l \<or> l_returned l < l_attempted l \<or>
                (case n of None \<Rightarrow> False | Some n \<Rightarrow> obs_unknown n) then ''UNKNOWN''
        else if (0 < observation_failures l \<or> l_samples l < of_nat kTotalPlannedSteps + 2) \<and>
                failure_code l = ''MEASUREMENT_UNAVAILABLE'' then ''INCONCLUSIVE''
        else if l_stopped l \<or> l_accepted l \<noteq> of_nat kTotalPlannedSteps \<or>
                l_completed l \<noteq> of_nat kTotalPlannedSteps \<or> buffers_live l \<noteq> 0 \<or>
                duplicate_release_attempts l \<noteq> 0 \<or> forbidden_symbol_attempts l \<noteq> 0 then ''FAIL''
        else if abi_attempted_total l \<noteq> kMaxTotalAbiAttempts \<or>
                (case n of None \<Rightarrow> False | Some n \<Rightarrow> \<not> obs_complete n) then ''FAIL''
        else ''PASS'')"

end
