(* ===== verification/Crypto_Pool.thy ===== *)
theory Crypto_Pool
  imports Crypto_Ledger
begin

text \<open>
  The injected API of the bounded sequence, the checked resolution of its seven symbols and
  the buffer pool (\<open>kAllowedSymbols\<close>, \<open>resolve_l1_crypto_api\<close> and
  \<open>L1CryptoBufferPool\<close> in \<open>diagnostics/l1_crypto_probe.h\<close>).  A slot is released at
  most once, and the release budget is never the reason a buffer stays allocated.
\<close>

section \<open>The injected API\<close>

text \<open>
  Each function acts on the whole probe and answers \<open>None\<close> (for the deallocator
  \<open>False\<close>) when it throws.  Only the allocator and the deallocator are tested for null.
\<close>

record 'w crypto_api =
  api_abi :: "'w probe \<Rightarrow> u32 option \<times> 'w probe"
  api_allocate :: "(u64 \<Rightarrow> 'w probe \<Rightarrow> ptr option \<times> 'w probe) option"
  api_deallocate :: "(ptr \<Rightarrow> 'w probe \<Rightarrow> bool \<times> 'w probe) option"
  api_generate_key ::
    "u32 \<Rightarrow> ptr \<Rightarrow> u64 \<Rightarrow> ptr \<Rightarrow> ptr \<Rightarrow> u64 \<Rightarrow> ptr \<Rightarrow> 'w probe \<Rightarrow> u32 option \<times> 'w probe"
  api_sign_digest ::
    "u32 \<Rightarrow> ptr \<Rightarrow> u64 \<Rightarrow> ptr \<Rightarrow> u64 \<Rightarrow> ptr \<Rightarrow> u64 \<Rightarrow> ptr \<Rightarrow> u64 \<Rightarrow> ptr \<Rightarrow> 'w probe
     \<Rightarrow> u32 option \<times> 'w probe"
  api_verify_digest ::
    "u32 \<Rightarrow> ptr \<Rightarrow> u64 \<Rightarrow> ptr \<Rightarrow> u64 \<Rightarrow> ptr \<Rightarrow> u64 \<Rightarrow> 'w probe \<Rightarrow> u32 option \<times> 'w probe"
  api_peer_policy :: "u32 \<Rightarrow> ptr \<Rightarrow> u64 \<Rightarrow> u32 \<Rightarrow> 'w probe \<Rightarrow> u32 option \<times> 'w probe"

section \<open>Symbols\<close>

definition kAllowedSymbols :: "string list" where
  "kAllowedSymbols =
    [''shiroha_native_abi_version'', ''shiroha_native_buffer_alloc'', ''shiroha_native_buffer_free'',
     ''shiroha_native_ecdsa_generate_key'', ''shiroha_native_ecdsa_sign_digest'',
     ''shiroha_native_ecdsa_verify_digest'', ''shiroha_native_peer_certificate_policy'']"

definition kForbiddenSymbols :: "string list" where
  "kForbiddenSymbols =
    [''shiroha_native_local_app_data'', ''shiroha_native_dpapi_protect'',
     ''shiroha_native_dpapi_unprotect'', ''shiroha_native_owner_acquire'',
     ''shiroha_native_owner_validate'', ''shiroha_native_owner_close'',
     ''shiroha_native_association_begin'', ''shiroha_native_association_commit'',
     ''shiroha_native_association_abort'', ''shiroha_native_credential_begin'',
     ''shiroha_native_credential_commit'', ''shiroha_native_credential_abort'',
     ''shiroha_native_exchange_create'', ''shiroha_native_exchange_read'',
     ''shiroha_native_exchange_cleanup'', ''shiroha_native_exchange_read_begin'',
     ''shiroha_native_exchange_consume'', ''shiroha_native_exchange_release'',
     ''shiroha_native_discovery_publish'', ''shiroha_native_discovery_read'']"

text \<open>A null name is \<open>None\<close>.\<close>

definition is_allowed_symbol :: "string option \<Rightarrow> bool" where
  "is_allowed_symbol name =
    (case name of
       None \<Rightarrow> False
     | Some x \<Rightarrow> if x = [] then False else list_ex (\<lambda>y. x = y) kAllowedSymbols)"

definition is_forbidden_symbol :: "string option \<Rightarrow> bool" where
  "is_forbidden_symbol name =
    (case name of
       None \<Rightarrow> True
     | Some x \<Rightarrow>
         if x = [] then True
         else if list_ex (\<lambda>y. x = y) kForbiddenSymbols then True
         else \<not> is_allowed_symbol name)"

type_synonym 'w lookup = "string \<Rightarrow> 'w \<Rightarrow> ptr option \<times> 'w"

text \<open>The result, the resolved address (null on failure) and the probe after it.\<close>

definition resolve_symbol_checked :: "string \<Rightarrow> 'w lookup \<Rightarrow> 'w probe \<Rightarrow> bool \<times> ptr \<times> 'w probe" where
  "resolve_symbol_checked name lookup s =
    (if \<not> is_allowed_symbol (Some name) then
       (False, 0,
        stop_at ''forbidden_symbol_resolution'' (- 1) ''UNAUTHORIZED_ACCESS''
          (on_ledger (\<lambda>l. l\<lparr>forbidden_symbol_attempts := forbidden_symbol_attempts l + 1\<rparr>) s))
     else
       case lookup name (world s) of
         (None, w) \<Rightarrow>
           (False, 0, stop_at ''symbol_lookup_exception'' (- 1) ''ARTIFACT_INVALID'' (s\<lparr>world := w\<rparr>))
       | (Some raw, w) \<Rightarrow>
           if raw = 0 then
             (False, 0, stop_at ''missing_allowed_symbol'' (- 1) ''ARTIFACT_INVALID'' (s\<lparr>world := w\<rparr>))
           else
             (True, raw,
              on_ledger (\<lambda>l. l\<lparr>allowed_symbol_resolutions := allowed_symbol_resolutions l + 1\<rparr>)
                (s\<lparr>world := w\<rparr>)))"

text \<open>
  \<open>resolve_l1_crypto_api\<close> asks for the seven symbols in this order and stops at the first
  failure; the addresses found so far stay in the table.
\<close>

fun resolve_symbols :: "string list \<Rightarrow> 'w lookup \<Rightarrow> 'w probe \<Rightarrow> bool \<times> ptr list \<times> 'w probe" where
  "resolve_symbols [] lookup s = (True, [], s)"
| "resolve_symbols (name # names) lookup s =
    (case resolve_symbol_checked name lookup s of
       (False, p, s) \<Rightarrow> (False, [p], s)
     | (True, p, s) \<Rightarrow>
         (case resolve_symbols names lookup s of (ok, ps, s) \<Rightarrow> (ok, p # ps, s)))"

definition resolve_crypto_api :: "'w lookup \<Rightarrow> 'w probe \<Rightarrow> bool \<times> ptr list \<times> 'w probe" where
  "resolve_crypto_api lookup s = resolve_symbols kAllowedSymbols lookup s"

section \<open>Buffers\<close>

definition kMaxSlots :: nat where "kMaxSlots = 64"

text \<open>The result, the buffer and its slot; a failure leaves a null pointer and slot 64.\<close>

definition pool_allocate ::
    "'w probe_env \<Rightarrow> 'w crypto_api \<Rightarrow> u64 \<Rightarrow> 'w probe \<Rightarrow> bool \<times> ptr \<times> nat \<times> 'w probe" where
  "pool_allocate env api capacity s =
    (if l_stopped (ledger s) \<or> capacity = 0 \<or> MAX_BYTES < capacity \<or> kMaxSlots \<le> length (pool s) \<or>
        kMaxLiveBuffers \<le> buffers_live (ledger s) \<or> api_allocate api = None then
       (False, 0, kMaxSlots, stop_at ''buffer_alloc_precondition'' (- 1) ''BUDGET_EXCEEDED'' s)
     else
       let (in_time, s) = check_clock env ''buffer_alloc'' s
       in if \<not> in_time then (False, 0, kMaxSlots, s)
          else
            let (reserved, s) = reserve_abi 5 kMaxAllocationAttempts s
            in if \<not> reserved then (False, 0, kMaxSlots, s)
               else
                 case the (api_allocate api) capacity s of
                   (None, s) \<Rightarrow>
                     (False, 0, kMaxSlots,
                      stop_at ''buffer_alloc_exception'' (- 1) ''SETTLEMENT_UNKNOWN''
                        (on_ledger (count_abi 5 (\<lambda>c. c\<lparr>unknown_n := unknown_n c + 1\<rparr>)) s))
                 | (Some mem, s) \<Rightarrow>
                     let s = on_ledger (count_abi 5 (\<lambda>c. c\<lparr>returned_n := returned_n c + 1,
                               settled_n := settled_n c + 1\<rparr>)) s
                     in if mem = 0 then
                          (False, 0, kMaxSlots,
                           stop_at ''buffer_alloc_null'' (status_word RESOURCE_LIMIT) ''BUDGET_EXCEEDED''
                             (on_ledger (count_abi 5 (\<lambda>c. c\<lparr>failed_n := failed_n c + 1\<rparr>)) s))
                        else
                          let s = on_ledger (count_abi 5 (\<lambda>c. c\<lparr>accepted_n := accepted_n c + 1\<rparr>)) s;
                              slot = \<lparr>slot_ptr = mem, slot_capacity = capacity, allocated_ever = True,
                                slot_active = True, release_attempted = False,
                                release_succeeded = False, release_unknown = False\<rparr>;
                              i = length (pool s);
                              s = s\<lparr>heap := zero_mem mem capacity (heap s), pool := pool s @ [slot]\<rparr>;
                              s = on_ledger (\<lambda>l. l\<lparr>buffers_allocated := buffers_allocated l + 1,
                                    buffers_live := buffers_live l + 1\<rparr>) s
                          in (True, mem, i, s))"

definition update_slot :: "nat \<Rightarrow> (buffer_slot \<Rightarrow> buffer_slot) \<Rightarrow> 'w probe \<Rightarrow> 'w probe" where
  "update_slot i f s = s\<lparr>pool := (pool s)[i := f (pool s ! i)]\<rparr>"

definition pool_release :: "'w crypto_api \<Rightarrow> nat \<Rightarrow> 'w step" where
  "pool_release api i s =
    (if length (pool s) \<le> i \<or> \<not> allocated_ever (pool s ! i) then
       (False, stop_at ''unknown_buffer_slot'' (- 1) ''OWNERSHIP_UNKNOWN'' s)
     else if release_attempted (pool s ! i) then
       (False,
        stop_at ''duplicate_buffer_release'' (- 1) ''OWNERSHIP_UNKNOWN''
          (on_ledger (\<lambda>l. l\<lparr>duplicate_release_attempts := duplicate_release_attempts l + 1\<rparr>) s))
     else
       let s = update_slot i (\<lambda>b. b\<lparr>release_attempted := True\<rparr>) s;
           (reserved, s) = reserve_abi 6 kMaxFreeAttempts s
       in if \<not> reserved then
            (False,
             stop_at ''free_budget_unsettled'' (- 1) ''SETTLEMENT_UNKNOWN''
               (on_ledger (\<lambda>l. l\<lparr>releases_unknown := releases_unknown l + 1\<rparr>)
                 (update_slot i (\<lambda>b. b\<lparr>release_unknown := True\<rparr>) s)))
          else
            let s = on_ledger (\<lambda>l. l\<lparr>releases_attempted := releases_attempted l + 1\<rparr>) s;
                b = pool s ! i;
                s = s\<lparr>heap := zero_mem (slot_ptr b) (slot_capacity b) (heap s)\<rparr>;
                (freed, s) = (case api_deallocate api of None \<Rightarrow> (False, s) | Some free \<Rightarrow> free (slot_ptr b) s)
            in if freed then
                 (True,
                  on_ledger (\<lambda>l. (count_abi 6 (\<lambda>c. c\<lparr>returned_n := returned_n c + 1,
                        accepted_n := accepted_n c + 1, settled_n := settled_n c + 1\<rparr>) l)
                      \<lparr>releases_succeeded := releases_succeeded l + 1,
                       buffers_live := (if 0 < buffers_live l then buffers_live l - 1 else buffers_live l)\<rparr>)
                    (update_slot i (\<lambda>b. b\<lparr>slot_ptr := 0, slot_active := False, release_succeeded := True\<rparr>) s))
               else
                 (False,
                  stop_at ''buffer_release_unknown'' (- 1) ''SETTLEMENT_UNKNOWN''
                    (on_ledger (\<lambda>l. (count_abi 6 (\<lambda>c. c\<lparr>unknown_n := unknown_n c + 1\<rparr>) l)
                        \<lparr>releases_unknown := releases_unknown l + 1\<rparr>)
                      (update_slot i (\<lambda>b. b\<lparr>release_unknown := True\<rparr>) s))))"

text \<open>The loop runs from the last used slot down to the first.\<close>

definition release_all_remaining :: "'w crypto_api \<Rightarrow> 'w probe \<Rightarrow> 'w probe" where
  "release_all_remaining api s =
    fold (\<lambda>i s. if allocated_ever (pool s ! i) \<and> \<not> release_attempted (pool s ! i)
                then snd (pool_release api i s) else s)
      (rev [0..<length (pool s)]) s"

text \<open>A chain of allocations joined by \<open>&&\<close>, and releases that are all carried out.\<close>

fun allocate_all ::
    "'w probe_env \<Rightarrow> 'w crypto_api \<Rightarrow> u64 list \<Rightarrow> 'w probe \<Rightarrow> (ptr \<times> nat) list option \<times> 'w probe" where
  "allocate_all env api [] s = (Some [], s)"
| "allocate_all env api (c # cs) s =
    (case pool_allocate env api c s of
       (False, _, _, s) \<Rightarrow> (None, s)
     | (True, p, i, s) \<Rightarrow>
         (case allocate_all env api cs s of
            (None, s) \<Rightarrow> (None, s)
          | (Some ps, s) \<Rightarrow> (Some ((p, i) # ps), s)))"

fun release_in_turn :: "'w crypto_api \<Rightarrow> nat list \<Rightarrow> 'w step" where
  "release_in_turn api [] s = (True, s)"
| "release_in_turn api (i # slots) s =
    (case pool_release api i s of
       (ok, s) \<Rightarrow> (case release_in_turn api slots s of (rest, s) \<Rightarrow> (ok \<and> rest, s)))"

end
