(* ===== verification/Sha256.thy ===== *)
theory Sha256
  imports Native_Prelude
begin

text \<open>
  The in-memory SHA-256 of the diagnostics (\<open>sha256_digest\<close> in
  \<open>diagnostics/l1_crypto_probe.h\<close>): padding to whole 64-byte chunks, the message
  schedule, sixty-four rounds over eight working variables and the big-endian output.
\<close>

section \<open>Constants and padding\<close>

text \<open>The round constants, in the rows of the source.\<close>

definition sha_k :: "u32 list" where
  "sha_k =
    concat
     [[0x428a2f98, 0x71374491, 0xb5c0fbcf, 0xe9b5dba5, 0x3956c25b],
      [0x59f111f1, 0x923f82a4, 0xab1c5ed5, 0xd807aa98, 0x12835b01],
      [0x243185be, 0x550c7dc3, 0x72be5d74, 0x80deb1fe, 0x9bdc06a7],
      [0xc19bf174, 0xe49b69c1, 0xefbe4786, 0x0fc19dc6, 0x240ca1cc],
      [0x2de92c6f, 0x4a7484aa, 0x5cb0a9dc, 0x76f988da, 0x983e5152],
      [0xa831c66d, 0xb00327c8, 0xbf597fc7, 0xc6e00bf3, 0xd5a79147],
      [0x06ca6351, 0x14292967, 0x27b70a85, 0x2e1b2138, 0x4d2c6dfc],
      [0x53380d13, 0x650a7354, 0x766a0abb, 0x81c2c92e, 0x92722c85],
      [0xa2bfe8a1, 0xa81a664b, 0xc24b8b70, 0xc76c51a3, 0xd192e819],
      [0xd6990624, 0xf40e3585, 0x106aa070, 0x19a4c116, 0x1e376c08],
      [0x2748774c, 0x34b0bcb5, 0x391c0cb3, 0x4ed8aa4a, 0x5b9cca4f],
      [0x682e6ff3, 0x748f82ee, 0x78a5636f, 0x84c87814, 0x8cc70208],
      [0x90befffa, 0xa4506ceb, 0xbef9a3f7, 0xc67178f2]]"

definition rotr32 :: "u32 \<Rightarrow> nat \<Rightarrow> u32" where
  "rotr32 x n = drop_bit n x OR push_bit (32 - n) x"

text \<open>The bytes of a 64-bit count and of a 32-bit word, most significant first.\<close>

definition be64 :: "u64 \<Rightarrow> u8 list" where
  "be64 n = map (\<lambda>i. ucast (drop_bit (8 * i) n)) (rev [0..<8])"

definition be32 :: "u32 \<Rightarrow> u8 list" where
  "be32 x = map (\<lambda>i. ucast (drop_bit (8 * i) x)) (rev [0..<4])"

definition sha_total :: "nat \<Rightarrow> nat" where
  "sha_total n = (n + 9 + 63) div 64 * 64"

definition sha_padded :: "u8 list \<Rightarrow> u8 list" where
  "sha_padded bs =
    bs @ [0x80] @ replicate (sha_total (length bs) - length bs - 9) 0
       @ be64 (of_nat (length bs) * 8)"

section \<open>Compression\<close>

definition word_at :: "u8 list \<Rightarrow> nat \<Rightarrow> u32" where
  "word_at p i =
    push_bit 24 (ucast (p ! i)) OR push_bit 16 (ucast (p ! (i + 1)))
      OR push_bit 8 (ucast (p ! (i + 2))) OR ucast (p ! (i + 3))"

definition sha_extend :: "nat \<Rightarrow> u32 list \<Rightarrow> u32 list" where
  "sha_extend i w =
    (let s0 = rotr32 (w ! (i - 15)) 7 XOR rotr32 (w ! (i - 15)) 18 XOR drop_bit 3 (w ! (i - 15));
         s1 = rotr32 (w ! (i - 2)) 17 XOR rotr32 (w ! (i - 2)) 19 XOR drop_bit 10 (w ! (i - 2))
     in w @ [w ! (i - 16) + s0 + w ! (i - 7) + s1])"

definition sha_schedule :: "u8 list \<Rightarrow> nat \<Rightarrow> u32 list" where
  "sha_schedule p chunk =
    fold sha_extend [16..<64] (map (\<lambda>i. word_at p (chunk + i * 4)) [0..<16])"

type_synonym sha_state = "u32 \<times> u32 \<times> u32 \<times> u32 \<times> u32 \<times> u32 \<times> u32 \<times> u32"

definition sha_start :: sha_state where
  "sha_start = (0x6a09e667, 0xbb67ae85, 0x3c6ef372, 0xa54ff53a,
                0x510e527f, 0x9b05688c, 0x1f83d9ab, 0x5be0cd19)"

fun sha_round :: "u32 list \<Rightarrow> nat \<Rightarrow> sha_state \<Rightarrow> sha_state" where
  "sha_round w i (a, b, c, d, e, f, g, h) =
    (let s1 = rotr32 e 6 XOR rotr32 e 11 XOR rotr32 e 25;
         ch = (e AND f) XOR ((NOT e) AND g);
         temp1 = h + s1 + ch + sha_k ! i + w ! i;
         s0 = rotr32 a 2 XOR rotr32 a 13 XOR rotr32 a 22;
         maj = (a AND b) XOR (a AND c) XOR (b AND c);
         temp2 = s0 + maj
     in (temp1 + temp2, a, b, c, d + temp1, e, f, g))"

fun sha_add :: "sha_state \<Rightarrow> sha_state \<Rightarrow> sha_state" where
  "sha_add (a, b, c, d, e, f, g, h) (a', b', c', d', e', f', g', h') =
    (a + a', b + b', c + c', d + d', e + e', f + f', g + g', h + h')"

definition sha_chunk :: "u8 list \<Rightarrow> nat \<Rightarrow> sha_state \<Rightarrow> sha_state" where
  "sha_chunk p chunk s = sha_add s (fold (sha_round (sha_schedule p chunk)) [0..<64] s)"

fun sha_output :: "sha_state \<Rightarrow> u8 list" where
  "sha_output (a, b, c, d, e, f, g, h) = concat (map be32 [a, b, c, d, e, f, g, h])"

definition sha256_digest :: "u8 list \<Rightarrow> u8 list" where
  "sha256_digest bs =
    (let p = sha_padded bs
     in sha_output (fold (\<lambda>i. sha_chunk p (i * 64)) [0..<length p div 64] sha_start))"

lemma length_be32 [simp]: "length (be32 x) = 4"
  by (simp add: be32_def)

lemma length_be64 [simp]: "length (be64 x) = 8"
  by (simp add: be64_def)

lemma length_sha256 [simp]: "length (sha256_digest bs) = 32"
  by (cases "fold (\<lambda>i. sha_chunk (sha_padded bs) (i * 64)) [0..<length (sha_padded bs) div 64] sha_start"
      rule: sha_output.cases) (simp add: sha256_digest_def Let_def)

text \<open>The padding fills whole chunks, so the loop of the source covers every byte.\<close>

lemma sha_total_bound: "n + 9 \<le> sha_total n" "64 dvd sha_total n"
  unfolding sha_total_def by auto

lemma length_sha_padded: "length (sha_padded bs) = sha_total (length bs)"
  using sha_total_bound(1) [of "length bs"] by (simp add: sha_padded_def)

lemma sha_padded_chunks: "64 * (length (sha_padded bs) div 64) = length (sha_padded bs)"
  unfolding length_sha_padded by (rule dvd_mult_div_cancel [OF sha_total_bound(2)])

end
