(* ===== verification/Certificate_Der.thy ===== *)
theory Certificate_Der
  imports Sha256
begin

text \<open>
  The DER construction and parsing of the diagnostics
  (\<open>diagnostics/l1_crypto_probe.h\<close>): ECDSA signatures between their raw 64-byte and
  their \<open>ECDSA-Sig-Value\<close> form, and the three fixed certificate profiles, which are
  built, assembled around a signature and taken apart again.  The lemmas show that
  taking apart returns exactly what was assembled.
\<close>

section \<open>Scalars\<close>

definition P256_order :: "u8 list" where
  "P256_order =
    [0xff, 0xff, 0xff, 0xff, 0x00, 0x00, 0x00, 0x00, 0xff, 0xff, 0xff,
     0xff, 0xff, 0xff, 0xff, 0xff, 0xbc, 0xe6, 0xfa, 0xad, 0xa7, 0x17,
     0x9e, 0x84, 0xf3, 0xb9, 0xca, 0xc2, 0xfc, 0x63, 0x25, 0x51]"

text \<open>\<open>std::memcmp (xs, ys) < 0\<close> on byte strings of one length.\<close>

fun memcmp_less :: "u8 list \<Rightarrow> u8 list \<Rightarrow> bool" where
  "memcmp_less (x # xs) (y # ys) = (x < y \<or> (x = y \<and> memcmp_less xs ys))"
| "memcmp_less _ _ = False"

definition scalar_in_range :: "u8 list \<Rightarrow> bool" where
  "scalar_in_range s \<longleftrightarrow> list_ex (\<lambda>b. b \<noteq> 0) s \<and> memcmp_less s P256_order"

section \<open>Encoding\<close>

definition der_wrap :: "u8 \<Rightarrow> u8 list \<Rightarrow> u8 list" where
  "der_wrap tag body =
    (let n = length body
     in tag # (if n < 128 then [of_nat n]
               else if n < 256 then [0x81, of_nat n]
               else [0x82, of_nat (n div 256), of_nat n]) @ body)"

text \<open>The loop that skips leading zero bytes but keeps the last byte.\<close>

fun strip_zeros :: "u8 list \<Rightarrow> u8 list" where
  "strip_zeros (x # y # xs) = (if x = 0 then strip_zeros (y # xs) else x # y # xs)"
| "strip_zeros xs = xs"

text \<open>A DER integer is signed: a magnitude with its top bit set gets a zero byte.\<close>

definition unsigned_body :: "u8 list \<Rightarrow> u8 list" where
  "unsigned_body s =
    (let m = strip_zeros s in if m ! 0 AND 0x80 \<noteq> 0 then 0 # m else m)"

definition encode_int :: "u8 list \<Rightarrow> u8 list" where
  "encode_int s = der_wrap 0x02 (unsigned_body s)"

definition raw_signature_to_der :: "u8 list option \<Rightarrow> u8 list option" where
  "raw_signature_to_der raw =
    (case raw of
       None \<Rightarrow> None
     | Some r \<Rightarrow>
         if length r \<noteq> 64 \<or> \<not> scalar_in_range (take 32 r) \<or> \<not> scalar_in_range (drop 32 r) then None
         else Some (der_wrap 0x30 (encode_int (take 32 r) @ encode_int (drop 32 r))))"

section \<open>Decoding\<close>

text \<open>
  One turn of the loop of \<open>der_signature_to_raw\<close>: a malformed integer leaves the output
  as it is, a scalar outside the range clears it.
\<close>

datatype int_step = Malformed | Out_of_range | Scalar "u8 list" nat

definition decode_int :: "u8 list \<Rightarrow> nat \<Rightarrow> int_step" where
  "decode_int der offset =
    (if offset + 2 > length der \<or> der ! offset \<noteq> 0x02 then Malformed
     else
       let n = unat (der ! (offset + 1)); at = offset + 2
       in if n = 0 \<or> n > 33 \<or> at + n > length der then Malformed
          else
            let bs = take n (drop at der)
            in if bs ! 0 AND 0x80 \<noteq> 0 then Malformed
               else if n > 1 \<and> bs ! 0 = 0 \<and> bs ! 1 AND 0x80 = 0 then Malformed
               else
                 let mag = (if n > 1 \<and> bs ! 0 = 0 then tl bs else bs)
                 in if mag = [] \<or> length mag > 32 then Malformed
                    else
                      let s = replicate (32 - length mag) 0 @ mag
                      in if scalar_in_range s then Scalar s (at + n) else Out_of_range)"

text \<open>The result and the 64-byte output buffer, whose earlier content is \<open>out\<close>.\<close>

definition der_signature_to_raw :: "u8 list option \<Rightarrow> u8 list \<Rightarrow> bool \<times> u8 list" where
  "der_signature_to_raw source out =
    (case source of
       None \<Rightarrow> (False, out)
     | Some der \<Rightarrow>
         if length der < 8 \<or> length der > 72 then (False, out)
         else
           let cleared = replicate 64 0
           in if der ! 0 \<noteq> 0x30 then (False, cleared)
              else if der ! 1 AND 0x80 \<noteq> 0 \<or> 2 + unat (der ! 1) \<noteq> length der then (False, cleared)
              else
                case decode_int der 2 of
                  Malformed \<Rightarrow> (False, cleared)
                | Out_of_range \<Rightarrow> (False, cleared)
                | Scalar r at \<Rightarrow>
                    (case decode_int der at of
                       Malformed \<Rightarrow> (False, r @ replicate 32 0)
                     | Out_of_range \<Rightarrow> (False, cleared)
                     | Scalar s at' \<Rightarrow>
                         if at' \<noteq> length der then (False, cleared) else (True, r @ s)))"

section \<open>Certificates\<close>

datatype certificate_role = Issuer | Server | Client

definition sig_alg :: "u8 list" where
  "sig_alg = der_wrap 0x30 (der_wrap 0x06 [0x2a, 0x86, 0x48, 0xce, 0x3d, 0x04, 0x03, 0x02])"

definition make_name :: "string \<Rightarrow> u8 list" where
  "make_name cn =
    der_wrap 0x30 (der_wrap 0x31 (der_wrap 0x30
      (der_wrap 0x06 [0x55, 0x04, 0x03] @ der_wrap 0x0c (narrow cn))))"

definition subject_name :: "certificate_role \<Rightarrow> u8 list" where
  "subject_name role =
    (case role of
       Issuer \<Rightarrow> make_name ''Shiroha External Installation Issuer''
     | Server \<Rightarrow> make_name ''Shiroha External Host''
     | Client \<Rightarrow> make_name ''Shiroha External Bridge'')"

definition validity :: "certificate_role \<Rightarrow> u8 list" where
  "validity role =
    der_wrap 0x30
      (der_wrap 0x17 (narrow ''250101000000Z'')
       @ der_wrap 0x17 (narrow (if role = Issuer then ''350101000000Z'' else ''270101000000Z'')))"

definition public_key_info :: "u8 list \<Rightarrow> u8 list" where
  "public_key_info point =
    der_wrap 0x30
      (der_wrap 0x30
         (der_wrap 0x06 [0x2a, 0x86, 0x48, 0xce, 0x3d, 0x02, 0x01]
          @ der_wrap 0x06 [0x2a, 0x86, 0x48, 0xce, 0x3d, 0x03, 0x01, 0x07])
       @ der_wrap 0x03 (0x00 # point))"

definition make_ext :: "u8 list \<Rightarrow> bool \<Rightarrow> u8 list \<Rightarrow> u8 list" where
  "make_ext oid critical val =
    der_wrap 0x30
      (der_wrap 0x06 oid @ (if critical then [0x01, 0x01, 0xff] else []) @ der_wrap 0x04 val)"

definition extensions :: "certificate_role \<Rightarrow> u8 list" where
  "extensions role =
    der_wrap 0xa3 (der_wrap 0x30
      (make_ext [0x55, 0x1d, 0x13] True
         (der_wrap 0x30 (if role = Issuer then [0x01, 0x01, 0xff, 0x02, 0x01, 0x00] else []))
       @ make_ext [0x55, 0x1d, 0x0f] True
           (der_wrap 0x03 (if role = Issuer then [0x02, 0x04] else [0x07, 0x80]))
       @ (if role \<noteq> Issuer then
            make_ext [0x55, 0x1d, 0x25] False
              (der_wrap 0x30 (der_wrap 0x06
                 [0x2b, 0x06, 0x01, 0x05, 0x05, 0x07, 0x03, if role = Server then 0x01 else 0x02]))
          else [])
       @ (if role = Server then
            make_ext [0x55, 0x1d, 0x11] True (der_wrap 0x30 [0x87, 0x04, 127, 0, 0, 1])
          else [])))"

definition build_x509_tbs ::
    "certificate_role \<Rightarrow> u8 list option \<Rightarrow> u8 list option \<Rightarrow> u8 list option" where
  "build_x509_tbs role serial16 public_point =
    (case (serial16, public_point) of
       (Some serial, Some point) \<Rightarrow>
         if point ! 0 \<noteq> 0x04 then None
         else if \<not> list_ex (\<lambda>b. b \<noteq> 0) serial then None
         else Some (der_wrap 0x30
           (der_wrap 0xa0 (der_wrap 0x02 [0x02])
            @ der_wrap 0x02 (unsigned_body serial)
            @ sig_alg
            @ subject_name Issuer
            @ validity role
            @ subject_name role
            @ public_key_info point
            @ extensions role))
     | _ \<Rightarrow> None)"

definition assemble_x509_certificate :: "u8 list \<Rightarrow> u8 list option \<Rightarrow> u8 list option" where
  "assemble_x509_certificate tbs raw_sig =
    (if tbs = [] \<or> raw_sig = None then None
     else
       case raw_signature_to_der raw_sig of
         None \<Rightarrow> None
       | Some der_sig \<Rightarrow>
           Some (der_wrap 0x30 (tbs @ sig_alg @ der_wrap 0x03 (0x00 # der_sig))))"

text \<open>
  \<open>read_node\<close>: the node's bytes, its body and the position after it.
\<close>

definition read_node :: "u8 list \<Rightarrow> nat \<Rightarrow> u8 \<Rightarrow> (u8 list \<times> u8 list \<times> nat) option" where
  "read_node buf pos tag =
    (if pos + 2 > length buf \<or> buf ! pos \<noteq> tag then None
     else
       let l0 = buf ! (pos + 1);
           header =
             (if l0 AND 0x80 = 0 then Some (2, unat l0)
              else if l0 = 0x81 then
                (if pos + 3 > length buf \<or> buf ! (pos + 2) < 128 then None
                 else Some (3, unat (buf ! (pos + 2))))
              else if l0 = 0x82 then
                (if pos + 4 > length buf then None
                 else
                   let n = unat (buf ! (pos + 2)) * 256 + unat (buf ! (pos + 3))
                   in if n < 256 then None else Some (4, n))
              else None)
       in case header of
            None \<Rightarrow> None
          | Some (hdr, n) \<Rightarrow>
              if n > length buf - pos - hdr then None
              else Some (take (hdr + n) (drop pos buf), take n (drop (pos + hdr) buf), pos + (hdr + n)))"

text \<open>The result, the extracted to-be-signed bytes and the 64-byte signature buffer.\<close>

definition extract_x509 :: "u8 list \<Rightarrow> bool \<times> u8 list \<times> u8 list" where
  "extract_x509 cert =
    (let cleared = replicate 64 0
     in case read_node cert 0 0x30 of
          None \<Rightarrow> (False, [], cleared)
        | Some (outer, body, after) \<Rightarrow>
            if after \<noteq> length cert then (False, [], cleared)
            else
              case read_node body 0 0x30 of
                None \<Rightarrow> (False, [], cleared)
              | Some (tbs, _, p1) \<Rightarrow>
                  (case read_node body p1 0x30 of
                     None \<Rightarrow> (False, [], cleared)
                   | Some (alg, _, p2) \<Rightarrow>
                       (case read_node body p2 0x03 of
                          None \<Rightarrow> (False, [], cleared)
                        | Some (sig, sig_body, p3) \<Rightarrow>
                            if p3 \<noteq> length body \<or> length sig_body < 2 \<or> sig_body ! 0 \<noteq> 0x00
                            then (False, [], cleared)
                            else
                              let (ok, raw) = der_signature_to_raw (Some (tl sig_body)) cleared
                              in (ok, tbs, raw))))"

section \<open>Reading back what was written\<close>

lemma u8_top_bit: "b AND 0x80 = 0 \<longleftrightarrow> unat b < 128" for b :: u8
proof -
  have n: "unat b < 256" using unsigned_less [of b] by simp
  have "bit b 7 \<longleftrightarrow> bit (unat b) 7"
    by (simp add: bit_unsigned_iff)
  also have "\<dots> \<longleftrightarrow> \<not> unat b < 128"
  proof (cases "unat b < 128")
    case False
    then have "unat b div 128 = 1" using n by (intro div_nat_eqI) simp_all
    then show ?thesis using False by (simp add: bit_iff_odd)
  qed (simp add: bit_iff_odd)
  finally show ?thesis
    using and_exp_eq_0_iff_not_bit [of b 7] by simp
qed
lemma u8_of_nat: "n < 256 \<Longrightarrow> unat (of_nat n :: u8) = n"
  by (simp add: unsigned_of_nat take_bit_nat_eq_self)

lemma length_der_wrap:
  "length (der_wrap tag body) =
    length body + (if length body < 128 then 2 else if length body < 256 then 3 else 4)"
  by (simp add: der_wrap_def Let_def)

lemma header_cells:
  "take (3 + n) (a # b # c # xs) = a # b # c # take n xs"
  "take (4 + n) (a # b # c # d # xs) = a # b # c # d # take n xs"
  "drop (Suc (Suc (Suc 0))) (a # b # c # xs) = xs"
  "drop 3 (a # b # c # xs) = xs" "drop 4 (a # b # c # d # xs) = xs"
  "(a # b # c # xs) ! 2 = c" "(a # b # c # d # xs) ! 3 = d"
  by (simp_all add: eval_nat_numeral)

lemma read_node_wrap:
  assumes "length body < 65536"
  shows "read_node (pre @ der_wrap tag body @ post) (length pre) tag =
    Some (der_wrap tag body, body, length pre + length (der_wrap tag body))"
proof -
  have n: "unat (of_nat (length body div 256) :: u8) * 256 + unat (of_nat (length body) :: u8) = length body"
    using assms by (simp add: unsigned_of_nat take_bit_nat_def)
  have m: "\<not> length body < 128 \<Longrightarrow> length body < 256 \<Longrightarrow> \<not> (of_nat (length body) :: u8) < 128"
    by (simp add: word_less_nat_alt u8_of_nat)
  consider "length body < 128" | "\<not> length body < 128" "length body < 256" | "\<not> length body < 256"
    by linarith
  then show ?thesis
  proof cases
    case 1
    then show ?thesis by (simp add: read_node_def der_wrap_def Let_def nth_append u8_top_bit u8_of_nat)
  next
    case 2
    then show ?thesis using m [OF 2] by (simp add: read_node_def der_wrap_def Let_def nth_append u8_top_bit u8_of_nat header_cells)
  next
    case 3
    then show ?thesis using n by (simp add: read_node_def der_wrap_def Let_def nth_append u8_top_bit header_cells)
  qed
qed
lemma strip_zeros_length: "length (strip_zeros s) \<le> length s"
  by (induction s rule: strip_zeros.induct) auto

lemma strip_zeros_nonempty [simp]: "strip_zeros s = [] \<longleftrightarrow> s = []"
  by (induction s rule: strip_zeros.induct) auto

lemma strip_zeros_split: "replicate (length s - length (strip_zeros s)) 0 @ strip_zeros s = s"
proof (induction s rule: strip_zeros.induct)
  case (1 x y xs)
  then show ?case using strip_zeros_length [of "y # xs"] by (simp add: Suc_diff_le)
qed auto

lemma strip_zeros_head: "list_ex (\<lambda>b. b \<noteq> 0) s \<Longrightarrow> strip_zeros s ! 0 \<noteq> 0"
  by (induction s rule: strip_zeros.induct) auto

lemma unsigned_body_length: "s \<noteq> [] \<Longrightarrow> 0 < length (unsigned_body s)" "length (unsigned_body s) \<le> Suc (length s)"
  using strip_zeros_length [of s] by (auto simp: unsigned_body_def Let_def)

lemma decode_encode_int:
  assumes "length s = 32" and r: "scalar_in_range s"
  shows "decode_int (pre @ encode_int s @ post) (length pre) =
    Scalar s (length pre + length (encode_int s))"
proof -
  define m where "m = strip_zeros s"
  have m: "m \<noteq> []" "length m \<le> 32" "m ! 0 \<noteq> 0" "replicate (32 - length m) 0 @ m = s"
    using assms strip_zeros_length [of s] strip_zeros_head [of s] strip_zeros_split [of s]
    by (auto simp: m_def scalar_in_range_def)
  define b where "b = unsigned_body s"
  have b: "b = (if m ! 0 AND 0x80 \<noteq> 0 then 0 # m else m)"
    by (simp add: b_def unsigned_body_def m_def Let_def)
  have n: "0 < length b" "length b \<le> 33" using m(1,2) by (auto simp: b)
  have e: "encode_int s = 0x02 # of_nat (length b) # b"
    using n by (simp add: encode_int_def der_wrap_def b_def [symmetric])
  have sign: "b ! 0 AND 0x80 = 0" "\<not> (1 < length b \<and> b ! 0 = 0 \<and> b ! 1 AND 0x80 = 0)"
    and mag: "(if 1 < length b \<and> b ! 0 = 0 then tl b else b) = m"
    using m(1,3) by (auto simp: b)
  have t: "take (length b) (drop (length pre + 2) (pre @ encode_int s @ post)) = b"
    by (simp add: e)
  have u: "unat ((pre @ encode_int s @ post) ! (length pre + 1)) = length b"
    using n by (simp add: e nth_append u8_of_nat)
  show ?thesis
    unfolding decode_int_def Let_def u t mag m(4)
    using m(1,2) r n sign by (simp add: e)
qed

lemma encode_int_length:
  assumes "length s = 32"
  shows "3 \<le> length (encode_int s)" "length (encode_int s) \<le> 35"
  using unsigned_body_length(2) [of s] unsigned_body_length(1) [of s] assms
  by (cases s; simp add: encode_int_def length_der_wrap Suc_le_eq)+

lemma signature_reads_back:
  assumes "raw_signature_to_der (Some r) = Some der"
  shows "der_signature_to_raw (Some der) out = (True, r)"
proof -
  let ?x = "take 32 r" and ?y = "drop 32 r"
  have l: "length ?x = 32" "length ?y = 32" and s: "scalar_in_range ?x" "scalar_in_range ?y"
    and d: "der = der_wrap 0x30 (encode_int ?x @ encode_int ?y)"
    using assms by (auto simp: raw_signature_to_der_def split: if_splits)
  have n: "length (encode_int ?x) + length (encode_int ?y) \<le> 70"
    "6 \<le> length (encode_int ?x) + length (encode_int ?y)"
    using encode_int_length [OF l(1)] encode_int_length [OF l(2)] by auto
  define pre where "pre = [0x30 :: u8, of_nat (length (encode_int ?x @ encode_int ?y))]"
  have pre: "length pre = 2" "pre ! 0 = 0x30" "unat (pre ! 1) = length (encode_int ?x @ encode_int ?y)"
    using n u8_of_nat [of "length (encode_int ?x @ encode_int ?y)"] by (simp_all add: pre_def)
  have e: "der = pre @ encode_int ?x @ encode_int ?y"
    using n by (simp add: d der_wrap_def pre_def)
  have a: "decode_int der 2 = Scalar ?x (2 + length (encode_int ?x))"
    unfolding e using decode_encode_int [OF l(1) s(1), of pre] pre(1) by simp
  have b: "decode_int der (2 + length (encode_int ?x)) = Scalar ?y (length der)"
    using decode_encode_int [OF l(2) s(2), of "pre @ encode_int ?x" "[]"] pre(1) by (simp add: e)
  have g: "der ! 0 = 0x30" "der ! 1 AND 0x80 = 0" "2 + unat (der ! 1) = length der"
    "8 \<le> length der" "length der \<le> 72"
    using n pre by (simp_all add: e nth_append u8_top_bit)
  show ?thesis
    using g by (simp add: der_signature_to_raw_def a b [unfolded add_2_eq_Suc] Let_def)
qed

lemma signature_length:
  assumes "raw_signature_to_der raw = Some der"
  shows "length der \<le> 72"
proof -
  obtain r where r: "raw = Some r" using assms by (cases raw) (auto simp: raw_signature_to_der_def)
  let ?x = "take 32 r" and ?y = "drop 32 r"
  have l: "length ?x = 32" "length ?y = 32"
    and d: "der = der_wrap 0x30 (encode_int ?x @ encode_int ?y)"
    using assms by (auto simp: r raw_signature_to_der_def split: if_splits)
  show ?thesis
    using encode_int_length [OF l(1)] encode_int_length [OF l(2)] by (simp add: d length_der_wrap)
qed

lemma assembled_reads_back:
  assumes "assemble_x509_certificate (der_wrap 0x30 body) (Some r) = Some cert" and "length body < 60000"
  shows "extract_x509 cert = (True, der_wrap 0x30 body, r)"
proof -
  obtain sig where sig: "raw_signature_to_der (Some r) = Some sig"
    and c: "cert = der_wrap 0x30 (der_wrap 0x30 body @ sig_alg @ der_wrap 0x03 (0x00 # sig))"
    using assms(1) by (auto simp: assemble_x509_certificate_def split: if_splits option.splits)
  let ?t = "der_wrap 0x30 body" and ?v = "der_wrap 0x03 (0x00 # sig)"
  have sl: "length sig \<le> 72" using signature_length [OF sig] .
  have al: "length sig_alg = 12" by (simp add: sig_alg_def length_der_wrap)
  have small: "length (?t @ sig_alg @ ?v) < 65536"
    using assms(2) sl by (simp add: length_der_wrap al)
  have outer: "read_node cert 0 0x30 = Some (cert, ?t @ sig_alg @ ?v, length cert)"
    using read_node_wrap [OF small, of "[]" "0x30" "[]"] by (simp add: c)
  have t: "read_node (?t @ sig_alg @ ?v) 0 0x30 = Some (?t, body, length ?t)"
    using read_node_wrap [of body "[]" "0x30" "sig_alg @ ?v"] assms(2) by simp
  have a: "read_node (?t @ sig_alg @ ?v) (length ?t) 0x30 =
      Some (sig_alg, der_wrap 0x06 [0x2a, 0x86, 0x48, 0xce, 0x3d, 0x04, 0x03, 0x02], length ?t + length sig_alg)"
    unfolding sig_alg_def by (rule read_node_wrap) (simp add: length_der_wrap)
  have v: "read_node (?t @ sig_alg @ ?v) (length ?t + length sig_alg) 0x03 =
      Some (?v, 0x00 # sig, length (?t @ sig_alg @ ?v))"
    using read_node_wrap [of "0x00 # sig" "?t @ sig_alg" "0x03" "[]"] sl by simp
  have ne: "sig \<noteq> []" using sig by (auto simp: raw_signature_to_der_def der_wrap_def Let_def split: if_splits)
  show ?thesis
    using ne by (simp add: extract_x509_def outer t a v signature_reads_back [OF sig])
qed

lemma length_make_name: "length cn < 100 \<Longrightarrow> length (make_name cn) \<le> length cn + 30"
  by (simp add: make_name_def length_der_wrap narrow_def)

lemma length_subject_name: "length (subject_name role) \<le> 80"
  using length_make_name [of "''Shiroha External Installation Issuer''"]
    length_make_name [of "''Shiroha External Host''"] length_make_name [of "''Shiroha External Bridge''"]
  by (cases role) (simp_all add: subject_name_def)

lemma length_validity: "length (validity role) \<le> 40"
  by (simp add: validity_def length_der_wrap narrow_def)

lemma length_public_key_info: "length (public_key_info point) \<le> length point + 50"
  by (simp add: public_key_info_def length_der_wrap)

lemma length_extensions: "length (extensions role) \<le> 120"
  by (cases role) (simp_all add: extensions_def make_ext_def length_der_wrap)

lemma built_is_small:
  assumes "build_x509_tbs role (Some serial) (Some point) = Some tbs"
    and "length serial \<le> 16" and "length point \<le> 65"
  obtains body where "tbs = der_wrap 0x30 body" and "length body < 60000"
proof
  let ?b = "der_wrap 0xa0 (der_wrap 0x02 [0x02]) @ der_wrap 0x02 (unsigned_body serial) @ sig_alg
            @ subject_name Issuer @ validity role @ subject_name role @ public_key_info point
            @ extensions role"
  show "tbs = der_wrap 0x30 ?b" using assms(1) by (auto simp: build_x509_tbs_def split: if_splits)
  show "length ?b < 60000"
    using unsigned_body_length(2) [of serial] length_subject_name [of Issuer] length_validity [of role]
      length_subject_name [of role] length_public_key_info [of point] length_extensions [of role] assms(2,3)
    by (simp add: length_der_wrap sig_alg_def)
qed

lemma certificate_reads_back:
  assumes "build_x509_tbs role (Some serial) (Some point) = Some tbs"
    and "length serial = 16" and "length point = 65"
    and "assemble_x509_certificate tbs (Some r) = Some cert"
  shows "extract_x509 cert = (True, tbs, r)"
  by (rule built_is_small [OF assms(1)]) (use assms in \<open>auto intro: assembled_reads_back\<close>)

section \<open>Certificate round trip\<close>

text \<open>
  Claim C35.  Whatever certificate profile is built for a serial and a public point, and
  whatever raw signature is put on it, the parser returns exactly the to-be-signed bytes
  and the raw signature that went in; and every signature the encoder accepts is one the
  strict decoder accepts.
\<close>

theorem issued_certificate_roundtrip:
  assumes "build_x509_tbs role (Some serial) (Some point) = Some tbs"
    and "length serial = 16" and "length point = 65"
    and "assemble_x509_certificate tbs (Some r) = Some cert"
  shows "extract_x509 cert = (True, tbs, r)"
  using assms by (rule certificate_reads_back)

definition sample_tbs :: "u8 list" where
  "sample_tbs = the (build_x509_tbs Server (Some (replicate 16 3)) (Some (4 # replicate 64 7)))"

lemma issued_certificate_roundtrip_witness:
  "extract_x509 (the (assemble_x509_certificate sample_tbs (Some (replicate 64 9)))) =
    (True, sample_tbs, replicate 64 9)"
  by (rule issued_certificate_roundtrip [of Server "replicate 16 3" "4 # replicate 64 7"])
    (simp_all add: sample_tbs_def, code_simp+)

end
