(* ===== verification/Crypto_Sequence.thy ===== *)
theory Crypto_Sequence
  imports Crypto_Pool Certificate_Der
begin

text \<open>
  The bounded sequence itself (\<open>EphemeralKeySlot\<close> and \<open>run_l1_crypto_sequence\<close> in
  \<open>diagnostics/l1_crypto_probe.h\<close>): one version call, three key pairs, three
  certificates signed by the issuer, three verifications, three of tampered signatures and
  three policy decisions, each in freshly allocated buffers that are released before the
  next step.  A step that answers \<open>False\<close> is the source's \<open>return 10\<close>.
\<close>

section \<open>Key copies\<close>

definition PKCS8_MAX :: u64 where "PKCS8_MAX = 256"
definition POINT_BYTES :: u64 where "POINT_BYTES = 65"
definition DIGEST_BYTES :: u64 where "DIGEST_BYTES = 32"
definition RAW_BYTES :: u64 where "RAW_BYTES = 64"

definition empty_key :: key_slot where
  "empty_key = \<lparr>key_pkcs8 = replicate (unat PKCS8_MAX) 0, key_length = 0,
                key_point = replicate (unat POINT_BYTES) 0, private_wiped = False\<rparr>"

definition wipe_private :: "key_slot \<Rightarrow> key_slot" where
  "wipe_private k = k\<lparr>key_pkcs8 := replicate (length (key_pkcs8 k)) 0, key_length := 0, private_wiped := True\<rparr>"

definition destroy_key :: "key_slot \<Rightarrow> key_slot" where
  "destroy_key k = (let k = wipe_private k in k\<lparr>key_point := replicate (length (key_point k)) 0\<rparr>)"

definition update_key :: "nat \<Rightarrow> (key_slot \<Rightarrow> key_slot) \<Rightarrow> 'w probe \<Rightarrow> 'w probe" where
  "update_key i f s = s\<lparr>keys := (keys s)[i := f (keys s ! i)]\<rparr>"

definition put_bytes :: "ptr \<Rightarrow> u8 list \<Rightarrow> 'w probe \<Rightarrow> 'w probe" where
  "put_bytes p bs s = s\<lparr>heap := write_bytes p bs (heap s)\<rparr>"

section \<open>Steps\<close>

definition abi_step :: "'w probe_env \<Rightarrow> 'w crypto_api \<Rightarrow> 'w step" where
  "abi_step env api =
    invoke_and_check env kAbi ''abi'' ABI_VERSION (api_abi api) (\<lambda>status s. (status = ABI_VERSION, s))"

definition fail_all :: "'w crypto_api \<Rightarrow> 'w step" where
  "fail_all api s = (False, release_all_remaining api s)"

text \<open>
  The frame the steps share: allocate the buffers or give up, and at the end release them
  all and go on only if the call was accepted and every release succeeded.  \<open>give_up\<close> is
  what the failing path does first.
\<close>

definition with_buffers ::
    "'w probe_env \<Rightarrow> 'w crypto_api \<Rightarrow> u64 list \<Rightarrow> ((ptr \<times> nat) list \<Rightarrow> 'w step) \<Rightarrow> 'w step" where
  "with_buffers env api capacities body s =
    (case allocate_all env api capacities s of
       (None, s) \<Rightarrow> fail_all api s
     | (Some buffers, s) \<Rightarrow> body buffers s)"

definition close_step ::
    "'w crypto_api \<Rightarrow> nat list \<Rightarrow> ('w probe \<Rightarrow> 'w probe) \<Rightarrow> bool \<times> 'w probe \<Rightarrow> bool \<times> 'w probe" where
  "close_step api slots give_up r =
    (case r of
       (ok, s) \<Rightarrow>
         (case release_in_turn api slots s of
            (freed, s) \<Rightarrow> if ok \<and> freed then (True, s) else fail_all api (give_up s)))"

definition kGenSteps :: "string list" where
  "kGenSteps = [''gen_issuer'', ''gen_server'', ''gen_client'']"

text \<open>The shape check of a generated pair copies it into slot \<open>i\<close>.\<close>

definition keep_generated :: "nat \<Rightarrow> ptr \<Rightarrow> ptr \<Rightarrow> ptr \<Rightarrow> u32 \<Rightarrow> 'w step" where
  "keep_generated i key_buf point_buf counts_buf status s =
    (let n = load64 counts_buf (heap s)
     in if status \<noteq> status_word OK then (False, s)
        else if n < 1 \<or> PKCS8_MAX < n \<or> load64 (counts_buf + 8) (heap s) \<noteq> POINT_BYTES \<or>
                heap s point_buf \<noteq> 0x04 then (False, s)
        else
          (True,
           update_key i (\<lambda>k. k\<lparr>key_length := n,
              key_pkcs8 := read_bytes key_buf n (heap s) @ drop (unat n) (key_pkcs8 k),
              key_point := read_bytes point_buf POINT_BYTES (heap s)\<rparr>) s))"

fun generate_body :: "'w probe_env \<Rightarrow> 'w crypto_api \<Rightarrow> nat \<Rightarrow> (ptr \<times> nat) list \<Rightarrow> 'w step" where
  "generate_body env api i [(key_buf, key_slot), (point_buf, point_slot), (counts_buf, counts_slot)] s =
    close_step api [counts_slot, point_slot, key_slot] id
      (invoke_and_check env kGenerateKey (kGenSteps ! i) (status_word OK)
        (api_generate_key api ABI_VERSION key_buf PKCS8_MAX counts_buf point_buf POINT_BYTES (counts_buf + 8))
        (keep_generated i key_buf point_buf counts_buf) s)"
| "generate_body env api i _ s = fail_all api s"

definition generate_step :: "'w probe_env \<Rightarrow> 'w crypto_api \<Rightarrow> nat \<Rightarrow> 'w step" where
  "generate_step env api i = with_buffers env api [PKCS8_MAX, POINT_BYTES, 16] (generate_body env api i)"

definition kRoles :: "certificate_role list" where
  "kRoles = [Issuer, Server, Client]"

definition kSignSteps :: "string list" where
  "kSignSteps = [''sign_issuer_cert'', ''sign_server_cert'', ''sign_client_cert'']"

definition serial_bytes :: "nat \<Rightarrow> u8 list" where
  "serial_bytes i = map (\<lambda>b. of_nat ((i + 1) * 17 + b)) [0..<16]"

definition keep_certificate :: "nat \<Rightarrow> u8 list \<Rightarrow> ptr \<Rightarrow> ptr \<Rightarrow> u32 \<Rightarrow> 'w step" where
  "keep_certificate i tbs sig_buf count_buf status s =
    (if status \<noteq> status_word OK \<or> load64 count_buf (heap s) \<noteq> RAW_BYTES then (False, s)
     else
       case assemble_x509_certificate tbs (Some (read_bytes sig_buf RAW_BYTES (heap s))) of
         None \<Rightarrow> (False, s\<lparr>certs := (certs s)[i := []]\<rparr>)
       | Some cert \<Rightarrow> (True, s\<lparr>certs := (certs s)[i := cert]\<rparr>))"

fun sign_body ::
    "'w probe_env \<Rightarrow> 'w crypto_api \<Rightarrow> nat \<Rightarrow> u8 list \<Rightarrow> u64 \<Rightarrow> (ptr \<times> nat) list \<Rightarrow> 'w step" where
  "sign_body env api i tbs key_len
     [(key_buf, key_slot), (point_buf, point_slot), (digest_buf, digest_slot), (sig_buf, sig_slot),
      (count_buf, count_slot)] s =
    (let s = put_bytes key_buf (take (unat key_len) (key_pkcs8 (keys s ! 0))) s;
         s = put_bytes point_buf (key_point (keys s ! 0)) s;
         s = put_bytes digest_buf (sha256_digest tbs) s
     in close_step api [count_slot, sig_slot, digest_slot, point_slot, key_slot] (update_key 0 wipe_private)
          (invoke_and_check env kCertificateEncodeSign (kSignSteps ! i) (status_word OK)
            (api_sign_digest api ABI_VERSION key_buf key_len point_buf POINT_BYTES
              digest_buf DIGEST_BYTES sig_buf RAW_BYTES count_buf)
            (keep_certificate i tbs sig_buf count_buf) s))"
| "sign_body env api i tbs key_len _ s = fail_all api s"

definition sign_step :: "'w probe_env \<Rightarrow> 'w crypto_api \<Rightarrow> nat \<Rightarrow> 'w step" where
  "sign_step env api i s =
    (case build_x509_tbs (kRoles ! i) (Some (serial_bytes i)) (Some (key_point (keys s ! i))) of
       None \<Rightarrow> fail_all api (stop_at (kSignSteps ! i) (- 1) ''ADMISSION_BLOCKED'' s)
     | Some tbs \<Rightarrow>
         let key_len = key_length (keys s ! 0)
         in with_buffers env api [key_len, POINT_BYTES, DIGEST_BYTES, RAW_BYTES, 8]
              (sign_body env api i tbs key_len) s)"

definition kVerifyValidSteps :: "string list" where
  "kVerifyValidSteps = [''verify_issuer_valid'', ''verify_server_valid'', ''verify_client_valid'']"

definition kVerifyTamperedSteps :: "string list" where
  "kVerifyTamperedSteps =
    [''verify_issuer_tampered'', ''verify_server_tampered'', ''verify_client_tampered'']"

definition tamper :: "bool \<Rightarrow> u8 list \<Rightarrow> u8 list" where
  "tamper tampered raw = (if tampered then raw[0 := raw ! 0 XOR 0x01] else raw)"

fun verify_body ::
    "'w probe_env \<Rightarrow> 'w crypto_api \<Rightarrow> bool \<Rightarrow> string \<Rightarrow> u8 list \<Rightarrow> u8 list \<Rightarrow> (ptr \<times> nat) list \<Rightarrow> 'w step" where
  "verify_body env api tampered step tbs raw
     [(point_buf, point_slot), (digest_buf, digest_slot), (sig_buf, sig_slot)] s =
    (let s = put_bytes point_buf (key_point (keys s ! 0)) s;
         s = put_bytes digest_buf (sha256_digest tbs) s;
         s = put_bytes sig_buf (tamper tampered raw) s
     in close_step api [sig_slot, digest_slot, point_slot] id
          (invoke_and_check env (if tampered then kVerifyNegative else kVerifyPositive) step
            (status_word (if tampered then VERIFICATION_REJECTED else OK))
            (api_verify_digest api ABI_VERSION point_buf POINT_BYTES digest_buf DIGEST_BYTES sig_buf RAW_BYTES)
            (\<lambda>_ s. (True, s)) s))"
| "verify_body env api tampered step tbs raw _ s = fail_all api s"

definition verify_step :: "'w probe_env \<Rightarrow> 'w crypto_api \<Rightarrow> bool \<Rightarrow> nat \<Rightarrow> 'w step" where
  "verify_step env api tampered i s =
    (let step = (if tampered then kVerifyTamperedSteps else kVerifyValidSteps) ! i;
         (parsed, tbs, raw) = extract_x509 (certs s ! i)
     in if \<not> parsed then fail_all api (stop_at step (- 1) ''ADMISSION_BLOCKED'' s)
        else with_buffers env api [POINT_BYTES, DIGEST_BYTES, RAW_BYTES]
               (verify_body env api tampered step tbs raw) s)"

text \<open>Step name, certificate, asked role, category and expected status.\<close>

definition policy_cases :: "(string \<times> nat \<times> u32 \<times> primitive_category \<times> u32) list" where
  "policy_cases =
    [(''policy_server_valid'', 1, 1, kPeerPolicyPositive, status_word OK),
     (''policy_client_valid'', 2, 2, kPeerPolicyPositive, status_word OK),
     (''policy_role_mismatch'', 1, 2, kPeerPolicyNegative, status_word VERIFICATION_REJECTED)]"

type_synonym policy_case = "string \<times> nat \<times> u32 \<times> primitive_category \<times> u32"

fun policy_body ::
    "'w probe_env \<Rightarrow> 'w crypto_api \<Rightarrow> policy_case \<Rightarrow> u8 list \<Rightarrow> (ptr \<times> nat) list \<Rightarrow> 'w step" where
  "policy_body env api (step, i, role, cat, expected) der [(der_buf, der_slot)] s =
    close_step api [der_slot] id
      (invoke_and_check env cat step expected
        (api_peer_policy api ABI_VERSION der_buf (of_nat (length der)) role) (\<lambda>_ s. (True, s))
        (put_bytes der_buf der s))"
| "policy_body env api asked der _ s = fail_all api s"

definition policy_step :: "'w probe_env \<Rightarrow> 'w crypto_api \<Rightarrow> policy_case \<Rightarrow> 'w step" where
  "policy_step env api asked s =
    (let der = certs s ! fst (snd asked)
     in with_buffers env api [of_nat (length der)] (policy_body env api asked der) s)"

section \<open>The sequence\<close>

fun all_steps :: "'w step list \<Rightarrow> 'w step" where
  "all_steps [] s = (True, s)"
| "all_steps (m # ms) s = (case m s of (ok, s) \<Rightarrow> if ok then all_steps ms s else (False, s))"

definition wipe_step :: "nat list \<Rightarrow> 'w step" where
  "wipe_step slots s = (True, fold (\<lambda>i. update_key i wipe_private) slots s)"

definition crypto_body :: "'w probe_env \<Rightarrow> 'w crypto_api \<Rightarrow> 'w step" where
  "crypto_body env api =
    all_steps
      ([abi_step env api]
       @ map (generate_step env api) [0, 1, 2]
       @ [wipe_step [1, 2]]
       @ map (sign_step env api) [0, 1, 2]
       @ [wipe_step [0]]
       @ map (verify_step env api False) [0, 1, 2]
       @ map (verify_step env api True) [0, 1, 2]
       @ map (policy_step env api) policy_cases
       @ [\<lambda>s. (True, release_all_remaining api s), observe env ''after_final_settlement''])"

text \<open>
  The exit code and the probe after the destructors: the key copies are wiped and the pool
  releases what is left.
\<close>

definition run_crypto_sequence ::
    "bool \<Rightarrow> 'w probe_env \<Rightarrow> 'w crypto_api \<Rightarrow> 'w probe \<Rightarrow> int \<times> 'w probe" where
  "run_crypto_sequence observed_build env api s =
    (let (ready, s) = observe env ''before_work'' s
     in if \<not> ready then (10, s)
        else
          let s = s\<lparr>pool := [], keys := replicate 3 empty_key, certs := replicate 3 []\<rparr>;
              (ok, s) = crypto_body env api s;
              code = (if ok \<and> verdict observed_build s = ''PASS'' then 0 else 10);
              s = s\<lparr>keys := map destroy_key (keys s)\<rparr>
          in (code, release_all_remaining api s))"

end
