(* ===== verification/Crypto_Contract.thy ===== *)
theory Crypto_Contract
  imports Crypto_Sequence
begin

text \<open>
  What the bounded sequence promises whatever its injected functions answer: the call
  budgets are never passed, the budget of the deallocator is never the reason a buffer is
  kept, and when the sequence is over the release of every buffer has been attempted
  exactly once.  The injected functions are only asked to leave the ledger's counters and
  the pool alone.
\<close>

section \<open>The part of the state that carries custody\<close>

definition ledger_view :: "crypto_ledger \<Rightarrow> u32 list \<times> u32 \<times> u32 \<times> u32 \<times> u32 \<times> u32" where
  "ledger_view l =
    (map attempted_n (abi_calls l), abi_attempted_total l, buffers_allocated l, buffers_live l,
     releases_succeeded l, releases_unknown l)"

definition holdings :: "'w probe \<Rightarrow> (u32 list \<times> u32 \<times> u32 \<times> u32 \<times> u32 \<times> u32) \<times> buffer_slot list" where
  "holdings s = (ledger_view (ledger s), pool s)"

definition innocent :: "('w probe \<Rightarrow> 'a \<times> 'w probe) \<Rightarrow> bool" where
  "innocent f \<longleftrightarrow> (\<forall>s. holdings (snd (f s)) = holdings s)"

lemma innocentD: "innocent f \<Longrightarrow> f s = (r, t) \<Longrightarrow> holdings t = holdings s"
  unfolding innocent_def by (metis snd_conv)

named_theorems holdings_simps \<open>operations that leave the holdings view alone\<close>

lemma count_abi_view [holdings_simps]:
  "(\<And>c. attempted_n (f c) = attempted_n c) \<Longrightarrow> ledger_view (count_abi i f l) = ledger_view l"
  by (cases "i < length (abi_calls l)")
    (simp_all add: ledger_view_def count_abi_def map_update list_update_same_conv list_update_beyond)

lemma ledger_stop_view [holdings_simps]: "ledger_view (ledger_stop step status code l) = ledger_view l"
  by (simp add: ledger_view_def ledger_stop_def Let_def)

lemma on_ledger_custody [holdings_simps]:
  "ledger_view (f (ledger s)) = ledger_view (ledger s) \<Longrightarrow> holdings (on_ledger f s) = holdings s"
  by (simp add: holdings_def on_ledger_def)

lemma world_custody [holdings_simps]: "holdings (s\<lparr>world := w\<rparr>) = holdings s"
  by (simp add: holdings_def)

lemma heap_custody [holdings_simps]: "holdings (s\<lparr>heap := m\<rparr>) = holdings s"
  by (simp add: holdings_def)

lemma check_clock_custody [holdings_simps]: "holdings (snd (check_clock env step s)) = holdings s"
proof -
  have "ledger_view (l\<lparr>last_ms := a, elapsed_ms := b\<rparr>) = ledger_view l"
    "ledger_view (bind_launch_origin a l) = ledger_view l" for l a b
    by (simp_all add: ledger_view_def bind_launch_origin_def)
  then show ?thesis
    by (simp add: check_clock_def Let_def holdings_def on_ledger_def ledger_stop_view
        split: option.splits prod.splits)
qed

lemma note_resources_view [holdings_simps]: "ledger_view (note_resources working commit handles l) = ledger_view l"
  by (simp add: ledger_view_def note_resources_def)

lemma resources_custody [holdings_simps]: "holdings (snd (resources working commit handles s)) = holdings s"
  by (simp add: resources_def Let_def holdings_simps)

lemma field_views [holdings_simps]:
  "ledger_view (l\<lparr>l_accepted := a\<rparr>) = ledger_view l"
  "ledger_view (l\<lparr>settlement_unknown := b\<rparr>) = ledger_view l"
  "ledger_view (l\<lparr>budget_rejections := a\<rparr>) = ledger_view l"
  "ledger_view (l\<lparr>duplicate_release_attempts := a\<rparr>) = ledger_view l"
  "ledger_view (l\<lparr>observation_attempts := a\<rparr>) = ledger_view l"
  "ledger_view (l\<lparr>observation_failures := a\<rparr>) = ledger_view l"
  "ledger_view (l\<lparr>releases_attempted := a\<rparr>) = ledger_view l"
  "ledger_view (l\<lparr>l_returned := a, returned_steps := c\<rparr>) = ledger_view l"
  "ledger_view (l\<lparr>attempted_steps := a, l_attempted := c\<rparr>) = ledger_view l"
  "ledger_view (l\<lparr>l_completed := a, completed_steps := c, l_successful := d\<rparr>) = ledger_view l"
  by (simp_all add: ledger_view_def)

lemma judge_call_custody [holdings_simps]:
  "holdings (judge_call cat step expected status shape s) = holdings s"
  by (simp add: judge_call_def judge_status_def holdings_simps split: option.split)

lemma returned_call_custody [holdings_simps]: "holdings (returned_call cat step s) = holdings s"
  by (simp add: returned_call_def Let_def holdings_simps)

lemma completed_call_custody [holdings_simps]: "holdings (completed_call cat step expected status s) = holdings s"
  unfolding completed_call_def by (rule on_ledger_custody) (simp only: field_views)

lemma observe_custody:
  assumes "\<And>f. sampler env = Some f \<Longrightarrow> innocent f"
  shows "holdings (snd (observe env stage s)) = holdings s"
proof -
  obtain ok t where c: "check_clock env stage s = (ok, t)" by (metis surj_pair)
  then have t: "holdings t = holdings s" using check_clock_custody [of env stage s] by simp
  define u where "u = on_ledger (\<lambda>l. l\<lparr>observation_attempts := observation_attempts l + 1\<rparr>) t"
  have u: "holdings u = holdings s" unfolding u_def t [symmetric] by (simp add: holdings_simps)
  obtain sampled v where v: "(case sampler env of None \<Rightarrow> (False, u) | Some f \<Rightarrow> f u) = (sampled, v)"
    by (metis surj_pair)
  then have v': "holdings v = holdings s"
    using assms innocentD u by (fastforce split: option.splits)
  have e: "observe env stage s =
      (if \<not> ok then (False, t)
       else if sampled then (\<not> l_stopped (ledger v), v)
       else let w = on_ledger (\<lambda>l. l\<lparr>observation_failures := observation_failures l + 1\<rparr>) v
            in (False, if failure_code (ledger w) = ''BUDGET_EXCEEDED'' then w
                       else stop_at ''resource_observation_failed'' (- 1) ''MEASUREMENT_UNAVAILABLE'' w))"
    unfolding observe_def c Let_def prod.case u_def [symmetric] v by (rule refl)
  show ?thesis
    unfolding e using t v' by (simp add: Let_def holdings_simps)
qed

section \<open>Budgets\<close>

definition abi_limits :: "u32 list" where
  "abi_limits = category_limits @ [kMaxAllocationAttempts, kMaxFreeAttempts]"

definition attempts :: "'w probe \<Rightarrow> u32 list" where
  "attempts s = map attempted_n (abi_calls (ledger s))"

definition within_budget :: "'w probe \<Rightarrow> bool" where
  "within_budget s \<longleftrightarrow>
    list_all2 (\<le>) (attempts s) abi_limits \<and>
    unat (abi_attempted_total (ledger s)) = sum_list (map unat (attempts s))"

lemma length_abi_limits [simp]: "length abi_limits = 7"
  by (simp add: abi_limits_def category_limits_def)

lemma sum_abi_limits: "sum_list (map unat abi_limits) = unat kMaxTotalAbiAttempts"
  by (simp add: abi_limits_def category_limits_def kMaxAllocationAttempts_def kMaxFreeAttempts_def
      kMaxTotalAbiAttempts_def)

lemma unat_next: "(a :: u32) < b \<Longrightarrow> unat (a + 1) = unat a + 1"
proof -
  assume "a < b"
  moreover have "unat b < 2 ^ 32" using unsigned_less [of b] by simp
  ultimately show ?thesis by (simp add: word_less_nat_alt unat_word_ariths)
qed

lemma sum_below:
  assumes "list_all2 (\<le>) xs (ys :: u32 list)"
  shows "sum_list (map unat xs) \<le> sum_list (map unat ys)"
  using assms by (induction rule: list_all2_induct) (auto simp: word_le_nat_alt)

lemma sum_strictly_below:
  assumes "list_all2 (\<le>) xs (ys :: u32 list)" and "i < length xs" and "xs ! i < ys ! i"
  shows "sum_list (map unat xs) < sum_list (map unat ys)"
  using assms
proof (induction arbitrary: i rule: list_all2_induct)
  case (Cons x xs y ys)
  then show ?case
    using sum_below [OF Cons.hyps(2)]
    by (cases i) (auto simp: word_le_nat_alt word_less_nat_alt intro: add_less_le_mono add_le_less_mono)
qed simp

lemma within_budget_total: "within_budget s \<Longrightarrow> abi_attempted_total (ledger s) \<le> kMaxTotalAbiAttempts"
  using sum_below [of "attempts s" abi_limits]
  by (simp add: within_budget_def word_le_nat_alt sum_abi_limits)

text \<open>Reserving succeeds exactly while the category has budget: the total never decides.\<close>

lemma reserve_in_budget:
  assumes b: "within_budget s" and i: "i < 7" and l: "attempts s ! i < abi_limits ! i"
  shows "\<exists>t. reserve_abi i (abi_limits ! i) s = (True, t) \<and> within_budget t \<and> pool t = pool s \<and>
    attempts t = (attempts s)[i := attempts s ! i + 1] \<and>
    snd (snd (ledger_view (ledger t))) = snd (snd (ledger_view (ledger s)))"
proof -
  have n: "length (abi_calls (ledger s)) = 7"
    using b by (auto simp: within_budget_def attempts_def dest: list_all2_lengthD)
  have a: "attempts s ! i = attempted_n (abi_calls (ledger s) ! i)" using i n by (simp add: attempts_def)
  have tot: "unat (abi_attempted_total (ledger s)) < unat kMaxTotalAbiAttempts"
    using b sum_strictly_below [of "attempts s" abi_limits i] i l n
    by (simp add: within_budget_def sum_abi_limits attempts_def)
  define t where "t = on_ledger (\<lambda>l. (count_abi i (\<lambda>c. c\<lparr>attempted_n := attempted_n c + 1\<rparr>) l)
             \<lparr>abi_attempted_total := abi_attempted_total l + 1\<rparr>) s"
  have r: "reserve_abi i (abi_limits ! i) s = (True, t)"
    using tot l a by (simp add: reserve_abi_def t_def Let_def not_le word_less_nat_alt)
  have u: "attempts t = (attempts s)[i := attempts s ! i + 1]"
    by (simp add: attempts_def t_def on_ledger_def count_abi_def map_update a n i)
  have up: "unat (attempts s ! i + 1) = unat (attempts s ! i) + 1"
    using l by (rule unat_next)
  have ut: "unat (abi_attempted_total (ledger s) + 1) = unat (abi_attempted_total (ledger s)) + 1"
    using tot by (simp add: kMaxTotalAbiAttempts_def unat_word_ariths)
  have "within_budget t"
    unfolding within_budget_def
  proof
    show "list_all2 (\<le>) (attempts t) abi_limits"
      using b l unfolding u within_budget_def
      using i by (auto simp: list_all2_conv_all_nth nth_list_update intro: inc_le)
    have "sum_list (map unat (attempts t)) = sum_list (map unat (attempts s)) + 1"
      unfolding u map_update using i n elem_le_sum_list [of i "map unat (attempts s)"]
      by (subst sum_list_update) (simp_all add: up [unfolded a] attempts_def)
    then show "unat (abi_attempted_total (ledger t)) = sum_list (map unat (attempts t))"
      using b ut by (simp add: within_budget_def t_def on_ledger_def)
  qed
  then show ?thesis
    using r u by (simp add: t_def on_ledger_def count_abi_def ledger_view_def)
qed

lemma reserve_over_budget:
  assumes "within_budget s" and "i < 7" and "\<not> attempts s ! i < abi_limits ! i"
  shows "\<exists>t. reserve_abi i (abi_limits ! i) s = (False, t) \<and> holdings t = holdings s"
proof -
  have "attempts s ! i = attempted_n (abi_calls (ledger s) ! i)"
    using assms(1,2) by (auto simp: within_budget_def attempts_def dest: list_all2_lengthD)
  then show ?thesis
    using assms(3) by (simp add: reserve_abi_def Let_def holdings_simps not_less)
qed

section \<open>The pool\<close>

text \<open>
  In a sound state every allocation attempt and every release attempt is accounted for: no
  more slots than allocation attempts, exactly one counted release per attempted slot, a
  release settled one way or the other, and the live count equal to the slots whose
  release has not succeeded.  A release is only left unknown where the deallocator \<open>throws\<close>.
\<close>

definition slot_settled :: "bool \<Rightarrow> buffer_slot \<Rightarrow> bool" where
  "slot_settled throws b \<longleftrightarrow>
    (throws \<or> \<not> release_unknown b) \<and> allocated_ever b \<and> (release_attempted b \<longleftrightarrow> release_succeeded b \<or> release_unknown b) \<and>
    \<not> (release_succeeded b \<and> release_unknown b)"

definition tally :: "('a \<Rightarrow> bool) \<Rightarrow> 'a list \<Rightarrow> nat" where
  "tally P xs = length (filter P xs)"

definition sound :: "bool \<Rightarrow> 'w probe \<Rightarrow> bool" where
  "sound throws s \<longleftrightarrow>
    within_budget s \<and> list_all (slot_settled throws) (pool s) \<and>
    length (pool s) \<le> unat (attempts s ! 5) \<and>
    unat (attempts s ! 6) = tally release_attempted (pool s) \<and>
    buffers_allocated (ledger s) = of_nat (length (pool s)) \<and>
    buffers_live (ledger s) = of_nat (tally (\<lambda>b. \<not> release_succeeded b) (pool s)) \<and>
    releases_succeeded (ledger s) = of_nat (tally release_succeeded (pool s)) \<and>
    releases_unknown (ledger s) = of_nat (tally release_unknown (pool s))"

lemma tally_append [simp]: "tally P (xs @ ys) = tally P xs + tally P ys"
  by (simp add: tally_def)

lemma tally_Cons: "tally P (x # xs) = (if P x then Suc (tally P xs) else tally P xs)"
  by (simp add: tally_def)

lemma tally_split:
  assumes "i < length xs"
  shows "tally P xs = tally P (take i xs) + (if P (xs ! i) then 1 else 0) + tally P (drop (Suc i) xs)"
  using arg_cong [OF id_take_nth_drop [OF assms], of "tally P"] by (simp add: tally_Cons)

lemma tally_split_update:
  assumes "i < length xs"
  shows "tally P (xs[i := y]) = tally P (take i xs) + (if P y then 1 else 0) + tally P (drop (Suc i) xs)"
  using assms by (simp add: upd_conv_take_nth_drop tally_Cons)

lemma tally_update:
  "i < length xs \<Longrightarrow> \<not> P (xs ! i) \<Longrightarrow> P y \<Longrightarrow> tally P (xs[i := y]) = Suc (tally P xs)"
  "i < length xs \<Longrightarrow> P (xs ! i) \<Longrightarrow> \<not> P y \<Longrightarrow> Suc (tally P (xs[i := y])) = tally P xs"
  "i < length xs \<Longrightarrow> P y = P (xs ! i) \<Longrightarrow> tally P (xs[i := y]) = tally P xs"
  by (simp_all add: tally_split_update tally_split [of i xs P])

lemma tally_less: "i < length xs \<Longrightarrow> \<not> P (xs ! i) \<Longrightarrow> tally P xs < length xs"
  unfolding tally_def by (rule length_filter_less) auto

lemma holdings_fields:
  assumes "holdings t = holdings s"
  shows "attempts t = attempts s" "pool t = pool s" "abi_attempted_total (ledger t) = abi_attempted_total (ledger s)"
    "buffers_allocated (ledger t) = buffers_allocated (ledger s)" "buffers_live (ledger t) = buffers_live (ledger s)"
    "releases_succeeded (ledger t) = releases_succeeded (ledger s)"
    "releases_unknown (ledger t) = releases_unknown (ledger s)"
  using assms by (auto simp: holdings_def ledger_view_def attempts_def)

lemma holdings_sound: "holdings t = holdings s \<Longrightarrow> sound throws t = sound throws s"
  using holdings_fields [of t s] by (simp add: sound_def within_budget_def)

lemma tally_length: "tally P xs \<le> length xs"
  by (simp add: tally_def)

lemma pool_fits: "sound throws s \<Longrightarrow> length (pool s) \<le> 45"
proof -
  assume s: "sound throws s"
  then have "attempts s ! 5 \<le> abi_limits ! 5"
    by (auto simp: sound_def within_budget_def list_all2_conv_all_nth)
  then have "unat (attempts s ! 5) \<le> 45"
    by (simp add: abi_limits_def category_limits_def kMaxAllocationAttempts_def word_le_nat_alt nth_Cons_numeral)
  then show ?thesis using s by (simp add: sound_def)
qed

lemma pending_slot:
  assumes "sound throws s" and "i < length (pool s)" and "\<not> release_attempted (pool s ! i)"
  shows "allocated_ever (pool s ! i)" "\<not> release_succeeded (pool s ! i)" "\<not> release_unknown (pool s ! i)"
  using assms by (auto simp: sound_def list_all_length slot_settled_def)

text \<open>The budget of the deallocator covers every slot that is still pending.\<close>

lemma pending_release_has_budget:
  assumes "sound throws s" and "i < length (pool s)" and "\<not> release_attempted (pool s ! i)"
  shows "attempts s ! 6 < abi_limits ! 6"
proof -
  have "tally release_attempted (pool s) < 45"
    using tally_less [OF assms(2), of release_attempted] assms(3) pool_fits [OF assms(1)] by simp
  then show ?thesis
    using assms(1)
    by (simp add: sound_def abi_limits_def category_limits_def kMaxFreeAttempts_def word_less_nat_alt nth_Cons_numeral)
qed

lemma sound_after_release:
  assumes s: "sound throws s" and i: "i < length (pool s)" and n: "\<not> release_attempted (pool s ! i)"
    and t: "within_budget t" "pool t = (pool s)[i := b]" "attempts t = (attempts s)[6 := attempts s ! 6 + 1]"
    and b: "allocated_ever b" "release_attempted b" "release_succeeded b \<noteq> release_unknown b"
      "throws \<or> \<not> release_unknown b"
    and a: "buffers_allocated (ledger t) = buffers_allocated (ledger s)"
    and l: "buffers_live (ledger t) = (if release_succeeded b then buffers_live (ledger s) - 1 else buffers_live (ledger s))"
    and c: "releases_succeeded (ledger t) =
        (if release_succeeded b then releases_succeeded (ledger s) + 1 else releases_succeeded (ledger s))"
      "releases_unknown (ledger t) =
        (if release_unknown b then releases_unknown (ledger s) + 1 else releases_unknown (ledger s))"
  shows "sound throws t"
proof -
  note p = pending_slot [OF s i n]
  have len: "length (attempts s) = 7"
    using s by (auto simp: sound_def within_budget_def dest: list_all2_lengthD)
  have "list_all (slot_settled throws) (pool t)"
    using s b i by (auto simp: t(2) sound_def slot_settled_def list_all_length nth_list_update)
  moreover have "length (pool t) \<le> unat (attempts t ! 5)"
    using s by (simp add: t sound_def)
  moreover have "unat (attempts t ! 6) = tally release_attempted (pool t)"
    using s unat_next [OF pending_release_has_budget [OF s i n]]
      tally_update(1) [OF i, of release_attempted b] n b(2) len
    by (simp add: t sound_def)
  moreover have "buffers_allocated (ledger t) = of_nat (length (pool t))"
    using s by (simp add: a t(2) sound_def)
  moreover have "buffers_live (ledger t) = of_nat (tally (\<lambda>b. \<not> release_succeeded b) (pool t))"
  proof (cases "release_succeeded b")
    case True
    then have "Suc (tally (\<lambda>b. \<not> release_succeeded b) (pool t)) = tally (\<lambda>b. \<not> release_succeeded b) (pool s)"
      using tally_update(2) [OF i, of "\<lambda>b. \<not> release_succeeded b" b] p by (simp add: t(2))
    then have "buffers_live (ledger s) = of_nat (tally (\<lambda>b. \<not> release_succeeded b) (pool t)) + 1"
      using s by (metis sound_def of_nat_Suc add.commute)
    then show ?thesis using True l by simp
  next
    case False
    then show ?thesis
      using s p l tally_update(3) [OF i, of "\<lambda>b. \<not> release_succeeded b" b] by (simp add: t(2) sound_def)
  qed
  moreover have "releases_succeeded (ledger t) = of_nat (tally release_succeeded (pool t))"
    using s p c(1) tally_update(1,3) [OF i, of release_succeeded b]
    by (cases "release_succeeded b") (simp_all add: t(2) sound_def)
  moreover have "releases_unknown (ledger t) = of_nat (tally release_unknown (pool t))"
    using s p c(2) tally_update(1,3) [OF i, of release_unknown b]
    by (cases "release_unknown b") (simp_all add: t(2) sound_def)
  ultimately show ?thesis using t(1) by (simp add: sound_def)
qed

lemma counted_attempts:
  "(\<And>c. attempted_n (f c) = attempted_n c) \<Longrightarrow> map attempted_n (abi_calls (count_abi i f l)) = map attempted_n (abi_calls l)"
  using count_abi_view [of f i l] by (simp add: ledger_view_def)

lemma count_abi_fields [simp]:
  "abi_attempted_total (count_abi i f l) = abi_attempted_total l"
  "buffers_allocated (count_abi i f l) = buffers_allocated l"
  "buffers_live (count_abi i f l) = buffers_live l"
  "releases_succeeded (count_abi i f l) = releases_succeeded l"
  "releases_unknown (count_abi i f l) = releases_unknown l"
  by (simp_all add: count_abi_def)

lemma stop_fields [simp]:
  "abi_calls (ledger_stop step status code l) = abi_calls l"
  "abi_attempted_total (ledger_stop step status code l) = abi_attempted_total l"
  "buffers_allocated (ledger_stop step status code l) = buffers_allocated l"
  "buffers_live (ledger_stop step status code l) = buffers_live l"
  "releases_succeeded (ledger_stop step status code l) = releases_succeeded l"
  "releases_unknown (ledger_stop step status code l) = releases_unknown l"
  by (simp_all add: ledger_stop_def Let_def)

lemma sound_after_reserve:
  assumes s: "sound throws s" and j: "j < 6"
    and t: "within_budget t" "pool t = pool s" "attempts t = (attempts s)[j := attempts s ! j + 1]"
      "snd (snd (ledger_view (ledger t))) = snd (snd (ledger_view (ledger s)))"
    and l: "attempts s ! j < abi_limits ! j"
  shows "sound throws t"
proof -
  have len: "length (attempts s) = 7"
    using s by (auto simp: sound_def within_budget_def dest: list_all2_lengthD)
  have "length (pool t) \<le> unat (attempts t ! 5)"
    using s len unat_next [OF l] by (cases "j = 5") (simp_all add: t sound_def)
  then show ?thesis
    using s j t(1,4) by (simp add: sound_def t(2,3) ledger_view_def)
qed

lemma sound_after_allocation:
  assumes s: "sound throws s" and l: "attempts s ! 5 < abi_limits ! 5"
    and t: "within_budget t" "pool t = pool s @ [b]" "attempts t = (attempts s)[5 := attempts s ! 5 + 1]"
    and b: "slot_settled throws b" "\<not> release_attempted b"
    and c: "buffers_allocated (ledger t) = buffers_allocated (ledger s) + 1"
      "buffers_live (ledger t) = buffers_live (ledger s) + 1"
      "releases_succeeded (ledger t) = releases_succeeded (ledger s)"
      "releases_unknown (ledger t) = releases_unknown (ledger s)"
  shows "sound throws t"
proof -
  have len: "length (attempts s) = 7"
    using s by (auto simp: sound_def within_budget_def dest: list_all2_lengthD)
  have n: "\<not> release_succeeded b" "\<not> release_unknown b"
    using b by (auto simp: slot_settled_def)
  show ?thesis
    using s b n len unat_next [OF l] by (simp add: sound_def t c tally_Cons) (simp add: tally_def)
qed

lemma reserve_category_view: "reserve_category cat l = Some l' \<Longrightarrow> ledger_view l' = ledger_view l"
  by (cases cat) (auto simp: ledger_view_def split: if_splits)

lemma category_limit: "abi_limits ! category_index cat = category_limits ! category_index cat"
  by (cases cat) (simp_all add: abi_limits_def category_limits_def nth_Cons_numeral)

lemma category_index_less: "category_index cat < 5"
  by (cases cat) simp_all

section \<open>Lawful environments\<close>

text \<open>
  What the injected functions are asked for: they answer what they like, change memory, the
  observer and their own world, and leave the ledger's counters and the pool alone.
\<close>

locale lawful_probe =
  fixes env :: "'w probe_env" and api :: "'w crypto_api" and throws :: bool
  assumes sampler_innocent: "sampler env = Some take_sample \<Longrightarrow> innocent take_sample"
    and abi_innocent: "innocent (api_abi api)"
    and allocate_innocent: "api_allocate api = Some alloc \<Longrightarrow> innocent (alloc capacity)"
    and deallocate_innocent: "api_deallocate api = Some free \<Longrightarrow> innocent (free p)"
    and generate_innocent: "innocent (api_generate_key api v a n b c m d)"
    and sign_innocent: "innocent (api_sign_digest api v a n b m c l d k e)"
    and verify_innocent: "innocent (api_verify_digest api v a n b m c l)"
    and policy_innocent: "innocent (api_peer_policy api v a n r)"
    and deallocate_returns: "\<not> throws \<Longrightarrow> \<exists>free. api_deallocate api = Some free \<and> (\<forall>p s. fst (free p s))"
begin

lemma observe_custody' [holdings_simps]: "holdings (snd (observe env stage s)) = holdings s"
  by (rule observe_custody) (rule sampler_innocent)

lemma release_pending:
  assumes s: "sound throws s" and i: "i < length (pool s)" and n: "\<not> release_attempted (pool s ! i)"
  shows "sound throws (snd (pool_release api i s))"
    and "\<exists>b. release_attempted b \<and> pool (snd (pool_release api i s)) = (pool s)[i := b]"
proof -
  note p = pending_slot [OF s i n]
  define b1 where "b1 = (pool s ! i)\<lparr>release_attempted := True\<rparr>"
  define s1 where "s1 = update_slot i (\<lambda>b. b\<lparr>release_attempted := True\<rparr>) s"
  have s1: "attempts s1 = attempts s" "pool s1 = (pool s)[i := b1]" "ledger s1 = ledger s"
    by (simp_all add: s1_def update_slot_def attempts_def b1_def)
  have w: "within_budget s1" using s by (simp add: sound_def within_budget_def s1)
  have lim: "abi_limits ! 6 = kMaxFreeAttempts"
    by (simp add: abi_limits_def category_limits_def nth_Cons_numeral)
  obtain t1 where r: "reserve_abi 6 kMaxFreeAttempts s1 = (True, t1)"
    and t1: "within_budget t1" "pool t1 = pool s1" "attempts t1 = (attempts s)[6 := attempts s ! 6 + 1]"
      "snd (snd (ledger_view (ledger t1))) = snd (snd (ledger_view (ledger s)))"
    using reserve_in_budget [OF w, of 6] pending_release_has_budget [OF s i n] by (auto simp: lim s1)
  define t2 where "t2 = on_ledger (\<lambda>l. l\<lparr>releases_attempted := releases_attempted l + 1\<rparr>) t1"
  define t3 where "t3 = t2\<lparr>heap := zero_mem (slot_ptr (pool t2 ! i)) (slot_capacity (pool t2 ! i)) (heap t2)\<rparr>"
  obtain freed u where u: "(case api_deallocate api of None \<Rightarrow> (False, t3)
      | Some free \<Rightarrow> free (slot_ptr (pool t2 ! i)) t3) = (freed, u)"
    by (metis surj_pair)
  have returns: "throws \<or> freed"
    using u deallocate_returns by (cases throws) (auto, metis fst_conv)
  have "holdings t3 = holdings t1" by (simp add: t3_def t2_def holdings_simps)
  moreover have "holdings u = holdings t3"
    using u deallocate_innocent innocentD by (fastforce split: option.splits)
  ultimately have uc: "holdings u = holdings t1" by simp
  note uf = holdings_fields [OF uc]
  have ub: "within_budget u" using t1(1) by (simp add: within_budget_def uf)
  have v: "buffers_allocated (ledger u) = buffers_allocated (ledger s)"
    "buffers_live (ledger u) = buffers_live (ledger s)"
    "releases_succeeded (ledger u) = releases_succeeded (ledger s)"
    "releases_unknown (ledger u) = releases_unknown (ledger s)"
    using t1(4) by (simp_all add: uf ledger_view_def)
  have live: "buffers_live (ledger s) \<noteq> 0"
  proof -
    have "tally (\<lambda>b. \<not> release_succeeded b) (pool s) \<noteq> 0"
      using tally_split [OF i, of "\<lambda>b. \<not> release_succeeded b"] p(2) by simp
    moreover have "tally (\<lambda>b. \<not> release_succeeded b) (pool s) \<le> 45"
      using tally_length pool_fits [OF s] by (rule le_trans)
    ultimately have "(of_nat (tally (\<lambda>b. \<not> release_succeeded b) (pool s)) :: u32) \<noteq> 0"
      by (simp add: word_of_nat_eq_0_iff nat_dvd_not_less)
    then show ?thesis using s by (simp add: sound_def)
  qed
  have pu: "pool u ! i = b1" "pool u = (pool s)[i := b1]" using uf(2) t1(2) s1(2) i by simp_all
  have known: "(length (pool s) \<le> i \<or> \<not> allocated_ever (pool s ! i)) = False"
    "release_attempted (pool s ! i) = False"
    using i n p(1) by simp_all
  have run: "pool_release api i s =
      (if freed then
         (True,
          on_ledger (\<lambda>l. (count_abi 6 (\<lambda>c. c\<lparr>returned_n := returned_n c + 1,
                accepted_n := accepted_n c + 1, settled_n := settled_n c + 1\<rparr>) l)
              \<lparr>releases_succeeded := releases_succeeded l + 1,
               buffers_live := (if 0 < buffers_live l then buffers_live l - 1 else buffers_live l)\<rparr>)
            (update_slot i (\<lambda>b. b\<lparr>slot_ptr := 0, slot_active := False, release_succeeded := True\<rparr>) u))
       else
         (False,
          stop_at ''buffer_release_unknown'' (- 1) ''SETTLEMENT_UNKNOWN''
            (on_ledger (\<lambda>l. (count_abi 6 (\<lambda>c. c\<lparr>unknown_n := unknown_n c + 1\<rparr>) l)
                \<lparr>releases_unknown := releases_unknown l + 1\<rparr>)
              (update_slot i (\<lambda>b. b\<lparr>release_unknown := True\<rparr>) u))))"
    by (simp only: pool_release_def Let_def s1_def [symmetric] r prod.case t2_def [symmetric]
        t3_def [symmetric] u known simp_thms if_True if_False)
  show "sound throws (snd (pool_release api i s))"
  proof (cases freed)
    case True
    show ?thesis
      unfolding run using True ub v live i
      by (intro sound_after_release [OF s i n, where b = "b1\<lparr>slot_ptr := 0, slot_active := False, release_succeeded := True\<rparr>"])
        (simp_all add: within_budget_def on_ledger_def update_slot_def counted_attempts attempts_def pu p
          uf(1) [unfolded attempts_def] t1(3) [unfolded attempts_def] b1_def count_abi_fields word_gt_0)
  next
    case False
    show ?thesis
      unfolding run using False ub v i returns
      by (intro sound_after_release [OF s i n, where b = "b1\<lparr>release_unknown := True\<rparr>"])
        (simp_all add: within_budget_def on_ledger_def update_slot_def counted_attempts attempts_def pu p
          uf(1) [unfolded attempts_def] t1(3) [unfolded attempts_def] b1_def count_abi_fields stop_fields)
  qed
  show "\<exists>b. release_attempted b \<and> pool (snd (pool_release api i s)) = (pool s)[i := b]"
  proof (cases freed)
    case True
    then show ?thesis unfolding run
      by (intro exI [of _ "b1\<lparr>slot_ptr := 0, slot_active := False, release_succeeded := True\<rparr>"])
        (simp add: on_ledger_def update_slot_def pu b1_def i)
  next
    case False
    then show ?thesis unfolding run
      by (intro exI [of _ "b1\<lparr>release_unknown := True\<rparr>"]) (simp add: on_ledger_def update_slot_def pu b1_def i)
  qed
qed

lemma release_sound:
  assumes s: "sound throws s"
  shows "sound throws (snd (pool_release api i s))"
proof -
  consider "length (pool s) \<le> i" | "i < length (pool s)" "release_attempted (pool s ! i)"
    | "i < length (pool s)" "\<not> release_attempted (pool s ! i)"
    by fastforce
  then show ?thesis
  proof cases
    case 1
    then have "holdings (snd (pool_release api i s)) = holdings s"
      by (simp add: pool_release_def holdings_simps)
    then show ?thesis using s holdings_sound by blast
  next
    case 2
    then have "allocated_ever (pool s ! i)"
      using s by (simp add: sound_def list_all_length slot_settled_def)
    then have "holdings (snd (pool_release api i s)) = holdings s"
      using 2 by (simp add: pool_release_def holdings_simps)
    then show ?thesis using s holdings_sound by blast
  next
    case 3
    then show ?thesis using release_pending(1) [OF s] by blast
  qed
qed

lemma release_in_turn_sound: "sound throws s \<Longrightarrow> sound throws (snd (release_in_turn api slots s))"
proof (induction slots arbitrary: s)
  case (Cons i slots)
  have "sound throws (snd (release_in_turn api slots (snd (pool_release api i s))))"
    by (rule Cons.IH) (rule release_sound [OF Cons.prems])
  then show ?case by (simp add: case_prod_unfold)
qed simp

text \<open>The destructor's loop leaves no slot whose release was not attempted.\<close>

lemma release_loop:
  assumes "sound throws s" and "k \<le> length (pool s)"
    and "\<And>j. k \<le> j \<Longrightarrow> j < length (pool s) \<Longrightarrow> release_attempted (pool s ! j)"
  shows "sound throws (fold (\<lambda>i s. if allocated_ever (pool s ! i) \<and> \<not> release_attempted (pool s ! i)
                then snd (pool_release api i s) else s) (rev [0..<k]) s) \<and>
    list_all release_attempted (pool (fold (\<lambda>i s. if allocated_ever (pool s ! i) \<and> \<not> release_attempted (pool s ! i)
                then snd (pool_release api i s) else s) (rev [0..<k]) s))"
  using assms
proof (induction k arbitrary: s)
  case 0
  then show ?case by (simp add: list_all_length)
next
  case (Suc k)
  have k: "k < length (pool s)" using Suc.prems(2) by simp
  show ?case
  proof (cases "release_attempted (pool s ! k)")
    case True
    then have "release_attempted (pool s ! j)" if "k \<le> j" "j < length (pool s)" for j
      using that Suc.prems(3) [of j] by (cases "j = k") auto
    then show ?thesis using Suc.IH [of s] Suc.prems(1) True k by simp
  next
    case False
    note r = release_pending [OF Suc.prems(1) k False]
    obtain b where b: "release_attempted b" "pool (snd (pool_release api k s)) = (pool s)[k := b]"
      using r(2) by blast
    have "release_attempted (pool (snd (pool_release api k s)) ! j)"
      if "k \<le> j" "j < length (pool (snd (pool_release api k s)))" for j
      using that b Suc.prems(3) [of j] by (cases "j = k") (auto simp: b(2))
    then show ?thesis
      using Suc.IH [OF r(1)] False k pending_slot(1) [OF Suc.prems(1) k False] b(2) by simp
  qed
qed

lemma release_all_sound:
  assumes "sound throws s"
  shows "sound throws (release_all_remaining api s)" "list_all release_attempted (pool (release_all_remaining api s))"
  using release_loop [OF assms order_refl] by (simp_all add: release_all_remaining_def)

lemma allocate_sound:
  assumes s: "sound throws s"
  shows "sound throws (snd (snd (snd (pool_allocate env api capacity s))))"
proof (cases "l_stopped (ledger s) \<or> capacity = 0 \<or> MAX_BYTES < capacity \<or> kMaxSlots \<le> length (pool s) \<or>
        kMaxLiveBuffers \<le> buffers_live (ledger s) \<or> api_allocate api = None")
  case True
  then have "holdings (snd (snd (snd (pool_allocate env api capacity s)))) = holdings s"
    by (simp only: pool_allocate_def if_True snd_conv holdings_simps)
  then show ?thesis using s holdings_sound by blast
next
  case go: False
  then obtain alloc where al: "api_allocate api = Some alloc" by auto
  then have the_alloc: "the (api_allocate api) = alloc" by simp
  obtain in_time s1 where c: "check_clock env ''buffer_alloc'' s = (in_time, s1)" by (metis surj_pair)
  have c1: "holdings s1 = holdings s" using check_clock_custody [of env "''buffer_alloc''" s] c by simp
  then have s1: "sound throws s1" using s holdings_sound by blast
  have lim: "abi_limits ! 5 = kMaxAllocationAttempts"
    by (simp add: abi_limits_def category_limits_def nth_Cons_numeral)
  have w: "within_budget s1" using s1 by (simp add: sound_def)
  note run = pool_allocate_def if_not_P [OF go] c prod.case Let_def
  show ?thesis
  proof (cases in_time)
    case False
    then show ?thesis using s1 by (simp add: run)
  next
    case time: True
    show ?thesis
    proof (cases "attempts s1 ! 5 < abi_limits ! 5")
      case False
      then obtain t where "reserve_abi 5 kMaxAllocationAttempts s1 = (False, t)" "holdings t = holdings s1"
        using reserve_over_budget [OF w, of 5] by (auto simp: lim)
      then show ?thesis using s1 time holdings_sound [of t s1] by (simp add: run)
    next
      case l: True
      then obtain t where r: "reserve_abi 5 kMaxAllocationAttempts s1 = (True, t)"
        and t: "within_budget t" "pool t = pool s1" "attempts t = (attempts s1)[5 := attempts s1 ! 5 + 1]"
          "snd (snd (ledger_view (ledger t))) = snd (snd (ledger_view (ledger s1)))"
        using reserve_in_budget [OF w, of 5] by (auto simp: lim)
      have ts: "sound throws t" by (rule sound_after_reserve [OF s1 _ t l]) simp
      obtain m u where u: "alloc capacity t = (m, u)" by (metis surj_pair)
      have uc: "holdings u = holdings t" by (rule innocentD [OF allocate_innocent [OF al] u])
      then have us: "sound throws u" using ts holdings_sound by blast
      consider "m = None" | "m = Some 0" | p where "m = Some p" "p \<noteq> 0" by (cases m) auto
      then show ?thesis
      proof cases
        case 1
        then have "holdings (snd (snd (snd (pool_allocate env api capacity s)))) = holdings u"
          using time by (simp add: run r the_alloc u holdings_simps)
        then show ?thesis using us holdings_sound by blast
      next
        case 2
        then have "holdings (snd (snd (snd (pool_allocate env api capacity s)))) = holdings u"
          using time by (simp add: run r the_alloc u holdings_simps)
        then show ?thesis using us holdings_sound by blast
      next
        case 3
        define v where "v = on_ledger (count_abi 5 (\<lambda>c. c\<lparr>accepted_n := accepted_n c + 1\<rparr>))
          (on_ledger (count_abi 5 (\<lambda>c. c\<lparr>returned_n := returned_n c + 1, settled_n := settled_n c + 1\<rparr>)) u)"
        define b where "b = \<lparr>slot_ptr = p, slot_capacity = capacity, allocated_ever = True,
           slot_active = True, release_attempted = False, release_succeeded = False, release_unknown = False\<rparr>"
        have vc: "holdings v = holdings t" unfolding v_def uc [symmetric] by (simp add: holdings_simps)
        have e: "snd (snd (snd (pool_allocate env api capacity s))) =
          on_ledger (\<lambda>l. l\<lparr>buffers_allocated := buffers_allocated l + 1, buffers_live := buffers_live l + 1\<rparr>)
            (v\<lparr>heap := zero_mem p capacity (heap v), pool := pool v @ [b]\<rparr>)"
          using 3 time by (simp add: run r the_alloc u v_def b_def)
        note f = holdings_fields [OF vc]
        show ?thesis
          unfolding e
          by (rule sound_after_allocation [OF s1 l, where b = b])
            (use f t in \<open>simp_all add: on_ledger_def within_budget_def attempts_def ledger_view_def del: map_map\<close>,
             simp_all add: b_def slot_settled_def)
      qed
    qed
  qed
qed

lemma allocate_all_sound: "sound throws s \<Longrightarrow> sound throws (snd (allocate_all env api cs s))"
proof (induction cs arbitrary: s)
  case (Cons c cs)
  have "sound throws (snd (allocate_all env api cs (snd (snd (snd (pool_allocate env api c s))))))"
    by (rule Cons.IH) (rule allocate_sound [OF Cons.prems])
  then show ?case
    using allocate_sound [OF Cons.prems, of c]
    by (simp add: case_prod_unfold split: bool.split option.split)
qed simp

lemma invoke_sound:
  assumes s: "sound throws s" and c: "innocent call" and h: "\<And>status. innocent (shape status)"
  shows "sound throws (snd (invoke_and_check env cat step expected call shape s))"
proof (cases "l_stopped (ledger s)")
  case True
  then show ?thesis using s by (simp add: invoke_and_check_def)
next
  case go: False
  obtain in_time s1 where c1: "check_clock env step s = (in_time, s1)" by (metis surj_pair)
  have s1: "sound throws s1"
    using s holdings_sound check_clock_custody [of env step s] c1 by (metis snd_conv)
  show ?thesis
  proof (cases "in_time \<and> reserve_category cat (ledger s1) \<noteq> None")
    case False
    then have "holdings (snd (invoke_and_check env cat step expected call shape s)) = holdings s1"
      using go by (auto simp: invoke_and_check_def c1 holdings_simps split: option.split)
    then show ?thesis using s1 holdings_sound by blast
  next
    case True
    then obtain l where l: "reserve_category cat (ledger s1) = Some l" and time: in_time by auto
    define s2 where "s2 = s1\<lparr>ledger := l\<rparr>"
    have "holdings s2 = holdings s1"
      using reserve_category_view [OF l] by (simp add: s2_def holdings_def)
    then have s2: "sound throws s2" using s1 holdings_sound by blast
    then have w: "within_budget s2" by (simp add: sound_def)
    let ?i = "category_index cat"
    have i: "?i < 7" "?i < 6" using category_index_less [of cat] by simp_all
    have start: "invoke_and_check env cat step expected call shape s =
      (let (reserved, t) = reserve_abi ?i (abi_limits ! ?i) s2
       in if \<not> reserved then (False, t)
          else
            case call (on_ledger (\<lambda>l. l\<lparr>attempted_steps := attempted_steps l OR step_bit step,
                                l_attempted := l_attempted l + 1\<rparr>) t) of
              (None, u) \<Rightarrow>
                (False, snd (observe env step (stop_at step (- 1) ''SETTLEMENT_UNKNOWN''
                    (on_ledger (count_abi ?i (\<lambda>c. c\<lparr>unknown_n := unknown_n c + 1\<rparr>)) u))))
            | (Some status, u) \<Rightarrow>
                let (ok, v) = check_clock env step (returned_call cat step u)
                in if \<not> ok then (False, snd (observe env step v))
                   else let (valid, v) = shape status v
                        in observe env step (judge_call cat step expected status valid
                             (completed_call cat step expected status v)))"
      using go time
      by (simp only: invoke_and_check_def c1 l s2_def [symmetric] category_limit Let_def prod.case option.case
          if_False simp_thms)
    show ?thesis
    proof (cases "attempts s2 ! ?i < abi_limits ! ?i")
      case False
      then obtain t where "reserve_abi ?i (abi_limits ! ?i) s2 = (False, t)" "holdings t = holdings s2"
        using reserve_over_budget [OF w i(1)] by auto
      then show ?thesis using s2 holdings_sound [of t s2] by (simp add: start)
    next
      case lt: True
      obtain t where r: "reserve_abi ?i (abi_limits ! ?i) s2 = (True, t)"
        and t: "within_budget t" "pool t = pool s2" "attempts t = (attempts s2)[?i := attempts s2 ! ?i + 1]"
          "snd (snd (ledger_view (ledger t))) = snd (snd (ledger_view (ledger s2)))"
        using reserve_in_budget [OF w i(1) lt] by auto
      have ts: "sound throws t" by (rule sound_after_reserve [OF s2 i(2) t lt])
      define t1 where "t1 = on_ledger (\<lambda>l. l\<lparr>attempted_steps := attempted_steps l OR step_bit step,
                                l_attempted := l_attempted l + 1\<rparr>) t"
      obtain m u where u: "call t1 = (m, u)" by (metis surj_pair)
      have "holdings u = holdings t"
        using innocentD [OF c u] by (simp add: t1_def holdings_simps)
      then have us: "sound throws u" using ts holdings_sound by blast
      have "holdings (snd (invoke_and_check env cat step expected call shape s)) = holdings u"
      proof (cases m)
        case None
        then show ?thesis by (simp add: start r t1_def [symmetric] u holdings_simps)
      next
        case (Some status)
        obtain ok v where v: "check_clock env step (returned_call cat step u) = (ok, v)" by (metis surj_pair)
        then have vc: "holdings v = holdings u"
          using check_clock_custody [of env step "returned_call cat step u"] by (simp add: holdings_simps)
        obtain valid x where x: "shape status v = (valid, x)" by (metis surj_pair)
        have "holdings x = holdings u" using innocentD [OF h x] vc by simp
        then show ?thesis
          using vc by (simp add: start r t1_def [symmetric] u Some v x holdings_simps)
      qed
      then show ?thesis using us holdings_sound by blast
    qed
  qed
qed

lemma fail_all_sound: "sound throws s \<Longrightarrow> sound throws (snd (fail_all api s))"
  by (simp add: fail_all_def release_all_sound(1))

lemma moves_sound [simp]:
  "sound throws (put_bytes p bs s) = sound throws s" "sound throws (update_key i f s) = sound throws s"
  "sound throws (stop_at step status code s) = sound throws s"
  by (rule holdings_sound, simp add: put_bytes_def update_key_def holdings_def on_ledger_def ledger_stop_view)+

lemma kept_shapes [intro]:
  "innocent (\<lambda>s. (b, s))" "innocent (keep_generated i k p c status)" "innocent (keep_certificate i tbs g c status)"
  by (auto simp: innocent_def keep_generated_def keep_certificate_def update_key_def holdings_def Let_def
      split: option.split)

lemma abi_step_sound: "sound throws s \<Longrightarrow> sound throws (snd (abi_step env api s))"
  unfolding abi_step_def by (intro invoke_sound abi_innocent kept_shapes)

text \<open>
  Every step allocates, calls and releases; a sound state after the allocations leads to a
  sound state whichever way the step ends.
\<close>

lemma with_buffers_sound:
  assumes "sound throws s" and "\<And>buffers t. sound throws t \<Longrightarrow> sound throws (snd (body buffers t))"
  shows "sound throws (snd (with_buffers env api capacities body s))"
  using allocate_all_sound [OF assms(1), of capacities] assms(2) fail_all_sound
  by (auto simp: with_buffers_def split: prod.split option.split)

lemma close_step_sound:
  assumes "sound throws (snd r)" and "\<And>t. sound throws t \<Longrightarrow> sound throws (f t)"
  shows "sound throws (snd (close_step api slots f r))"
  using release_in_turn_sound [OF assms(1), of slots] assms(2) fail_all_sound
  by (auto simp: close_step_def split: prod.split)

lemma generate_step_sound:
  assumes "sound throws s"
  shows "sound throws (snd (generate_step env api i s))"
  unfolding generate_step_def
proof (rule with_buffers_sound [OF assms])
  fix buffers and t :: "'w probe"
  assume "sound throws t"
  then show "sound throws (snd (generate_body env api i buffers t))"
    by (cases "(env, api, i, buffers, t)" rule: generate_body.cases)
      (auto intro!: close_step_sound invoke_sound generate_innocent kept_shapes fail_all_sound)
qed

lemma sign_step_sound:
  assumes "sound throws s"
  shows "sound throws (snd (sign_step env api i s))"
proof -
  have "sound throws (snd (sign_body env api i tbs key_len buffers t))" if "sound throws t" for tbs key_len buffers t
    using that by (cases "(env, api, i, tbs, key_len, buffers, t)" rule: sign_body.cases)
      (auto simp: Let_def intro!: close_step_sound invoke_sound sign_innocent kept_shapes fail_all_sound)
  then show ?thesis
    using assms by (auto simp: sign_step_def Let_def intro!: with_buffers_sound fail_all_sound split: option.split)
qed

lemma verify_step_sound:
  assumes "sound throws s"
  shows "sound throws (snd (verify_step env api tampered i s))"
proof -
  have "sound throws (snd (verify_body env api tampered step tbs raw buffers t))" if "sound throws t" for step tbs raw buffers t
    using that by (cases "(env, api, tampered, step, tbs, raw, buffers, t)" rule: verify_body.cases)
      (auto simp: Let_def intro!: close_step_sound invoke_sound verify_innocent kept_shapes fail_all_sound)
  then show ?thesis
    using assms by (auto simp: verify_step_def Let_def intro!: with_buffers_sound fail_all_sound split: prod.split)
qed

lemma policy_step_sound:
  assumes "sound throws s"
  shows "sound throws (snd (policy_step env api asked s))"
proof -
  have "sound throws (snd (policy_body env api asked der buffers t))" if "sound throws t" for der buffers t
    using that by (cases "(env, api, asked, der, buffers, t)" rule: policy_body.cases)
      (auto intro!: close_step_sound invoke_sound policy_innocent kept_shapes fail_all_sound)
  then show ?thesis
    using assms by (auto simp: policy_step_def Let_def intro!: with_buffers_sound)
qed

lemma all_steps_sound:
  assumes "sound throws s" and "\<And>m t. m \<in> set ms \<Longrightarrow> sound throws t \<Longrightarrow> sound throws (snd (m t))"
  shows "sound throws (snd (all_steps ms s))"
  using assms
proof (induction ms arbitrary: s)
  case (Cons m ms)
  have "sound throws (snd (m s))" using Cons.prems by simp
  then show ?case using Cons.IH [of "snd (m s)"] Cons.prems(2) by (simp add: case_prod_unfold)
qed simp

lemma wipe_step_sound: "sound throws s \<Longrightarrow> sound throws (snd (wipe_step slots s))"
  unfolding wipe_step_def by (induction slots arbitrary: s) simp_all

lemma body_sound:
  assumes "sound throws s"
  shows "sound throws (snd (crypto_body env api s))"
  unfolding crypto_body_def
proof (rule all_steps_sound [OF assms])
  fix m and t :: "'w probe"
  assume m: "m \<in> set ([abi_step env api]
       @ map (generate_step env api) [0, 1, 2]
       @ [wipe_step [1, 2]]
       @ map (sign_step env api) [0, 1, 2]
       @ [wipe_step [0]]
       @ map (verify_step env api False) [0, 1, 2]
       @ map (verify_step env api True) [0, 1, 2]
       @ map (policy_step env api) policy_cases
       @ [\<lambda>s. (True, release_all_remaining api s), observe env ''after_final_settlement''])"
    and t: "sound throws t"
  have "sound throws (snd (observe env ''after_final_settlement'' t))"
    using t holdings_sound observe_custody' by blast
  then show "sound throws (snd (m t))"
    using m t abi_step_sound generate_step_sound wipe_step_sound sign_step_sound verify_step_sound
      policy_step_sound release_all_sound(1) by auto
qed

text \<open>The whole run, from a probe that has spent nothing.\<close>

lemma run_settles:
  assumes u: "sound throws s" "pool s = []"
  shows "sound throws (snd (run_crypto_sequence observed_build env api s)) \<and>
    list_all release_attempted (pool (snd (run_crypto_sequence observed_build env api s)))"
proof -
  obtain ready s1 where r: "observe env ''before_work'' s = (ready, s1)" by (metis surj_pair)
  have c: "holdings s1 = holdings s" using observe_custody' [of "''before_work''" s] r by simp
  then have s1: "sound throws s1" "pool s1 = []" using u holdings_sound holdings_fields(2) [OF c] by auto
  show ?thesis
  proof (cases ready)
    case False
    then show ?thesis using s1 by (simp add: run_crypto_sequence_def r)
  next
    case True
    define s2 where "s2 = s1\<lparr>pool := [], keys := replicate 3 empty_key, certs := replicate 3 []\<rparr>"
    have "holdings s2 = holdings s1" using s1(2) by (simp add: s2_def holdings_def)
    then have "sound throws s2" using s1 holdings_sound by blast
    then have b: "sound throws (snd (crypto_body env api s2))" by (rule body_sound)
    define s3 where "s3 = (snd (crypto_body env api s2))\<lparr>keys := map destroy_key (keys (snd (crypto_body env api s2)))\<rparr>"
    have "holdings s3 = holdings (snd (crypto_body env api s2))" by (simp add: s3_def holdings_def)
    then have s3: "sound throws s3" using b holdings_sound by blast
    have "snd (run_crypto_sequence observed_build env api s) = release_all_remaining api s3"
      using True by (simp add: run_crypto_sequence_def r s2_def [symmetric] s3_def Let_def split: prod.split)
    then show ?thesis using release_all_sound [OF s3] by simp
  qed
qed

end

definition unspent :: "'w probe \<Rightarrow> bool" where
  "unspent s \<longleftrightarrow>
    attempts s = replicate 7 0 \<and> abi_attempted_total (ledger s) = 0 \<and>
    buffers_allocated (ledger s) = 0 \<and> buffers_live (ledger s) = 0 \<and>
    releases_succeeded (ledger s) = 0 \<and> releases_unknown (ledger s) = 0 \<and> pool s = []"

lemma unspent_sound: "unspent s \<Longrightarrow> sound throws s"
  by (simp add: unspent_def sound_def within_budget_def abi_limits_def category_limits_def tally_def
      eval_nat_numeral)

end
