(* ===== verification/Peer_Policy.thy ===== *)
theory Peer_Policy
  imports Native_Memory
begin

text \<open>
  The peer certificate policy: \<open>peer_policy.cpp\<close> (the argument guard and the decision)
  and \<open>peer_policy_windows.cpp\<close> (the inspection through crypt32).  crypt32 is the record
  \<open>crypt32\<close>: what each decoder and the validity check answered.  The lemmas show that the
  inspection and the decision together accept exactly one declarative certificate profile.
\<close>

section \<open>What crypt32 answers\<close>

text \<open>An object identifier that crypt32 left null is \<open>None\<close>.\<close>

type_synonym oid = "string option"

record cert_extension =
  ext_oid :: oid
  ext_critical :: bool
  ext_value :: "u8 list"

record cert_info =
  cert_version :: u32
  cert_sig_oid :: oid
  cert_sig_params :: "u8 list"
  spki_oid :: oid
  spki_params :: "u8 list"
  spki_key :: "u8 list"
  spki_unused :: u32
  cert_exts :: "cert_extension list"

record signed_content =
  outer_oid :: oid
  outer_params :: "u8 list"
  outer_signature :: "u8 list"
  outer_unused :: u32

datatype alt_name = Ip_address "u8 list" | Other_name u32

record basic_constraints =
  constrains_ca :: bool
  constrains_path :: bool

record key_bits =
  usage_bytes :: "u8 list"
  usage_unused :: u32

text \<open>
  A decoder answers \<open>None\<close> for failure.  A context without certificate information is
  \<open>Some None\<close>; a decoded object identifier may be a null pointer.
\<close>

record crypt32 =
  create_context :: "u8 list \<Rightarrow> cert_info option option"
  decode_cert :: "u8 list \<Rightarrow> signed_content option"
  decode_ecc_signature :: "u8 list \<Rightarrow> (u8 list \<times> u8 list) option"
  decode_oid :: "u8 list \<Rightarrow> oid option"
  time_validity :: "cert_info \<Rightarrow> int"
  decode_constraints :: "u8 list \<Rightarrow> basic_constraints option"
  decode_key_usage :: "u8 list \<Rightarrow> key_bits option"
  decode_eku :: "u8 list \<Rightarrow> oid list option"
  decode_alt_name :: "u8 list \<Rightarrow> alt_name list option"

definition CERT_V3 :: u32 where "CERT_V3 = 2"
definition szOID_ECDSA_SHA256 :: string where "szOID_ECDSA_SHA256 = ''1.2.840.10045.4.3.2''"
definition szOID_ECC_PUBLIC_KEY :: string where "szOID_ECC_PUBLIC_KEY = ''1.2.840.10045.2.1''"
definition szOID_ECC_CURVE_P256 :: string where "szOID_ECC_CURVE_P256 = ''1.2.840.10045.3.1.7''"
definition szOID_BASIC_CONSTRAINTS2 :: string where "szOID_BASIC_CONSTRAINTS2 = ''2.5.29.19''"
definition szOID_KEY_USAGE :: string where "szOID_KEY_USAGE = ''2.5.29.15''"
definition szOID_ENHANCED_KEY_USAGE :: string where "szOID_ENHANCED_KEY_USAGE = ''2.5.29.37''"
definition szOID_SUBJECT_ALT_NAME2 :: string where "szOID_SUBJECT_ALT_NAME2 = ''2.5.29.17''"
definition szOID_PKIX_KP_SERVER_AUTH :: string where "szOID_PKIX_KP_SERVER_AUTH = ''1.3.6.1.5.5.7.3.1''"
definition szOID_PKIX_KP_CLIENT_AUTH :: string where "szOID_PKIX_KP_CLIENT_AUTH = ''1.3.6.1.5.5.7.3.2''"

lemmas oid_names =
  szOID_BASIC_CONSTRAINTS2_def szOID_KEY_USAGE_def szOID_ENHANCED_KEY_USAGE_def
  szOID_SUBJECT_ALT_NAME2_def

definition oid_is :: "oid \<Rightarrow> string \<Rightarrow> bool" where
  "oid_is a b \<longleftrightarrow> a = Some b"

section \<open>The policy record\<close>

record peer_facts =
  p_v3 :: bool
  p_signature_sha256 :: bool
  p_signature_structure :: bool
  p_p256 :: bool
  p_valid_now :: bool
  p_extensions_exact :: bool
  p_leaf_constraints :: bool
  p_digital_signature_only :: bool
  p_server_auth_only :: bool
  p_client_auth_only :: bool
  p_single_loopback_san :: bool
  p_san_absent :: bool

definition no_facts :: peer_facts where
  "no_facts =
    \<lparr>p_v3 = False, p_signature_sha256 = False, p_signature_structure = False, p_p256 = False,
     p_valid_now = False, p_extensions_exact = False, p_leaf_constraints = False,
     p_digital_signature_only = False, p_server_auth_only = False, p_client_auth_only = False,
     p_single_loopback_san = False, p_san_absent = False\<rparr>"

section \<open>Extensions\<close>

text \<open>The four extension pointers of the loop; \<open>None\<close> is a null pointer.\<close>

record found_exts =
  found_bc :: "cert_extension option"
  found_ku :: "cert_extension option"
  found_eku :: "cert_extension option"
  found_san :: "cert_extension option"

definition no_exts :: found_exts where
  "no_exts = \<lparr>found_bc = None, found_ku = None, found_eku = None, found_san = None\<rparr>"

text \<open>One turn of the loop: an unknown or a repeated extension rejects.\<close>

definition take_extension :: "cert_extension \<Rightarrow> found_exts \<Rightarrow> found_exts option" where
  "take_extension e x =
    (if oid_is (ext_oid e) szOID_BASIC_CONSTRAINTS2 then
       (if found_bc x \<noteq> None then None else Some (x\<lparr>found_bc := Some e\<rparr>))
     else if oid_is (ext_oid e) szOID_KEY_USAGE then
       (if found_ku x \<noteq> None then None else Some (x\<lparr>found_ku := Some e\<rparr>))
     else if oid_is (ext_oid e) szOID_ENHANCED_KEY_USAGE then
       (if found_eku x \<noteq> None then None else Some (x\<lparr>found_eku := Some e\<rparr>))
     else if oid_is (ext_oid e) szOID_SUBJECT_ALT_NAME2 then
       (if found_san x \<noteq> None then None else Some (x\<lparr>found_san := Some e\<rparr>))
     else None)"

fun take_extensions :: "cert_extension list \<Rightarrow> found_exts \<Rightarrow> found_exts option" where
  "take_extensions [] x = Some x"
| "take_extensions (e # es) x =
    (case take_extension e x of None \<Rightarrow> None | Some y \<Rightarrow> take_extensions es y)"

section \<open>Inspection\<close>

definition sha256_signed :: "cert_info \<Rightarrow> signed_content \<Rightarrow> bool" where
  "sha256_signed c outer \<longleftrightarrow>
    oid_is (cert_sig_oid c) szOID_ECDSA_SHA256 \<and> cert_sig_params c = [] \<and>
    oid_is (outer_oid outer) szOID_ECDSA_SHA256 \<and> outer_params outer = []"

definition signature_structured :: "crypt32 \<Rightarrow> signed_content \<Rightarrow> bool" where
  "signature_structured crypt outer \<longleftrightarrow>
    outer_unused outer = 0 \<and>
    (case decode_ecc_signature crypt (outer_signature outer) of
       None \<Rightarrow> False
     | Some (r, s) \<Rightarrow> 0 < length r \<and> length r \<le> 33 \<and> 0 < length s \<and> length s \<le> 33)"

definition p256_key :: "crypt32 \<Rightarrow> cert_info \<Rightarrow> bool" where
  "p256_key crypt c \<longleftrightarrow>
    oid_is (spki_oid c) szOID_ECC_PUBLIC_KEY \<and>
    (case decode_oid crypt (spki_params c) of
       None \<Rightarrow> False
     | Some curve \<Rightarrow> oid_is curve szOID_ECC_CURVE_P256) \<and>
    spki_unused c = 0 \<and> length (spki_key c) = 65 \<and> spki_key c ! 0 = 4"

definition leaf_constrained :: "crypt32 \<Rightarrow> cert_extension \<Rightarrow> bool" where
  "leaf_constrained crypt bc =
    (case decode_constraints crypt (ext_value bc) of
       None \<Rightarrow> False
     | Some k \<Rightarrow> \<not> constrains_ca k \<and> \<not> constrains_path k)"

definition signs_only :: "crypt32 \<Rightarrow> cert_extension \<Rightarrow> bool" where
  "signs_only crypt ku =
    (case decode_key_usage crypt (ext_value ku) of
       None \<Rightarrow> False
     | Some u \<Rightarrow> length (usage_bytes u) = 1 \<and> usage_unused u = 7 \<and> usage_bytes u ! 0 = 0x80)"

text \<open>The single usage identifier, if there is exactly one.\<close>

definition single_usage :: "crypt32 \<Rightarrow> cert_extension \<Rightarrow> oid option" where
  "single_usage crypt eku =
    (case decode_eku crypt (ext_value eku) of
       None \<Rightarrow> None
     | Some ids \<Rightarrow> if length ids = 1 then Some (ids ! 0) else None)"

definition loopback_only :: "crypt32 \<Rightarrow> cert_extension \<Rightarrow> bool" where
  "loopback_only crypt san =
    (case decode_alt_name crypt (ext_value san) of
       None \<Rightarrow> False
     | Some names \<Rightarrow>
         length names = 1 \<and>
         (case names ! 0 of Ip_address bs \<Rightarrow> bs = [127, 0, 0, 1] | Other_name _ \<Rightarrow> False))"

definition inspect_certificate :: "crypt32 \<Rightarrow> u8 list \<Rightarrow> status \<times> peer_facts" where
  "inspect_certificate crypt der =
    (case create_context crypt der of
       None \<Rightarrow> (VERIFICATION_REJECTED, no_facts)
     | Some None \<Rightarrow> (VERIFICATION_REJECTED, no_facts)
     | Some (Some c) \<Rightarrow>
         let p = no_facts\<lparr>p_v3 := cert_version c = CERT_V3\<rparr>
         in case decode_cert crypt der of
              None \<Rightarrow> (VERIFICATION_REJECTED, p)
            | Some outer \<Rightarrow>
                let p = p\<lparr>p_signature_sha256 := sha256_signed c outer,
                          p_signature_structure := signature_structured crypt outer,
                          p_p256 := p256_key crypt c,
                          p_valid_now := time_validity crypt c = 0\<rparr>
                in if length (cert_exts c) \<noteq> 3 \<and> length (cert_exts c) \<noteq> 4 then
                     (VERIFICATION_REJECTED, p)
                   else
                     case take_extensions (cert_exts c) no_exts of
                       None \<Rightarrow> (VERIFICATION_REJECTED, p)
                     | Some x \<Rightarrow>
                         (case (found_bc x, found_ku x, found_eku x) of
                            (Some bc, Some ku, Some eku) \<Rightarrow>
                              if \<not> ext_critical bc \<or> \<not> ext_critical ku \<or> ext_critical eku \<or>
                                 (case found_san x of None \<Rightarrow> False | Some san \<Rightarrow> \<not> ext_critical san)
                              then (VERIFICATION_REJECTED, p)
                              else
                                (OK, p\<lparr>p_extensions_exact := True,
                                  p_leaf_constraints := leaf_constrained crypt bc,
                                  p_digital_signature_only := signs_only crypt ku,
                                  p_server_auth_only :=
                                    single_usage crypt eku = Some (Some szOID_PKIX_KP_SERVER_AUTH),
                                  p_client_auth_only :=
                                    single_usage crypt eku = Some (Some szOID_PKIX_KP_CLIENT_AUTH),
                                  p_san_absent := found_san x = None,
                                  p_single_loopback_san :=
                                    (case found_san x of None \<Rightarrow> False
                                     | Some san \<Rightarrow> loopback_only crypt san)\<rparr>)
                          | _ \<Rightarrow> (VERIFICATION_REJECTED, p)))"

section \<open>Decision\<close>

definition peer_policy ::
    "u32 \<Rightarrow> ptr \<Rightarrow> u64 \<Rightarrow> u32 \<Rightarrow> (u8 list \<Rightarrow> status \<times> peer_facts) \<Rightarrow> mem \<Rightarrow> status" where
  "peer_policy version der len role inspect m =
    (if version \<noteq> ABI_VERSION then ABI_MISMATCH
     else if der = 0 \<or> len = 0 \<or> 16384 < len \<or> (role \<noteq> 1 \<and> role \<noteq> 2) then INVALID_INPUT
     else
       let (status, p) = inspect (read_bytes der len m)
       in if status \<noteq> OK then (if status = UNAVAILABLE then status else VERIFICATION_REJECTED)
          else
            let role_ok = (if role = 1 then p_server_auth_only p \<and> p_single_loopback_san p
                           else p_client_auth_only p \<and> p_san_absent p)
            in if p_v3 p \<and> p_signature_sha256 p \<and> p_signature_structure p \<and> p_p256 p \<and>
                  p_valid_now p \<and> p_extensions_exact p \<and> p_leaf_constraints p \<and>
                  p_digital_signature_only p \<and> role_ok
               then OK else VERIFICATION_REJECTED)"

definition peer_certificate_policy :: "crypt32 \<Rightarrow> u32 \<Rightarrow> ptr \<Rightarrow> u64 \<Rightarrow> u32 \<Rightarrow> mem \<Rightarrow> status" where
  "peer_certificate_policy crypt version der len role m =
    peer_policy version der len role (inspect_certificate crypt) m"

section \<open>Ownership of the crypt32 results\<close>

text \<open>
  Every structure crypt32 allocated is owned by a \<open>Decoded\<close> and the context by
  \<open>Certificate\<close>; they are destroyed in reverse order whichever return is taken.
\<close>

datatype crypt_event = Context_created | Context_freed | Structure_allocated string | Structure_freed string

definition holds_if :: "string \<Rightarrow> bool \<Rightarrow> string list" where
  "holds_if name allocated = (if allocated then [name] else [])"

definition early_structures :: "crypt32 \<Rightarrow> cert_info \<Rightarrow> signed_content \<Rightarrow> string list" where
  "early_structures crypt c outer =
    [''outer''] @
    holds_if ''sig'' (outer_unused outer = 0 \<and> decode_ecc_signature crypt (outer_signature outer) \<noteq> None) @
    holds_if ''curve'' (oid_is (spki_oid c) szOID_ECC_PUBLIC_KEY \<and> decode_oid crypt (spki_params c) \<noteq> None)"

definition late_structures :: "crypt32 \<Rightarrow> found_exts \<Rightarrow> string list" where
  "late_structures crypt x =
    (case (found_bc x, found_ku x, found_eku x) of
       (Some bc, Some ku, Some eku) \<Rightarrow>
         holds_if ''constraints'' (decode_constraints crypt (ext_value bc) \<noteq> None) @
         holds_if ''usage'' (decode_key_usage crypt (ext_value ku) \<noteq> None) @
         holds_if ''enhanced'' (decode_eku crypt (ext_value eku) \<noteq> None) @
         (case found_san x of
            None \<Rightarrow> []
          | Some san \<Rightarrow> holds_if ''names'' (decode_alt_name crypt (ext_value san) \<noteq> None))
     | _ \<Rightarrow> [])"

definition held_structures :: "crypt32 \<Rightarrow> u8 list \<Rightarrow> cert_info \<Rightarrow> string list" where
  "held_structures crypt der c =
    (case decode_cert crypt der of
       None \<Rightarrow> []
     | Some outer \<Rightarrow>
         early_structures crypt c outer @
         (if fst (inspect_certificate crypt der) \<noteq> OK then []
          else case take_extensions (cert_exts c) no_exts of
                 None \<Rightarrow> []
               | Some x \<Rightarrow> late_structures crypt x))"

definition inspect_trace :: "crypt32 \<Rightarrow> u8 list \<Rightarrow> crypt_event list" where
  "inspect_trace crypt der =
    (case create_context crypt der of
       None \<Rightarrow> []
     | Some info \<Rightarrow>
         let held = (case info of None \<Rightarrow> [] | Some c \<Rightarrow> held_structures crypt der c)
         in [Context_created] @ map Structure_allocated held @
            map Structure_freed (rev held) @ [Context_freed])"

lemma every_structure_freed:
  "count_list (inspect_trace crypt der) (Structure_allocated n) =
   count_list (inspect_trace crypt der) (Structure_freed n)"
proof -
  have "count_list (map Structure_allocated xs) (Structure_allocated n) = count_list xs n"
    "count_list (map Structure_freed xs) (Structure_freed n) = count_list xs n"
    "count_list (map Structure_allocated xs) (Structure_freed n) = 0"
    "count_list (map Structure_freed xs) (Structure_allocated n) = 0" for xs
    by (induction xs) simp_all
  then show ?thesis
    by (simp add: inspect_trace_def Let_def split: option.split)
qed

section \<open>The extension loop\<close>

definition profile_oids :: "string set" where
  "profile_oids = {szOID_BASIC_CONSTRAINTS2, szOID_KEY_USAGE, szOID_ENHANCED_KEY_USAGE, szOID_SUBJECT_ALT_NAME2}"

definition found :: "found_exts \<Rightarrow> string \<Rightarrow> cert_extension option" where
  "found x o' =
    (if o' = szOID_BASIC_CONSTRAINTS2 then found_bc x
     else if o' = szOID_KEY_USAGE then found_ku x
     else if o' = szOID_ENHANCED_KEY_USAGE then found_eku x
     else if o' = szOID_SUBJECT_ALT_NAME2 then found_san x
     else None)"

lemma oids_distinct [simp]:
  "szOID_BASIC_CONSTRAINTS2 \<noteq> szOID_KEY_USAGE" "szOID_BASIC_CONSTRAINTS2 \<noteq> szOID_ENHANCED_KEY_USAGE"
  "szOID_BASIC_CONSTRAINTS2 \<noteq> szOID_SUBJECT_ALT_NAME2" "szOID_KEY_USAGE \<noteq> szOID_ENHANCED_KEY_USAGE"
  "szOID_KEY_USAGE \<noteq> szOID_SUBJECT_ALT_NAME2" "szOID_ENHANCED_KEY_USAGE \<noteq> szOID_SUBJECT_ALT_NAME2"
  by (simp_all add: oid_names)

lemmas oids_distinct' [simp] = oids_distinct [symmetric]

lemma found_inject: "found x = found y \<longleftrightarrow> x = y"
proof
  assume e: "found x = found y"
  show "x = y"
    using fun_cong [OF e, of szOID_BASIC_CONSTRAINTS2] fun_cong [OF e, of szOID_KEY_USAGE]
      fun_cong [OF e, of szOID_ENHANCED_KEY_USAGE] fun_cong [OF e, of szOID_SUBJECT_ALT_NAME2]
    by (simp add: found_def)
qed simp

lemma take_extension_iff:
  "take_extension e x = Some y \<longleftrightarrow>
    (\<exists>o'\<in>profile_oids. ext_oid e = Some o' \<and> found x o' = None \<and> found y = (found x)(o' \<mapsto> e))"
proof -
  have step: "found (x\<lparr>found_bc := Some e\<rparr>) = (found x)(szOID_BASIC_CONSTRAINTS2 \<mapsto> e)"
    "found (x\<lparr>found_ku := Some e\<rparr>) = (found x)(szOID_KEY_USAGE \<mapsto> e)"
    "found (x\<lparr>found_eku := Some e\<rparr>) = (found x)(szOID_ENHANCED_KEY_USAGE \<mapsto> e)"
    "found (x\<lparr>found_san := Some e\<rparr>) = (found x)(szOID_SUBJECT_ALT_NAME2 \<mapsto> e)"
    by (simp_all add: found_def fun_eq_iff)
  show ?thesis
    unfolding step [symmetric, unfolded found_inject]
    by (auto simp: take_extension_def profile_oids_def oid_is_def step [symmetric] found_inject) 
      (auto simp: found_def split: if_splits)
qed

lemma find_oid_None: "find (\<lambda>e. ext_oid e = Some k) es = None \<longleftrightarrow> Some k \<notin> ext_oid ` set es"
  by (auto simp: find_None_iff image_iff)

lemma take_extensions_iff:
  "take_extensions es x = Some y \<longleftrightarrow>
    set (map ext_oid es) \<subseteq> Some ` profile_oids \<and> distinct (map ext_oid es) \<and>
    (\<forall>e\<in>set es. \<forall>o'. ext_oid e = Some o' \<longrightarrow> found x o' = None) \<and>
    found y = (\<lambda>o'. case find (\<lambda>e. ext_oid e = Some o') es of None \<Rightarrow> found x o' | Some e \<Rightarrow> Some e)"
proof (induction es arbitrary: x)
  case Nil
  then show ?case by (auto simp: found_inject)
next
  case (Cons e es)
  show ?case
  proof (cases "take_extension e x")
    case None
    have "take_extension e x \<noteq> None" if "k \<in> profile_oids" "ext_oid e = Some k" "found x k = None" for k
      using that by (auto simp: take_extension_def profile_oids_def oid_is_def found_def)
    then show ?thesis using None by fastforce
  next
    case (Some z)
    then obtain k where k: "k \<in> profile_oids" "ext_oid e = Some k" "found x k = None" "found z = (found x)(k \<mapsto> e)"
      by (auto simp: take_extension_iff)
    have "(\<forall>a\<in>set es. \<forall>o'. ext_oid a = Some o' \<longrightarrow> found z o' = None) \<longleftrightarrow>
        Some k \<notin> ext_oid ` set es \<and> (\<forall>a\<in>set es. \<forall>o'. ext_oid a = Some o' \<longrightarrow> found x o' = None)"
      unfolding k(4) by (auto simp: image_iff) (metis option.distinct(1))
    moreover have "(\<lambda>o'. case find (\<lambda>e. ext_oid e = Some o') es of None \<Rightarrow> found z o' | Some e \<Rightarrow> Some e) =
        (\<lambda>o'. case find (\<lambda>e. ext_oid e = Some o') (e # es) of None \<Rightarrow> found x o' | Some e \<Rightarrow> Some e)"
      if n: "Some k \<notin> ext_oid ` set es"
    proof
      fix o'
      show "(case find (\<lambda>e. ext_oid e = Some o') es of None \<Rightarrow> found z o' | Some e \<Rightarrow> Some e) =
          (case find (\<lambda>e. ext_oid e = Some o') (e # es) of None \<Rightarrow> found x o' | Some e \<Rightarrow> Some e)"
        using n k(2) find_oid_None [of k es] by (cases "o' = k") (simp_all add: k(4) split: option.split)
    qed
    ultimately show ?thesis
      using Some k Cons.IH [of z] by auto
  qed
qed

section \<open>The accepted profile\<close>

text \<open>
  A certificate for \<open>role\<close> as the profile describes it, without the loop: its extension
  identifiers are exactly the profile's, each once, and each has the required content.
\<close>

definition profile_of_role :: "u32 \<Rightarrow> string set" where
  "profile_of_role role =
    {szOID_BASIC_CONSTRAINTS2, szOID_KEY_USAGE, szOID_ENHANCED_KEY_USAGE}
      \<union> (if role = 1 then {szOID_SUBJECT_ALT_NAME2} else {})"

definition extension_meets :: "crypt32 \<Rightarrow> u32 \<Rightarrow> cert_extension \<Rightarrow> bool" where
  "extension_meets crypt role e \<longleftrightarrow>
    (ext_oid e = Some szOID_BASIC_CONSTRAINTS2 \<longrightarrow> ext_critical e \<and> leaf_constrained crypt e) \<and>
    (ext_oid e = Some szOID_KEY_USAGE \<longrightarrow> ext_critical e \<and> signs_only crypt e) \<and>
    (ext_oid e = Some szOID_ENHANCED_KEY_USAGE \<longrightarrow> \<not> ext_critical e \<and>
      single_usage crypt e =
        Some (Some (if role = 1 then szOID_PKIX_KP_SERVER_AUTH else szOID_PKIX_KP_CLIENT_AUTH))) \<and>
    (ext_oid e = Some szOID_SUBJECT_ALT_NAME2 \<longrightarrow> ext_critical e \<and> loopback_only crypt e)"

definition accepted_leaf :: "crypt32 \<Rightarrow> u32 \<Rightarrow> u8 list \<Rightarrow> bool" where
  "accepted_leaf crypt role der \<longleftrightarrow>
    (\<exists>c outer. create_context crypt der = Some (Some c) \<and> decode_cert crypt der = Some outer \<and>
      cert_version c = CERT_V3 \<and> sha256_signed c outer \<and> signature_structured crypt outer \<and>
      p256_key crypt c \<and> time_validity crypt c = 0 \<and>
      distinct (map ext_oid (cert_exts c)) \<and>
      set (map ext_oid (cert_exts c)) = Some ` profile_of_role role \<and>
      list_all (extension_meets crypt role) (cert_exts c))"

lemma find_unique:
  assumes "distinct (map ext_oid es)" and "e \<in> set es" and "ext_oid e = Some k"
  shows "find (\<lambda>e. ext_oid e = Some k) es = Some e"
  using assms by (induction es) (auto simp: image_iff)

lemma find_oid:
  "find (\<lambda>e. ext_oid e = Some k) es = Some e \<Longrightarrow> e \<in> set es \<and> ext_oid e = Some k"
  by (auto simp: find_Some_iff)


text \<open>What the inspection and the decision together ask of the extensions.\<close>

definition loop_meets :: "crypt32 \<Rightarrow> u32 \<Rightarrow> cert_extension list \<Rightarrow> bool" where
  "loop_meets crypt role es \<longleftrightarrow>
    (length es = 3 \<or> length es = 4) \<and>
    (\<exists>x bc ku eku. take_extensions es no_exts = Some x \<and>
      found_bc x = Some bc \<and> found_ku x = Some ku \<and> found_eku x = Some eku \<and>
      ext_critical bc \<and> ext_critical ku \<and> \<not> ext_critical eku \<and>
      leaf_constrained crypt bc \<and> signs_only crypt ku \<and>
      single_usage crypt eku =
        Some (Some (if role = 1 then szOID_PKIX_KP_SERVER_AUTH else szOID_PKIX_KP_CLIENT_AUTH)) \<and>
      (if role = 1 then \<exists>san. found_san x = Some san \<and> ext_critical san \<and> loopback_only crypt san
       else found_san x = None))"

lemma found_no_exts [simp]: "found no_exts k = None"
  by (simp add: found_def no_exts_def)

lemma found_fields:
  "found_bc x = found x szOID_BASIC_CONSTRAINTS2" "found_ku x = found x szOID_KEY_USAGE"
  "found_eku x = found x szOID_ENHANCED_KEY_USAGE" "found_san x = found x szOID_SUBJECT_ALT_NAME2"
  by (simp_all add: found_def)

lemma take_all:
  "take_extensions es no_exts = Some x \<longleftrightarrow>
    set (map ext_oid es) \<subseteq> Some ` profile_oids \<and> distinct (map ext_oid es) \<and>
    found x = (\<lambda>k. find (\<lambda>e. ext_oid e = Some k) es)"
proof -
  have "(\<lambda>k. case find (\<lambda>e. ext_oid e = Some k) es of None \<Rightarrow> found no_exts k | Some e \<Rightarrow> Some e) =
      (\<lambda>k. find (\<lambda>e. ext_oid e = Some k) es)"
    by (auto simp: fun_eq_iff split: option.split)
  then show ?thesis by (simp add: take_extensions_iff)
qed

lemma loop_is_profile_1:
  assumes "loop_meets crypt role es"
  shows "distinct (map ext_oid es) \<and> set (map ext_oid es) = Some ` profile_of_role role \<and>
    list_all (extension_meets crypt role) es"
proof -
  obtain x bc ku eku where x: "take_extensions es no_exts = Some x"
    "found_bc x = Some bc" "found_ku x = Some ku" "found_eku x = Some eku"
    "ext_critical bc" "ext_critical ku" "\<not> ext_critical eku"
    "leaf_constrained crypt bc" "signs_only crypt ku"
    "single_usage crypt eku =
        Some (Some (if role = 1 then szOID_PKIX_KP_SERVER_AUTH else szOID_PKIX_KP_CLIENT_AUTH))"
    and san: "if role = 1 then \<exists>san. found_san x = Some san \<and> ext_critical san \<and> loopback_only crypt san
       else found_san x = None"
    using assms by (auto simp: loop_meets_def)
  have f: "set (map ext_oid es) \<subseteq> Some ` profile_oids" "distinct (map ext_oid es)"
    "found x = (\<lambda>k. find (\<lambda>e. ext_oid e = Some k) es)"
    using x(1) by (auto simp: take_all)
  have e: "found x k = Some e" if "e \<in> set es" "ext_oid e = Some k" for e k
    using find_unique [OF f(2) that] by (simp add: f(3))
  have m: "e \<in> set es \<and> ext_oid e = Some k" if "found x k = Some e" for e k
    using that find_oid [of k es e] by (simp add: f(3))
  have "set (map ext_oid es) = Some ` profile_of_role role"
  proof
    show "set (map ext_oid es) \<subseteq> Some ` profile_of_role role"
      using f(1) e san by (fastforce simp: profile_oids_def profile_of_role_def found_fields split: if_splits)
    show "Some ` profile_of_role role \<subseteq> set (map ext_oid es)"
    proof
      fix a assume "a \<in> Some ` profile_of_role role"
      then obtain k where k: "a = Some k" "k \<in> profile_of_role role" by auto
      then have "\<exists>e. found x k = Some e"
        using x(2-4) san by (auto simp: profile_of_role_def found_fields split: if_splits)
      then obtain e where "e \<in> set es" "ext_oid e = a" using m k(1) by blast
      then show "a \<in> set (map ext_oid es)" by auto
    qed
  qed
  moreover have "extension_meets crypt role a" if "a \<in> set es" for a
    using that e [OF that] x(2-10) san
    by (auto simp: extension_meets_def found_fields split: if_splits)
  ultimately show ?thesis using f(2) by (simp add: list_all_iff)
qed

lemma loop_is_profile_2:
  assumes d: "distinct (map ext_oid es)" and s: "set (map ext_oid es) = Some ` profile_of_role role"
    and a: "list_all (extension_meets crypt role) es"
  shows "loop_meets crypt role es"
proof -
  define F where "F = (\<lambda>k. find (\<lambda>e. ext_oid e = Some k) es)"
  define x where "x = \<lparr>found_bc = F szOID_BASIC_CONSTRAINTS2, found_ku = F szOID_KEY_USAGE,
    found_eku = F szOID_ENHANCED_KEY_USAGE, found_san = F szOID_SUBJECT_ALT_NAME2\<rparr>"
  have sub: "profile_of_role role \<subseteq> profile_oids"
    by (auto simp: profile_of_role_def profile_oids_def)
  have none: "F k = None" if "k \<notin> profile_of_role role" for k
    using that s by (auto simp: F_def find_oid_None)
  have some: "\<exists>e. F k = Some e \<and> ext_oid e = Some k \<and> extension_meets crypt role e" if "k \<in> profile_of_role role" for k
  proof -
    have "Some k \<in> set (map ext_oid es)" using that s by blast
    then obtain e where "e \<in> set es" "ext_oid e = Some k" by auto
    then show ?thesis using find_unique [OF d, of e k] a by (auto simp: F_def list_all_iff)
  qed
  have "k \<notin> profile_oids \<Longrightarrow> F k = None" for k
    using none sub by blast
  then have "found x k = F k" for k
    by (auto simp: found_def x_def profile_oids_def)
  then have "found x = F" by blast
  then have t: "take_extensions es no_exts = Some x"
    using d s sub by (auto simp: take_all F_def)
  have "length es = card (Some ` profile_of_role role)"
    using distinct_card [OF d] s by simp
  then have "length es = (if role = 1 then 4 else 3)"
    by (simp add: card_image profile_of_role_def)
  then have l: "length es = 3 \<or> length es = 4" by simp
  obtain bc ku eku where g:
    "F szOID_BASIC_CONSTRAINTS2 = Some bc" "ext_oid bc = Some szOID_BASIC_CONSTRAINTS2" "extension_meets crypt role bc"
    "F szOID_KEY_USAGE = Some ku" "ext_oid ku = Some szOID_KEY_USAGE" "extension_meets crypt role ku"
    "F szOID_ENHANCED_KEY_USAGE = Some eku" "ext_oid eku = Some szOID_ENHANCED_KEY_USAGE" "extension_meets crypt role eku"
    using some [of szOID_BASIC_CONSTRAINTS2] some [of szOID_KEY_USAGE] some [of szOID_ENHANCED_KEY_USAGE]
    by (auto simp: profile_of_role_def)
  have san: "if role = 1
      then \<exists>san. F szOID_SUBJECT_ALT_NAME2 = Some san \<and> ext_critical san \<and> loopback_only crypt san
      else F szOID_SUBJECT_ALT_NAME2 = None"
    using some [of szOID_SUBJECT_ALT_NAME2] none [of szOID_SUBJECT_ALT_NAME2]
    by (auto simp: profile_of_role_def extension_meets_def)
  have meets: "ext_critical bc" "leaf_constrained crypt bc" "ext_critical ku" "signs_only crypt ku"
    "\<not> ext_critical eku"
    "single_usage crypt eku =
        Some (Some (if role = 1 then szOID_PKIX_KP_SERVER_AUTH else szOID_PKIX_KP_CLIENT_AUTH))"
    using g(2,3,5,6,8,9) unfolding extension_meets_def by simp_all
  have fields: "found_bc x = Some bc" "found_ku x = Some ku" "found_eku x = Some eku"
    and "found_san x = F szOID_SUBJECT_ALT_NAME2"
    using g(1,4,7) by (simp_all add: x_def)
  then have s: "if role = 1
      then \<exists>san. found_san x = Some san \<and> ext_critical san \<and> loopback_only crypt san
      else found_san x = None"
    using san by simp
  show ?thesis
    unfolding loop_meets_def
    by (rule conjI [OF l], rule exI [of _ x], rule exI [of _ bc], rule exI [of _ ku], rule exI [of _ eku])
      (intro conjI t fields meets s)
qed

lemma loop_is_profile:
  "loop_meets crypt role es \<longleftrightarrow>
    distinct (map ext_oid es) \<and> set (map ext_oid es) = Some ` profile_of_role role \<and>
    list_all (extension_meets crypt role) es"
  by (rule iffI) (erule loop_is_profile_1, elim conjE, rule loop_is_profile_2)

definition decided :: "u32 \<Rightarrow> status \<times> peer_facts \<Rightarrow> bool" where
  "decided role r =
    (case r of (st, p) \<Rightarrow>
      st = OK \<and> p_v3 p \<and> p_signature_sha256 p \<and> p_signature_structure p \<and> p_p256 p \<and>
      p_valid_now p \<and> p_extensions_exact p \<and> p_leaf_constraints p \<and> p_digital_signature_only p \<and>
      (if role = 1 then p_server_auth_only p \<and> p_single_loopback_san p
       else p_client_auth_only p \<and> p_san_absent p))"

lemma decision_is_profile: "decided role (inspect_certificate crypt der) \<longleftrightarrow> accepted_leaf crypt role der"
proof (cases "create_context crypt der")
  case None
  then show ?thesis by (simp add: inspect_certificate_def decided_def accepted_leaf_def)
next
  case (Some ci)
  show ?thesis
  proof (cases ci)
    case None
    then show ?thesis using Some by (simp add: inspect_certificate_def decided_def accepted_leaf_def)
  next
    case c: (Some c)
    show ?thesis
    proof (cases "decode_cert crypt der")
      case None
      then show ?thesis
        using Some c by (simp add: inspect_certificate_def decided_def accepted_leaf_def)
    next
      case o: (Some outer)
      have "decided role (inspect_certificate crypt der) \<longleftrightarrow>
          cert_version c = CERT_V3 \<and> sha256_signed c outer \<and> signature_structured crypt outer \<and>
          p256_key crypt c \<and> time_validity crypt c = 0 \<and> loop_meets crypt role (cert_exts c)"
        using Some c o
        by (cases "take_extensions (cert_exts c) no_exts")
          (auto simp: inspect_certificate_def decided_def loop_meets_def Let_def no_facts_def
            split: option.splits if_splits)
      then show ?thesis
        using Some c o by (auto simp: accepted_leaf_def loop_is_profile)
    qed
  qed
qed

lemma policy_accepts:
  "peer_certificate_policy crypt version der len role m = OK \<longleftrightarrow>
    version = ABI_VERSION \<and> der \<noteq> 0 \<and> len \<noteq> 0 \<and> len \<le> 16384 \<and> (role = 1 \<or> role = 2) \<and>
    accepted_leaf crypt role (read_bytes der len m)"
  using decision_is_profile [of role crypt "read_bytes der len m"]
  by (auto simp: peer_certificate_policy_def peer_policy_def decided_def Let_def not_less
      split: prod.splits if_splits)

text \<open>
  Claim C34.  The policy export answers OK exactly for a well-formed call of the current ABI
  whose certificate has the profile of the asked role: the exact extension identifiers,
  each once and with its required criticality and content, and every other field as
  required.  Any certificate outside the profile is refused, and for either role nothing
  else is asked.
\<close>

theorem policy_accepts_exactly_profile:
  "peer_certificate_policy crypt version der len role m = OK \<longleftrightarrow>
    version = ABI_VERSION \<and> der \<noteq> 0 \<and> len \<noteq> 0 \<and> len \<le> 16384 \<and> (role = 1 \<or> role = 2) \<and>
    accepted_leaf crypt role (read_bytes der len m)"
  by (rule policy_accepts)

end
