(* ===== verification/Crypto_Candidate.thy ===== *)
theory Crypto_Candidate
  imports Crypto_Contract Native_Core Native_Crypto Peer_Policy
begin

text \<open>
  The candidate program (\<open>diagnostics/l1_crypto_probe.cpp\<close>): the process sampler, the
  monotonic clock, the statically linked API, which is the seven exports modelled in
  \<open>Native_Core\<close>, \<open>Native_Crypto\<close> and \<open>Peer_Policy\<close>, and the default-deny entry.
  Running the bounded sequence over those exports is an instance of the lawful probe.
\<close>

section \<open>Observed native calls\<close>

text \<open>
  What the macros of the observed build tell the observer: a business call with its answer
  (\<open>None\<close>: it threw; otherwise whether the answer was accepted), an owner that holds a
  resource, and the one release of such an owner.
\<close>

datatype native_event =
    Native_call native_op "bool option"
  | Owner_acquired
  | Owner_released native_op "bool option"

fun watch :: "native_event \<Rightarrow> native_observation \<Rightarrow> native_observation" where
  "watch (Native_call op r) n = fst (snd (observed_call op False None (\<lambda>w. (r, w)) id False n ()))"
| "watch Owner_acquired n = the (snd (ticket_acquire True fresh_ticket (Some n)))"
| "watch (Owner_released op r) n =
    the (fst (snd (snd (ticket_release op (\<lambda>w. (r, w)) id False
      (fresh_ticket\<lparr>ticket_watched := True, ticket_acquired := True\<rparr>) (Some n) ()))))"

section \<open>The process the candidate runs in\<close>

text \<open>
  \<open>process_memory\<close> and \<open>process_handles\<close> are the two Win32 queries (\<open>None\<close> is failure),
  \<open>tick_count\<close> is \<open>GetTickCount64\<close> and \<open>calloc\<close> the C allocator.  \<open>watched\<close> is the
  native calls an export made under the installed observer, each with what it answered.
\<close>

record 'w process =
  process_memory :: "'w \<Rightarrow> (u64 \<times> u64) option \<times> 'w"
  process_handles :: "'w \<Rightarrow> u32 option \<times> 'w"
  tick_count :: "'w \<Rightarrow> u64 \<times> 'w"
  calloc :: "u64 \<Rightarrow> 'w \<Rightarrow> ptr \<times> 'w"
  watched :: "'w \<Rightarrow> native_event list"

definition sample_process_resources :: "'w process \<Rightarrow> 'w step" where
  "sample_process_resources os s =
    (case process_memory os (world s) of
       (None, w) \<Rightarrow> (False, s\<lparr>world := w\<rparr>)
     | (Some (working, commit), w) \<Rightarrow>
         (case process_handles os w of
            (None, w) \<Rightarrow> (False, s\<lparr>world := w\<rparr>)
          | (Some handles, w) \<Rightarrow> resources working commit handles (s\<lparr>world := w\<rparr>)))"

definition monotonic_clock_ms :: "'w process \<Rightarrow> 'w \<Rightarrow> u64 option \<times> 'w" where
  "monotonic_clock_ms os w = (case tick_count os w of (now, w) \<Rightarrow> (Some now, w))"

definition candidate_env :: "'w process \<Rightarrow> 'w probe_env" where
  "candidate_env os =
    \<lparr>clock_ms = Some (monotonic_clock_ms os), sampler = Some (sample_process_resources os)\<rparr>"

section \<open>The linked exports\<close>

definition linked_allocate :: "'w process \<Rightarrow> u64 \<Rightarrow> 'w probe \<Rightarrow> ptr option \<times> 'w probe" where
  "linked_allocate os capacity s =
    (let (block, w) = calloc os capacity (world s);
         (p, m) = buffer_alloc capacity block (heap s)
     in (Some p, s\<lparr>world := w, heap := m\<rparr>))"

definition linked_free :: "ptr \<Rightarrow> 'w step" where
  "linked_free p s = (True, s\<lparr>heap := snd (buffer_free p (heap s))\<rparr>)"

definition linked_status :: "'w process \<Rightarrow> (mem \<Rightarrow> status \<times> mem) \<Rightarrow> 'w probe \<Rightarrow> u32 option \<times> 'w probe" where
  "linked_status os export s =
    (case export (heap s) of
       (status, m) \<Rightarrow>
         (Some (status_word status), s\<lparr>heap := m, observer := map_option (fold watch (watched os (world s))) (observer s)\<rparr>))"

definition linked_api :: "'w process \<Rightarrow> crypto_ops \<Rightarrow> crypt32 \<Rightarrow> 'w crypto_api" where
  "linked_api os ops crypt =
    \<lparr>api_abi = (\<lambda>s. (Some ABI_VERSION, s)),
     api_allocate = Some (linked_allocate os),
     api_deallocate = Some linked_free,
     api_generate_key = (\<lambda>v key cap key_n point point_cap point_n.
       linked_status os (generate_key v key cap key_n point point_cap point_n ops)),
     api_sign_digest = (\<lambda>v key key_len point point_len dig dig_len sig cap sig_n.
       linked_status os (sign_digest v key key_len point point_len dig dig_len sig cap sig_n ops)),
     api_verify_digest = (\<lambda>v point point_len dig dig_len sig sig_len.
       linked_status os (\<lambda>m. (verify_digest v point point_len dig dig_len sig sig_len ops m, m))),
     api_peer_policy = (\<lambda>v der len role.
       linked_status os (\<lambda>m. (peer_certificate_policy crypt v der len role m, m)))\<rparr>"

text \<open>The static lookup answers the address of an allowed symbol and null otherwise.\<close>

definition resolve_static_allowed_symbol :: "(string \<Rightarrow> ptr) \<Rightarrow> 'w lookup" where
  "resolve_static_allowed_symbol address name w =
    (if \<not> is_allowed_symbol (Some name) then (Some 0, w) else (Some (address name), w))"

section \<open>The entry\<close>

text \<open>
  The program the entry is given and never runs: a fresh ledger and observer, the seven
  symbols and the sequence.
\<close>

definition fresh_probe :: "'w \<Rightarrow> mem \<Rightarrow> 'w probe" where
  "fresh_probe w m =
    \<lparr>ledger = fresh_ledger, observer = Some fresh_observation, heap = m, pool = [], keys = [],
     certs = [], world = w\<rparr>"

definition candidate_program ::
    "'w process \<Rightarrow> crypto_ops \<Rightarrow> crypt32 \<Rightarrow> (string \<Rightarrow> ptr) \<Rightarrow> 'w \<Rightarrow> mem \<Rightarrow> int \<times> 'w probe" where
  "candidate_program os ops crypt address w m =
    (case resolve_crypto_api (resolve_static_allowed_symbol address) (fresh_probe w m) of
       (False, _, s) \<Rightarrow> (10, s)
     | (True, _, s) \<Rightarrow> run_crypto_sequence True (candidate_env os) (linked_api os ops crypt) s)"

text \<open>\<open>argv\<close> is \<open>None\<close> when null; an argument is \<open>None\<close> when null.\<close>

definition candidate_entry :: "int \<Rightarrow> wstring option list option \<Rightarrow> (unit \<Rightarrow> int) \<Rightarrow> int" where
  "candidate_entry argc argv invoke =
    (case argv of
       None \<Rightarrow> 64
     | Some args \<Rightarrow>
         if argc < 1 \<or> 3 < argc then 64
         else if 2 \<le> argc \<and> (args ! 1 = None \<or> args ! 1 = Some [] \<or> the (args ! 1) ! 0 = 0) then 64
         else 10)"

section \<open>The linked program is lawful\<close>

lemma status_innocent: "innocent (linked_status os export)"
  by (simp add: innocent_def linked_status_def holdings_def split: prod.split)

lemma sample_innocent: "innocent (sample_process_resources os)"
  by (simp add: innocent_def sample_process_resources_def holdings_simps split: prod.split option.split)

interpretation linked: lawful_probe "candidate_env os" "linked_api os ops crypt" False for os ops crypt
proof
  fix f assume "sampler (candidate_env os) = Some f"
  then show "innocent f" using sample_innocent [of os] by (simp add: candidate_env_def)
next
  fix alloc capacity assume "api_allocate (linked_api os ops crypt) = Some alloc"
  then show "innocent (alloc capacity)"
    by (auto simp: linked_api_def innocent_def linked_allocate_def holdings_def split: prod.split)
next
  fix free p assume "api_deallocate (linked_api os ops crypt) = Some free"
  then show "innocent (free p)"
    by (auto simp: linked_api_def innocent_def linked_free_def holdings_def)
qed (simp_all add: linked_api_def status_innocent, simp_all add: innocent_def linked_free_def)

lemma resolve_custody: "holdings (snd (snd (resolve_symbols names lookup s))) = holdings s"
proof (induction names arbitrary: s)
  case (Cons name names)
  have one: "holdings (snd (snd (resolve_symbol_checked name lookup s))) = holdings s"
    by (simp add: resolve_symbol_checked_def holdings_simps ledger_view_def split: prod.split option.split)
  show ?case
    using one Cons.IH [of "snd (snd (resolve_symbol_checked name lookup s))"]
    by (simp add: case_prod_unfold split: bool.split)
qed simp

lemma fresh_probe_unspent: "unspent (fresh_probe w m)"
  by (simp add: unspent_def fresh_probe_def fresh_ledger_def no_counts_def attempts_def)

lemma candidate_settles:
  fixes os :: "'w process"
  defines "t \<equiv> \<lambda>ops crypt address w m. snd (candidate_program os ops crypt address w m)"
  shows "sound False (t ops crypt address w m) \<and> list_all release_attempted (pool (t ops crypt address w m))"
proof -
  obtain ok table s where r:
    "resolve_crypto_api (resolve_static_allowed_symbol address) (fresh_probe w m) = (ok, table, s)"
    by (metis prod_cases3)
  have c: "holdings s = holdings (fresh_probe w m)"
    using resolve_custody [of kAllowedSymbols "resolve_static_allowed_symbol address" "fresh_probe w m"] r
    by (simp add: resolve_crypto_api_def)
  have s: "sound False s" "pool s = []"
    using holdings_sound [OF c] unspent_sound [OF fresh_probe_unspent] holdings_fields(2) [OF c]
    by (auto simp: fresh_probe_def)
  show ?thesis
    using s linked.run_settles [OF s] r by (cases ok) (simp_all add: t_def candidate_program_def)
qed

lemma settled_slots_are_free:
  assumes "sound False t" and "list_all release_attempted (pool t)"
  shows "list_all release_succeeded (pool t) \<and> buffers_live (ledger t) = 0"
proof -
  have "list_all release_succeeded (pool t)"
    using assms by (auto simp: sound_def list_all_iff slot_settled_def)
  then have "tally (\<lambda>b. \<not> release_succeeded b) (pool t) = 0"
    by (auto simp: tally_def list_all_iff filter_empty_conv)
  then show ?thesis
    using assms(1) \<open>list_all release_succeeded (pool t)\<close> by (simp add: sound_def)
qed

section \<open>Bounded and settled\<close>

text \<open>
  Claim C29.  Whatever the clock, the process counters, the allocator, CNG and crypt32
  answer, the candidate program makes at most one version call, three key generations,
  three signatures, six verifications, three policy calls, forty-five allocations and
  forty-five releases, 106 calls in all, and when it ends every buffer it was ever given
  has been released successfully.
\<close>

theorem candidate_is_bounded_and_settled:
  "(let t = snd (candidate_program os ops crypt address w m)
    in list_all2 (\<le>) (attempts t) abi_limits \<and>
       abi_attempted_total (ledger t) \<le> kMaxTotalAbiAttempts \<and>
       list_all release_succeeded (pool t) \<and> buffers_live (ledger t) = 0)"
  using candidate_settles [of os ops crypt address w m]
    settled_slots_are_free [of "snd (candidate_program os ops crypt address w m)"]
    within_budget_total [of "snd (candidate_program os ops crypt address w m)"]
  by (simp add: Let_def sound_def within_budget_def)

end
