(* ===== verification/Frame_Protocol.thy ===== *)
theory Frame_Protocol
  imports Crypto_Ledger Sha256
begin

text \<open>
  The wire protocol between controller and worker (\<open>diagnostics/l1_e4_protocol.h\<close>):
  64-byte frames, the admission frame, the 768-byte settlement that carries ledger and
  observer, its split into twenty-four frames, the bounded frame reader and the
  directional channel that owns sequence, order and capacity.  The lemmas show that a
  settlement decodes to exactly what was encoded and that a channel which is owed one
  delivers it.
\<close>

section \<open>Bytes\<close>

type_synonym digest = "u8 list"
type_synonym frame = "u8 list"

definition le_put :: "nat \<Rightarrow> u64 \<Rightarrow> u8 list" where
  "le_put bytes n = map (\<lambda>i. ucast (drop_bit (8 * i) n)) [0..<bytes]"

definition field_at :: "u8 list \<Rightarrow> nat \<Rightarrow> nat \<Rightarrow> u64" where
  "field_at bs pos bytes = of_le_bytes (take bytes (drop pos bs))"

definition all_zero :: "u8 list \<Rightarrow> bool" where
  "all_zero bs \<longleftrightarrow> list_all (\<lambda>b. b = 0) bs"

section \<open>Frames\<close>

datatype message = hello | admission | sample_message | stop_message | settlement | ack

fun message_code :: "message \<Rightarrow> u64" where
  "message_code hello = 1"
| "message_code admission = 2"
| "message_code sample_message = 3"
| "message_code stop_message = 4"
| "message_code settlement = 5"
| "message_code ack = 6"

definition SHL1 :: u64 where "SHL1 = 0x314c4853"

definition header :: "message \<Rightarrow> u64 \<Rightarrow> u64 \<Rightarrow> u64 \<Rightarrow> digest \<Rightarrow> u8 list" where
  "header kind sequence part parts target =
    le_put 4 SHL1 @ le_put 2 1 @ le_put 2 (message_code kind) @ le_put 4 sequence @
    le_put 2 part @ le_put 2 parts @ take 16 target"

definition make_frame :: "message \<Rightarrow> u64 \<Rightarrow> u64 \<Rightarrow> u64 \<Rightarrow> digest \<Rightarrow> frame" where
  "make_frame kind sequence part parts target =
    header kind sequence part parts target @ replicate 32 0"

record admission_terms =
  a_origin :: u64
  a_working :: u64
  a_commit :: u64
  a_duration :: u32
  a_handles :: u32

definition admission_valid :: "admission_terms \<Rightarrow> bool" where
  "admission_valid a \<longleftrightarrow>
    a_duration a = 30000 \<and> a_working a \<noteq> 0 \<and> a_commit a \<noteq> 0 \<and> a_handles a \<noteq> 0"

definition encode_admission :: "admission_terms \<Rightarrow> digest \<Rightarrow> frame" where
  "encode_admission a d =
    header admission 1 0 1 d @ le_put 8 (a_origin a) @ le_put 4 (ucast (a_duration a)) @
    le_put 4 (ucast (a_handles a)) @ le_put 8 (a_working a) @ le_put 8 (a_commit a)"

definition decode_admission :: "frame \<Rightarrow> admission_terms" where
  "decode_admission f =
    \<lparr>a_origin = field_at f 32 8, a_working = field_at f 48 8, a_commit = field_at f 56 8,
     a_duration = ucast (field_at f 40 4), a_handles = ucast (field_at f 44 4)\<rparr>"

definition bind_admission :: "admission_terms \<Rightarrow> crypto_ledger \<Rightarrow> bool \<times> crypto_ledger" where
  "bind_admission a l =
    (if \<not> admission_valid a \<or> clock_initialized l \<or> abi_attempted_total l \<noteq> 0 then (False, l)
     else
       (True,
        (bind_launch_origin (a_origin a) l)
          \<lparr>max_elapsed_ms := ucast (a_duration a), working_set_limit_bytes := a_working a,
           commit_limit_bytes := a_commit a, handle_limit := a_handles a\<rparr>))"

section \<open>The bounded reader\<close>

datatype read_result = Read_frame frame | Read_eof | Read_truncated | Read_error | Read_timeout

record chunk =
  chunk_bytes :: "u8 list"
  chunk_eof :: bool
  chunk_error :: bool
  chunk_timeout :: bool

text \<open>
  \<open>read\<close> answers for the space that is left and \<open>alive\<close> is asked before and after each
  call; both act on the environment \<open>'e\<close>.  A reader that claims more bytes than it was
  given room for is an error.  The loop makes at most \<open>calls\<close> (64) reads.
\<close>

fun read_frame ::
    "nat \<Rightarrow> (nat \<Rightarrow> 'e \<Rightarrow> chunk \<times> 'e) \<Rightarrow> ('e \<Rightarrow> bool \<times> 'e) \<Rightarrow> u8 list \<Rightarrow> 'e \<Rightarrow> read_result \<times> 'e" where
  "read_frame 0 read alive used e = (Read_error, e)"
| "read_frame (Suc calls) read alive used e =
    (let (before, e) = alive e
     in if \<not> before then (Read_timeout, e)
        else
          let space = 64 - length used; (c, e) = read space e; (after, e) = alive e
          in if \<not> after \<or> chunk_timeout c then (Read_timeout, e)
             else if chunk_error c \<or> space < length (chunk_bytes c) \<or> (chunk_eof c \<and> chunk_bytes c \<noteq> [])
             then (Read_error, e)
             else if chunk_eof c then (if used \<noteq> [] then Read_truncated else Read_eof, e)
             else if chunk_bytes c = [] then (Read_error, e)
             else
               let used = used @ chunk_bytes c
               in if length used = 64 then (Read_frame used, e) else read_frame calls read alive used e)"

definition read_exact_frame ::
    "(nat \<Rightarrow> 'e \<Rightarrow> chunk \<times> 'e) \<Rightarrow> ('e \<Rightarrow> bool \<times> 'e) \<Rightarrow> 'e \<Rightarrow> read_result \<times> 'e" where
  "read_exact_frame read alive e = read_frame 64 read alive [] e"

section \<open>Settlement\<close>

definition stages :: "string list" where
  "stages =
    [''none'', ''abi_call_budget_exceeded'', ''deadline_exceeded'', ''resource_observation_invalid'',
     ''resource_budget_exceeded'', ''resource_observation_failed'', ''call_budget_exceeded'',
     ''forbidden_symbol_resolution'', ''symbol_lookup_exception'', ''missing_allowed_symbol'',
     ''buffer_alloc_precondition'', ''buffer_alloc_exception'', ''buffer_alloc_null'',
     ''unknown_buffer_slot'', ''duplicate_buffer_release'', ''free_budget_unsettled'',
     ''buffer_release_unknown'', ''native_budget'', ''duplicate_or_unowned_release'',
     ''supervisor_stop'', ''before_work'', ''after_final_settlement''] @ kSteps @ kNativeNames"

definition codes :: "string list" where
  "codes =
    [''NONE'', ''BUDGET_EXCEEDED'', ''MEASUREMENT_UNAVAILABLE'', ''SETTLEMENT_UNKNOWN'',
     ''SECURITY_REJECT_MISMATCH'', ''ADMISSION_BLOCKED'', ''UNAUTHORIZED_ACCESS'',
     ''ARTIFACT_INVALID'', ''OWNERSHIP_UNKNOWN'']"

text \<open>The position of a string in its table; an unknown string has none.\<close>

definition string_id :: "string list \<Rightarrow> string \<Rightarrow> nat option" where
  "string_id table s = find_step s table 0"

definition scalars :: "crypto_ledger \<Rightarrow> u32 list" where
  "scalars l =
    [attempted_steps l, returned_steps l, completed_steps l, l_attempted l, l_returned l,
     l_completed l, l_successful l, l_accepted l, abi_reserved l, generate_reserved l,
     encode_sign_reserved l, verify_reserved l, verify_positive_reserved l,
     verify_negative_reserved l, policy_reserved l, budget_rejections l, abi_attempted_total l,
     allowed_symbol_resolutions l, forbidden_symbol_attempts l, buffers_allocated l,
     buffers_live l, releases_attempted l, releases_succeeded l, releases_unknown l,
     duplicate_release_attempts l, observation_attempts l, observation_failures l, l_samples l,
     handles_first l, handles_last l, handles_max_sampled l, handle_limit l]"

definition longs :: "crypto_ledger \<Rightarrow> u64 list" where
  "longs l =
    [peak_working_set l, peak_commit l, working_set_limit_bytes l, commit_limit_bytes l,
     max_elapsed_ms l, start_ms l, last_ms l, elapsed_ms l]"

definition count_words :: "call_counts \<Rightarrow> u32 list" where
  "count_words c = [attempted_n c, returned_n c, accepted_n c, settled_n c, unknown_n c, failed_n c]"

definition native_words :: "native_observation \<Rightarrow> u32 list" where
  "native_words n = [obs_acquired n, obs_released n, obs_still_owned n, obs_quarantined n]"

definition flag_bit :: "nat \<Rightarrow> bool \<Rightarrow> u32" where
  "flag_bit i b = (if b then push_bit i 1 else 0)"

definition flags_word :: "crypto_ledger \<Rightarrow> native_observation \<Rightarrow> u32" where
  "flags_word l n =
    flag_bit 0 (clock_initialized l) OR flag_bit 1 (l_stopped l) OR flag_bit 2 (settlement_unknown l)
      OR flag_bit 3 (obs_stopped n) OR flag_bit 4 (obs_unknown n) OR flag_bit 5 (obs_first_unknown n)"

definition put_words :: "u32 list \<Rightarrow> u8 list" where
  "put_words ws = concat (map (\<lambda>w. le_put 4 (ucast w)) ws)"

definition put_longs :: "u64 list \<Rightarrow> u8 list" where
  "put_longs ws = concat (map (le_put 8) ws)"

definition encode_settlement :: "crypto_ledger \<Rightarrow> native_observation \<Rightarrow> u8 list option" where
  "encode_settlement l n =
    (case (string_id codes (failure_code l), string_id stages (first_failure l),
           string_id stages (obs_first_failure n)) of
       (Some code, Some ledger_stage, Some native_stage) \<Rightarrow>
         let body =
               put_words (concat (map count_words (abi_calls l))) @
               put_words (concat (map count_words (obs_calls n))) @
               put_words (scalars l) @ put_words (native_words n) @ put_longs (longs l) @
               put_words [flags_word l n, first_status l, of_nat code, of_nat ledger_stage,
                          of_nat native_stage]
         in if length body \<noteq> 732 then None
            else let b = body @ replicate 4 0 in Some (b @ sha256_digest b)
     | _ \<Rightarrow> None)"

definition word_from :: "u8 list \<Rightarrow> nat \<Rightarrow> u32" where
  "word_from bs i = ucast (field_at bs (4 * i) 4)"

fun group_counts :: "u32 list \<Rightarrow> call_counts list" where
  "group_counts (a # b # c # d # e # f # ws) =
    \<lparr>attempted_n = a, returned_n = b, accepted_n = c, settled_n = d, unknown_n = e, failed_n = f\<rparr>
      # group_counts ws"
| "group_counts _ = []"

text \<open>The ledger and the observer from the words, the longs and the trailing words.\<close>

definition ledger_from ::
    "call_counts list \<Rightarrow> u32 list \<Rightarrow> u64 list \<Rightarrow> u32 \<Rightarrow> u32 \<Rightarrow> string \<Rightarrow> string \<Rightarrow> crypto_ledger" where
  "ledger_from calls w q flags status code stage =
    \<lparr>attempted_steps = w ! 0, returned_steps = w ! 1, completed_steps = w ! 2, l_attempted = w ! 3,
     l_returned = w ! 4, l_completed = w ! 5, l_successful = w ! 6, l_accepted = w ! 7,
     abi_reserved = w ! 8, generate_reserved = w ! 9, encode_sign_reserved = w ! 10,
     verify_reserved = w ! 11, verify_positive_reserved = w ! 12,
     verify_negative_reserved = w ! 13, policy_reserved = w ! 14, budget_rejections = w ! 15,
     abi_calls = calls, abi_attempted_total = w ! 16, allowed_symbol_resolutions = w ! 17,
     forbidden_symbol_attempts = w ! 18, buffers_allocated = w ! 19, buffers_live = w ! 20,
     releases_attempted = w ! 21, releases_succeeded = w ! 22, releases_unknown = w ! 23,
     duplicate_release_attempts = w ! 24, observation_attempts = w ! 25,
     observation_failures = w ! 26, l_samples = w ! 27, peak_working_set = q ! 0,
     peak_commit = q ! 1, handles_first = w ! 28, handles_last = w ! 29,
     handles_max_sampled = w ! 30, working_set_limit_bytes = q ! 2, commit_limit_bytes = q ! 3,
     handle_limit = w ! 31, max_elapsed_ms = q ! 4, clock_initialized = flags AND 1 \<noteq> 0,
     start_ms = q ! 5, last_ms = q ! 6, elapsed_ms = q ! 7, l_stopped = flags AND 2 \<noteq> 0,
     settlement_unknown = flags AND 4 \<noteq> 0, first_failure = stage, failure_code = code,
     first_status = status\<rparr>"

definition observation_from ::
    "call_counts list \<Rightarrow> u32 list \<Rightarrow> u32 \<Rightarrow> string \<Rightarrow> native_observation" where
  "observation_from calls w flags stage =
    \<lparr>obs_calls = calls, obs_acquired = w ! 0, obs_released = w ! 1, obs_still_owned = w ! 2,
     obs_quarantined = w ! 3, obs_stopped = flags AND 8 \<noteq> 0, obs_unknown = flags AND 16 \<noteq> 0,
     obs_first_unknown = flags AND 32 \<noteq> 0, obs_first_failure = stage\<rparr>"

text \<open>Words 0 to 161 are counts, scalars and custody, then eight longs, then five words.\<close>

definition decode_settlement :: "u8 list \<Rightarrow> (crypto_ledger \<times> native_observation) option" where
  "decode_settlement b =
    (if sha256_digest (take 736 b) \<noteq> take 32 (drop 736 b) \<or> \<not> all_zero (take 4 (drop 732 b)) then None
     else
       let w = map (word_from b) [0..<162];
           q = map (\<lambda>i. field_at b (648 + 8 * i) 8) [0..<8];
           t = map (\<lambda>i. word_from b (178 + i)) [0..<5];
           calls = group_counts (take 126 w);
           flags = t ! 0; status = t ! 1;
           code = unat (t ! 2); ls = unat (t ! 3); ns = unat (t ! 4)
       in if flags AND NOT 63 \<noteq> 0 then None
          else if length codes \<le> code \<or> length stages \<le> ls \<or> length stages \<le> ns then None
          else
            Some (ledger_from (take 7 calls) (take 32 (drop 126 w)) q flags status (codes ! code) (stages ! ls),
                  observation_from (drop 7 calls) (drop 158 w) flags (stages ! ns)))"

definition settlement_frames :: "u8 list \<Rightarrow> digest \<Rightarrow> u64 \<Rightarrow> frame list" where
  "settlement_frames s d sequence =
    map (\<lambda>i. header settlement (sequence + of_nat i) (of_nat i) 24 d @ take 32 (drop (32 * i) s)) [0..<24]"

section \<open>The directional channel\<close>

record channel =
  ch_target :: digest
  ch_worker :: bool
  ch_admission_only :: bool
  ch_failed :: bool
  ch_stopped :: bool
  ch_acknowledged :: bool
  ch_count :: u32
  ch_samples :: u32
  ch_parts :: u32
  ch_settlement :: "u8 list"

definition fresh_channel :: "digest \<Rightarrow> bool \<Rightarrow> bool \<Rightarrow> channel" where
  "fresh_channel target from_worker admission_only =
    \<lparr>ch_target = target, ch_worker = from_worker, ch_admission_only = admission_only,
     ch_failed = False, ch_stopped = False, ch_acknowledged = False, ch_count = 0, ch_samples = 0,
     ch_parts = 0, ch_settlement = replicate 768 0\<rparr>"

definition frame_well_formed :: "channel \<Rightarrow> frame \<Rightarrow> bool" where
  "frame_well_formed c f \<longleftrightarrow>
    field_at f 0 4 = SHL1 \<and> field_at f 4 2 = 1 \<and> field_at f 8 4 = ucast (ch_count c + 1) \<and>
    take 16 (drop 16 f) = take 16 (ch_target c)"

definition put_part :: "nat \<Rightarrow> u8 list \<Rightarrow> u8 list \<Rightarrow> u8 list" where
  "put_part i body s = take (32 * i) s @ body @ drop (32 * i + 32) s"

text \<open>What a frame of each kind does to a channel that is not failed; \<open>None\<close> rejects it.\<close>

definition take_stop :: "channel \<Rightarrow> frame \<Rightarrow> channel option" where
  "take_stop c f =
    (if ch_stopped c \<or> ch_acknowledged c \<or> ch_count c = 0 \<or> field_at f 14 2 \<noteq> 1 \<or> field_at f 12 2 \<noteq> 0 \<or>
        field_at f 32 4 < 1 \<or> 7 < field_at f 32 4 \<or> \<not> all_zero (take 16 (drop 48 f))
     then None else Some (c\<lparr>ch_stopped := True\<rparr>))"

definition take_hello :: "channel \<Rightarrow> frame \<Rightarrow> channel option" where
  "take_hello c f =
    (if field_at f 6 2 \<noteq> 1 \<or> field_at f 12 2 \<noteq> 0 \<or> field_at f 14 2 \<noteq> 1 \<or> field_at f 32 4 = 0 \<or>
        field_at f 36 4 \<noteq> 3 \<or> field_at f 40 4 \<noteq> 0 \<or> \<not> all_zero (take 4 (drop 44 f))
     then None else Some c)"

definition take_sample :: "channel \<Rightarrow> frame \<Rightarrow> channel option" where
  "take_sample c f =
    (let expected = (if ch_admission_only c then 0 else if ch_samples c = 17 then 16 else ch_samples c)
     in if ch_stopped c \<or> ch_parts c \<noteq> 0 \<or> 18 \<le> ch_samples c \<or> field_at f 14 2 \<noteq> 18 \<or>
           field_at f 12 2 \<noteq> ucast (ch_samples c) \<or> field_at f 60 4 \<noteq> ucast expected
        then None else Some (c\<lparr>ch_samples := ch_samples c + 1\<rparr>))"

definition take_settlement :: "channel \<Rightarrow> frame \<Rightarrow> channel option" where
  "take_settlement c f =
    (if field_at f 14 2 \<noteq> 24 \<or> field_at f 12 2 \<noteq> ucast (ch_parts c) \<or> 24 \<le> ch_parts c \<or>
        (ch_samples c \<noteq> 18 \<and> \<not> ch_stopped c) then None
     else
       let c = c\<lparr>ch_settlement := put_part (unat (ch_parts c)) (take 32 (drop 32 f)) (ch_settlement c),
                 ch_parts := ch_parts c + 1\<rparr>
       in if ch_parts c = 24 \<and> decode_settlement (ch_settlement c) = None then None else Some c)"

definition take_control :: "channel \<Rightarrow> frame \<Rightarrow> channel option" where
  "take_control c f =
    (if ch_count c = 0 then
       (if field_at f 6 2 \<noteq> 2 \<or> field_at f 12 2 \<noteq> 0 \<or> field_at f 14 2 \<noteq> 1 \<or>
           \<not> admission_valid (decode_admission f)
        then None else Some c)
     else if field_at f 6 2 \<noteq> 6 \<or> ch_acknowledged c \<or> field_at f 12 2 \<noteq> 0 \<or> field_at f 14 2 \<noteq> 1 \<or>
             field_at f 32 4 \<noteq> 1 \<or> \<not> all_zero (take 28 (drop 36 f))
     then None else Some (c\<lparr>ch_acknowledged := True\<rparr>))"

definition take_frame :: "channel \<Rightarrow> frame \<Rightarrow> channel option" where
  "take_frame c f =
    (let kind = field_at f 6 2
     in if ch_failed c \<or> (if ch_worker c then 44 else 3) \<le> ch_count c then None
        else if \<not> frame_well_formed c f then None
        else if kind < 1 \<or> 6 < kind then None
        else if kind = 4 then take_stop c f
        else if ch_worker c then
          (if ch_count c = 0 then take_hello c f
           else if kind = 3 then take_sample c f
           else if kind = 5 then take_settlement c f
           else None)
        else take_control c f)"

text \<open>
  \<open>Channel::accept\<close>.  A rejected last settlement part has already been copied, which
  no later operation can observe: the channel has failed.
\<close>

definition channel_accept :: "channel \<Rightarrow> frame \<Rightarrow> bool \<times> channel" where
  "channel_accept c f =
    (case take_frame c f of
       None \<Rightarrow> (False, c\<lparr>ch_failed := True\<rparr>)
     | Some c \<Rightarrow> (True, c\<lparr>ch_count := ch_count c + 1\<rparr>))"

fun accept_frames :: "channel \<Rightarrow> frame list \<Rightarrow> bool \<times> channel" where
  "accept_frames c [] = (True, c)"
| "accept_frames c (f # fs) =
    (case channel_accept c f of (ok, c) \<Rightarrow> if ok then accept_frames c fs else (False, c))"

definition channel_complete :: "channel \<Rightarrow> bool" where
  "channel_complete c \<longleftrightarrow> ch_worker c \<and> \<not> ch_failed c \<and> ch_parts c = 24"

definition channel_records :: "channel \<Rightarrow> (crypto_ledger \<times> native_observation) option" where
  "channel_records c = (if channel_complete c then decode_settlement (ch_settlement c) else None)"

definition channel_broken :: "channel \<Rightarrow> channel" where
  "channel_broken c = c\<lparr>ch_failed := True\<rparr>"

section \<open>Reading back single fields\<close>

lemma length_le_put [simp]: "length (le_put k n) = k"
  by (simp add: le_put_def)

lemma le_put_Suc: "le_put (Suc k) n = ucast n # le_put k (drop_bit 8 n)"
  unfolding le_put_def by (subst upt_conv_Cons) (simp_all add: map_Suc_upt [symmetric] add.commute del: upt_Suc)

lemma of_le_put: "of_le_bytes (le_put k n) = take_bit (8 * k) n"
proof (induction k arbitrary: n)
  case 0
  then show ?case by (simp add: le_put_def of_le_bytes_def)
next
  case (Suc k)
  have "of_le_bytes (le_put (Suc k) n) = ucast (ucast n :: u8) OR push_bit 8 (of_le_bytes (le_put k (drop_bit 8 n)))"
    by (simp add: le_put_Suc of_le_bytes_def)
  also have "\<dots> = take_bit (8 * Suc k) n"
    unfolding Suc.IH by (rule bit_word_eqI) (auto simp: bit_simps)
  finally show ?case .
qed

lemma field_at_put:
  "length pre = pos \<Longrightarrow> field_at (pre @ le_put k n @ post) pos k = take_bit (8 * k) n"
  by (simp add: field_at_def of_le_put)

lemma read_chunks:
  assumes "\<And>x. length (f x) = k" and "i < length xs"
  shows "take k (drop (k * i) (concat (map f xs) @ post)) = f (xs ! i)"
  using assms(2)
proof (induction xs arbitrary: i)
  case (Cons x xs)
  then show ?case using assms(1) by (cases i) auto
qed simp

lemma length_put_words [simp]: "length (put_words ws) = 4 * length ws"
  by (induction ws) (simp_all add: put_words_def)

lemma length_put_longs [simp]: "length (put_longs ws) = 8 * length ws"
  by (induction ws) (simp_all add: put_longs_def)

lemma take_bit_whole: "take_bit 64 (n :: u64) = n"
  by (rule bit_word_eqI) (auto simp: bit_simps)

lemma word_back: "ucast (take_bit 32 (ucast (w :: u32)) :: u64) = w"
  by (rule bit_word_eqI) (auto simp: bit_simps)

lemma read_word:
  assumes "length pre = 4 * k" and "i < length ws"
  shows "word_from (pre @ put_words ws @ post) (k + i) = ws ! i"
proof -
  have "take 4 (drop (4 * (k + i)) (pre @ put_words ws @ post)) = le_put 4 (ucast (ws ! i))"
    using assms read_chunks [of "\<lambda>w. le_put 4 (ucast w)" 4 i ws post]
    by (simp add: put_words_def distrib_left)
  then show ?thesis by (simp add: word_from_def field_at_def of_le_put word_back)
qed

lemma read_long:
  assumes "length pre = k" and "i < length ws"
  shows "field_at (pre @ put_longs ws @ post) (k + 8 * i) 8 = ws ! i"
proof -
  have "take 8 (drop (k + 8 * i) (pre @ put_longs ws @ post)) = le_put 8 (ws ! i)"
    using assms read_chunks [of "le_put 8" 8 i ws post] by (simp add: put_longs_def)
  then show ?thesis by (simp only: field_at_def of_le_put) (simp add: take_bit_whole)
qed

section \<open>A settlement decodes to what was encoded\<close>

lemma find_step_Some:
  "find_step s table i = Some k \<Longrightarrow> i \<le> k \<and> k - i < length table \<and> table ! (k - i) = s"
proof (induction table arbitrary: i)
  case (Cons x table)
  then show ?case
    by (cases "x = s") (auto simp: nth_Cons' Suc_diff_Suc dest!: Cons.IH split: if_splits)
qed simp

lemma string_id_Some: "string_id table s = Some k \<Longrightarrow> k < length table \<and> table ! k = s"
  unfolding string_id_def by (drule find_step_Some) simp

lemma table_sizes: "length codes = 9" "length stages = 52"
  by (simp_all add: codes_def stages_def kSteps_def kNativeNames_def)

lemma group_counts_words: "group_counts (concat (map count_words cs)) = cs"
  by (induction cs) (simp_all add: count_words_def)

lemma put_words_append: "put_words (xs @ ys) = put_words xs @ put_words ys"
  by (simp add: put_words_def)

lemma length_count_words: "length (concat (map count_words cs)) = 6 * length cs"
  by (induction cs) (simp_all add: count_words_def)

lemma flags_back:
  "flags_word l n AND NOT 63 = 0"
  "(flags_word l n AND 1 \<noteq> 0) = clock_initialized l" "(flags_word l n AND 2 \<noteq> 0) = l_stopped l"
  "(flags_word l n AND 4 \<noteq> 0) = settlement_unknown l" "(flags_word l n AND 8 \<noteq> 0) = obs_stopped n"
  "(flags_word l n AND 16 \<noteq> 0) = obs_unknown n" "(flags_word l n AND 32 \<noteq> 0) = obs_first_unknown n"
  by (cases "clock_initialized l"; cases "l_stopped l"; cases "settlement_unknown l"; cases "obs_stopped n";
      cases "obs_unknown n"; cases "obs_first_unknown n"; simp add: flags_word_def flag_bit_def)+

lemma ledger_from_back:
  "ledger_from (abi_calls l) (scalars l) (longs l) (flags_word l n) (first_status l) (failure_code l)
     (first_failure l) = l"
  unfolding ledger_from_def flags_back by (cases l) (simp add: scalars_def longs_def)

lemma observation_from_back:
  "observation_from (obs_calls n) (native_words n) (flags_word l n) (obs_first_failure n) = n"
  unfolding observation_from_def flags_back by (cases n) (simp add: native_words_def)

lemma map_nth_list: "length xs = n \<Longrightarrow> map (\<lambda>i. xs ! i) [0..<n] = xs"
  using map_nth [of xs] by simp

lemma decode_words:
  fixes w :: "u32 list" and q :: "u64 list" and t :: "u32 list" and post :: "u8 list"
  assumes "length w = 162" and "length q = 8" and "length t = 5"
  defines "b \<equiv> put_words w @ put_longs q @ put_words t @ post"
  shows "map (word_from b) [0..<162] = w" "map (\<lambda>i. field_at b (648 + 8 * i) 8) [0..<8] = q"
    "map (\<lambda>i. word_from b (178 + i)) [0..<5] = t"
proof -
  have "word_from b i = w ! i" if "i < 162" for i
    using read_word [of "[]" 0 i w "put_longs q @ put_words t @ post"] that assms(1) by (simp add: b_def)
  then show "map (word_from b) [0..<162] = w"
    using assms(1) by (simp add: list_eq_iff_nth_eq)
  have "field_at b (648 + 8 * i) 8 = q ! i" if "i < 8" for i
    using read_long [of "put_words w" 648 i q "put_words t @ post"] that assms(1,2) by (simp add: b_def)
  then show "map (\<lambda>i. field_at b (648 + 8 * i) 8) [0..<8] = q"
    using assms(2) by (simp add: list_eq_iff_nth_eq)
  have "word_from b (178 + i) = t ! i" if "i < 5" for i
    using read_word [of "put_words w @ put_longs q" 178 i t post] that assms by (simp add: b_def)
  then show "map (\<lambda>i. word_from b (178 + i)) [0..<5] = t"
    using assms(3) by (simp add: list_eq_iff_nth_eq)
qed

definition wire_shape :: "crypto_ledger \<Rightarrow> native_observation \<Rightarrow> bool" where
  "wire_shape l n \<longleftrightarrow> length (abi_calls l) = 7 \<and> length (obs_calls n) = kNativeOpCount"

lemma encoded_body:
  assumes "encode_settlement l n = Some b"
  obtains code ls ns where
    "string_id codes (failure_code l) = Some code" "string_id stages (first_failure l) = Some ls"
    "string_id stages (obs_first_failure n) = Some ns"
    "b = ((put_words (concat (map count_words (abi_calls l @ obs_calls n)) @ scalars l @ native_words n) @
           put_longs (longs l) @
           put_words [flags_word l n, first_status l, of_nat code, of_nat ls, of_nat ns]) @ replicate 4 0) @
         sha256_digest ((put_words (concat (map count_words (abi_calls l @ obs_calls n)) @ scalars l @ native_words n) @
           put_longs (longs l) @
           put_words [flags_word l n, first_status l, of_nat code, of_nat ls, of_nat ns]) @ replicate 4 0)"
  using assms by (auto simp: encode_settlement_def Let_def put_words_append split: option.splits if_splits)

lemma settlement_decodes:
  assumes "wire_shape l n" and e: "encode_settlement l n = Some b"
  shows "decode_settlement b = Some (l, n)" and "length b = 768"
proof -
  obtain code ls ns where ids: "string_id codes (failure_code l) = Some code"
    "string_id stages (first_failure l) = Some ls" "string_id stages (obs_first_failure n) = Some ns"
    and b: "b = ((put_words (concat (map count_words (abi_calls l @ obs_calls n)) @ scalars l @ native_words n) @
           put_longs (longs l) @
           put_words [flags_word l n, first_status l, of_nat code, of_nat ls, of_nat ns]) @ replicate 4 0) @
         sha256_digest ((put_words (concat (map count_words (abi_calls l @ obs_calls n)) @ scalars l @ native_words n) @
           put_longs (longs l) @
           put_words [flags_word l n, first_status l, of_nat code, of_nat ls, of_nat ns]) @ replicate 4 0)"
    by (rule encoded_body [OF e])
  define c where "c = abi_calls l @ obs_calls n"
  define w where "w = concat (map count_words c) @ scalars l @ native_words n"
  define t where "t = [flags_word l n, first_status l, of_nat code, of_nat ls, of_nat ns :: u32]"
  define body where "body = put_words w @ put_longs (longs l) @ put_words t"
  have lc: "length c = 21" using assms(1) by (simp add: c_def wire_shape_def kNativeOpCount_def)
  have lw: "length w = 162" by (simp add: w_def length_count_words lc scalars_def native_words_def)
  have lq: "length (longs l) = 8" by (simp add: longs_def)
  have lt: "length t = 5" by (simp add: t_def)
  have lb: "length body = 732" by (simp add: body_def lw lq lt)
  have b': "b = (body @ replicate 4 0) @ sha256_digest (body @ replicate 4 0)"
    unfolding b body_def w_def t_def c_def by simp
  show "length b = 768" by (simp add: b' lb)
  have parts: "take 736 b = body @ replicate 4 0" "take 32 (drop 736 b) = sha256_digest (body @ replicate 4 0)"
    "take 4 (drop 732 b) = replicate 4 0"
    by (simp_all add: b' lb)
  have "b = put_words w @ put_longs (longs l) @ put_words t @ replicate 4 0 @ sha256_digest (body @ replicate 4 0)"
    unfolding b' body_def by simp
  note d = decode_words [OF lw lq lt, of "replicate 4 0 @ sha256_digest (body @ replicate 4 0)", folded this]
  have ws: "take 126 w = concat (map count_words c)" "take 32 (drop 126 w) = scalars l" "drop 158 w = native_words n"
    by (simp_all add: w_def length_count_words lc scalars_def)
  have g: "take 7 c = abi_calls l" "drop 7 c = obs_calls n"
    using assms(1) by (simp_all add: c_def wire_shape_def)
  have k: "code < 9" "codes ! code = failure_code l" "ls < 52" "stages ! ls = first_failure l"
    "ns < 52" "stages ! ns = obs_first_failure n"
    using ids [THEN string_id_Some] by (simp_all add: table_sizes)
  have u: "unat (of_nat code :: u32) = code" "unat (of_nat ls :: u32) = ls" "unat (of_nat ns :: u32) = ns"
    using k(1,3,5) by (simp_all add: unsigned_of_nat take_bit_nat_eq_self)
  have ts: "t ! 0 = flags_word l n" "t ! 1 = first_status l" "t ! 2 = of_nat code" "t ! 3 = of_nat ls" "t ! 4 = of_nat ns"
    by (simp_all add: t_def)
  show "decode_settlement b = Some (l, n)"
    unfolding decode_settlement_def Let_def d ws g ts u group_counts_words parts k(2,4,6) ledger_from_back
      observation_from_back table_sizes flags_back(1)
    using k(1,3,5) by (simp add: all_zero_def list_all_length)
qed

section \<open>A settlement is delivered\<close>

lemma take_bit_small: "n < 2 ^ k \<Longrightarrow> take_bit k (of_nat n :: u64) = of_nat n"
  by (metis of_nat_take_bit take_bit_nat_eq_self)

lemma header_fields:
  assumes "16 \<le> length d"
  shows "field_at (header k s p ps d @ x) 0 4 = SHL1" "field_at (header k s p ps d @ x) 4 2 = 1"
    "field_at (header k s p ps d @ x) 6 2 = message_code k"
    "field_at (header k s p ps d @ x) 8 4 = take_bit 32 s"
    "field_at (header k s p ps d @ x) 12 2 = take_bit 16 p"
    "field_at (header k s p ps d @ x) 14 2 = take_bit 16 ps"
    "take 16 (drop 16 (header k s p ps d @ x)) = take 16 d"
    "take 32 (drop 32 (header k s p ps d @ x)) = take 32 x"
proof -
  let ?a = "le_put 4 SHL1" and ?b = "le_put 2 1" and ?c = "le_put 2 (message_code k)" and ?s = "le_put 4 s"
    and ?p = "le_put 2 p" and ?q = "le_put 2 ps" and ?t = "take 16 d"
  have magic: "take_bit 32 SHL1 = SHL1" by (simp add: SHL1_def)
  have code: "take_bit 16 (message_code k) = message_code k" by (cases k) simp_all
  show "field_at (header k s p ps d @ x) 0 4 = SHL1"
    using field_at_put [of "[]" 0 4 SHL1] magic by (simp add: header_def)
  show "field_at (header k s p ps d @ x) 4 2 = 1"
    using field_at_put [of ?a 4 2 1] by (simp add: header_def)
  show "field_at (header k s p ps d @ x) 6 2 = message_code k"
    using field_at_put [of "?a @ ?b" 6 2 "message_code k"] code by (simp add: header_def)
  show "field_at (header k s p ps d @ x) 8 4 = take_bit 32 s"
    using field_at_put [of "?a @ ?b @ ?c" 8 4 s] by (simp add: header_def)
  show "field_at (header k s p ps d @ x) 12 2 = take_bit 16 p"
    using field_at_put [of "?a @ ?b @ ?c @ ?s" 12 2 p] by (simp add: header_def)
  show "field_at (header k s p ps d @ x) 14 2 = take_bit 16 ps"
    using field_at_put [of "?a @ ?b @ ?c @ ?s @ ?p" 14 2 ps] by (simp add: header_def)
  show "take 16 (drop 16 (header k s p ps d @ x)) = take 16 d" "take 32 (drop 32 (header k s p ps d @ x)) = take 32 x"
    using assms by (simp_all add: header_def)
qed

text \<open>A worker channel that still expects its whole settlement.\<close>

definition owes_settlement :: "channel \<Rightarrow> bool" where
  "owes_settlement c \<longleftrightarrow>
    ch_worker c \<and> \<not> ch_failed c \<and> 0 < ch_count c \<and> ch_count c \<le> 20 \<and> ch_parts c = 0 \<and>
    (ch_samples c = 18 \<or> ch_stopped c) \<and> 16 \<le> length (ch_target c) \<and> length (ch_settlement c) = 768"

definition after_parts :: "channel \<Rightarrow> u8 list \<Rightarrow> nat \<Rightarrow> channel" where
  "after_parts c s i =
    c\<lparr>ch_count := ch_count c + of_nat i, ch_parts := of_nat i,
      ch_settlement := take (32 * i) s @ drop (32 * i) (ch_settlement c)\<rparr>"

definition part_frame :: "u8 list \<Rightarrow> digest \<Rightarrow> u64 \<Rightarrow> nat \<Rightarrow> frame" where
  "part_frame s d sequence i =
    header settlement (sequence + of_nat i) (of_nat i) 24 d @ take 32 (drop (32 * i) s)"

lemma settlement_frames_parts: "settlement_frames s d sequence = map (part_frame s d sequence) [0..<24]"
  by (simp add: settlement_frames_def part_frame_def)

lemma part_accepted:
  assumes c: "owes_settlement c" and s: "length s = 768" and i: "i < 24"
    and decodes: "decode_settlement s \<noteq> None"
  shows "channel_accept (after_parts c s i) (part_frame s (ch_target c) (ucast (ch_count c) + 1) i) =
    (True, after_parts c s (Suc i))"
proof -
  define q where "q = unat (ch_count c)"
  have q20: "0 < q" "q \<le> 20"
    using c unfolding q_def owes_settlement_def by (simp_all add: word_less_nat_alt word_le_nat_alt)
  have cq: "ch_count c = of_nat q" by (simp add: q_def)
  have uq: "(ucast (ch_count c) :: u64) = of_nat q" by (simp add: q_def)
  have small: "unat (of_nat k :: u32) = k" "unat (of_nat k :: u64) = k" if "k < 100" for k
    using that by (simp_all add: unsigned_of_nat take_bit_nat_eq_self)
  have up: "(ucast (of_nat k :: u32) :: u64) = of_nat k" if "k < 100" for k
    using small(1) [OF that] by (metis of_nat_unat)
  have seq: "take_bit 32 (ucast (ch_count c) + 1 + of_nat i :: u64) = ucast (ch_count c + of_nat i + 1)"
    using take_bit_small [of "q + i + 1" 32] up [of "q + i + 1"] q20 i unfolding uq unfolding cq by (simp add: ac_simps)
  have part: "take_bit 16 (of_nat i :: u64) = ucast (of_nat i :: u32)"
    using take_bit_small [of i 16] up [of i] i by simp
  have less: "ch_count c + of_nat i < (44 :: u32)" "(of_nat i :: u32) < 24"
    using small(1) [of "q + i"] small(1) [of i] q20 i by (simp_all add: cq word_less_nat_alt)
  have "unat (ch_count c + of_nat i :: u32) = q + i"
    using small(1) [of "q + i"] q20 i by (simp add: cq)
  then have nz: "ch_count c + of_nat i \<noteq> (0 :: u32)"
    using q20 by (metis add_is_0 less_numeral_extra(3) unsigned_0)
  have tgt: "16 \<le> length (ch_target c)" using c by (simp add: owes_settlement_def)
  let ?f = "part_frame s (ch_target c) (ucast (ch_count c) + 1) i"
  note fields = header_fields [OF tgt, of settlement "ucast (ch_count c) + 1 + of_nat i" "of_nat i" 24
      "take 32 (drop (32 * i) s)", folded part_frame_def]
  have put: "put_part i (take 32 (drop (32 * i) s)) (take (32 * i) s @ drop (32 * i) (ch_settlement c)) =
      take (32 * Suc i) s @ drop (32 * Suc i) (ch_settlement c)"
    using s i by (simp add: put_part_def take_add [of "32 * i" 32, symmetric] add.commute)
  have last: "i = 23 \<Longrightarrow> take (32 * Suc i) s @ drop (32 * Suc i) (ch_settlement c) = s"
    using s c by (simp add: owes_settlement_def)
  have "unat (of_nat i + 1 :: u32) = i + 1"
    using small(1) [of "i + 1"] i by (simp add: add.commute)
  then have end24: "(of_nat i + 1 = (24 :: u32)) \<longleftrightarrow> i = 23"
    by (simp add: word_unat_eq_iff)
  let ?c = "after_parts c s i"
  have wf: "frame_well_formed ?c ?f"
    by (simp add: frame_well_formed_def fields after_parts_def seq)
  have body: "take 32 (drop 32 ?f) = take 32 (drop (32 * i) s)"
    using fields(8) by simp
  have st: "take_settlement ?c ?f = Some (?c\<lparr>ch_settlement := take (32 * Suc i) s @ drop (32 * Suc i) (ch_settlement c),
      ch_parts := of_nat i + 1\<rparr>)"
    using c i decodes last less(2) small(1) [of i] end24
    by (simp add: take_settlement_def fields(5,6) part body after_parts_def put owes_settlement_def Let_def not_le)
  have tf: "take_frame ?c ?f = take_settlement ?c ?f"
    using c nz wf fields(3) less(1) [folded not_le]
    by (simp add: take_frame_def after_parts_def owes_settlement_def Let_def)
  show ?thesis
    unfolding channel_accept_def tf st by (simp add: after_parts_def ac_simps)
qed

lemma parts_accepted:
  assumes "owes_settlement c" and "length s = 768" and "decode_settlement s \<noteq> None" and "i \<le> 24"
  shows "accept_frames (after_parts c s i) (map (part_frame s (ch_target c) (ucast (ch_count c) + 1)) [i..<24]) =
    (True, after_parts c s 24)"
  using assms(4)
proof (induction i rule: inc_induct)
  case (step i)
  then show ?case
    using part_accepted [OF assms(1,2) step(2) assms(3)] by (simp add: upt_conv_Cons)
qed simp

lemma owed_settlement_arrives:
  assumes "owes_settlement c" and "wire_shape l n" and "encode_settlement l n = Some s"
  shows "\<exists>c'. accept_frames c (settlement_frames s (ch_target c) (ucast (ch_count c) + 1)) = (True, c') \<and>
    channel_complete c' \<and> channel_records c' = Some (l, n)"
proof -
  note d = settlement_decodes [OF assms(2,3)]
  have z: "after_parts c s 0 = c"
    using assms(1) by (simp add: after_parts_def owes_settlement_def)
  have "accept_frames c (settlement_frames s (ch_target c) (ucast (ch_count c) + 1)) = (True, after_parts c s 24)"
    using parts_accepted [OF assms(1) d(2), of 0] d(1) by (simp add: settlement_frames_parts z)
  moreover have "ch_settlement (after_parts c s 24) = s"
    using assms(1) d(2) by (simp add: after_parts_def owes_settlement_def)
  ultimately show ?thesis
    using assms(1) d(1)
    by (simp add: channel_records_def channel_complete_def) (simp add: after_parts_def owes_settlement_def)
qed

text \<open>A ledger whose diagnostics come from the tables can always be encoded.\<close>

lemma encoding_exists:
  assumes "wire_shape l n" and "string_id codes (failure_code l) \<noteq> None"
    and "string_id stages (first_failure l) \<noteq> None" and "string_id stages (obs_first_failure n) \<noteq> None"
  shows "\<exists>s. encode_settlement l n = Some s"
  using assms
  by (auto simp: encode_settlement_def Let_def wire_shape_def kNativeOpCount_def length_count_words
      scalars_def native_words_def longs_def)

text \<open>
  Claim C31.  A worker channel that has seen its hello and either all eighteen samples or a
  stop, and is still owed the settlement, accepts the twenty-four frames the worker makes of
  its ledger and observer, is then complete, and hands out exactly that ledger and that
  observer: every counter, flag, status and failure name survives the wire.
\<close>

theorem settlement_is_delivered_intact:
  assumes "owes_settlement c" and "wire_shape l n" and "encode_settlement l n = Some s"
  shows "\<exists>c'. accept_frames c (settlement_frames s (ch_target c) (ucast (ch_count c) + 1)) = (True, c') \<and>
    channel_complete c' \<and> channel_records c' = Some (l, n)"
  using assms by (rule owed_settlement_arrives)

definition sampled_channel :: channel where
  "sampled_channel = (fresh_channel (replicate 32 7) True False)\<lparr>ch_count := 19, ch_samples := 18\<rparr>"

lemma settlement_is_delivered_intact_witness:
  "\<exists>c'. accept_frames sampled_channel
      (settlement_frames (the (encode_settlement fresh_ledger fresh_observation)) (ch_target sampled_channel)
        (ucast (ch_count sampled_channel) + 1)) = (True, c') \<and>
    channel_complete c' \<and> channel_records c' = Some (fresh_ledger, fresh_observation)"
proof -
  have w: "wire_shape fresh_ledger fresh_observation"
    by (simp add: wire_shape_def fresh_ledger_def fresh_observation_def)
  have "\<exists>s. encode_settlement fresh_ledger fresh_observation = Some s"
    by (rule encoding_exists [OF w])
      (simp_all add: fresh_ledger_def fresh_observation_def string_id_def codes_def stages_def)
  then have e: "encode_settlement fresh_ledger fresh_observation =
      Some (the (encode_settlement fresh_ledger fresh_observation))" by auto
  have c: "owes_settlement sampled_channel"
    by (simp add: owes_settlement_def sampled_channel_def fresh_channel_def)
  show ?thesis by (rule settlement_is_delivered_intact [OF c w e])
qed

section \<open>What every channel upholds\<close>

definition channel_upheld :: "channel \<Rightarrow> bool" where
  "channel_upheld c \<longleftrightarrow>
    ch_count c \<le> (if ch_worker c then 44 else 3) \<and> ch_samples c \<le> 18 \<and> ch_parts c \<le> 24 \<and>
    (ch_parts c = 24 \<longrightarrow> decode_settlement (ch_settlement c) \<noteq> None)"

lemma count_steps:
  "(a :: u32) < 44 \<Longrightarrow> a + 1 \<le> 44" "(a :: u32) < 3 \<Longrightarrow> a + 1 \<le> 3"
  "(a :: u32) < 18 \<Longrightarrow> a + 1 \<le> 18" "(a :: u32) < 24 \<Longrightarrow> a + 1 \<le> 24"
  by (simp_all add: inc_le)

lemma taken_parts:
  "take_stop c f = Some c' \<Longrightarrow> c' = c\<lparr>ch_stopped := True\<rparr>"
  "take_hello c f = Some c' \<Longrightarrow> c' = c"
  "take_sample c f = Some c' \<Longrightarrow> c' = c\<lparr>ch_samples := ch_samples c + 1\<rparr> \<and> ch_samples c < 18"
  "take_control c f = Some c' \<Longrightarrow> c' = c \<or> c' = c\<lparr>ch_acknowledged := True\<rparr>"
  by (auto simp: take_stop_def take_hello_def take_sample_def take_control_def Let_def not_le split: if_splits)

lemma taken_settlement:
  "take_settlement c f = Some c' \<Longrightarrow>
    ch_parts c' = ch_parts c + 1 \<and> ch_parts c < 24 \<and> ch_count c' = ch_count c \<and> ch_worker c' = ch_worker c \<and>
    ch_samples c' = ch_samples c \<and> ch_failed c' = ch_failed c \<and>
    (ch_parts c' = 24 \<longrightarrow> decode_settlement (ch_settlement c') \<noteq> None)"
  by (auto simp: take_settlement_def Let_def not_le split: if_splits)

text \<open>What a frame that is taken leaves as it was, and what it may add.\<close>

lemma taken_frame:
  assumes "take_frame c f = Some c'"
  shows "ch_count c < (if ch_worker c then 44 else 3) \<and> \<not> ch_failed c' \<and> ch_count c' = ch_count c \<and>
    ch_worker c' = ch_worker c \<and> (channel_upheld c \<longrightarrow> channel_upheld c')"
proof -
  have g: "\<not> ch_failed c" "ch_count c < (if ch_worker c then 44 else 3)"
    using assms by (auto simp: take_frame_def Let_def not_le split: if_splits)
  consider "take_stop c f = Some c'" | "take_hello c f = Some c'" | "take_sample c f = Some c'"
    | "take_settlement c f = Some c'" | "take_control c f = Some c'"
    using assms by (auto simp: take_frame_def Let_def split: if_splits)
  then show ?thesis
  proof cases
    case 4
    then show ?thesis using taken_settlement [OF 4] g by (auto simp: channel_upheld_def count_steps)
  qed (use g in \<open>auto dest!: taken_parts simp: channel_upheld_def count_steps\<close>)
qed

lemma accept_upheld:
  assumes "channel_upheld c" and "channel_accept c f = (ok, c')"
  shows "channel_upheld c' \<and> ch_failed c' = (\<not> ok)"
proof (cases "take_frame c f")
  case (Some d)
  then show ?thesis
    using assms taken_frame [OF Some]
    by (auto simp: channel_accept_def channel_upheld_def count_steps split: if_splits)
qed (use assms in \<open>auto simp: channel_accept_def channel_upheld_def\<close>)

lemma frames_upheld:
  "channel_upheld c \<Longrightarrow> \<not> ch_failed c \<Longrightarrow> accept_frames c fs = (ok, c') \<Longrightarrow>
    channel_upheld c' \<and> ch_failed c' = (\<not> ok)"
proof (induction fs arbitrary: c)
  case (Cons f fs)
  obtain k d where d: "channel_accept c f = (k, d)" by (cases "channel_accept c f")
  then show ?case
    using Cons.IH [of d] Cons.prems accept_upheld [OF Cons.prems(1) d] by (auto split: if_splits)
qed simp

text \<open>A channel that failed is never repaired: it accepts nothing more.\<close>

lemma failed_accepts_nothing: "ch_failed c \<Longrightarrow> channel_accept c f = (False, c)"
  by (simp add: channel_accept_def take_frame_def Let_def)

lemma channel_errors:
  "case accept_frames (fresh_channel d worker only) fs of (ok, c) \<Rightarrow>
     ch_failed c = (\<not> ok) \<and> ch_count c \<le> (if ch_worker c then 44 else 3) \<and> ch_samples c \<le> 18 \<and>
     channel_complete c = (channel_records c \<noteq> None) \<and> (\<forall>f. channel_accept (channel_broken c) f = (False, channel_broken c))"
proof -
  obtain ok c where r: "accept_frames (fresh_channel d worker only) fs = (ok, c)" 
    by (cases "accept_frames (fresh_channel d worker only) fs")
  have "channel_upheld c \<and> ch_failed c = (\<not> ok)"
    by (rule frames_upheld [OF _ _ r]) (simp_all add: channel_upheld_def fresh_channel_def)
  then show ?thesis
    by (auto simp: r channel_upheld_def channel_complete_def channel_records_def channel_broken_def
      failed_accepts_nothing)
qed

text \<open>
  Claim C32.  Whatever frames a fresh channel is fed, well formed or not, it has failed
  exactly when it rejected one; it never counts more than forty-four frames from a worker or
  three to it, nor more than eighteen samples; it hands out records exactly when it is
  complete, so a complete channel always holds a settlement that decodes; and once broken
  it accepts nothing.
\<close>

theorem channel_rejects_and_bounds:
  "case accept_frames (fresh_channel d worker only) fs of (ok, c) \<Rightarrow>
     ch_failed c = (\<not> ok) \<and> ch_count c \<le> (if ch_worker c then 44 else 3) \<and> ch_samples c \<le> 18 \<and>
     channel_complete c = (channel_records c \<noteq> None) \<and> (\<forall>f. channel_accept (channel_broken c) f = (False, channel_broken c))"
  by (rule channel_errors)

end
