(* ===== verification/Crypto_Report.thy ===== *)
theory Crypto_Report
  imports Crypto_Candidate Frame_Protocol
begin

text \<open>
  The report of a run (\<open>diagnostics/l1_crypto_probe.h\<close> meeting \<open>diagnostics/l1_e4_protocol.h\<close>):
  the settlement frames carry the names of failures as indices into two fixed tables, so a
  run can be reported only if the names it leaves behind are in the tables.  The lemmas show
  that every name the sequence writes is there except one, the step name of the clock check
  inside an allocation, and that the observer it reports is balanced.
\<close>

section \<open>What can be reported\<close>

definition tidy :: "native_observation \<Rightarrow> bool" where
  "tidy n \<longleftrightarrow> obs_balanced n \<and> obs_first_failure n \<in> set stages"

definition reportable :: "'w probe \<Rightarrow> bool" where
  "reportable s \<longleftrightarrow>
    failure_code (ledger s) \<in> set codes \<and>
    first_failure (ledger s) \<in> insert ''buffer_alloc'' (set stages) \<and>
    length (abi_calls (ledger s)) = 7 \<and>
    (case observer s of None \<Rightarrow> False | Some n \<Rightarrow> tidy n)"

definition keeps :: "('w probe \<Rightarrow> 'a \<times> 'w probe) \<Rightarrow> bool" where
  "keeps m \<longleftrightarrow> (\<forall>s. reportable s \<longrightarrow> reportable (snd (m s)))"

lemma keepsD: "keeps m \<Longrightarrow> reportable s \<Longrightarrow> m s = (r, t) \<Longrightarrow> reportable t"
  unfolding keeps_def by (metis snd_conv)

text \<open>Only four fields matter.\<close>

lemma reportable_cong:
  "failure_code (ledger t) = failure_code (ledger s) \<Longrightarrow> first_failure (ledger t) = first_failure (ledger s) \<Longrightarrow>
   length (abi_calls (ledger t)) = length (abi_calls (ledger s)) \<Longrightarrow> observer t = observer s \<Longrightarrow>
   reportable t = reportable s"
  by (simp add: reportable_def)

named_theorems report_simps \<open>updates that leave the report alone\<close>

lemma plain_updates [report_simps]:
  "reportable (s\<lparr>world := w\<rparr>) = reportable s" "reportable (s\<lparr>heap := m\<rparr>) = reportable s"
  "reportable (s\<lparr>pool := b\<rparr>) = reportable s" "reportable (s\<lparr>keys := k\<rparr>) = reportable s"
  "reportable (s\<lparr>certs := c\<rparr>) = reportable s" "reportable (update_slot i f s) = reportable s"
  "reportable (update_key i g s) = reportable s" "reportable (put_bytes p bs s) = reportable s"
  by (simp_all add: reportable_def update_slot_def update_key_def put_bytes_def)

lemma ledger_updates [report_simps]:
  "failure_code (f (ledger s)) = failure_code (ledger s) \<Longrightarrow>
   first_failure (f (ledger s)) = first_failure (ledger s) \<Longrightarrow>
   length (abi_calls (f (ledger s))) = length (abi_calls (ledger s)) \<Longrightarrow>
   reportable (on_ledger f s) = reportable s"
  by (simp add: reportable_def on_ledger_def)

lemma count_abi_report [simp]:
  "failure_code (count_abi i f l) = failure_code l" "first_failure (count_abi i f l) = first_failure l"
  "length (abi_calls (count_abi i f l)) = length (abi_calls l)"
  by (simp_all add: count_abi_def)

definition known_step :: "string \<Rightarrow> bool" where
  "known_step x \<longleftrightarrow> x \<in> insert ''buffer_alloc'' (set stages)"

lemma known_names [simp]:
  "known_step ''abi_call_budget_exceeded''" "known_step ''deadline_exceeded''"
  "known_step ''resource_observation_invalid''" "known_step ''resource_budget_exceeded''"
  "known_step ''resource_observation_failed''" "known_step ''call_budget_exceeded''"
  "known_step ''forbidden_symbol_resolution''" "known_step ''symbol_lookup_exception''"
  "known_step ''missing_allowed_symbol''" "known_step ''buffer_alloc_precondition''"
  "known_step ''buffer_alloc_exception''" "known_step ''buffer_alloc_null''"
  "known_step ''unknown_buffer_slot''" "known_step ''duplicate_buffer_release''"
  "known_step ''free_budget_unsettled''" "known_step ''buffer_release_unknown''"
  "known_step ''before_work''" "known_step ''after_final_settlement''" "known_step ''buffer_alloc''"
  by (simp_all add: known_step_def stages_def)

lemma known_steps: "step \<in> set kSteps \<Longrightarrow> known_step step"
  by (simp add: known_step_def stages_def)

lemma known_codes [simp]:
  "''BUDGET_EXCEEDED'' \<in> set codes" "''MEASUREMENT_UNAVAILABLE'' \<in> set codes"
  "''SETTLEMENT_UNKNOWN'' \<in> set codes" "''SECURITY_REJECT_MISMATCH'' \<in> set codes"
  "''ADMISSION_BLOCKED'' \<in> set codes" "''UNAUTHORIZED_ACCESS'' \<in> set codes"
  "''ARTIFACT_INVALID'' \<in> set codes" "''OWNERSHIP_UNKNOWN'' \<in> set codes"
  by (simp_all add: codes_def)

text \<open>A STOP with names of the tables is reportable.\<close>

lemma stop_reportable [report_simps]:
  "reportable s \<Longrightarrow> known_step step \<Longrightarrow> code \<in> set codes \<Longrightarrow> reportable (stop_at step st code s)"
  by (auto simp: reportable_def on_ledger_def ledger_stop_def Let_def known_step_def)

lemma clock_keeps: "known_step step \<Longrightarrow> keeps (check_clock env step)"
proof -
  have b: "failure_code (bind_launch_origin now l) = failure_code l"
    "first_failure (bind_launch_origin now l) = first_failure l"
    "abi_calls (bind_launch_origin now l) = abi_calls l" for now l
    by (simp_all add: bind_launch_origin_def)
  have r: "reportable (s\<lparr>ledger := (ledger s)\<lparr>last_ms := x, elapsed_ms := y\<rparr>\<rparr>) = reportable s"
    for s :: "'a probe" and x y by (simp add: reportable_def)
  have w: "reportable (s\<lparr>world := w, ledger := (ledger s)\<lparr>last_ms := x, elapsed_ms := y\<rparr>\<rparr>) = reportable s"
    for s :: "'a probe" and w x y by (simp add: reportable_def)
  show "known_step step \<Longrightarrow> keeps (check_clock env step)"
    by (simp add: keeps_def check_clock_def Let_def report_simps b r w split: option.split prod.split)
qed

lemma reserve_keeps: "keeps (reserve_abi i limit)"
  by (simp add: keeps_def reserve_abi_def Let_def report_simps)

lemma resources_keeps: "keeps (resources working commit handles)"
proof -
  have n: "failure_code (note_resources working commit handles l) = failure_code l"
    "first_failure (note_resources working commit handles l) = first_failure l"
    "abi_calls (note_resources working commit handles l) = abi_calls l" for l
    by (simp_all add: note_resources_def)
  show ?thesis by (simp add: keeps_def resources_def Let_def report_simps n)
qed

section \<open>Every operation keeps the report\<close>

text \<open>What \<open>invoke_and_check\<close> does once the call has answered.\<close>

definition after_call ::
    "'w probe_env \<Rightarrow> primitive_category \<Rightarrow> string \<Rightarrow> u32 \<Rightarrow> (u32 \<Rightarrow> 'w step) \<Rightarrow> u32 option \<Rightarrow> 'w step" where
  "after_call env cat step expected shape_ok answer s =
    (case answer of
       None \<Rightarrow>
         (False,
          snd (observe env step
            (stop_at step (- 1) ''SETTLEMENT_UNKNOWN''
              (on_ledger (count_abi (category_index cat) (\<lambda>c. c\<lparr>unknown_n := unknown_n c + 1\<rparr>)) s))))
     | Some status \<Rightarrow>
         (case check_clock env step (returned_call cat step s) of
            (in_time, s) \<Rightarrow>
              if \<not> in_time then (False, snd (observe env step s))
              else
                (case shape_ok status s of
                   (shape_valid, s) \<Rightarrow>
                     observe env step
                       (judge_call cat step expected status shape_valid
                         (completed_call cat step expected status s)))))"

text \<open>What the injected functions are asked for: they leave a reportable probe reportable.\<close>

locale reporting_probe =
  fixes env :: "'w probe_env" and api :: "'w crypto_api"
  assumes sampler_keeps: "sampler env = Some f \<Longrightarrow> keeps f"
    and abi_keeps: "keeps (api_abi api)"
    and allocate_keeps: "api_allocate api = Some alloc \<Longrightarrow> keeps (alloc capacity)"
    and deallocate_keeps: "api_deallocate api = Some free \<Longrightarrow> keeps (free p)"
    and generate_keeps: "keeps (api_generate_key api v a n b c m d)"
    and sign_keeps: "keeps (api_sign_digest api v a n b m c l d k e)"
    and verify_keeps: "keeps (api_verify_digest api v a n b m c l)"
    and policy_keeps: "keeps (api_peer_policy api v a n r)"
begin

lemma observe_keeps:
  assumes "known_step stage"
  shows "keeps (observe env stage)"
  unfolding keeps_def
proof (intro allI impI)
  fix s :: "'w probe" assume r: "reportable s"
  obtain ok s1 where c: "check_clock env stage s = (ok, s1)" by (cases "check_clock env stage s")
  have r1: "reportable s1" using keepsD [OF clock_keeps [OF assms] r c] .
  define s2 where "s2 = on_ledger (\<lambda>l. l\<lparr>observation_attempts := observation_attempts l + 1\<rparr>) s1"
  have r2: "reportable s2" using r1 by (simp add: s2_def report_simps)
  obtain sampled s3 where t: "(case sampler env of None \<Rightarrow> (False, s2) | Some f \<Rightarrow> f s2) = (sampled, s3)"
    by (metis surj_pair)
  have r3: "reportable s3"
    using t r2 keepsD [OF sampler_keeps r2] by (cases "sampler env") auto
  show "reportable (snd (observe env stage s))"
    using c t r1 r3 by (simp add: observe_def s2_def [symmetric] report_simps Let_def)
qed

lemma judge_reportable:
  assumes "reportable s" and "known_step step"
  shows "reportable (judge_call cat step expected status shape s)"
proof (cases "observer s")
  case None
  then show ?thesis using assms(1) by (simp add: reportable_def)
next
  case (Some n)
  have known: "known_step (obs_first_failure n)"
    using assms(1) Some by (simp add: reportable_def tidy_def known_step_def)
  show ?thesis
    using assms known Some
    by (simp add: judge_call_def judge_status_def report_simps)
qed

lemma returned_reportable: "reportable (returned_call cat step s) = reportable s"
  by (simp add: returned_call_def Let_def report_simps)

lemma completed_reportable: "reportable (completed_call cat step expected status s) = reportable s"
  by (simp add: completed_call_def report_simps)

lemma category_reportable:
  "reserve_category cat (ledger s) = Some l \<Longrightarrow> reportable (s\<lparr>ledger := l\<rparr>) = reportable s"
  by (cases cat) (auto simp: reportable_def split: if_splits)

lemma after_call_keeps:
  assumes k: "known_step step" and shape: "\<And>status. keeps (shape status)" and r: "reportable s"
  shows "reportable (snd (after_call env cat step expected shape answer s))"
proof (cases answer)
  case None
  then show ?thesis
    using observe_keeps [OF k] r k by (simp add: after_call_def keeps_def report_simps)
next
  case (Some status)
  note obs = observe_keeps [OF k, unfolded keeps_def, rule_format]
  obtain ok s1 where c: "check_clock env step (returned_call cat step s) = (ok, s1)"
    by (cases "check_clock env step (returned_call cat step s)")
  have r1: "reportable s1" using keepsD [OF clock_keeps [OF k] _ c] r by (simp add: returned_reportable)
  obtain valid s2 where v: "shape status s1 = (valid, s2)" by (cases "shape status s1")
  have r2: "reportable s2" using keepsD [OF shape r1 v] .
  have "reportable (judge_call cat step expected status valid (completed_call cat step expected status s2))"
    by (rule judge_reportable [OF _ k]) (simp add: completed_reportable r2)
  then show ?thesis
    using Some c v obs [OF r1] obs by (simp add: after_call_def)
qed

lemma invoke_keeps:
  assumes k: "known_step step" and call: "keeps call" and shape: "\<And>status. keeps (shape status)"
  shows "keeps (invoke_and_check env cat step expected call shape)"
  unfolding keeps_def
proof (intro allI impI)
  fix s :: "'w probe" assume r: "reportable s"
  note obs = observe_keeps [OF k, unfolded keeps_def, rule_format]
  obtain ok s1 where c: "check_clock env step s = (ok, s1)" by (cases "check_clock env step s")
  have r1: "reportable s1" using keepsD [OF clock_keeps [OF k] r c] .
  show "reportable (snd (invoke_and_check env cat step expected call shape s))"
  proof (cases "\<not> l_stopped (ledger s) \<and> ok")
    case False
    then show ?thesis using r r1 c by (auto simp: invoke_and_check_def)
  next
    case True
    show ?thesis
    proof (cases "reserve_category cat (ledger s1)")
      case None
      then show ?thesis using True c r1 by (simp add: invoke_and_check_def report_simps)
    next
      case (Some l)
      define i where "i = category_index cat"
      obtain reserved s2 where v: "reserve_abi i (category_limits ! i) (s1\<lparr>ledger := l\<rparr>) = (reserved, s2)"
        by (cases "reserve_abi i (category_limits ! i) (s1\<lparr>ledger := l\<rparr>)")
      have r2: "reportable s2"
        using keepsD [OF reserve_keeps _ v] r1 by (simp add: category_reportable [OF Some])
      define s3 where "s3 = on_ledger (\<lambda>l. l
        \<lparr>attempted_steps := attempted_steps l OR step_bit step, l_attempted := l_attempted l + 1\<rparr>) s2"
      obtain answer s4 where a: "call s3 = (answer, s4)" by (cases "call s3")
      have r4: "reportable s4"
        using keepsD [OF call _ a] r2 by (simp add: s3_def report_simps)
      have e: "invoke_and_check env cat step expected call shape s =
          (if \<not> reserved then (False, s2) else after_call env cat step expected shape answer s4)"
        using True c Some v a unfolding invoke_and_check_def after_call_def Let_def s3_def i_def by simp
      show ?thesis using e r2 after_call_keeps [OF k shape r4] by simp
    qed
  qed
qed

end

section \<open>The pool and the sequence keep the report\<close>

context reporting_probe begin

lemma release_keeps: "keeps (pool_release api i)"
  unfolding keeps_def
proof (intro allI impI)
  fix s :: "'w probe" assume r: "reportable s"
  define s1 where "s1 = update_slot i (\<lambda>b. b\<lparr>release_attempted := True\<rparr>) s"
  obtain reserved s2 where v: "reserve_abi 6 kMaxFreeAttempts s1 = (reserved, s2)"
    by (cases "reserve_abi 6 kMaxFreeAttempts s1")
  have r2: "reportable s2" using keepsD [OF reserve_keeps _ v] r by (simp add: s1_def report_simps)
  define s3 where "s3 = on_ledger (\<lambda>l. l\<lparr>releases_attempted := releases_attempted l + 1\<rparr>) s2"
  define b where "b = pool s3 ! i"
  define s4 where "s4 = s3\<lparr>heap := zero_mem (slot_ptr b) (slot_capacity b) (heap s3)\<rparr>"
  have r4: "reportable s4" using r2 by (simp add: s4_def s3_def report_simps)
  obtain freed s5 where f: "(case api_deallocate api of None \<Rightarrow> (False, s4) | Some free \<Rightarrow> free (slot_ptr b) s4) = (freed, s5)"
    by (metis surj_pair)
  have r5: "reportable s5"
    using f r4 keepsD [OF deallocate_keeps r4] by (cases "api_deallocate api") auto
  show "reportable (snd (pool_release api i s))"
    using r r2 r5 v f [unfolded s4_def b_def s3_def]
    unfolding pool_release_def Let_def s1_def [symmetric]
    by (simp add: report_simps)
qed

lemma release_all_keeps: "reportable s \<Longrightarrow> reportable (release_all_remaining api s)"
proof -
  have "reportable s \<Longrightarrow> reportable (fold (\<lambda>i s. if allocated_ever (pool s ! i) \<and> \<not> release_attempted (pool s ! i)
                then snd (pool_release api i s) else s) is s)" for "is" s
    using release_keeps by (induction "is" arbitrary: s) (auto simp: keeps_def)
  then show "reportable s \<Longrightarrow> reportable (release_all_remaining api s)"
    by (simp add: release_all_remaining_def)
qed

lemma fail_keeps: "keeps (fail_all api)"
  by (simp add: keeps_def fail_all_def release_all_keeps)

lemma in_turn_keeps: "reportable s \<Longrightarrow> reportable (snd (release_in_turn api slots s))"
  using release_keeps
  by (induction slots arbitrary: s) (auto simp: keeps_def case_prod_unfold)

lemma allocate_pool_keeps:
  assumes r: "reportable s"
  shows "reportable (snd (snd (snd (pool_allocate env api capacity s))))"
proof (cases "l_stopped (ledger s) \<or> capacity = 0 \<or> MAX_BYTES < capacity \<or> kMaxSlots \<le> length (pool s) \<or>
        kMaxLiveBuffers \<le> buffers_live (ledger s) \<or> api_allocate api = None")
  case True
  then show ?thesis using r by (simp only: pool_allocate_def if_True) (simp add: report_simps)
next
  case False
  then obtain alloc where alloc: "api_allocate api = Some alloc" by auto
  obtain ok s1 where c: "check_clock env ''buffer_alloc'' s = (ok, s1)" by (cases "check_clock env ''buffer_alloc'' s")
  have r1: "reportable s1" using keepsD [OF clock_keeps r c] by simp
  obtain reserved s2 where v: "reserve_abi 5 kMaxAllocationAttempts s1 = (reserved, s2)"
    by (cases "reserve_abi 5 kMaxAllocationAttempts s1")
  have r2: "reportable s2" using keepsD [OF reserve_keeps r1 v] .
  obtain answer s3 where a: "alloc capacity s2 = (answer, s3)" by (cases "alloc capacity s2")
  have r3: "reportable s3" using keepsD [OF allocate_keeps [OF alloc] r2 a] .
  show ?thesis
    using c v a r r1 r2 r3 alloc unfolding pool_allocate_def Let_def
    by (simp only: False if_False) (simp add: report_simps split: option.split)
qed

lemma allocate_all_keeps: "reportable s \<Longrightarrow> reportable (snd (allocate_all env api capacities s))"
proof (induction capacities arbitrary: s)
  case (Cons c cs)
  obtain ok p i t where a: "pool_allocate env api c s = (ok, p, i, t)" by (metis prod_cases4)
  have "reportable t" using allocate_pool_keeps [OF Cons.prems, of c] a by simp
  then show ?case
    using Cons.IH [of t] a by (cases "allocate_all env api cs t") (auto split: bool.split option.split)
qed simp

lemma with_buffers_keeps:
  assumes "\<And>buffers. keeps (body buffers)"
  shows "keeps (with_buffers env api capacities body)"
  unfolding keeps_def
proof (intro allI impI)
  fix s :: "'w probe" assume r: "reportable s"
  obtain buffers t where a: "allocate_all env api capacities s = (buffers, t)"
    by (cases "allocate_all env api capacities s")
  have "reportable t" using allocate_all_keeps [OF r, of capacities] a by simp
  then show "reportable (snd (with_buffers env api capacities body s))"
    using assms fail_keeps a by (cases buffers) (simp_all add: with_buffers_def keeps_def)
qed

lemma close_reportable:
  assumes "reportable (snd r)" and "\<And>s. reportable s \<Longrightarrow> reportable (give_up s)"
  shows "reportable (snd (close_step api slots give_up r))"
proof -
  obtain ok s where r: "r = (ok, s)" by (cases r)
  obtain freed t where f: "release_in_turn api slots s = (freed, t)" by (cases "release_in_turn api slots s")
  have "reportable t" using in_turn_keeps [of s slots] assms(1) r f by simp
  then show ?thesis
    using fail_keeps assms(2) by (auto simp: close_step_def r f keeps_def)
qed

lemmas shown = invoke_keeps [unfolded keeps_def, rule_format]

lemma abi_step_keeps: "keeps (abi_step env api)"
  unfolding abi_step_def
  by (rule invoke_keeps [OF known_steps abi_keeps]) (simp_all add: kSteps_def keeps_def)

lemma put_pair_keeps: "keeps (\<lambda>s. (x, s))"
  by (simp add: keeps_def)

lemma generate_step_keeps: "i < 3 \<Longrightarrow> keeps (generate_step env api i)"
proof -
  assume "i < 3"
  then have k: "known_step (kGenSteps ! i)"
    by (intro known_steps) (auto simp: kGenSteps_def kSteps_def less_Suc_eq numeral_3_eq_3)
  have g: "keeps (keep_generated i a b c status)" for a b c status
    by (simp add: keeps_def keep_generated_def Let_def report_simps)
  have "reportable (snd (generate_body env api i buffers s))" if "reportable s" for buffers s
    using that fail_keeps invoke_keeps [OF k generate_keeps g]
    by (cases "(env, api, i, buffers, s)" rule: generate_body.cases)
      (auto simp: keeps_def intro!: close_reportable)
  then have "keeps (generate_body env api i buffers)" for buffers by (simp add: keeps_def)
  then show ?thesis unfolding generate_step_def by (rule with_buffers_keeps)
qed

end

context reporting_probe begin

lemma below_three: "(i :: nat) < 3 \<Longrightarrow> i = 0 \<or> i = 1 \<or> i = 2"
  by auto

lemma sign_step_keeps: "i < 3 \<Longrightarrow> keeps (sign_step env api i)"
proof -
  assume "i < 3"
  then have k: "known_step (kSignSteps ! i)"
    by (intro known_steps) (auto simp: kSignSteps_def kSteps_def dest!: below_three)
  have g: "keeps (keep_certificate i tbs a b status)" for tbs a b status
    by (simp add: keeps_def keep_certificate_def report_simps split: option.split)
  have "reportable (snd (sign_body env api i tbs key_len buffers s))" if "reportable s" for tbs key_len buffers s
    using that fail_keeps invoke_keeps [OF k sign_keeps g]
    by (cases "(env, api, i, tbs, key_len, buffers, s)" rule: sign_body.cases)
      (auto simp: keeps_def report_simps Let_def intro!: close_reportable)
  then have b: "keeps (with_buffers env api cs (sign_body env api i tbs key_len))" for cs tbs key_len
    by (intro with_buffers_keeps) (simp add: keeps_def)
  show ?thesis
    using b fail_keeps k by (simp add: keeps_def sign_step_def Let_def report_simps split: option.split)
qed

lemma verify_step_keeps: "i < 3 \<Longrightarrow> keeps (verify_step env api tampered i)"
proof -
  assume "i < 3"
  then have k: "known_step ((if tampered then kVerifyTamperedSteps else kVerifyValidSteps) ! i)"
    by (intro known_steps) (auto simp: kVerifyTamperedSteps_def kVerifyValidSteps_def kSteps_def dest!: below_three)
  have "reportable (snd (verify_body env api tampered step tbs raw buffers s))"
    if "reportable s" and "known_step step" for step tbs raw buffers s
    using that(1) fail_keeps invoke_keeps [OF that(2) verify_keeps put_pair_keeps]
    by (cases "(env, api, tampered, step, tbs, raw, buffers, s)" rule: verify_body.cases)
      (auto simp: keeps_def report_simps Let_def intro!: close_reportable)
  then have b: "known_step step \<Longrightarrow> keeps (with_buffers env api cs (verify_body env api tampered step tbs raw))"
    for cs step tbs raw
    by (intro with_buffers_keeps) (simp add: keeps_def)
  show ?thesis
    using b [OF k] fail_keeps k
    by (cases tampered) (simp_all add: keeps_def verify_step_def Let_def report_simps split: prod.split)
qed

lemma policy_step_keeps: "asked \<in> set policy_cases \<Longrightarrow> keeps (policy_step env api asked)"
proof -
  assume "asked \<in> set policy_cases"
  then have k: "known_step (fst asked)"
    by (intro known_steps) (auto simp: policy_cases_def kSteps_def)
  have "reportable (snd (policy_body env api asked der buffers s))" if "reportable s" for der buffers s
    using that k fail_keeps invoke_keeps [OF _ policy_keeps put_pair_keeps]
    by (cases "(env, api, asked, der, buffers, s)" rule: policy_body.cases)
      (auto simp: keeps_def report_simps intro!: close_reportable)
  then show ?thesis
    unfolding policy_step_def keeps_def Let_def
    using with_buffers_keeps [unfolded keeps_def] by (simp add: keeps_def)
qed

lemma wipe_reportable: "reportable (fold (\<lambda>i. update_key i wipe_private) slots s) = reportable s"
  by (induction slots arbitrary: s) (simp_all add: report_simps)

lemma wipe_keeps: "keeps (wipe_step slots)"
  by (simp add: keeps_def wipe_step_def wipe_reportable)

lemma all_steps_keep: "(\<And>m. m \<in> set ms \<Longrightarrow> keeps m) \<Longrightarrow> keeps (all_steps ms)"
proof (induction ms)
  case (Cons m ms)
  have k: "keeps m" "keeps (all_steps ms)" using Cons by simp_all
  have "reportable (snd (all_steps (m # ms) s))" if "reportable s" for s
  proof -
    obtain ok t where t: "m s = (ok, t)" by (cases "m s")
    then show ?thesis using keepsD [OF k(1) that t] k(2) by (simp add: keeps_def)
  qed
  then show ?case by (simp add: keeps_def)
qed (simp add: keeps_def)

lemma body_keeps: "keeps (crypto_body env api)"
  unfolding crypto_body_def
proof (rule all_steps_keep)
  fix m
  assume m: "m \<in> set ([abi_step env api] @ map (generate_step env api) [0, 1, 2] @ [wipe_step [1, 2]]
    @ map (sign_step env api) [0, 1, 2] @ [wipe_step [0]] @ map (verify_step env api False) [0, 1, 2]
    @ map (verify_step env api True) [0, 1, 2] @ map (policy_step env api) policy_cases
    @ [\<lambda>s. (True, release_all_remaining api s), observe env ''after_final_settlement''])"
  have "keeps (\<lambda>s. (True, release_all_remaining api s))"
    by (simp add: keeps_def release_all_keeps)
  then show "keeps m"
    using m abi_step_keeps generate_step_keeps sign_step_keeps verify_step_keeps policy_step_keeps wipe_keeps
      observe_keeps [of "''after_final_settlement''"] by auto
qed

lemma run_reports:
  assumes "reportable s"
  shows "reportable (snd (run_crypto_sequence observed_build env api s))"
proof -
  obtain ready t where o: "observe env ''before_work'' s = (ready, t)" by (cases "observe env ''before_work'' s")
  have rt: "reportable t" using keepsD [OF observe_keeps assms o] by simp
  define t1 where "t1 = t\<lparr>pool := [], keys := replicate 3 empty_key, certs := replicate 3 []\<rparr>"
  obtain ok u where b: "crypto_body env api t1 = (ok, u)" by (cases "crypto_body env api t1")
  have "reportable t1" using rt by (simp add: reportable_def t1_def)
  then have "reportable u" using keepsD [OF body_keeps _ b] by simp
  then show ?thesis
    using rt o b [unfolded t1_def] release_all_keeps
    by (simp add: run_crypto_sequence_def Let_def report_simps)
qed

end

section \<open>The candidate program\<close>

definition named :: "native_observation \<Rightarrow> bool" where
  "named n \<longleftrightarrow> obs_first_failure n \<in> set stages"

lemma native_names [simp]:
  "kNativeNames ! op_index op \<in> set stages" "''native_budget'' \<in> set stages"
  "''duplicate_or_unowned_release'' \<in> set stages" "''supervisor_stop'' \<in> set stages"
  by (cases op; simp add: kNativeNames_def stages_def) (simp_all add: stages_def)

lemma named_simps [simp]:
  "stage \<in> set stages \<Longrightarrow> named n \<Longrightarrow> named (obs_fail stage u n)"
  "named (count_call op f n) = named n"
  "named (n\<lparr>obs_acquired := a, obs_still_owned := b\<rparr>) = named n"
  "named (n\<lparr>obs_released := a, obs_still_owned := b\<rparr>) = named n"
  "named (n\<lparr>obs_quarantined := a\<rparr>) = named n"
  by (simp_all add: named_def obs_fail_def count_call_def Let_def)

lemma call_named: "named n \<Longrightarrow> named (fst (snd (observed_call op release gate call accept failure n w)))"
  by (simp add: observed_call_def attempt_native_def Let_def split: prod.split option.split)

lemma watch_tidy: "tidy n \<Longrightarrow> tidy (watch e n)"
proof (cases e)
  case (Native_call op r)
  assume "tidy n"
  then show ?thesis
    using Native_call observed_call_balanced [of n op False None "\<lambda>w. (r, w)" id False "()"]
      call_named [of n op False None "\<lambda>w. (r, w)" id False "()"]
    by (simp add: tidy_def named_def)
next
  case Owner_acquired
  assume "tidy n"
  then show ?thesis
    using Owner_acquired by (simp add: tidy_def ticket_acquire_def obs_balanced_def)
next
  case (Owner_released op r)
  assume t: "tidy n"
  define k where "k = fresh_ticket\<lparr>ticket_watched := True, ticket_acquired := True\<rparr>"
  obtain x n' w where c: "observed_call op True None (\<lambda>w. (r, w)) id False n () = (x, n', w)"
    by (metis prod_cases3)
  have e: "fst (snd (snd (ticket_release op (\<lambda>w. (r, w)) id False k (Some n) ()))) =
      Some (if x then n'\<lparr>obs_released := obs_released n' + 1, obs_still_owned := obs_still_owned n' - 1\<rparr>
            else n'\<lparr>obs_quarantined := obs_quarantined n' + 1\<rparr>)"
    using c by (simp add: ticket_release_def k_def fresh_ticket_def observe_native_def)
  have "named n'" using call_named [of n op True None "\<lambda>w. (r, w)" id False "()"] t c
    by (simp add: tidy_def named_def)
  then have "named (watch e n)"
    using e Owner_released by (simp add: k_def)
  moreover have "obs_balanced (watch e n)"
    using ticket_release_balanced [of "Some n" op "\<lambda>w. (r, w)" id False k "()"] e Owner_released t
    by (simp add: watched_balanced_def tidy_def k_def)
  ultimately show ?thesis by (simp add: tidy_def named_def)
qed

lemma watched_tidy: "tidy n \<Longrightarrow> tidy (fold watch es n)"
  by (induction es arbitrary: n) (simp_all add: watch_tidy)

lemma linked_keeps: "keeps (linked_status os export)"
  by (auto simp: keeps_def linked_status_def reportable_def watched_tidy split: prod.split option.splits)

lemma sample_keeps: "keeps (sample_process_resources os)"
  by (simp add: keeps_def sample_process_resources_def report_simps resources_keeps [unfolded keeps_def, rule_format]
      split: prod.split option.split)

interpretation reporting: reporting_probe "candidate_env os" "linked_api os ops crypt" for os ops crypt
proof
  fix f assume "sampler (candidate_env os) = Some f"
  then have "f = sample_process_resources os" by (simp add: candidate_env_def)
  then show "keeps f" by (simp add: sample_keeps)
next
  fix alloc capacity assume "api_allocate (linked_api os ops crypt) = Some alloc"
  then have "alloc = linked_allocate os" by (simp add: linked_api_def)
  then show "keeps (alloc capacity)"
    by (simp add: keeps_def linked_allocate_def case_prod_unfold Let_def report_simps)
next
  fix free p assume "api_deallocate (linked_api os ops crypt) = Some free"
  then show "keeps (free p)"
    by (auto simp: linked_api_def keeps_def linked_free_def report_simps)
qed (simp_all add: linked_api_def linked_keeps, simp add: keeps_def)

lemma resolve_reportable: 
  "reportable s \<Longrightarrow>
    reportable (snd (snd (resolve_symbols names lookup s)))"
proof (induction names arbitrary: s)
  case (Cons name names)
  have one: "reportable (snd (snd (resolve_symbol_checked name lookup s)))"
    using Cons.prems by (simp add: resolve_symbol_checked_def report_simps split: prod.split option.split)
  then show ?case
    using Cons.IH [of "snd (snd (resolve_symbol_checked name lookup s))"]
    by (simp add: case_prod_unfold split: bool.split)
qed simp

lemma fresh_reportable: "reportable (fresh_probe w m)"
  by (simp add: reportable_def fresh_probe_def fresh_ledger_def tidy_def fresh_observation_balanced
      fresh_observation_def codes_def stages_def fresh_observation_balanced [unfolded fresh_observation_def])

lemma candidate_reportable: "reportable (snd (candidate_program os ops crypt address w m))"
proof -
  obtain ok table s where r:
    "resolve_crypto_api (resolve_static_allowed_symbol address) (fresh_probe w m) = (ok, table, s)"
    by (metis prod_cases3)
  have "reportable s"
    using resolve_reportable [OF fresh_reportable, of kAllowedSymbols "resolve_static_allowed_symbol address" w m] r
    by (simp add: resolve_crypto_api_def)
  then show ?thesis
    using reporting.run_reports r by (cases ok) (simp_all add: candidate_program_def)
qed

lemma string_id_None: "string_id table x = None \<longleftrightarrow> x \<notin> set table"
proof -
  have "find_step x table i = None \<longleftrightarrow> x \<notin> set table" for i
    by (induction table arbitrary: i) auto
  then show ?thesis by (simp add: string_id_def)
qed

lemma encoding_fails_iff:
  assumes "reportable s" and "observer s = Some n"
  shows "encode_settlement (ledger s) n = None \<longleftrightarrow> first_failure (ledger s) = ''buffer_alloc''"
proof -
  have m: "failure_code (ledger s) \<in> set codes" "obs_first_failure n \<in> set stages"
    "first_failure (ledger s) \<in> insert ''buffer_alloc'' (set stages)" "wire_shape (ledger s) n"
    using assms by (auto simp: reportable_def tidy_def wire_shape_def obs_balanced_def)
  have a: "''buffer_alloc'' \<notin> set stages" by (simp add: stages_def kSteps_def kNativeNames_def)
  have "encode_settlement (ledger s) n = None \<longleftrightarrow> first_failure (ledger s) \<notin> set stages"
  proof
    assume "first_failure (ledger s) \<notin> set stages"
    then show "encode_settlement (ledger s) n = None"
      using encoded_body [of "ledger s" n] by (metis not_None_eq string_id_None)
  next
    assume "encode_settlement (ledger s) n = None"
    then show "first_failure (ledger s) \<notin> set stages"
      using encoding_exists [OF m(4)] m(1,2) by (auto simp: string_id_None)
  qed
  then show ?thesis using m(3) a by auto
qed

lemma reportable_observer: "reportable s \<Longrightarrow> \<exists>n. observer s = Some n \<and> obs_balanced n"
  by (auto simp: reportable_def tidy_def split: option.splits)

text \<open>
  Claim C30.  Whatever the environment answers, the ledger and the observer the candidate
  program leaves behind are well formed: seven call categories, an installed observer with
  fourteen balanced counters, and failure names that the settlement frames can carry.  The
  report fails to encode in exactly one situation, a clock that stops or runs backwards
  inside a buffer allocation, whose step name is missing from the table of stages.
\<close>

theorem candidate_report_is_well_formed:
  "(let t = snd (candidate_program os ops crypt address w m)
    in length (abi_calls (ledger t)) = 7 \<and>
       (\<exists>n. observer t = Some n \<and> obs_balanced n \<and>
          (encode_settlement (ledger t) n = None) = (first_failure (ledger t) = ''buffer_alloc'')))"
proof -
  define t where "t = snd (candidate_program os ops crypt address w m)"
  have r: "reportable t" using candidate_reportable by (simp add: t_def)
  obtain n where n: "observer t = Some n" "obs_balanced n" using reportable_observer [OF r] by blast
  show ?thesis
    using n encoding_fails_iff [OF r n(1)] r
    by (auto simp: t_def [symmetric] Let_def reportable_def)
qed

text \<open>
  The exception occurs: a clock that runs backwards between two checks leaves the name
  \<open>buffer_alloc\<close>, and that ledger has no settlement record.
\<close>

lemma allocation_clock_stop_unreportable:
  "(let s = (fresh_probe (5 :: u64) (\<lambda>_. 0))\<lparr>ledger := bind_launch_origin 7 fresh_ledger\<rparr>;
        env = \<lparr>clock_ms = Some (\<lambda>now. (Some now, now)), sampler = None\<rparr>;
        api = \<lparr>api_abi = (\<lambda>s. (None, s)), api_allocate = Some (\<lambda>_ s. (None, s)), api_deallocate = None,
               api_generate_key = (\<lambda>_ _ _ _ _ _ _ s. (None, s)),
               api_sign_digest = (\<lambda>_ _ _ _ _ _ _ _ _ _ s. (None, s)),
               api_verify_digest = (\<lambda>_ _ _ _ _ _ _ s. (None, s)),
               api_peer_policy = (\<lambda>_ _ _ _ s. (None, s))\<rparr>;
        t = snd (snd (snd (pool_allocate env api 16 s)))
    in first_failure (ledger t) = ''buffer_alloc'' \<and>
       encode_settlement (ledger t) fresh_observation = None)"
proof -
  have "string_id stages ''buffer_alloc'' = None"
    by (simp add: string_id_None stages_def kSteps_def kNativeNames_def)
  then have e: "encode_settlement l n = None" if "first_failure l = ''buffer_alloc''" for l n
    using encoded_body [of l n] that by (metis not_None_eq)
  show ?thesis
    unfolding Let_def
    by (rule conjI, simp add: pool_allocate_def fresh_probe_def bind_launch_origin_def fresh_ledger_def
        MAX_BYTES_def kMaxSlots_def kMaxLiveBuffers_def check_clock_def on_ledger_def ledger_stop_def Let_def)
      (rule e, simp add: pool_allocate_def fresh_probe_def bind_launch_origin_def fresh_ledger_def
        MAX_BYTES_def kMaxSlots_def kMaxLiveBuffers_def check_clock_def on_ledger_def ledger_stop_def Let_def)
qed

end
