(* ===== verification/Grant_Supervisor.thy ===== *)
theory Grant_Supervisor
  imports Crypto_Ledger "HOL-Library.Char_ord"
begin

text \<open>
  The offline admission model (\<open>diagnostics/l1_crypto_admission.h\<close>): the grant target and
  its validity, the one-use grant cell and the supervisor, a state machine that is admitted,
  launches a worker, samples it under a deadline, observes its exit and settles into a
  verdict.  The lemmas show that a terminal supervisor is frozen and that a PASS verdict is
  earned by every observation it stands for.
\<close>

section \<open>Grant targets\<close>

definition safe_id :: "string \<Rightarrow> bool" where
  "safe_id value \<longleftrightarrow>
    value \<noteq> [] \<and> length value \<le> 80 \<and>
    list_all (\<lambda>c. (CHR ''a'' \<le> c \<and> c \<le> CHR ''z'') \<or> (CHR ''A'' \<le> c \<and> c \<le> CHR ''Z'') \<or>
      (CHR ''0'' \<le> c \<and> c \<le> CHR ''9'') \<or> c = CHR ''-'' \<or> c = CHR ''_'' \<or> c = CHR ''.'') value"

definition hex_digest :: "string \<Rightarrow> nat \<Rightarrow> bool" where
  "hex_digest value n \<longleftrightarrow>
    length value = n \<and>
    list_all (\<lambda>c. (CHR ''0'' \<le> c \<and> c \<le> CHR ''9'') \<or> (CHR ''a'' \<le> c \<and> c \<le> CHR ''f'')) value"

record grant_target =
  batch_id :: string
  device_id :: string
  account_identity_sha256 :: string
  source_sha :: string
  base_sha :: string
  exe_sha256 :: string
  dependency_manifest_sha256 :: string
  compiler_id :: string
  os_id :: string
  toolchain_manifest_sha256 :: string
  stop_owner :: string
  recovery_owner :: string
  evidence_owner :: string
  evidence_scope_id :: string
  reviewer_id :: string
  verifier_id :: string
  review_sha256 :: string
  verification_sha256 :: string
  user_approval_id :: string
  user_scope :: string
  non_elevated :: bool
  reviewer_approved :: bool
  verifier_approved :: bool
  evidence_output_approved :: bool
  user_approved :: bool
  working_set_bytes :: u64
  commit_bytes :: u64
  grant_handles :: u32
  window_start_ms :: u64
  window_end_ms :: u64
  max_execution_ms :: u64
  grant_limits :: "u32 list"

definition crypto_limits :: "u32 list" where
  "crypto_limits = [1, 3, 3, 6, 3, 45, 45]"

definition is_admission_only :: "grant_target \<Rightarrow> bool" where
  "is_admission_only t \<longleftrightarrow> user_scope t = ''L1-ADMISSION'' \<and> grant_limits t = replicate 7 0"

definition structure_complete :: "grant_target \<Rightarrow> bool" where
  "structure_complete t \<longleftrightarrow>
    list_all safe_id
      [batch_id t, device_id t, compiler_id t, os_id t, stop_owner t, recovery_owner t,
       evidence_owner t, evidence_scope_id t, reviewer_id t, verifier_id t, user_approval_id t] \<and>
    list_all (\<lambda>sha. hex_digest sha 64)
      [account_identity_sha256 t, exe_sha256 t, dependency_manifest_sha256 t,
       toolchain_manifest_sha256 t, review_sha256 t, verification_sha256 t] \<and>
    hex_digest (source_sha t) 40 \<and> hex_digest (base_sha t) 40 \<and>
    ((user_scope t = ''L1-CRYPTO'' \<and> grant_limits t = crypto_limits) \<or> is_admission_only t) \<and>
    non_elevated t \<and> evidence_output_approved t \<and> working_set_bytes t \<noteq> 0 \<and> commit_bytes t \<noteq> 0 \<and>
    grant_handles t \<noteq> 0 \<and> max_execution_ms t = 30000 \<and> window_start_ms t < window_end_ms t \<and>
    max_execution_ms t \<le> window_end_ms t - window_start_ms t"

definition valid_pre_approval :: "grant_target \<Rightarrow> bool" where
  "valid_pre_approval t \<longleftrightarrow> structure_complete t \<and> reviewer_approved t \<and> verifier_approved t"

definition valid_target :: "grant_target \<Rightarrow> bool" where
  "valid_target t \<longleftrightarrow> valid_pre_approval t \<and> user_approved t"

text \<open>The instant lies in the window and leaves a whole execution before its end.\<close>

definition in_window :: "grant_target \<Rightarrow> u64 \<Rightarrow> bool" where
  "in_window t now \<longleftrightarrow>
    window_start_ms t \<le> now \<and> now < window_end_ms t \<and> max_execution_ms t \<le> window_end_ms t - now"

section \<open>The one-use grant cell\<close>

datatype grant_state =
  kUnissued | kIssued | kConsumed | kExpired | kMismatch | kGrantUnknown | kRejected

record grant_cell =
  cell_state :: grant_state
  cell_attempts :: u32
  cell_target :: "grant_target option"

definition fresh_cell :: grant_cell where
  "fresh_cell = \<lparr>cell_state = kUnissued, cell_attempts = 0, cell_target = None\<rparr>"

definition cell_issue :: "grant_target \<Rightarrow> grant_cell \<Rightarrow> bool \<times> grant_cell" where
  "cell_issue t c =
    (if cell_state c \<noteq> kUnissued then (False, c)
     else if \<not> valid_target t then (False, c\<lparr>cell_state := kRejected\<rparr>)
     else (True, c\<lparr>cell_target := Some t, cell_state := kIssued\<rparr>))"

text \<open>Identity compares every field of the two targets.\<close>

definition cell_consume :: "bool \<Rightarrow> grant_target \<Rightarrow> u64 \<Rightarrow> grant_cell \<Rightarrow> bool \<times> grant_cell" where
  "cell_consume simulate_unknown_write observed now c =
    (if cell_state c \<noteq> kIssued then (False, c)
     else
       let c = c\<lparr>cell_attempts := cell_attempts c + 1, cell_state := kConsumed\<rparr>
       in if simulate_unknown_write then (False, c\<lparr>cell_state := kGrantUnknown\<rparr>)
          else if \<not> valid_target observed \<or> Some observed \<noteq> cell_target c then
            (False, c\<lparr>cell_state := kMismatch\<rparr>)
          else if \<not> in_window (the (cell_target c)) now then (False, c\<lparr>cell_state := kExpired\<rparr>)
          else (True, c))"

section \<open>The supervisor\<close>

datatype supervisor_state =
    kNotStarted | kAdmitted | kStartAttempted | kRunning | kSettling | kComplete
  | kStopRequested | kDeadlineExceeded | kSettlementUnknown | kBlocked

definition supervisor_terminal :: "supervisor_state \<Rightarrow> bool" where
  "supervisor_terminal st \<longleftrightarrow> st = kComplete \<or> st = kSettlementUnknown \<or> st = kBlocked"

datatype offline_verdict = kNotRun | kPass | kFail | kUnknownVerdict | kInconclusive

datatype stop_reason =
  kNone | kAdmission | kLaunch | kDeadline | kMeasurement | kBudget | kWorker | kSettlement

datatype worker_state =
  wNotStarted | wStartAttempted | wStartFailed | wRunning | wExitObserved | wUnknown

record resource_sample =
  observed_at_ms :: u64
  s_working :: u64
  s_commit :: u64
  s_handles :: u32
  completed_calls :: u32

text \<open>The evidence holds the target's public identifiers as the admitted target itself.\<close>

record supervisor =
  sv_target :: "grant_target option"
  sv_trial :: string
  sv_abi :: "call_counts list"
  sv_native :: native_observation
  sv_buffers_acquired :: u32
  sv_buffers_live :: u32
  sv_samples :: "resource_sample list"
  sv_worker :: worker_state
  sv_completed_calls :: u32
  launch_attempt_ms :: u64
  process_end_ms :: u64
  exit_observed :: bool
  deadline_exceeded :: bool
  settlement_incomplete :: bool
  sv_failure :: stop_reason
  sv_verdict :: offline_verdict
  sv_state :: supervisor_state
  sv_last_ms :: u64
  sv_started :: bool

definition fresh_supervisor :: supervisor where
  "fresh_supervisor =
    \<lparr>sv_target = None, sv_trial = [], sv_abi = replicate 7 no_counts, sv_native = fresh_observation,
     sv_buffers_acquired = 0, sv_buffers_live = 0, sv_samples = [], sv_worker = wNotStarted,
     sv_completed_calls = 0, launch_attempt_ms = 0, process_end_ms = 0, exit_observed = False,
     deadline_exceeded = False, settlement_incomplete = True, sv_failure = kNone,
     sv_verdict = kNotRun, sv_state = kNotStarted, sv_last_ms = 0, sv_started = False\<rparr>"

text \<open>The target's fields before admission are the defaults of \<open>GrantTarget\<close>.\<close>

definition default_target :: grant_target where
  "default_target =
    \<lparr>batch_id = [], device_id = [], account_identity_sha256 = [], source_sha = [], base_sha = [],
     exe_sha256 = [], dependency_manifest_sha256 = [], compiler_id = [], os_id = [],
     toolchain_manifest_sha256 = [], stop_owner = [], recovery_owner = [], evidence_owner = [],
     evidence_scope_id = [], reviewer_id = [], verifier_id = [], review_sha256 = [],
     verification_sha256 = [], user_approval_id = [], user_scope = [], non_elevated = False,
     reviewer_approved = False, verifier_approved = False, evidence_output_approved = False,
     user_approved = False, working_set_bytes = 0, commit_bytes = 0, grant_handles = 0,
     window_start_ms = 0, window_end_ms = 0, max_execution_ms = 30000, grant_limits = crypto_limits\<rparr>"

definition target_of :: "supervisor \<Rightarrow> grant_target" where
  "target_of s = (case sv_target s of None \<Rightarrow> default_target | Some t \<Rightarrow> t)"

definition sv_stop :: "stop_reason \<Rightarrow> supervisor_state \<Rightarrow> supervisor \<Rightarrow> supervisor" where
  "sv_stop reason st s =
    (if supervisor_terminal (sv_state s) then s
     else s\<lparr>sv_failure := (if sv_failure s = kNone then reason else sv_failure s), sv_state := st\<rparr>)"

definition sv_time :: "u64 \<Rightarrow> supervisor \<Rightarrow> bool \<times> supervisor" where
  "sv_time now s =
    (if now < sv_last_ms s then (False, sv_stop kMeasurement kStopRequested s)
     else (True, s\<lparr>sv_last_ms := now\<rparr>))"

text \<open>\<open>consume\<close> is the injected grant consumer over its own state \<open>'c\<close>.\<close>

definition admit_dual_clock ::
    "(grant_target \<Rightarrow> u64 \<Rightarrow> 'c \<Rightarrow> bool \<times> 'c) \<Rightarrow> grant_target \<Rightarrow> u64 \<Rightarrow> u64 \<Rightarrow> string \<Rightarrow> 'c \<Rightarrow> supervisor
     \<Rightarrow> bool \<times> 'c \<times> supervisor" where
  "admit_dual_clock consume observed utc tick trial cell s =
    (if sv_state s \<noteq> kNotStarted then (False, cell, s)
     else if \<not> safe_id trial then (False, cell, sv_stop kAdmission kBlocked s)
     else
       case consume observed utc cell of
         (False, cell) \<Rightarrow> (False, cell, sv_stop kAdmission kBlocked s)
       | (True, cell) \<Rightarrow>
           (True, cell,
            s\<lparr>sv_target := Some observed, sv_last_ms := tick, sv_trial := trial, sv_state := kAdmitted\<rparr>))"

definition sv_admit ::
    "(grant_target \<Rightarrow> u64 \<Rightarrow> 'c \<Rightarrow> bool \<times> 'c) \<Rightarrow> grant_target \<Rightarrow> u64 \<Rightarrow> string \<Rightarrow> 'c \<Rightarrow> supervisor
     \<Rightarrow> bool \<times> 'c \<times> supervisor" where
  "sv_admit consume observed now trial = admit_dual_clock consume observed now now trial"

definition begin_launch :: "u64 \<Rightarrow> u64 \<Rightarrow> supervisor \<Rightarrow> bool \<times> supervisor" where
  "begin_launch utc tick s =
    (if sv_state s \<noteq> kAdmitted then (False, s)
     else
       case sv_time tick s of
         (False, s) \<Rightarrow> (False, s)
       | (True, s) \<Rightarrow>
           let s = s\<lparr>launch_attempt_ms := tick, sv_worker := wStartAttempted,
                     sv_state := kStartAttempted, sv_started := True\<rparr>
           in if \<not> in_window (target_of s) utc then
                (False, (sv_stop kLaunch kBlocked s)\<lparr>sv_worker := wStartFailed\<rparr>)
              else (True, s))"

definition confirm_launch :: "worker_state \<Rightarrow> supervisor \<Rightarrow> bool \<times> supervisor" where
  "confirm_launch result s =
    (if sv_state s \<noteq> kStartAttempted then (False, s)
     else if result = wUnknown then
       (False, (sv_stop kLaunch kSettlementUnknown s)\<lparr>sv_worker := wUnknown, sv_verdict := kUnknownVerdict\<rparr>)
     else if result \<noteq> wRunning then
       (False, (sv_stop kLaunch kBlocked s)\<lparr>sv_worker := wStartFailed\<rparr>)
     else (True, s\<lparr>sv_state := kRunning, sv_worker := wRunning\<rparr>))"

definition sv_launch :: "u64 \<Rightarrow> bool \<Rightarrow> supervisor \<Rightarrow> bool \<times> supervisor" where
  "sv_launch now fake_started s =
    (case begin_launch now now s of
       (False, s) \<Rightarrow> (False, s)
     | (True, s) \<Rightarrow> confirm_launch (if fake_started then wRunning else wStartFailed) s)"

definition sv_poll :: "u64 \<Rightarrow> bool \<Rightarrow> supervisor \<Rightarrow> bool \<times> supervisor" where
  "sv_poll now healthy s =
    (if supervisor_terminal (sv_state s) \<or> sv_state s = kNotStarted then (False, s)
     else if \<not> healthy then (False, sv_stop kMeasurement kStopRequested s)
     else
       case sv_time now s of
         (False, s) \<Rightarrow> (False, sv_stop kMeasurement kStopRequested s)
       | (True, s) \<Rightarrow>
           if sv_started s \<and> max_execution_ms (target_of s) \<le> now - launch_attempt_ms s then
             (False, sv_stop kDeadline kDeadlineExceeded (s\<lparr>deadline_exceeded := True\<rparr>))
           else (sv_failure s = kNone, s))"

definition admission_open :: "u64 \<Rightarrow> supervisor \<Rightarrow> bool \<times> supervisor" where
  "admission_open now s =
    (case sv_poll now True s of
       (False, s) \<Rightarrow> (False, s)
     | (True, s) \<Rightarrow> (sv_state s = kRunning \<and> sv_failure s = kNone, s))"

definition expected_completed :: "supervisor \<Rightarrow> u32" where
  "expected_completed s =
    (if is_admission_only (target_of s) then 0
     else if length (sv_samples s) = 17 then 16 else of_nat (length (sv_samples s)))"

definition bad_sample :: "resource_sample \<Rightarrow> supervisor \<Rightarrow> bool" where
  "bad_sample x s \<longleftrightarrow>
    18 \<le> length (sv_samples s) \<or> s_working x = 0 \<or> s_commit x = 0 \<or> s_handles x = 0 \<or>
    completed_calls x \<noteq> expected_completed s \<or>
    (sv_samples s \<noteq> [] \<and>
      (s_working x < s_working (last (sv_samples s)) \<or> s_commit x < s_commit (last (sv_samples s))))"

definition over_target :: "resource_sample \<Rightarrow> grant_target \<Rightarrow> bool" where
  "over_target x t \<longleftrightarrow>
    working_set_bytes t < s_working x \<or> commit_bytes t < s_commit x \<or> grant_handles t < s_handles x"

definition sv_sample :: "resource_sample \<Rightarrow> bool \<Rightarrow> supervisor \<Rightarrow> bool \<times> supervisor" where
  "sv_sample x measurement_ok s =
    (if sv_state s \<noteq> kRunning \<and> sv_state s \<noteq> kSettling then (False, s)
     else
       case sv_poll (observed_at_ms x) measurement_ok s of
         (False, s) \<Rightarrow> (False, s)
       | (True, s) \<Rightarrow>
           if bad_sample x s then (False, sv_stop kMeasurement kStopRequested s)
           else
             let s = s\<lparr>sv_samples := sv_samples s @ [x]\<rparr>
             in if over_target x (target_of s) then (False, sv_stop kBudget kStopRequested s)
                else (True, s))"

definition worker_failed :: "supervisor \<Rightarrow> supervisor" where
  "worker_failed s = sv_stop kWorker kStopRequested s"

definition sv_refuse :: "stop_reason \<Rightarrow> supervisor \<Rightarrow> supervisor" where
  "sv_refuse reason s =
    (if reason \<noteq> kAdmission \<and> reason \<noteq> kLaunch then s else sv_stop reason kBlocked s)"

definition begin_settlement :: "supervisor \<Rightarrow> supervisor" where
  "begin_settlement s =
    (if sv_started s \<and> \<not> supervisor_terminal (sv_state s) then s\<lparr>sv_state := kSettling\<rparr> else s)"

definition observe_worker_exit :: "u64 \<Rightarrow> supervisor \<Rightarrow> supervisor" where
  "observe_worker_exit now s =
    (if supervisor_terminal (sv_state s) \<or> \<not> sv_started s \<or> exit_observed s then s
     else
       case sv_time now s of
         (False, s) \<Rightarrow> s
       | (True, s) \<Rightarrow>
           begin_settlement (s\<lparr>exit_observed := True, sv_worker := wExitObserved, process_end_ms := now\<rparr>))"

section \<open>Settlement\<close>

text \<open>Every category balances: what was attempted returned and settled, and nothing is unknown.\<close>

definition unbalanced :: "call_counts \<Rightarrow> bool" where
  "unbalanced c \<longleftrightarrow>
    unknown_n c \<noteq> 0 \<or> returned_n c \<noteq> attempted_n c \<or> settled_n c \<noteq> attempted_n c"

definition idle_exact :: "crypto_ledger \<Rightarrow> native_observation \<Rightarrow> bool" where
  "idle_exact l n \<longleftrightarrow>
    abi_attempted_total l = 0 \<and> l_attempted l = 0 \<and> l_returned l = 0 \<and> l_completed l = 0 \<and>
    l_accepted l = 0 \<and> l_successful l = 0 \<and> buffers_allocated l = 0 \<and> releases_attempted l = 0 \<and>
    releases_succeeded l = 0 \<and> duplicate_release_attempts l = 0 \<and>
    forbidden_symbol_attempts l = 0 \<and> observation_failures l = 0 \<and> l_samples l = 18 \<and>
    \<not> l_stopped l \<and> obs_acquired n = 0 \<and> obs_released n = 0 \<and> obs_still_owned n = 0 \<and>
    obs_quarantined n = 0 \<and> \<not> obs_stopped n \<and> \<not> obs_unknown n"

definition crypto_exact :: "crypto_ledger \<Rightarrow> native_observation \<Rightarrow> bool" where
  "crypto_exact l n \<longleftrightarrow>
    abi_attempted_total l = 106 \<and> l_attempted l = 16 \<and> l_returned l = 16 \<and> l_completed l = 16 \<and>
    l_accepted l = 16 \<and> l_successful l = 12 \<and> buffers_allocated l = 45 \<and>
    releases_attempted l = 45 \<and> releases_succeeded l = 45 \<and> duplicate_release_attempts l = 0 \<and>
    forbidden_symbol_attempts l = 0 \<and> observation_failures l = 0 \<and> l_samples l = 18 \<and>
    \<not> l_stopped l \<and> obs_complete n"

definition exact_run :: "grant_target \<Rightarrow> crypto_ledger \<Rightarrow> native_observation \<Rightarrow> bool" where
  "exact_run t l n \<longleftrightarrow>
    (if is_admission_only t then
       idle_exact l n \<and> list_all (\<lambda>c. attempted_n c = 0 \<and> accepted_n c = 0) (obs_calls n)
     else crypto_exact l n) \<and>
    list_all2 (\<lambda>limit c. attempted_n c = limit \<and> accepted_n c = attempted_n c) (grant_limits t) (abi_calls l)"

definition unresolved_run :: "bool \<Rightarrow> crypto_ledger \<Rightarrow> native_observation \<Rightarrow> bool" where
  "unresolved_run exited l n \<longleftrightarrow>
    \<not> exited \<or> obs_unknown n \<or> obs_still_owned n \<noteq> 0 \<or> obs_quarantined n \<noteq> 0 \<or>
    obs_acquired n \<noteq> obs_released n \<or> settlement_unknown l \<or>
    list_ex unbalanced (obs_calls n) \<or> list_ex unbalanced (abi_calls l) \<or>
    buffers_live l \<noteq> 0 \<or> releases_unknown l \<noteq> 0"

text \<open>What the observer recorded, before it is judged.\<close>

definition record_run :: "u64 \<Rightarrow> bool \<Rightarrow> crypto_ledger \<Rightarrow> native_observation \<Rightarrow> supervisor \<Rightarrow> supervisor" where
  "record_run now observed_exit l n s =
    (let s = s\<lparr>sv_abi := abi_calls l, sv_native := n, sv_buffers_acquired := buffers_allocated l,
               sv_buffers_live := buffers_live l\<rparr>;
         s = (if observed_exit \<and> \<not> exit_observed s then s\<lparr>exit_observed := True, process_end_ms := now\<rparr>
              else s)
     in s\<lparr>sv_worker := (if exit_observed s then wExitObserved else wUnknown),
          sv_completed_calls := l_completed l,
          settlement_incomplete := unresolved_run (exit_observed s) l n\<rparr>)"

definition sv_settle :: "u64 \<Rightarrow> bool \<Rightarrow> crypto_ledger \<Rightarrow> native_observation \<Rightarrow> supervisor \<Rightarrow> supervisor" where
  "sv_settle now observed_exit l n s =
    (if \<not> sv_started s \<or> supervisor_terminal (sv_state s) then s
     else
       let s = record_run now observed_exit l n (snd (sv_poll now True s))
       in if settlement_incomplete s then
            (sv_stop kSettlement kSettlementUnknown s)\<lparr>sv_verdict := kUnknownVerdict\<rparr>
          else
            s\<lparr>sv_state := kComplete,
              sv_verdict :=
                (if sv_failure s = kMeasurement then kInconclusive
                 else if sv_failure s \<noteq> kNone \<or> \<not> exact_run (target_of s) l n \<or> length (sv_samples s) \<noteq> 18
                 then kFail else kPass)\<rparr>)"

section \<open>Runs\<close>

text \<open>What can happen to a grant cell and the supervisor that consumes it, in any order.\<close>

datatype supervisor_event =
    Issue grant_target
  | Admit grant_target u64 u64 string
  | Launch u64 u64
  | Confirm worker_state
  | Poll u64 bool
  | Ask_Admission u64
  | Take_Sample resource_sample bool
  | Worker_Failed
  | Refuse stop_reason
  | Worker_Exit u64
  | Begin_Settlement
  | Settle u64 bool crypto_ledger native_observation

fun occur :: "supervisor_event \<Rightarrow> grant_cell \<times> supervisor \<Rightarrow> grant_cell \<times> supervisor" where
  "occur (Issue t) (c, s) = (snd (cell_issue t c), s)"
| "occur (Admit t utc tick trial) (c, s) = snd (admit_dual_clock (cell_consume False) t utc tick trial c s)"
| "occur (Launch utc tick) (c, s) = (c, snd (begin_launch utc tick s))"
| "occur (Confirm r) (c, s) = (c, snd (confirm_launch r s))"
| "occur (Poll now healthy) (c, s) = (c, snd (sv_poll now healthy s))"
| "occur (Ask_Admission now) (c, s) = (c, snd (admission_open now s))"
| "occur (Take_Sample x ok) (c, s) = (c, snd (sv_sample x ok s))"
| "occur Worker_Failed (c, s) = (c, worker_failed s)"
| "occur (Refuse r) (c, s) = (c, sv_refuse r s)"
| "occur (Worker_Exit now) (c, s) = (c, observe_worker_exit now s)"
| "occur Begin_Settlement (c, s) = (c, begin_settlement s)"
| "occur (Settle now ex l n) (c, s) = (c, sv_settle now ex l n s)"

inductive supervised :: "grant_cell \<Rightarrow> supervisor \<Rightarrow> bool" where
  fresh: "supervised fresh_cell fresh_supervisor"
| event: "supervised c s \<Longrightarrow> occur e (c, s) = (c', s') \<Longrightarrow> supervised c' s'"

inductive_simps occur_supervised: "supervised c s"
section \<open>What every run upholds\<close>

definition granted :: "grant_cell \<Rightarrow> grant_target \<Rightarrow> bool" where
  "granted c t \<longleftrightarrow>
    valid_target t \<and> cell_state c = kConsumed \<and> cell_target c = Some t \<and> cell_attempts c = 1"

definition issued_once :: "grant_cell \<Rightarrow> bool" where
  "issued_once c \<longleftrightarrow>
    (cell_state c = kUnissued \<longrightarrow> cell_attempts c = 0) \<and>
    (cell_state c = kIssued \<longrightarrow>
      cell_attempts c = 0 \<and> (case cell_target c of None \<Rightarrow> False | Some t \<Rightarrow> valid_target t))"

text \<open>The times of an unlatched supervisor are in order.\<close>

definition timely :: "supervisor \<Rightarrow> bool" where
  "timely s \<longleftrightarrow>
    (sv_started s \<longrightarrow> launch_attempt_ms s \<le> sv_last_ms s) \<and>
    (exit_observed s \<longrightarrow>
      launch_attempt_ms s \<le> process_end_ms s \<and> process_end_ms s \<le> sv_last_ms s)"

definition within_target :: "supervisor \<Rightarrow> bool" where
  "within_target s \<longleftrightarrow> list_all (\<lambda>x. \<not> over_target x (target_of s)) (sv_samples s)"

definition unlatched_ok :: "supervisor \<Rightarrow> bool" where
  "unlatched_ok s \<longleftrightarrow>
    (sv_failure s = kNone \<longrightarrow> within_target s \<and> \<not> deadline_exceeded s \<and> timely s)"

definition staged :: "supervisor \<Rightarrow> bool" where
  "staged s \<longleftrightarrow>
    (sv_state s = kNotStarted \<longrightarrow> sv_target s = None) \<and>
    (sv_state s = kNotStarted \<or> sv_state s = kAdmitted \<longrightarrow> \<not> sv_started s) \<and>
    (\<not> sv_started s \<longrightarrow> sv_samples s = [] \<and> \<not> exit_observed s) \<and>
    (sv_state s = kAdmitted \<or> sv_state s = kStartAttempted \<or> sv_state s = kRunning \<or>
      sv_state s = kSettling \<or> sv_started s \<longrightarrow> sv_target s \<noteq> None) \<and>
    (sv_state s = kStartAttempted \<or> sv_state s = kRunning \<or> sv_state s = kSettling \<longrightarrow> sv_started s)"

text \<open>What a PASS verdict stands for.\<close>

definition earned_pass :: "supervisor \<Rightarrow> bool" where
  "earned_pass s \<longleftrightarrow>
    sv_state s = kComplete \<and> sv_failure s = kNone \<and> sv_started s \<and> exit_observed s \<and>
    \<not> settlement_incomplete s \<and> length (sv_samples s) = 18 \<and>
    process_end_ms s - launch_attempt_ms s < max_execution_ms (target_of s) \<and>
    list_all2 (\<lambda>limit c. attempted_n c = limit \<and> accepted_n c = attempted_n c)
      (grant_limits (target_of s)) (sv_abi s)"

definition upheld :: "grant_cell \<Rightarrow> supervisor \<Rightarrow> bool" where
  "upheld c s \<longleftrightarrow>
    issued_once c \<and> (sv_target s \<noteq> None \<longrightarrow> granted c (target_of s)) \<and> staged s \<and> unlatched_ok s \<and>
    (sv_verdict s = kPass \<longrightarrow> earned_pass s)"

lemmas upheld_defs =
  upheld_def issued_once_def granted_def staged_def unlatched_ok_def within_target_def timely_def

text \<open>A terminal supervisor is frozen: no operation changes it.\<close>

lemma stop_frozen: "supervisor_terminal (sv_state s) \<Longrightarrow> sv_stop r st s = s"
  by (simp add: sv_stop_def)

lemma terminal_states:
  "supervisor_terminal (sv_state s) \<Longrightarrow>
    sv_state s \<noteq> kNotStarted \<and> sv_state s \<noteq> kAdmitted \<and> sv_state s \<noteq> kStartAttempted \<and>
    sv_state s \<noteq> kRunning \<and> sv_state s \<noteq> kSettling"
  by (auto simp: supervisor_terminal_def)

lemma poll_frozen: "supervisor_terminal (sv_state s) \<Longrightarrow> sv_poll now h s = (False, s)"
  by (simp add: sv_poll_def)

lemma terminal_is_frozen:
  assumes "supervisor_terminal (sv_state s)"
  shows "snd (occur e (c, s)) = s"
  using assms terminal_states [OF assms]
  by (cases e)
    (simp_all add: admit_dual_clock_def begin_launch_def confirm_launch_def poll_frozen admission_open_def
      sv_sample_def worker_failed_def sv_refuse_def stop_frozen observe_worker_exit_def
      begin_settlement_def sv_settle_def)

lemma fresh_upheld: "upheld fresh_cell fresh_supervisor"
  by (simp add: upheld_defs fresh_cell_def fresh_supervisor_def earned_pass_def)

lemma issue_upheld: "upheld c s \<Longrightarrow> upheld (snd (cell_issue t c)) s"
  by (auto simp: upheld_defs cell_issue_def)

lemma sv_stop_fields:
  "target_of (sv_stop r st s) = target_of s" "sv_target (sv_stop r st s) = sv_target s"
  "sv_samples (sv_stop r st s) = sv_samples s" "sv_started (sv_stop r st s) = sv_started s"
  "exit_observed (sv_stop r st s) = exit_observed s"
  "launch_attempt_ms (sv_stop r st s) = launch_attempt_ms s"
  "sv_verdict (sv_stop r st s) = sv_verdict s" "sv_last_ms (sv_stop r st s) = sv_last_ms s"
  "sv_state (sv_stop r st s) = (if supervisor_terminal (sv_state s) then sv_state s else st)"
  "sv_failure (sv_stop r st s) =
    (if supervisor_terminal (sv_state s) \<or> sv_failure s \<noteq> kNone then sv_failure s else r)"
  by (simp_all add: sv_stop_def target_of_def)

lemma stop_upheld:
  assumes "upheld c s" and "r \<noteq> kNone" and "st = kBlocked \<or> st = kStopRequested \<or> st = kDeadlineExceeded \<or> st = kSettlementUnknown"
  shows "upheld c (sv_stop r st s)"
proof (cases "supervisor_terminal (sv_state s)")
  case False
  then have "sv_verdict s \<noteq> kPass"
    using assms(1) by (auto simp: upheld_def earned_pass_def supervisor_terminal_def)
  moreover have "sv_failure (sv_stop r st s) \<noteq> kNone" "sv_state (sv_stop r st s) = st"
    using assms(2) False by (simp_all add: sv_stop_fields)
  moreover have "staged (sv_stop r st s)"
    using assms(1,3) False unfolding upheld_def by (elim conjE disjE) (simp_all add: staged_def sv_stop_fields)
  ultimately show ?thesis
    using assms(1) by (simp add: upheld_def unlatched_ok_def sv_stop_fields)
qed (use assms in \<open>simp add: stop_frozen\<close>)

lemma tick_fields:
  "target_of (s\<lparr>sv_last_ms := now\<rparr>) = target_of s"
  "target_of (s\<lparr>deadline_exceeded := d\<rparr>) = target_of s"
  "target_of (s\<lparr>sv_state := st\<rparr>) = target_of s"
  "target_of (s\<lparr>sv_samples := xs\<rparr>) = target_of s"
  by (simp_all add: target_of_def)

lemma tick_views:
  "staged (s\<lparr>sv_last_ms := now\<rparr>) = staged s"
  "within_target (s\<lparr>sv_last_ms := now\<rparr>) = within_target s"
  "earned_pass (s\<lparr>sv_last_ms := now\<rparr>) = earned_pass s"
  by (simp_all add: staged_def within_target_def earned_pass_def tick_fields)

lemma tick_timely: "timely s \<Longrightarrow> sv_last_ms s \<le> now \<Longrightarrow> timely (s\<lparr>sv_last_ms := now\<rparr>)"
  by (auto simp: timely_def)

lemma tick_upheld:
  assumes "upheld c s" and "sv_last_ms s \<le> now"
  shows "upheld c (s\<lparr>sv_last_ms := now\<rparr>)"
  using assms tick_timely [of s now] unfolding upheld_def unlatched_ok_def
  by (simp add: tick_views tick_fields)

lemma time_live:
  "sv_time now s = (True, s') \<Longrightarrow> s' = s\<lparr>sv_last_ms := now\<rparr> \<and> sv_last_ms s \<le> now"
  by (auto simp: sv_time_def split: if_splits)

lemma time_late: "sv_time now s = (False, s') \<Longrightarrow> s' = sv_stop kMeasurement kStopRequested s"
  by (auto simp: sv_time_def split: if_splits)

lemma time_upheld:
  assumes "upheld c s" and "sv_time now s = (ok, s')"
  shows "upheld c s'"
  using assms time_live [of now s s'] time_late [of now s s'] tick_upheld stop_upheld
  by (cases ok) auto

lemma live_not_passed:
  "upheld c s \<Longrightarrow> \<not> supervisor_terminal (sv_state s) \<Longrightarrow> sv_verdict s \<noteq> kPass"
  by (auto simp: upheld_def earned_pass_def supervisor_terminal_def)

lemma late_stop_upheld:
  assumes "upheld c s" and "\<not> supervisor_terminal (sv_state s)"
  shows "upheld c (sv_stop kDeadline kDeadlineExceeded (s\<lparr>deadline_exceeded := True\<rparr>))"
  using assms live_not_passed [OF assms]
  by (auto simp: upheld_def staged_def unlatched_ok_def sv_stop_fields tick_fields supervisor_terminal_def)

lemma poll_upheld:
  assumes "upheld c s"
  shows "upheld c (snd (sv_poll now h s))"
proof (cases "supervisor_terminal (sv_state s) \<or> sv_state s = kNotStarted \<or> \<not> h")
  case True
  then show ?thesis using assms by (auto simp: sv_poll_def stop_upheld)
next
  case False
  obtain ok s' where t: "sv_time now s = (ok, s')" by (cases "sv_time now s")
  have u: "upheld c s'" using time_upheld [OF assms t] .
  have l: "\<not> supervisor_terminal (sv_state s')" if ok
    using time_live [of now s s'] t that False by simp
  show ?thesis
    using False t u l late_stop_upheld by (cases ok) (auto simp: sv_poll_def stop_upheld)
qed

text \<open>A poll that answers True left an unlatched supervisor at that instant.\<close>

lemma poll_true:
  "sv_poll now h s = (True, s') \<Longrightarrow>
    s' = s\<lparr>sv_last_ms := now\<rparr> \<and> sv_failure s = kNone \<and> \<not> supervisor_terminal (sv_state s) \<and>
    (sv_started s \<longrightarrow> now - launch_attempt_ms s < max_execution_ms (target_of s))"
  by (auto simp: sv_poll_def sv_time_def tick_fields split: if_splits prod.splits bool.splits)

lemma consume_grants:
  assumes "cell_consume u t now c = (ok, c')" and "issued_once c"
  shows "issued_once c' \<and> (ok \<longrightarrow> granted c' t)"
  using assms by (auto simp: cell_consume_def issued_once_def granted_def Let_def split: if_splits option.splits)

text \<open>Whoever consumed the grant, an accepted admission upholds what a consumed grant stands for.\<close>

lemma accepted_upheld:
  assumes "upheld c s" and "sv_state s = kNotStarted" and "issued_once d" and "granted d t"
  shows "upheld d (s\<lparr>sv_target := Some t, sv_last_ms := tick, sv_trial := trial, sv_state := kAdmitted\<rparr>)"
proof -
  have "sv_verdict s \<noteq> kPass" "sv_samples s = []" "\<not> sv_started s" "\<not> exit_observed s"
    using assms by (auto simp: upheld_def earned_pass_def staged_def)
  then show ?thesis
    using assms
    by (auto simp: upheld_def staged_def unlatched_ok_def within_target_def timely_def target_of_def)
qed

lemma unadmitted_upheld:
  assumes "upheld c s" and "sv_state s = kNotStarted" and "issued_once d"
  shows "upheld d s"
  using assms by (simp add: upheld_def staged_def)

lemma admit_upheld:
  assumes "upheld c s"
    and e: "admit_dual_clock (cell_consume u) t utc tick trial c s = (ok, c', s')"
  shows "upheld c' s'"
proof (cases "sv_state s = kNotStarted \<and> safe_id trial")
  case True
  obtain b d where d: "cell_consume u t utc c = (b, d)" by (cases "cell_consume u t utc c")
  have g: "issued_once d \<and> (b \<longrightarrow> granted d t)"
    using consume_grants [OF d] assms(1) by (simp add: upheld_def)
  show ?thesis
    using e True d g accepted_upheld [OF assms(1)] stop_upheld [OF unadmitted_upheld [OF assms(1)]]
    by (cases b) (auto simp: admit_dual_clock_def)
qed (use assms in \<open>auto simp: admit_dual_clock_def stop_upheld split: if_splits\<close>)

text \<open>The worker's own state and the recorded counters are not part of what is upheld.\<close>

lemma worker_upheld: "upheld c (s\<lparr>sv_worker := x\<rparr>) = upheld c s"
  by (simp add: upheld_def staged_def unlatched_ok_def within_target_def timely_def target_of_def earned_pass_def)

lemma launch_upheld:
  assumes "upheld c s"
  shows "upheld c (snd (begin_launch utc tick s))"
proof (cases "sv_state s = kAdmitted")
  case True
  obtain ok s' where t: "sv_time tick s = (ok, s')" by (cases "sv_time tick s")
  have u: "upheld c s'" using time_upheld [OF assms t] .
  define s1 where "s1 = s'\<lparr>launch_attempt_ms := tick, sv_worker := wStartAttempted,
    sv_state := kStartAttempted, sv_started := True\<rparr>"
  have f: "begin_launch utc tick s = (if \<not> ok then (False, s') else
      if \<not> in_window (target_of s1) utc then (False, (sv_stop kLaunch kBlocked s1)\<lparr>sv_worker := wStartFailed\<rparr>)
      else (True, s1))"
    using True t by (simp add: begin_launch_def s1_def Let_def split: bool.split)
  show ?thesis
  proof (cases ok)
    case good: True
    have s': "s' = s\<lparr>sv_last_ms := tick\<rparr>" using time_live [of tick s s'] t good by simp
    have "\<not> sv_started s'" "\<not> exit_observed s'" "sv_samples s' = []" "sv_target s' \<noteq> None"
      "sv_last_ms s' = tick" "sv_verdict s' \<noteq> kPass"
      using assms True unfolding s' by (auto simp: upheld_def staged_def earned_pass_def)
    then have u1: "upheld c s1"
      using u by (auto simp: s1_def upheld_def staged_def unlatched_ok_def within_target_def timely_def target_of_def)
    have "upheld c ((sv_stop kLaunch kBlocked s1)\<lparr>sv_worker := wStartFailed\<rparr>)"
      using stop_upheld [OF u1, of kLaunch kBlocked] by (simp add: worker_upheld)
    then show ?thesis using f u1 good by simp
  qed (use f u in simp)
qed (use assms in \<open>simp add: begin_launch_def\<close>)


lemma confirm_upheld:
  assumes "upheld c s"
  shows "upheld c (snd (confirm_launch r s))"
proof (cases "sv_state s = kStartAttempted")
  case True
  have v: "sv_verdict s \<noteq> kPass"
    using live_not_passed [OF assms] True by (simp add: supervisor_terminal_def)
  have unknown: "upheld c ((sv_stop kLaunch kSettlementUnknown s)\<lparr>sv_worker := wUnknown, sv_verdict := kUnknownVerdict\<rparr>)"
    using stop_upheld [OF assms, of kLaunch kSettlementUnknown]
    by (simp add: upheld_def staged_def unlatched_ok_def within_target_def timely_def target_of_def)
  have running: "upheld c (s\<lparr>sv_state := kRunning\<rparr>)"
    using assms True v
    by (simp add: upheld_def staged_def unlatched_ok_def within_target_def timely_def target_of_def)
  show ?thesis
    using True unknown running stop_upheld [OF assms, of kLaunch kBlocked]
    by (simp add: confirm_launch_def worker_upheld)
qed (use assms in \<open>simp add: confirm_launch_def\<close>)

lemma asked_upheld: "upheld c s \<Longrightarrow> upheld c (snd (admission_open now s))"
  using poll_upheld [of c s now True]
  by (cases "sv_poll now True s") (simp add: admission_open_def split: bool.split)

lemma sample_upheld:
  assumes "upheld c s"
  shows "upheld c (snd (sv_sample x h s))"
proof (cases "sv_state s = kRunning \<or> sv_state s = kSettling")
  case True
  obtain ok s' where p: "sv_poll (observed_at_ms x) h s = (ok, s')" by (cases "sv_poll (observed_at_ms x) h s")
  have u: "upheld c s'" using poll_upheld [OF assms, of "observed_at_ms x" h] p by simp
  define s1 where "s1 = s'\<lparr>sv_samples := sv_samples s' @ [x]\<rparr>"
  have f: "sv_sample x h s = (if \<not> ok then (False, s')
      else if bad_sample x s' then (False, sv_stop kMeasurement kStopRequested s')
      else if over_target x (target_of s1) then (False, sv_stop kBudget kStopRequested s1) else (True, s1))"
    using True p by (auto simp: sv_sample_def s1_def Let_def split: bool.split)
  show ?thesis
  proof (cases ok)
    case good: True
    have s': "s' = s\<lparr>sv_last_ms := observed_at_ms x\<rparr>" using poll_true [of _ h s s'] p good by simp
    have started: "sv_started s'" "sv_state s' = kRunning \<or> sv_state s' = kSettling"
      using assms True unfolding s' by (auto simp: upheld_def staged_def)
    then have v: "sv_verdict s' \<noteq> kPass" "\<not> supervisor_terminal (sv_state s')"
      using live_not_passed [OF u] by (auto simp: supervisor_terminal_def)
    have "upheld c s1" if "\<not> over_target x (target_of s1)"
      using u started v that
      by (auto simp: s1_def upheld_def staged_def unlatched_ok_def within_target_def timely_def target_of_def)
    moreover have "upheld c (sv_stop kBudget kStopRequested s1)"
      using u started v
      by (auto simp: s1_def upheld_def staged_def unlatched_ok_def sv_stop_fields tick_fields)
    ultimately show ?thesis using f u good stop_upheld [OF u] by simp
  qed (use f u in simp)
qed (use assms in \<open>simp add: sv_sample_def\<close>)

lemma refuse_upheld: "upheld c s \<Longrightarrow> upheld c (sv_refuse r s)"
  by (simp add: sv_refuse_def stop_upheld)

lemma failed_upheld: "upheld c s \<Longrightarrow> upheld c (worker_failed s)"
  by (simp add: worker_failed_def stop_upheld)

lemma settling_upheld:
  assumes "upheld c s"
  shows "upheld c (begin_settlement s)"
proof (cases "sv_started s \<and> \<not> supervisor_terminal (sv_state s)")
  case True
  then show ?thesis
    using assms live_not_passed [OF assms]
    by (auto simp: begin_settlement_def upheld_def staged_def unlatched_ok_def within_target_def timely_def target_of_def)
qed (use assms in \<open>auto simp: begin_settlement_def\<close>)

lemma exit_upheld:
  assumes "upheld c s"
  shows "upheld c (observe_worker_exit now s)"
proof (cases "supervisor_terminal (sv_state s) \<or> \<not> sv_started s \<or> exit_observed s")
  case False
  obtain ok s' where t: "sv_time now s = (ok, s')" by (cases "sv_time now s")
  have u: "upheld c s'" using time_upheld [OF assms t] .
  define s1 where "s1 = s'\<lparr>exit_observed := True, sv_worker := wExitObserved, process_end_ms := now\<rparr>"
  have f: "observe_worker_exit now s = (if ok then begin_settlement s1 else s')"
    using False t by (simp add: observe_worker_exit_def s1_def split: bool.split)
  show ?thesis
  proof (cases ok)
    case good: True
    have s': "s' = s\<lparr>sv_last_ms := now\<rparr>" using time_live [of now s s'] t good by simp
    have "sv_started s'" "\<not> supervisor_terminal (sv_state s')" "sv_last_ms s' = now"
      using False unfolding s' by auto
    then have "upheld c s1"
      using u live_not_passed [OF u]
      by (auto simp: s1_def upheld_def staged_def unlatched_ok_def within_target_def timely_def target_of_def)
    then show ?thesis using f good settling_upheld by simp
  qed (use f u in simp)
qed (use assms in \<open>auto simp: observe_worker_exit_def\<close>)

text \<open>A poll that leaves no failure behind answered True.\<close>

lemma poll_unlatched:
  assumes "\<not> supervisor_terminal (sv_state s)" and "sv_state s \<noteq> kNotStarted"
    and "sv_failure (snd (sv_poll now h s)) = kNone"
  shows "sv_poll now h s = (True, snd (sv_poll now h s))"
  using assms by (auto simp: sv_poll_def sv_time_def sv_stop_fields split: if_splits prod.splits bool.splits)

lemma poll_custody:
  "sv_started (snd (sv_poll now h s)) = sv_started s" "sv_target (snd (sv_poll now h s)) = sv_target s"
  "exit_observed (snd (sv_poll now h s)) = exit_observed s"
  "sv_samples (snd (sv_poll now h s)) = sv_samples s"
  "target_of (snd (sv_poll now h s)) = target_of s"
  by (simp_all add: sv_poll_def sv_time_def sv_stop_fields tick_fields split: prod.split bool.split)

lemma poll_live:
  "\<not> supervisor_terminal (sv_state s) \<Longrightarrow> \<not> supervisor_terminal (sv_state (snd (sv_poll now h s)))"
  by (auto simp: sv_poll_def sv_time_def sv_stop_fields supervisor_terminal_def split: prod.splits bool.splits if_splits)

lemma record_fields:
  "sv_target (record_run now ex l n s) = sv_target s" "target_of (record_run now ex l n s) = target_of s"
  "sv_started (record_run now ex l n s) = sv_started s" "sv_state (record_run now ex l n s) = sv_state s"
  "sv_failure (record_run now ex l n s) = sv_failure s" "sv_samples (record_run now ex l n s) = sv_samples s"
  "deadline_exceeded (record_run now ex l n s) = deadline_exceeded s"
  "sv_verdict (record_run now ex l n s) = sv_verdict s" "sv_abi (record_run now ex l n s) = abi_calls l"
  "launch_attempt_ms (record_run now ex l n s) = launch_attempt_ms s"
  "sv_last_ms (record_run now ex l n s) = sv_last_ms s"
  "exit_observed (record_run now ex l n s) = (ex \<or> exit_observed s)"
  "process_end_ms (record_run now ex l n s) = (if ex \<and> \<not> exit_observed s then now else process_end_ms s)"
  "settlement_incomplete (record_run now ex l n s) = unresolved_run (ex \<or> exit_observed s) l n"
  by (cases ex; cases "exit_observed s"; simp add: record_run_def Let_def target_of_def)+

lemma span_monotone:
  fixes a :: u64
  assumes "a \<le> b" and "b \<le> c" and "c - a < d"
  shows "b - a < d"
  using assms by (simp add: word_le_nat_alt word_less_nat_alt unat_sub)

text \<open>The observer's record is taken at the instant of the settling poll.\<close>

lemma recorded:
  assumes u: "upheld c s" and live: "sv_started s" "\<not> supervisor_terminal (sv_state s)"
    and s1_def: "s1 = record_run now ex l n (snd (sv_poll now True s))"
  shows "upheld c s1 \<and> sv_verdict s1 \<noteq> kPass \<and>
    (sv_failure s1 = kNone \<and> exit_observed s1 \<longrightarrow>
      process_end_ms s1 - launch_attempt_ms s1 < max_execution_ms (target_of s1))"
proof -
  define s0 where "s0 = snd (sv_poll now True s)"
  have u0: "upheld c s0" using poll_upheld [OF u, of now True] by (simp add: s0_def)
  have live0: "sv_started s0" "\<not> supervisor_terminal (sv_state s0)"
    using live poll_live [of s now True] by (simp_all add: s0_def poll_custody)
  have v: "sv_verdict s0 \<noteq> kPass" using live_not_passed [OF u0 live0(2)] .
  have st: "sv_state s \<noteq> kNotStarted" using u live by (auto simp: upheld_def staged_def)
  have p: "sv_last_ms s0 = now \<and> now - launch_attempt_ms s0 < max_execution_ms (target_of s0) \<and> timely s0"
    if "sv_failure s0 = kNone"
  proof -
    have "sv_poll now True s = (True, s0)" using poll_unlatched [OF live(2) st] that by (simp add: s0_def)
    then show ?thesis
      using poll_true [of now True s s0] u0 live that by (simp add: tick_fields upheld_def unlatched_ok_def)
  qed
  have s1: "s1 = record_run now ex l n s0" by (simp add: s1_def s0_def)
  have times: "timely s1 \<and>
      (exit_observed s1 \<longrightarrow> process_end_ms s1 - launch_attempt_ms s1 < max_execution_ms (target_of s1))"
    if "sv_failure s0 = kNone"
    using p [OF that] live0(1) span_monotone [of "launch_attempt_ms s0" "process_end_ms s0" now]
    by (auto simp: s1 record_fields timely_def)
  have "upheld c s1"
    using u0 v times live0 unfolding upheld_def staged_def unlatched_ok_def within_target_def s1
    by (simp add: record_fields)
  moreover have "sv_failure s1 = sv_failure s0" "sv_verdict s1 = sv_verdict s0"
    by (simp_all add: s1 record_fields)
  ultimately show ?thesis using v times by simp
qed

lemma settle_upheld:
  assumes u: "upheld c s"
  shows "upheld c (sv_settle now ex l n s)"
proof (cases "sv_started s \<and> \<not> supervisor_terminal (sv_state s)")
  case True
  define s1 where "s1 = record_run now ex l n (snd (sv_poll now True s))"
  have r: "upheld c s1" "sv_verdict s1 \<noteq> kPass"
    "sv_failure s1 = kNone \<Longrightarrow> exit_observed s1 \<Longrightarrow>
      process_end_ms s1 - launch_attempt_ms s1 < max_execution_ms (target_of s1)"
    using recorded [OF u _ _ s1_def] True by simp_all
  have started: "sv_started s1" using True by (simp add: s1_def record_fields poll_custody)
  have abi: "sv_abi s1 = abi_calls l" by (simp add: s1_def record_fields)
  have exited: "exit_observed s1" if "\<not> settlement_incomplete s1"
    using that by (auto simp: s1_def record_fields unresolved_run_def)
  define v where "v = (if sv_failure s1 = kMeasurement then kInconclusive
     else if sv_failure s1 \<noteq> kNone \<or> \<not> exact_run (target_of s1) l n \<or> length (sv_samples s1) \<noteq> 18
     then kFail else kPass)"
  have e: "sv_settle now ex l n s = (if settlement_incomplete s1
      then (sv_stop kSettlement kSettlementUnknown s1)\<lparr>sv_verdict := kUnknownVerdict\<rparr>
      else s1\<lparr>sv_state := kComplete, sv_verdict := v\<rparr>)"
    using True unfolding sv_settle_def s1_def v_def Let_def by simp
  have unknown: "upheld c ((sv_stop kSettlement kSettlementUnknown s1)\<lparr>sv_verdict := kUnknownVerdict\<rparr>)"
    using stop_upheld [OF r(1), of kSettlement kSettlementUnknown]
    by (simp add: upheld_def staged_def unlatched_ok_def within_target_def timely_def target_of_def)
  have passed: "v = kPass \<Longrightarrow> sv_failure s1 = kNone \<and> length (sv_samples s1) = 18 \<and> exact_run (target_of s1) l n"
    by (auto simp: v_def split: if_splits)
  have "upheld c (s1\<lparr>sv_state := kComplete, sv_verdict := v\<rparr>)" if "\<not> settlement_incomplete s1"
    using r started abi exited [OF that] that passed
    unfolding upheld_def staged_def unlatched_ok_def within_target_def timely_def
    by (simp add: target_of_def earned_pass_def exact_run_def)
  then show ?thesis using e unknown by simp
qed (use assms in \<open>auto simp: sv_settle_def\<close>)

lemma occur_upheld:
  assumes "upheld c s" and "occur e (c, s) = (c', s')"
  shows "upheld c' s'"
proof (cases e)
  case (Admit t utc tick trial)
  then show ?thesis
    using assms admit_upheld [OF assms(1), of False t utc tick trial]
    by (metis occur.simps(2) prod.collapse snd_conv)
qed (use assms in \<open>auto simp: issue_upheld launch_upheld confirm_upheld poll_upheld asked_upheld
  sample_upheld failed_upheld refuse_upheld exit_upheld settling_upheld settle_upheld\<close>)

lemma supervised_upheld: "supervised c s \<Longrightarrow> upheld c s"
  by (induction rule: supervised.induct) (auto intro: fresh_upheld occur_upheld)

text \<open>
  Claim C33.  However the events of a grant cell and its supervisor are ordered and whatever
  they carry, a PASS verdict means that the grant was valid, issued and consumed exactly
  once, that the worker ended within its execution time of the recorded launch attempt,
  that all eighteen samples stayed within the granted ceilings, that every call category
  was attempted exactly as often as granted, and that no failure was ever latched.
\<close>

theorem pass_is_earned:
  assumes "supervised c s" and "sv_verdict s = kPass"
  shows "sv_state s = kComplete \<and> sv_failure s = kNone \<and> exit_observed s \<and>
    \<not> settlement_incomplete s \<and> \<not> deadline_exceeded s \<and> length (sv_samples s) = 18 \<and>
    list_all (\<lambda>x. \<not> over_target x (target_of s)) (sv_samples s) \<and>
    process_end_ms s - launch_attempt_ms s < 30000 \<and>
    list_all2 (\<lambda>limit c. attempted_n c = limit \<and> accepted_n c = attempted_n c)
      (grant_limits (target_of s)) (sv_abi s) \<and>
    sv_target s = cell_target c \<and> valid_target (target_of s) \<and>
    cell_state c = kConsumed \<and> cell_attempts c = 1"
proof -
  have u: "upheld c s" using supervised_upheld [OF assms(1)] .
  have e: "earned_pass s" using u assms(2) by (simp add: upheld_def)
  then have g: "granted c (target_of s)" "sv_target s = Some (target_of s)"
    using u by (auto simp: upheld_def staged_def earned_pass_def target_of_def)
  have "within_target s \<and> \<not> deadline_exceeded s"
    using u e by (simp add: upheld_def unlatched_ok_def earned_pass_def)
  moreover have "max_execution_ms (target_of s) = 30000"
    using g(1) by (simp add: granted_def valid_target_def valid_pre_approval_def structure_complete_def)
  ultimately show ?thesis
    using e g by (simp add: earned_pass_def granted_def within_target_def)
qed

text \<open>A complete admission-only run: grant, launch, eighteen samples, exit and settlement.\<close>

definition sample_grant :: grant_target where
  "sample_grant = default_target
    \<lparr>batch_id := ''b'', device_id := ''d'', account_identity_sha256 := replicate 64 CHR ''a'',
     source_sha := replicate 40 CHR ''0'', base_sha := replicate 40 CHR ''1'',
     exe_sha256 := replicate 64 CHR ''b'', dependency_manifest_sha256 := replicate 64 CHR ''c'',
     compiler_id := ''msvc'', os_id := ''win-11'', toolchain_manifest_sha256 := replicate 64 CHR ''d'',
     stop_owner := ''s'', recovery_owner := ''r'', evidence_owner := ''e'', evidence_scope_id := ''x'',
     reviewer_id := ''w'', verifier_id := ''v'', review_sha256 := replicate 64 CHR ''e'',
     verification_sha256 := replicate 64 CHR ''f'', user_approval_id := ''u'',
     user_scope := ''L1-ADMISSION'', non_elevated := True, reviewer_approved := True,
     verifier_approved := True, evidence_output_approved := True, user_approved := True,
     working_set_bytes := 1000, commit_bytes := 1000, grant_handles := 9,
     window_start_ms := 5, window_end_ms := 90000, grant_limits := replicate 7 0\<rparr>"

definition sample_run :: "supervisor_event list" where
  "sample_run =
    [Issue sample_grant, Admit sample_grant 10 100 ''t1'', Launch 11 101, Confirm wRunning] @
    replicate 18 (Take_Sample \<lparr>observed_at_ms = 200, s_working = 7, s_commit = 8, s_handles = 9, completed_calls = 0\<rparr> True) @
    [Worker_Exit 300, Settle 301 True (fresh_ledger\<lparr>l_samples := 18\<rparr>) fresh_observation]"

lemma run_supervised:
  "supervised (fst (fold occur es (fresh_cell, fresh_supervisor))) (snd (fold occur es (fresh_cell, fresh_supervisor)))"
proof (induction es rule: rev_induct)
  case (snoc e es)
  then show ?case
    using supervised.event [OF snoc.IH, of e] by (simp add: prod_eq_iff)
qed (simp add: supervised.fresh)

lemma sample_run_passes: "sv_verdict (snd (fold occur sample_run (fresh_cell, fresh_supervisor))) = kPass"
  by code_simp

theorem pass_is_earned_witness:
  "cell_attempts (fst (fold occur sample_run (fresh_cell, fresh_supervisor))) = 1 \<and>
   length (sv_samples (snd (fold occur sample_run (fresh_cell, fresh_supervisor)))) = 18"
  using pass_is_earned [OF run_supervised sample_run_passes] by simp

end
