(* ===== verification/Binding_Hash.thy ===== *)
theory Binding_Hash
  imports Grant_Supervisor Frame_Protocol
begin

text \<open>
  The binding hashes of an admission (\<open>CanonicalHashBuilder\<close>, the hexadecimal helpers, the
  object pins and the two stages of hashing in \<open>diagnostics/l1_windows_admission.h\<close>).  The
  lemmas show that the canonical bytes of the first stage determine the whole grant target
  but for the user's approval, and the account, so that two grants with one binding differ
  in nothing that was hashed unless SHA-256 collides.
\<close>

section \<open>Canonical bytes\<close>

definition put_u32 :: "u32 \<Rightarrow> u8 list" where
  "put_u32 v = le_put 4 (ucast v)"

definition put_u64 :: "u64 \<Rightarrow> u8 list" where
  "put_u64 v = le_put 8 v"

definition put_bool :: "bool \<Rightarrow> u8 list" where
  "put_bool b = [if b then 1 else 0]"

definition put_sized :: "u8 list \<Rightarrow> u8 list" where
  "put_sized bs = put_u32 (of_nat (length bs)) @ bs"

definition put_str :: "string \<Rightarrow> u8 list" where
  "put_str s = put_sized (narrow s)"

definition put_wstr_ascii :: "wstring \<Rightarrow> u8 list option" where
  "put_wstr_ascii ws =
    (if ws = [] \<or> 256 < length ws then None
     else if list_ex (\<lambda>c. c < 0x20 \<or> 0x7e < c) ws then None
     else Some (put_u32 (of_nat (length ws)) @ map (\<lambda>c. ucast (c AND 0x7f)) ws))"

section \<open>Hexadecimal text\<close>

definition encode_hex_bytes :: "u8 list \<Rightarrow> string" where
  "encode_hex_bytes bs =
    concat (map (\<lambda>b. [hex_digits ! unat (drop_bit 4 b AND 0x0f), hex_digits ! unat (b AND 0x0f)]) bs)"

definition nibble :: "char \<Rightarrow> u8 option" where
  "nibble c =
    (if CHR ''0'' \<le> c \<and> c \<le> CHR ''9'' then Some (of_char c - of_char CHR ''0'')
     else if CHR ''a'' \<le> c \<and> c \<le> CHR ''f'' then Some (10 + (of_char c - of_char CHR ''a''))
     else None)"

text \<open>The bytes written until the first character that is no digit.\<close>

fun decode_pairs :: "string \<Rightarrow> bool \<times> u8 list" where
  "decode_pairs (h # l # rest) =
    (case (nibble h, nibble l) of
       (Some hi, Some lo) \<Rightarrow>
         (case decode_pairs rest of (ok, bs) \<Rightarrow> (ok, (push_bit 4 hi OR lo) # bs))
     | _ \<Rightarrow> (False, []))"
| "decode_pairs _ = (True, [])"

definition decode_hex_bytes :: "string \<Rightarrow> nat \<Rightarrow> bool \<times> u8 list" where
  "decode_hex_bytes hex n = (if length hex \<noteq> n * 2 then (False, []) else decode_pairs hex)"

definition finalize_hex :: "u8 list \<Rightarrow> string" where
  "finalize_hex bs = encode_hex_bytes (sha256_digest bs)"

section \<open>Pins\<close>

record object_pin =
  pin_volume :: u64
  pin_file :: "u8 list"

definition pin_valid :: "object_pin \<Rightarrow> bool" where
  "pin_valid p \<longleftrightarrow> pin_volume p \<noteq> 0 \<and> list_ex (\<lambda>b. b \<noteq> 0) (pin_file p)"

record batch_pins =
  dir_pin :: object_pin
  receipt_pin :: object_pin
  grant_pin :: object_pin

definition batch_pins_valid :: "batch_pins \<Rightarrow> bool" where
  "batch_pins_valid p \<longleftrightarrow>
    pin_valid (dir_pin p) \<and> pin_valid (receipt_pin p) \<and> pin_valid (grant_pin p) \<and>
    pin_volume (dir_pin p) = pin_volume (receipt_pin p) \<and>
    pin_volume (dir_pin p) = pin_volume (grant_pin p) \<and>
    pin_file (dir_pin p) \<noteq> pin_file (receipt_pin p) \<and>
    pin_file (dir_pin p) \<noteq> pin_file (grant_pin p) \<and>
    pin_file (receipt_pin p) \<noteq> pin_file (grant_pin p)"

section \<open>The two hashes\<close>

record pre_approval =
  pa_structure_complete :: bool
  pa_reviewer_verifier_ready :: bool
  pa_user_already_approved :: bool

definition valid_for_prompt :: "pre_approval \<Rightarrow> bool" where
  "valid_for_prompt r \<longleftrightarrow> pa_structure_complete r \<and> pa_reviewer_verifier_ready r"

definition evaluate_pre_approval_target :: "grant_target \<Rightarrow> pre_approval" where
  "evaluate_pre_approval_target t =
    \<lparr>pa_structure_complete = structure_complete t,
     pa_reviewer_verifier_ready =
       reviewer_approved t \<and> verifier_approved t \<and> safe_id (reviewer_id t) \<and> safe_id (verifier_id t) \<and>
       hex_digest (review_sha256 t) 64 \<and> hex_digest (verification_sha256 t) 64,
     pa_user_already_approved = user_approved t\<rparr>"

text \<open>The hashed fields in the order of the source.\<close>

definition target_strings :: "grant_target \<Rightarrow> string list" where
  "target_strings t =
    [batch_id t, device_id t, account_identity_sha256 t, source_sha t, base_sha t, exe_sha256 t,
     dependency_manifest_sha256 t, compiler_id t, os_id t, toolchain_manifest_sha256 t,
     stop_owner t, recovery_owner t, evidence_owner t, evidence_scope_id t, reviewer_id t,
     verifier_id t, review_sha256 t, verification_sha256 t, user_approval_id t, user_scope t]"

definition target_binding_bytes :: "grant_target \<Rightarrow> wstring \<Rightarrow> u8 list option" where
  "target_binding_bytes t sid =
    map_option
      (\<lambda>account.
        put_str ''SHIROHA_L1_TARGET_HASH_V1'' @ put_u32 1 @
        concat (map put_str (target_strings t)) @
        put_bool (non_elevated t) @ put_bool (reviewer_approved t) @ put_bool (verifier_approved t) @
        put_bool (evidence_output_approved t) @
        put_u64 (working_set_bytes t) @ put_u64 (commit_bytes t) @ put_u32 (grant_handles t) @
        put_u64 (window_start_ms t) @ put_u64 (window_end_ms t) @ put_u64 (max_execution_ms t) @
        concat (map put_u32 (grant_limits t)) @ account)
      (put_wstr_ascii sid)"

text \<open>The result and the hexadecimal output, which is cleared first.\<close>

definition compute_target_binding_sha256 :: "grant_target \<Rightarrow> wstring \<Rightarrow> bool \<times> string" where
  "compute_target_binding_sha256 t sid =
    (if \<not> valid_pre_approval t \<or> sid = [] then (False, [])
     else
       case target_binding_bytes t sid of
         None \<Rightarrow> (False, [])
       | Some b \<Rightarrow> (hex_digest (finalize_hex b) 64, finalize_hex b))"

definition object_identity_bytes :: "string \<Rightarrow> batch_pins \<Rightarrow> string \<Rightarrow> u8 list" where
  "object_identity_bytes binding pins account =
    put_str ''SHIROHA_L1_OBJECT_HASH_V1'' @ put_u32 1 @ put_str binding @
    concat (map (\<lambda>p. put_u64 (pin_volume p) @ put_sized (pin_file p))
      [dir_pin pins, receipt_pin pins, grant_pin pins]) @
    put_str account"

definition compute_object_identity_sha256 :: "string \<Rightarrow> batch_pins \<Rightarrow> string \<Rightarrow> bool \<times> string" where
  "compute_object_identity_sha256 binding pins account =
    (if \<not> hex_digest binding 64 \<or> \<not> batch_pins_valid pins \<or> \<not> hex_digest account 64 then (False, [])
     else
       let h = finalize_hex (object_identity_bytes binding pins account)
       in (hex_digest h 64, h))"

section \<open>Hexadecimal text reads back\<close>

lemma nibble_digits: "list_all (\<lambda>k. nibble (hex_digits ! k) = Some (of_nat k)) [0..<16]"
  by code_simp

lemma nibble_digit: "(n :: u8) \<le> 15 \<Longrightarrow> nibble (hex_digits ! unat n) = Some n"
proof -
  assume "n \<le> 15"
  then have "unat n < 16" by (simp add: word_le_nat_alt)
  then show ?thesis using nibble_digits by (simp add: list_all_iff)
qed

lemma two_nibbles:
  fixes b :: u8
  shows "drop_bit 4 b AND 0x0f \<le> 15" "b AND 0x0f \<le> 15"
    "push_bit 4 (drop_bit 4 b) AND 240 OR b AND 0x0f = b"
proof -
  show "drop_bit 4 b AND 0x0f \<le> 15" "b AND 0x0f \<le> 15" by (simp_all add: word_and_le1)
  have m: "(0x0f :: u8) = mask 4" "(240 :: u8) = NOT (mask 4)" by (simp_all add: mask_eq_exp_minus_1)
  show "push_bit 4 (drop_bit 4 b) AND 240 OR b AND 0x0f = b"
    unfolding m by (rule bit_word_eqI) (auto simp: bit_simps)
qed

lemma decode_encode_pairs: "decode_pairs (encode_hex_bytes bs) = (True, bs)"
  by (induction bs) (simp_all add: encode_hex_bytes_def nibble_digit two_nibbles)

lemma length_encode_hex: "length (encode_hex_bytes bs) = length bs * 2"
  by (induction bs) (simp_all add: encode_hex_bytes_def)

lemma hex_roundtrip: "decode_hex_bytes (encode_hex_bytes bs) (length bs) = (True, bs)"
  by (simp add: decode_hex_bytes_def length_encode_hex decode_encode_pairs)

section \<open>The canonical bytes determine what was hashed\<close>

lemma put_u32_inj: "put_u32 v = put_u32 w \<longleftrightarrow> v = w"
proof
  assume "put_u32 v = put_u32 w"
  then have "of_le_bytes (put_u32 v) = of_le_bytes (put_u32 w)" by simp
  then have "take_bit 32 (ucast v :: u64) = take_bit 32 (ucast w)"
    by (simp add: put_u32_def of_le_put)
  then show "v = w" using word_back by metis
qed simp

lemma put_u64_inj: "put_u64 v = put_u64 w \<longleftrightarrow> v = w"
proof
  assume "put_u64 v = put_u64 w"
  then have "of_le_bytes (put_u64 v) = of_le_bytes (put_u64 w)" by simp
  then have "take_bit 64 v = take_bit 64 w"
    unfolding put_u64_def of_le_put by simp
  then show "v = w" by (simp only: take_bit_whole)
qed simp

lemma put_lengths [simp]: "length (put_u32 v) = 4" "length (put_u64 x) = 8" "length (put_bool b) = 1"
  by (simp_all add: put_u32_def put_u64_def put_bool_def)

text \<open>A field of fixed width can be peeled off the front.\<close>

named_theorems peel \<open>canonical fields are prefix codes\<close>

lemma peel_fixed [peel]:
  "put_u32 v @ x = put_u32 w @ y \<longleftrightarrow> v = w \<and> x = y"
  "put_u64 a @ x = put_u64 b @ y \<longleftrightarrow> a = b \<and> x = y"
  "put_bool p @ x = put_bool q @ y \<longleftrightarrow> p = q \<and> x = y"
  by (simp_all add: append_eq_append_conv put_u32_inj put_u64_inj) (simp add: put_bool_def)

lemma of_nat_u32_inj: "m < 2 ^ 32 \<Longrightarrow> n < 2 ^ 32 \<Longrightarrow> (of_nat m :: u32) = of_nat n \<longleftrightarrow> m = n"
  by (simp add: word_of_nat_eq_iff take_bit_nat_eq_self)

lemma narrow_inj: "narrow s = narrow t \<longleftrightarrow> s = t"
proof -
  have "inj (of_char :: char \<Rightarrow> u8)"
  proof (rule injI)
    fix c d :: char assume e: "(of_char c :: u8) = of_char d"
    have "(of_nat (of_char c) :: u8) = of_nat (of_char d)" unfolding of_nat_of_char by (rule e)
    moreover have "(of_char x :: nat) < 2 ^ 8" for x by simp
    ultimately have "(of_char c :: nat) = of_char d"
      by (simp add: word_of_nat_eq_iff take_bit_nat_eq_self)
    then show "c = d" by simp
  qed
  then show ?thesis by (simp add: narrow_def inj_map_eq_map)
qed

lemma peel_sized:
  assumes "length a < 2 ^ 32" and "length b < 2 ^ 32"
  shows "put_sized a @ x = put_sized b @ y \<longleftrightarrow> a = b \<and> x = y"
  using assms by (auto simp: put_sized_def peel of_nat_u32_inj append_eq_append_conv)

lemma length_narrow: "length (narrow s) = length s"
  by (simp add: narrow_def)

definition fits :: "string \<Rightarrow> bool" where
  "fits s \<longleftrightarrow> length s < 2 ^ 32"

lemma peel_str: "fits s \<Longrightarrow> fits t \<Longrightarrow> put_str s @ x = put_str t @ y \<longleftrightarrow> s = t \<and> x = y"
  by (simp add: put_str_def peel_sized narrow_inj fits_def length_narrow)

lemma peel_strings:
  "length ss = length ts \<Longrightarrow> list_all fits ss \<Longrightarrow> list_all fits ts \<Longrightarrow>
    concat (map put_str ss) @ x = concat (map put_str ts) @ y \<longleftrightarrow> ss = ts \<and> x = y"
  by (induction ss ts rule: list_induct2) (simp_all add: peel_str)

lemma peel_words:
  "length vs = length ws \<Longrightarrow> concat (map put_u32 vs) @ x = concat (map put_u32 ws) @ y \<longleftrightarrow> vs = ws \<and> x = y"
  by (induction vs ws rule: list_induct2) (simp_all add: peel)

lemma printable_inj:
  fixes c d :: wchar
  assumes "c \<le> 0x7e" and "d \<le> 0x7e" and "(ucast (c AND 0x7f) :: u8) = ucast (d AND 0x7f)"
  shows "c = d"
proof -
  have m: "(0x7f :: wchar) = mask 7" by (simp add: mask_eq_exp_minus_1)
  have low: "x AND mask 7 = x" if "x \<le> 0x7e" for x :: wchar
    using that by (simp add: take_bit_eq_mask [symmetric] word_unat_eq_iff unsigned_take_bit_eq take_bit_nat_eq_self word_le_nat_alt)
  have "unat (ucast c :: u8) = unat (ucast d :: u8)" using assms by (simp add: m low)
  moreover have "unat (ucast x :: u8) = unat x" if "x \<le> 0x7e" for x :: wchar
    using that by (simp add: unsigned_ucast_eq take_bit_nat_eq_self word_le_nat_alt)
  ultimately show ?thesis using assms(1,2) by (simp add: word_unat_eq_iff)
qed

lemma account_inj:
  assumes a: "put_wstr_ascii a = Some x" and b: "put_wstr_ascii b = Some x"
  shows "a = b"
proof -
  have "length a = length b \<and> map (\<lambda>c. ucast (c AND 0x7f) :: u8) a = map (\<lambda>c. ucast (c AND 0x7f)) b"
    using a b by (auto simp: put_wstr_ascii_def peel of_nat_u32_inj split: if_splits)
  moreover have "list_all (\<lambda>c. c \<le> 0x7e) a" "list_all (\<lambda>c. c \<le> 0x7e) b"
    using a b by (auto simp: put_wstr_ascii_def list_ex_iff list_all_iff not_less split: if_splits)
  ultimately show ?thesis
    by (auto simp: list_eq_iff_nth_eq list_all_length intro: printable_inj)
qed

lemma strings_fit: "structure_complete t \<Longrightarrow> list_all fits (target_strings t)"
  by (auto simp: structure_complete_def target_strings_def fits_def safe_id_def hex_digest_def
      is_admission_only_def)

lemma limits_seven: "structure_complete t \<Longrightarrow> length (grant_limits t) = 7"
  by (auto simp: structure_complete_def is_admission_only_def crypto_limits_def)

lemma bytes_determine_target:
  assumes t: "valid_pre_approval t" and u: "valid_pre_approval u"
    and b: "target_binding_bytes t sid = Some b" and c: "target_binding_bytes u sid' = Some b"
  shows "t\<lparr>user_approved := x\<rparr> = u\<lparr>user_approved := x\<rparr> \<and> sid = sid'"
proof -
  obtain a where a: "put_wstr_ascii sid = Some a" using b by (auto simp: target_binding_bytes_def)
  obtain a' where a': "put_wstr_ascii sid' = Some a'" using c by (auto simp: target_binding_bytes_def)
  have s: "structure_complete t" "structure_complete u"
    using t u by (simp_all add: valid_pre_approval_def)
  have same: "target_binding_bytes t sid = target_binding_bytes u sid'" using b c by simp
  have n: "length (target_strings t) = length (target_strings u)" by (simp add: target_strings_def)
  have l: "length (grant_limits t) = length (grant_limits u)" using s by (simp add: limits_seven)
  have "target_strings t = target_strings u \<and> non_elevated t = non_elevated u \<and>
      reviewer_approved t = reviewer_approved u \<and> verifier_approved t = verifier_approved u \<and>
      evidence_output_approved t = evidence_output_approved u \<and>
      working_set_bytes t = working_set_bytes u \<and> commit_bytes t = commit_bytes u \<and>
      grant_handles t = grant_handles u \<and> window_start_ms t = window_start_ms u \<and>
      window_end_ms t = window_end_ms u \<and> max_execution_ms t = max_execution_ms u \<and>
      grant_limits t = grant_limits u \<and> a = a'"
    using same unfolding target_binding_bytes_def a a'
    by (simp add: peel peel_words [OF l] peel_strings [OF n strings_fit [OF s(1)] strings_fit [OF s(2)]])
  moreover from this have "sid = sid'" using account_inj a a' by simp
  ultimately show ?thesis
    by (cases t; cases u) (simp add: target_strings_def)
qed

section \<open>The two stages\<close>

text \<open>A target may be shown to the user exactly when it is valid but for the user's approval.\<close>

lemma prompt_is_pre_approval: "valid_for_prompt (evaluate_pre_approval_target t) = valid_pre_approval t"
  by (auto simp: valid_for_prompt_def evaluate_pre_approval_target_def valid_pre_approval_def structure_complete_def)

lemma hex_digit_chars: "list_all (\<lambda>k. (CHR ''0'' \<le> hex_digits ! k \<and> hex_digits ! k \<le> CHR ''9'') \<or>
    (CHR ''a'' \<le> hex_digits ! k \<and> hex_digits ! k \<le> CHR ''f'')) [0..<16]"
  by code_simp

lemma encoded_is_hex: "hex_digest (encode_hex_bytes bs) (length bs * 2)"
proof -
  have d: "(CHR ''0'' \<le> hex_digits ! unat n \<and> hex_digits ! unat n \<le> CHR ''9'') \<or>
      (CHR ''a'' \<le> hex_digits ! unat n \<and> hex_digits ! unat n \<le> CHR ''f'')" if "(n :: u8) \<le> 15" for n
  proof -
    have "unat n < 16" using that by (simp add: word_le_nat_alt)
    then show ?thesis using hex_digit_chars by (simp add: list_all_iff)
  qed
  have "list_all (\<lambda>c. (CHR ''0'' \<le> c \<and> c \<le> CHR ''9'') \<or> (CHR ''a'' \<le> c \<and> c \<le> CHR ''f'')) (encode_hex_bytes bs)"
    by (induction bs) (use d two_nibbles in \<open>simp_all add: encode_hex_bytes_def\<close>)
  then show ?thesis by (simp add: hex_digest_def length_encode_hex)
qed

lemma finalized_is_hex: "hex_digest (finalize_hex b) 64"
  using encoded_is_hex [of "sha256_digest b"] by (simp add: finalize_hex_def)

text \<open>The first stage answers exactly for a target that may be shown and a printable account.\<close>

lemma binding_computed_iff:
  "fst (compute_target_binding_sha256 t sid) \<longleftrightarrow> valid_pre_approval t \<and> put_wstr_ascii sid \<noteq> None"
  by (auto simp: compute_target_binding_sha256_def target_binding_bytes_def finalized_is_hex put_wstr_ascii_def
      split: option.split)

lemma approval_ignored: "valid_pre_approval (t\<lparr>user_approved := b\<rparr>) = valid_pre_approval t"
  by (cases t) (simp only: valid_pre_approval_def structure_complete_def is_admission_only_def
      grant_target.select_convs grant_target.update_convs)

lemma approval_not_hashed:
  "compute_target_binding_sha256 (t\<lparr>user_approved := b\<rparr>) sid = compute_target_binding_sha256 t sid"
  by (simp add: compute_target_binding_sha256_def target_binding_bytes_def target_strings_def approval_ignored)

text \<open>
  Claim C36.  The bytes that the first stage hashes determine everything the user is asked to
  approve: two targets fit to be shown, with accounts, that have the same canonical bytes
  agree in every field but the approval itself, and in the account.
\<close>

theorem binding_determines_grant:
  assumes "valid_pre_approval t" and "valid_pre_approval u"
    and "target_binding_bytes t sid = Some b" and "target_binding_bytes u sid' = Some b"
  shows "t\<lparr>user_approved := x\<rparr> = u\<lparr>user_approved := x\<rparr> \<and> sid = sid'"
  using assms by (rule bytes_determine_target)

lemma sample_valid: "valid_pre_approval sample_grant"
  by code_simp

lemma binding_determines_grant_witness:
  "\<exists>b. target_binding_bytes sample_grant [0x53, 0x2d] = Some b \<and>
    sample_grant\<lparr>user_approved := False\<rparr> = (sample_grant\<lparr>user_approved := False\<rparr>)\<lparr>user_approved := False\<rparr>"
proof -
  define u where "u = sample_grant\<lparr>user_approved := False\<rparr>"
  have v: "valid_pre_approval u"
    using sample_valid by (simp add: u_def approval_ignored)
  have some: "put_wstr_ascii [0x53, 0x2d] \<noteq> None" by (simp add: put_wstr_ascii_def)
  then obtain b where b: "target_binding_bytes sample_grant [0x53, 0x2d] = Some b"
    by (auto simp: target_binding_bytes_def)
  have c: "target_binding_bytes u [0x53, 0x2d] = Some b"
    using b by (simp add: u_def target_binding_bytes_def target_strings_def)
  show ?thesis
    using binding_determines_grant [OF sample_valid v b c, of False] b by (simp add: u_def)
qed

end
