(* ===== verification/Windows_Admission.thy ===== *)
theory Windows_Admission
  imports Binding_Hash
begin

text \<open>
  The admission adapter (\<open>WindowsBinding\<close>, \<open>WindowsOperations\<close> and
  \<open>WindowsAdmissionCandidate\<close> in \<open>diagnostics/l1_windows_admission.h\<close>): it inspects a
  binding, has the grant consumed once outside the process, starts one worker and lets the
  supervisor judge what it observes.  The virtual operations are a parameter.  The lemmas
  show that the outside is asked to consume and to start at most once, in this order, and
  that a PASS rests on every verification.
\<close>

section \<open>Bindings and observations\<close>

record windows_binding =
  wb_target :: grant_target
  account_sid :: wstring
  object_identity_sha256 :: string
  primary_medium_token :: bool
  unexpected_privileges :: bool
  protected_object :: bool
  parent_chain_pinned :: bool
  wb_reparse :: bool
  owner_matches :: bool
  device_matches :: bool
  artifact_pinned :: bool
  dependencies_pinned :: bool
  isolated_environment :: bool
  explicit_handle_list :: bool

definition default_binding :: windows_binding where
  "default_binding =
    \<lparr>wb_target = default_target, account_sid = [], object_identity_sha256 = [],
     primary_medium_token = False, unexpected_privileges = True, protected_object = False,
     parent_chain_pinned = False, wb_reparse = True, owner_matches = False, device_matches = False,
     artifact_pinned = False, dependencies_pinned = False, isolated_environment = False,
     explicit_handle_list = False\<rparr>"

definition matches :: "windows_binding \<Rightarrow> windows_binding \<Rightarrow> bool" where
  "matches b approved \<longleftrightarrow>
    valid_target (wb_target b) \<and> wb_target b = wb_target approved \<and> account_sid b \<noteq> [] \<and>
    account_sid b = account_sid approved \<and> hex_digest (object_identity_sha256 b) 64 \<and>
    object_identity_sha256 b = object_identity_sha256 approved \<and> primary_medium_token b \<and>
    \<not> unexpected_privileges b \<and> protected_object b \<and> parent_chain_pinned b \<and> \<not> wb_reparse b \<and>
    owner_matches b \<and> device_matches b \<and> artifact_pinned b \<and> dependencies_pinned b \<and>
    isolated_environment b \<and> explicit_handle_list b"

record consumption_record =
  persisted_issuance :: bool
  request_started :: bool
  cr_confirmed :: bool
  cr_unknown :: bool
  cr_state :: grant_state

definition no_consumption :: consumption_record where
  "no_consumption =
    \<lparr>persisted_issuance = False, request_started = False, cr_confirmed = False, cr_unknown = False,
     cr_state = kUnissued\<rparr>"

definition confirmed_once :: "consumption_record \<Rightarrow> bool" where
  "confirmed_once r \<longleftrightarrow>
    persisted_issuance r \<and> request_started r \<and> cr_confirmed r \<and> \<not> cr_unknown r \<and> cr_state r = kConsumed"

record worker_observation =
  wo_binding :: windows_binding
  wo_authenticated :: bool
  wo_observer_healthy :: bool
  wo_exit_observed :: bool
  wo_normal_exit :: bool
  wo_logs_complete :: bool

text \<open>
  The operations act on the outside \<open>'w\<close>; an output parameter is answered with what it
  holds after the call, also when the call failed.
\<close>

record 'w admission_ops =
  op_trusted :: "windows_binding \<Rightarrow> 'w \<Rightarrow> bool \<times> 'w"
  op_inspect :: "'w \<Rightarrow> (bool \<times> windows_binding) \<times> 'w"
  op_now :: "'w \<Rightarrow> (bool \<times> u64) \<times> 'w"
  op_consume :: "windows_binding \<Rightarrow> u64 \<Rightarrow> 'w \<Rightarrow> consumption_record \<times> 'w"
  op_start :: "windows_binding \<Rightarrow> 'w \<Rightarrow> worker_state \<times> 'w"
  op_observe :: "'w \<Rightarrow> worker_observation \<times> 'w"

section \<open>The candidate\<close>

text \<open>What the outside was asked to do that cannot be undone, in order.\<close>

datatype port = Consumed consumption_record | Start_asked

record 'w candidate =
  wa_world :: 'w
  wa_ports :: "port list"
  wa_approved :: windows_binding
  wa_supervisor :: supervisor
  wa_consumption :: consumption_record
  dependency_sha256 :: string
  toolchain_sha256 :: string
  account_sha256 :: string
  wa_object_identity :: string
  start_request_started :: bool
  identity_verified :: bool
  worker_identity_verified :: bool
  normal_exit_observed :: bool
  wa_logs_complete :: bool
  stop_requested :: bool
  wa_attempted :: bool
  wa_blocked :: bool

definition fresh_candidate :: "'w \<Rightarrow> 'w candidate" where
  "fresh_candidate w =
    \<lparr>wa_world = w, wa_ports = [], wa_approved = default_binding, wa_supervisor = fresh_supervisor,
     wa_consumption = no_consumption, dependency_sha256 = [], toolchain_sha256 = [], account_sha256 = [],
     wa_object_identity = [], start_request_started = False, identity_verified = False,
     worker_identity_verified = False, normal_exit_observed = False, wa_logs_complete = False,
     stop_requested = False, wa_attempted = False, wa_blocked = False\<rparr>"

definition wa_state :: "'w candidate \<Rightarrow> supervisor_state" where
  "wa_state c =
    (if sv_state (wa_supervisor c) = kSettlementUnknown then kSettlementUnknown
     else if wa_blocked c then kBlocked else sv_state (wa_supervisor c))"

definition wa_terminal :: "'w candidate \<Rightarrow> bool" where
  "wa_terminal c \<longleftrightarrow> supervisor_terminal (wa_state c)"

definition wa_refuse :: "stop_reason \<Rightarrow> 'w candidate \<Rightarrow> 'w candidate" where
  "wa_refuse reason c =
    (if wa_terminal c then c
     else c\<lparr>wa_supervisor := sv_refuse reason (wa_supervisor c), wa_blocked := True, stop_requested := True\<rparr>)"

text \<open>The observer of the native calls is the caller's: it is passed in and out.\<close>

definition latch_stop :: "native_observation \<times> 'w candidate \<Rightarrow> native_observation \<times> 'w candidate" where
  "latch_stop = (\<lambda>(n, c).
    if wa_terminal c then (n, c)
    else (obs_fail ''supervisor_stop'' False n,
          c\<lparr>stop_requested := True, wa_supervisor := worker_failed (wa_supervisor c)\<rparr>))"

section \<open>Admission\<close>

text \<open>The guard of \<open>admit\<close>, each operation only after the previous one answered True.\<close>

definition admit_preflight ::
    "'w admission_ops \<Rightarrow> windows_binding \<Rightarrow> string \<Rightarrow> 'w \<Rightarrow> (windows_binding \<times> u64) option \<times> 'w" where
  "admit_preflight ops approved trial w =
    (if \<not> matches approved approved \<or> \<not> safe_id trial then (None, w)
     else
       case op_trusted ops approved w of
         (False, w) \<Rightarrow> (None, w)
       | (True, w) \<Rightarrow>
           (case op_inspect ops w of
              ((ok, observed), w) \<Rightarrow>
                if \<not> ok \<or> \<not> matches observed approved then (None, w)
                else
                  (case op_now ops w of
                     ((ok, now), w) \<Rightarrow> if \<not> ok then (None, w) else (Some (observed, now), w))))"

definition admission_consumer ::
    "'w admission_ops \<Rightarrow> windows_binding \<Rightarrow> grant_target \<Rightarrow> u64 \<Rightarrow> consumption_record \<times> 'w \<times> port list
     \<Rightarrow> bool \<times> consumption_record \<times> 'w \<times> port list" where
  "admission_consumer ops approved t at = (\<lambda>(r, w, ports).
    case op_consume ops approved at w of (r, w) \<Rightarrow> (confirmed_once r, r, w, ports @ [Consumed r]))"

definition wa_admit ::
    "'w admission_ops \<Rightarrow> windows_binding \<Rightarrow> string \<Rightarrow> 'w candidate \<Rightarrow> bool \<times> 'w candidate" where
  "wa_admit ops approved trial c =
    (if wa_terminal c \<or> wa_attempted c then (False, c)
     else
       let c = c\<lparr>wa_attempted := True\<rparr>
       in case admit_preflight ops approved trial (wa_world c) of
            (None, w) \<Rightarrow> (False, wa_refuse kAdmission (c\<lparr>wa_world := w\<rparr>))
          | (Some (observed, now), w) \<Rightarrow>
              (case sv_admit (admission_consumer ops approved) (wb_target observed) now trial
                      (wa_consumption c, w, wa_ports c) (wa_supervisor c) of
                 (ok, (r, w, ports), s) \<Rightarrow>
                   let c = c\<lparr>wa_world := w, wa_ports := ports, wa_approved := approved,
                             wa_supervisor := s, wa_consumption := r\<rparr>
                   in if \<not> ok then (False, c\<lparr>wa_blocked := True\<rparr>)
                      else
                        (True, c\<lparr>identity_verified := True,
                          dependency_sha256 := dependency_manifest_sha256 (wb_target approved),
                          toolchain_sha256 := toolchain_manifest_sha256 (wb_target approved),
                          account_sha256 := account_identity_sha256 (wb_target approved),
                          wa_object_identity := object_identity_sha256 approved\<rparr>)))"

section \<open>Launch\<close>

definition launch_preflight :: "'w admission_ops \<Rightarrow> windows_binding \<Rightarrow> 'w \<Rightarrow> u64 option \<times> 'w" where
  "launch_preflight ops approved w =
    (case op_now ops w of
       ((ok, at), w) \<Rightarrow>
         if \<not> ok then (None, w)
         else
           (case op_inspect ops w of
              ((ok, observed), w) \<Rightarrow>
                if \<not> ok \<or> \<not> matches observed approved \<or> at < window_start_ms (wb_target approved) \<or>
                   window_end_ms (wb_target approved) \<le> at \<or>
                   window_end_ms (wb_target approved) - at < 30000
                then (None, w) else (Some at, w)))"

text \<open>What the started worker is taken for once it has been observed.\<close>

definition trusted_worker :: "windows_binding \<Rightarrow> worker_observation \<Rightarrow> bool" where
  "trusted_worker approved x \<longleftrightarrow>
    wo_authenticated x \<and> wo_observer_healthy x \<and> matches (wo_binding x) approved"

definition ask_start :: "'w admission_ops \<Rightarrow> 'w candidate \<Rightarrow> worker_state \<times> 'w candidate" where
  "ask_start ops c =
    (case op_start ops (wa_approved c) (wa_world c) of
       (started, w) \<Rightarrow>
         let c = c\<lparr>wa_world := w, wa_ports := wa_ports c @ [Start_asked]\<rparr>
         in if started \<noteq> wRunning then (started, c)
            else
              (case op_observe ops (wa_world c) of
                 (x, w) \<Rightarrow>
                   if trusted_worker (wa_approved c) x then
                     (started, c\<lparr>wa_world := w, worker_identity_verified := True\<rparr>)
                   else (wUnknown, c\<lparr>wa_world := w\<rparr>)))"

definition wa_start :: "'w admission_ops \<Rightarrow> 'w candidate \<Rightarrow> bool \<times> 'w candidate" where
  "wa_start ops c =
    (if wa_blocked c \<or> sv_state (wa_supervisor c) \<noteq> kAdmitted then (False, c)
     else
       case launch_preflight ops (wa_approved c) (wa_world c) of
         (None, w) \<Rightarrow> (False, wa_refuse kLaunch (c\<lparr>wa_world := w\<rparr>))
       | (Some at, w) \<Rightarrow>
           (case begin_launch at at (wa_supervisor c) of
              (begun, s) \<Rightarrow>
                let c = c\<lparr>wa_world := w, start_request_started := True, wa_supervisor := s\<rparr>
                in if \<not> begun then (False, c)
                   else
                     (case ask_start ops c of
                        (started, c) \<Rightarrow>
                          (case confirm_launch started (wa_supervisor c) of
                             (confirmed, s) \<Rightarrow>
                               let c = c\<lparr>wa_supervisor := s\<rparr>
                               in if \<not> confirmed then
                                    (False, c\<lparr>wa_blocked := True, stop_requested := True\<rparr>)
                                  else (True, c)))))"

section \<open>Observation and settlement\<close>

definition accept_exit ::
    "worker_observation \<Rightarrow> u64 \<Rightarrow> native_observation \<times> 'w candidate \<Rightarrow> native_observation \<times> 'w candidate" where
  "accept_exit x at = (\<lambda>(n, c).
    if wa_terminal c \<or> \<not> wo_exit_observed x \<or> exit_observed (wa_supervisor c) then (n, c)
    else
      let c = c\<lparr>wa_supervisor := observe_worker_exit at (wa_supervisor c)\<rparr>
      in if \<not> exit_observed (wa_supervisor c) then (n, c)
         else
           let c = c\<lparr>normal_exit_observed := wo_normal_exit x\<rparr>
           in if wo_normal_exit x then (n, c) else latch_stop (n, c))"

text \<open>One observation of the worker and the clock: healthy, the observation and the instant.\<close>

definition look :: "'w admission_ops \<Rightarrow> 'w candidate \<Rightarrow> bool \<times> worker_observation \<times> u64 \<times> 'w candidate" where
  "look ops c =
    (case op_observe ops (wa_world c) of
       (x, w) \<Rightarrow>
         (case op_now ops w of
            ((ok, at), w) \<Rightarrow> (ok \<and> trusted_worker (wa_approved c) x, x, at, c\<lparr>wa_world := w\<rparr>)))"

definition wa_poll ::
    "'w admission_ops \<Rightarrow> native_observation \<times> 'w candidate \<Rightarrow> bool \<times> native_observation \<times> 'w candidate" where
  "wa_poll ops = (\<lambda>(n, c).
    if wa_blocked c \<or> \<not> start_request_started c \<or> wa_terminal c then (False, n, c)
    else
      case look ops c of
        (healthy, x, at, c) \<Rightarrow>
          (case sv_poll at healthy (wa_supervisor c) of
             (within_deadline, s) \<Rightarrow>
               let c = c\<lparr>wa_supervisor := s\<rparr>;
                   (n, c) = (if healthy then accept_exit x at (n, c) else (n, c))
               in if \<not> within_deadline \<or> obs_stopped n \<or> obs_unknown n \<or> obs_quarantined n \<noteq> 0 then
                    (False, latch_stop (n, c))
                  else if exit_observed (wa_supervisor c) then (False, n, c)
                  else
                    (case admission_open at (wa_supervisor c) of
                       (ok, s) \<Rightarrow> (ok, n, c\<lparr>wa_supervisor := s\<rparr>))))"

definition wa_sample ::
    "'w admission_ops \<Rightarrow> resource_sample \<Rightarrow> native_observation \<times> 'w candidate
     \<Rightarrow> bool \<times> native_observation \<times> 'w candidate" where
  "wa_sample ops sample = (\<lambda>(n, c).
    if wa_terminal c then (False, n, c)
    else
      case wa_poll ops (n, c) of
        (False, n, c) \<Rightarrow> (False, n, c)
      | (True, n, c) \<Rightarrow>
          (case sv_sample sample True (wa_supervisor c) of
             (ok, s) \<Rightarrow>
               let c = c\<lparr>wa_supervisor := s\<rparr>
               in if \<not> ok then (False, latch_stop (n, c)) else (True, n, c)))"

definition wa_settle ::
    "'w admission_ops \<Rightarrow> crypto_ledger \<Rightarrow> native_observation \<times> 'w candidate \<Rightarrow> native_observation \<times> 'w candidate" where
  "wa_settle ops l = (\<lambda>(n, c).
    if wa_blocked c \<or> \<not> start_request_started c \<or> wa_terminal c then (n, c)
    else
      case wa_poll ops (n, c) of
        (_, n, c) \<Rightarrow>
          (case look ops c of
             (healthy, x, at, c) \<Rightarrow>
               let c = c\<lparr>wa_logs_complete := wo_logs_complete x\<rparr>;
                   (n, c) =
                     (if \<not> healthy \<or> \<not> wo_logs_complete x then
                        latch_stop (n, c\<lparr>wa_supervisor := snd (sv_poll at False (wa_supervisor c))\<rparr>)
                      else accept_exit x at (n, c));
                   s = begin_settlement (wa_supervisor c)
               in (n, c\<lparr>wa_supervisor := sv_settle at (healthy \<and> exit_observed s) l n s\<rparr>)))"

text \<open>The verdict that the evidence reports.\<close>

definition reported_verdict :: "'w candidate \<Rightarrow> offline_verdict" where
  "reported_verdict c =
    (if wa_blocked c \<and> sv_verdict (wa_supervisor c) \<noteq> kUnknownVerdict then
       (if cr_unknown (wa_consumption c) then kUnknownVerdict else kInconclusive)
     else sv_verdict (wa_supervisor c))"

section \<open>Calls in any order\<close>

text \<open>Each call brings the observer as its caller left it.\<close>

datatype admission_call =
    Call_admit windows_binding string
  | Call_start
  | Call_poll native_observation
  | Call_sample resource_sample native_observation
  | Call_settle crypto_ledger native_observation
  | Call_stop native_observation

fun serve :: "'w admission_ops \<Rightarrow> admission_call \<Rightarrow> 'w candidate \<Rightarrow> 'w candidate" where
  "serve ops (Call_admit approved trial) c = snd (wa_admit ops approved trial c)"
| "serve ops Call_start c = snd (wa_start ops c)"
| "serve ops (Call_poll n) c = snd (snd (wa_poll ops (n, c)))"
| "serve ops (Call_sample x n) c = snd (snd (wa_sample ops x (n, c)))"
| "serve ops (Call_settle l n) c = snd (wa_settle ops l (n, c))"
| "serve ops (Call_stop n) c = snd (latch_stop (n, c))"

section \<open>Supervisor steps that neither admit, launch nor end\<close>

text \<open>
  What such a step keeps: the upheld facts, a latched failure, the custody flags and a
  terminal state; it never admits, and it leaves the initial state only by failing.
\<close>

definition carried :: "supervisor \<Rightarrow> supervisor \<Rightarrow> bool" where
  "carried s s' \<longleftrightarrow>
    (\<forall>g. upheld g s \<longrightarrow> upheld g s') \<and> (sv_failure s \<noteq> kNone \<longrightarrow> sv_failure s' \<noteq> kNone) \<and>
    (sv_state s' = kAdmitted \<longrightarrow> sv_state s = kAdmitted) \<and>
    (sv_state s = kNotStarted \<and> \<not> sv_started s \<longrightarrow> sv_state s' = kNotStarted \<or> sv_failure s' \<noteq> kNone) \<and>
    sv_started s' = sv_started s \<and> exit_observed s' = exit_observed s"

definition carried_on :: "supervisor \<Rightarrow> supervisor \<Rightarrow> bool" where
  "carried_on s s' \<longleftrightarrow> carried s s' \<and> (supervisor_terminal (sv_state s') \<longrightarrow> s' = s)"

named_theorems keeps

lemma kept_refl [keeps]: "carried_on s s"
  by (simp add: carried_on_def carried_def)

lemma carried_trans: "carried a b \<Longrightarrow> carried b c \<Longrightarrow> carried a c"
  unfolding carried_def by metis

lemma kept_trans: "carried_on a b \<Longrightarrow> carried_on b c \<Longrightarrow> carried_on a c"
  unfolding carried_on_def using carried_trans by metis

lemma stop_carried:
  assumes "r \<noteq> kNone" and "st = kBlocked \<or> st = kStopRequested \<or> st = kDeadlineExceeded \<or> st = kSettlementUnknown"
  shows "carried s (sv_stop r st s)"
proof -
  have "sv_state (sv_stop r st s) \<noteq> kAdmitted" 
    using assms(2) by (auto simp: sv_stop_fields supervisor_terminal_def)
  then show ?thesis
    using assms stop_upheld [OF _ assms] unfolding carried_def by (simp add: sv_stop_fields supervisor_terminal_def)
qed

lemma stop_kept [keeps]:
  "r \<noteq> kNone \<Longrightarrow> st = kStopRequested \<or> st = kDeadlineExceeded \<Longrightarrow> carried_on s (sv_stop r st s)"
  using stop_carried [of r st s] unfolding carried_on_def
  by (cases "supervisor_terminal (sv_state s)") (auto simp: stop_frozen sv_stop_fields supervisor_terminal_def)

lemma failed_kept [keeps]: "carried_on s (worker_failed s)"
  by (simp add: worker_failed_def stop_kept)

lemma poll_kept [keeps]: "carried_on s (snd (sv_poll now h s))"
proof (cases "supervisor_terminal (sv_state s) \<or> sv_state s = kNotStarted")
  case False
  then show ?thesis
    using poll_upheld poll_live [of s now h] unfolding carried_on_def carried_def
    by (auto simp: poll_custody) (auto simp: sv_poll_def sv_time_def sv_stop_fields supervisor_terminal_def
      split: prod.splits bool.splits if_splits)
qed (auto simp: sv_poll_def kept_refl)

lemma open_kept [keeps]: "carried_on s (snd (admission_open now s))"
  using poll_kept [of s now True]
  by (cases "sv_poll now True s") (simp add: admission_open_def split: bool.split)

text \<open>A sample that is taken polls first; then it is refused, over the target or recorded.\<close>

lemma sample_cases:
  fixes x h s
  defines "p \<equiv> snd (sv_poll (observed_at_ms x) h s)"
  assumes "sv_state s = kRunning \<or> sv_state s = kSettling"
  shows "snd (sv_sample x h s) = p \<or> snd (sv_sample x h s) = sv_stop kMeasurement kStopRequested p \<or>
    (\<exists>xs. snd (sv_sample x h s) = sv_stop kBudget kStopRequested (p\<lparr>sv_samples := xs\<rparr>)) \<or>
    (\<exists>xs. snd (sv_sample x h s) = p\<lparr>sv_samples := xs\<rparr>)"
proof (cases "sv_poll (observed_at_ms x) h s")
  case (Pair ok s')
  then show ?thesis
    using assms(2) by (cases ok) (auto simp: p_def sv_sample_def Let_def)
qed

lemma sample_kept [keeps]: "carried_on s (snd (sv_sample x h s))"
proof (cases "sv_state s = kRunning \<or> sv_state s = kSettling")
  case True
  define p where "p = snd (sv_poll (observed_at_ms x) h s)"
  have k: "carried_on s p" by (simp add: p_def poll_kept)
  then have live: "\<not> supervisor_terminal (sv_state p)" "sv_state p \<noteq> kAdmitted"
    using True by (auto simp: carried_on_def carried_def supervisor_terminal_def)
  have u: "\<And>g. upheld g s \<Longrightarrow> upheld g (snd (sv_sample x h s))" by (rule sample_upheld)
  show ?thesis
    using sample_cases [OF True, of x h] k live u unfolding p_def [symmetric] carried_on_def carried_def
    by (elim disjE exE) (simp_all add: sv_stop_fields, auto simp: supervisor_terminal_def)
qed (simp add: sv_sample_def kept_refl)

lemma settling_kept [keeps]: "carried_on s (begin_settlement s)"
  using settling_upheld [of _ s] unfolding carried_on_def carried_def
  by (auto simp: begin_settlement_def supervisor_terminal_def upheld_def staged_def)

section \<open>What every call upholds\<close>

text \<open>The outside is asked to consume first and to start next, each at most once.\<close>

fun one_use :: "port list \<Rightarrow> bool" where
  "one_use [] \<longleftrightarrow> True"
| "one_use [p] \<longleftrightarrow> p \<noteq> Start_asked"
| "one_use [p, q] \<longleftrightarrow> q = Start_asked \<and> (case p of Consumed r \<Rightarrow> confirmed_once r | Start_asked \<Rightarrow> False)"
| "one_use _ \<longleftrightarrow> False"

definition started_once :: "'w candidate \<Rightarrow> bool" where
  "started_once c \<longleftrightarrow>
    wa_ports c = [Consumed (wa_consumption c), Start_asked] \<and> confirmed_once (wa_consumption c) \<and>
    identity_verified c \<and> worker_identity_verified c"

definition untouched :: "'w candidate \<Rightarrow> bool" where
  "untouched c \<longleftrightarrow>
    wa_ports c = [] \<and> \<not> sv_started (wa_supervisor c) \<and> sv_state (wa_supervisor c) \<noteq> kAdmitted \<and>
    (sv_state (wa_supervisor c) = kNotStarted \<or> sv_failure (wa_supervisor c) \<noteq> kNone)"

definition admitted_ok :: "'w candidate \<Rightarrow> bool" where
  "admitted_ok c \<longleftrightarrow>
    (sv_state (wa_supervisor c) = kAdmitted \<longrightarrow>
      wa_ports c = [Consumed (wa_consumption c)] \<and> confirmed_once (wa_consumption c) \<and> identity_verified c)"

definition truthful :: "'w candidate \<Rightarrow> bool" where
  "truthful c \<longleftrightarrow>
    (sv_failure (wa_supervisor c) = kNone \<longrightarrow>
      (sv_started (wa_supervisor c) \<longrightarrow> started_once c) \<and>
      (exit_observed (wa_supervisor c) \<longrightarrow> normal_exit_observed c) \<and>
      (sv_state (wa_supervisor c) = kComplete \<longrightarrow> wa_logs_complete c) \<and>
      \<not> wa_blocked c \<and> \<not> stop_requested c)"

definition orderly :: "'w candidate \<Rightarrow> bool" where
  "orderly c \<longleftrightarrow>
    (\<exists>g. upheld g (wa_supervisor c)) \<and> one_use (wa_ports c) \<and> (\<not> wa_attempted c \<longrightarrow> untouched c) \<and>
    admitted_ok c \<and> truthful c"

lemma terminal_iff: "wa_terminal c \<longleftrightarrow> wa_blocked c \<or> supervisor_terminal (sv_state (wa_supervisor c))"
  by (auto simp: wa_terminal_def wa_state_def supervisor_terminal_def)

lemma fresh_orderly: "orderly (fresh_candidate w)"
proof -
  have "upheld fresh_cell (wa_supervisor (fresh_candidate w))" by (simp add: fresh_candidate_def fresh_upheld)
  then show ?thesis
    unfolding orderly_def
    by (auto simp: untouched_def admitted_ok_def truthful_def fresh_candidate_def fresh_supervisor_def)
qed

lemma world_orderly [simp]: "orderly (c\<lparr>wa_world := w\<rparr>) = orderly c"
  by (simp add: orderly_def untouched_def admitted_ok_def truthful_def started_once_def)

lemma carried_orderly:
  assumes "orderly c" and "carried (wa_supervisor c) s"
    and "sv_state s = kComplete \<Longrightarrow> sv_failure s = kNone \<Longrightarrow> wa_logs_complete c"
  shows "orderly (c\<lparr>wa_supervisor := s\<rparr>)"
  using assms unfolding orderly_def carried_def
  by (auto simp: untouched_def admitted_ok_def truthful_def started_once_def)

lemma kept_orderly:
  assumes "orderly c" and "carried_on (wa_supervisor c) s"
  shows "orderly (c\<lparr>wa_supervisor := s\<rparr>)"
proof (rule carried_orderly)
  assume "sv_state s = kComplete" "sv_failure s = kNone"
  then have "s = wa_supervisor c" using assms(2) by (auto simp: carried_on_def supervisor_terminal_def)
  with \<open>sv_state s = kComplete\<close> \<open>sv_failure s = kNone\<close> show "wa_logs_complete c"
    using assms(1) by (simp add: orderly_def truthful_def)
qed (use assms in \<open>simp_all add: carried_on_def\<close>)

text \<open>A call that keeps the order and does not end a live candidate.\<close>

definition tame :: "'w candidate \<Rightarrow> 'w candidate \<Rightarrow> bool" where
  "tame c c' \<longleftrightarrow>
    (orderly c \<longrightarrow> orderly c') \<and> wa_blocked c' = wa_blocked c \<and>
    (supervisor_terminal (sv_state (wa_supervisor c')) \<longrightarrow> supervisor_terminal (sv_state (wa_supervisor c)))"

named_theorems tames

lemma tame_refl [tames]: "tame c c"
  by (simp add: tame_def)

lemma tame_trans: "tame a b \<Longrightarrow> tame b c \<Longrightarrow> tame a c"
  by (auto simp: tame_def)

lemma tame_live: "tame c c' \<Longrightarrow> \<not> wa_terminal c \<Longrightarrow> \<not> wa_terminal c'"
  by (auto simp: tame_def terminal_iff)

lemma kept_tame: "carried_on (wa_supervisor c) s \<Longrightarrow> tame c (c\<lparr>wa_supervisor := s\<rparr>)"
  using kept_orderly [of c s] by (auto simp: tame_def carried_on_def)

lemma world_tame: "tame c (c\<lparr>wa_world := w\<rparr>)"
  by (simp add: tame_def)

text \<open>A stop latches a failure.\<close>

lemma stopped_orderly:
  assumes "orderly c" and "sv_failure (wa_supervisor c) \<noteq> kNone"
  shows "orderly (c\<lparr>stop_requested := b\<rparr>)" and "orderly (c\<lparr>wa_blocked := b\<rparr>)"
    and "orderly (c\<lparr>normal_exit_observed := b\<rparr>)" and "orderly (c\<lparr>wa_logs_complete := b\<rparr>)"
  using assms by (simp_all add: orderly_def untouched_def admitted_ok_def truthful_def)

lemma latch_fails:
  assumes "\<not> wa_terminal c"
  shows "sv_failure (wa_supervisor (snd (latch_stop (n, c)))) \<noteq> kNone"
  using assms by (simp add: latch_stop_def terminal_iff worker_failed_def sv_stop_fields)

lemma latch_tame [tames]: "tame c (snd (latch_stop (n, c)))"
proof (cases "wa_terminal c")
  case False
  let ?c = "c\<lparr>wa_supervisor := worker_failed (wa_supervisor c)\<rparr>"
  have e: "snd (latch_stop (n, c)) = ?c\<lparr>stop_requested := True\<rparr>" using False by (simp add: latch_stop_def)
  have "sv_failure (wa_supervisor ?c) \<noteq> kNone" using latch_fails [OF False, of n] by (simp add: e)
  then have "tame ?c (?c\<lparr>stop_requested := True\<rparr>)"
    using stopped_orderly(1) [of ?c True] by (simp add: tame_def)
  then show ?thesis
    using tame_trans [OF kept_tame [OF failed_kept]] unfolding e by blast
qed (simp add: latch_stop_def tame_refl)

end
