(* ===== verification/Admission_Order.thy ===== *)
theory Admission_Order
  imports Windows_Admission
begin

text \<open>
  The order of an admission: whatever calls a candidate serves, the grant is consumed and the
  worker asked for at most once, in this order, and a reported PASS rests on every
  verification of the admission, the launch and the settlement.
\<close>

section \<open>Every call keeps the order\<close>

lemma accept_tame [tames]: "tame c (snd (accept_exit x at (n, c)))"
proof (cases "wa_terminal c \<or> \<not> wo_exit_observed x \<or> exit_observed (wa_supervisor c)")
  case False
  define s where "s = observe_worker_exit at (wa_supervisor c)"
  define d where "d = c\<lparr>wa_supervisor := s\<rparr>"
  have up: "\<And>g. upheld g (wa_supervisor c) \<Longrightarrow> upheld g s" by (simp add: s_def exit_upheld)
  have live: "\<not> supervisor_terminal (sv_state (wa_supervisor c))" "\<not> wa_blocked c" "\<not> exit_observed (wa_supervisor c)"
    using False by (auto simp: terminal_iff)
  have e: "snd (accept_exit x at (n, c)) = (if \<not> exit_observed s then d
     else if wo_normal_exit x then d\<lparr>normal_exit_observed := True\<rparr>
     else snd (latch_stop (n, d\<lparr>normal_exit_observed := False\<rparr>)))"
    using False by (simp add: accept_exit_def s_def d_def Let_def)
  show ?thesis
  proof (cases "exit_observed s")
    case unseen: False
    have "carried_on (wa_supervisor c) s"
      using live unseen up unfolding s_def carried_on_def carried_def
      by (auto simp: observe_worker_exit_def begin_settlement_def sv_time_def sv_stop_fields
        supervisor_terminal_def split: if_splits)
    then show ?thesis using e unseen kept_tame [of c s] by (simp add: d_def)
  next
    case seen: True
    have s: "sv_state s = kSettling" "sv_started s" "sv_started (wa_supervisor c)"
      "sv_failure s = sv_failure (wa_supervisor c)"
      using seen live unfolding s_def
      by (auto simp: observe_worker_exit_def begin_settlement_def sv_time_def sv_stop_fields
        supervisor_terminal_def split: if_splits)
    have normal: "tame c (d\<lparr>normal_exit_observed := True\<rparr>)"
      using s up live unfolding tame_def
      by (auto simp: d_def orderly_def untouched_def admitted_ok_def truthful_def started_once_def supervisor_terminal_def)
    let ?d = "snd (latch_stop (n, d\<lparr>normal_exit_observed := False\<rparr>))"
    have "\<not> wa_terminal (d\<lparr>normal_exit_observed := False\<rparr>)"
      using s live by (simp add: terminal_iff d_def supervisor_terminal_def)
    then have "?d = (snd (latch_stop (n, d\<lparr>normal_exit_observed := True\<rparr>)))\<lparr>normal_exit_observed := False\<rparr>"
      and f: "sv_failure (wa_supervisor (snd (latch_stop (n, d\<lparr>normal_exit_observed := True\<rparr>)))) \<noteq> kNone"
      by (simp_all add: latch_stop_def terminal_iff worker_failed_def sv_stop_fields)
    then have "tame c ?d"
      using tame_trans [OF normal latch_tame [of _ n]] stopped_orderly(3) [OF _ f, of False]
      by (simp add: tame_def)
    then show ?thesis using e seen normal by simp
  qed
qed (auto simp: accept_exit_def tame_refl)

lemma look_tame: "look ops c = (healthy, x, at, c') \<Longrightarrow> tame c c'"
  by (auto simp: look_def world_tame split: prod.splits)

lemma poll_tame [tames]: "tame c (snd (snd (wa_poll ops (n, c))))"
proof (cases "wa_blocked c \<or> \<not> start_request_started c \<or> wa_terminal c")
  case False
  obtain healthy x at a where l: "look ops c = (healthy, x, at, a)" by (cases "look ops c") auto
  obtain ok s where p: "sv_poll at healthy (wa_supervisor a) = (ok, s)"
    by (cases "sv_poll at healthy (wa_supervisor a)")
  obtain m d where e: "(if healthy then accept_exit x at (n, a\<lparr>wa_supervisor := s\<rparr>) else (n, a\<lparr>wa_supervisor := s\<rparr>)) = (m, d)"
    by fastforce
  have "carried_on (wa_supervisor a) s" using poll_kept [of "wa_supervisor a" at healthy] p by simp
  then have a: "tame c (a\<lparr>wa_supervisor := s\<rparr>)" using tame_trans [OF look_tame [OF l] kept_tame] by blast
  have "tame c (snd (accept_exit x at (n, a\<lparr>wa_supervisor := s\<rparr>)))"
    using tame_trans [OF a accept_tame] by blast
  then have d: "tame c d"
    using a arg_cong [OF e, of snd] by (cases healthy) simp_all
  have "snd (snd (wa_poll ops (n, c))) =
    (if \<not> ok \<or> obs_stopped m \<or> obs_unknown m \<or> obs_quarantined m \<noteq> 0 then snd (latch_stop (m, d))
     else if exit_observed (wa_supervisor d) then d
     else d\<lparr>wa_supervisor := snd (admission_open at (wa_supervisor d))\<rparr>)"
    using False l p e by (simp add: wa_poll_def Let_def split: prod.split)
  then show ?thesis
    using tame_trans [OF d] d latch_tame [of d m] kept_tame [OF open_kept [of "wa_supervisor d" at]] by simp
qed (auto simp: wa_poll_def tame_refl)

lemma sample_tame [tames]: "tame c (snd (snd (wa_sample ops x (n, c))))"
proof (cases "wa_terminal c")
  case False
  obtain ok m d where p: "wa_poll ops (n, c) = (ok, m, d)" by (cases "wa_poll ops (n, c)")
  have d: "tame c d" using poll_tame [of c ops n] p by simp
  obtain good s where s: "sv_sample x True (wa_supervisor d) = (good, s)" by (cases "sv_sample x True (wa_supervisor d)")
  have "carried_on (wa_supervisor d) s" using sample_kept [of "wa_supervisor d" x True] s by simp
  then have t: "tame c (d\<lparr>wa_supervisor := s\<rparr>)" using tame_trans [OF d kept_tame] by blast
  then show ?thesis
    using False p d s tame_trans [OF t latch_tame [of _ m]]
    by (cases ok; cases good) (simp_all add: wa_sample_def)
qed (simp add: wa_sample_def tame_refl)

lemma stop_orderly:
  assumes "orderly c" and "r = kAdmission \<or> r = kLaunch"
  shows "orderly (wa_refuse r c)"
proof (cases "wa_terminal c")
  case False
  define s where "s = sv_refuse r (wa_supervisor c)"
  have s: "s = sv_stop r kBlocked (wa_supervisor c)" using assms(2) by (auto simp: s_def sv_refuse_def)
  have f: "sv_failure s \<noteq> kNone" "sv_state s = kBlocked"
    using False assms(2) by (auto simp: s terminal_iff sv_stop_fields)
  have "orderly (c\<lparr>wa_supervisor := s\<rparr>)"
    using carried_orderly [OF assms(1), of s] stop_carried [of r kBlocked "wa_supervisor c"] f assms(2)
    by (auto simp: s)
  then have "orderly (c\<lparr>wa_supervisor := s, wa_blocked := True, stop_requested := True\<rparr>)"
    using f stopped_orderly(2) [of "c\<lparr>wa_supervisor := s\<rparr>"]
      stopped_orderly(1) [of "c\<lparr>wa_supervisor := s, wa_blocked := True\<rparr>"] by simp
  then show ?thesis using False by (simp add: wa_refuse_def s_def)
qed (use assms in \<open>simp add: wa_refuse_def\<close>)

lemma settle_carried:
  assumes "ex \<Longrightarrow> exit_observed s"
  shows "carried s (sv_settle now ex l n s)"
proof (cases "sv_started s \<and> \<not> supervisor_terminal (sv_state s)")
  case True
  define p where "p = snd (sv_poll now True s)"
  define r where "r = record_run now ex l n p"
  have k: "carried_on s p" by (simp add: p_def poll_kept)
  have live: "\<not> supervisor_terminal (sv_state r)"
    using k True by (auto simp: r_def record_fields carried_on_def)
  define v where "v = (if sv_failure r = kMeasurement then kInconclusive
     else if sv_failure r \<noteq> kNone \<or> \<not> exact_run (target_of r) l n \<or> length (sv_samples r) \<noteq> 18
     then kFail else kPass)"
  have e: "sv_settle now ex l n s =
      (if settlement_incomplete r then (sv_stop kSettlement kSettlementUnknown r)\<lparr>sv_verdict := kUnknownVerdict\<rparr>
       else r\<lparr>sv_state := kComplete, sv_verdict := v\<rparr>)"
    using True unfolding sv_settle_def r_def p_def v_def Let_def by simp
  have same: "sv_failure r = sv_failure p" "sv_started r = sv_started p" "exit_observed r = exit_observed s"
    using k assms by (auto simp: r_def record_fields carried_on_def carried_def)
  have "\<And>g. upheld g s \<Longrightarrow> upheld g (sv_settle now ex l n s)" by (rule settle_upheld)
  then show ?thesis
    using e k live same True unfolding carried_on_def carried_def
    by (cases "settlement_incomplete r") (simp_all add: sv_stop_fields)
qed (auto simp: sv_settle_def carried_def)

lemma logs_kept: "wa_logs_complete (snd (accept_exit x at (n, c))) = wa_logs_complete c"
  by (simp add: accept_exit_def latch_stop_def Let_def)

lemma settle_orderly:
  assumes "orderly c"
  shows "orderly (snd (wa_settle ops l (n, c)))"
proof (cases "wa_blocked c \<or> \<not> start_request_started c \<or> wa_terminal c")
  case False
  obtain ok m d where p: "wa_poll ops (n, c) = (ok, m, d)" by (cases "wa_poll ops (n, c)")
  obtain healthy x at a where k: "look ops d = (healthy, x, at, a)" by (cases "look ops d") auto
  have "tame c a" using tame_trans [OF poll_tame look_tame] p k by (metis snd_conv)
  then have a: "orderly a" "\<not> wa_terminal a" using assms False tame_live by (auto simp: tame_def)
  define b where "b = a\<lparr>wa_logs_complete := wo_logs_complete x\<rparr>"
  have b: "orderly b" "\<not> wa_terminal b"
    using a by (auto simp: b_def terminal_iff orderly_def untouched_def admitted_ok_def truthful_def
      started_once_def supervisor_terminal_def)
  define q where "q = b\<lparr>wa_supervisor := snd (sv_poll at False (wa_supervisor b))\<rparr>"
  have q: "tame b q" using kept_tame [OF poll_kept] by (simp add: q_def)
  obtain h f where hf: "(if \<not> healthy \<or> \<not> wo_logs_complete x then latch_stop (m, q) else accept_exit x at (m, b)) = (h, f)"
    by fastforce
  have f: "f = snd (if \<not> healthy \<or> \<not> wo_logs_complete x then latch_stop (m, q) else accept_exit x at (m, b))"
    using hf by simp
  have f_ok: "orderly f"
    using b q latch_tame [of q m] accept_tame [of b x at m] unfolding f by (simp add: tame_def)
  have logs: "sv_failure (wa_supervisor f) \<noteq> kNone \<or> wa_logs_complete f"
    using latch_fails [OF tame_live [OF q b(2)], of m] unfolding f by (simp add: logs_kept) (simp add: b_def)
  define s where "s = begin_settlement (wa_supervisor f)"
  have c: "carried (wa_supervisor f) (sv_settle at (healthy \<and> exit_observed s) l h s)"
    using carried_trans settling_kept [of "wa_supervisor f"] settle_carried [of "healthy \<and> exit_observed s" s at l h]
    unfolding s_def carried_on_def by blast
  have "orderly (f\<lparr>wa_supervisor := sv_settle at (healthy \<and> exit_observed s) l h s\<rparr>)"
    by (rule carried_orderly [OF f_ok c]) (use logs c in \<open>auto simp: carried_def\<close>)
  moreover have "snd (wa_settle ops l (n, c)) = f\<lparr>wa_supervisor := sv_settle at (healthy \<and> exit_observed s) l h s\<rparr>"
    using False p k hf unfolding wa_settle_def s_def
    by (cases "healthy \<and> wo_logs_complete x") (simp_all add: Let_def b_def q_def)
  ultimately show ?thesis by simp
qed (use assms in \<open>auto simp: wa_settle_def\<close>)

text \<open>The launch: what begins it and what confirms it.\<close>

lemma begun_fields:
  assumes "begin_launch utc tick s = (begun, s')" and "sv_state s = kAdmitted"
  shows "sv_state s' \<noteq> kAdmitted" and "\<not> begun \<Longrightarrow> sv_failure s' \<noteq> kNone"
    and "begun \<Longrightarrow> sv_state s' = kStartAttempted \<and> sv_failure s' = sv_failure s \<and>
      sv_started s' \<and> exit_observed s' = exit_observed s"
  using assms
  by (auto simp: begin_launch_def sv_time_def Let_def sv_stop_fields supervisor_terminal_def split: if_splits)

lemma confirmed_fields:
  assumes "confirm_launch r s = (ok, s')" and "sv_state s = kStartAttempted"
  shows "sv_state s' \<noteq> kAdmitted \<and> sv_state s' \<noteq> kComplete" and "\<not> ok \<Longrightarrow> sv_failure s' \<noteq> kNone"
    and "ok \<Longrightarrow> r = wRunning \<and> sv_failure s' = sv_failure s \<and> sv_started s' = sv_started s \<and>
      exit_observed s' = exit_observed s"
  using assms
  by (auto simp: confirm_launch_def sv_stop_fields supervisor_terminal_def split: if_splits)

lemma asked_fields:
  assumes "ask_start ops c = (r, c')"
  shows "wa_ports c' = wa_ports c @ [Start_asked]" and "r = wRunning \<Longrightarrow> worker_identity_verified c'"
    and "wa_supervisor c' = wa_supervisor c" "wa_consumption c' = wa_consumption c"
      "identity_verified c' = identity_verified c" "wa_attempted c' = wa_attempted c"
      "wa_blocked c' = wa_blocked c" "stop_requested c' = stop_requested c"
      "normal_exit_observed c' = normal_exit_observed c" "wa_logs_complete c' = wa_logs_complete c"
  using assms by (auto simp: ask_start_def Let_def split: prod.splits if_splits)

lemma start_orderly:
  assumes o: "orderly c"
  shows "orderly (snd (wa_start ops c))"
proof (cases "wa_blocked c \<or> sv_state (wa_supervisor c) \<noteq> kAdmitted")
  case False
  then have adm: "\<not> wa_blocked c" "sv_state (wa_supervisor c) = kAdmitted" "wa_attempted c"
    "wa_ports c = [Consumed (wa_consumption c)]" "confirmed_once (wa_consumption c)" "identity_verified c"
    using o by (auto simp: orderly_def untouched_def admitted_ok_def)
  obtain g where g: "upheld g (wa_supervisor c)" using o by (auto simp: orderly_def)
  have t: "truthful c" using o by (simp add: orderly_def)
  obtain r w where l: "launch_preflight ops (wa_approved c) (wa_world c) = (r, w)" by fastforce
  show ?thesis
  proof (cases r)
    case None
    then show ?thesis using False l o stop_orderly [of "c\<lparr>wa_world := w\<rparr>" kLaunch] by (simp add: wa_start_def)
  next
    case (Some at)
    obtain begun s where b: "begin_launch at at (wa_supervisor c) = (begun, s)" by fastforce
    define d where "d = c\<lparr>wa_world := w, start_request_started := True, wa_supervisor := s\<rparr>"
    have u: "upheld g s" using launch_upheld [OF g, of at at] b by simp
    obtain started a where k: "ask_start ops d = (started, a)" by fastforce
    obtain ok s' where cf: "confirm_launch started (wa_supervisor a) = (ok, s')" by fastforce
    have e: "snd (wa_start ops c) = (if \<not> begun then d else if \<not> ok
        then a\<lparr>wa_supervisor := s', wa_blocked := True, stop_requested := True\<rparr> else a\<lparr>wa_supervisor := s'\<rparr>)"
      using False l Some b k cf by (simp add: wa_start_def d_def Let_def)
    show ?thesis
    proof (cases begun)
      case no: False
      have "orderly d"
        using begun_fields [OF b adm(2)] no adm u
        by (auto simp: d_def orderly_def admitted_ok_def truthful_def)
      then show ?thesis using e no by simp
    next
      case yes: True
      have s: "sv_state s = kStartAttempted" "sv_failure s = sv_failure (wa_supervisor c)" "sv_started s"
        "exit_observed s = exit_observed (wa_supervisor c)"
        using begun_fields(3) [OF b adm(2) yes] by simp_all
      have a: "wa_supervisor a = s" "wa_ports a = [Consumed (wa_consumption a), Start_asked]" "wa_attempted a"
        using asked_fields [OF k] adm by (simp_all add: d_def)
      have u': "upheld g s'" using confirm_upheld [OF u, of started] cf a by simp
      have s': "sv_state s' \<noteq> kAdmitted" "sv_state s' \<noteq> kComplete"
        using confirmed_fields(1) [OF cf] s a by auto
      have z: "confirmed_once (wa_consumption a)" using asked_fields [OF k] adm by (simp add: d_def)
      show ?thesis
      proof (cases ok)
        case True
        have w: "sv_failure s' = sv_failure s" "exit_observed s' = exit_observed s" "worker_identity_verified a"
          using confirmed_fields(3) [OF cf] s a True asked_fields(2) [OF k] by auto
        have "orderly (a\<lparr>wa_supervisor := s'\<rparr>)"
          using u' s' w a z s adm t asked_fields(4-) [OF k]
          by (auto simp: d_def orderly_def admitted_ok_def truthful_def started_once_def)
        then show ?thesis using e yes True by simp
      next
        case False
        have "sv_failure s' \<noteq> kNone" using confirmed_fields(2) [OF cf _ False] s a by simp
        then have "orderly (a\<lparr>wa_supervisor := s', wa_blocked := True, stop_requested := True\<rparr>)"
          using u' s' a z by (auto simp: orderly_def admitted_ok_def truthful_def)
        then show ?thesis using e yes False by simp
      qed
    qed
  qed
qed (use o in \<open>auto simp: wa_start_def\<close>)

text \<open>Admission: a trusted, matching binding is consumed exactly once.\<close>

lemma preflight_valid:
  "admit_preflight ops approved trial w = (Some (observed, now), w') \<Longrightarrow>
    safe_id trial \<and> valid_target (wb_target observed)"
  by (auto simp: admit_preflight_def matches_def split: if_splits prod.splits bool.splits)

lemma attempt_orderly [simp]: "orderly c \<Longrightarrow> orderly (c\<lparr>wa_attempted := True\<rparr>)"
  by (auto simp: orderly_def admitted_ok_def truthful_def started_once_def)

text \<open>What an accepted consumption stands for, as the cell of the granting side.\<close>

definition spent_cell :: "grant_target \<Rightarrow> grant_cell" where
  "spent_cell t = \<lparr>cell_state = kConsumed, cell_attempts = 1, cell_target = Some t\<rparr>"

lemma spent_granted: "valid_target t \<Longrightarrow> issued_once (spent_cell t) \<and> granted (spent_cell t) t"
  by (simp add: issued_once_def granted_def spent_cell_def)

lemma admit_orderly:
  assumes o: "orderly c"
  shows "orderly (snd (wa_admit ops approved trial c))"
proof (cases "wa_terminal c \<or> wa_attempted c")
  case False
  define a where "a = c\<lparr>wa_attempted := True\<rparr>"
  obtain r w where p: "admit_preflight ops approved trial (wa_world c) = (r, w)" by fastforce
  have u: "untouched c" using o False by (simp add: orderly_def)
  have t: "truthful c" using o by (simp add: orderly_def)
  obtain g where g: "upheld g (wa_supervisor c)" using o by (auto simp: orderly_def)
  show ?thesis
  proof (cases r)
    case None
    then show ?thesis
      using False p o stop_orderly [of "c\<lparr>wa_attempted := True, wa_world := w\<rparr>" kAdmission]
      by (simp add: wa_admit_def Let_def)
  next
    case (Some q)
    obtain observed now where q: "q = (observed, now)" by fastforce
    have v: "safe_id trial" "valid_target (wb_target observed)"
      using preflight_valid [of ops approved trial "wa_world c" observed now w] p Some q by simp_all
    let ?s = "wa_supervisor c"
    show ?thesis
    proof (cases "sv_state ?s = kNotStarted")
      case fresh: True
      obtain k w' where k: "op_consume ops approved now w = (k, w')" by fastforce
      have b: "sv_state (sv_stop kAdmission kBlocked ?s) = kBlocked" "sv_failure (sv_stop kAdmission kBlocked ?s) \<noteq> kNone"
        using fresh by (simp_all add: sv_stop_fields supervisor_terminal_def)
      have ub: "upheld g (sv_stop kAdmission kBlocked ?s)" using stop_upheld [OF g] by simp
      let ?t = "?s\<lparr>sv_target := Some (wb_target observed), sv_last_ms := now, sv_trial := trial, sv_state := kAdmitted\<rparr>"
      have ut: "upheld (spent_cell (wb_target observed)) ?t"
        using accepted_upheld [OF g fresh] spent_granted [OF v(2)] by blast
      have x: "\<not> exit_observed ?s" using g u by (auto simp: upheld_def staged_def untouched_def)
      show ?thesis
        using False p Some q v fresh k b ub ut x u t
        by (cases "confirmed_once k")
          (auto simp: wa_admit_def sv_admit_def admit_dual_clock_def admission_consumer_def Let_def
            orderly_def untouched_def admitted_ok_def truthful_def)
    next
      case False
      then have "sv_failure ?s \<noteq> kNone" using u by (simp add: untouched_def)
      then show ?thesis
        using False \<open>\<not> (wa_terminal c \<or> wa_attempted c)\<close> p Some q g u
        by (auto simp: wa_admit_def sv_admit_def admit_dual_clock_def Let_def
          orderly_def untouched_def admitted_ok_def truthful_def)
    qed
  qed
qed (use o in \<open>auto simp: wa_admit_def\<close>)

lemma tame_orderly: "tame c c' \<Longrightarrow> orderly c \<Longrightarrow> orderly c'"
  by (simp add: tame_def)

lemma serve_orderly: "orderly c \<Longrightarrow> orderly (serve ops k c)"
  by (cases k) (simp_all add: admit_orderly start_orderly settle_orderly tame_orderly [OF poll_tame]
    tame_orderly [OF sample_tame] tame_orderly [OF latch_tame])

lemma run_orderly: "orderly (fold (serve ops) ks (fresh_candidate w))"
  by (induction ks rule: rev_induct) (simp_all add: fresh_orderly serve_orderly)

section \<open>What a candidate guarantees\<close>

lemma one_use_iff:
  "one_use ps \<longleftrightarrow> ps = [] \<or> (\<exists>r. ps = [Consumed r]) \<or> (\<exists>r. confirmed_once r \<and> ps = [Consumed r, Start_asked])"
  by (cases ps rule: one_use.cases) (auto split: port.splits intro: port.exhaust)

text \<open>
  Claim C37.  Whatever sequence of calls a candidate serves and however the operations
  answer, the outside is asked to consume the grant at most once and to start a worker at
  most once, the worker only after a consumption that was confirmed.
\<close>

theorem admission_consumes_then_starts_once:
  "wa_ports (fold (serve ops) ks (fresh_candidate w)) = [] \<or>
   (\<exists>r. wa_ports (fold (serve ops) ks (fresh_candidate w)) = [Consumed r]) \<or>
   (\<exists>r. confirmed_once r \<and> wa_ports (fold (serve ops) ks (fresh_candidate w)) = [Consumed r, Start_asked])"
  using run_orderly [of ops ks w] by (simp add: orderly_def one_use_iff)

lemma passed_orderly:
  assumes "orderly c" and "reported_verdict c = kPass"
  defines "s \<equiv> wa_supervisor c"
  shows "started_once c \<and> normal_exit_observed c \<and> wa_logs_complete c \<and> \<not> wa_blocked c \<and> \<not> stop_requested c \<and>
    earned_pass s \<and> within_target s \<and> \<not> deadline_exceeded s \<and> valid_target (target_of s)"
proof -
  have "sv_verdict s = kPass"
    using assms(2) by (auto simp: reported_verdict_def s_def split: if_splits)
  moreover obtain g where g: "upheld g s" using assms(1) by (auto simp: orderly_def s_def)
  ultimately have e: "earned_pass s" by (simp add: upheld_def)
  then have "valid_target (target_of s)" "within_target s" "\<not> deadline_exceeded s"
    using g by (auto simp: upheld_def staged_def earned_pass_def granted_def unlatched_ok_def)
  then show ?thesis
    using e assms(1) by (simp add: orderly_def truthful_def earned_pass_def s_def)
qed

text \<open>
  Claim C38.  A reported PASS, after whatever calls, means that a confirmed consumption was
  followed by one start, that the binding and the worker were verified, that the worker
  exited normally within its thirty seconds with complete logs, that all eighteen samples
  stayed within a valid target, and that neither a refusal nor a stop ever occurred.
\<close>

theorem admission_pass_is_verified:
  assumes "reported_verdict (fold (serve ops) ks (fresh_candidate w)) = kPass"
  shows "started_once (fold (serve ops) ks (fresh_candidate w)) \<and>
    normal_exit_observed (fold (serve ops) ks (fresh_candidate w)) \<and>
    wa_logs_complete (fold (serve ops) ks (fresh_candidate w)) \<and>
    \<not> wa_blocked (fold (serve ops) ks (fresh_candidate w)) \<and>
    \<not> stop_requested (fold (serve ops) ks (fresh_candidate w)) \<and>
    valid_target (target_of (wa_supervisor (fold (serve ops) ks (fresh_candidate w)))) \<and>
    earned_pass (wa_supervisor (fold (serve ops) ks (fresh_candidate w))) \<and>
    within_target (wa_supervisor (fold (serve ops) ks (fresh_candidate w)))"
  using passed_orderly [OF run_orderly assms] by simp

text \<open>A complete run: the worker's exit is observed from its nineteenth observation on.\<close>

definition sample_binding :: windows_binding where
  "sample_binding = default_binding
    \<lparr>wb_target := sample_grant, account_sid := [0x53], object_identity_sha256 := replicate 64 CHR ''1'',
     primary_medium_token := True, unexpected_privileges := False, protected_object := True,
     parent_chain_pinned := True, wb_reparse := False, owner_matches := True, device_matches := True,
     artifact_pinned := True, dependencies_pinned := True, isolated_environment := True,
     explicit_handle_list := True\<rparr>"

definition steady_ops :: "nat admission_ops" where
  "steady_ops =
    \<lparr>op_trusted = (\<lambda>_ n. (True, n)), op_inspect = (\<lambda>n. ((True, sample_binding), n)),
     op_now = (\<lambda>n. ((True, 10), n)),
     op_consume = (\<lambda>_ _ n. (\<lparr>persisted_issuance = True, request_started = True, cr_confirmed = True,
       cr_unknown = False, cr_state = kConsumed\<rparr>, n)),
     op_start = (\<lambda>_ n. (wRunning, n)),
     op_observe = (\<lambda>n. (\<lparr>wo_binding = sample_binding, wo_authenticated = True, wo_observer_healthy = True,
       wo_exit_observed = 19 \<le> n, wo_normal_exit = True, wo_logs_complete = True\<rparr>, Suc n))\<rparr>"

definition steady_sample :: resource_sample where
  "steady_sample = \<lparr>observed_at_ms = 10, s_working = 7, s_commit = 8, s_handles = 9, completed_calls = 0\<rparr>"

definition sample_calls :: "admission_call list" where
  "sample_calls = [Call_admit sample_binding ''t1'', Call_start] @
    replicate 18 (Call_sample steady_sample fresh_observation) @
    [Call_settle (fresh_ledger\<lparr>l_samples := 18\<rparr>) fresh_observation]"

definition sample_receipt :: consumption_record where
  "sample_receipt =
    \<lparr>persisted_issuance = True, request_started = True, cr_confirmed = True, cr_unknown = False, cr_state = kConsumed\<rparr>"

text \<open>The running candidate after \<open>k\<close> samples.\<close>

definition running_at :: "nat \<Rightarrow> nat candidate" where
  "running_at k =
    \<lparr>wa_world = Suc k, wa_ports = [Consumed sample_receipt, Start_asked], wa_approved = sample_binding,
     wa_supervisor = fresh_supervisor
       \<lparr>sv_target := Some sample_grant, sv_last_ms := 10, sv_trial := ''t1'', sv_state := kRunning,
        launch_attempt_ms := 10, sv_worker := wRunning, sv_started := True,
        sv_samples := replicate k steady_sample\<rparr>,
     wa_consumption = sample_receipt, dependency_sha256 = dependency_manifest_sha256 sample_grant,
     toolchain_sha256 = toolchain_manifest_sha256 sample_grant,
     account_sha256 = account_identity_sha256 sample_grant,
     wa_object_identity = object_identity_sha256 sample_binding, start_request_started = True,
     identity_verified = True, worker_identity_verified = True, normal_exit_observed = False,
     wa_logs_complete = False, stop_requested = False, wa_attempted = True, wa_blocked = False\<rparr>"

lemma sample_facts:
  "matches sample_binding sample_binding" "safe_id ''t1''" "is_admission_only sample_grant"
  "in_window sample_grant 10" "window_start_ms sample_grant = 5" "window_end_ms sample_grant = 90000"
  "max_execution_ms sample_grant = 30000" "\<not> over_target steady_sample sample_grant"
  "wb_target sample_binding = sample_grant"
  "exact_run sample_grant (fresh_ledger\<lparr>l_samples := 18\<rparr>) fresh_observation"
  "\<not> unresolved_run True (fresh_ledger\<lparr>l_samples := 18\<rparr>) fresh_observation"
  "confirmed_once sample_receipt" "\<not> obs_stopped fresh_observation" "\<not> obs_unknown fresh_observation"
  "obs_quarantined fresh_observation = 0"
  by code_simp+

text \<open>The sample operations and the running candidate field by field; the binding stays folded.\<close>

lemma steady_ops_fields:
  "op_trusted steady_ops b n = (True, n)" "op_inspect steady_ops n = ((True, sample_binding), n)"
  "op_now steady_ops n = ((True, 10), n)" "op_consume steady_ops b t n = (sample_receipt, n)"
  "op_start steady_ops b n = (wRunning, n)"
  "op_observe steady_ops n = (\<lparr>wo_binding = sample_binding, wo_authenticated = True, wo_observer_healthy = True,
    wo_exit_observed = 19 \<le> n, wo_normal_exit = True, wo_logs_complete = True\<rparr>, Suc n)"
  by (simp_all add: steady_ops_def sample_receipt_def)

lemmas sampled = sample_facts steady_ops_fields running_at_def terminal_iff supervisor_terminal_def target_of_def

lemma sample_started:
  "serve steady_ops Call_start (serve steady_ops (Call_admit sample_binding ''t1'') (fresh_candidate 0)) = running_at 0"
  by (simp add: sampled wa_admit_def admit_preflight_def sv_admit_def admit_dual_clock_def admission_consumer_def
    wa_start_def launch_preflight_def begin_launch_def sv_time_def confirm_launch_def ask_start_def trusted_worker_def
    fresh_candidate_def fresh_supervisor_def Let_def)

lemma sample_polled:
  "k < 18 \<Longrightarrow> wa_poll steady_ops (fresh_observation, running_at k) =
    (True, fresh_observation, running_at k\<lparr>wa_world := Suc (Suc k)\<rparr>)"
  by (simp add: sampled wa_poll_def look_def trusted_worker_def sv_poll_def sv_time_def accept_exit_def
    admission_open_def fresh_supervisor_def Let_def)

lemma sample_taken:
  assumes "k < 18"
  shows "serve steady_ops (Call_sample steady_sample fresh_observation) (running_at k) = running_at (Suc k)"
proof -
  have "sv_sample steady_sample True (wa_supervisor (running_at k)) = (True, wa_supervisor (running_at (Suc k)))"
    using assms
    by (simp add: sampled sv_sample_def sv_poll_def sv_time_def bad_sample_def expected_completed_def fresh_supervisor_def
      Let_def replicate_append_same)
      (cases "k = 0"; simp add: steady_sample_def)
  then show ?thesis
    using sample_polled [OF assms] by (simp add: wa_sample_def) (simp add: sampled)
qed

lemma samples_taken:
  "k \<le> 18 \<Longrightarrow> fold (serve steady_ops) (replicate k (Call_sample steady_sample fresh_observation)) (running_at 0) = running_at k"
proof (induction k)
  case (Suc k)
  then show ?case
    by (simp add: replicate_append_same [symmetric] sample_taken del: replicate.simps serve.simps)
qed simp

lemma sample_settled:
  "reported_verdict (serve steady_ops (Call_settle (fresh_ledger\<lparr>l_samples := 18\<rparr>) fresh_observation) (running_at 18)) = kPass"
  by (simp add: sampled wa_settle_def wa_poll_def look_def trusted_worker_def sv_poll_def sv_time_def accept_exit_def
    observe_worker_exit_def begin_settlement_def sv_settle_def record_run_def reported_verdict_def
    fresh_supervisor_def Let_def)

lemma sample_calls_pass: "reported_verdict (fold (serve steady_ops) sample_calls (fresh_candidate 0)) = kPass"
  using samples_taken [of 18] sample_settled
  by (simp add: sample_calls_def sample_started del: serve.simps replicate.simps)

theorem admission_pass_is_verified_witness:
  "started_once (fold (serve steady_ops) sample_calls (fresh_candidate 0)) \<and>
   \<not> stop_requested (fold (serve steady_ops) sample_calls (fresh_candidate 0))"
  using admission_pass_is_verified [OF sample_calls_pass] by simp

end
