(* ===== verification/Grant_Flow.thy ===== *)
theory Grant_Flow
  imports Windows_Admission "HOL-Library.Sublist"
begin

text \<open>
  The grant flow of the controller (\<open>diagnostics/l1_e4_admission.h\<close>): the clock validator, the
  approval prompt and its confirmation, the receipt and journal records, and \<open>GrantFlow\<close>, which
  issues, consumes and starts one grant through the storage operations \<open>GrantIo\<close>.  The lemmas
  show that accepted readings come from one steady clock and that the storage is asked for at
  most one issue, one request, one burn and two updates, in this order.
\<close>

section \<open>Clocks\<close>

record clock_reading =
  r_utc :: u64
  r_mono :: u64
  r_session :: u64
  r_valid :: bool

definition no_reading :: clock_reading where
  "no_reading = \<lparr>r_utc = 0, r_mono = 0, r_session = 0, r_valid = False\<rparr>"

record clock_validator =
  cv_anchor :: clock_reading
  cv_last :: clock_reading
  cv_initialized :: bool
  cv_failed :: bool

definition fresh_clock :: clock_validator where
  "fresh_clock = \<lparr>cv_anchor = no_reading, cv_last = no_reading, cv_initialized = False, cv_failed = False\<rparr>"

text \<open>How far wall clock and monotonic clock moved apart between two readings.\<close>

definition drift :: "clock_reading \<Rightarrow> clock_reading \<Rightarrow> u64" where
  "drift a r =
    (let wall = r_utc r - r_utc a; elapsed = r_mono r - r_mono a
     in if elapsed < wall then wall - elapsed else elapsed - wall)"

definition clock_accept :: "clock_reading \<Rightarrow> clock_validator \<Rightarrow> bool \<times> clock_validator" where
  "clock_accept r v =
    (if cv_failed v \<or> \<not> r_valid r \<or> r_utc r = 0 \<or> r_session r = 0 then (False, v\<lparr>cv_failed := True\<rparr>)
     else if \<not> cv_initialized v then
       (True, v\<lparr>cv_anchor := r, cv_last := r, cv_initialized := True\<rparr>)
     else if r_session r \<noteq> r_session (cv_anchor v) \<or> r_utc r < r_utc (cv_last v) \<or>
       r_mono r < r_mono (cv_last v) then (False, v\<lparr>cv_failed := True\<rparr>)
     else if 1000 < drift (cv_anchor v) r then (False, v\<lparr>cv_failed := True\<rparr>)
     else (True, v\<lparr>cv_last := r\<rparr>))"

definition launch_window :: "grant_target \<Rightarrow> clock_reading \<Rightarrow> bool" where
  "launch_window t r \<longleftrightarrow>
    r_valid r \<and> window_start_ms t \<le> r_utc r \<and> r_utc r < window_end_ms t \<and>
    30000 \<le> window_end_ms t - r_utc r"

section \<open>The approval prompt\<close>

text \<open>The banner in UTF-8.\<close>

definition kHumanApprovalBannerText :: string where
  "kHumanApprovalBannerText =
    map (char_of :: nat \<Rightarrow> char)
      [0xe6, 0x9c, 0xac, 0xe6, 0x93, 0x8d, 0xe4, 0xbd, 0x9c, 0xe5, 0xb0, 0x86, 0xe6, 0x89, 0xb9, 0xe5,
       0x87, 0x86, 0xe4, 0xb8, 0x80, 0xe6, 0xac, 0xa1, 0xe5, 0x8f, 0x97, 0xe9, 0x99, 0x90, 0xe7, 0x9a,
       0x84, 0x20, 0x57, 0x69, 0x6e, 0x64, 0x6f, 0x77, 0x73, 0x20, 0xe5, 0xaf, 0x86, 0xe7, 0xa0, 0x81,
       0xe5, 0xad, 0xa6, 0xe5, 0xae, 0x9e, 0xe9, 0xaa, 0x8c, 0xe5, 0x90, 0xaf, 0xe5, 0x8a, 0xa8, 0xe5,
       0xb0, 0x9d, 0xe8, 0xaf, 0x95, 0xe3, 0x80, 0x82, 0xe5, 0xa4, 0xb1, 0xe8, 0xb4, 0xa5, 0xe3, 0x80,
       0x81, 0xe8, 0xb6, 0x85, 0xe6, 0x97, 0xb6, 0xe6, 0x88, 0x96, 0xe7, 0xbb, 0x93, 0xe6, 0x9e, 0x9c,
       0xe6, 0x9c, 0xaa, 0xe7, 0x9f, 0xa5, 0xe5, 0x9d, 0x87, 0xe4, 0xb8, 0x8d, 0xe8, 0x87, 0xaa, 0xe5,
       0x8a, 0xa8, 0xe9, 0x87, 0x8d, 0xe8, 0xaf, 0x95, 0xe3, 0x80, 0x82]"

definition to_text :: "u64 \<Rightarrow> string" where
  "to_text w = decimal (unat w)"

record approval_prompt =
  ap_target :: grant_target
  ap_target_hash :: string
  ap_suffix :: string
  ap_summary :: string

record ui_response =
  ui_completed :: bool
  ui_cancelled :: bool
  ui_timed_out :: bool
  ui_checked :: bool
  ui_suffix :: string
  ui_displayed_hash :: string

definition new_line :: string where "new_line = [CHR 0x0A]"

definition summary_fields :: "grant_target \<Rightarrow> (string \<times> string) list" where
  "summary_fields t =
    [(''Batch'', batch_id t), (''Device'', device_id t), (''OS'', os_id t),
     (''Account digest'', account_identity_sha256 t), (''Source'', source_sha t), (''Base'', base_sha t),
     (''EXE'', exe_sha256 t), (''Dependencies'', dependency_manifest_sha256 t),
     (''Compiler'', compiler_id t), (''Toolchain'', toolchain_manifest_sha256 t),
     (''STOP owner'', stop_owner t), (''Recovery owner'', recovery_owner t),
     (''Evidence owner'', evidence_owner t), (''Evidence scope'', evidence_scope_id t),
     (''Reviewer'', reviewer_id t), (''Review record'', review_sha256 t),
     (''Verifier'', verifier_id t), (''Verification record'', verification_sha256 t),
     (''Approval ID'', user_approval_id t)]"

definition scope_lines :: "grant_target \<Rightarrow> string" where
  "scope_lines t =
    (if is_admission_only t then
       new_line @ ''G0-L1 / L1-ADMISSION; Non-elevated primary Medium token; Review/Verification=APPROVED'' @
       new_line @ ''ABI 0/0/0/0/0/0/0=0; buffers=0; direct native=0; samples=18; deadline=30000ms''
     else
       new_line @ ''G0-L1 / L1-CRYPTO; Non-elevated primary Medium token; Review/Verification=APPROVED'' @
       new_line @ ''ABI 1/3/3/6/3/45/45=106; buffers=5; direct native=47; samples=18; deadline=30000ms'')"

definition approval_summary :: "grant_target \<Rightarrow> string \<Rightarrow> string" where
  "approval_summary t h =
    kHumanApprovalBannerText @ new_line @ ''Target='' @ h @
    concat (map (\<lambda>(label, text). new_line @ label @ ''='' @ text) (summary_fields t)) @
    scope_lines t @
    new_line @ ''UTC='' @ to_text (window_start_ms t) @ ''..'' @ to_text (window_end_ms t) @
    new_line @ ''Working/Commit/SampledHandles='' @ to_text (working_set_bytes t) @ ''/'' @
    to_text (commit_bytes t) @ ''/'' @ decimal (unat (grant_handles t)) @
    new_line @ ''No automatic retry/kill/restart; recovery requires the named operator. Evidence: redacted digests/counts only.''"

definition make_prompt :: "grant_target \<Rightarrow> wstring \<Rightarrow> approval_prompt option" where
  "make_prompt t sid =
    (case compute_target_binding_sha256 t sid of
       (False, _) \<Rightarrow> None
     | (True, h) \<Rightarrow>
         Some \<lparr>ap_target = t, ap_target_hash = h, ap_suffix = drop 58 h, ap_summary = approval_summary t h\<rparr>)"

definition confirm_approval :: "approval_prompt \<Rightarrow> ui_response \<Rightarrow> grant_target \<Rightarrow> wstring \<Rightarrow> bool" where
  "confirm_approval p r current sid =
    (case make_prompt current sid of
       None \<Rightarrow> False
     | Some expected \<Rightarrow>
         (ap_target p)\<lparr>user_approved := user_approved current\<rparr> = current \<and>
         ap_summary p = ap_summary expected \<and> ap_suffix p = ap_suffix expected \<and>
         ap_target_hash p = ap_target_hash expected \<and>
         ui_completed r \<and> \<not> ui_cancelled r \<and> \<not> ui_timed_out r \<and> ui_checked r \<and>
         ui_suffix r = ap_suffix p \<and> ui_displayed_hash r = ap_target_hash p \<and>
         (case compute_target_binding_sha256 current sid of (ok, h) \<Rightarrow> ok \<and> h = ap_target_hash p))"

section \<open>Receipts and journals\<close>

definition padded :: "nat \<Rightarrow> u8 list \<Rightarrow> u8 list" where
  "padded n bs = bs @ replicate (n - length bs) 0"

definition sealed :: "u8 list \<Rightarrow> u8 list" where
  "sealed bs = bs @ sha256_digest bs"

definition receipt :: "approval_prompt \<Rightarrow> clock_reading \<Rightarrow> u8 list option" where
  "receipt p r =
    (if \<not> launch_window (ap_target p) r \<or> r_session r = 0 \<or> \<not> safe_id (batch_id (ap_target p)) then None
     else
       case (decode_hex_bytes (ap_target_hash p) 32,
             decode_hex_bytes (account_identity_sha256 (ap_target p)) 32) of
         ((True, h), (True, a)) \<Rightarrow>
           Some (sealed (padded 224
             (le_put 4 0x52504153 @ le_put 2 1 @ le_put 2 3 @ le_put 8 (r_utc r) @ le_put 8 (r_mono r) @
              le_put 8 (r_session r) @ h @ a @
              [of_nat (length (batch_id (ap_target p)))] @ narrow (batch_id (ap_target p)))))
       | _ \<Rightarrow> None)"

definition valid_receipt :: "u8 list \<Rightarrow> approval_prompt \<Rightarrow> clock_reading \<Rightarrow> bool" where
  "valid_receipt b p issued \<longleftrightarrow> receipt p issued = Some b"

datatype journal_stage = j_requested | j_consumed | j_start

fun stage_code :: "journal_stage \<Rightarrow> u8" where
  "stage_code j_requested = 1"
| "stage_code j_consumed = 2"
| "stage_code j_start = 3"

definition journal ::
    "journal_stage \<Rightarrow> clock_reading \<Rightarrow> u64 \<Rightarrow> string \<Rightarrow> string \<Rightarrow> u8 list option" where
  "journal stage r start target objects =
    (if \<not> r_valid r \<or> r_session r = 0 \<or> r_utc r = 0 \<or> (stage \<noteq> j_start \<and> start \<noteq> 0) then None
     else
       case (decode_hex_bytes target 32, decode_hex_bytes objects 32) of
         ((True, t), (True, q)) \<Rightarrow>
           Some (sealed
             (le_put 4 0x4c4e4a53 @ le_put 2 1 @ [stage_code stage] @ [0] @ le_put 8 (r_session r) @
              le_put 8 (r_utc r) @ le_put 8 start @ t @ q))
       | _ \<Rightarrow> None)"

definition valid_journal :: "u8 list \<Rightarrow> bool" where
  "valid_journal b \<longleftrightarrow>
    field_at b 0 4 = 0x4c4e4a53 \<and> field_at b 4 2 = 1 \<and> 1 \<le> b ! 6 \<and> b ! 6 \<le> 3 \<and> b ! 7 = 0 \<and>
    field_at b 8 8 \<noteq> 0 \<and> field_at b 16 8 \<noteq> 0 \<and> (b ! 6 = 3 \<or> field_at b 24 8 = 0) \<and>
    sha256_digest (take 96 b) = drop 96 b"

section \<open>The grant flow\<close>

datatype io_result = io_ok | io_denied | io_unknown

text \<open>
  The storage operations act on the outside \<open>'w\<close>; an answer \<open>None\<close> is an exception.  The
  receipt's creation also answers the pins it left.
\<close>

record 'w grant_io =
  io_principal :: "wstring \<Rightarrow> 'w \<Rightarrow> bool option \<times> 'w"
  io_issue_new :: "u8 list \<Rightarrow> 'w \<Rightarrow> io_result option \<times> batch_pins \<times> 'w"
  io_inspect :: "batch_pins \<Rightarrow> 'w \<Rightarrow> bool option \<times> 'w"
  io_request_new :: "u8 list \<Rightarrow> 'w \<Rightarrow> io_result option \<times> 'w"
  io_burn_issued :: "'w \<Rightarrow> io_result option \<times> 'w"
  io_update_request :: "u8 list \<Rightarrow> 'w \<Rightarrow> io_result option \<times> 'w"

text \<open>What was asked of the storage that changes it, in order and with the answers.\<close>

datatype grant_request =
  Issue_new "u8 list" | Request_new "u8 list" | Burn_issued | Update_request "u8 list"

record 'w grant_flow =
  gf_world :: 'w
  gf_requests :: "(grant_request \<times> io_result option) list"
  gf_clock :: clock_validator
  gf_reading :: clock_reading
  gf_pins :: batch_pins
  gf_target :: grant_target
  gf_hash :: string
  gf_object_hash :: string
  gf_receipt_hash :: string
  gf_issued_utc :: u64
  gf_record :: consumption_record
  gf_attempted :: bool
  gf_issued :: bool
  gf_start_attempted :: bool

definition no_pin :: object_pin where
  "no_pin = \<lparr>pin_volume = 0, pin_file = replicate 16 0\<rparr>"

definition fresh_flow :: "'w \<Rightarrow> 'w grant_flow" where
  "fresh_flow w =
    \<lparr>gf_world = w, gf_requests = [], gf_clock = fresh_clock, gf_reading = no_reading,
     gf_pins = \<lparr>dir_pin = no_pin, receipt_pin = no_pin, grant_pin = no_pin\<rparr>, gf_target = default_target,
     gf_hash = [], gf_object_hash = [], gf_receipt_hash = [], gf_issued_utc = 0,
     gf_record = no_consumption, gf_attempted = False, gf_issued = False, gf_start_attempted = False\<rparr>"

definition uncertain :: "'w grant_flow \<Rightarrow> 'w grant_flow" where
  "uncertain f = f\<lparr>gf_record := (gf_record f)\<lparr>cr_unknown := True, cr_confirmed := False, cr_state := kGrantUnknown\<rparr>\<rparr>"

text \<open>
  A body answers \<open>None\<close> where the code calls \<open>uncertain\<close> or an exception leaves it, which the
  function's handler answers by \<open>uncertain\<close>.
\<close>

definition handled :: "bool option \<times> 'w grant_flow \<Rightarrow> bool \<times> 'w grant_flow" where
  "handled = (\<lambda>(b, f). case b of None \<Rightarrow> (False, uncertain f) | Some b \<Rightarrow> (b, f))"

definition ask_inspect :: "'w grant_io \<Rightarrow> 'w grant_flow \<Rightarrow> bool option \<times> 'w grant_flow" where
  "ask_inspect io f = (case io_inspect io (gf_pins f) (gf_world f) of (b, w) \<Rightarrow> (b, f\<lparr>gf_world := w\<rparr>))"

definition ask_issue :: "'w grant_io \<Rightarrow> u8 list \<Rightarrow> 'w grant_flow \<Rightarrow> io_result option \<times> 'w grant_flow" where
  "ask_issue io b f =
    (case io_issue_new io b (gf_world f) of
       (r, pins, w) \<Rightarrow>
         (r, f\<lparr>gf_world := w, gf_pins := pins, gf_requests := gf_requests f @ [(Issue_new b, r)]\<rparr>))"

text \<open>A later request: it must be answered \<open>io_ok\<close>, anything else is uncertain.\<close>

fun ask_storage :: "'w grant_io \<Rightarrow> grant_request \<Rightarrow> 'w \<Rightarrow> io_result option \<times> 'w" where
  "ask_storage io (Request_new j) w = io_request_new io j w"
| "ask_storage io Burn_issued w = io_burn_issued io w"
| "ask_storage io (Update_request j) w = io_update_request io j w"
| "ask_storage io (Issue_new b) w = (case io_issue_new io b w of (r, _, w) \<Rightarrow> (r, w))"

definition must :: "'w grant_io \<Rightarrow> grant_request \<Rightarrow> 'w grant_flow \<Rightarrow> bool \<times> 'w grant_flow" where
  "must io q f =
    (case ask_storage io q (gf_world f) of
       (r, w) \<Rightarrow> (r = Some io_ok, f\<lparr>gf_world := w, gf_requests := gf_requests f @ [(q, r)]\<rparr>))"

definition issue_created ::
    "'w grant_io \<Rightarrow> approval_prompt \<Rightarrow> grant_target \<Rightarrow> clock_reading \<Rightarrow> u8 list \<Rightarrow> 'w grant_flow
     \<Rightarrow> bool option \<times> 'w grant_flow" where
  "issue_created io p current clock b f =
    (if \<not> batch_pins_valid (gf_pins f) then (None, f)
     else
       case ask_inspect io f of
         (inspected, f) \<Rightarrow>
           if inspected \<noteq> Some True then (None, f)
           else
             (case compute_object_identity_sha256 (ap_target_hash p) (gf_pins f) (account_identity_sha256 current) of
                (ok, h) \<Rightarrow>
                  let f = f\<lparr>gf_object_hash := h\<rparr>
                  in if \<not> ok then (None, f)
                     else
                       (Some True,
                        f\<lparr>gf_target := current\<lparr>user_approved := True\<rparr>, gf_hash := ap_target_hash p,
                          gf_issued := True, gf_issued_utc := r_utc clock,
                          gf_receipt_hash := encode_hex_bytes (sha256_digest b),
                          gf_record := (gf_record f)\<lparr>persisted_issuance := True, cr_state := kIssued\<rparr>\<rparr>)))"

definition issue_approved ::
    "'w grant_io \<Rightarrow> approval_prompt \<Rightarrow> grant_target \<Rightarrow> clock_reading \<Rightarrow> 'w grant_flow
     \<Rightarrow> bool option \<times> 'w grant_flow" where
  "issue_approved io p current clock f =
    (case receipt p clock of
       None \<Rightarrow> (Some False, f)
     | Some b \<Rightarrow>
         (case ask_issue io b f of
            (None, f) \<Rightarrow> (None, f)
          | (Some io_unknown, f) \<Rightarrow> (None, f)
          | (Some io_denied, f) \<Rightarrow> (Some False, f)
          | (Some io_ok, f) \<Rightarrow> issue_created io p current clock b f))"

definition flow_issue ::
    "'w grant_io \<Rightarrow> approval_prompt \<Rightarrow> ui_response \<Rightarrow> grant_target \<Rightarrow> wstring \<Rightarrow> clock_reading \<Rightarrow> 'w grant_flow
     \<Rightarrow> bool \<times> 'w grant_flow" where
  "flow_issue io p r current sid clock f =
    (if gf_attempted f then (False, f)
     else
       case clock_accept clock (gf_clock f) of
         (steady, v) \<Rightarrow>
           let f = f\<lparr>gf_attempted := True, gf_clock := v\<rparr>
           in if \<not> steady \<or> \<not> launch_window current clock then (False, f)
              else
                (case io_principal io sid (gf_world f) of
                   (known, w) \<Rightarrow>
                     let f = f\<lparr>gf_world := w\<rparr>
                     in if known = None then (False, uncertain f)
                        else if known = Some False \<or> \<not> confirm_approval p r current sid then (False, f)
                        else handled (issue_approved io p current clock f)))"

definition flow_prepare :: "clock_reading \<Rightarrow> 'w grant_flow \<Rightarrow> bool \<times> 'w grant_flow" where
  "flow_prepare r f =
    (let f = f\<lparr>gf_reading := r\<rparr>
     in if \<not> gf_issued f \<or> \<not> persisted_issuance (gf_record f) \<or> cr_unknown (gf_record f) \<or>
          cr_state (gf_record f) \<noteq> kIssued then (False, f)
        else
          case clock_accept r (gf_clock f) of
            (steady, v) \<Rightarrow> (steady \<and> launch_window (gf_target f) r, f\<lparr>gf_clock := v\<rparr>))"

definition burn_and_mark ::
    "'w grant_io \<Rightarrow> clock_reading \<Rightarrow> u8 list \<Rightarrow> 'w grant_flow \<Rightarrow> bool option \<times> 'w grant_flow" where
  "burn_and_mark io r j f =
    (case must io (Request_new j) f of
       (False, f) \<Rightarrow> (None, f)
     | (True, f) \<Rightarrow>
         (case must io Burn_issued f of
            (False, f) \<Rightarrow> (None, f)
          | (True, f) \<Rightarrow>
              let j = (case journal j_consumed r 0 (gf_hash f) (gf_object_hash f) of None \<Rightarrow> j | Some k \<Rightarrow> k)
              in (case must io (Update_request j) f of
                    (False, f) \<Rightarrow> (None, f)
                  | (True, f) \<Rightarrow>
                      (Some True, f\<lparr>gf_record := (gf_record f)\<lparr>cr_confirmed := True, cr_state := kConsumed\<rparr>\<rparr>))))"

definition consume_reading :: "'w grant_io \<Rightarrow> clock_reading \<Rightarrow> 'w grant_flow \<Rightarrow> bool option \<times> 'w grant_flow" where
  "consume_reading io r f =
    (if \<not> gf_issued f \<or> \<not> persisted_issuance (gf_record f) \<or> cr_unknown (gf_record f) \<or>
       cr_state (gf_record f) \<noteq> kIssued \<or> request_started (gf_record f) \<or> \<not> launch_window (gf_target f) r
     then (Some False, f)
     else
       case ask_inspect io f of
         (None, f) \<Rightarrow> (None, f)
       | (Some False, f) \<Rightarrow> (Some False, f)
       | (Some True, f) \<Rightarrow>
           let f = f\<lparr>gf_record := (gf_record f)\<lparr>request_started := True\<rparr>\<rparr>
           in (case journal j_requested r 0 (gf_hash f) (gf_object_hash f) of
                 None \<Rightarrow> (None, f)
               | Some j \<Rightarrow> burn_and_mark io r j f))"

definition flow_consume :: "'w grant_io \<Rightarrow> grant_target \<Rightarrow> u64 \<Rightarrow> 'w grant_flow \<Rightarrow> bool \<times> 'w grant_flow" where
  "flow_consume io observed utc f =
    (if observed \<noteq> gf_target f \<or> utc \<noteq> r_utc (gf_reading f) then (False, f)
     else handled (consume_reading io (gf_reading f) f))"

definition flow_start :: "'w grant_io \<Rightarrow> clock_reading \<Rightarrow> 'w grant_flow \<Rightarrow> bool \<times> 'w grant_flow" where
  "flow_start io r f =
    (if \<not> cr_confirmed (gf_record f) \<or> cr_unknown (gf_record f) \<or> cr_state (gf_record f) \<noteq> kConsumed \<or>
       gf_start_attempted f then (False, f)
     else
       case clock_accept r (gf_clock f) of
         (steady, v) \<Rightarrow>
           let f = f\<lparr>gf_start_attempted := True, gf_clock := v\<rparr>
           in if \<not> steady \<or> \<not> launch_window (gf_target f) r then (False, f)
              else
                (case ask_inspect io f of
                   (None, f) \<Rightarrow> (False, uncertain f)
                 | (Some False, f) \<Rightarrow> (False, f)
                 | (Some True, f) \<Rightarrow>
                     (case journal j_start r (r_mono r) (gf_hash f) (gf_object_hash f) of
                        None \<Rightarrow> (False, uncertain f)
                      | Some j \<Rightarrow>
                          (case must io (Update_request j) f of
                             (ok, f) \<Rightarrow> if ok then (True, f) else (False, uncertain f)))))"

definition flow_inspect :: "'w grant_io \<Rightarrow> clock_reading \<Rightarrow> 'w grant_flow \<Rightarrow> bool \<times> 'w grant_flow" where
  "flow_inspect io r f =
    (if \<not> gf_issued f then (False, f)
     else
       case clock_accept r (gf_clock f) of
         (steady, v) \<Rightarrow>
           let f = f\<lparr>gf_clock := v\<rparr> in if \<not> steady then (False, f) else handled (ask_inspect io f))"

datatype flow_call =
    Flow_issue approval_prompt ui_response grant_target wstring clock_reading
  | Flow_prepare clock_reading
  | Flow_consume grant_target u64
  | Flow_start clock_reading
  | Flow_inspect clock_reading

fun flow_step :: "'w grant_io \<Rightarrow> flow_call \<Rightarrow> 'w grant_flow \<Rightarrow> 'w grant_flow" where
  "flow_step io (Flow_issue p r current sid clock) f = snd (flow_issue io p r current sid clock f)"
| "flow_step io (Flow_prepare r) f = snd (flow_prepare r f)"
| "flow_step io (Flow_consume t utc) f = snd (flow_consume io t utc f)"
| "flow_step io (Flow_start r) f = snd (flow_start io r f)"
| "flow_step io (Flow_inspect r) f = snd (flow_inspect io r f)"

section \<open>Steady clocks\<close>

text \<open>The readings a validator accepts out of those it is shown.\<close>

fun accepted :: "clock_validator \<Rightarrow> clock_reading list \<Rightarrow> clock_reading list" where
  "accepted v [] = []"
| "accepted v (r # rs) =
    (case clock_accept r v of (ok, v) \<Rightarrow> if ok then r # accepted v rs else accepted v rs)"

definition steady :: "clock_reading \<Rightarrow> clock_reading \<Rightarrow> bool" where
  "steady a b \<longleftrightarrow> r_session a = r_session b \<and> r_utc a \<le> r_utc b \<and> r_mono a \<le> r_mono b"

lemma steady_trans: "steady a b \<Longrightarrow> steady b c \<Longrightarrow> steady a c"
  by (auto simp: steady_def)

lemma failed_accepts_none: "cv_failed v \<Longrightarrow> accepted v rs = []"
  by (induction rs arbitrary: v) (simp_all add: clock_accept_def)

lemma rejection_fails: "clock_accept r v = (False, v') \<Longrightarrow> cv_failed v'"
  by (auto simp: clock_accept_def split: if_splits)

lemma acceptance_steady:
  assumes "clock_accept r v = (True, v')" and "cv_initialized v" and "r_session (cv_last v) = r_session (cv_anchor v)"
  shows "steady (cv_last v) r \<and> drift (cv_anchor v) r \<le> 1000 \<and> cv_initialized v' \<and> cv_last v' = r \<and>
    cv_anchor v' = cv_anchor v \<and> r_session r = r_session (cv_anchor v)"
  using assms by (auto simp: clock_accept_def steady_def not_less split: if_splits)

lemma first_acceptance:
  "clock_accept r fresh_clock = (True, v) \<Longrightarrow> cv_initialized v \<and> cv_last v = r \<and> cv_anchor v = r"
  by (auto simp: clock_accept_def fresh_clock_def split: if_splits)

lemma sorted_after:
  "steady a b \<Longrightarrow> sorted_wrt steady (b # xs) \<Longrightarrow> sorted_wrt steady (a # b # xs)"
  by (auto intro: steady_trans)

lemma accepted_steady:
  assumes "cv_initialized v" and "r_session (cv_last v) = r_session (cv_anchor v)"
  shows "prefix (accepted v rs) rs \<and> sorted_wrt steady (cv_last v # accepted v rs) \<and>
    list_all (\<lambda>r. drift (cv_anchor v) r \<le> 1000) (accepted v rs)"
  using assms
proof (induction rs arbitrary: v)
  case (Cons r rs)
  obtain ok u where c: "clock_accept r v = (ok, u)" by fastforce
  show ?case
  proof (cases ok)
    case True
    have a: "steady (cv_last v) r" "drift (cv_anchor v) r \<le> 1000" "cv_initialized u" "cv_last u = r"
      "cv_anchor u = cv_anchor v" "r_session r = r_session (cv_anchor v)"
      using acceptance_steady [of r v u] c True Cons.prems by auto
    have "prefix (accepted u rs) rs \<and> sorted_wrt steady (r # accepted u rs) \<and>
        list_all (\<lambda>r. drift (cv_anchor v) r \<le> 1000) (accepted u rs)"
      using Cons.IH [of u] a by simp
    then show ?thesis using c True a sorted_after [OF a(1), of "accepted u rs"] by simp
  next
    case False
    then have "accepted v (r # rs) = []" using c rejection_fails failed_accepts_none by simp
    then show ?thesis by simp
  qed
qed simp

lemma drift_none: "drift r r = 0"
  by (simp add: drift_def)

text \<open>
  Claim C40.  The readings a fresh validator accepts are the first ones it is shown, up to the
  first rejection: they share one session, neither clock ever runs backwards, and the two
  clocks stay within a second of each other, counted from the first reading.
\<close>

theorem accepted_clock_is_steady:
  "prefix (accepted fresh_clock rs) rs \<and> sorted_wrt steady (accepted fresh_clock rs) \<and>
   list_all (\<lambda>r. drift (hd (accepted fresh_clock rs)) r \<le> 1000) (accepted fresh_clock rs)"
proof (cases rs)
  case (Cons r qs)
  obtain ok v where c: "clock_accept r fresh_clock = (ok, v)" by fastforce
  show ?thesis
  proof (cases ok)
    case True
    then have "cv_initialized v" "cv_last v = r" "cv_anchor v = r" using first_acceptance c by auto
    then show ?thesis using accepted_steady [of v qs] c True Cons by (simp add: drift_none)
  qed (use c Cons rejection_fails failed_accepts_none in simp)
qed simp

section \<open>Journals are read back\<close>

lemma decoded_length: "decode_pairs s = (True, bs) \<Longrightarrow> length bs = length s div 2"
  by (induction s arbitrary: bs rule: decode_pairs.induct) (auto split: option.splits prod.splits)

lemma decoded_digest: "decode_hex_bytes s n = (True, bs) \<Longrightarrow> length bs = n"
  by (auto simp: decode_hex_bytes_def dest: decoded_length split: if_splits)

lemma journal_is_valid:
  assumes "journal st r start t q = Some j"
  shows "valid_journal j" and "j ! 6 = stage_code st" and "length j = 128"
proof -
  obtain a b where ab: "decode_hex_bytes t 32 = (True, a)" "decode_hex_bytes q 32 = (True, b)"
    and j: "j = sealed (le_put 4 0x4c4e4a53 @ le_put 2 1 @ [stage_code st] @ [0] @ le_put 8 (r_session r) @
      le_put 8 (r_utc r) @ le_put 8 start @ a @ b)"
    and g: "r_session r \<noteq> 0" "r_utc r \<noteq> 0" "st = j_start \<or> start = 0"
    using assms by (auto simp: journal_def split: if_splits prod.splits bool.splits)
  have n: "length a = 32" "length b = 32" using ab decoded_digest by blast+
  let ?c = "[stage_code st] @ [0] @ le_put 8 (r_session r) @ le_put 8 (r_utc r) @ le_put 8 start @ a @ b"
  have body: "j = (le_put 4 0x4c4e4a53 @ le_put 2 1 @ ?c) @ sha256_digest (le_put 4 0x4c4e4a53 @ le_put 2 1 @ ?c)"
    by (simp add: j sealed_def)
  show six: "j ! 6 = stage_code st"
    unfolding body by (simp add: nth_append)
  show "length j = 128" unfolding body by (simp add: n)
  have "field_at j 0 4 = 0x4c4e4a53" "field_at j 4 2 = 1" "field_at j 8 8 = r_session r" "field_at j 16 8 = r_utc r"
    "field_at j 24 8 = start"
    unfolding j sealed_def
    using field_at_put [of "[]" 0 4 "0x4c4e4a53"] field_at_put [of "le_put 4 0x4c4e4a53" 4 2 1]
      field_at_put [of "le_put 4 0x4c4e4a53 @ le_put 2 1 @ [stage_code st] @ [0]" 8 8 "r_session r"]
      field_at_put [of "le_put 4 0x4c4e4a53 @ le_put 2 1 @ [stage_code st] @ [0] @ le_put 8 (r_session r)" 16 8 "r_utc r"]
      field_at_put [of "le_put 4 0x4c4e4a53 @ le_put 2 1 @ [stage_code st] @ [0] @ le_put 8 (r_session r) @ le_put 8 (r_utc r)" 24 8 start]
    by (simp_all add: take_bit_whole)
  moreover have "j ! 7 = 0" unfolding body by (simp add: nth_append)
  moreover have "sha256_digest (take 96 j) = drop 96 j" unfolding body by (simp add: n)
  ultimately show "valid_journal j"
    using g six by (cases st) (auto simp: valid_journal_def)
qed

section \<open>The storage is asked in turn\<close>

definition staged_journal :: "journal_stage \<Rightarrow> u8 list \<Rightarrow> bool" where
  "staged_journal st j \<longleftrightarrow> valid_journal j \<and> j ! 6 = stage_code st"

text \<open>The request that may stand at each place of the trail.\<close>

definition in_turn :: "nat \<Rightarrow> grant_request \<Rightarrow> bool" where
  "in_turn i q =
    (case q of
       Issue_new b \<Rightarrow> i = 0
     | Request_new j \<Rightarrow> i = 1 \<and> staged_journal j_requested j
     | Burn_issued \<Rightarrow> i = 2
     | Update_request j \<Rightarrow> (i = 3 \<and> staged_journal j_consumed j) \<or> (i = 4 \<and> staged_journal j_start j))"

definition all_done :: "(grant_request \<times> io_result option) list \<Rightarrow> bool" where
  "all_done qs \<longleftrightarrow> list_all (\<lambda>(q, r). r = Some io_ok) qs"

definition asked_in_turn :: "(grant_request \<times> io_result option) list \<Rightarrow> bool" where
  "asked_in_turn qs \<longleftrightarrow>
    list_all (\<lambda>(i, q). in_turn i q) (enumerate 0 (map fst qs)) \<and> all_done (butlast qs)"

definition backed :: "'w grant_flow \<Rightarrow> bool" where
  "backed f \<longleftrightarrow>
    (cr_confirmed (gf_record f) \<longrightarrow>
      cr_state (gf_record f) = kConsumed \<and> 4 \<le> length (gf_requests f) \<and> all_done (take 4 (gf_requests f)))"

definition flow_ok :: "'w grant_flow \<Rightarrow> bool" where
  "flow_ok f \<longleftrightarrow>
    asked_in_turn (gf_requests f) \<and> backed f \<and>
    (\<not> gf_attempted f \<longrightarrow> gf_requests f = [] \<and> gf_record f = no_consumption \<and> \<not> gf_start_attempted f \<and> \<not> gf_issued f) \<and>
    (cr_state (gf_record f) = kIssued \<and> \<not> request_started (gf_record f) \<longrightarrow>
      length (gf_requests f) = 1 \<and> all_done (gf_requests f) \<and> \<not> gf_start_attempted f) \<and>
    (cr_confirmed (gf_record f) \<and> \<not> gf_start_attempted f \<longrightarrow>
      length (gf_requests f) = 4 \<and> all_done (gf_requests f))"

lemmas flow_defs = flow_ok_def backed_def

lemma turn_snoc:
  "asked_in_turn (qs @ [(q, r)]) \<longleftrightarrow>
    list_all (\<lambda>(i, q). in_turn i q) (enumerate 0 (map fst qs)) \<and> in_turn (length qs) q \<and> all_done qs"
  by (simp add: asked_in_turn_def enumerate_append_eq)

lemma turn_places: "asked_in_turn qs \<Longrightarrow> list_all (\<lambda>(i, q). in_turn i q) (enumerate 0 (map fst qs))"
  by (simp add: asked_in_turn_def)

lemma done_snoc: "all_done (qs @ [(q, r)]) \<longleftrightarrow> all_done qs \<and> r = Some io_ok"
  by (simp add: all_done_def)

lemma done_take: "all_done qs \<Longrightarrow> all_done (take k qs)"
  unfolding all_done_def by (metis append_take_drop_id list_all_append)

lemma journal_staged: "journal st r start t q = Some j \<Longrightarrow> staged_journal st j"
  using journal_is_valid by (simp add: staged_journal_def)

text \<open>Only the clock, the reading and the outside differ.\<close>

lemma flow_frame [simp]:
  "flow_ok (f\<lparr>gf_world := w\<rparr>) = flow_ok f" "flow_ok (f\<lparr>gf_clock := v\<rparr>) = flow_ok f"
  "flow_ok (f\<lparr>gf_reading := r\<rparr>) = flow_ok f"
  by (simp_all add: flow_defs)

lemma fresh_flow_ok: "flow_ok (fresh_flow w)"
  by (simp add: flow_defs fresh_flow_def asked_in_turn_def all_done_def no_consumption_def)

lemma uncertain_ok: "flow_ok f \<Longrightarrow> gf_attempted f \<Longrightarrow> flow_ok (uncertain f)"
  by (simp add: flow_defs uncertain_def)

text \<open>An uncertain flow needs only its trail in turn.\<close>

lemma uncertain_turn: "asked_in_turn (gf_requests f) \<Longrightarrow> gf_attempted f \<Longrightarrow> flow_ok (uncertain f)"
  by (simp add: flow_defs uncertain_def)

lemma inspect_ok: "ask_inspect io f = (b, f') \<Longrightarrow> \<exists>w. f' = f\<lparr>gf_world := w\<rparr>"
  by (auto simp: ask_inspect_def split: prod.splits)

text \<open>One more request of the trail.\<close>

lemma must_extends:
  assumes "must io q f = (ok, f')" and "asked_in_turn (gf_requests f)" and "all_done (gf_requests f)"
    and "in_turn (length (gf_requests f)) q"
  shows "asked_in_turn (gf_requests f') \<and> length (gf_requests f') = Suc (length (gf_requests f)) \<and>
    (ok \<longrightarrow> all_done (gf_requests f')) \<and> gf_record f' = gf_record f \<and> gf_attempted f' = gf_attempted f \<and>
    gf_start_attempted f' = gf_start_attempted f"
  using assms turn_places [OF assms(2)] by (auto simp: must_def turn_snoc done_snoc split: prod.splits)

lemma attempted_of: "flow_ok f \<Longrightarrow> cr_state (gf_record f) \<noteq> kUnissued \<Longrightarrow> gf_attempted f"
  by (auto simp: flow_ok_def no_consumption_def)

lemma confirmed_ok:
  assumes "asked_in_turn (gf_requests f)" "length (gf_requests f) = 4" "all_done (gf_requests f)"
    and "gf_attempted f" "\<not> gf_start_attempted f"
  shows "flow_ok (f\<lparr>gf_record := (gf_record f)\<lparr>cr_confirmed := True, cr_state := kConsumed\<rparr>\<rparr>)"
  using assms by (simp add: flow_defs)

lemma burn_ok:
  assumes "asked_in_turn (gf_requests f)" "length (gf_requests f) = 1" "all_done (gf_requests f)"
    and "gf_attempted f" "\<not> gf_start_attempted f"
    and jd: "journal j_requested r 0 (gf_hash f) (gf_object_hash f) = Some j"
  shows "flow_ok (snd (handled (burn_and_mark io r j f)))"
proof -
  obtain a g where a: "must io (Request_new j) f = (a, g)" by fastforce
  have "staged_journal j_requested j" using journal_staged [OF jd] .
  then have A: "asked_in_turn (gf_requests g)" "length (gf_requests g) = 2" "a \<Longrightarrow> all_done (gf_requests g)"
    "gf_attempted g" "\<not> gf_start_attempted g"
    using must_extends [OF a] assms by (auto simp: in_turn_def)
  obtain b h where b: "must io Burn_issued g = (b, h)" by fastforce
  have B: "asked_in_turn (gf_requests h)" "length (gf_requests h) = 3" "b \<Longrightarrow> all_done (gf_requests h)"
    "gf_attempted h" "\<not> gf_start_attempted h" if a
    using must_extends [OF b] A that by (auto simp: in_turn_def)
  have same: "gf_hash h = gf_hash f" "gf_object_hash h = gf_object_hash f"
    using a b by (auto simp: must_def split: prod.splits)
  obtain k where k: "journal j_consumed r 0 (gf_hash h) (gf_object_hash h) = Some k"
    using jd by (auto simp: journal_def same split: if_splits prod.splits bool.splits)
  obtain c i where c: "must io (Update_request k) h = (c, i)" by fastforce
  have C: "asked_in_turn (gf_requests i)" "length (gf_requests i) = 4" "c \<Longrightarrow> all_done (gf_requests i)"
    "gf_attempted i" "\<not> gf_start_attempted i" if a b
    using must_extends [OF c] B that journal_staged [OF k] by (auto simp: in_turn_def)
  show ?thesis
    using a b c k A B C
    by (cases a; cases b; cases c)
      (simp_all add: burn_and_mark_def handled_def uncertain_turn confirmed_ok)
qed

lemma consume_ok:
  assumes "flow_ok f"
  shows "flow_ok (snd (handled (consume_reading io r f)))"
proof (cases "\<not> gf_issued f \<or> \<not> persisted_issuance (gf_record f) \<or> cr_unknown (gf_record f) \<or>
    cr_state (gf_record f) \<noteq> kIssued \<or> request_started (gf_record f) \<or> \<not> launch_window (gf_target f) r")
  case False
  then have f: "asked_in_turn (gf_requests f)" "length (gf_requests f) = 1" "all_done (gf_requests f)" "gf_attempted f"
    "\<not> gf_start_attempted f"
    using assms attempted_of [OF assms] by (auto simp: flow_defs)
  obtain b w where i: "ask_inspect io f = (b, f\<lparr>gf_world := w\<rparr>)"
    using inspect_ok by (metis surj_pair)
  show ?thesis
  proof (cases "b = Some True")
    case True
    define g where "g = f\<lparr>gf_world := w, gf_record := (gf_record f)\<lparr>request_started := True\<rparr>\<rparr>"
    have g: "asked_in_turn (gf_requests g)" "length (gf_requests g) = 1" "all_done (gf_requests g)" "gf_attempted g"
      "\<not> gf_start_attempted g"
      using f by (simp_all add: g_def)
    have e: "consume_reading io r f = (case journal j_requested r 0 (gf_hash g) (gf_object_hash g) of
        None \<Rightarrow> (None, g) | Some j \<Rightarrow> burn_and_mark io r j g)"
      using False i True by (simp add: consume_reading_def g_def Let_def split: option.split)
    show ?thesis
    proof (cases "journal j_requested r 0 (gf_hash g) (gf_object_hash g)")
      case None
      then show ?thesis using e uncertain_turn [OF g(1,4)] by (simp add: handled_def)
    next
      case (Some j)
      then show ?thesis using e burn_ok [OF g Some] by simp
    qed
  next
    case no: False
    then show ?thesis
      using False i assms uncertain_turn [of "f\<lparr>gf_world := w\<rparr>"] f
      by (cases b) (auto simp: consume_reading_def handled_def)
  qed
qed (use assms in \<open>auto simp: consume_reading_def handled_def\<close>)

lemma issued_ok:
  assumes "asked_in_turn (gf_requests f)" "length (gf_requests f) = 1" "all_done (gf_requests f)"
    and "gf_attempted f" "\<not> gf_start_attempted f" "\<not> cr_confirmed (gf_record f)"
  shows "flow_ok (f\<lparr>gf_target := t, gf_hash := a, gf_issued := True, gf_issued_utc := u, gf_receipt_hash := d,
    gf_record := (gf_record f)\<lparr>persisted_issuance := True, cr_state := kIssued\<rparr>\<rparr>)"
  using assms by (simp add: flow_defs)

lemma issue_ok:
  assumes "flow_ok f"
  shows "flow_ok (snd (flow_issue io p r current sid clock f))"
proof (cases "gf_attempted f")
  case False
  then have f: "gf_requests f = []" "gf_record f = no_consumption" "\<not> gf_start_attempted f"
    using assms by (auto simp: flow_ok_def)
  obtain ok v where c: "clock_accept clock (gf_clock f) = (ok, v)" by fastforce
  obtain known w where k: "io_principal io sid (gf_world f) = (known, w)" by fastforce
  define g where "g = f\<lparr>gf_attempted := True, gf_clock := v, gf_world := w\<rparr>"
  have g: "flow_ok g" "flow_ok (f\<lparr>gf_attempted := True, gf_clock := v\<rparr>)"
    using f by (simp_all add: g_def flow_defs asked_in_turn_def all_done_def no_consumption_def)
  have "flow_ok (snd (handled (issue_approved io p current clock g)))"
  proof (cases "receipt p clock")
    case None
    then show ?thesis using g by (simp add: issue_approved_def handled_def)
  next
    case (Some b)
    obtain a h where a: "ask_issue io b g = (a, h)" by fastforce
    have h: "gf_requests h = [(Issue_new b, a)]" "gf_record h = no_consumption" "gf_attempted h" "\<not> gf_start_attempted h"
      using a f by (auto simp: ask_issue_def g_def split: prod.splits)
    then have turn: "asked_in_turn (gf_requests h)"
      by (simp add: asked_in_turn_def in_turn_def all_done_def)
    have plain: "flow_ok h" using h turn by (simp add: flow_defs no_consumption_def)
    obtain z x where z: "ask_inspect io h = (z, h\<lparr>gf_world := x\<rparr>)" using inspect_ok by (metis surj_pair)
    obtain good oh where oh: "compute_object_identity_sha256 (ap_target_hash p) (gf_pins h) (account_identity_sha256 current) = (good, oh)"
      by fastforce
    have "flow_ok (snd (handled (issue_created io p current clock b h)))" if "a = Some io_ok"
    proof -
      have d: "all_done (gf_requests h)" "\<not> cr_confirmed (gf_record h)"
        using that h by (simp_all add: all_done_def no_consumption_def)
      show ?thesis
        using h turn z oh d uncertain_turn [of "h\<lparr>gf_world := x\<rparr>"] uncertain_turn [of "h\<lparr>gf_world := x, gf_object_hash := oh\<rparr>"]
          issued_ok [of "h\<lparr>gf_world := x, gf_object_hash := oh\<rparr>"]
        by (simp add: issue_created_def handled_def Let_def uncertain_turn)
    qed
    then show ?thesis
      using Some a plain uncertain_turn [OF turn h(3)]
      by (auto simp: issue_approved_def handled_def split: option.split io_result.split)
  qed
  then show ?thesis
    using False c k g uncertain_ok [OF g(1)]
    by (auto simp: flow_issue_def g_def Let_def)
qed (use assms in \<open>simp add: flow_issue_def\<close>)

lemma prepare_ok: "flow_ok f \<Longrightarrow> flow_ok (snd (flow_prepare r f))"
  by (simp add: flow_prepare_def Let_def split: prod.split)

lemma inspected_ok:
  assumes "flow_ok f" and "gf_attempted f"
  shows "flow_ok (snd (handled (ask_inspect io f)))"
proof -
  obtain b w where "ask_inspect io f = (b, f\<lparr>gf_world := w\<rparr>)" using inspect_ok by (metis surj_pair)
  then show ?thesis
    using assms uncertain_ok [of "f\<lparr>gf_world := w\<rparr>"] by (cases b) (simp_all add: handled_def)
qed

lemma start_ok:
  assumes "flow_ok f"
  shows "flow_ok (snd (flow_start io r f))"
proof (cases "\<not> cr_confirmed (gf_record f) \<or> cr_unknown (gf_record f) \<or> cr_state (gf_record f) \<noteq> kConsumed \<or>
    gf_start_attempted f")
  case False
  then have f: "asked_in_turn (gf_requests f)" "length (gf_requests f) = 4" "all_done (gf_requests f)" "gf_attempted f"
    using assms attempted_of [OF assms] by (auto simp: flow_defs)
  obtain ok v where c: "clock_accept r (gf_clock f) = (ok, v)" by fastforce
  define g where "g = f\<lparr>gf_start_attempted := True, gf_clock := v\<rparr>"
  have g: "asked_in_turn (gf_requests g)" "length (gf_requests g) = 4" "all_done (gf_requests g)" "gf_attempted g"
    "gf_start_attempted g" "flow_ok g"
    using f False assms by (simp_all add: g_def flow_defs)
  obtain b w where i: "ask_inspect io g = (b, g\<lparr>gf_world := w\<rparr>)" using inspect_ok by (metis surj_pair)
  define h where "h = g\<lparr>gf_world := w\<rparr>"
  have h: "asked_in_turn (gf_requests h)" "length (gf_requests h) = 4" "all_done (gf_requests h)" "gf_attempted h"
    "gf_start_attempted h" "flow_ok h" "cr_state (gf_record h) = kConsumed"
    using g False by (simp_all add: h_def g_def)
  have e: "flow_start io r f = (if \<not> ok \<or> \<not> launch_window (gf_target f) r then (False, g) else
      case b of None \<Rightarrow> (False, uncertain h) | Some False \<Rightarrow> (False, h)
      | Some True \<Rightarrow> (case journal j_start r (r_mono r) (gf_hash h) (gf_object_hash h) of
          None \<Rightarrow> (False, uncertain h)
        | Some j \<Rightarrow> (case must io (Update_request j) h of (ok, f) \<Rightarrow> if ok then (True, f) else (False, uncertain f))))"
    using False c i by (simp add: flow_start_def g_def h_def Let_def split: option.split bool.split)
  have "flow_ok (snd (case must io (Update_request j) h of (ok, f) \<Rightarrow> if ok then (True, f) else (False, uncertain f)))"
    if j: "journal j_start r (r_mono r) (gf_hash h) (gf_object_hash h) = Some j" for j
  proof -
    obtain a k where a: "must io (Update_request j) h = (a, k)" by fastforce
    have "in_turn 4 (Update_request j)" using journal_staged [OF j] by (simp add: in_turn_def)
    then have k: "asked_in_turn (gf_requests k)" "length (gf_requests k) = 5" "a \<Longrightarrow> all_done (gf_requests k)"
      "gf_record k = gf_record h" "gf_attempted k" "gf_start_attempted k"
      using must_extends [OF a] h by auto
    then show ?thesis
      using a h(7) uncertain_turn [OF k(1,5)]
      by (cases a) (simp_all add: flow_defs done_take)
  qed
  then show ?thesis
    using e g h uncertain_ok [OF h(6,4)] by (auto split: option.split bool.split)
qed (use assms in \<open>auto simp: flow_start_def\<close>)

lemma step_ok:
  assumes "flow_ok f"
  shows "flow_ok (flow_step io q f)"
proof (cases q)
  case (Flow_inspect r)
  obtain ok v where c: "clock_accept r (gf_clock f) = (ok, v)" by fastforce
  have "gf_issued f \<Longrightarrow> gf_attempted (f\<lparr>gf_clock := v\<rparr>)" using assms by (auto simp: flow_ok_def)
  then show ?thesis
    using Flow_inspect c assms inspected_ok [of "f\<lparr>gf_clock := v\<rparr>" io]
    by (simp add: flow_inspect_def Let_def)
qed (use assms in \<open>simp_all add: issue_ok prepare_ok start_ok flow_consume_def consume_ok\<close>)

lemma flow_run_ok: "flow_ok (fold (flow_step io) qs (fresh_flow w))"
  by (induction qs rule: rev_induct) (simp_all add: fresh_flow_ok step_ok)

text \<open>
  Claim C39.  However the calls of a grant flow are ordered and whatever the storage answers,
  it is asked for one issue, one request, one burn and two updates at most, in this order;
  each is asked only when every earlier one was answered ok, each journal is valid and of its
  own stage, and a confirmed consumption has its issue, request, burn and update behind it.
\<close>

theorem grant_is_spent_once:
  "asked_in_turn (gf_requests (fold (flow_step io) qs (fresh_flow w))) \<and>
   backed (fold (flow_step io) qs (fresh_flow w))"
  using flow_run_ok [of io qs w] by (simp add: flow_ok_def)

end
