(* ===== verification/Spec2Isabelle.thy ===== *)
theory Spec2Isabelle
  imports Native_Core Native_Crypto Association_Contract Exchange_Custody Exchange_Contract Discovery_Contract Windows_Contract Owner_Exports Relay_Trust
    Crypto_Candidate Crypto_Report Certificate_Der Frame_Protocol Peer_Policy Grant_Supervisor
    Binding_Hash Admission_Order Grant_Flow
begin

text \<open>
  A model of the Windows native code of the Shiroha Quiz application, the C++ under
  \<open>src/windows\<close> that the Dart program and its external host reach through a C ABI.

  \<^bold>\<open>Parts of the program and how they interact.\<close>  Four libraries and programs are modelled.

  \<^item> The helper library (\<open>src/windows/external_native\<close>).  Its memory-only exports transform
    bytes with DPAPI, locate local application data, allocate buffers, generate and use P-256
    keys and judge a peer certificate.  Its owner exports give an application or a bridge a
    lease on a protected directory and run transactions on it: association and credential
    files, objects exchanged between the two roles, and the discovery objects.  The
    transactions call a table of virtual operations (\<open>ObjectOperations\<close>), which
    \<open>protected_windows.cpp\<close> implements as sequences of system calls.
  \<^item> The relay (\<open>src/windows/local_relay/local_relay.cpp\<close>): one named pipe per process, whose
    two ends authenticate each other through what the system reports of the other process.
  \<^item> The bounded cryptographic sequence (\<open>external_native/diagnostics/l1_crypto_probe\<close>): the
    seven allowed exports called in a fixed order of sixteen steps under budgets, a deadline
    and resource ceilings, building and verifying three certificates in memory.
  \<^item> Its supervision (\<open>diagnostics/l1_crypto_admission.h\<close>, \<open>diagnostics/l1_e4_protocol.h\<close>): a
    one-use grant, a supervisor that earns a verdict from what it observes, and the frames
    that carry the worker's ledger and observer to it.

  \<^bold>\<open>Theories, in the order of the code.\<close>

  \<^item> \<open>Native_Prelude\<close>: machine integers, \<open>status\<close> (\<open>ShirohaNativeStatus\<close>), wide strings, errors as
    values and the automation shared by all.  \<open>Native_Memory\<close>: byte-addressed memory as a
    function of 64-bit addresses, and the checks \<open>span\<close>, \<open>overlaps\<close>, \<open>aligned8\<close> with their wrapping
    additions.
  \<^item> \<open>Native_Core\<close> (\<open>native_core.cpp\<close>): \<open>transform\<close>, \<open>local_app_data\<close>, \<open>buffer_alloc\<close>, \<open>buffer_free\<close>.
    The state is memory and a log of the services called.  Shown: all or nothing, no write
    outside the outputs, one call and one wiped release.
  \<^item> \<open>P256_Codec\<close> (\<open>p256_key_codec.cpp\<close>): encoder and strict decoder; the decoder accepts exactly a
    declarative set of documents and inverts the encoder.
  \<^item> \<open>Native_Crypto\<close> (\<open>native_crypto.cpp\<close>, \<open>crypto_windows.cpp\<close>): the ECDSA exports and their CNG
    calls; outputs are cleared on failure, inputs unchanged, every handle released once.
  \<^item> \<open>Peer_Policy\<close> (\<open>peer_policy.cpp\<close>, \<open>peer_policy_windows.cpp\<close>): inspection and decision, and the
    allocations of the inspection; equivalent to one declarative certificate profile.
  \<^item> \<open>Object_Policy\<close>, \<open>Object_Ops\<close>, \<open>Owner_Leases\<close> (\<open>protected_objects.cpp\<close> and its headers): names,
    object validity, the operations table as a function from the calls made so far to the next
    answer, and the lease state machine: \<open>acquire\<close>, \<open>validate\<close>, \<open>close_owner\<close>, destruction.
  \<^item> \<open>Association_Store\<close>, \<open>Exchange_Store\<close>, \<open>Discovery_Store\<close> (\<open>association_files.cpp\<close>,
    \<open>exchange_files.cpp\<close>, \<open>discovery_files.cpp\<close>): the transactions, with every early return and
    exception handler as a branch.  The theories named \<open>_Contract\<close> show what they promise: one
    rename at most, success only when it was confirmed, deletion only of what was read, ticket
    retirement.
  \<^item> \<open>Custody_Rules\<close>, \<open>Owner_Custody\<close>, \<open>Exchange_Custody\<close>, \<open>Discovery_Custody\<close>: the locale of an
    operation that keeps custody, and the system-wide invariant that leases and closes account
    for every opened handle.  \<open>Owner_Exports\<close> (the exported functions) closes it over every
    sequence of calls; \<open>Owner_Liveness\<close> shows that an acquisition can succeed; \<open>Sample_World\<close> is
    the concrete system of the witnesses.
  \<^item> \<open>Windows_Api\<close>, \<open>Directory_Listing\<close>, \<open>Windows_Objects\<close>, \<open>Windows_Contract\<close>
    (\<open>protected_windows.cpp\<close>): each virtual operation as its sequence of system calls, the parsers
    of directory listings, and what the operations owe to the core.
  \<^item> \<open>Relay_Api\<close>, \<open>Relay_Pipe\<close>, \<open>Relay_Exports\<close> (\<open>local_relay.cpp\<close>): the pipe and every exported call;
    \<open>Relay_Contract\<close> refines them to a machine of three sides and three stages, \<open>Relay_Trust\<close>
    shows that a joined peer was vouched for.
  \<^item> \<open>Native_Observation\<close> (\<open>l1_native_observation.h\<close>): counted calls and release tickets.
    \<open>Sha256\<close> and \<open>Certificate_Der\<close>: hashing and DER, with the certificate round trip.
    \<open>Crypto_Ledger\<close>, \<open>Crypto_Pool\<close>, \<open>Crypto_Sequence\<close>: \<open>L1CryptoLedger\<close>, \<open>L1CryptoBufferPool\<close> and
    \<open>run_l1_crypto_sequence\<close> over injected functions.  \<open>Crypto_Contract\<close>: the locale
    \<open>lawful_probe\<close>, in which budgets and releases are proved once; \<open>Crypto_Candidate\<close>
    (\<open>l1_crypto_probe.cpp\<close>) interprets it on the modelled exports themselves.  \<open>Crypto_Report\<close>:
    the locale \<open>reporting_probe\<close>, interpreted on the same program, for what it can report.
  \<^item> \<open>Frame_Protocol\<close> (\<open>l1_e4_protocol.h\<close>): frames, the settlement record and the channel.
    \<open>Grant_Supervisor\<close> (\<open>l1_crypto_admission.h\<close>): the grant cell and the supervisor, and the
    invariant over every order of their events.
  \<^item> \<open>Binding_Hash\<close> and \<open>Windows_Admission\<close> (\<open>l1_windows_admission.h\<close>): the canonical bytes whose hash
    binds a grant to an account and to the pinned objects, shown to determine what they bind,
    and the adapter \<open>WindowsAdmissionCandidate\<close> over its virtual operations.  \<open>Admission_Order\<close>
    shows for every sequence of its calls that one consumption and then one start are asked
    for at most, and what a reported PASS rests on.
  \<^item> \<open>Grant_Flow\<close> (the first half of \<open>l1_e4_admission.h\<close>): the clock validator, the approval
    prompt and its confirmation, receipts and journals, and \<open>GrantFlow\<close> over its storage
    operations, an exception of which is the answer \<open>None\<close>.  Shown: the readings it accepts
    are one steady clock, and the storage is asked in a fixed order, each request once.

  \<^bold>\<open>What is a parameter.\<close>  The answers of the operating system, of DPAPI, CNG, crypt32 and the
  allocator are arguments of the definitions, records of functions or one function from the
  history of calls to the next answer, so a theorem holds for every behaviour of them unless it
  names what it assumes.  The relay's sized allocations are calls that may fail; exceptions of
  short strings are not modelled.  The observed native calls inside an export reach the
  candidate's observer as a list of events, each with its answer.

  \<^bold>\<open>Bounds and fuel.\<close>  The scan for the parent process reads at most 65536 entries and the frame
  reader makes at most 64 reads, as the code says; the directory walks are recursive on the
  remaining bytes of a page, and the loop over pages is a partial function whose termination
  is proved for every system that ends its listing.  All other loops are recursions on lists.
  The budgets of the sequence (106 calls) are the code's constants and are proved to suffice
  for every release.

  \<^bold>\<open>Not modelled.\<close>  The Flutter runner and generated glue; \<open>native_windows.cpp\<close>, which forwards to
  the modelled operations; the Windows adapters, controllers, workers and trial roots of the
  diagnostics (\<open>l1_windows_operations\<close>, the controller and the worker of \<open>l1_e4_admission.h\<close>, \<open>l1_e5_*\<close>, \<open>l1_b1_*\<close>, \<open>l1_r1_*\<close>, \<open>l1_r2_*\<close>, \<open>l1_s1_*\<close>,
  \<open>l1_trial1a_*\<close>), which wrap the modelled supervisor, frames and sequence in processes, jobs and
  pipes of one experiment; the redacted text summary of a ledger; the Dart, Kotlin, C# and
  PowerShell parts; tests.  The thread-local installation of an observer and the lifetime of
  C++ objects appear only as the order of the releases they cause.
\<close>

end
